(* ===== verification/Prelude.thy ===== *)
theory Prelude
  imports Main "HOL-Library.Sublist" "HOL-Library.Word"
begin

unbundle bit_operations_syntax

text \<open>
  Shared vocabulary of the development.

  \<^item> Rust's \<open>std::cmp::Ordering\<close> as \<open>ordering\<close>, with \<open>cmp\<close> for linearly ordered
    values, and the locale \<open>comparator\<close>: what a caller of a comparison function
    (a sort, a binary search, a range test) relies on.
  \<^item> Rust's \<open>str\<close> as the list of its UTF-8 bytes (\<open>string\<close>), with the
    standard-library operations the program uses on it: splitting, joining, searching,
    trimming of Unicode white space, bytewise comparison, decimal parsing and printing.
  \<^item> A panic of the program is \<open>None\<close> of an \<open>option\<close> result; a Rust
    \<open>Result\<close> is a sum with \<open>Inl\<close> the error.
\<close>

named_theorems ts_inv \<open>operations keep the invariant of their component\<close>
named_theorems ts_abs \<open>operations seen through the abstraction function of their component\<close>

section \<open>Orderings\<close>

datatype ordering = Less | Equal | Greater

fun rev_ord :: "ordering \<Rightarrow> ordering" where
  "rev_ord Less = Greater"
| "rev_ord Equal = Equal"
| "rev_ord Greater = Less"

definition cmp :: "'a::linorder \<Rightarrow> 'a \<Rightarrow> ordering" where
  "cmp x y = (if x < y then Less else if x = y then Equal else Greater)"

lemma cmp_simps [simp]:
  "cmp x x = Equal"
  "cmp x y = Equal \<longleftrightarrow> x = y"
  "cmp x y = Less \<longleftrightarrow> x < y"
  "cmp x y = Greater \<longleftrightarrow> y < x"
  by (auto simp: cmp_def)

lemma cmp_Suc [simp]: "cmp (Suc m) (Suc n) = cmp m n"
  by (simp add: cmp_def)

lemma rev_ord_rev_ord [simp]: "rev_ord (rev_ord c) = c"
  by (cases c) auto

lemma rev_ord_cmp: "rev_ord (cmp x y) = cmp y x"
  by (auto simp: cmp_def)

text \<open>
  The contract of a comparison function: equal to itself, antisymmetric, and transitive
  in the form that also says that equal elements are interchangeable.
\<close>

locale comparator =
  fixes cm :: "'a \<Rightarrow> 'a \<Rightarrow> ordering"
  assumes cm_refl: "cm x x = Equal"
    and cm_sym: "cm y x = rev_ord (cm x y)"
    and cm_trans: "cm x y \<noteq> Greater \<Longrightarrow> cm y z \<noteq> Greater \<Longrightarrow> cm x z \<noteq> Greater"
begin

lemma cm_Greater: "cm x y = Greater \<longleftrightarrow> cm y x = Less"
  using cm_sym [of y x] by (cases "cm x y") auto

lemma cm_Equal_sym: "cm x y = Equal \<longleftrightarrow> cm y x = Equal"
  using cm_sym [of y x] by (cases "cm x y") auto

lemma cm_total: "cm x y \<noteq> Greater \<or> cm y x \<noteq> Greater"
  using cm_sym [of y x] by (cases "cm x y") auto

lemma cm_Equal_iff: "cm x y = Equal \<longleftrightarrow> cm x y \<noteq> Greater \<and> cm y x \<noteq> Greater"
  using cm_sym [of y x] by (cases "cm x y") auto

lemma cm_Less_iff: "cm x y = Less \<longleftrightarrow> cm y x = Greater"
  using cm_sym [of y x] by (cases "cm x y") auto

lemma cm_less_trans: "cm x y = Less \<Longrightarrow> cm y z \<noteq> Greater \<Longrightarrow> cm x z = Less"
  by (metis cm_Greater cm_trans cm_Less_iff ordering.distinct(3) ordering.exhaust)

lemma cm_less_trans2: "cm x y \<noteq> Greater \<Longrightarrow> cm y z = Less \<Longrightarrow> cm x z = Less"
  by (metis cm_Greater cm_trans cm_Less_iff ordering.distinct(3) ordering.exhaust)

lemma cm_Equal_left: "cm x y = Equal \<Longrightarrow> cm x z = cm y z"
  by (metis cm_Equal_iff cm_Greater cm_less_trans2 cm_less_trans ordering.exhaust)

lemma cm_Equal_right: "cm x y = Equal \<Longrightarrow> cm z x = cm z y"
  using cm_Equal_left [of x y z] cm_sym [of z x] cm_sym [of z y] by simp

end

interpretation linorder_cmp: comparator "cmp :: 'a::linorder \<Rightarrow> 'a \<Rightarrow> ordering"
  by unfold_locales (auto simp: rev_ord_cmp cmp_def split: if_splits)

text \<open>Comparing by a first criterion and, where it says equal, by a second one.\<close>

definition then_with :: "ordering \<Rightarrow> ordering \<Rightarrow> ordering" where
  "then_with a b = (if a \<noteq> Equal then a else b)"

lemma then_with_simps [simp]:
  "then_with Equal b = b" "then_with Less b = Less" "then_with Greater b = Greater"
  by (simp_all add: then_with_def)

lemma then_with_Equal_right [simp]: "then_with a Equal = a"
  by (simp add: then_with_def)

lemma then_with_eq_Equal [simp]: "then_with a b = Equal \<longleftrightarrow> a = Equal \<and> b = Equal"
  by (simp add: then_with_def)

lemma comparator_then_with:
  assumes "comparator c" "comparator d"
  shows "comparator (\<lambda>x y. then_with (c x y) (d x y))"
proof -
  note c = assms(1) and d = assms(2)
  show ?thesis
  proof
    show "then_with (c x x) (d x x) = Equal" for x
      by (simp add: comparator.cm_refl [OF c] comparator.cm_refl [OF d])
    show "then_with (c y x) (d y x) = rev_ord (then_with (c x y) (d x y))" for x y
      using comparator.cm_sym [OF c, of y x] comparator.cm_sym [OF d, of y x]
      by (cases "c x y"; cases "d x y") auto
    show "then_with (c x z) (d x z) \<noteq> Greater"
      if "then_with (c x y) (d x y) \<noteq> Greater" "then_with (c y z) (d y z) \<noteq> Greater" for x y z
    proof (cases "c x y = Equal \<and> c y z = Equal")
      case True
      then show ?thesis
        using that comparator.cm_trans [OF d, of x y z] comparator.cm_Equal_left [OF c, of x y z]
        by auto
    next
      case False
      then have "c x y = Less \<and> c y z \<noteq> Greater \<or> c x y \<noteq> Greater \<and> c y z = Less"
        using that by (cases "c x y"; cases "c y z") auto
      then have "c x z = Less"
        using comparator.cm_less_trans [OF c] comparator.cm_less_trans2 [OF c] by blast
      then show ?thesis by simp
    qed
  qed
qed

lemma comparator_key_cmp: "comparator (\<lambda>x y. cmp (f x) (f y))"
  by unfold_locales (auto simp: rev_ord_cmp cmp_def split: if_splits)

lemma comparator_on_key: "comparator c \<Longrightarrow> comparator (\<lambda>x y. c (f x) (f y))"
  unfolding comparator_def by blast

text \<open>Lexicographic comparison of lists: the first difference decides, a proper prefix is less.\<close>

fun lex_cmp :: "('a \<Rightarrow> 'a \<Rightarrow> ordering) \<Rightarrow> 'a list \<Rightarrow> 'a list \<Rightarrow> ordering" where
  "lex_cmp c [] [] = Equal"
| "lex_cmp c [] (y # ys) = Less"
| "lex_cmp c (x # xs) [] = Greater"
| "lex_cmp c (x # xs) (y # ys) = then_with (c x y) (lex_cmp c xs ys)"

lemma lex_cmp_refl: "comparator c \<Longrightarrow> lex_cmp c xs xs = Equal"
  by (induction xs) (auto simp: comparator.cm_refl)

lemma lex_cmp_sym:
  assumes "comparator c"
  shows "lex_cmp c ys xs = rev_ord (lex_cmp c xs ys)"
proof (induction xs ys rule: list_induct2')
  case (4 x xs y ys)
  then show ?case
    using comparator.cm_sym [OF assms, of y x] by (cases "c x y") auto
qed auto

lemma lex_cmp_trans:
  assumes c: "comparator c"
  shows "lex_cmp c xs ys \<noteq> Greater \<Longrightarrow> lex_cmp c ys zs \<noteq> Greater \<Longrightarrow> lex_cmp c xs zs \<noteq> Greater"
proof (induction xs arbitrary: ys zs)
  case Nil
  then show ?case by (cases zs) auto
next
  case (Cons x xs)
  from Cons.prems obtain y ys' z zs' where eqs: "ys = y # ys'" "zs = z # zs'"
    by (cases ys; cases zs) auto
  show ?case
  proof (cases "c x y = Equal \<and> c y z = Equal")
    case True
    then show ?thesis
      using Cons comparator.cm_Equal_left [OF c, of x y z] by (auto simp: eqs)
  next
    case False
    then have "c x y = Less \<and> c y z \<noteq> Greater \<or> c x y \<noteq> Greater \<and> c y z = Less"
      using Cons.prems by (cases "c x y"; cases "c y z") (auto simp: eqs)
    then have "c x z = Less"
      using comparator.cm_less_trans [OF c] comparator.cm_less_trans2 [OF c] by blast
    then show ?thesis by (simp add: eqs)
  qed
qed

lemma comparator_lex_cmp: "comparator c \<Longrightarrow> comparator (lex_cmp c)"
  using lex_cmp_refl lex_cmp_sym lex_cmp_trans by (metis comparator.intro)

lemma lex_cmp_Equal_iff:
  assumes "\<And>x y. c x y = Equal \<longleftrightarrow> x = y"
  shows "lex_cmp c xs ys = Equal \<longleftrightarrow> xs = ys"
  by (induction xs ys rule: list_induct2') (auto simp: assms)

section \<open>Characters and byte strings\<close>

definition is_ascii_digit :: "char \<Rightarrow> bool" where
  "is_ascii_digit c \<longleftrightarrow> 48 \<le> (of_char c :: nat) \<and> (of_char c :: nat) \<le> 57"

definition is_ascii_uppercase :: "char \<Rightarrow> bool" where
  "is_ascii_uppercase c \<longleftrightarrow> 65 \<le> (of_char c :: nat) \<and> (of_char c :: nat) \<le> 90"

definition is_ascii_lowercase :: "char \<Rightarrow> bool" where
  "is_ascii_lowercase c \<longleftrightarrow> 97 \<le> (of_char c :: nat) \<and> (of_char c :: nat) \<le> 122"

definition is_ascii_alphabetic :: "char \<Rightarrow> bool" where
  "is_ascii_alphabetic c \<longleftrightarrow> is_ascii_uppercase c \<or> is_ascii_lowercase c"

definition is_ascii_alphanumeric :: "char \<Rightarrow> bool" where
  "is_ascii_alphanumeric c \<longleftrightarrow> is_ascii_alphabetic c \<or> is_ascii_digit c"

definition is_ascii :: "string \<Rightarrow> bool" where
  "is_ascii s \<longleftrightarrow> list_all (\<lambda>c. (of_char c :: nat) < 128) s"

definition to_ascii_lowercase :: "string \<Rightarrow> string" where
  "to_ascii_lowercase s =
     map (\<lambda>c. if is_ascii_uppercase c then char_of ((of_char c :: nat) + 32) else c) s"

lemmas char_class_defs =
  is_ascii_digit_def is_ascii_uppercase_def is_ascii_lowercase_def is_ascii_alphabetic_def
  is_ascii_alphanumeric_def

text \<open>Rust compares strings bytewise.\<close>

definition char_cmp :: "char \<Rightarrow> char \<Rightarrow> ordering" where
  "char_cmp a b = cmp (of_char a :: nat) (of_char b)"

definition str_cmp :: "string \<Rightarrow> string \<Rightarrow> ordering" where
  "str_cmp = lex_cmp char_cmp"

lemma comparator_char_cmp: "comparator char_cmp"
  unfolding char_cmp_def by (rule comparator_on_key) (rule linorder_cmp.comparator_axioms)

lemma char_cmp_Equal [simp]: "char_cmp a b = Equal \<longleftrightarrow> a = b"
  by (simp add: char_cmp_def)

interpretation str_cmp: comparator str_cmp
  unfolding str_cmp_def by (rule comparator_lex_cmp) (rule comparator_char_cmp)

lemma str_cmp_Equal [simp]: "str_cmp a b = Equal \<longleftrightarrow> a = b"
  by (simp add: str_cmp_def lex_cmp_Equal_iff)

subsection \<open>Splitting and joining\<close>

text \<open>\<open>str::split\<close> with a character: always at least one piece.\<close>

fun split_on :: "char \<Rightarrow> string \<Rightarrow> string list" where
  "split_on d [] = [[]]"
| "split_on d (c # cs) =
     (if c = d then [] # split_on d cs
      else (case split_on d cs of [] \<Rightarrow> [[c]] | w # ws \<Rightarrow> (c # w) # ws))"

fun join :: "string \<Rightarrow> string list \<Rightarrow> string" where
  "join d [] = []"
| "join d [w] = w"
| "join d (w # v # ws) = w @ d @ join d (v # ws)"

lemma split_on_neq_Nil [simp]: "split_on d s \<noteq> []"
  by (cases s) (auto split: list.splits)

lemma split_on_no_delim: "d \<notin> set s \<Longrightarrow> split_on d s = [s]"
  by (induction s) auto

lemma split_on_append: "d \<notin> set w \<Longrightarrow> split_on d (w @ d # s) = w # split_on d s"
  by (induction w) auto

lemma split_on_append_delim: "split_on d (a @ d # b) = split_on d a @ split_on d b"
  by (induction a) (auto split: list.splits)

lemma join_split_on [simp]: "join [d] (split_on d s) = s"
proof (induction s)
  case (Cons c cs)
  then show ?case
    by (cases "split_on d cs"; cases "tl (split_on d cs)") auto
qed simp

lemma split_on_join:
  "ws \<noteq> [] \<Longrightarrow> list_all (\<lambda>w. d \<notin> set w) ws \<Longrightarrow> split_on d (join [d] ws) = ws"
  by (induction "[d]" ws rule: join.induct) (auto simp: split_on_no_delim split_on_append)

lemma split_on_pieces: "w \<in> set (split_on d s) \<Longrightarrow> d \<notin> set w"
  by (induction s arbitrary: w) (auto split: list.splits if_splits)

lemma set_split_on: "w \<in> set (split_on d s) \<Longrightarrow> set w \<subseteq> set s"
  by (induction s arbitrary: w) (fastforce split: list.splits if_splits)+

lemma set_join: "set (join d ws) \<subseteq> set d \<union> (\<Union>w\<in>set ws. set w)"
  by (induction ws rule: join.induct) auto

lemma join_eq_Nil_iff: "join [d] ws = [] \<longleftrightarrow> ws = [] \<or> ws = [[]]"
  by (induction "[d]" ws rule: join.induct) auto

text \<open>\<open>str::split_once\<close> with a character: before and after its first occurrence.\<close>

fun split_once_on :: "char \<Rightarrow> string \<Rightarrow> (string \<times> string) option" where
  "split_once_on d [] = None"
| "split_once_on d (c # cs) =
     (if c = d then Some ([], cs)
      else map_option (\<lambda>(a, b). (c # a, b)) (split_once_on d cs))"

lemma split_once_on_None [simp]: "d \<notin> set s \<Longrightarrow> split_once_on d s = None"
  by (induction s) auto

lemma split_once_on_append [simp]: "d \<notin> set a \<Longrightarrow> split_once_on d (a @ d # b) = Some (a, b)"
  by (induction a) auto

lemma split_once_on_SomeD: "split_once_on d s = Some (a, b) \<Longrightarrow> s = a @ d # b \<and> d \<notin> set a"
  by (induction s arbitrary: a) (auto split: if_splits)

text \<open>\<open>str::find\<close> with a pattern string: the offset of its first occurrence.\<close>

fun str_find :: "string \<Rightarrow> string \<Rightarrow> nat option" where
  "str_find p [] = (if p = [] then Some 0 else None)"
| "str_find p (c # cs) =
     (if prefix p (c # cs) then Some 0 else map_option Suc (str_find p cs))"

lemma str_find_bound: "str_find p s = Some i \<Longrightarrow> i + length p \<le> length s"
  by (induction s arbitrary: i) (auto split: if_splits dest: prefix_length_le)

lemma str_find_SomeD: "str_find p s = Some i \<Longrightarrow> prefix p (drop i s)"
  by (induction s arbitrary: i) (auto split: if_splits)

text \<open>\<open>str::split\<close> with a non-empty pattern string.\<close>

function split_str :: "string \<Rightarrow> string \<Rightarrow> string list" where
  "split_str p s =
     (case str_find p s of
        None \<Rightarrow> [s]
      | Some i \<Rightarrow>
          if p = [] then [s]
          else take i s # split_str p (drop (i + length p) s))"
  by pat_completeness auto
termination
proof (relation "measure (\<lambda>(p, s). length s)", goal_cases)
  case (2 p s i)
  then have "length p > 0" "i + length p \<le> length s"
    by (auto dest: str_find_bound)
  then show ?case by (cases p) auto
qed simp

declare split_str.simps [simp del]

subsection \<open>White space\<close>

text \<open>
  \<open>char::is_whitespace\<close> is the Unicode property White\_Space. On UTF-8 bytes:
  \<open>ws_prefix s\<close> is the number of bytes of the white-space character that \<open>s\<close>
  starts with (0 if there is none), \<open>ws_suffix\<close> the same for the end of \<open>s\<close>.
\<close>

definition byte :: "char \<Rightarrow> nat" where
  "byte c = of_char c"

fun ws_prefix :: "string \<Rightarrow> nat" where
  "ws_prefix [] = 0"
| "ws_prefix (a # s) =
     (if (9 \<le> byte a \<and> byte a \<le> 13) \<or> byte a = 32 then 1
      else (case s of
        [] \<Rightarrow> 0
      | b # s' \<Rightarrow>
          if byte a = 0xC2 \<and> (byte b = 0x85 \<or> byte b = 0xA0) then 2
          else (case s' of
            [] \<Rightarrow> 0
          | c # _ \<Rightarrow>
              if (byte a = 0xE1 \<and> byte b = 0x9A \<and> byte c = 0x80)
               \<or> (byte a = 0xE2 \<and> byte b = 0x80
                    \<and> ((0x80 \<le> byte c \<and> byte c \<le> 0x8A)
                        \<or> byte c = 0xA8 \<or> byte c = 0xA9 \<or> byte c = 0xAF))
               \<or> (byte a = 0xE2 \<and> byte b = 0x81 \<and> byte c = 0x9F)
               \<or> (byte a = 0xE3 \<and> byte b = 0x80 \<and> byte c = 0x80)
              then 3 else 0)))"

definition ws_suffix :: "string \<Rightarrow> nat" where
  "ws_suffix s =
     (let n = length s in
      if n \<ge> 1 \<and> ws_prefix (drop (n - 1) s) = 1 then 1
      else if n \<ge> 2 \<and> ws_prefix (drop (n - 2) s) = 2 then 2
      else if n \<ge> 3 \<and> ws_prefix (drop (n - 3) s) = 3 then 3
      else 0)"

lemma ws_prefix_le: "ws_prefix s \<le> length s"
  by (cases s) (auto split: list.splits)

lemma ws_suffix_le: "ws_suffix s \<le> length s"
  by (auto simp: ws_suffix_def Let_def)

function trim_start :: "string \<Rightarrow> string" where
  "trim_start s = (if ws_prefix s = 0 then s else trim_start (drop (ws_prefix s) s))"
  by pat_completeness auto
termination
  by (relation "measure length") (use ws_prefix_le in \<open>auto simp: neq_Nil_conv intro: diff_less\<close>)

function trim_end :: "string \<Rightarrow> string" where
  "trim_end s = (if ws_suffix s = 0 then s else trim_end (take (length s - ws_suffix s) s))"
  by pat_completeness auto
termination
  by (relation "measure length") (auto simp: ws_suffix_def Let_def split: if_splits)

declare trim_start.simps [simp del] trim_end.simps [simp del]

definition trim :: "string \<Rightarrow> string" where
  "trim s = trim_end (trim_start s)"

text \<open>\<open>str::split_whitespace\<close>: the maximal runs without white space.\<close>

fun nonws_len :: "string \<Rightarrow> nat" where
  "nonws_len [] = 0"
| "nonws_len (c # cs) = (if ws_prefix (c # cs) > 0 then 0 else Suc (nonws_len cs))"

lemma trim_start_length: "length (trim_start s) \<le> length s"
proof (induction s rule: trim_start.induct)
  case (1 s)
  then show ?case by (cases "ws_prefix s = 0") (auto simp: trim_start.simps [of s])
qed

lemma trim_start_ws_prefix: "ws_prefix (trim_start s) = 0"
proof (induction s rule: trim_start.induct)
  case (1 s)
  then show ?case by (cases "ws_prefix s = 0") (auto simp: trim_start.simps [of s])
qed

lemma nonws_len_pos: "s \<noteq> [] \<Longrightarrow> ws_prefix s = 0 \<Longrightarrow> 0 < nonws_len s"
  by (cases s) (simp_all del: ws_prefix.simps)

function split_whitespace :: "string \<Rightarrow> string list" where
  "split_whitespace s =
     (let s' = trim_start s in
      if s' = [] then []
      else take (nonws_len s') s' # split_whitespace (drop (nonws_len s') s'))"
  by pat_completeness auto
termination
proof (relation "measure length", goal_cases)
  case (2 s s')
  then have "0 < nonws_len s'"
    using nonws_len_pos trim_start_ws_prefix by auto
  then have "length (drop (nonws_len s') s') < length s'"
    using 2 by simp
  also have "\<dots> \<le> length s"
    using 2 trim_start_length by simp
  finally show ?case by simp
qed simp

declare split_whitespace.simps [simp del]

subsection \<open>Decimal numbers\<close>

definition digit_char :: "nat \<Rightarrow> char" where
  "digit_char d = char_of (48 + d)"

definition dec_value :: "string \<Rightarrow> nat" where
  "dec_value s = foldl (\<lambda>n c. 10 * n + (of_char c - 48)) 0 s"

text \<open>\<open>Display\<close> of an unsigned integer.\<close>

fun show_nat :: "nat \<Rightarrow> string" where
  "show_nat n = (if n < 10 then [digit_char n] else show_nat (n div 10) @ [digit_char (n mod 10)])"

declare show_nat.simps [simp del]

text \<open>
  \<open>str::parse::<u32>\<close>: an optional plus sign and at least one digit; an overflow is an
  error.
\<close>

definition parse_u32 :: "string \<Rightarrow> 32 word option" where
  "parse_u32 s =
     (let ds = (if s \<noteq> [] \<and> hd s = CHR ''+'' then tl s else s) in
      if ds \<noteq> [] \<and> list_all is_ascii_digit ds \<and> int (dec_value ds) < 2 ^ 32
      then Some (word_of_nat (dec_value ds)) else None)"

lemma of_char_digit_char [simp]: "d < 10 \<Longrightarrow> (of_char (digit_char d) :: nat) = 48 + d"
  by (simp add: digit_char_def)

lemma is_ascii_digit_digit_char [simp]: "d < 10 \<Longrightarrow> is_ascii_digit (digit_char d)"
  by (simp add: is_ascii_digit_def)

lemma dec_value_Nil [simp]: "dec_value [] = 0"
  by (simp add: dec_value_def)

lemma dec_value_snoc [simp]: "dec_value (s @ [c]) = 10 * dec_value s + (of_char c - 48)"
  by (simp add: dec_value_def)

lemma dec_value_show_nat [simp]: "dec_value (show_nat n) = n"
proof (induction n rule: show_nat.induct)
  case (1 n)
  show ?case
  proof (cases "n < 10")
    case True
    then show ?thesis
      using dec_value_snoc [of "[]" "digit_char n"] by (simp add: show_nat.simps)
  next
    case False
    with 1 show ?thesis by (simp add: show_nat.simps [of n])
  qed
qed

lemma show_nat_digits [simp]: "list_all is_ascii_digit (show_nat n)"
proof (induction n rule: show_nat.induct)
  case (1 n)
  then show ?case by (cases "n < 10") (auto simp: show_nat.simps [of n])
qed

lemma show_nat_neq_Nil [simp]: "show_nat n \<noteq> []"
  by (simp add: show_nat.simps [of n])

lemma show_nat_0 [simp]: "show_nat 0 = ''0''"
  by code_simp

lemma show_nat_hd: "0 < n \<Longrightarrow> hd (show_nat n) \<noteq> CHR ''0''"
proof (induction n rule: show_nat.induct)
  case (1 n)
  show ?case
  proof (cases "n < 10")
    case True
    with 1 have "(of_char (digit_char n) :: nat) \<noteq> of_char (CHR ''0'')" by simp
    then have "digit_char n \<noteq> CHR ''0''" by metis
    then show ?thesis using True by (simp add: show_nat.simps [of n])
  next
    case False
    with 1 show ?thesis by (simp add: show_nat.simps [of n] hd_append)
  qed
qed

lemma digit_not_plus: "is_ascii_digit c \<Longrightarrow> c \<noteq> CHR ''+''"
  by (auto simp: is_ascii_digit_def)

lemma parse_u32_digits:
  assumes "s \<noteq> []" "list_all is_ascii_digit s"
  shows "parse_u32 s = (if dec_value s < 2 ^ 32 then Some (word_of_nat (dec_value s)) else None)"
proof -
  have "int (dec_value s) < 2 ^ 32 \<longleftrightarrow> dec_value s < 2 ^ 32"
    by simp
  then show ?thesis
    using assms digit_not_plus by (cases s) (auto simp: parse_u32_def Let_def)
qed

lemma parse_u32_show_nat [simp]: "parse_u32 (show_nat (unat (w :: 32 word))) = Some w"
proof -
  have "unat w < 2 ^ 32" using unsigned_less [of w] by simp
  then show ?thesis by (simp add: parse_u32_digits)
qed

text \<open>
  Decimals without superfluous zeros are ordered by length first and bytewise among equal
  lengths: the reason why a comparison of such strings needs no arithmetic.
\<close>

lemma foldl_dec: "foldl (\<lambda>n c. 10 * n + (of_char c - 48)) a s
    = a * 10 ^ length s + dec_value s" for a :: nat
proof (induction s rule: rev_induct)
  case (snoc c s)
  then show ?case by (simp add: dec_value_def algebra_simps)
qed simp

lemma dec_value_Cons: "dec_value (c # s) = (of_char c - 48) * 10 ^ length s + dec_value s"
  by (simp add: dec_value_def foldl_dec [of "of_char c - 48"])

lemma dec_value_less: "list_all is_ascii_digit s \<Longrightarrow> dec_value s < 10 ^ length s"
proof (induction s)
  case (Cons c s)
  then have "(of_char c - 48 :: nat) \<le> 9" "dec_value s < 10 ^ length s"
    by (auto simp: is_ascii_digit_def)
  then have "(of_char c - 48) * 10 ^ length s + dec_value s < 9 * 10 ^ length s + 10 ^ length s"
    by (intro add_le_less_mono mult_right_mono) auto
  then show ?case by (simp add: dec_value_Cons)
qed simp

lemma dec_value_ge:
  assumes "is_ascii_digit c" "c \<noteq> CHR ''0''"
  shows "10 ^ length s \<le> dec_value (c # s)"
proof -
  have "(of_char c :: nat) \<noteq> of_char (CHR ''0'')"
    using assms(2) by (metis char_of_char)
  then have "1 \<le> (of_char c - 48 :: nat)"
    using assms(1) by (auto simp: is_ascii_digit_def)
  then have "10 ^ length s \<le> (of_char c - 48 :: nat) * 10 ^ length s"
    by (cases "(of_char c - 48 :: nat)") auto
  then show ?thesis unfolding dec_value_Cons by (rule trans_le_add1)
qed

lemma str_cmp_dec_value:
  "length l = length r \<Longrightarrow> list_all is_ascii_digit l \<Longrightarrow> list_all is_ascii_digit r \<Longrightarrow>
   str_cmp l r = cmp (dec_value l) (dec_value r)"
proof (induction l r rule: list_induct2)
  case (Cons a l b r)
  let ?a = "of_char a - 48 :: nat" and ?b = "of_char b - 48 :: nat" and ?n = "10 ^ length l :: nat"
  have IH: "str_cmp l r = cmp (dec_value l) (dec_value r)"
    using Cons by simp
  have bounds: "dec_value l < ?n" "dec_value r < ?n"
    using Cons dec_value_less [of l] dec_value_less [of r] by auto
  have "cmp x y = cmp (x - 48) (y - 48)" if "48 \<le> x" "48 \<le> y" for x y :: nat
    using that by (auto simp: cmp_def)
  then have ab: "cmp (of_char a :: nat) (of_char b) = cmp ?a ?b"
    using Cons.prems by (simp add: is_ascii_digit_def)
  have less: "x * ?n + dec_value l' < y * ?n + dec_value r'"
    if "x < y" "dec_value l' < ?n" for x y :: nat and l' r'
  proof -
    have "x * ?n + dec_value l' < (x + 1) * ?n" using that by simp
    also have "\<dots> \<le> y * ?n" using that by (intro mult_right_mono) auto
    finally show ?thesis by simp
  qed
  consider "?a < ?b" | "?a = ?b" | "?b < ?a" by linarith
  then show ?case
  proof cases
    case 1
    then show ?thesis
      using less [of ?a ?b l r] bounds Cons.hyps ab
      by (auto simp: str_cmp_def char_cmp_def dec_value_Cons cmp_def)
  next
    case 2
    then show ?thesis
      using IH Cons.hyps ab
      by (auto simp: str_cmp_def char_cmp_def dec_value_Cons cmp_def)
  next
    case 3
    then show ?thesis
      using less [of ?b ?a r l] bounds Cons.hyps ab
      by (auto simp: str_cmp_def char_cmp_def dec_value_Cons cmp_def)
  qed
qed (simp add: str_cmp_def)

section \<open>Vectors\<close>

text \<open>\<open>iter().position(p)\<close> and \<open>Vec::remove(i)\<close>.\<close>

fun position :: "('a \<Rightarrow> bool) \<Rightarrow> 'a list \<Rightarrow> nat option" where
  "position P [] = None"
| "position P (x # xs) = (if P x then Some 0 else map_option Suc (position P xs))"

definition vec_remove :: "nat \<Rightarrow> 'a list \<Rightarrow> 'a list" where
  "vec_remove i xs = take i xs @ drop (Suc i) xs"

lemma vec_remove_0 [simp]: "vec_remove 0 (x # xs) = xs"
  by (simp add: vec_remove_def)

lemma vec_remove_Suc [simp]: "vec_remove (Suc i) (x # xs) = x # vec_remove i xs"
  by (simp add: vec_remove_def)

lemma vec_remove_last: "xs \<noteq> [] \<Longrightarrow> vec_remove (length xs - 1) xs = butlast xs"
  by (simp add: vec_remove_def butlast_conv_take)

lemma position_None_iff: "position P xs = None \<longleftrightarrow> (\<forall>x\<in>set xs. \<not> P x)"
  by (induction xs) auto

lemma position_SomeD: "position P xs = Some i \<Longrightarrow> i < length xs \<and> P (xs ! i) \<and> (\<forall>j<i. \<not> P (xs ! j))"
proof (induction xs arbitrary: i)
  case (Cons x xs)
  then show ?case by (cases i) (auto simp: less_Suc_eq_0_disj split: if_splits)
qed simp

lemma vec_remove_position: "position (\<lambda>y. y = x) xs = Some i \<Longrightarrow> vec_remove i xs = remove1 x xs"
  by (induction xs arbitrary: i) (auto split: if_splits)

end
