(* ===== verification/Semver.thy ===== *)
theory Semver
  imports Prelude
begin

text \<open>
  Semantic versions and version ranges (\<open>crates/ts-semver/src/lib.rs\<close>): the version
  record with its precedence, printing and parsing; ranges as disjunctions of
  conjunctions of comparators, their parser (hyphen ranges, tilde, caret, wildcards), their
  printer and the test of a version against a range.

  A version component is a \<open>u32\<close>, here \<open>32 word\<close>: the increments wrap around as
  they do in a release build. A panic is \<open>None\<close>.
\<close>

section \<open>Versions\<close>

record version =
  major :: "32 word"
  minor :: "32 word"
  patch :: "32 word"
  prerelease :: "string list"
  build :: "string list"

definition version_default :: version where
  "version_default = \<lparr>major = 0, minor = 0, patch = 0, prerelease = [], build = []\<rparr>"

definition version_zero :: version where
  "version_zero = version_default\<lparr>prerelease := [''0'']\<rparr>"

definition increment_major :: "version \<Rightarrow> version" where
  "increment_major v = version_default\<lparr>major := major v + 1\<rparr>"

definition increment_minor :: "version \<Rightarrow> version" where
  "increment_minor v = version_default\<lparr>major := major v, minor := minor v + 1\<rparr>"

definition increment_patch :: "version \<Rightarrow> version" where
  "increment_patch v =
     version_default\<lparr>major := major v, minor := minor v, patch := patch v + 1\<rparr>"

subsection \<open>Precedence\<close>

fun ordering_to_comparison :: "ordering \<Rightarrow> int" where
  "ordering_to_comparison Less = -1"
| "ordering_to_comparison Equal = 0"
| "ordering_to_comparison Greater = 1"

text \<open>\<open>ComparisonExt::then_with\<close>; its closure argument is evaluated only on equality.\<close>

definition comparison_then_with :: "int \<Rightarrow> int \<Rightarrow> int" where
  "comparison_then_with c f = (if c \<noteq> 0 then c else f)"

definition is_numeric_identifier :: "string \<Rightarrow> bool" where
  "is_numeric_identifier text \<longleftrightarrow>
     text = ''0'' \<or>
     (case text of [] \<Rightarrow> False
      | c # cs \<Rightarrow> (is_ascii_digit c \<and> c \<noteq> CHR ''0'') \<and> list_all is_ascii_digit cs)"

definition get_uint_component :: "string \<Rightarrow> 32 word option" where
  "get_uint_component text = parse_u32 text"

definition is_uint_component :: "string \<Rightarrow> bool" where
  "is_uint_component text = is_numeric_identifier text"

definition compare_pre_release_identifier :: "string \<Rightarrow> string \<Rightarrow> int" where
  "compare_pre_release_identifier left right =
     (let compare_result = ordering_to_comparison (str_cmp left right) in
      if compare_result = 0 then compare_result
      else
        let left_is_numeric = is_numeric_identifier left;
            right_is_numeric = is_numeric_identifier right in
        if left_is_numeric \<or> right_is_numeric then
          if \<not> right_is_numeric then -1
          else if \<not> left_is_numeric then 1
          else
            (case (get_uint_component left, get_uint_component right) of
               (Some left_as_number, Some right_as_number) \<Rightarrow>
                 ordering_to_comparison (cmp left_as_number right_as_number)
             | _ \<Rightarrow>
                 let len_compare = ordering_to_comparison (cmp (length left) (length right)) in
                 if len_compare = 0 then compare_result else len_compare)
        else compare_result)"

text \<open>The loop over the zipped identifiers; a difference returns, the end compares lengths.\<close>

fun compare_identifier_pairs :: "(string \<times> string) list \<Rightarrow> int option" where
  "compare_identifier_pairs [] = None"
| "compare_identifier_pairs ((l, r) # rest) =
     (let result = compare_pre_release_identifier l r in
      if result \<noteq> 0 then Some result else compare_identifier_pairs rest)"

definition compare_pre_release_identifiers :: "string list \<Rightarrow> string list \<Rightarrow> int" where
  "compare_pre_release_identifiers left right =
     (if left = [] then (if right = [] then 0 else 1)
      else if right = [] then -1
      else
        (case compare_identifier_pairs (zip left right) of
           Some result \<Rightarrow> result
         | None \<Rightarrow> ordering_to_comparison (cmp (length left) (length right))))"

definition compare :: "version \<Rightarrow> version option \<Rightarrow> int" where
  "compare a b_opt =
     (case b_opt of
        None \<Rightarrow> 1
      | Some b \<Rightarrow>
          comparison_then_with
            (comparison_then_with
              (comparison_then_with
                (ordering_to_comparison (cmp (major a) (major b)))
                (ordering_to_comparison (cmp (minor a) (minor b))))
              (ordering_to_comparison (cmp (patch a) (patch b))))
            (compare_pre_release_identifiers (prerelease a) (prerelease b)))"

subsection \<open>Printing and parsing versions\<close>

definition fmt_version :: "version \<Rightarrow> string" where
  "fmt_version v =
     show_nat (unat (major v)) @ ''.'' @ show_nat (unat (minor v)) @ ''.''
       @ show_nat (unat (patch v))
     @ (if prerelease v \<noteq> [] then ''-'' @ join ''.'' (prerelease v) else [])
     @ (if build v \<noteq> [] then ''+'' @ join ''.'' (build v) else [])"

record semver_parse_error =
  orig_input :: string

definition parse_error :: "string \<Rightarrow> semver_parse_error" where
  "parse_error text = \<lparr>orig_input = text\<rparr>"

definition is_prerelease_part :: "string \<Rightarrow> bool" where
  "is_prerelease_part text \<longleftrightarrow>
     is_numeric_identifier text \<or>
     (case text of [] \<Rightarrow> False
      | c # cs \<Rightarrow>
          (is_ascii_alphabetic c \<or> c = CHR ''-'')
          \<and> list_all (\<lambda>ch. is_ascii_alphanumeric ch \<or> ch = CHR ''-'') cs)"

definition is_prerelease :: "string \<Rightarrow> bool" where
  "is_prerelease text \<longleftrightarrow> text \<noteq> [] \<and> list_all is_prerelease_part (split_on CHR ''.'' text)"

definition is_build_part :: "string \<Rightarrow> bool" where
  "is_build_part text \<longleftrightarrow>
     text \<noteq> [] \<and> list_all (\<lambda>ch. is_ascii_alphanumeric ch \<or> ch = CHR ''-'') text"

definition is_build :: "string \<Rightarrow> bool" where
  "is_build text \<longleftrightarrow> text \<noteq> [] \<and> list_all is_build_part (split_on CHR ''.'' text)"

text \<open>\<open>split_once\<close>: at most one delimiter, and something after it.\<close>

definition split_once ::
    "string \<Rightarrow> char \<Rightarrow> string \<Rightarrow> semver_parse_error + (string \<times> string option)" where
  "split_once text delimiter orig =
     (case split_on delimiter text of
        [bef] \<Rightarrow> Inr (bef, None)
      | [bef, aft] \<Rightarrow>
          if aft = [] then Inl (parse_error orig) else Inr (bef, Some aft)
      | _ \<Rightarrow> Inl (parse_error orig))"

definition split_once_first ::
    "string \<Rightarrow> char \<Rightarrow> string \<Rightarrow> semver_parse_error + (string \<times> string option)" where
  "split_once_first text delimiter orig =
     (case split_once_on delimiter text of
        None \<Rightarrow> Inr (text, None)
      | Some (bef, aft) \<Rightarrow>
          if aft = [] then Inl (parse_error orig) else Inr (bef, Some aft))"

definition try_parse_version :: "string \<Rightarrow> semver_parse_error + version" where
  "try_parse_version text =
     (case split_once text CHR ''+'' text of
        Inl e \<Rightarrow> Inl e
      | Inr (version_part, build_str) \<Rightarrow>
     (case split_once_first version_part CHR ''-'' text of
        Inl e \<Rightarrow> Inl e
      | Inr (core_part, prerelease_str) \<Rightarrow>
     (let core_parts = split_on CHR ''.'' core_part in
      if core_parts = [] \<or> length core_parts > 3 then Inl (parse_error text)
      else if list_ex (\<lambda>part. \<not> is_uint_component part) core_parts then Inl (parse_error text)
      else if length core_parts < 3 \<and> (prerelease_str \<noteq> None \<or> build_str \<noteq> None)
      then Inl (parse_error text)
      else
     (case get_uint_component (core_parts ! 0) of
        None \<Rightarrow> Inl (parse_error text)
      | Some ma \<Rightarrow>
     (case (if length core_parts > 1 then get_uint_component (core_parts ! 1) else Some 0) of
        None \<Rightarrow> Inl (parse_error text)
      | Some mi \<Rightarrow>
     (case (if length core_parts > 2 then get_uint_component (core_parts ! 2) else Some 0) of
        None \<Rightarrow> Inl (parse_error text)
      | Some pa \<Rightarrow>
     (if (case prerelease_str of None \<Rightarrow> False | Some p \<Rightarrow> \<not> is_prerelease p)
      then Inl (parse_error text)
      else if (case build_str of None \<Rightarrow> False | Some b \<Rightarrow> \<not> is_build b)
      then Inl (parse_error text)
      else Inr \<lparr>major = ma, minor = mi, patch = pa,
                prerelease =
                  (case prerelease_str of None \<Rightarrow> [] | Some p \<Rightarrow> split_on CHR ''.'' p),
                build = (case build_str of None \<Rightarrow> [] | Some b \<Rightarrow> split_on CHR ''.'' b)\<rparr>)))))))"

definition must_parse :: "string \<Rightarrow> version option" where
  "must_parse text = (case try_parse_version text of Inl _ \<Rightarrow> None | Inr v \<Rightarrow> Some v)"

section \<open>Version ranges\<close>

datatype comparator_operator =
  LessThan | LessThanEqual | EqualOp | GreaterThanEqual | GreaterThan | Tilde | Caret

fun as_str :: "comparator_operator \<Rightarrow> string" where
  "as_str LessThan = ''<''"
| "as_str LessThanEqual = ''<=''"
| "as_str EqualOp = ''=''"
| "as_str GreaterThanEqual = ''>=''"
| "as_str GreaterThan = ''>''"
| "as_str Tilde = ''~''"
| "as_str Caret = ''^''"

record version_comparator =
  operator :: comparator_operator
  operand :: version

record version_range =
  alternatives :: "version_comparator list list"

subsection \<open>Printing ranges\<close>

definition format_comparator :: "version_comparator \<Rightarrow> string" where
  "format_comparator c = as_str (operator c) @ fmt_version (operand c)"

definition format_alternative :: "version_comparator list \<Rightarrow> string" where
  "format_alternative cs = join '' '' (map format_comparator cs)"

definition format_disjunction :: "version_comparator list list \<Rightarrow> string" where
  "format_disjunction alts =
     (let s = join '' || '' (map format_alternative alts) in if s = [] then ''*'' else s)"

definition fmt_version_range :: "version_range \<Rightarrow> string" where
  "fmt_version_range r = format_disjunction (alternatives r)"

subsection \<open>Testing a version\<close>

definition test_comparator :: "version_comparator \<Rightarrow> version \<Rightarrow> bool option" where
  "test_comparator c v =
     (let cm = compare v (Some (operand c)) in
      case operator c of
        LessThan \<Rightarrow> Some (cm < 0)
      | LessThanEqual \<Rightarrow> Some (cm \<le> 0)
      | EqualOp \<Rightarrow> Some (cm = 0)
      | GreaterThanEqual \<Rightarrow> Some (cm \<ge> 0)
      | GreaterThan \<Rightarrow> Some (cm > 0)
      | _ \<Rightarrow> None)"

fun test_alternative :: "version_comparator list \<Rightarrow> version \<Rightarrow> bool option" where
  "test_alternative [] v = Some True"
| "test_alternative (c # cs) v =
     (case test_comparator c v of
        None \<Rightarrow> None
      | Some b \<Rightarrow> if \<not> b then Some False else test_alternative cs v)"

fun test_alternatives_loop :: "version_comparator list list \<Rightarrow> version \<Rightarrow> bool option" where
  "test_alternatives_loop [] v = Some False"
| "test_alternatives_loop (a # as) v =
     (case test_alternative a v of
        None \<Rightarrow> None
      | Some b \<Rightarrow> if b then Some True else test_alternatives_loop as v)"

definition test_disjunction :: "version_comparator list list \<Rightarrow> version \<Rightarrow> bool option" where
  "test_disjunction alts v = (if alts = [] then Some True else test_alternatives_loop alts v)"

definition range_test :: "version_range \<Rightarrow> version \<Rightarrow> bool option" where
  "range_test r v = test_disjunction (alternatives r) v"

subsection \<open>Parsing ranges\<close>

definition is_wildcard :: "string \<Rightarrow> bool" where
  "is_wildcard text \<longleftrightarrow> text = ''*'' \<or> text = ''x'' \<or> text = ''X''"

definition is_xr :: "string \<Rightarrow> bool" where
  "is_xr text \<longleftrightarrow> is_wildcard text \<or> is_uint_component text"

definition is_qualifier_part_list :: "string \<Rightarrow> bool" where
  "is_qualifier_part_list text \<longleftrightarrow>
     text \<noteq> [] \<and>
     list_all (\<lambda>ch. is_ascii_alphanumeric ch \<or> ch = CHR ''-'' \<or> ch = CHR ''.'') text"

definition split_optional :: "string \<Rightarrow> char \<Rightarrow> (string \<times> string option) option" where
  "split_optional text delimiter =
     (case split_on delimiter text of
        [bef] \<Rightarrow> Some (bef, None)
      | [bef, aft] \<Rightarrow>
          if aft = [] then None
          else if \<not> is_qualifier_part_list aft then None
          else Some (bef, Some aft)
      | _ \<Rightarrow> None)"

definition split_optional_first :: "string \<Rightarrow> char \<Rightarrow> (string \<times> string option) option" where
  "split_optional_first text delimiter =
     (case split_once_on delimiter text of
        None \<Rightarrow> Some (text, None)
      | Some (bef, aft) \<Rightarrow>
          if aft = [] \<or> \<not> is_qualifier_part_list aft then None
          else Some (bef, Some aft))"

record partial_version =
  pv_version :: version
  major_str :: string
  minor_str :: string
  patch_str :: string

definition partial_version_default :: partial_version where
  "partial_version_default =
     \<lparr>pv_version = version_default, major_str = [], minor_str = [], patch_str = []\<rparr>"

text \<open>The three numeric components: a wildcard makes itself and what follows 0.\<close>

definition partial_numeric ::
    "string \<Rightarrow> string \<Rightarrow> string \<Rightarrow> (32 word \<times> 32 word \<times> 32 word) option" where
  "partial_numeric ma mi pa =
     (if is_wildcard ma then Some (0, 0, 0)
      else (case get_uint_component ma of
        None \<Rightarrow> None
      | Some major_n \<Rightarrow>
          if is_wildcard mi then Some (major_n, 0, 0)
          else (case get_uint_component mi of
            None \<Rightarrow> None
          | Some minor_n \<Rightarrow>
              if is_wildcard pa then Some (major_n, minor_n, 0)
              else (case get_uint_component pa of
                None \<Rightarrow> None
              | Some patch_n \<Rightarrow> Some (major_n, minor_n, patch_n)))))"

definition parse_partial :: "string \<Rightarrow> partial_version \<times> bool" where
  "parse_partial text =
     (case split_optional text CHR ''+'' of
        None \<Rightarrow> (partial_version_default, False)
      | Some (version_part, build_str) \<Rightarrow>
     (case split_optional_first version_part CHR ''-'' of
        None \<Rightarrow> (partial_version_default, False)
      | Some (core_part, prerelease_str) \<Rightarrow>
     (let parts = split_on CHR ''.'' core_part in
      if parts = [] \<or> length parts > 3 \<or> list_ex (\<lambda>part. \<not> is_xr part) parts
      then (partial_version_default, False)
      else if length parts < 3 \<and> (prerelease_str \<noteq> None \<or> build_str \<noteq> None)
      then (partial_version_default, False)
      else
        let ma = parts ! 0;
            mi = (if length parts > 1 then parts ! 1 else ''*'');
            pa = (if length parts > 2 then parts ! 2 else ''*'') in
        case partial_numeric ma mi pa of
          None \<Rightarrow> (partial_version_default, False)
        | Some (major_n, minor_n, patch_n) \<Rightarrow>
            (\<lparr>pv_version =
                \<lparr>major = major_n, minor = minor_n, patch = patch_n,
                 prerelease =
                   (case prerelease_str of None \<Rightarrow> [] | Some p \<Rightarrow> split_on CHR ''.'' p),
                 build = (case build_str of None \<Rightarrow> [] | Some b \<Rightarrow> split_on CHR ''.'' b)\<rparr>,
              major_str = ma, minor_str = mi, patch_str = pa\<rparr>, True))))"

definition is_range_atom :: "string \<Rightarrow> bool" where
  "is_range_atom text \<longleftrightarrow>
     text \<noteq> [] \<and>
     list_all (\<lambda>ch. is_ascii_alphanumeric ch \<or> ch \<in> {CHR ''-'', CHR ''+'', CHR ''.'', CHR ''*''})
       text"

definition parse_hyphen :: "string \<Rightarrow> string \<Rightarrow> version_comparator list \<times> bool" where
  "parse_hyphen left right =
     (let (left_result, left_ok) = parse_partial left in
      if \<not> left_ok then ([], False)
      else
        let (right_result, right_ok) = parse_partial right in
        if \<not> right_ok then ([], False)
        else
          (let lower =
             (if \<not> is_wildcard (major_str left_result)
              then [\<lparr>operator = GreaterThanEqual, operand = pv_version left_result\<rparr>]
              else []);
           upper =
             (if \<not> is_wildcard (major_str right_result) then
                let v = pv_version right_result in
                if is_wildcard (minor_str right_result)
                then [\<lparr>operator = LessThan, operand = increment_major v\<rparr>]
                else if is_wildcard (patch_str right_result)
                then [\<lparr>operator = LessThan, operand = increment_minor v\<rparr>]
                else [\<lparr>operator = LessThanEqual, operand = v\<rparr>]
              else [])
           in (lower @ upper, True)))"

definition parse_comparator ::
    "comparator_operator option \<Rightarrow> string \<Rightarrow> version_comparator list \<times> bool" where
  "parse_comparator op_opt text =
     (let op = (case op_opt of None \<Rightarrow> EqualOp | Some p \<Rightarrow> p);
          (result, ok) = parse_partial text in
      if \<not> ok then ([], False)
      else
        let v = pv_version result;
            minor_wild = is_wildcard (minor_str result);
            patch_wild = is_wildcard (patch_str result) in
        (if \<not> is_wildcard (major_str result) then
           (case op of
              Tilde \<Rightarrow>
                [\<lparr>operator = GreaterThanEqual, operand = v\<rparr>,
                 \<lparr>operator = LessThan,
                  operand = (if minor_wild then increment_major v else increment_minor v)\<rparr>]
            | Caret \<Rightarrow>
                [\<lparr>operator = GreaterThanEqual, operand = v\<rparr>,
                 \<lparr>operator = LessThan,
                  operand =
                    (if major v > 0 \<or> minor_wild then increment_major v
                     else if minor v > 0 \<or> patch_wild then increment_minor v
                     else increment_patch v)\<rparr>]
            | EqualOp \<Rightarrow>
                if minor_wild \<or> patch_wild then
                  [\<lparr>operator = GreaterThanEqual, operand = v\<lparr>prerelease := [''0'']\<rparr>\<rparr>,
                   \<lparr>operator = LessThan,
                    operand =
                      (if minor_wild then increment_major v else increment_minor v)
                        \<lparr>prerelease := [''0'']\<rparr>\<rparr>]
                else [\<lparr>operator = EqualOp, operand = v\<rparr>]
            | _ \<Rightarrow>
                if op = LessThan \<or> op = GreaterThanEqual then
                  [\<lparr>operator = op,
                    operand = (if minor_wild \<or> patch_wild then v\<lparr>prerelease := [''0'']\<rparr> else v)\<rparr>]
                else
                  (let op' = (if op = LessThanEqual then LessThan else GreaterThanEqual) in
                   if minor_wild then
                     [\<lparr>operator = op', operand = (increment_major v)\<lparr>prerelease := [''0'']\<rparr>\<rparr>]
                   else if patch_wild then
                     [\<lparr>operator = op', operand = (increment_minor v)\<lparr>prerelease := [''0'']\<rparr>\<rparr>]
                   else [\<lparr>operator = op, operand = v\<rparr>]))
         else if op = LessThan \<or> op = GreaterThan
         then [\<lparr>operator = LessThan, operand = version_zero\<rparr>]
         else [], True))"

definition strip_operator :: "string \<Rightarrow> comparator_operator option \<times> string" where
  "strip_operator text =
     (if prefix ''<='' text then (Some LessThanEqual, drop 2 text)
      else if prefix ''>='' text then (Some GreaterThanEqual, drop 2 text)
      else if prefix ''<'' text then (Some LessThan, drop 1 text)
      else if prefix ''>'' text then (Some GreaterThan, drop 1 text)
      else if prefix ''='' text then (Some EqualOp, drop 1 text)
      else if prefix ''~'' text then (Some Tilde, drop 1 text)
      else if prefix ''^'' text then (Some Caret, drop 1 text)
      else (None, text))"

definition parse_range :: "string \<Rightarrow> (comparator_operator option \<times> string) option" where
  "parse_range text =
     (let (op, rest) = strip_operator text; rest = trim_start rest in
      if rest = [] \<or> \<not> is_range_atom rest then None else Some (op, rest))"

text \<open>The search for a hyphen between white space, left to right.\<close>

fun hyphen_range_loop :: "string \<Rightarrow> string \<Rightarrow> (string \<times> string) option" where
  "hyphen_range_loop bef [] = None"
| "hyphen_range_loop bef (ch # aft) =
     (if ch = CHR ''-'' \<and> ws_suffix bef > 0 \<and> ws_prefix aft > 0
         \<and> trim bef \<noteq> [] \<and> trim aft \<noteq> []
         \<and> is_range_atom (trim bef) \<and> is_range_atom (trim aft)
      then Some (trim bef, trim aft)
      else hyphen_range_loop (bef @ [ch]) aft)"

definition parse_hyphen_range :: "string \<Rightarrow> (string \<times> string) option" where
  "parse_hyphen_range text = hyphen_range_loop [] text"

fun parse_simples :: "string list \<Rightarrow> version_comparator list option" where
  "parse_simples [] = Some []"
| "parse_simples (simple # rest) =
     (case parse_range (trim simple) of
        None \<Rightarrow> None
      | Some (op, text) \<Rightarrow>
          let (parsed, ok) = parse_comparator op text in
          if ok then map_option (\<lambda>cs. parsed @ cs) (parse_simples rest) else None)"

fun parse_ranges :: "string list \<Rightarrow> version_comparator list list option" where
  "parse_ranges [] = Some []"
| "parse_ranges (r0 # rest) =
     (let r = trim r0 in
      if r = [] then parse_ranges rest
      else
        case (case parse_hyphen_range r of
                Some (left, right) \<Rightarrow>
                  (let (parsed, ok) = parse_hyphen left right in if ok then Some parsed else None)
              | None \<Rightarrow> parse_simples (split_whitespace r)) of
          None \<Rightarrow> None
        | Some comparators \<Rightarrow> map_option (\<lambda>as. comparators # as) (parse_ranges rest))"

definition parse_alternatives :: "string \<Rightarrow> version_comparator list list \<times> bool" where
  "parse_alternatives text =
     (case parse_ranges (split_str ''||'' (trim text)) of
        None \<Rightarrow> ([], False)
      | Some alts \<Rightarrow> (alts, True))"

definition try_parse_version_range :: "string \<Rightarrow> version_range \<times> bool" where
  "try_parse_version_range text =
     (let (alts, ok) = parse_alternatives text in (\<lparr>alternatives = alts\<rparr>, ok))"

section \<open>Specification: SemVer precedence and well-formed versions\<close>

text \<open>
  Item 11 of the SemVer specification, on unbounded natural numbers: numeric identifiers
  compare numerically and below the others, the others in ASCII order; a version without
  pre-release identifiers is above one that has them; build metadata does not count.
\<close>

definition precedence_id :: "string \<Rightarrow> string \<Rightarrow> ordering" where
  "precedence_id l r =
     (if is_numeric_identifier l \<and> is_numeric_identifier r then cmp (dec_value l) (dec_value r)
      else if is_numeric_identifier l then Less
      else if is_numeric_identifier r then Greater
      else str_cmp l r)"

definition precedence_pre :: "string list \<Rightarrow> string list \<Rightarrow> ordering" where
  "precedence_pre ls rs =
     then_with (cmp (ls = []) (rs = [])) (lex_cmp precedence_id ls rs)"

definition precedence :: "version \<Rightarrow> version \<Rightarrow> ordering" where
  "precedence a b =
     then_with (cmp (unat (major a)) (unat (major b)))
       (then_with (cmp (unat (minor a)) (unat (minor b)))
         (then_with (cmp (unat (patch a)) (unat (patch b)))
           (precedence_pre (prerelease a) (prerelease b))))"

text \<open>What the parser accepts as identifiers (items 9 and 10).\<close>

definition wf_version :: "version \<Rightarrow> bool" where
  "wf_version v \<longleftrightarrow>
     list_all is_prerelease_part (prerelease v) \<and> list_all is_build_part (build v)"

text \<open>Comparators that \<open>test_comparator\<close> can evaluate.\<close>

definition primitive_op :: "version_comparator \<Rightarrow> bool" where
  "primitive_op c \<longleftrightarrow> operator c \<noteq> Tilde \<and> operator c \<noteq> Caret"

section \<open>Precedence is a total preorder\<close>

lemma numeric_identifier_digits:
  "is_numeric_identifier s \<Longrightarrow> s \<noteq> [] \<and> list_all is_ascii_digit s"
  by (auto simp: is_numeric_identifier_def is_ascii_digit_def split: list.splits)

lemma numeric_identifier_cmp_length:
  assumes "is_numeric_identifier l" "is_numeric_identifier r" "length l < length r"
  shows "dec_value l < dec_value r"
proof -
  from assms(2,3) numeric_identifier_digits [OF assms(1)]
  obtain c cs where r: "r = c # cs" "is_ascii_digit c" "c \<noteq> CHR ''0''"
    by (auto simp: is_numeric_identifier_def split: list.splits)
  have "dec_value l < 10 ^ length l"
    using numeric_identifier_digits [OF assms(1)] by (simp add: dec_value_less)
  also have "\<dots> \<le> 10 ^ length cs"
    using assms(3) r by (intro power_increasing) auto
  also have "\<dots> \<le> dec_value r"
    using dec_value_ge r by simp
  finally show ?thesis .
qed

lemma numeric_identifier_cmp:
  assumes "is_numeric_identifier l" "is_numeric_identifier r"
  shows "cmp (dec_value l) (dec_value r)
    = then_with (cmp (length l) (length r)) (str_cmp l r)"
proof (cases "length l" "length r" rule: linorder_cases)
  case less
  then show ?thesis using numeric_identifier_cmp_length [OF assms] by (simp add: cmp_def)
next
  case equal
  then show ?thesis
    using str_cmp_dec_value [of l r] numeric_identifier_digits assms by simp
next
  case greater
  then show ?thesis
    using numeric_identifier_cmp_length [OF assms(2,1)] by (simp add: cmp_def)
qed

lemma ordering_to_comparison_0 [simp]: "ordering_to_comparison c = 0 \<longleftrightarrow> c = Equal"
  by (cases c) auto
lemma ordering_to_comparison_less [simp]: "ordering_to_comparison c < 0 \<longleftrightarrow> c = Less"
  by (cases c) auto
lemma ordering_to_comparison_greater [simp]: "0 < ordering_to_comparison c \<longleftrightarrow> c = Greater"
  by (cases c) auto

lemma comparison_then_with [simp]:
  "comparison_then_with (ordering_to_comparison a) (ordering_to_comparison b)
     = ordering_to_comparison (then_with a b)"
  by (cases a) (auto simp: comparison_then_with_def)

lemma numeric_identifier_inj:
  assumes "is_numeric_identifier l" "is_numeric_identifier r"
  shows "dec_value l = dec_value r \<longleftrightarrow> l = r"
  using numeric_identifier_cmp [OF assms] by (metis cmp_simps(1,2) str_cmp_Equal then_with_eq_Equal)

lemma cmp_word: "cmp (a :: 32 word) b = cmp (unat a) (unat b)"
  by (simp add: cmp_def word_less_nat_alt word_unat_eq_iff)

lemma get_uint_component_numeric:
  assumes "is_numeric_identifier l" 
  shows "get_uint_component l = (if dec_value l < 2 ^ 32 then Some (word_of_nat (dec_value l)) else None)"
  using numeric_identifier_digits [OF assms]
  by (simp add: get_uint_component_def parse_u32_digits)

lemma get_uint_component_unat:
  assumes "is_numeric_identifier l" "get_uint_component l = Some w"
  shows "unat w = dec_value l"
  using assms(2) get_uint_component_numeric [OF assms(1)]
  by (auto simp: unat_of_nat split: if_splits)

lemma compare_pre_release_identifier_eq:
  "compare_pre_release_identifier l r = ordering_to_comparison (precedence_id l r)"
proof (cases "is_numeric_identifier l \<and> is_numeric_identifier r \<and> l \<noteq> r")
  case True
  then have n: "is_numeric_identifier l" "is_numeric_identifier r" "l \<noteq> r" by auto
  show ?thesis
  proof (cases "get_uint_component l = None \<or> get_uint_component r = None")
    case True
    then show ?thesis
      using n numeric_identifier_cmp [OF n(1,2)]
      by (auto simp: compare_pre_release_identifier_def precedence_id_def Let_def then_with_def
          split: option.splits)
  next
    case False
    then show ?thesis
      using n get_uint_component_unat
      by (auto simp: compare_pre_release_identifier_def precedence_id_def Let_def cmp_word)
  qed
next
  case False
  then show ?thesis
    by (auto simp: compare_pre_release_identifier_def precedence_id_def Let_def)
qed

lemma precedence_id_Equal: "precedence_id l r = Equal \<longleftrightarrow> l = r"
  by (auto simp: precedence_id_def numeric_identifier_inj)

lemma compare_identifier_pairs_eq:
  "(case compare_identifier_pairs (zip l r) of
      Some result \<Rightarrow> result
    | None \<Rightarrow> ordering_to_comparison (cmp (length l) (length r)))
   = ordering_to_comparison (lex_cmp precedence_id l r)"
proof (induction l r rule: list_induct2')
  case (4 x xs y ys)
  then show ?case
    by (auto simp: Let_def compare_pre_release_identifier_eq then_with_def split: option.splits)
qed (auto simp: cmp_def)

lemma compare_pre_release_identifiers_eq:
  "compare_pre_release_identifiers l r = ordering_to_comparison (precedence_pre l r)"
  unfolding compare_pre_release_identifiers_def precedence_pre_def
  by (auto simp: compare_identifier_pairs_eq cmp_def)

lemma compare_eq_precedence:
  "compare a (Some b) = ordering_to_comparison (precedence a b)"
  by (simp add: compare_def compare_pre_release_identifiers_eq precedence_def cmp_word)
     (auto simp: then_with_def)

lemma comparator_precedence_id: "comparator precedence_id"
proof
  show "precedence_id x x = Equal" for x by (simp add: precedence_id_Equal)
  show "precedence_id y x = rev_ord (precedence_id x y)" for x y
    by (auto simp: precedence_id_def rev_ord_cmp intro: str_cmp.cm_sym)
  show "precedence_id x z \<noteq> Greater"
    if "precedence_id x y \<noteq> Greater" "precedence_id y z \<noteq> Greater" for x y z
    using that str_cmp.cm_trans [of x y z]
    by (auto simp: precedence_id_def split: if_splits)
qed

lemma comparator_precedence_pre: "comparator precedence_pre"
  unfolding precedence_pre_def
  by (intro comparator_then_with comparator_key_cmp comparator_lex_cmp comparator_precedence_id)

interpretation precedence: comparator precedence
  unfolding precedence_def
  by (intro comparator_then_with comparator_key_cmp comparator_on_key [OF comparator_precedence_pre])

section \<open>Parsing and printing versions\<close>

definition ident_char :: "char \<Rightarrow> bool" where
  "ident_char ch \<longleftrightarrow> is_ascii_alphanumeric ch \<or> ch = CHR ''-''"

lemma ident_char_delims [simp]:
  "\<not> ident_char CHR ''.''" "\<not> ident_char CHR ''+''"
  by (simp_all add: ident_char_def char_class_defs)

lemma numeric_identifier_ident:
  "is_numeric_identifier s \<Longrightarrow> s \<noteq> [] \<and> list_all ident_char s"
  using numeric_identifier_digits [of s]
  by (auto simp: list_all_iff ident_char_def is_ascii_alphanumeric_def)

lemma prerelease_part_ident:
  "is_prerelease_part s \<Longrightarrow> s \<noteq> [] \<and> list_all ident_char s"
  using numeric_identifier_ident [of s]
  by (auto simp: is_prerelease_part_def ident_char_def is_ascii_alphanumeric_def
      list_all_iff split: list.splits)

lemma build_part_ident: "is_build_part s \<longleftrightarrow> s \<noteq> [] \<and> list_all ident_char s"
  by (simp add: is_build_part_def ident_char_def [abs_def])

text \<open>Joining identifiers with dots: the result has no plus sign and splits again.\<close>

lemma join_idents:
  assumes "ws \<noteq> []" "list_all (\<lambda>w. w \<noteq> [] \<and> list_all ident_char w) ws"
  shows "join ''.'' ws \<noteq> []" "split_on CHR ''.'' (join ''.'' ws) = ws"
    "CHR ''+'' \<notin> set (join ''.'' ws)"
proof -
  have delim: "CHR ''.'' \<notin> set w \<and> CHR ''+'' \<notin> set w" if "w \<in> set ws" for w
    using assms(2) that ident_char_delims by (fastforce simp: list_all_iff)
  show "join ''.'' ws \<noteq> []"
    using assms by (auto simp: join_eq_Nil_iff)
  show "split_on CHR ''.'' (join ''.'' ws) = ws"
    using assms(1) delim by (intro split_on_join) (auto simp: list_all_iff)
  show "CHR ''+'' \<notin> set (join ''.'' ws)"
    using set_join [of "''.''" ws] delim by auto
qed

lemma show_nat_numeric [simp]: "is_numeric_identifier (show_nat n)"
proof (cases "n = 0")
  case False
  then show ?thesis
    using show_nat_hd [of n] show_nat_digits [of n]
    by (cases "show_nat n") (auto simp: is_numeric_identifier_def)
qed (simp add: is_numeric_identifier_def)

lemma show_nat_not_wildcard: "\<not> is_wildcard (show_nat n)"
proof -
  have "\<not> list_all is_ascii_digit ''*''" "\<not> list_all is_ascii_digit ''x''"
    "\<not> list_all is_ascii_digit ''X''"
    by (simp_all add: is_ascii_digit_def)
  then show ?thesis unfolding is_wildcard_def by (metis show_nat_digits)
qed

lemma show_nat_delims:
  "c \<in> {CHR ''.'', CHR ''-'', CHR ''+''} \<Longrightarrow> c \<notin> set (show_nat n)"
  using show_nat_digits [of n] by (auto simp: list_all_iff is_ascii_digit_def)

text \<open>The text of the three numeric components.\<close>

definition core_text :: "version \<Rightarrow> string" where
  "core_text v =
     show_nat (unat (major v)) @ ''.'' @ show_nat (unat (minor v)) @ ''.''
       @ show_nat (unat (patch v))"

lemma core_text_split [simp]:
  "split_on CHR ''.'' (core_text v) =
     [show_nat (unat (major v)), show_nat (unat (minor v)), show_nat (unat (patch v))]"
  by (simp add: core_text_def split_on_append split_on_no_delim show_nat_delims)

lemma core_text_delims: "CHR ''-'' \<notin> set (core_text v)" "CHR ''+'' \<notin> set (core_text v)"
  by (simp_all add: core_text_def show_nat_delims)

definition prerelease_text :: "version \<Rightarrow> string" where
  "prerelease_text v = (if prerelease v \<noteq> [] then ''-'' @ join ''.'' (prerelease v) else [])"

lemma fmt_version_texts:
  "fmt_version v = (core_text v @ prerelease_text v)
     @ (if build v \<noteq> [] then ''+'' @ join ''.'' (build v) else [])"
  by (simp add: fmt_version_def core_text_def prerelease_text_def)

lemma wf_version_idents:
  assumes "wf_version v"
  shows "list_all (\<lambda>w. w \<noteq> [] \<and> list_all ident_char w) (prerelease v)"
    "list_all (\<lambda>w. w \<noteq> [] \<and> list_all ident_char w) (build v)"
  using assms prerelease_part_ident
  by (auto simp: wf_version_def build_part_ident list_all_iff)

lemma split_once_fmt_version:
  assumes "wf_version v"
  shows "split_once (fmt_version v) CHR ''+'' t =
    Inr (core_text v @ prerelease_text v, if build v \<noteq> [] then Some (join ''.'' (build v)) else None)"
proof -
  note i = wf_version_idents [OF assms]
  have "CHR ''+'' \<notin> set (core_text v @ prerelease_text v)"
    using core_text_delims join_idents(3) [OF _ i(1)] by (auto simp: prerelease_text_def)
  then show ?thesis
    using join_idents(1,3) [OF _ i(2)]
      split_on_append [of "CHR ''+''" "core_text v @ prerelease_text v" "join ''.'' (build v)"]
    by (auto simp: fmt_version_texts split_once_def split_on_no_delim)
qed

lemma split_once_first_core:
  assumes "wf_version v"
  shows "split_once_first (core_text v @ prerelease_text v) CHR ''-'' t =
    Inr (core_text v, if prerelease v \<noteq> [] then Some (join ''.'' (prerelease v)) else None)"
proof -
  show ?thesis
    using core_text_delims join_idents(1) [OF _ wf_version_idents(1) [OF assms]]
    by (auto simp: prerelease_text_def split_once_first_def)
qed

lemma try_parse_fmt_version:
  assumes "wf_version v"
  shows "try_parse_version (fmt_version v) = Inr v"
proof -
  note i = wf_version_idents [OF assms]
  have "prerelease v \<noteq> [] \<Longrightarrow> is_prerelease (join ''.'' (prerelease v))"
    "build v \<noteq> [] \<Longrightarrow> is_build (join ''.'' (build v))"
    using assms join_idents [OF _ i(1)] join_idents [OF _ i(2)]
    by (auto simp: is_prerelease_def is_build_def wf_version_def)
  then show ?thesis
    using join_idents(2) [OF _ i(1)] join_idents(2) [OF _ i(2)]
    by (auto simp: try_parse_version_def split_once_fmt_version [OF assms]
        split_once_first_core [OF assms] is_uint_component_def get_uint_component_def Let_def)
qed

lemma try_parse_version_wf: "try_parse_version text = Inr v \<Longrightarrow> wf_version v"
  by (auto simp: try_parse_version_def wf_version_def is_prerelease_def is_build_def Let_def
      split: sum.splits option.splits prod.splits if_splits)

section \<open>Ranges never make the test panic\<close>

lemma parse_hyphen_primitive: "parse_hyphen l r = (cs, True) \<Longrightarrow> list_all primitive_op cs"
  by (auto simp: parse_hyphen_def primitive_op_def Let_def split: prod.splits if_splits)

lemma parse_comparator_primitive:
  "parse_comparator op text = (cs, True) \<Longrightarrow> list_all primitive_op cs"
  unfolding parse_comparator_def Let_def
  by (cases "case op of None \<Rightarrow> EqualOp | Some p \<Rightarrow> p")
    (auto simp: primitive_op_def split: prod.splits if_splits)

lemma parse_simples_primitive: "parse_simples ss = Some cs \<Longrightarrow> list_all primitive_op cs"
  by (induction ss arbitrary: cs)
    (auto split: option.splits prod.splits if_splits dest: parse_comparator_primitive)

lemma parse_ranges_primitive: "parse_ranges rs = Some as \<Longrightarrow> list_all (list_all primitive_op) as"
  by (induction rs arbitrary: as)
    (auto simp: Let_def split: option.splits prod.splits if_splits
      dest: parse_hyphen_primitive parse_simples_primitive)

lemma test_comparator_not_None: "primitive_op c \<Longrightarrow> test_comparator c v \<noteq> None"
  by (auto simp: primitive_op_def test_comparator_def Let_def split: comparator_operator.splits)

lemma test_alternative_not_None: "list_all primitive_op cs \<Longrightarrow> test_alternative cs v \<noteq> None"
  by (induction cs) (auto split: option.splits dest: test_comparator_not_None [of _ v])

lemma test_alternatives_loop_not_None:
  "list_all (list_all primitive_op) as \<Longrightarrow> test_alternatives_loop as v \<noteq> None"
  by (induction as) (auto split: option.splits dest: test_alternative_not_None [of _ v])

section \<open>Texts without white space\<close>

definition visible :: "string \<Rightarrow> bool" where
  "visible s \<longleftrightarrow> list_all (\<lambda>c. 33 \<le> byte c \<and> byte c \<le> 126) s"

lemma visible_simps [simp]:
  "visible []" "visible (c # s) \<longleftrightarrow> (33 \<le> byte c \<and> byte c \<le> 126) \<and> visible s"
  "visible (s @ t) \<longleftrightarrow> visible s \<and> visible t"
  by (auto simp: visible_def)

lemma visible_drop: "visible s \<Longrightarrow> visible (drop n s)"
  by (auto simp: visible_def list_all_iff dest: in_set_dropD)

lemma visible_ws_prefix: "visible s \<Longrightarrow> ws_prefix s = 0"
  by (cases s) (auto split: list.splits)

lemma visible_ws_suffix: "visible s \<Longrightarrow> ws_suffix s = 0"
  by (simp add: ws_suffix_def Let_def visible_ws_prefix visible_drop)

lemma visible_trim: "visible s \<Longrightarrow> trim s = s" "visible s \<Longrightarrow> trim_start s = s"
  by (simp_all add: trim_def trim_start.simps trim_end.simps visible_ws_prefix visible_ws_suffix)

lemma visible_nonws_len: "visible s \<Longrightarrow> nonws_len s = length s"
  by (induction s) (simp_all del: ws_prefix.simps add: visible_ws_prefix)

lemma visible_split_whitespace: "visible s \<Longrightarrow> s \<noteq> [] \<Longrightarrow> split_whitespace s = [s]"
  by (simp add: split_whitespace.simps [of s] split_whitespace.simps [of "[]"]
      visible_trim visible_nonws_len)

lemma visible_hyphen_range_loop:
  "visible bef \<Longrightarrow> visible s \<Longrightarrow> hyphen_range_loop bef s = None"
  by (induction s arbitrary: bef) (simp_all del: ws_prefix.simps add: visible_ws_suffix)

lemma str_find_absent: "c \<in> set p \<Longrightarrow> c \<notin> set s \<Longrightarrow> str_find p s = None"
  by (induction s) (fastforce dest: set_mono_prefix)+

lemma visible_fmt_version:
  assumes "wf_version v"
  shows "visible (fmt_version v) \<and> CHR ''|'' \<notin> set (fmt_version v) \<and> is_range_atom (fmt_version v)"
proof -
  let ?ok = "\<lambda>c. ident_char c \<or> c = CHR ''.'' \<or> c = CHR ''+''"
  have n: "list_all ident_char (show_nat n)" for n
    using numeric_identifier_ident by simp
  have j: "list_all ?ok (join ''.'' ws)"
    if "list_all (\<lambda>w. w \<noteq> [] \<and> list_all ident_char w) ws" for ws
    using that set_join [of "''.''" ws] by (fastforce simp: list_all_iff)
  have ok: "list_all ?ok (fmt_version v)"
    using n j [OF wf_version_idents(1) [OF assms]] j [OF wf_version_idents(2) [OF assms]]
    by (auto simp: fmt_version_def list_all_iff ident_char_def)
  have "?ok c \<Longrightarrow> 33 \<le> byte c \<and> byte c \<le> 126 \<and> c \<noteq> CHR ''|''" for c
    by (auto simp: ident_char_def char_class_defs byte_def)
  with ok show ?thesis
    by (auto simp: visible_def is_range_atom_def list_all_iff fmt_version_def ident_char_def)
qed

lemma try_parse_version_range_simple:
  assumes "visible s" "s \<noteq> []" "CHR ''|'' \<notin> set s" "parse_range s = Some (op, t)"
    "parse_comparator op t = (cs, True)"
  shows "try_parse_version_range s = (\<lparr>alternatives = [cs]\<rparr>, True)"
proof -
  have "split_str ''||'' s = [s]"
    using assms(3) by (simp add: split_str.simps [of _ s] str_find_absent [of "CHR ''|''"])
  moreover have "parse_hyphen_range s = None"
    using assms(1) visible_hyphen_range_loop [of "[]" s] by (simp add: parse_hyphen_range_def)
  ultimately show ?thesis
    using assms
    by (simp add: try_parse_version_range_def parse_alternatives_def visible_trim
        visible_split_whitespace)
qed

lemma parse_partial_fmt_version:
  assumes "wf_version v"
  shows "parse_partial (fmt_version v) =
    (\<lparr>pv_version = v, major_str = show_nat (unat (major v)), minor_str = show_nat (unat (minor v)),
      patch_str = show_nat (unat (patch v))\<rparr>, True)"
proof -
  note i = wf_version_idents [OF assms]
  have q: "is_qualifier_part_list (join ''.'' ws)"
    if "ws \<noteq> []" "list_all (\<lambda>w. w \<noteq> [] \<and> list_all ident_char w) ws" for ws
    using that join_idents(1) [OF that] set_join [of "''.''" ws]
    by (fastforce simp: is_qualifier_part_list_def list_all_iff ident_char_def)
  have p: "split_optional (fmt_version v) CHR ''+'' =
      Some (core_text v @ prerelease_text v,
        if build v \<noteq> [] then Some (join ''.'' (build v)) else None)"
    using split_once_fmt_version [OF assms, of "[]"] q [OF _ i(2)]
    by (auto simp: split_once_def split_optional_def split: list.splits if_splits)
  have c: "split_optional_first (core_text v @ prerelease_text v) CHR ''-'' =
      Some (core_text v, if prerelease v \<noteq> [] then Some (join ''.'' (prerelease v)) else None)"
    using split_once_first_core [OF assms, of "[]"] q [OF _ i(1)]
    by (auto simp: split_once_first_def split_optional_first_def split: option.splits if_splits)
  show ?thesis
    using join_idents(2) [OF _ i(1)] join_idents(2) [OF _ i(2)]
    by (auto simp: parse_partial_def p c Let_def is_xr_def is_uint_component_def show_nat_not_wildcard
        partial_numeric_def
        get_uint_component_def)
qed

section \<open>What a caret range accepts\<close>

lemma precedence_release_bound:
  assumes "minor u = 0" "patch u = 0" "prerelease u = []"
  shows "precedence v u = Less \<longleftrightarrow>
    major v < major u \<or> major v = major u \<and> minor v = 0 \<and> patch v = 0 \<and> prerelease v \<noteq> []"
proof -
  have "precedence_pre (prerelease v) [] = Less \<longleftrightarrow> prerelease v \<noteq> []"
    by (cases "prerelease v") (auto simp: precedence_pre_def then_with_def cmp_def)
  then show ?thesis
    by (auto simp: precedence_def assms then_with_def word_less_nat_alt word_unat_eq_iff)
qed

lemma precedence_major_mono: "precedence a b \<noteq> Greater \<Longrightarrow> major a \<le> major b"
  by (auto simp: precedence_def then_with_def cmp_def word_le_nat_alt split: if_splits)

lemma caret_upper:
  assumes "major v0 + 1 \<noteq> 0" "precedence v0 v \<noteq> Greater"
  shows "precedence v (increment_major v0) = Less \<longleftrightarrow>
    major v = major v0 \<or>
    major v = major v0 + 1 \<and> minor v = 0 \<and> patch v = 0 \<and> prerelease v \<noteq> []"
proof -
  have "unat (major v0 + 1) = unat (major v0) + 1"
    using unatSuc [of "major v0"] assms(1) by (simp add: add.commute)
  moreover have "unat (major v0) \<le> unat (major v)"
    using precedence_major_mono [OF assms(2)] by (simp add: word_le_nat_alt)
  ultimately have "major v < major v0 + 1 \<longleftrightarrow> major v = major v0"
    by (auto simp: word_less_nat_alt word_unat_eq_iff)
  then show ?thesis
    by (simp add: precedence_release_bound increment_major_def version_default_def)
qed

lemma test_caret_pair:
  "test_alternative
     [\<lparr>operator = GreaterThanEqual, operand = a\<rparr>, \<lparr>operator = LessThan, operand = b\<rparr>] v
   = Some (precedence a v \<noteq> Greater \<and> precedence v b = Less)"
  by (auto simp: test_comparator_def compare_eq_precedence precedence.cm_Greater not_le
      simp flip: ordering_to_comparison_less)


section \<open>Properties\<close>

text \<open>C35: \<open>Version::compare\<close> decides SemVer precedence (item 11), also where a numeric
  identifier does not fit in a \<open>u32\<close> and the code falls back to lengths and string order.\<close>

theorem compare_is_semver_precedence:
  "compare a (Some b) = ordering_to_comparison (precedence a b)"
  by (rule compare_eq_precedence)

text \<open>\<open>Version::compare\<close> is a total preorder: reflexive, antisymmetric in its sign,
  transitive, and two versions compare equal exactly if they differ in build metadata only.\<close>

theorem compare_total_preorder:
  "compare a (Some a) = 0
   \<and> compare b (Some a) = - compare a (Some b)
   \<and> (compare a (Some b) \<le> 0 \<longrightarrow> compare b (Some c) \<le> 0 \<longrightarrow> compare a (Some c) \<le> 0)
   \<and> (compare a (Some b) = 0 \<longleftrightarrow> a\<lparr>build := []\<rparr> = b\<lparr>build := []\<rparr>)"
proof -
  have neg: "ordering_to_comparison (rev_ord x) = - ordering_to_comparison x" for x
    by (cases x) auto
  have le: "ordering_to_comparison x \<le> 0 \<longleftrightarrow> x \<noteq> Greater" for x
    by (cases x) auto
  have "precedence a b = Equal \<longleftrightarrow> a\<lparr>build := []\<rparr> = b\<lparr>build := []\<rparr>"
    by (cases a; cases b)
      (auto simp: precedence_def precedence_pre_def lex_cmp_Equal_iff precedence_id_Equal
        word_unat_eq_iff)
  then show ?thesis
    using precedence.cm_refl [of a] precedence.cm_sym [of b a] precedence.cm_trans [of a b c]
    by (simp add: compare_eq_precedence neg le)
qed

theorem compare_total_preorder_witness:
  "compare \<lparr>major = 1, minor = 0, patch = 0, prerelease = [''alpha''], build = []\<rparr>
     (Some \<lparr>major = 1, minor = 0, patch = 0, prerelease = [], build = []\<rparr>) \<le> 0"
proof -
  let ?a = "\<lparr>major = 1, minor = 0, patch = 0, prerelease = [''alpha''], build = []\<rparr>"
  let ?b = "\<lparr>major = 1, minor = 0, patch = 0, prerelease = [''beta''], build = []\<rparr>"
  let ?c = "\<lparr>major = 1, minor = 0, patch = 0, prerelease = [], build = []\<rparr>"
  have "compare ?a (Some ?b) \<le> 0" "compare ?b (Some ?c) \<le> 0"
    by code_simp+
  then show ?thesis
    using compare_total_preorder [of ?a ?b ?c] by blast
qed

text \<open>parsing accepts only well-formed versions, and every well-formed version is what
  parsing its printed form returns.\<close>

theorem version_parse_print:
  "(try_parse_version text = Inr v \<longrightarrow> wf_version v)
   \<and> (wf_version v \<longrightarrow> try_parse_version (fmt_version v) = Inr v)"
  using try_parse_version_wf try_parse_fmt_version by blast

theorem version_parse_print_witness:
  "try_parse_version
     (fmt_version \<lparr>major = 1, minor = 20, patch = 3, prerelease = [''rc'', ''1''], build = [''b7'']\<rparr>)
   = Inr \<lparr>major = 1, minor = 20, patch = 3, prerelease = [''rc'', ''1''], build = [''b7'']\<rparr>"
proof -
  let ?v = "\<lparr>major = 1, minor = 20, patch = 3, prerelease = [''rc'', ''1''], build = [''b7'']\<rparr>"
  have "wf_version ?v" by code_simp
  then show ?thesis using version_parse_print [of "[]" ?v] by blast
qed

text \<open>no text makes \<open>try_parse_version_range\<close> produce a range whose test panics: the
  tilde and caret operators are always translated away, whether or not parsing succeeded.\<close>

theorem range_test_never_panics:
  "range_test (fst (try_parse_version_range text)) v \<noteq> None"
proof (cases "parse_ranges (split_str ''||'' (trim text))")
  case None
  then show ?thesis
    by (simp add: try_parse_version_range_def parse_alternatives_def range_test_def
        test_disjunction_def)
next
  case (Some as)
  then show ?thesis
    using test_alternatives_loop_not_None [OF parse_ranges_primitive [OF Some], of v]
    by (auto simp: try_parse_version_range_def parse_alternatives_def range_test_def
        test_disjunction_def)
qed

text \<open>the range \<open>^v0\<close> of a version with a non-zero major component accepts exactly the
  versions not below \<open>v0\<close> that have its major component or are a pre-release of the next
  major release, unless the increment of the major component overflows.\<close>

theorem caret_range_accepts:
  assumes "wf_version v0" "major v0 \<noteq> 0" "major v0 + 1 \<noteq> 0"
  shows "range_test (fst (try_parse_version_range (''^'' @ fmt_version v0))) v =
    Some (compare v0 (Some v) \<le> 0 \<and>
      (major v = major v0 \<or>
       major v = major v0 + 1 \<and> minor v = 0 \<and> patch v = 0 \<and> prerelease v \<noteq> []))"
proof -
  let ?cs = "[\<lparr>operator = GreaterThanEqual, operand = v0\<rparr>,
              \<lparr>operator = LessThan, operand = increment_major v0\<rparr>]"
  note vis = visible_fmt_version [OF assms(1)]
  have "parse_comparator (Some Caret) (fmt_version v0) = (?cs, True)"
  proof -
    have "\<not> is_wildcard (show_nat (unat (major v0)))"
      by (rule show_nat_not_wildcard)
    then show ?thesis
      using assms(2) by (simp add: parse_comparator_def parse_partial_fmt_version [OF assms(1)] Let_def
          word_greater_zero_iff)
  qed
  moreover have "parse_range (''^'' @ fmt_version v0) = Some (Some Caret, fmt_version v0)"
    using vis by (auto simp: parse_range_def strip_operator_def visible_trim is_range_atom_def)
  moreover have "visible (''^'' @ fmt_version v0)" "CHR ''|'' \<notin> set (''^'' @ fmt_version v0)"
    using vis by (auto simp: byte_def)
  ultimately have "try_parse_version_range (''^'' @ fmt_version v0) = (\<lparr>alternatives = [?cs]\<rparr>, True)"
    by (intro try_parse_version_range_simple) auto
  moreover have "compare v0 (Some v) \<le> 0 \<longleftrightarrow> precedence v0 v \<noteq> Greater"
    by (cases "precedence v0 v") (simp_all add: compare_eq_precedence)
  ultimately show ?thesis
    using caret_upper [OF assms(3), of v]
    by (auto simp: range_test_def test_disjunction_def test_caret_pair simp del: test_alternative.simps)
qed

theorem caret_range_accepts_witness:
  "range_test (fst (try_parse_version_range ''^1.2.3''))
     \<lparr>major = 1, minor = 9, patch = 0, prerelease = [], build = []\<rparr> = Some True"
proof -
  let ?lo = "\<lparr>major = 1, minor = 2, patch = 3, prerelease = [], build = []\<rparr>"
  let ?v = "\<lparr>major = 1, minor = 9, patch = 0, prerelease = [], build = []\<rparr>"
  have "wf_version ?lo" "fmt_version ?lo = ''1.2.3''" "compare ?lo (Some ?v) \<le> 0"
    by code_simp+
  then show ?thesis
    using caret_range_accepts [of ?lo ?v] by simp
qed

text \<open>printing a range is not faithful when an alternative is a wildcard: \<open>* || 1.0.0\<close>
  accepts 2.0.0, the range parsed back from its printed form does not.\<close>

theorem range_print_drops_wildcard_alternative:
  "let r = fst (try_parse_version_range ''* || 1.0.0'');
       v = \<lparr>major = 2, minor = 0, patch = 0, prerelease = [], build = []\<rparr> in
   range_test r v = Some True
   \<and> range_test (fst (try_parse_version_range (fmt_version_range r))) v = Some False"
  by code_simp


end
