(* ===== verification/Interfaces.thy ===== *)
theory Interfaces
  imports Prelude
begin

text \<open>
  The contracts the containers promise their clients: a finite map that can be read and
  written, the same with deletion, and a set. The container theories interpret them on the
  models of the Rust types; what a client needs of a sequence of operations is proved here
  once.
\<close>

locale map_impl =
  fixes inv :: "'m \<Rightarrow> bool"
    and lookup :: "'m \<Rightarrow> 'k \<Rightarrow> 'v option"
    and insert :: "'k \<Rightarrow> 'v \<Rightarrow> 'm \<Rightarrow> 'm"
  assumes inv_insert: "inv m \<Longrightarrow> inv (insert k v m)"
    and lookup_insert: "inv m \<Longrightarrow> lookup (insert k v m) = (lookup m)(k \<mapsto> v)"
begin

lemma insert_all:
  assumes "inv m"
  shows "inv (foldl (\<lambda>m (k, v). insert k v m) m kvs)"
    and "lookup (foldl (\<lambda>m (k, v). insert k v m) m kvs) = lookup m ++ map_of (rev kvs)"
proof -
  have "inv (foldl (\<lambda>m (k, v). insert k v m) m kvs)
      \<and> lookup (foldl (\<lambda>m (k, v). insert k v m) m kvs) = lookup m ++ map_of (rev kvs)"
    using assms
  proof (induction kvs arbitrary: m)
    case (Cons kv kvs)
    then show ?case
      by (cases kv) (auto simp: inv_insert lookup_insert fun_eq_iff map_add_def split: option.splits)
  qed simp
  then show "inv (foldl (\<lambda>m (k, v). insert k v m) m kvs)"
    and "lookup (foldl (\<lambda>m (k, v). insert k v m) m kvs) = lookup m ++ map_of (rev kvs)"
    by blast+
qed

lemma insert_overwrites: "inv m \<Longrightarrow> lookup (insert k v (insert k v' m)) = lookup (insert k v m)"
  by (simp add: inv_insert lookup_insert)

end

locale deletable_map = map_impl +
  fixes delete :: "'b \<Rightarrow> 'a \<Rightarrow> 'a"
  assumes inv_delete: "inv m \<Longrightarrow> inv (delete k m)"
    and lookup_delete: "inv m \<Longrightarrow> lookup (delete k m) = (lookup m)(k := None)"
begin

lemma delete_insert:
  "inv m \<Longrightarrow> lookup m k = None \<Longrightarrow> lookup (delete k (insert k v m)) = lookup m"
  by (auto simp: inv_insert lookup_insert lookup_delete fun_eq_iff)

lemma delete_all:
  assumes "inv m"
  shows "inv (foldl (\<lambda>m k. delete k m) m ks)"
    and "lookup (foldl (\<lambda>m k. delete k m) m ks) = lookup m |` (- set ks)"
proof -
  have "inv (foldl (\<lambda>m k. delete k m) m ks)
      \<and> lookup (foldl (\<lambda>m k. delete k m) m ks) = lookup m |` (- set ks)"
    using assms
    by (induction ks arbitrary: m)
      (auto simp: inv_delete lookup_delete fun_eq_iff restrict_map_def)
  then show "inv (foldl (\<lambda>m k. delete k m) m ks)"
    and "lookup (foldl (\<lambda>m k. delete k m) m ks) = lookup m |` (- set ks)"
    by blast+
qed

end

locale set_impl =
  fixes inv :: "'s \<Rightarrow> bool"
    and has :: "'s \<Rightarrow> 'a \<Rightarrow> bool"
    and add :: "'a \<Rightarrow> 's \<Rightarrow> 's"
  assumes inv_add: "inv s \<Longrightarrow> inv (add x s)"
    and has_add: "inv s \<Longrightarrow> has (add x s) y \<longleftrightarrow> y = x \<or> has s y"
begin

lemma add_all:
  assumes "inv s"
  shows "inv (foldl (\<lambda>s x. add x s) s xs)"
    and "has (foldl (\<lambda>s x. add x s) s xs) y \<longleftrightarrow> y \<in> set xs \<or> has s y"
proof -
  have "inv (foldl (\<lambda>s x. add x s) s xs)
      \<and> (has (foldl (\<lambda>s x. add x s) s xs) y \<longleftrightarrow> y \<in> set xs \<or> has s y)"
    using assms by (induction xs arbitrary: s) (auto simp: inv_add has_add)
  then show "inv (foldl (\<lambda>s x. add x s) s xs)"
    and "has (foldl (\<lambda>s x. add x s) s xs) y \<longleftrightarrow> y \<in> set xs \<or> has s y"
    by blast+
qed

end

locale deletable_set = set_impl +
  fixes delete :: "'b \<Rightarrow> 'a \<Rightarrow> 'a"
  assumes inv_delete: "inv s \<Longrightarrow> inv (delete x s)"
    and has_delete: "inv s \<Longrightarrow> has (delete x s) y \<longleftrightarrow> y \<noteq> x \<and> has s y"
begin

lemma delete_add_commute:
  "inv s \<Longrightarrow> x \<noteq> y \<Longrightarrow> has (delete x (add y s)) z \<longleftrightarrow> has (add y (delete x s)) z"
  by (auto simp: inv_add inv_delete has_add has_delete)

end

text \<open>A map from keys to units is a set of keys.\<close>

locale key_map = map_impl inv lookup insert
  for inv :: "'m \<Rightarrow> bool" and lookup :: "'m \<Rightarrow> 'k \<Rightarrow> 'v option" and insert +
  fixes v :: 'v

sublocale key_map \<subseteq> keys: set_impl inv "\<lambda>m k. lookup m k \<noteq> None" "\<lambda>k m. insert k v m"
  by unfold_locales (auto simp: inv_insert lookup_insert)

end
