(* ===== verification/OrderedCollections.thy ===== *)
theory OrderedCollections
  imports Interfaces "HOL-Library.AList"
begin

text \<open>
  The insertion-ordered containers of \<open>ts-collections\<close>: \<open>OrderedMap\<close>
  (\<open>ordered_map.rs\<close>) keeps a vector of keys beside a hash map, \<open>OrderedSet\<close>
  (\<open>ordered_set.rs\<close>) a vector of values beside a hash set. A hash map is a partial
  function and a hash set a set: the order in which Rust iterates over them is never used
  here. \<open>self.mp[key]\<close> panics for an absent key; a panic is \<open>None\<close>.

  The ordered map refines an association list: \<open>om_abs\<close> is the abstraction, \<open>om_inv\<close>
  the representation invariant.
\<close>

section \<open>OrderedMap\<close>

record ('k, 'v) ordered_map =
  om_keys :: "'k list"
  om_mp :: "'k \<rightharpoonup> 'v"

definition om_default :: "('k, 'v) ordered_map" where
  "om_default = \<lparr>om_keys = [], om_mp = Map.empty\<rparr>"

definition new_ordered_map_with_size_hint :: "nat \<Rightarrow> ('k, 'v) ordered_map" where
  "new_ordered_map_with_size_hint hint = \<lparr>om_keys = [], om_mp = Map.empty\<rparr>"

definition om_eq :: "('k, 'v) ordered_map \<Rightarrow> ('k, 'v) ordered_map \<Rightarrow> bool" where
  "om_eq m other \<longleftrightarrow> om_keys m = om_keys other \<and> om_mp m = om_mp other"

definition om_is_empty :: "('k, 'v) ordered_map \<Rightarrow> bool" where
  "om_is_empty m \<longleftrightarrow> om_keys m = []"

definition om_set :: "'k \<Rightarrow> 'v \<Rightarrow> ('k, 'v) ordered_map \<Rightarrow> ('k, 'v) ordered_map" where
  "om_set key value m =
     (let m = (if om_mp m key = None then m\<lparr>om_keys := om_keys m @ [key]\<rparr> else m) in
      m\<lparr>om_mp := (om_mp m)(key \<mapsto> value)\<rparr>)"

definition new_ordered_map_from_list :: "('k \<times> 'v) list \<Rightarrow> ('k, 'v) ordered_map" where
  "new_ordered_map_from_list items =
     foldl (\<lambda>m (key, value). om_set key value m)
       (new_ordered_map_with_size_hint (length items)) items"

definition om_get :: "('k, 'v) ordered_map \<Rightarrow> 'k \<Rightarrow> 'v option" where
  "om_get m key = om_mp m key"

definition om_get_or_zero :: "'v \<Rightarrow> ('k, 'v) ordered_map \<Rightarrow> 'k \<Rightarrow> 'v" where
  "om_get_or_zero zero m key = (case om_mp m key of Some v \<Rightarrow> v | None \<Rightarrow> zero)"

definition om_index :: "('k, 'v) ordered_map \<Rightarrow> 'k \<Rightarrow> ('k \<times> 'v) option" where
  "om_index m key = map_option (\<lambda>v. (key, v)) (om_mp m key)"

text \<open>The outer option is a panic, the inner one the result of the function.\<close>

definition om_entry_at :: "('k, 'v) ordered_map \<Rightarrow> int \<Rightarrow> ('k \<times> 'v) option option" where
  "om_entry_at m index =
     (if index < 0 \<or> nat index \<ge> length (om_keys m) then Some None
      else map_option Some (om_index m (om_keys m ! nat index)))"

definition om_has :: "('k, 'v) ordered_map \<Rightarrow> 'k \<Rightarrow> bool" where
  "om_has m key \<longleftrightarrow> om_mp m key \<noteq> None"

definition om_delete :: "'k \<Rightarrow> ('k, 'v) ordered_map \<Rightarrow> ('k, 'v) ordered_map \<times> 'v option" where
  "om_delete key m =
     (case om_mp m key of
        None \<Rightarrow> (m, None)
      | Some v \<Rightarrow>
          let ks = om_keys m;
              ks = (case position (\<lambda>existing. existing = key) ks of
                      None \<Rightarrow> ks
                    | Some i \<Rightarrow>
                        if i = 0 then vec_remove 0 ks
                        else if i = length ks - 1 then butlast ks
                        else vec_remove i ks) in
          (\<lparr>om_keys = ks, om_mp = (om_mp m)(key := None)\<rparr>, Some v))"

definition om_entries :: "('k, 'v) ordered_map \<Rightarrow> ('k \<times> 'v) list option" where
  "om_entries m = those (map (om_index m) (om_keys m))"

definition om_values :: "('k, 'v) ordered_map \<Rightarrow> 'v list option" where
  "om_values m = those (map (\<lambda>key. om_mp m key) (om_keys m))"

definition om_clear :: "('k, 'v) ordered_map \<Rightarrow> ('k, 'v) ordered_map" where
  "om_clear m = \<lparr>om_keys = [], om_mp = Map.empty\<rparr>"

definition om_size :: "('k, 'v) ordered_map \<Rightarrow> nat" where
  "om_size m = length (om_keys m)"

definition om_clone :: "('k, 'v) ordered_map \<Rightarrow> ('k, 'v) ordered_map" where
  "om_clone m = \<lparr>om_keys = om_keys m, om_mp = om_mp m\<rparr>"

subsection \<open>Differences\<close>

text \<open>The calls of the three callbacks, in the order in which they are made.\<close>

datatype ('k, 'v) diff_event =
  Added 'k 'v | Removed 'k 'v | Modified 'k 'v 'v

definition diff_ordered_maps_func ::
    "('v \<Rightarrow> 'v \<Rightarrow> bool) \<Rightarrow> ('k, 'v) ordered_map \<Rightarrow> ('k, 'v) ordered_map
     \<Rightarrow> ('k, 'v) diff_event list option" where
  "diff_ordered_maps_func equal_values m1 m2 =
     (case (om_entries m2, om_entries m1) of
        (Some es2, Some es1) \<Rightarrow>
          Some (concat (map (\<lambda>(k, v2). if om_get m1 k = None then [Added k v2] else []) es2)
            @ concat (map (\<lambda>(k, v1).
                case om_get m2 k of
                  Some v2 \<Rightarrow> if \<not> equal_values v1 v2 then [Modified k v1 v2] else []
                | None \<Rightarrow> [Removed k v1]) es1))
      | _ \<Rightarrow> None)"

definition diff_ordered_maps ::
    "('k, 'v) ordered_map \<Rightarrow> ('k, 'v) ordered_map \<Rightarrow> ('k, 'v) diff_event list option" where
  "diff_ordered_maps m1 m2 = diff_ordered_maps_func (\<lambda>a b. a = b) m1 m2"

subsection \<open>JSON\<close>

text \<open>
  What the serializer is given, entry by entry (\<open>Inl\<close> is the error of a key that has no
  name), and the visitor on what the deserializer yields: an entry or its own error. The
  name of a key (\<open>resolve_key_name\<close>) and its parser (\<open>FromStr\<close>) belong to the key type.
\<close>

fun serialize_entries ::
    "('k \<Rightarrow> 'e + string) \<Rightarrow> ('k \<times> 'v) list \<Rightarrow> 'e + (string \<times> 'v) list" where
  "serialize_entries resolve [] = Inr []"
| "serialize_entries resolve ((k, v) # es) =
     (case resolve k of
        Inl e \<Rightarrow> Inl e
      | Inr key_string \<Rightarrow>
          (case serialize_entries resolve es of
             Inl e \<Rightarrow> Inl e
           | Inr rest \<Rightarrow> Inr ((key_string, v) # rest)))"

definition om_serialize ::
    "('k \<Rightarrow> 'e + string) \<Rightarrow> ('k, 'v) ordered_map \<Rightarrow> ('e + (string \<times> 'v) list) option" where
  "om_serialize resolve m = map_option (serialize_entries resolve) (om_entries m)"

datatype 'e de_error = AccessError 'e | CustomError string

fun visit_map_loop ::
    "(string \<Rightarrow> 'k option) \<Rightarrow> ('e + string \<times> 'v) list \<Rightarrow> ('k, 'v) ordered_map
     \<Rightarrow> 'e de_error + ('k, 'v) ordered_map" where
  "visit_map_loop parse [] result = Inr result"
| "visit_map_loop parse (Inl e # access) result = Inl (AccessError e)"
| "visit_map_loop parse (Inr (key, value) # access) result =
     (case parse key of
        None \<Rightarrow> Inl (CustomError ''cannot unmarshal object key into Map'')
      | Some k \<Rightarrow> visit_map_loop parse access (om_set k value result))"

definition visit_map ::
    "(string \<Rightarrow> 'k option) \<Rightarrow> nat option \<Rightarrow> ('e + string \<times> 'v) list
     \<Rightarrow> 'e de_error + ('k, 'v) ordered_map" where
  "visit_map parse size_hint access =
     visit_map_loop parse access
       (case size_hint of Some hint \<Rightarrow> new_ordered_map_with_size_hint hint | None \<Rightarrow> om_default)"

text \<open>
  \<open>unmarshal_json_from\<close>, with \<open>serde_json::from_str\<close> at its two types as parameters. The
  outer option is a panic; on an error the map is unchanged.
\<close>

datatype json_kind = JNull | JObject | JOther

definition unmarshal_json_from ::
    "(string \<Rightarrow> string + json_kind) \<Rightarrow> (string \<Rightarrow> string + ('k, 'v) ordered_map) \<Rightarrow> string
     \<Rightarrow> ('k, 'v) ordered_map \<Rightarrow> (('k, 'v) ordered_map \<times> (string + unit)) option" where
  "unmarshal_json_from value_from_str map_from_str text m =
     (case value_from_str text of
        Inl e \<Rightarrow> Some (m, Inl e)
      | Inr JNull \<Rightarrow> Some (m, Inr ())
      | Inr JOther \<Rightarrow> Some (m, Inl ''cannot unmarshal non-object JSON value into Map'')
      | Inr JObject \<Rightarrow>
          (case map_from_str text of
             Inl e \<Rightarrow> Some (m, Inl e)
           | Inr incoming \<Rightarrow>
               map_option (\<lambda>es. (foldl (\<lambda>m (key, value). om_set key value m) m es, Inr ()))
                 (om_entries incoming)))"

section \<open>OrderedSet\<close>

record 'a ordered_set =
  os_vec :: "'a list"
  os_set :: "'a set"

definition os_default :: "'a ordered_set" where
  "os_default = \<lparr>os_vec = [], os_set = {}\<rparr>"

definition new_ordered_set_with_size_hint :: "nat \<Rightarrow> 'a ordered_set" where
  "new_ordered_set_with_size_hint hint = \<lparr>os_vec = [], os_set = {}\<rparr>"

definition os_add :: "'a \<Rightarrow> 'a ordered_set \<Rightarrow> 'a ordered_set" where
  "os_add value s =
     (if value \<notin> os_set s
      then \<lparr>os_vec = os_vec s @ [value], os_set = insert value (os_set s)\<rparr>
      else s)"

definition os_has :: "'a ordered_set \<Rightarrow> 'a \<Rightarrow> bool" where
  "os_has s value \<longleftrightarrow> value \<in> os_set s"

definition os_delete :: "'a \<Rightarrow> 'a ordered_set \<Rightarrow> 'a ordered_set \<times> bool" where
  "os_delete value s =
     (if value \<notin> os_set s then (s, False)
      else (\<lparr>os_vec = filter (\<lambda>existing. existing \<noteq> value) (os_vec s),
             os_set = os_set s - {value}\<rparr>, True))"

definition os_values :: "'a ordered_set \<Rightarrow> 'a list" where
  "os_values s = os_vec s"

definition os_clear :: "'a ordered_set \<Rightarrow> 'a ordered_set" where
  "os_clear s = \<lparr>os_vec = [], os_set = {}\<rparr>"

definition os_size :: "'a ordered_set \<Rightarrow> nat" where
  "os_size s = length (os_vec s)"

definition os_clone :: "'a ordered_set \<Rightarrow> 'a ordered_set" where
  "os_clone s = s"

section \<open>The ordered map is an association list\<close>

definition om_inv :: "('k, 'v) ordered_map \<Rightarrow> bool" where
  "om_inv m \<longleftrightarrow> distinct (om_keys m) \<and> set (om_keys m) = dom (om_mp m)"

definition om_abs :: "('k, 'v) ordered_map \<Rightarrow> ('k \<times> 'v) list" where
  "om_abs m = map (\<lambda>k. (k, the (om_mp m k))) (om_keys m)"

lemma om_inv_empty [simp]: "om_inv om_default" "om_inv (om_clear m)" "om_inv (new_ordered_map_with_size_hint n)"
  by (simp_all add: om_inv_def om_default_def om_clear_def new_ordered_map_with_size_hint_def)

lemma om_abs_empty [simp]:
  "om_abs om_default = []" "om_abs (om_clear m) = []" "om_abs (new_ordered_map_with_size_hint n) = []"
  by (simp_all add: om_abs_def om_default_def om_clear_def new_ordered_map_with_size_hint_def)

lemma om_inv_set: "om_inv m \<Longrightarrow> om_inv (om_set k v m)"
  by (auto simp: om_inv_def om_set_def Let_def)

lemma update_new: "k \<notin> fst ` set al \<Longrightarrow> AList.update k v al = al @ [(k, v)]"
  by (induction al) auto

lemma update_map_keys:
  "k \<in> set ks \<Longrightarrow> distinct ks \<Longrightarrow>
   AList.update k v (map (\<lambda>k. (k, f k)) ks) = map (\<lambda>k'. (k', if k' = k then v else f k')) ks"
  by (induction ks) auto

lemma om_abs_set: "om_inv m \<Longrightarrow> om_abs (om_set k v m) = AList.update k v (om_abs m)"
proof (cases "om_mp m k")
  case None
  moreover assume inv: "om_inv m"
  ultimately have k: "k \<notin> set (om_keys m)" by (auto simp: om_inv_def)
  then have "k \<notin> fst ` set (om_abs m)" by (auto simp: om_abs_def)
  from update_new [OF this] k show ?thesis
    by (auto simp: None om_abs_def om_set_def)
next
  case (Some old)
  moreover assume inv: "om_inv m"
  ultimately have "k \<in> set (om_keys m)" "distinct (om_keys m)" by (auto simp: om_inv_def)
  then show ?thesis
    by (auto simp: Some om_abs_def om_set_def update_map_keys)
qed

lemma om_delete_keys:
  assumes "om_inv m"
  shows "om_keys (fst (om_delete k m)) = filter (\<lambda>x. x \<noteq> k) (om_keys m)"
proof (cases "om_mp m k")
  case None
  then have "k \<notin> set (om_keys m)" using assms by (auto simp: om_inv_def)
  then show ?thesis by (simp add: om_delete_def None filter_id_conv [THEN iffD2] cong: filter_cong)
      (metis (mono_tags, lifting) filter_True)
next
  case (Some v)
  then have "k \<in> set (om_keys m)" and d: "distinct (om_keys m)" using assms by (auto simp: om_inv_def)
  then obtain i where i: "position (\<lambda>x. x = k) (om_keys m) = Some i"
    by (metis (mono_tags, lifting) not_Some_eq position_None_iff)
  have "om_keys m \<noteq> []" using \<open>k \<in> set (om_keys m)\<close> by auto
  then have "om_keys (fst (om_delete k m)) = remove1 k (om_keys m)"
    using i vec_remove_position [OF i] vec_remove_last [of "om_keys m"]
    by (auto simp: om_delete_def Some Let_def)
  then show ?thesis using d by (simp add: distinct_remove1_removeAll removeAll_filter_not_eq eq_commute)
qed

lemma om_delete_mp: "om_mp (fst (om_delete k m)) = (om_mp m)(k := None)"
  by (auto simp: om_delete_def Let_def fun_eq_iff split: option.splits)

lemma om_inv_delete: "om_inv m \<Longrightarrow> om_inv (fst (om_delete k m))"
  by (auto simp: om_inv_def om_delete_keys [unfolded om_inv_def] om_delete_mp)

lemma om_abs_delete: "om_inv m \<Longrightarrow> om_abs (fst (om_delete k m)) = AList.delete k (om_abs m)"
  by (auto simp: om_abs_def om_delete_keys om_delete_mp AList.delete_eq filter_map comp_def eq_commute
      intro!: map_cong filter_cong)

lemma om_get_set: "om_get (om_set k v m) = (om_get m)(k \<mapsto> v)"
  by (auto simp: om_get_def om_set_def Let_def fun_eq_iff)

interpretation om: deletable_map om_inv om_get om_set "\<lambda>k m. fst (om_delete k m)"
  by unfold_locales (simp_all add: om_inv_set om_get_set om_inv_delete om_get_def om_delete_mp fun_eq_iff)

lemma om_get_abs: "om_inv m \<Longrightarrow> om_get m k = map_of (om_abs m) k"
  by (auto simp: om_inv_def om_get_def om_abs_def map_of_map_restrict restrict_map_def comp_def domIff)

lemma those_map_Some: "those (map (\<lambda>x. Some (f x)) xs) = Some (map f xs)"
  by (induction xs) auto

lemma om_entries_abs: "om_inv m \<Longrightarrow> om_entries m = Some (om_abs m)"
proof -
  assume "om_inv m"
  then have "map (om_index m) (om_keys m) = map (\<lambda>k. Some (k, the (om_mp m k))) (om_keys m)"
    by (auto simp: om_inv_def om_index_def dom_def)
  then show ?thesis unfolding om_entries_def om_abs_def by (simp only: those_map_Some)
qed

lemma om_entries_values: "om_values m = map_option (map snd) (om_entries m)"
proof -
  have "those (map (om_mp m) ks) = map_option (map snd) (those (map (om_index m) ks))" for ks
    by (induction ks) (auto simp: om_index_def option.map_comp comp_def split: option.splits)
  then show ?thesis by (simp add: om_values_def om_entries_def)
qed

lemma om_keys_abs: "map fst (om_abs m) = om_keys m"
  by (simp add: om_abs_def comp_def)

lemma om_ext: "om_inv m \<Longrightarrow> om_inv m' \<Longrightarrow> om_abs m = om_abs m' \<Longrightarrow> (m :: ('k, 'v) ordered_map) = m'"
  using om_keys_abs [of m] om_keys_abs [of m'] om_get_abs [of m] om_get_abs [of m']
  by (auto simp: om_get_def fun_eq_iff intro!: ordered_map.equality)


section \<open>The ordered set\<close>

definition os_inv :: "'a ordered_set \<Rightarrow> bool" where
  "os_inv s \<longleftrightarrow> distinct (os_vec s) \<and> set (os_vec s) = os_set s"

interpretation os: deletable_set os_inv os_has os_add "\<lambda>x s. fst (os_delete x s)"
  by unfold_locales (auto simp: os_inv_def os_has_def os_add_def os_delete_def)

section \<open>Runs of operations\<close>

datatype ('k, 'v) om_op = OmSet 'k 'v | OmDelete 'k | OmClear

fun om_apply :: "('k, 'v) om_op \<Rightarrow> ('k, 'v) ordered_map \<Rightarrow> ('k, 'v) ordered_map" where
  "om_apply (OmSet k v) m = om_set k v m"
| "om_apply (OmDelete k) m = fst (om_delete k m)"
| "om_apply OmClear m = om_clear m"

fun alist_apply :: "('k, 'v) om_op \<Rightarrow> ('k \<times> 'v) list \<Rightarrow> ('k \<times> 'v) list" where
  "alist_apply (OmSet k v) al = AList.update k v al"
| "alist_apply (OmDelete k) al = AList.delete k al"
| "alist_apply OmClear al = []"

lemma om_apply_refines:
  "om_inv m \<Longrightarrow> om_inv (om_apply oper m) \<and> om_abs (om_apply oper m) = alist_apply oper (om_abs m)"
  by (cases oper) (simp_all add: om_inv_set om_abs_set om_inv_delete om_abs_delete)

lemma om_run_refines:
  "om_inv m \<Longrightarrow> om_inv (fold om_apply ops m) \<and> om_abs (fold om_apply ops m) = fold alist_apply ops (om_abs m)"
  by (induction ops arbitrary: m) (simp_all add: om_apply_refines)

text \<open>C8: an ordered map behaves as an association list in insertion order. After any sequence
  of insertions, deletions and clears from the empty map, iterating does not panic and
  yields exactly the association list the same operations build, where setting a present
  key keeps its place; the keys are distinct, lookups and the size agree, and a deletion
  returns the value the list holds.\<close>

theorem ordered_map_refines_alist:
  "let m = fold om_apply ops om_default; al = fold alist_apply ops [] in
   om_entries m = Some al \<and> om_values m = Some (map snd al)
   \<and> distinct (om_keys m) \<and> om_keys m = map fst al
   \<and> om_get m k = map_of al k \<and> (om_has m k \<longleftrightarrow> k \<in> fst ` set al)
   \<and> om_size m = length al \<and> snd (om_delete k m) = map_of al k"
proof -
  let ?m = "fold om_apply ops om_default"
  have r: "om_inv ?m" "om_abs ?m = fold alist_apply ops []"
    using om_run_refines [OF om_inv_empty(1), of ops] by auto
  have del: "snd (om_delete k ?m) = om_get ?m k"
    by (simp add: om_delete_def om_get_def Let_def split: option.splits)
  have has: "om_has ?m k \<longleftrightarrow> om_get ?m k \<noteq> None"
    by (simp add: om_has_def om_get_def)
  show ?thesis
    unfolding Let_def r(2) [symmetric]
    using r(1) om_keys_abs [of ?m] del has
    by (simp add: om_entries_values om_entries_abs om_get_abs om_size_def om_inv_def
        map_of_eq_None_iff) (metis length_map)
qed

lemma visit_serialized:
  assumes "\<forall>e\<in>set es. \<exists>s. resolve (fst e) = Inr s \<and> parse s = Some (fst e)"
  shows "\<exists>ss. serialize_entries resolve es = Inr ss
    \<and> visit_map_loop parse (map Inr ss :: ('e + string \<times> 'v) list) m = Inr (foldl (\<lambda>m (k, v). om_set k v m) m es)"
  using assms
proof (induction es arbitrary: m)
  case (Cons e es)
  obtain k v where e: "e = (k, v)" by force
  obtain s where "resolve k = Inr s" "parse s = Some k" using Cons.prems e by auto
  moreover obtain ss where "serialize_entries resolve es = Inr ss"
    "visit_map_loop parse (map Inr ss :: ('e + string \<times> 'v) list) (om_set k v m) = Inr (foldl (\<lambda>m (k, v). om_set k v m) (om_set k v m) es)"
    using Cons.IH [of "om_set k v m"] Cons.prems by (metis list.set_intros(2))
  ultimately show ?case by (intro exI [of _ "(s, v) # ss"]) (simp add: e)
qed simp

lemma visit_map_hint: "visit_map parse hint access = visit_map_loop parse access om_default"
  by (simp add: visit_map_def new_ordered_map_with_size_hint_def om_default_def split: option.splits)

lemma om_set_all_abs:
  "om_inv m \<Longrightarrow> om_abs (foldl (\<lambda>m (k, v). om_set k v m) m es) = foldl (\<lambda>al (k, v). AList.update k v al) (om_abs m) es"
  by (induction es arbitrary: m) (auto simp: om_abs_set om_inv_set)

lemma update_all_distinct:
  "distinct (map fst (al @ es)) \<Longrightarrow> foldl (\<lambda>al (k, v). AList.update k v al) al es = al @ es"
  by (induction es arbitrary: al) (auto simp: update_new)

text \<open>an ordered map is restored, order included, by deserializing what it serializes to,
  for a key type whose parser accepts the names it gives.\<close>

theorem ordered_map_serde_roundtrip:
  assumes "om_inv (m :: ('k, 'v) ordered_map)"
    and "\<And>k. k \<in> set (om_keys m) \<Longrightarrow> \<exists>s. resolve k = Inr s \<and> parse s = Some k"
  shows "\<exists>ss. om_serialize resolve m = Some (Inr ss) \<and> visit_map parse hint (map Inr ss :: ('e + string \<times> 'v) list) = Inr m"
proof -
  have "\<forall>e\<in>set (om_abs m). \<exists>s. resolve (fst e) = Inr s \<and> parse s = Some (fst e)"
    using assms(2) by (auto simp: om_abs_def)
  from visit_serialized [OF this, of om_default]
  obtain ss where ss: "serialize_entries resolve (om_abs m) = Inr ss"
    "visit_map_loop parse (map Inr ss :: ('e + string \<times> 'v) list) om_default = Inr (foldl (\<lambda>m (k, v). om_set k v m) om_default (om_abs m))"
    by blast
  have "distinct (map fst (om_abs m))"
    using assms(1) by (simp add: om_keys_abs om_inv_def)
  then have "om_abs (foldl (\<lambda>m (k, v). om_set k v m) om_default (om_abs m)) = om_abs m"
    using update_all_distinct [of "[]" "om_abs m"] by (simp add: om_set_all_abs)
  then have "foldl (\<lambda>m (k, v). om_set k v m) om_default (om_abs m) = m"
    by (intro om_ext om.insert_all(1) assms(1)) auto
  then show ?thesis
    using ss assms(1) by (intro exI [of _ ss]) (simp add: om_serialize_def om_entries_abs visit_map_hint)
qed

theorem ordered_map_serde_roundtrip_witness:
  "let m = om_set ''b'' (1 :: nat) (om_set ''a'' 2 (om_set ''b'' 3 om_default)) in
   \<exists>ss. om_serialize (Inr :: string \<Rightarrow> unit + string) m = Some (Inr ss)
     \<and> visit_map Some None (map Inr ss :: (nat + string \<times> nat) list) = Inr m"
  unfolding Let_def
  by (rule ordered_map_serde_roundtrip) (auto intro!: om_inv_set)

fun diff_key :: "('k, 'v) diff_event \<Rightarrow> 'k" where
  "diff_key (Added k v) = k"
| "diff_key (Removed k v) = k"
| "diff_key (Modified k v w) = k"

lemma distinct_events:
  assumes "distinct (map fst es)"
    and "\<And>e. distinct (f e)" and "\<And>e ev. ev \<in> set (f e) \<Longrightarrow> diff_key ev = fst e"
  shows "distinct (concat (map f es))"
  using assms(1)
proof (induction es)
  case (Cons e es)
  have "diff_key ev \<noteq> fst e" if "ev \<in> set (concat (map f es))" for ev
    using that Cons.prems assms(3) by (auto simp: image_iff)
  then have "set (f e) \<inter> set (concat (map f es)) = {}"
    using assms(3) by blast
  then show ?case using Cons assms(2) by simp
qed simp

lemma in_om_abs: "om_inv m \<Longrightarrow> (k, v) \<in> set (om_abs m) \<longleftrightarrow> om_get m k = Some v"
  by (auto simp: om_inv_def om_abs_def om_get_def image_iff dom_def)

lemma in_events:
  assumes "om_inv m" and "\<And>e ev. ev \<in> set (f e) \<Longrightarrow> diff_key ev = fst e"
  shows "ev \<in> set (concat (map f (om_abs m))) \<longleftrightarrow>
    (\<exists>v. om_get m (diff_key ev) = Some v \<and> ev \<in> set (f (diff_key ev, v)))"
  using assms by (force simp: in_om_abs [symmetric])

text \<open>\<open>diff_ordered_maps_func\<close> reports each key exactly once and classifies it exactly:
  added if only the new map has it, removed if only the old one has it, modified if both
  have it with values the comparison tells apart.\<close>

theorem ordered_map_diff_exact:
  assumes "om_inv m1" "om_inv m2"
  shows "\<exists>evs. diff_ordered_maps_func eq m1 m2 = Some evs \<and> distinct evs
    \<and> set evs = {Added k v | k v. om_get m2 k = Some v \<and> om_get m1 k = None}
        \<union> {Removed k v | k v. om_get m1 k = Some v \<and> om_get m2 k = None}
        \<union> {Modified k v v' | k v v'. om_get m1 k = Some v \<and> om_get m2 k = Some v' \<and> \<not> eq v v'}"
proof -
  let ?added = "\<lambda>(k, v2). if om_get m1 k = None then [Added k v2] else []"
  let ?old = "\<lambda>(k, v1). case om_get m2 k of
      Some v2 \<Rightarrow> if \<not> eq v1 v2 then [Modified k v1 v2] else [] | None \<Rightarrow> [Removed k v1]"
  let ?evs = "concat (map ?added (om_abs m2)) @ concat (map ?old (om_abs m1))"
  have d: "distinct (map fst (om_abs m1))" "distinct (map fst (om_abs m2))"
    using assms by (simp_all add: om_keys_abs om_inv_def)
  have "distinct (concat (map ?added (om_abs m2)))" "distinct (concat (map ?old (om_abs m1)))"
    by (rule distinct_events [OF d(2)]; auto split: prod.splits if_splits)
      (rule distinct_events [OF d(1)]; auto split: prod.splits option.splits if_splits)
  moreover have "set (concat (map ?added (om_abs m2))) \<inter> set (concat (map ?old (om_abs m1))) = {}"
    by (auto split: if_splits option.splits)
  ultimately have "distinct ?evs" by simp
  moreover have "ev \<in> set ?evs \<longleftrightarrow>
      ev \<in> {Added k v | k v. om_get m2 k = Some v \<and> om_get m1 k = None}
        \<union> {Removed k v | k v. om_get m1 k = Some v \<and> om_get m2 k = None}
        \<union> {Modified k v v' | k v v'. om_get m1 k = Some v \<and> om_get m2 k = Some v' \<and> \<not> eq v v'}" for ev
  proof -
    have "ev \<in> set (concat (map ?added (om_abs m2))) \<longleftrightarrow>
        (\<exists>v. om_get m2 (diff_key ev) = Some v \<and> ev \<in> set (?added (diff_key ev, v)))"
      by (rule in_events [OF assms(2)]) (auto split: prod.splits if_splits)
    moreover have "ev \<in> set (concat (map ?old (om_abs m1))) \<longleftrightarrow>
        (\<exists>v. om_get m1 (diff_key ev) = Some v \<and> ev \<in> set (?old (diff_key ev, v)))"
      by (rule in_events [OF assms(1)]) (auto split: prod.splits if_splits option.splits)
    ultimately have "ev \<in> set ?evs \<longleftrightarrow>
        (\<exists>v. om_get m2 (diff_key ev) = Some v \<and> ev \<in> set (?added (diff_key ev, v)))
        \<or> (\<exists>v. om_get m1 (diff_key ev) = Some v \<and> ev \<in> set (?old (diff_key ev, v)))"
      by (simp only: set_append Un_iff)
    then show ?thesis
      by (cases ev; cases "om_get m2 (diff_key ev)") auto
  qed
  moreover have "diff_ordered_maps_func eq m1 m2 = Some ?evs"
    using assms by (simp add: diff_ordered_maps_func_def om_entries_abs)
  ultimately show ?thesis by (intro exI [of _ ?evs] conjI) (auto simp only: set_eq_iff)
qed

theorem ordered_map_diff_exact_witness:
  "\<exists>evs. diff_ordered_maps_func (=) (om_set ''a'' (1 :: nat) om_default) (om_set ''b'' 2 om_default)
      = Some evs \<and> distinct evs \<and> Added ''b'' 2 \<in> set evs"
proof -
  let ?m1 = "om_set ''a'' (1 :: nat) om_default" and ?m2 = "om_set ''b'' (2 :: nat) om_default"
  have "om_inv ?m1" "om_inv ?m2" by (simp_all add: om_inv_set)
  from ordered_map_diff_exact [OF this, of "(=)"] obtain evs where
    evs: "diff_ordered_maps_func (=) ?m1 ?m2 = Some evs" "distinct evs"
    and set: "set evs = {Added k v | k v. om_get ?m2 k = Some v \<and> om_get ?m1 k = None}
        \<union> {Removed k v | k v. om_get ?m1 k = Some v \<and> om_get ?m2 k = None}
        \<union> {Modified k v v' | k v v'. om_get ?m1 k = Some v \<and> om_get ?m2 k = Some v' \<and> v \<noteq> v'}"
    by (elim exE conjE) (rule that)
  have "om_get ?m2 ''b'' = Some 2" "om_get ?m1 ''b'' = None"
    unfolding om_get_set by (simp_all add: om_get_def om_default_def)
  then have "Added ''b'' 2 \<in> set evs"
    unfolding set by (intro UnI1 CollectI exI conjI) (rule refl)
  with evs show ?thesis by (intro exI [of _ evs] conjI)
qed

text \<open>an ordered set holds each value once, in the order of first insertion since its last
  deletion: adding a list of values to an empty set and deleting one of them leaves the
  values in order of first occurrence without the deleted one.\<close>

theorem ordered_set_insertion_order:
  "let s = foldl (\<lambda>s x. os_add x s) os_default xs; t = fst (os_delete y s) in
   os_values s = rev (remdups (rev xs)) \<and> os_values t = filter (\<lambda>x. x \<noteq> y) (rev (remdups (rev xs)))
   \<and> (os_has t z \<longleftrightarrow> z \<in> set xs \<and> z \<noteq> y) \<and> os_size s = card (set xs)
   \<and> (snd (os_delete y s) \<longleftrightarrow> y \<in> set xs)"
proof -
  let ?s = "foldl (\<lambda>s x. os_add x s) os_default xs"
  have inv: "os_inv ?s" by (rule os.add_all) (simp add: os_inv_def os_default_def)
  have has: "os_has ?s z \<longleftrightarrow> z \<in> set xs" for z
    using os.add_all(2) [of os_default xs z] by (simp add: os_inv_def os_default_def os_has_def)
  have vals: "os_vec ?s = rev (remdups (rev xs))"
  proof (induction xs rule: rev_induct)
    case (snoc x xs)
    have "x \<in> os_set (foldl (\<lambda>s x. os_add x s) os_default xs) \<longleftrightarrow> x \<in> set xs"
      using os.add_all(2) [of os_default xs x] by (simp add: os_inv_def os_default_def os_has_def)
    then show ?case using snoc by (simp add: os_add_def)
  qed (simp add: os_default_def)
  have "os_set ?s = set xs" using has by (auto simp: os_has_def)
  moreover have "os_vec (fst (os_delete y ?s)) = filter (\<lambda>x. x \<noteq> y) (os_vec ?s)"
    using inv by (auto simp: os_delete_def os_inv_def intro!: filter_True [symmetric])
  ultimately show ?thesis
    using inv vals os.has_delete [OF inv, of y z] has [of z]
    by (simp add: Let_def os_values_def os_size_def length_remdups_card_conv) (simp add: os_delete_def conj_commute)
qed

end
