(* ===== verification/CopyOnWrite.thy ===== *)
theory CopyOnWrite
  imports Interfaces
begin

text \<open>
  The copy-on-write map of \<open>ts-collections\<close> (\<open>cow.rs\<close>). Its correctness is a matter of
  sharing: \<open>enter_scope\<close> lets two handles point to one hash map, and \<open>Rc::make_mut\<close> copies
  it when the handle is not the only one. The model therefore has an explicit store of
  reference-counted cells. Handles are moved and never duplicated by the code, so a program
  that uses one map with nested scopes has the current handle and a stack of saved ones.
\<close>

section \<open>Reference-counted cells\<close>

record ('k, 'v) rc_cell =
  strong :: nat
  contents :: "'k \<rightharpoonup> 'v"

type_synonym ('k, 'v) rc_store = "('k, 'v) rc_cell list"

text \<open>\<open>Rc::new\<close>, \<open>Rc::clone\<close>, dropping an \<open>Rc\<close>, and \<open>Rc::make_mut\<close> of the standard library.
  An address is a position in the store; a cell that lost its last reference stays at
  count 0 and is never used again.\<close>

definition rc_new :: "('k \<rightharpoonup> 'v) \<Rightarrow> ('k, 'v) rc_store \<Rightarrow> ('k, 'v) rc_store \<times> nat" where
  "rc_new m st = (st @ [\<lparr>strong = 1, contents = m\<rparr>], length st)"

definition rc_clone :: "nat \<Rightarrow> ('k, 'v) rc_store \<Rightarrow> ('k, 'v) rc_store" where
  "rc_clone a st = st[a := (st ! a)\<lparr>strong := strong (st ! a) + 1\<rparr>]"

definition rc_drop :: "nat \<Rightarrow> ('k, 'v) rc_store \<Rightarrow> ('k, 'v) rc_store" where
  "rc_drop a st = st[a := (st ! a)\<lparr>strong := strong (st ! a) - 1\<rparr>]"

definition rc_make_mut :: "nat \<Rightarrow> ('k, 'v) rc_store \<Rightarrow> ('k, 'v) rc_store \<times> nat" where
  "rc_make_mut a st =
     (if strong (st ! a) = 1 then (st, a)
      else let (st, b) = rc_new (contents (st ! a)) st in (rc_drop a st, b))"

section \<open>CopyOnWriteMap\<close>

record cow_map =
  cow_m :: nat
  cow_owned :: bool

definition cow_default :: "('k, 'v) rc_store \<Rightarrow> ('k, 'v) rc_store \<times> cow_map" where
  "cow_default st = (let (st, a) = rc_new Map.empty st in (st, \<lparr>cow_m = a, cow_owned = False\<rparr>))"

definition cow_get :: "('k, 'v) rc_store \<Rightarrow> cow_map \<Rightarrow> 'k \<Rightarrow> 'v option \<times> bool" where
  "cow_get st c k =
     (case contents (st ! cow_m c) k of Some v \<Rightarrow> (Some v, True) | None \<Rightarrow> (None, False))"

definition cow_has :: "('k, 'v) rc_store \<Rightarrow> cow_map \<Rightarrow> 'k \<Rightarrow> bool" where
  "cow_has st c k \<longleftrightarrow> contents (st ! cow_m c) k \<noteq> None"

definition ensure_owned :: "('k, 'v) rc_store \<Rightarrow> cow_map \<Rightarrow> ('k, 'v) rc_store \<times> cow_map" where
  "ensure_owned st c =
     (if cow_owned c then (st, c)
      else let (st, a) = rc_make_mut (cow_m c) st in (st, \<lparr>cow_m = a, cow_owned = True\<rparr>))"

definition cow_set ::
    "'k \<Rightarrow> 'v \<Rightarrow> ('k, 'v) rc_store \<Rightarrow> cow_map \<Rightarrow> ('k, 'v) rc_store \<times> cow_map" where
  "cow_set k v st c =
     (let (st, c) = ensure_owned st c;
          (st, a) = rc_make_mut (cow_m c) st in
      (st[a := (st ! a)\<lparr>contents := (contents (st ! a))(k \<mapsto> v)\<rparr>], c\<lparr>cow_m := a\<rparr>))"

text \<open>The scope token is the saved handle.\<close>

definition enter_scope ::
    "('k, 'v) rc_store \<Rightarrow> cow_map \<Rightarrow> ('k, 'v) rc_store \<times> cow_map \<times> cow_map" where
  "enter_scope st c =
     (let saved = \<lparr>cow_m = cow_m c, cow_owned = cow_owned c\<rparr> in
      (rc_clone (cow_m c) st, c\<lparr>cow_owned := False\<rparr>, saved))"

text \<open>Assigning to \<open>*map\<close> drops the handle it held.\<close>

definition restore ::
    "cow_map \<Rightarrow> ('k, 'v) rc_store \<Rightarrow> cow_map \<Rightarrow> ('k, 'v) rc_store \<times> cow_map" where
  "restore saved st c = (rc_drop (cow_m c) st, saved)"

section \<open>CopyOnWriteSet\<close>

type_synonym 'k cow_set_store = "('k, unit) rc_store"

definition cow_set_default :: "'k cow_set_store \<Rightarrow> 'k cow_set_store \<times> cow_map" where
  "cow_set_default st = cow_default st"

definition cow_set_has :: "'k cow_set_store \<Rightarrow> cow_map \<Rightarrow> 'k \<Rightarrow> bool" where
  "cow_set_has st c k = snd (cow_get st c k)"

definition cow_set_add :: "'k \<Rightarrow> 'k cow_set_store \<Rightarrow> cow_map \<Rightarrow> 'k cow_set_store \<times> cow_map" where
  "cow_set_add k st c = cow_set k () st c"

definition cow_set_enter_scope ::
    "'k cow_set_store \<Rightarrow> cow_map \<Rightarrow> 'k cow_set_store \<times> cow_map \<times> cow_map" where
  "cow_set_enter_scope st c = enter_scope st c"

definition cow_set_restore ::
    "cow_map \<Rightarrow> 'k cow_set_store \<Rightarrow> cow_map \<Rightarrow> 'k cow_set_store \<times> cow_map" where
  "cow_set_restore saved st c = restore saved st c"

section \<open>Nested scopes\<close>

text \<open>A program over one map: writes, scope entries and scope exits in LIFO order (an exit
  without a scope does nothing). The state is the store, the current handle and the saved
  handles, innermost first.\<close>

datatype ('k, 'v) cow_op = CowSet 'k 'v | CowEnter | CowRestore

record ('k, 'v) cow_state =
  cs_store :: "('k, 'v) rc_store"
  cs_cur :: cow_map
  cs_saved :: "cow_map list"

fun cow_step :: "('k, 'v) cow_op \<Rightarrow> ('k, 'v) cow_state \<Rightarrow> ('k, 'v) cow_state" where
  "cow_step (CowSet k v) s =
     (let (st, c) = cow_set k v (cs_store s) (cs_cur s) in s\<lparr>cs_store := st, cs_cur := c\<rparr>)"
| "cow_step CowEnter s =
     (let (st, c, saved) = enter_scope (cs_store s) (cs_cur s) in
      \<lparr>cs_store = st, cs_cur = c, cs_saved = saved # cs_saved s\<rparr>)"
| "cow_step CowRestore s =
     (case cs_saved s of
        [] \<Rightarrow> s
      | saved # rest \<Rightarrow>
          let (st, c) = restore saved (cs_store s) (cs_cur s) in
          \<lparr>cs_store = st, cs_cur = c, cs_saved = rest\<rparr>)"

definition cow_init :: "('k, 'v) cow_state" where
  "cow_init = (let (st, c) = cow_default [] in \<lparr>cs_store = st, cs_cur = c, cs_saved = []\<rparr>)"

text \<open>The specification copies the whole map on every scope entry.\<close>

fun scope_step :: "('k, 'v) cow_op \<Rightarrow> ('k \<rightharpoonup> 'v) \<times> ('k \<rightharpoonup> 'v) list \<Rightarrow> ('k \<rightharpoonup> 'v) \<times> ('k \<rightharpoonup> 'v) list" where
  "scope_step (CowSet k v) (cur, saved) = (cur(k \<mapsto> v), saved)"
| "scope_step CowEnter (cur, saved) = (cur, cur # saved)"
| "scope_step CowRestore (cur, []) = (cur, [])"
| "scope_step CowRestore (cur, m # saved) = (m, saved)"

definition cow_view :: "('k, 'v) cow_state \<Rightarrow> ('k \<rightharpoonup> 'v) \<times> ('k \<rightharpoonup> 'v) list" where
  "cow_view s = (contents (cs_store s ! cow_m (cs_cur s)),
                 map (\<lambda>c. contents (cs_store s ! cow_m c)) (cs_saved s))"

text \<open>Every count is the number of handles that point to the cell.\<close>

definition cow_handles :: "('k, 'v) cow_state \<Rightarrow> nat list" where
  "cow_handles s = cow_m (cs_cur s) # map cow_m (cs_saved s)"

definition cow_inv :: "('k, 'v) cow_state \<Rightarrow> bool" where
  "cow_inv s \<longleftrightarrow>
     (\<forall>a\<in>set (cow_handles s). a < length (cs_store s))
     \<and> (\<forall>a<length (cs_store s). strong (cs_store s ! a) = count_list (cow_handles s) a)"

lemma cow_inv_init: "cow_inv cow_init" "cow_view cow_init = (Map.empty, [])"
  by (simp_all add: cow_inv_def cow_view_def cow_init_def cow_default_def rc_new_def cow_handles_def)

text \<open>Copying the current cell when it is shared keeps the invariant and what every handle sees.\<close>

lemma make_mut_inv:
  assumes "cow_inv s" and "rc_make_mut (cow_m (cs_cur s)) (cs_store s) = (st, a)"
  shows "cow_inv (s\<lparr>cs_store := st, cs_cur := \<lparr>cow_m = a, cow_owned = w\<rparr>\<rparr>)"
    and "cow_view (s\<lparr>cs_store := st, cs_cur := \<lparr>cow_m = a, cow_owned = w\<rparr>\<rparr>) = cow_view s"
    and "strong (st ! a) = 1"
    and "a < length st" and "a \<notin> cow_m ` set (cs_saved s)"
proof -
  let ?c = "cow_m (cs_cur s)" and ?st = "cs_store s"
  let ?t = "s\<lparr>cs_store := st, cs_cur := \<lparr>cow_m = a, cow_owned = w\<rparr>\<rparr>"
  have c: "?c < length ?st" and sv: "\<forall>b\<in>cow_m ` set (cs_saved s). b < length ?st"
    and cnt: "\<And>b. b < length ?st \<Longrightarrow> strong (?st ! b) = count_list (cow_handles s) b"
    using assms(1) by (auto simp: cow_inv_def cow_handles_def)
  have "cow_inv ?t \<and> cow_view ?t = cow_view s \<and> strong (st ! a) = 1 \<and> a < length st
      \<and> a \<notin> cow_m ` set (cs_saved s)"
  proof (cases "strong (?st ! ?c) = 1")
    case True
    then have st: "st = ?st" "a = ?c" using assms(2) by (simp_all add: rc_make_mut_def)
    have "count_list (map cow_m (cs_saved s)) ?c = 0"
      using True cnt [OF c] by (simp add: cow_handles_def)
    then have "?c \<notin> cow_m ` set (cs_saved s)" by (simp add: count_list_0_iff)
    then show ?thesis
      using assms(1) True c by (simp add: st cow_inv_def cow_view_def cow_handles_def)
  next
    case False
    then have st: "a = length ?st"
      "st = (?st @ [\<lparr>strong = 1, contents = contents (?st ! ?c)\<rparr>])
              [?c := (?st ! ?c)\<lparr>strong := strong (?st ! ?c) - 1\<rparr>]"
      using assms(2) c by (auto simp: rc_make_mut_def rc_new_def rc_drop_def nth_append)
    have new: "a \<notin> cow_m ` set (cs_saved s)" using sv st(1) by auto
    have old: "contents (st ! b) = contents (?st ! b)" if "b < length ?st" for b
      using that c by (simp add: st nth_append nth_list_update)
    have "strong (st ! b) = count_list (cow_handles ?t) b" if "b < length st" for b
    proof (cases "b = length ?st")
      case True
      then show ?thesis
        using new c by (simp add: st cow_handles_def nth_append count_list_0_iff)
    next
      case bl: False
      then have b: "b < length ?st" using that by (simp add: st)
      show ?thesis
        using cnt [OF b] b c st(1) by (auto simp: st(2) cow_handles_def nth_append nth_list_update)
    qed
    then have "cow_inv ?t"
      using sv by (auto simp: cow_inv_def cow_handles_def st(1)) (auto simp: st less_Suc_eq)
    moreover have "cow_view ?t = cow_view s"
      using c sv old by (auto simp: cow_view_def) (simp add: st nth_append)
    ultimately show ?thesis using new c by (auto simp: st nth_append)
  qed
  then show "cow_inv ?t" "cow_view ?t = cow_view s" "strong (st ! a) = 1" "a < length st"
    "a \<notin> cow_m ` set (cs_saved s)" by blast+
qed

lemma ensure_owned_inv:
  assumes "cow_inv s" and "ensure_owned (cs_store s) (cs_cur s) = (st, c)"
  shows "cow_inv (s\<lparr>cs_store := st, cs_cur := c\<rparr>)"
    and "cow_view (s\<lparr>cs_store := st, cs_cur := c\<rparr>) = cow_view s"
proof -
  obtain st' a where m: "rc_make_mut (cow_m (cs_cur s)) (cs_store s) = (st', a)" by force
  have "cow_inv (s\<lparr>cs_store := st, cs_cur := c\<rparr>)
      \<and> cow_view (s\<lparr>cs_store := st, cs_cur := c\<rparr>) = cow_view s"
  proof (cases "cow_owned (cs_cur s)")
    case True
    then show ?thesis using assms by (auto simp: ensure_owned_def)
  next
    case False
    then show ?thesis
      using assms(2) make_mut_inv(1,2) [OF assms(1) m, of True] by (auto simp: ensure_owned_def m)
  qed
  then show "cow_inv (s\<lparr>cs_store := st, cs_cur := c\<rparr>)"
    "cow_view (s\<lparr>cs_store := st, cs_cur := c\<rparr>) = cow_view s" by blast+
qed

lemma write_own_cell:
  assumes "cow_inv s" "cow_m (cs_cur s) = a" "a \<notin> cow_m ` set (cs_saved s)"
  shows "cow_inv (s\<lparr>cs_store := (cs_store s)[a := (cs_store s ! a)\<lparr>contents := m\<rparr>]\<rparr>)"
    and "cow_view (s\<lparr>cs_store := (cs_store s)[a := (cs_store s ! a)\<lparr>contents := m\<rparr>]\<rparr>)
      = (m, snd (cow_view s))"
  using assms by (auto simp: cow_inv_def cow_view_def cow_handles_def nth_list_update)

lemma cow_set_refines:
  assumes "cow_inv s"
  shows "cow_inv (cow_step (CowSet k v) s)"
    and "cow_view (cow_step (CowSet k v) s) = scope_step (CowSet k v) (cow_view s)"
proof -
  obtain st c where e: "ensure_owned (cs_store s) (cs_cur s) = (st, c)" by force
  obtain st' a where m: "rc_make_mut (cow_m c) st = (st', a)" by force
  let ?s = "s\<lparr>cs_store := st, cs_cur := c\<rparr>"
  let ?t = "?s\<lparr>cs_store := st', cs_cur := \<lparr>cow_m = a, cow_owned = cow_owned c\<rparr>\<rparr>"
  have s: "cow_inv ?s" "cow_view ?s = cow_view s"
    using ensure_owned_inv [OF assms e] by auto
  have m': "rc_make_mut (cow_m (cs_cur ?s)) (cs_store ?s) = (st', a)" using m by simp
  note t = make_mut_inv(1,2) [OF s(1) m', of "cow_owned c"] make_mut_inv(5) [OF s(1) m']
  have c: "c\<lparr>cow_m := a\<rparr> = \<lparr>cow_m = a, cow_owned = cow_owned c\<rparr>" by simp
  have step: "cow_step (CowSet k v) s
      = ?t\<lparr>cs_store := st'[a := (st' ! a)\<lparr>contents := (contents (st' ! a))(k \<mapsto> v)\<rparr>]\<rparr>"
    by (simp add: cow_set_def e m c)
  have "fst (cow_view ?t) = contents (st' ! a)" by (simp add: cow_view_def)
  then have view: "contents (st' ! a) = fst (cow_view s)" using t(2) s(2) by simp
  show "cow_inv (cow_step (CowSet k v) s)"
    and "cow_view (cow_step (CowSet k v) s) = scope_step (CowSet k v) (cow_view s)"
    using write_own_cell [of ?t a "(contents (st' ! a))(k \<mapsto> v)"] t s(2)
    unfolding step by (simp_all add: view) (cases "cow_view s"; simp)
qed

lemma cow_enter_refines:
  assumes "cow_inv s"
  shows "cow_inv (cow_step CowEnter s)" and "cow_view (cow_step CowEnter s) = scope_step CowEnter (cow_view s)"
  using assms
  by (auto simp: enter_scope_def rc_clone_def cow_inv_def cow_view_def cow_handles_def nth_list_update)

lemma cow_restore_refines:
  assumes "cow_inv s"
  shows "cow_inv (cow_step CowRestore s)"
    and "cow_view (cow_step CowRestore s) = scope_step CowRestore (cow_view s)"
proof -
  have "cow_inv (cow_step CowRestore s)
      \<and> cow_view (cow_step CowRestore s) = scope_step CowRestore (cow_view s)"
  proof (cases "cs_saved s")
    case Nil
    then show ?thesis using assms by (simp add: cow_view_def)
  next
    case (Cons saved rest)
    then show ?thesis
      using assms
      by (auto simp: restore_def rc_drop_def cow_inv_def cow_view_def cow_handles_def nth_list_update)
  qed
  then show "cow_inv (cow_step CowRestore s)"
    and "cow_view (cow_step CowRestore s) = scope_step CowRestore (cow_view s)" by blast+
qed

lemma cow_step_refines:
  "cow_inv s \<Longrightarrow> cow_inv (cow_step oper s) \<and> cow_view (cow_step oper s) = scope_step oper (cow_view s)"
  by (cases oper) (simp_all only: cow_set_refines cow_enter_refines cow_restore_refines)

lemma cow_run_refines:
  "cow_inv s \<Longrightarrow> cow_inv (fold cow_step ops s)
     \<and> cow_view (fold cow_step ops s) = fold scope_step ops (cow_view s)"
  by (induction ops arbitrary: s) (simp_all add: cow_step_refines del: cow_step.simps)

lemma cow_get_view: "cow_get (cs_store s) (cs_cur s) k = (fst (cow_view s) k, fst (cow_view s) k \<noteq> None)"
  by (simp add: cow_get_def cow_view_def split: option.splits)

interpretation cow: map_impl cow_inv "\<lambda>s k. fst (cow_get (cs_store s) (cs_cur s) k)"
    "\<lambda>k v s. cow_step (CowSet k v) s"
proof
  fix s :: "('k, 'v) cow_state" and k v
  assume inv: "cow_inv s"
  show "cow_inv (cow_step (CowSet k v) s)" by (rule cow_set_refines [OF inv])
  show "(\<lambda>k'. fst (cow_get (cs_store (cow_step (CowSet k v) s)) (cs_cur (cow_step (CowSet k v) s)) k'))
      = (\<lambda>k'. fst (cow_get (cs_store s) (cs_cur s) k'))(k \<mapsto> v)"
    unfolding cow_get_view cow_set_refines(2) [OF inv] by (cases "cow_view s") (simp add: fun_eq_iff)
qed

interpretation cow_set: key_map cow_inv "\<lambda>s k. fst (cow_get (cs_store s) (cs_cur s) k)"
    "\<lambda>k v s. cow_step (CowSet k v) s" "()"
  by unfold_locales

section \<open>Properties\<close>

text \<open>C4: the copy-on-write map refines a stack of maps copied on every scope entry. After any
  sequence of writes, scope entries and restores, a lookup sees what the specification's
  current map holds, every saved scope still sees its own map although storage is shared,
  and each reference count is the number of handles to the cell.\<close>

theorem copy_on_write_refines_copying:
  "let s = fold cow_step ops cow_init; (cur, saved) = fold scope_step ops (Map.empty, []) in
   cow_get (cs_store s) (cs_cur s) k = (cur k, cur k \<noteq> None)
   \<and> map (\<lambda>c. contents (cs_store s ! cow_m c)) (cs_saved s) = saved
   \<and> (\<forall>a<length (cs_store s). strong (cs_store s ! a) = count_list (cow_handles s) a)"
proof -
  let ?s = "fold cow_step ops cow_init"
  obtain cur saved where spec: "fold scope_step ops (Map.empty, []) = (cur, saved)" by force
  have r: "cow_inv ?s" "cow_view ?s = (cur, saved)"
    using cow_run_refines [OF cow_inv_init(1), of ops] spec by (auto simp: cow_inv_init)
  then have "map (\<lambda>c. contents (cs_store ?s ! cow_m c)) (cs_saved ?s) = saved"
    by (simp add: cow_view_def)
  moreover have "\<forall>a<length (cs_store ?s). strong (cs_store ?s ! a) = count_list (cow_handles ?s) a"
    using r(1) by (simp add: cow_inv_def)
  moreover have "cow_get (cs_store ?s) (cs_cur ?s) k = (cur k, cur k \<noteq> None)"
    using r(2) by (simp add: cow_get_view)
  ultimately show ?thesis unfolding spec Let_def by simp
qed

theorem copy_on_write_refines_copying_witness:
  "let s = fold cow_step [CowSet ''x'' (1 :: nat), CowEnter, CowSet ''x'' 2, CowRestore] cow_init in
   cow_get (cs_store s) (cs_cur s) ''x'' = (Some 1, True)"
  using copy_on_write_refines_copying
    [of "[CowSet ''x'' (1 :: nat), CowEnter, CowSet ''x'' 2, CowRestore]" "''x''"]
  by (simp add: Let_def del: cow_step.simps)

text \<open>members of a copy-on-write set after adding values are the values added and the
  members before, from any state a program can reach.\<close>

theorem copy_on_write_set_members:
  "let s = fold cow_step ops (cow_init :: ('k, unit) cow_state);
       t = foldl (\<lambda>s x. let (st, c) = cow_set_add x (cs_store s) (cs_cur s) in
                         s\<lparr>cs_store := st, cs_cur := c\<rparr>) s xs in
   cow_set_has (cs_store t) (cs_cur t) y \<longleftrightarrow> y \<in> set xs \<or> cow_set_has (cs_store s) (cs_cur s) y"
proof -
  let ?s = "fold cow_step ops (cow_init :: ('k, unit) cow_state)"
  have has: "cow_set_has (cs_store s) (cs_cur s) y \<longleftrightarrow> fst (cow_get (cs_store s) (cs_cur s) y) \<noteq> None"
    for s :: "('k, unit) cow_state" and y by (simp add: cow_set_has_def cow_get_view)
  have add: "(\<lambda>s x. let (st, c) = cow_set_add x (cs_store s) (cs_cur s) in s\<lparr>cs_store := st, cs_cur := c\<rparr>)
      = (\<lambda>s x. cow_step (CowSet x ()) s)"
    by (simp add: cow_set_add_def fun_eq_iff)
  have "cow_inv ?s" using cow_run_refines [OF cow_inv_init(1)] by blast
  then show ?thesis
    unfolding add Let_def [of ?s] Let_def [of "foldl _ _ _"] has by (rule cow_set.keys.add_all(2))
qed

end
