(* ===== verification/Sets.thy ===== *)
theory Sets
  imports Interfaces "HOL-Library.FSet" "HOL-Library.Multiset"
begin

text \<open>
  The hash-based containers of \<open>ts-collections\<close>: \<open>Set\<close> (\<open>set.rs\<close>), a hash set that is not
  allocated until it is needed, with the extension traits for an absent set; \<open>MultiMap\<close>
  (\<open>multimap.rs\<close>); \<open>SyncMap\<close> and \<open>SyncSet\<close> (\<open>syncmap.rs\<close>, \<open>syncset.rs\<close>), whose methods each
  hold the lock for their whole body and so are atomic steps on one shared map. A hash set
  is an \<open>fset\<close>, a hash map a partial function; where the code iterates over one, the order is
  an argument. A panic is \<open>None\<close>.
\<close>

section \<open>Set\<close>

record 'a hash_set =
  set_m :: "'a fset option"

definition set_eq :: "'a hash_set \<Rightarrow> 'a hash_set \<Rightarrow> bool" where
  "set_eq s other \<longleftrightarrow> set_m s = set_m other"

definition set_default :: "'a hash_set" where
  "set_default = \<lparr>set_m = None\<rparr>"

definition new_set_with_size_hint :: "nat \<Rightarrow> 'a hash_set" where
  "new_set_with_size_hint hint = \<lparr>set_m = Some {||}\<rparr>"

definition set_has :: "'a hash_set \<Rightarrow> 'a \<Rightarrow> bool" where
  "set_has s key = (case set_m s of None \<Rightarrow> False | Some m \<Rightarrow> key |\<in>| m)"

definition set_add :: "'a \<Rightarrow> 'a hash_set \<Rightarrow> 'a hash_set" where
  "set_add key s = \<lparr>set_m = Some (finsert key (case set_m s of None \<Rightarrow> {||} | Some m \<Rightarrow> m))\<rparr>"

definition new_from_items :: "'a list \<Rightarrow> 'a hash_set" where
  "new_from_items items = foldl (\<lambda>set item. set_add item set) set_default items"

definition set_delete :: "'a \<Rightarrow> 'a hash_set \<Rightarrow> 'a hash_set" where
  "set_delete key s =
     (case set_m s of None \<Rightarrow> s | Some m \<Rightarrow> \<lparr>set_m = Some (m |-| {|key|})\<rparr>)"

definition set_len :: "'a hash_set \<Rightarrow> nat" where
  "set_len s = (case set_m s of None \<Rightarrow> 0 | Some m \<Rightarrow> fcard m)"

definition set_is_empty :: "'a hash_set \<Rightarrow> bool" where
  "set_is_empty s = (case set_m s of None \<Rightarrow> True | Some m \<Rightarrow> m = {||})"

definition set_keys :: "'a hash_set \<Rightarrow> 'a fset option" where
  "set_keys s = set_m s"

definition set_clear :: "'a hash_set \<Rightarrow> 'a hash_set" where
  "set_clear s = (case set_m s of None \<Rightarrow> s | Some m \<Rightarrow> \<lparr>set_m = Some {||}\<rparr>)"

definition set_add_if_absent :: "'a \<Rightarrow> 'a hash_set \<Rightarrow> 'a hash_set \<times> bool" where
  "set_add_if_absent key s = (if set_has s key then (s, False) else (set_add key s, True))"

definition clone_set :: "'a hash_set \<Rightarrow> 'a hash_set" where
  "clone_set s = s"

definition set_union :: "'a hash_set \<Rightarrow> 'a hash_set \<Rightarrow> 'a hash_set" where
  "set_union s other =
     (if set_is_empty s \<and> set_is_empty other then s
      else if set_m s = None then s\<lparr>set_m := set_m other\<rparr>
      else (case (set_m s, set_m other) of
              (Some m, Some other_m) \<Rightarrow> s\<lparr>set_m := Some (m |\<union>| other_m)\<rparr>
            | _ \<Rightarrow> s))"

definition unioned_with :: "'a hash_set \<Rightarrow> 'a hash_set option \<Rightarrow> 'a hash_set" where
  "unioned_with s other =
     (case other of
        None \<Rightarrow> s
      | Some other \<Rightarrow>
          let result = (if set_m s = None then s\<lparr>set_m := Some {||}\<rparr> else s) in
          (case (set_m result, set_m other) of
             (Some m, Some other_m) \<Rightarrow> result\<lparr>set_m := Some (m |\<union>| other_m)\<rparr>
           | _ \<Rightarrow> result))"

definition set_is_subset_of :: "'a hash_set \<Rightarrow> 'a hash_set \<Rightarrow> bool" where
  "set_is_subset_of s other =
     (case set_m s of None \<Rightarrow> True | Some m \<Rightarrow> fBall m (\<lambda>key. set_has other key))"

definition set_equals :: "'a hash_set \<Rightarrow> 'a hash_set \<Rightarrow> bool" where
  "set_equals s other \<longleftrightarrow> set_len s = set_len other \<and> set_is_subset_of s other"

definition set_intersects :: "'a hash_set \<Rightarrow> 'a hash_set \<Rightarrow> bool" where
  "set_intersects s other =
     (case (set_m s, set_m other) of
        (Some m, Some _) \<Rightarrow> fBex m (\<lambda>key. set_has other key)
      | _ \<Rightarrow> False)"

subsection \<open>Optional sets\<close>

definition opt_has :: "'a hash_set option \<Rightarrow> 'a \<Rightarrow> bool" where
  "opt_has s key = (case s of None \<Rightarrow> False | Some s \<Rightarrow> set_has s key)"

definition opt_len :: "'a hash_set option \<Rightarrow> nat" where
  "opt_len s = (case s of None \<Rightarrow> 0 | Some s \<Rightarrow> set_len s)"

definition opt_keys :: "'a hash_set option \<Rightarrow> 'a fset option" where
  "opt_keys s = (case s of None \<Rightarrow> None | Some s \<Rightarrow> set_keys s)"

definition opt_clone_set :: "'a hash_set option \<Rightarrow> 'a hash_set option" where
  "opt_clone_set s = map_option clone_set s"

definition opt_unioned_with :: "'a hash_set option \<Rightarrow> 'a hash_set option \<Rightarrow> 'a hash_set option" where
  "opt_unioned_with s other =
     (if s = None \<and> other = None then None
      else
        let result = (case s of None \<Rightarrow> set_default | Some s \<Rightarrow> clone_set s) in
        (case other of
           None \<Rightarrow> Some result
         | Some other \<Rightarrow>
             let result = (if set_m result = None then result\<lparr>set_m := Some {||}\<rparr> else result) in
             (case (set_m result, set_m other) of
                (Some m, Some other_m) \<Rightarrow> Some (result\<lparr>set_m := Some (m |\<union>| other_m)\<rparr>)
              | _ \<Rightarrow> Some result)))"

definition opt_equals :: "'a hash_set option \<Rightarrow> 'a hash_set option \<Rightarrow> bool" where
  "opt_equals s other =
     (case (s, other) of
        (None, None) \<Rightarrow> True
      | (Some s, Some other) \<Rightarrow> set_equals s other
      | _ \<Rightarrow> False)"

definition opt_subset_of :: "'a hash_set option \<Rightarrow> 'a hash_set option \<Rightarrow> bool" where
  "opt_subset_of s other =
     (case s of
        None \<Rightarrow> True
      | Some s \<Rightarrow> (case set_m s of None \<Rightarrow> True | Some m \<Rightarrow> fBall m (\<lambda>key. opt_has other key)))"

definition opt_intersects :: "'a hash_set option \<Rightarrow> 'a hash_set option \<Rightarrow> bool" where
  "opt_intersects s other =
     (case (s, other) of
        (Some s, Some other) \<Rightarrow> set_intersects s other
      | _ \<Rightarrow> False)"

text \<open>\<open>union\<close> through an optional reference panics when there is something to add and either
  set is absent.\<close>

definition opt_union :: "'a hash_set option \<Rightarrow> 'a hash_set option \<Rightarrow> 'a hash_set option option" where
  "opt_union s other =
     (if opt_len s = 0 \<and> opt_len other = 0 then Some s
      else (case (s, other) of
              (Some s, Some other) \<Rightarrow> Some (Some (set_union s other))
            | _ \<Rightarrow> None))"

definition opt_clear :: "'a hash_set option \<Rightarrow> 'a hash_set option" where
  "opt_clear s = map_option set_clear s"

section \<open>MultiMap\<close>

record ('k, 'v) multi_map =
  mm_m :: "'k \<rightharpoonup> 'v list"

definition mm_default :: "('k, 'v) multi_map" where
  "mm_default = \<lparr>mm_m = Map.empty\<rparr>"

definition new_multi_map_with_size_hint :: "nat \<Rightarrow> ('k, 'v) multi_map" where
  "new_multi_map_with_size_hint hint = \<lparr>mm_m = Map.empty\<rparr>"

definition mm_has :: "('k, 'v) multi_map \<Rightarrow> 'k \<Rightarrow> bool" where
  "mm_has m key \<longleftrightarrow> mm_m m key \<noteq> None"

definition mm_get :: "('k, 'v) multi_map \<Rightarrow> 'k \<Rightarrow> 'v list option" where
  "mm_get m key = mm_m m key"

definition mm_add :: "'k \<Rightarrow> 'v \<Rightarrow> ('k, 'v) multi_map \<Rightarrow> ('k, 'v) multi_map" where
  "mm_add key value m =
     m\<lparr>mm_m := (mm_m m)(key \<mapsto> (case mm_m m key of None \<Rightarrow> [] | Some vs \<Rightarrow> vs) @ [value])\<rparr>"

definition group_by :: "'v list \<Rightarrow> ('v \<Rightarrow> 'k) \<Rightarrow> ('k, 'v) multi_map" where
  "group_by items group_id = foldl (\<lambda>m item. mm_add (group_id item) item m) mm_default items"

definition mm_remove :: "'k \<Rightarrow> 'v \<Rightarrow> ('k, 'v) multi_map \<Rightarrow> ('k, 'v) multi_map" where
  "mm_remove key value m =
     (case mm_m m key of
        None \<Rightarrow> m
      | Some values \<Rightarrow>
          (case position (\<lambda>existing. existing = value) values of
             None \<Rightarrow> m
           | Some i \<Rightarrow>
               if length values = 1 then m\<lparr>mm_m := (mm_m m)(key := None)\<rparr>
               else m\<lparr>mm_m := (mm_m m)(key \<mapsto> vec_remove i values)\<rparr>))"

definition mm_remove_all :: "'k \<Rightarrow> ('k, 'v) multi_map \<Rightarrow> ('k, 'v) multi_map" where
  "mm_remove_all key m = m\<lparr>mm_m := (mm_m m)(key := None)\<rparr>"

definition mm_len :: "('k, 'v) multi_map \<Rightarrow> nat" where
  "mm_len m = card (dom (mm_m m))"

definition mm_is_empty :: "('k, 'v) multi_map \<Rightarrow> bool" where
  "mm_is_empty m \<longleftrightarrow> dom (mm_m m) = {}"

definition mm_clear :: "('k, 'v) multi_map \<Rightarrow> ('k, 'v) multi_map" where
  "mm_clear m = \<lparr>mm_m = Map.empty\<rparr>"

section \<open>SyncMap and SyncSet\<close>

text \<open>The map behind the lock; a stored value may itself be absent.\<close>

type_synonym ('k, 'v) sync_map = "'k \<rightharpoonup> 'v option"

definition sync_load :: "('k, 'v) sync_map \<Rightarrow> 'k \<Rightarrow> 'v option \<times> bool" where
  "sync_load m key = (case m key of Some value \<Rightarrow> (value, True) | None \<Rightarrow> (None, False))"

definition sync_store :: "'k \<Rightarrow> 'v option \<Rightarrow> ('k, 'v) sync_map \<Rightarrow> ('k, 'v) sync_map" where
  "sync_store key value m = m(key \<mapsto> value)"

definition load_or_store ::
    "'k \<Rightarrow> 'v option \<Rightarrow> ('k, 'v) sync_map \<Rightarrow> ('k, 'v) sync_map \<times> 'v option \<times> bool" where
  "load_or_store key value m =
     (case m key of
        Some actual \<Rightarrow> (m, actual, True)
      | None \<Rightarrow> (m(key \<mapsto> value), value, False))"

definition sync_delete :: "'k \<Rightarrow> ('k, 'v) sync_map \<Rightarrow> ('k, 'v) sync_map" where
  "sync_delete key m = m(key := None)"

definition sync_clear :: "('k, 'v) sync_map \<Rightarrow> ('k, 'v) sync_map" where
  "sync_clear m = Map.empty"

text \<open>\<open>range\<close> visits the entries in the order \<open>es\<close> of the hash map until the callback, which
  updates a state of its own, returns false.\<close>

fun sync_range :: "('k \<Rightarrow> 'v option \<Rightarrow> 's \<Rightarrow> bool \<times> 's) \<Rightarrow> ('k \<times> 'v option) list \<Rightarrow> 's \<Rightarrow> 's" where
  "sync_range f [] s = s"
| "sync_range f ((key, value) # es) s =
     (let (continue, s) = f key value s in if \<not> continue then s else sync_range f es s)"

definition enumerates :: "('k \<times> 'v option) list \<Rightarrow> ('k, 'v) sync_map \<Rightarrow> bool" where
  "enumerates es m \<longleftrightarrow> distinct (map fst es) \<and> map_of es = m"

definition syncset_has :: "('k, unit) sync_map \<Rightarrow> 'k \<Rightarrow> bool" where
  "syncset_has m key = snd (sync_load m key)"

definition syncset_add_if_absent :: "'k \<Rightarrow> ('k, unit) sync_map \<Rightarrow> ('k, unit) sync_map \<times> bool" where
  "syncset_add_if_absent key m =
     (let (m, _, loaded) = load_or_store key (Some ()) m in (m, \<not> loaded))"

definition syncset_add :: "'k \<Rightarrow> ('k, unit) sync_map \<Rightarrow> ('k, unit) sync_map" where
  "syncset_add key m = fst (syncset_add_if_absent key m)"

definition syncset_delete :: "'k \<Rightarrow> ('k, unit) sync_map \<Rightarrow> ('k, unit) sync_map" where
  "syncset_delete key m = sync_delete key m"

definition syncset_size :: "('k \<times> unit option) list \<Rightarrow> nat" where
  "syncset_size es = sync_range (\<lambda>_ _ count. (True, count + 1)) es 0"

definition syncset_is_empty :: "('k \<times> unit option) list \<Rightarrow> bool" where
  "syncset_is_empty es = sync_range (\<lambda>_ _ empty. (False, False)) es True"

definition syncset_to_slice :: "('k \<times> unit option) list \<Rightarrow> 'k list" where
  "syncset_to_slice es = sync_range (\<lambda>key _ arr. (True, arr @ [key])) es []"

definition syncset_keys :: "('k \<times> unit option) list \<Rightarrow> 'k list" where
  "syncset_keys es = sync_range (\<lambda>key _ keys. (True, keys @ [key])) es []"

section \<open>Set is a finite set\<close>

definition set_abs :: "'a hash_set \<Rightarrow> 'a fset" where
  "set_abs s = (case set_m s of None \<Rightarrow> {||} | Some m \<Rightarrow> m)"

lemma set_has_abs: "set_has s x \<longleftrightarrow> x |\<in>| set_abs s"
  by (simp add: set_has_def set_abs_def split: option.splits)

interpretation hset: deletable_set "\<lambda>_. True" set_has set_add set_delete
  by unfold_locales (auto simp: set_has_def set_add_def set_delete_def split: option.splits)

lemma set_len_abs: "set_len s = fcard (set_abs s)"
  by (simp add: set_len_def set_abs_def split: option.splits)

lemma set_subset_abs: "set_is_subset_of s t \<longleftrightarrow> set_abs s |\<subseteq>| set_abs t"
  by (auto simp: set_is_subset_of_def set_has_abs set_abs_def [of s] split: option.splits)

lemma set_union_abs: "set_abs (set_union s t) = set_abs s |\<union>| set_abs t"
  by (auto simp: set_union_def set_abs_def set_is_empty_def split: option.splits)

lemma unioned_with_abs:
  "set_abs (unioned_with s (Some t)) = set_abs s |\<union>| set_abs t" "unioned_with s None = s"
  by (auto simp: unioned_with_def set_abs_def Let_def split: option.splits)

lemma set_equals_abs: "set_equals s t \<longleftrightarrow> set_abs s = set_abs t"
proof
  assume "set_equals s t"
  then have "set_abs s |\<subseteq>| set_abs t" "fcard (set_abs s) = fcard (set_abs t)"
    by (simp_all add: set_equals_def set_subset_abs set_len_abs)
  then show "set_abs s = set_abs t" by (metis fcard_seteq order_refl)
qed (simp add: set_equals_def set_subset_abs set_len_abs)

lemma set_intersects_abs: "set_intersects s t \<longleftrightarrow> set_abs s |\<inter>| set_abs t \<noteq> {||}"
  by (auto simp: set_intersects_def set_has_abs set_abs_def split: option.splits)

text \<open>the lazily allocated \<open>Set\<close> is a finite set: membership, insertion, deletion,
  clearing, size, emptiness, both unions, equality, inclusion and intersection agree with
  the set it stands for, whether or not its table is allocated; and \<open>add_if_absent\<close> reports
  exactly the keys that were new.\<close>

theorem set_refines_finite_set:
  "(set_has s x \<longleftrightarrow> x |\<in>| set_abs s)
   \<and> set_abs (set_add x s) = finsert x (set_abs s)
   \<and> set_abs (set_delete x s) = set_abs s |-| {|x|}
   \<and> set_abs (set_clear s) = {||}
   \<and> set_len s = fcard (set_abs s) \<and> (set_is_empty s \<longleftrightarrow> set_abs s = {||})
   \<and> set_abs (set_union s t) = set_abs s |\<union>| set_abs t
   \<and> set_abs (unioned_with s (Some t)) = set_abs s |\<union>| set_abs t
   \<and> (set_equals s t \<longleftrightarrow> set_abs s = set_abs t)
   \<and> (set_is_subset_of s t \<longleftrightarrow> set_abs s |\<subseteq>| set_abs t)
   \<and> (set_intersects s t \<longleftrightarrow> set_abs s |\<inter>| set_abs t \<noteq> {||})
   \<and> set_abs (fst (set_add_if_absent x s)) = finsert x (set_abs s)
   \<and> (snd (set_add_if_absent x s) \<longleftrightarrow> x |\<notin>| set_abs s)
   \<and> fset (set_abs (new_from_items xs)) = set xs"
proof -
  have "set_abs (set_add y s) = finsert y (set_abs s)" for y and s :: "'a hash_set"
    by (simp add: set_abs_def set_add_def)
  moreover have "set_abs (set_delete x s) = set_abs s |-| {|x|}" "set_abs (set_clear s) = {||}"
    "set_is_empty s \<longleftrightarrow> set_abs s = {||}"
    by (auto simp: set_abs_def set_delete_def set_clear_def set_is_empty_def split: option.splits)
  moreover have "y |\<in>| set_abs (new_from_items xs) \<longleftrightarrow> y \<in> set xs" for y
    using hset.add_all(2) [of set_default xs y]
    by (simp add: new_from_items_def set_has_abs) (simp add: set_abs_def set_default_def)
  then have "fset (set_abs (new_from_items xs)) = set xs" by blast
  ultimately show ?thesis
    by (simp add: set_has_abs set_len_abs set_subset_abs set_union_abs unioned_with_abs
        set_equals_abs set_intersects_abs set_add_if_absent_def finsert_absorb)
qed

text \<open>the derived equality of \<open>Set\<close> is finer than \<open>equals\<close>: a set whose last element was
  deleted equals a set that never had one, but the two are not equal under the derived
  equality; on allocated sets the two notions agree.\<close>

theorem set_eq_finer_than_equals:
  "(set_eq s t \<longrightarrow> set_equals s t)
   \<and> set_equals (set_delete x (set_add x set_default)) set_default
   \<and> \<not> set_eq (set_delete x (set_add x set_default)) set_default
   \<and> (set_eq (set_add x s) (set_add y t) \<longleftrightarrow> set_equals (set_add x s) (set_add y t))"
  by (auto simp: set_eq_def set_equals_abs)
    (auto simp: set_abs_def set_delete_def set_add_def set_default_def)

theorem set_eq_finer_than_equals_witness:
  "set_eq (set_add (1 :: nat) set_default) (set_add 1 (set_add 1 set_default))
   \<and> set_equals (set_add (1 :: nat) set_default) (set_add 1 (set_add 1 set_default))"
proof -
  have "set_eq (set_add (1 :: nat) set_default) (set_add 1 (set_add 1 set_default))"
    by (simp add: set_eq_def set_add_def set_default_def)
  then show ?thesis using set_eq_finer_than_equals [THEN conjunct1, THEN mp] by blast
qed

text \<open>\<open>union\<close> through optional references panics exactly when one of the two sets is absent
  and the other one is not empty; otherwise it adds the second set to the first.\<close>

theorem opt_union_panics_iff:
  "(opt_union s t = None \<longleftrightarrow> (s = None \<and> opt_len t > 0) \<or> (t = None \<and> opt_len s > 0))
   \<and> opt_union (Some a) (Some b) \<noteq> None
   \<and> (opt_union (Some a) (Some b) = Some (Some c) \<longrightarrow> set_abs c = set_abs a |\<union>| set_abs b)
   \<and> opt_union None None = Some None"
proof -
  have "set_abs a = {||}" "set_abs b = {||}" if "set_len a = 0" "set_len b = 0"
    using that by (simp_all add: set_len_abs)
  then show ?thesis
    by (auto simp: opt_union_def opt_len_def set_union_abs split: option.splits if_splits)
qed

theorem opt_union_panics_iff_witness:
  "set_abs (set_union (set_add (1 :: nat) set_default) (set_add 2 set_default))
     = set_abs (set_add 1 set_default) |\<union>| set_abs (set_add 2 set_default)"
proof -
  have "opt_union (Some (set_add (1 :: nat) set_default)) (Some (set_add 2 set_default))
      = Some (Some (set_union (set_add 1 set_default) (set_add 2 set_default)))"
    by (simp add: opt_union_def opt_len_def set_len_def set_add_def set_default_def fcard_finsert_disjoint)
  then show ?thesis using opt_union_panics_iff [THEN conjunct2, THEN conjunct2, THEN conjunct1, THEN mp] by blast
qed

section \<open>MultiMap is a map to lists\<close>

definition mm_abs :: "('k, 'v) multi_map \<Rightarrow> 'k \<Rightarrow> 'v list" where
  "mm_abs m k = (case mm_m m k of None \<Rightarrow> [] | Some vs \<Rightarrow> vs)"

definition mm_inv :: "('k, 'v) multi_map \<Rightarrow> bool" where
  "mm_inv m \<longleftrightarrow> finite (dom (mm_m m)) \<and> (\<forall>k. mm_m m k \<noteq> Some [])"

lemma mm_inv_default: "mm_inv mm_default" "mm_abs mm_default k = []"
  by (simp_all add: mm_inv_def mm_default_def mm_abs_def)

lemma mm_add_abs: "mm_inv m \<Longrightarrow> mm_inv (mm_add k v m)"
  "mm_abs (mm_add k v m) = (mm_abs m)(k := mm_abs m k @ [v])"
  by (auto simp: mm_inv_def mm_add_def mm_abs_def fun_eq_iff)

lemma mm_remove_abs:
  assumes "mm_inv m"
  shows "mm_inv (mm_remove k v m)" and "mm_abs (mm_remove k v m) = (mm_abs m)(k := remove1 v (mm_abs m k))"
proof -
  have "mm_inv (mm_remove k v m) \<and> mm_abs (mm_remove k v m) = (mm_abs m)(k := remove1 v (mm_abs m k))"
  proof (cases "mm_m m k")
    case None
    then show ?thesis using assms by (auto simp: mm_remove_def mm_abs_def)
  next
    case (Some vs)
    show ?thesis
    proof (cases "position (\<lambda>x. x = v) vs")
      case None
      then have "v \<notin> set vs" by (auto simp: position_None_iff)
      then show ?thesis
        using assms None Some by (auto simp: mm_remove_def mm_abs_def remove1_idem)
    next
      case pos: (Some i)
      have "vec_remove i vs = remove1 v vs" "v \<in> set vs"
        using vec_remove_position [OF pos] position_SomeD [OF pos] nth_mem by auto
      moreover have "remove1 v vs = []" if "length vs = 1"
        using that \<open>v \<in> set vs\<close> by (cases vs) auto
      moreover have "remove1 v vs \<noteq> []" if "length vs \<noteq> 1"
        using that \<open>v \<in> set vs\<close> by (metis One_nat_def length_pos_if_in_set length_remove1
            list.size(3) Suc_pred less_irrefl)
      ultimately show ?thesis
        using assms Some pos
        by (auto simp: mm_remove_def mm_inv_def mm_abs_def fun_eq_iff)
    qed
  qed
  then show "mm_inv (mm_remove k v m)"
    and "mm_abs (mm_remove k v m) = (mm_abs m)(k := remove1 v (mm_abs m k))" by blast+
qed

lemma group_by_abs:
  "mm_inv (group_by xs f) \<and> mm_abs (group_by xs f) k = filter (\<lambda>x. f x = k) xs"
proof -
  have "mm_inv (foldl (\<lambda>m item. mm_add (f item) item m) m xs)
      \<and> mm_abs (foldl (\<lambda>m item. mm_add (f item) item m) m xs) k = mm_abs m k @ filter (\<lambda>x. f x = k) xs"
    if "mm_inv m" for m
    using that by (induction xs arbitrary: m) (auto simp: mm_add_abs)
  then show ?thesis by (simp add: group_by_def mm_inv_default)
qed

lemma mm_get_abs: "mm_inv m \<Longrightarrow> mm_get m k = (if mm_abs m k = [] then None else Some (mm_abs m k))"
  by (auto simp: mm_inv_def mm_get_def mm_abs_def split: option.splits)

text \<open>\<open>group_by\<close> partitions a list by key: the group of a key is the sublist of its items in
  their order, a key without items has no group, the number of groups is the number of
  keys; and removing a value from a group removes its first occurrence, dropping the group
  when it becomes empty.\<close>

theorem group_by_partitions:
  "let m = group_by xs f; g = (\<lambda>k. filter (\<lambda>x. f x = k) xs); opt = (\<lambda>vs. if vs = [] then None else Some vs) in
   mm_get m k = opt (g k) \<and> mm_len m = card (f ` set xs)
   \<and> mm_get (mm_remove k v m) k = opt (remove1 v (g k))
   \<and> (k' \<noteq> k \<longrightarrow> mm_get (mm_remove k v m) k' = opt (g k'))"
proof -
  have m: "mm_inv (group_by xs f)" "\<And>k. mm_abs (group_by xs f) k = filter (\<lambda>x. f x = k) xs"
    using group_by_abs [of xs f] by auto
  have "dom (mm_m (group_by xs f)) = f ` set xs"
  proof -
    have "k \<in> dom (mm_m (group_by xs f)) \<longleftrightarrow> filter (\<lambda>x. f x = k) xs \<noteq> []" for k
      using mm_get_abs [OF m(1), of k] m(2) by (auto simp: mm_get_def split: if_splits)
    then show ?thesis unfolding filter_empty_conv set_eq_iff image_iff by metis
  qed
  then show ?thesis
    by (simp add: Let_def mm_get_abs m mm_remove_abs mm_len_def)
qed

theorem group_by_partitions_witness:
  "mm_get (mm_remove True 4 (group_by [1, 4, 3, 4 :: nat] (\<lambda>n. n > 3))) False = Some [1, 3]"
  using group_by_partitions [of "[1, 4, 3, 4 :: nat]" "\<lambda>n. n > 3" True 4 False] by (simp add: Let_def)

section \<open>Shared maps\<close>

interpretation sync: deletable_map "\<lambda>_. True" "\<lambda>m. m" sync_store sync_delete
  by unfold_locales (simp_all add: sync_store_def sync_delete_def)

text \<open>The calls of all threads on one set, in the order in which they get the lock: the results
  they return.\<close>

fun claim_results :: "'k list \<Rightarrow> ('k, unit) sync_map \<Rightarrow> bool list" where
  "claim_results [] m = []"
| "claim_results (k # ks) m =
     (let (m, new) = syncset_add_if_absent k m in new # claim_results ks m)"

lemma add_if_absent_eq:
  "syncset_add_if_absent k m = (if m k = None then m(k \<mapsto> Some ()) else m, m k = None)"
  by (auto simp: syncset_add_if_absent_def load_or_store_def split: option.splits)

lemma claim_results_eq:
  "claim_results ks m = map (\<lambda>i. m (ks ! i) = None \<and> ks ! i \<notin> set (take i ks)) [0..<length ks]"
proof (induction ks arbitrary: m)
  case (Cons k ks)
  have "((m(k \<mapsto> Some ())) (ks ! i) = None) = (m (ks ! i) = None \<and> ks ! i \<noteq> k)" for i by simp
  moreover have "(m (ks ! i) = None) = (m (ks ! i) = None \<and> ks ! i \<noteq> k)" if "m k \<noteq> None" for i
    using that by metis
  ultimately have "claim_results ks (if m k = None then m(k \<mapsto> Some ()) else m)
      = map (\<lambda>i. m (ks ! i) = None \<and> ks ! i \<noteq> k \<and> ks ! i \<notin> set (take i ks)) [0..<length ks]"
    unfolding Cons by auto
  then show ?case
    by (simp add: add_if_absent_eq Let_def upt_conv_Cons map_Suc_upt [symmetric] comp_def del: upt_Suc)
qed simp

text \<open>when threads race to add keys to a \<open>SyncSet\<close>, whatever the order in which they get
  the lock, a call returns true exactly if its key was not in the set before and no earlier
  call had the same key: each new key is claimed once. Afterwards the set has the old and
  the added keys.\<close>

theorem sync_set_claims_once:
  "claim_results ks m = map (\<lambda>i. \<not> syncset_has m (ks ! i) \<and> ks ! i \<notin> set (take i ks)) [0..<length ks]
   \<and> (syncset_has (foldl (\<lambda>m k. syncset_add k m) m ks) x \<longleftrightarrow> x \<in> set ks \<or> syncset_has m x)"
proof -
  have has: "syncset_has m x \<longleftrightarrow> m x \<noteq> None" for m and x :: 'a
    by (simp add: syncset_has_def sync_load_def split: option.splits)
  have "syncset_has (foldl (\<lambda>m k. syncset_add k m) m ks) x \<longleftrightarrow> x \<in> set ks \<or> syncset_has m x"
    unfolding has by (induction ks arbitrary: m) (auto simp: syncset_add_def add_if_absent_eq)
  then show ?thesis by (simp add: claim_results_eq has)
qed

lemma sync_range_collect:
  "sync_range (\<lambda>key _ arr. (True, arr @ [key])) es acc = acc @ map fst es"
  by (induction es arbitrary: acc) auto

lemma sync_range_count: "sync_range (\<lambda>_ _ count. (True, count + 1)) es n = n + length es"
  by (induction es arbitrary: n) auto

text \<open>whatever order the hash map is iterated in, the slice of a \<open>SyncSet\<close> has each member
  exactly once, and size and emptiness agree with it.\<close>

theorem sync_set_enumeration:
  assumes "enumerates es m"
  shows "distinct (syncset_to_slice es) \<and> set (syncset_to_slice es) = {k. syncset_has m k}
    \<and> syncset_size es = card {k. syncset_has m k}
    \<and> (syncset_is_empty es \<longleftrightarrow> {k. syncset_has m k} = {})"
proof -
  have "map_of es k \<noteq> None \<longleftrightarrow> k \<in> set (map fst es)" for k by (force simp: map_of_eq_None_iff)
  then have has: "{k. syncset_has m k} = set (map fst es)"
    using assms by (auto simp: enumerates_def syncset_has_def sync_load_def split: option.splits)
  have "card (set (map fst es)) = length es" and d: "distinct (map fst es)"
    using assms distinct_card [of "map fst es"] by (simp_all add: enumerates_def)
  moreover have "syncset_is_empty es \<longleftrightarrow> es = []" by (cases es) (auto simp: syncset_is_empty_def)
  ultimately show ?thesis
    unfolding has syncset_to_slice_def syncset_size_def sync_range_collect sync_range_count by auto
qed

theorem sync_set_enumeration_witness:
  "syncset_size [(2, Some ()), (1 :: nat, Some ())]
     = card {k. syncset_has (syncset_add 1 (syncset_add (2 :: nat) Map.empty)) k}"
proof -
  have "enumerates [(2, Some ()), (1 :: nat, Some ())] (syncset_add 1 (syncset_add 2 Map.empty))"
    by (auto simp: enumerates_def syncset_add_def add_if_absent_eq fun_eq_iff)
  then show ?thesis using sync_set_enumeration [THEN conjunct2, THEN conjunct2, THEN conjunct1] by blast
qed

end
