(* ===== verification/Arena.thy ===== *)
theory Arena
  imports Interfaces "HOL-Library.Word"
begin

text \<open>
  The typed arenas of \<open>ts-collections\<close> (\<open>arena.rs\<close>): \<open>Arena\<close> hands out 32-bit indices into a
  vector and refuses to grow past what they can address; \<open>ArenaMap\<close> is a side table from
  indices to values, a vector with holes. \<open>IdxRange\<close> is a half-open range of indices. The
  phantom type of an index has no counterpart. A panic is \<open>None\<close>.
\<close>

section \<open>Indices and ranges\<close>

type_synonym idx = "32 word"

definition into_usize :: "idx \<Rightarrow> nat" where
  "into_usize i = unat i"

record idx_range =
  range_start :: idx
  range_end :: idx

definition idx_range_new :: "idx \<Rightarrow> idx \<Rightarrow> idx_range" where
  "idx_range_new start end = \<lparr>range_start = start, range_end = end\<rparr>"

text \<open>The addition wraps in a release build.\<close>

definition new_inclusive :: "idx \<Rightarrow> idx \<Rightarrow> idx_range" where
  "new_inclusive start end = \<lparr>range_start = start, range_end = end + 1\<rparr>"

definition range_is_empty :: "idx_range \<Rightarrow> bool" where
  "range_is_empty r \<longleftrightarrow> \<not> range_start r < range_end r"

definition range_next :: "idx_range \<Rightarrow> (idx \<times> idx_range) option" where
  "range_next r =
     (if range_start r < range_end r
      then Some (range_start r, r\<lparr>range_start := range_start r + 1\<rparr>) else None)"

definition range_next_back :: "idx_range \<Rightarrow> (idx \<times> idx_range) option" where
  "range_next_back r =
     (if range_start r < range_end r
      then Some (range_end r - 1, r\<lparr>range_end := range_end r - 1\<rparr>) else None)"

text \<open>All indices of a range, by iteration; the length bounds the number of steps.\<close>

fun range_take :: "nat \<Rightarrow> idx_range \<Rightarrow> idx list" where
  "range_take 0 r = []"
| "range_take (Suc n) r =
     (case range_next r of None \<Rightarrow> [] | Some (i, r) \<Rightarrow> i # range_take n r)"

section \<open>Arena\<close>

record 'a arena =
  arena_data :: "'a list"

definition arena_new :: "'a arena" where
  "arena_new = \<lparr>arena_data = []\<rparr>"

definition with_capacity :: "nat \<Rightarrow> 'a arena" where
  "with_capacity capacity = \<lparr>arena_data = []\<rparr>"

definition assert_idx_fits_u32 :: "nat \<Rightarrow> unit option" where
  "assert_idx_fits_u32 i = (if int i < 2 ^ 32 then Some () else None)"

definition idx_from_usize :: "nat \<Rightarrow> idx option" where
  "idx_from_usize i = map_option (\<lambda>_. of_nat i) (assert_idx_fits_u32 i)"

definition next_idx :: "'a arena \<Rightarrow> idx option" where
  "next_idx a = idx_from_usize (length (arena_data a))"

definition alloc :: "'a \<Rightarrow> 'a arena \<Rightarrow> ('a arena \<times> idx) option" where
  "alloc value a =
     (case next_idx a of
        None \<Rightarrow> None
      | Some i \<Rightarrow> Some (\<lparr>arena_data = arena_data a @ [value]\<rparr>, i))"

fun alloc_each :: "'a list \<Rightarrow> 'a arena \<Rightarrow> 'a arena option" where
  "alloc_each [] a = Some a"
| "alloc_each (value # values) a =
     (case alloc value a of None \<Rightarrow> None | Some (a, _) \<Rightarrow> alloc_each values a)"

text \<open>\<open>size_hint\<close> is what the iterator promises about its length, a lower bound and perhaps an
  upper bound. The addition that is checked against \<open>usize\<close> cannot overflow before the
  assertion on \<open>u32\<close> fails.\<close>

definition alloc_many ::
    "nat \<times> nat option \<Rightarrow> 'a list \<Rightarrow> 'a arena \<Rightarrow> ('a arena \<times> idx_range) option" where
  "alloc_many size_hint values a =
     (case next_idx a of
        None \<Rightarrow> None
      | Some start \<Rightarrow>
          let (lower, upper) = size_hint;
              max_additional = (case upper of Some u \<Rightarrow> u | None \<Rightarrow> lower) in
          (case assert_idx_fits_u32 (length (arena_data a) + max_additional) of
             None \<Rightarrow> None
           | Some _ \<Rightarrow>
               (case alloc_each values a of
                  None \<Rightarrow> None
                | Some a \<Rightarrow>
                    (case next_idx a of
                       None \<Rightarrow> None
                     | Some end \<Rightarrow> Some (a, idx_range_new start end)))))"

definition arena_clear :: "'a arena \<Rightarrow> 'a arena" where
  "arena_clear a = \<lparr>arena_data = []\<rparr>"

definition arena_len :: "'a arena \<Rightarrow> nat" where
  "arena_len a = length (arena_data a)"

definition arena_is_empty :: "'a arena \<Rightarrow> bool" where
  "arena_is_empty a \<longleftrightarrow> arena_data a = []"

definition arena_get :: "'a arena \<Rightarrow> idx \<Rightarrow> 'a option" where
  "arena_get a i =
     (if into_usize i < length (arena_data a) then Some (arena_data a ! into_usize i) else None)"

text \<open>\<open>*get_mut(i) = f(..)\<close>: the update a caller makes through the mutable reference.\<close>

definition arena_get_mut :: "idx \<Rightarrow> ('a \<Rightarrow> 'a) \<Rightarrow> 'a arena \<Rightarrow> 'a arena option" where
  "arena_get_mut i f a =
     (if into_usize i < length (arena_data a)
      then Some (a\<lparr>arena_data := (arena_data a)[into_usize i := f (arena_data a ! into_usize i)]\<rparr>)
      else None)"

definition arena_iter :: "'a arena \<Rightarrow> (idx \<times> 'a) list option" where
  "arena_iter a =
     those (map (\<lambda>(i, value). map_option (\<lambda>i. (i, value)) (idx_from_usize i))
       (enumerate 0 (arena_data a)))"

definition arena_index :: "'a arena \<Rightarrow> idx \<Rightarrow> 'a option" where
  "arena_index a i = arena_get a i"

text \<open>Slicing panics unless the bounds are ordered and within the vector.\<close>

definition arena_index_range :: "'a arena \<Rightarrow> idx_range \<Rightarrow> 'a list option" where
  "arena_index_range a r =
     (let s = unat (range_start r); e = unat (range_end r) in
      if s \<le> e \<and> e \<le> length (arena_data a) then Some (take (e - s) (drop s (arena_data a))) else None)"

definition arena_extend :: "'a list \<Rightarrow> 'a arena \<Rightarrow> 'a arena option" where
  "arena_extend values a = alloc_each values a"

definition arena_from_iter :: "'a list \<Rightarrow> 'a arena option" where
  "arena_from_iter values =
     (case assert_idx_fits_u32 (length values) of
        None \<Rightarrow> None
      | Some _ \<Rightarrow> Some \<lparr>arena_data = values\<rparr>)"

section \<open>ArenaMap\<close>

record 'v arena_map =
  am_values :: "'v option list"

definition am_new :: "'v arena_map" where
  "am_new = \<lparr>am_values = []\<rparr>"

definition am_clear :: "'v arena_map \<Rightarrow> 'v arena_map" where
  "am_clear m = \<lparr>am_values = []\<rparr>"

definition am_get :: "'v arena_map \<Rightarrow> idx \<Rightarrow> 'v option" where
  "am_get m i =
     (if into_usize i < length (am_values m) then am_values m ! into_usize i else None)"

definition contains_idx :: "'v arena_map \<Rightarrow> idx \<Rightarrow> bool" where
  "contains_idx m i \<longleftrightarrow> am_get m i \<noteq> None"

text \<open>\<open>Vec::resize_with(n, || None)\<close> to a longer length.\<close>

definition resize_none :: "nat \<Rightarrow> 'v option list \<Rightarrow> 'v option list" where
  "resize_none n vs = take n vs @ replicate (n - length vs) None"

definition am_insert :: "idx \<Rightarrow> 'v \<Rightarrow> 'v arena_map \<Rightarrow> 'v arena_map \<times> 'v option" where
  "am_insert i value m =
     (let n = into_usize i;
          vs = (if length (am_values m) \<le> n then resize_none (n + 1) (am_values m) else am_values m) in
      (\<lparr>am_values = vs[n := Some value]\<rparr>, vs ! n))"

definition am_get_mut :: "idx \<Rightarrow> ('v \<Rightarrow> 'v) \<Rightarrow> 'v arena_map \<Rightarrow> 'v arena_map option" where
  "am_get_mut i f m =
     (if into_usize i < length (am_values m) then
        (case am_values m ! into_usize i of
           None \<Rightarrow> None
         | Some v \<Rightarrow> Some (m\<lparr>am_values := (am_values m)[into_usize i := Some (f v)]\<rparr>))
      else None)"

definition am_remove :: "idx \<Rightarrow> 'v arena_map \<Rightarrow> 'v arena_map \<times> 'v option" where
  "am_remove i m =
     (if into_usize i < length (am_values m)
      then (m\<lparr>am_values := (am_values m)[into_usize i := None]\<rparr>, am_values m ! into_usize i)
      else (m, None))"

definition am_values_iter :: "'v arena_map \<Rightarrow> 'v list" where
  "am_values_iter m = List.map_filter (\<lambda>v. v) (am_values m)"

text \<open>The position is cast with \<open>as u32\<close>, which truncates.\<close>

definition am_iter :: "'v arena_map \<Rightarrow> (idx \<times> 'v) list" where
  "am_iter m =
     List.map_filter (\<lambda>(i, value). map_option (\<lambda>v. (of_nat i, v)) value) (enumerate 0 (am_values m))"

definition shrink_to_fit :: "'v arena_map \<Rightarrow> 'v arena_map" where
  "shrink_to_fit m =
     (let len = (case position (\<lambda>v. v \<noteq> None) (rev (am_values m)) of
                   None \<Rightarrow> 0
                 | Some i \<Rightarrow> length (am_values m) - i) in
      m\<lparr>am_values := take len (am_values m)\<rparr>)"

definition am_index :: "'v arena_map \<Rightarrow> idx \<Rightarrow> 'v option" where
  "am_index m i = am_get m i"

definition am_extend :: "(idx \<times> 'v) list \<Rightarrow> 'v arena_map \<Rightarrow> 'v arena_map" where
  "am_extend items m = foldl (\<lambda>m (i, value). fst (am_insert i value m)) m items"

definition am_from_iter :: "(idx \<times> 'v) list \<Rightarrow> 'v arena_map" where
  "am_from_iter items = am_extend items am_new"

section \<open>Arena\<close>

lemma unat_idx_less: "unat (i :: idx) < 2 ^ 32"
  using unsigned_less [of i, where 'a = nat] by simp

lemma unat_of_nat_idx: "int n < 2 ^ 32 \<Longrightarrow> unat (of_nat n :: idx) = n"
proof -
  assume "int n < 2 ^ 32"
  then have "n < 2 ^ LENGTH(32)" by simp
  then show ?thesis by (simp add: unat_of_nat take_bit_nat_eq_self)
qed

lemma alloc_Some:
  assumes "alloc v a = Some (a', i)"
  shows "arena_data a' = arena_data a @ [v]" "unat i = length (arena_data a)"
proof -
  have "int (length (arena_data a)) < 2 ^ 32 \<and> i = of_nat (length (arena_data a)) \<and> arena_data a' = arena_data a @ [v]"
    using assms
    by (auto simp: alloc_def next_idx_def idx_from_usize_def assert_idx_fits_u32_def split: if_splits option.splits)
  then show "arena_data a' = arena_data a @ [v]" "unat i = length (arena_data a)"
    by (auto simp: unat_of_nat_idx)
qed

lemma alloc_each_Some:
  "alloc_each vs a = Some a' \<longleftrightarrow>
     (vs = [] \<or> int (length (arena_data a) + length vs) \<le> 2 ^ 32) \<and> a' = \<lparr>arena_data = arena_data a @ vs\<rparr>"
proof (induction vs arbitrary: a)
  case (Cons v vs)
  show ?case
    by (auto simp: Cons.IH alloc_def next_idx_def idx_from_usize_def assert_idx_fits_u32_def split: option.splits)
qed auto

lemma range_take_list:
  "unat (range_start r) + n \<le> unat (range_end r) \<Longrightarrow>
   map unat (range_take n r) = [unat (range_start r)..<unat (range_start r) + n]"
proof (induction n arbitrary: r)
  case (Suc n)
  then have lt: "range_start r < range_end r" by (simp add: word_less_nat_alt)
  have "unat (range_start r) + 1 < 2 ^ 32"
    using Suc.prems unat_idx_less [of "range_end r"] by simp
  then have s: "unat (range_start r + 1) = unat (range_start r) + 1"
    by (simp add: unat_word_ariths)
  have "map unat (range_take n (r\<lparr>range_start := range_start r + 1\<rparr>))
      = [unat (range_start r) + 1..<unat (range_start r) + 1 + n]"
    using Suc.IH [of "r\<lparr>range_start := range_start r + 1\<rparr>"] Suc.prems s by simp
  then show ?case using lt by (simp add: range_next_def upt_conv_Cons del: upt_Suc)
qed simp

text \<open>allocating in an arena returns a fresh index, under which the value is found from then
  on, and leaves what every other index finds unchanged; it panics exactly when the next
  index would not fit 32 bits, so no index is ever reused by wrap-around.\<close>

theorem arena_alloc_fresh:
  "(alloc v a = None \<longleftrightarrow> 2 ^ 32 \<le> int (arena_len a))
   \<and> (\<forall>a' i. alloc v a = Some (a', i) \<longrightarrow>
        arena_get a i = None \<and> arena_get a' i = Some v \<and> (\<forall>j. j \<noteq> i \<longrightarrow> arena_get a' j = arena_get a j)
        \<and> arena_len a' = arena_len a + 1)"
proof -
  have "arena_get a i = None \<and> arena_get a' i = Some v \<and> (\<forall>j. j \<noteq> i \<longrightarrow> arena_get a' j = arena_get a j)
        \<and> arena_len a' = arena_len a + 1"
    if "alloc v a = Some (a', i)" for a' i
  proof -
    have "unat j \<noteq> length (arena_data a)" if "j \<noteq> i" for j
      using that alloc_Some(2) [OF \<open>alloc v a = Some (a', i)\<close>] by (metis word_unat_eq_iff)
    then show ?thesis
      using alloc_Some [OF that] by (auto simp: arena_get_def into_usize_def arena_len_def nth_append less_Suc_eq)
  qed
  moreover have "alloc v a = None \<longleftrightarrow> 2 ^ 32 \<le> int (arena_len a)"
    by (auto simp: alloc_def next_idx_def idx_from_usize_def assert_idx_fits_u32_def arena_len_def
        split: if_splits option.splits)
  ultimately show ?thesis by blast
qed

theorem arena_alloc_fresh_witness:
  "arena_get \<lparr>arena_data = ''a'' @ ''b''\<rparr> 1 = Some (CHR ''b'') \<and> alloc CHR ''b'' \<lparr>arena_data = ''a''\<rparr> \<noteq> None"
proof -
  have a: "alloc CHR ''b'' \<lparr>arena_data = ''a''\<rparr> = Some (\<lparr>arena_data = ''a'' @ ''b''\<rparr>, 1)"
    by (simp add: alloc_def next_idx_def idx_from_usize_def assert_idx_fits_u32_def)
  show ?thesis
    using arena_alloc_fresh [of "CHR ''b''" "\<lparr>arena_data = ''a''\<rparr>", THEN conjunct2, rule_format, OF a] a
    by blast
qed

text \<open>a bulk allocation that succeeds returns a range that slices out exactly the values in
  order and whose iteration yields exactly their indices.\<close>

theorem arena_alloc_many_range:
  assumes "alloc_many hint vs a = Some (a', r)"
  shows "arena_index_range a' r = Some vs
    \<and> map unat (range_take (length vs) r) = [arena_len a..<arena_len a + length vs]
    \<and> range_is_empty r = (vs = [])
    \<and> (\<forall>j. unat j < arena_len a \<longrightarrow> arena_get a' j = arena_get a j)"
proof -
  obtain s e where n: "next_idx a = Some s" "alloc_each vs a = Some a'" "next_idx a' = Some e"
    and r: "r = idx_range_new s e"
    using assms by (auto simp: alloc_many_def Let_def split: option.splits prod.splits)
  have a': "arena_data a' = arena_data a @ vs" using n(2) by (simp add: alloc_each_Some)
  have u: "unat s = length (arena_data a)" "unat e = length (arena_data a')"
    using n(1,3) by (auto simp: next_idx_def idx_from_usize_def assert_idx_fits_u32_def unat_of_nat_idx
        split: if_splits)
  show ?thesis
    using u a' range_take_list [of r "length vs"]
    by (auto simp: r idx_range_new_def arena_index_range_def arena_len_def range_is_empty_def
        word_less_nat_alt arena_get_def into_usize_def nth_append)
qed

theorem arena_alloc_many_range_witness:
  "arena_index_range \<lparr>arena_data = ''xab''\<rparr> (idx_range_new 1 3) = Some ''ab''"
proof -
  have "alloc_many (2, Some 2) ''ab'' \<lparr>arena_data = ''x''\<rparr>
      = Some (\<lparr>arena_data = ''xab''\<rparr>, idx_range_new 1 3)"
    by (simp add: alloc_many_def alloc_def next_idx_def idx_from_usize_def assert_idx_fits_u32_def)
  from arena_alloc_many_range [OF this] show ?thesis by blast
qed

section \<open>ArenaMap\<close>

definition am_inv :: "'v arena_map \<Rightarrow> bool" where
  "am_inv m \<longleftrightarrow> length (am_values m) \<le> 2 ^ 32"

lemma am_insert_values:
  "am_values (fst (am_insert i v m))
   = (am_values m @ replicate (unat i + 1 - length (am_values m)) None)[unat i := Some v]"
  by (auto simp: am_insert_def Let_def resize_none_def into_usize_def not_le Suc_le_eq)

lemma am_insert_inv: "am_inv m \<Longrightarrow> am_inv (fst (am_insert i v m))"
  using unat_idx_less [of i] by (simp add: am_inv_def am_insert_values)

lemma am_insert_get: "am_get (fst (am_insert i v m)) = (am_get m)(i \<mapsto> v)"
proof
  fix j :: idx
  have "unat j = unat i \<longleftrightarrow> j = i" by (simp add: word_unat_eq_iff)
  then show "am_get (fst (am_insert i v m)) j = ((am_get m)(i \<mapsto> v)) j"
    by (auto simp: am_get_def am_insert_values into_usize_def nth_list_update nth_append)
qed

lemma am_insert_old: "snd (am_insert i v m) = am_get m i"
  by (auto simp: am_insert_def Let_def resize_none_def into_usize_def am_get_def nth_append)

lemma am_remove_get: "am_get (fst (am_remove i m)) = (am_get m)(i := None)"
proof
  fix j :: idx
  have "unat j = unat i \<longleftrightarrow> j = i" by (simp add: word_unat_eq_iff)
  then show "am_get (fst (am_remove i m)) j = ((am_get m)(i := None)) j"
    by (auto simp: am_get_def am_remove_def into_usize_def nth_list_update)
qed

interpretation am: deletable_map am_inv am_get "\<lambda>i v m. fst (am_insert i v m)" "\<lambda>i m. fst (am_remove i m)"
proof
  show "am_inv m \<Longrightarrow> am_inv (fst (am_remove i m))" for m :: "'a arena_map" and i
    by (auto simp: am_inv_def am_remove_def)
qed (simp_all add: am_insert_inv am_insert_get am_remove_get)

lemma am_iter_spec:
  assumes "am_inv m"
  shows "set (am_iter m) = {(i, v). am_get m i = Some v}"
    and "sorted_wrt (<) (map (unat \<circ> fst) (am_iter m))"
proof -
  have u: "unat (of_nat n :: idx) = n" if "n < length (am_values m)" for n
    using that assms by (intro unat_of_nat_idx) (simp add: am_inv_def)
  have "(i, v) \<in> set (am_iter m) \<longleftrightarrow> (\<exists>n<length (am_values m). am_values m ! n = Some v \<and> i = of_nat n)" for i v
    by (force simp: am_iter_def List.map_filter_def image_iff in_set_enumerate_eq)
  moreover have "(\<exists>n<length (am_values m). am_values m ! n = Some v \<and> i = of_nat n) \<longleftrightarrow> am_get m i = Some v" for i v
    by (auto simp: am_get_def into_usize_def u intro!: exI [of _ "unat i"])
  ultimately show "set (am_iter m) = {(i, v). am_get m i = Some v}" by auto
  have "sorted_wrt (<) (map fst (filter P (enumerate 0 xs)))" for P and xs :: "'a option list"
    by (rule sorted_wrt_map [THEN iffD2], rule sorted_wrt_filter)
      (simp add: sorted_wrt_iff_nth_less nth_enumerate_eq)
  moreover have "map (unat \<circ> fst) (am_iter m)
      = map fst (filter (\<lambda>(i, v). v \<noteq> None) (enumerate 0 (am_values m)))"
    by (auto simp: am_iter_def List.map_filter_def in_set_enumerate_eq u intro!: map_cong filter_cong)
  ultimately show "sorted_wrt (<) (map (unat \<circ> fst) (am_iter m))" by simp
qed

lemma shrink_to_fit_values:
  obtains k where "am_values m = am_values (shrink_to_fit m) @ replicate k None"
    and "am_values (shrink_to_fit m) = [] \<or> last (am_values (shrink_to_fit m)) \<noteq> None"
proof (cases "position (\<lambda>v. v \<noteq> None) (rev (am_values m))")
  case None
  then have "am_values m = replicate (length (am_values m)) None"
    unfolding position_None_iff by (intro replicate_length_same [symmetric]) auto
  then show thesis using that [of "length (am_values m)"] None by (simp add: shrink_to_fit_def)
next
  case (Some i)
  let ?vs = "am_values m" and ?n = "length (am_values m)"
  have i: "i < ?n" "?vs ! (?n - Suc i) \<noteq> None" "\<And>j. j < i \<Longrightarrow> ?vs ! (?n - Suc j) = None"
    using position_SomeD [OF Some] by (auto simp: rev_nth)
  have s: "am_values (shrink_to_fit m) = take (?n - i) ?vs" using Some by (simp add: shrink_to_fit_def)
  have "drop (?n - i) ?vs = replicate i None"
  proof (rule nth_equalityI)
    fix j assume "j < length (drop (?n - i) ?vs)"
    then have "j < i" by auto
    then show "drop (?n - i) ?vs ! j = replicate i None ! j"
      using i(1) i(3) [of "i - Suc j"] by simp
  qed (use i in simp)
  moreover have "last (take (?n - i) ?vs) = ?vs ! (?n - Suc i)"
    using i(1) by (subst last_conv_nth) auto
  ultimately show thesis
    using that [of i] i s append_take_drop_id [of "?n - i" ?vs] by simp
qed

lemma shrink_to_fit_get: "am_get (shrink_to_fit m) = am_get m"
proof -
  obtain k where "am_values m = am_values (shrink_to_fit m) @ replicate k None"
    using shrink_to_fit_values by blast
  then show ?thesis by (auto simp: am_get_def fun_eq_iff nth_append)
qed

text \<open>an arena map built from a list of entries, in which some indices are removed and whose
  storage is then trimmed, maps each index to the last value inserted for it unless it was
  removed; iteration yields exactly these entries in increasing order of index, and the
  trimmed vector does not end in a hole.\<close>

theorem arena_map_refines_map:
  "let m = shrink_to_fit (foldl (\<lambda>m i. fst (am_remove i m)) (am_from_iter items) rs);
       spec = map_of (rev items) |` (- set rs) in
   am_get m = spec \<and> set (am_iter m) = {(i, v). spec i = Some v}
   \<and> sorted_wrt (<) (map (unat \<circ> fst) (am_iter m))
   \<and> (am_values m = [] \<or> (\<exists>v. last (am_values m) = Some v))"
proof -
  let ?m0 = "am_from_iter items"
  let ?m1 = "foldl (\<lambda>m i. fst (am_remove i m)) ?m0 rs"
  have new: "am_inv (am_new :: 'a arena_map)" "am_get (am_new :: 'a arena_map) = Map.empty"
    by (auto simp: am_inv_def am_new_def am_get_def)
  have m0: "am_inv ?m0" "am_get ?m0 = map_of (rev items)"
    using am.insert_all [OF new(1), of items] new(2) by (simp_all add: am_from_iter_def am_extend_def)
  have m1: "am_inv ?m1" "am_get ?m1 = map_of (rev items) |` (- set rs)"
    using am.delete_all [OF m0(1), of rs] m0(2) by simp_all
  obtain k where k: "am_values ?m1 = am_values (shrink_to_fit ?m1) @ replicate k None"
    and last: "am_values (shrink_to_fit ?m1) = [] \<or> last (am_values (shrink_to_fit ?m1)) \<noteq> None"
    by (rule shrink_to_fit_values)
  have "length (am_values (shrink_to_fit ?m1)) \<le> length (am_values ?m1)" using k by simp
  then have "am_inv (shrink_to_fit ?m1)" using m1(1) by (simp add: am_inv_def)
  then show ?thesis
    using am_iter_spec [of "shrink_to_fit ?m1"] m1(2) last by (simp add: shrink_to_fit_get Let_def)
qed

end
