(* ===== verification/MachineInt.thy ===== *)
theory MachineInt
  imports Prelude
begin

text \<open>
  Signed 32-bit arithmetic as in a release build. A value of type \<open>i32\<close> is an \<open>int\<close> between
  \<open>-2^31\<close> and \<open>2^31 - 1\<close>; \<open>wrap32\<close> brings the result of an operation back into that range.
  Shift amounts are taken modulo 32. Right shifts and the bitwise operations on \<open>int\<close> agree
  with those on two's complement words and never leave the range.
\<close>

unbundle bit_operations_syntax

definition wrap32 :: "int \<Rightarrow> int" where
  "wrap32 x = (x + 2 ^ 31) mod 2 ^ 32 - 2 ^ 31"

definition is_i32 :: "int \<Rightarrow> bool" where
  "is_i32 x \<longleftrightarrow> - (2 ^ 31) \<le> x \<and> x < 2 ^ 31"

definition shl32 :: "int \<Rightarrow> nat \<Rightarrow> int" where
  "shl32 x n = wrap32 (x * 2 ^ (n mod 32))"

definition shr32 :: "int \<Rightarrow> nat \<Rightarrow> int" where
  "shr32 x n = x div 2 ^ (n mod 32)"

lemma wrap32_id [simp]: "is_i32 x \<Longrightarrow> wrap32 x = x"
  by (simp add: wrap32_def is_i32_def)

lemma wrap32_range: "is_i32 (wrap32 x)"
  using pos_mod_bound [of "2 ^ 32" "x + 2 ^ 31"] pos_mod_sign [of "2 ^ 32" "x + 2 ^ 31"]
  by (simp add: wrap32_def is_i32_def)

lemma wrap32_le:
  assumes "0 \<le> x"
  shows "wrap32 x \<le> x"
proof -
  have "(x + 2 ^ 31) mod 2 ^ 32 \<le> x + 2 ^ 31" using assms by (intro zmod_le_nonneg_dividend) simp
  then show ?thesis unfolding wrap32_def by linarith
qed

lemma wrap32_is_signed_take_bit: "wrap32 x = signed_take_bit 31 x"
  by (simp add: wrap32_def signed_take_bit_eq_take_bit_shift take_bit_eq_mod)

lemma and_31: "(x :: int) AND 31 = x mod 32"
  using take_bit_eq_mask [of 5 x] by (simp add: take_bit_eq_mod mask_eq_exp_minus_1 and.commute)

text \<open>Bits that do not overlap can be added.\<close>

lemma or_shifted:
  assumes "0 \<le> a" "a < 2 ^ k"
  shows "(a :: int) OR (b * 2 ^ k) = a + b * 2 ^ k"
proof -
  have a: "take_bit k a = a" using assms by (simp add: take_bit_int_eq_self)
  have "bit a n \<Longrightarrow> n < k" for n
    using bit_take_bit_iff [of k a n] by (simp add: a)
  then have "a AND push_bit k b = 0"
    by (intro bit_eqI) (auto simp: bit_simps not_le [symmetric])
  then show ?thesis by (simp add: disjunctive_add_eq_or push_bit_eq_mult)
qed

lemma or_32: "0 \<le> x \<Longrightarrow> x < 32 \<Longrightarrow> (x :: int) OR 32 = x + 32"
  using or_shifted [of x 5 1] by simp

lemma and_32_digit:
  assumes "0 \<le> x" "x < 32"
  shows "(x :: int) AND 32 = 0" "(x + 32) AND 32 = 32" "(x + 32) AND 31 = x" "x AND 31 = x"
proof -
  have "x + 32 = x OR 32" "x OR 32 = x + 32 - (x AND 32)"
    using assms or_32 [of x] plus_and_or [of x 32] by simp_all
  then show and0: "x AND 32 = 0" by simp
  have "(x OR 32) AND 32 = 32" by (intro bit_eqI) (auto simp: bit_and_iff bit_or_iff)
  then show "(x + 32) AND 32 = 32" using assms by (simp add: or_32)
qed (use assms in \<open>simp_all add: and_31\<close>)

end
