(* ===== verification/TsPath.thy ===== *)
theory TsPath
  imports Prelude
begin

text \<open>
  Paths (\<open>crates/ts-tspath/src/path.rs\<close>): root lengths of POSIX, DOS, UNC, dynamic and URL
  paths, splitting into components, normalisation, relative paths, comparison,
  containment, the walk over ancestor directories and common parents.

  A path is the list of its UTF-8 bytes; slices of the code that would cut a multi-byte
  character are cut at the same byte. Lower-casing of non-ASCII names is the standard
  library's Unicode mapping and is the argument \<open>lower\<close> of the definitions that use it.
\<close>

section \<open>Roots\<close>

definition is_any_directory_separator :: "char \<Rightarrow> bool" where
  "is_any_directory_separator ch \<longleftrightarrow> ch = CHR ''/'' \<or> ch = CHR 92"

definition is_volume_character :: "char \<Rightarrow> bool" where
  "is_volume_character ch = is_ascii_alphabetic ch"

definition has_trailing_directory_separator :: "string \<Rightarrow> bool" where
  "has_trailing_directory_separator path \<longleftrightarrow>
     path \<noteq> [] \<and> is_any_directory_separator (last path)"

definition get_file_url_volume_separator_end :: "string \<Rightarrow> nat \<Rightarrow> nat option" where
  "get_file_url_volume_separator_end url start =
     (if length url \<le> start then None
      else if url ! start = CHR '':'' then Some (start + 1)
      else if url ! start = CHR ''%'' \<and> length url > start + 2 \<and> url ! (start + 1) = CHR ''3''
           \<and> (url ! (start + 2) = CHR ''a'' \<or> url ! (start + 2) = CHR ''A'')
      then Some (start + 3)
      else None)"

text \<open>The part of \<open>get_encoded_root_length\<close> for \<open>scheme://authority/\<close>; \<open>!n\<close> is \<open>- n - 1\<close>.\<close>

definition url_root_length :: "string \<Rightarrow> nat \<Rightarrow> int" where
  "url_root_length path scheme_end =
     (let authority_start = scheme_end + 3 in
      case str_find ''/'' (drop authority_start path) of
        None \<Rightarrow> - int (length path) - 1
      | Some authority_length \<Rightarrow>
          (let authority_end = authority_start + authority_length;
               scheme = take scheme_end path;
               authority = take authority_length (drop authority_start path);
               volume =
                 (if scheme = ''file'' \<and> (authority = [] \<or> authority = ''localhost'')
                     \<and> length path > authority_end + 2
                     \<and> is_volume_character (path ! (authority_end + 1))
                  then get_file_url_volume_separator_end path (authority_end + 2)
                  else None) in
           case volume of
             Some e \<Rightarrow>
               if e = length path then - int e - 1
               else if path ! e = CHR ''/'' then - int (e + 1) - 1
               else - int (authority_end + 1) - 1
           | None \<Rightarrow> - int (authority_end + 1) - 1))"

definition get_encoded_root_length :: "string \<Rightarrow> int" where
  "get_encoded_root_length path =
     (let len = length path in
      if len = 0 then 0
      else
        let ch0 = path ! 0 in
        if is_any_directory_separator ch0 then
          (if len = 1 \<or> path ! 1 \<noteq> ch0 then 1
           else (case str_find [ch0] (drop 2 path) of
                   Some p1 \<Rightarrow> int (p1 + 2 + 1)
                 | None \<Rightarrow> int len))
        else if is_volume_character ch0 \<and> len > 1 \<and> path ! 1 = CHR '':'' \<and> len = 2 then 2
        else if is_volume_character ch0 \<and> len > 2 \<and> path ! 1 = CHR '':''
                \<and> is_any_directory_separator (path ! 2) then 3
        else if ch0 = CHR ''^'' \<and> len > 1 \<and> path ! 1 = CHR ''/'' then 2
        else (case str_find ''://'' path of
                Some scheme_end \<Rightarrow> url_root_length path scheme_end
              | None \<Rightarrow> 0))"

definition get_root_length :: "string \<Rightarrow> nat" where
  "get_root_length path =
     (let root_length = get_encoded_root_length path in
      if root_length < 0 then nat (- root_length - 1) else nat root_length)"

definition is_url :: "string \<Rightarrow> bool" where
  "is_url path \<longleftrightarrow> get_encoded_root_length path < 0"

definition is_rooted_disk_path :: "string \<Rightarrow> bool" where
  "is_rooted_disk_path path \<longleftrightarrow> get_encoded_root_length path > 0"

definition is_disk_path_root :: "string \<Rightarrow> bool" where
  "is_disk_path_root path \<longleftrightarrow>
     (let root_length = get_encoded_root_length path in
      root_length > 0 \<and> nat root_length = length path)"

definition is_dynamic_file_name :: "string \<Rightarrow> bool" where
  "is_dynamic_file_name file_name \<longleftrightarrow> prefix ''^/'' file_name"

definition path_is_absolute :: "string \<Rightarrow> bool" where
  "path_is_absolute path \<longleftrightarrow> get_encoded_root_length path \<noteq> 0"

section \<open>Components\<close>

definition normalize_slashes :: "string \<Rightarrow> string" where
  "normalize_slashes path = map (\<lambda>c. if c = CHR 92 then CHR ''/'' else c) path"

fun combine_loop :: "string \<Rightarrow> string list \<Rightarrow> string" where
  "combine_loop result [] = result"
| "combine_loop result (trailing # rest) =
     (if trailing = [] then combine_loop result rest
      else
        let trailing_path = normalize_slashes trailing in
        if result = [] \<or> get_root_length trailing_path \<noteq> 0
        then combine_loop trailing_path rest
        else
          combine_loop
            ((if \<not> has_trailing_directory_separator result then result @ ''/'' else result)
              @ trailing_path) rest)"

definition combine_paths :: "string \<Rightarrow> string list \<Rightarrow> string" where
  "combine_paths first_path paths = combine_loop (normalize_slashes first_path) paths"

definition path_components :: "string \<Rightarrow> nat \<Rightarrow> string list" where
  "path_components path root_length =
     (let rest = split_on CHR ''/'' (drop root_length path) in
      take root_length path # (if rest \<noteq> [] \<and> last rest = [] then butlast rest else rest))"

definition get_path_components :: "string \<Rightarrow> string \<Rightarrow> string list" where
  "get_path_components path current_directory =
     (let path = combine_paths current_directory [path] in
      path_components path (get_root_length path))"

definition remove_trailing_directory_separator :: "string \<Rightarrow> string" where
  "remove_trailing_directory_separator path =
     (if has_trailing_directory_separator path then butlast path else path)"

function remove_trailing_directory_separators :: "string \<Rightarrow> string" where
  "remove_trailing_directory_separators path =
     (if has_trailing_directory_separator path
      then remove_trailing_directory_separators (remove_trailing_directory_separator path)
      else path)"
  by pat_completeness auto
termination
  by (relation "measure length")
    (auto simp: has_trailing_directory_separator_def remove_trailing_directory_separator_def)

declare remove_trailing_directory_separators.simps [simp del]

definition ensure_trailing_directory_separator :: "string \<Rightarrow> string" where
  "ensure_trailing_directory_separator path =
     (if has_trailing_directory_separator path then path else path @ ''/'')"

definition get_path_from_path_components :: "string list \<Rightarrow> string" where
  "get_path_from_path_components components =
     (case components of
        [] \<Rightarrow> []
      | root # rest \<Rightarrow>
          (if root \<noteq> [] then ensure_trailing_directory_separator root else root)
            @ join ''/'' rest)"

text \<open>\<open>str::rfind\<close> with a character: the offset of its last occurrence.\<close>

definition str_rfind :: "char \<Rightarrow> string \<Rightarrow> nat option" where
  "str_rfind c s =
     (if c \<in> set s then Some (length s - 1 - length (takeWhile (\<lambda>x. x \<noteq> c) (rev s))) else None)"

definition get_directory_path :: "string \<Rightarrow> string" where
  "get_directory_path path0 =
     (let path = normalize_slashes path0; root_length = get_root_length path in
      if root_length = length path then path
      else
        let path = remove_trailing_directory_separator path;
            last_separator = (case str_rfind CHR ''/'' path of Some i \<Rightarrow> i | None \<Rightarrow> 0) in
        take (max root_length last_separator) path)"

definition get_base_file_name :: "string \<Rightarrow> string" where
  "get_base_file_name path0 =
     (let path = normalize_slashes path0; root_length = get_root_length path in
      if root_length = length path then []
      else
        let path = remove_trailing_directory_separator path;
            last_separator = (case str_rfind CHR ''/'' path of Some i \<Rightarrow> i + 1 | None \<Rightarrow> 0) in
        drop (max root_length last_separator) path)"

text \<open>One component met by \<open>reduce_path_components\<close>.\<close>

definition reduce_step :: "string list \<Rightarrow> string \<Rightarrow> string list" where
  "reduce_step reduced component =
     (if component = [] \<or> component = ''.'' then reduced
      else if component = ''..'' \<and> length reduced > 1 \<and> last reduced \<noteq> ''..'' then butlast reduced
      else if component = ''..'' \<and> length reduced = 1 \<and> reduced ! 0 \<noteq> [] then reduced
      else reduced @ [component])"

definition reduce_path_components :: "string list \<Rightarrow> string list" where
  "reduce_path_components components =
     (case components of [] \<Rightarrow> [] | root # rest \<Rightarrow> foldl reduce_step [root] rest)"

section \<open>Normalisation\<close>

text \<open>
  The scanning loop over \<open>path[index..]\<close>: skip separators, cut one component, update the
  components collected so far.
\<close>

definition normalized_step :: "string list \<Rightarrow> string \<Rightarrow> string list" where
  "normalized_step components component =
     (if component = [] \<or> component = ''.'' then components
      else if component = ''..'' \<and> length components > 1 \<and> last components \<noteq> ''..''
      then butlast components
      else if component = ''..'' \<and> \<not> length components > 1 \<and> components ! 0 \<noteq> []
      then components
      else components @ [component])"

function normalized_components_loop :: "string \<Rightarrow> string list \<Rightarrow> string list" where
  "normalized_components_loop rest components =
     (let rest = dropWhile (\<lambda>c. c = CHR ''/'') rest in
      if rest = [] then components
      else
        normalized_components_loop (dropWhile (\<lambda>c. c \<noteq> CHR ''/'') rest)
          (normalized_step components (takeWhile (\<lambda>c. c \<noteq> CHR ''/'') rest)))"
  by pat_completeness auto
termination
proof (relation "measure (\<lambda>(rest, _). length rest)", goal_cases)
  case (2 rest comps r)
  then have "r \<noteq> []" "hd r \<noteq> CHR ''/''"
    using hd_dropWhile [of "\<lambda>c. c = CHR ''/''" rest] by auto
  then have "length (dropWhile (\<lambda>c. c \<noteq> CHR ''/'') r) < length r"
    by (cases r) (auto simp: le_imp_less_Suc length_dropWhile_le)
  also have "\<dots> \<le> length rest"
    using 2 by (simp add: length_dropWhile_le)
  finally show ?case by simp
qed simp

declare normalized_components_loop.simps [simp del]

definition get_normalized_path_components_from_combined :: "string \<Rightarrow> string list" where
  "get_normalized_path_components_from_combined path =
     (let root_length = get_root_length path in
      normalized_components_loop (drop root_length path) [take root_length path])"

definition get_normalized_path_components :: "string \<Rightarrow> string \<Rightarrow> string list" where
  "get_normalized_path_components path current_directory =
     get_normalized_path_components_from_combined (combine_paths current_directory [path])"

definition get_normalized_absolute_path :: "string \<Rightarrow> string \<Rightarrow> string" where
  "get_normalized_absolute_path file_name0 current_directory =
     (let file_name =
        (if get_root_length file_name0 = 0 \<and> current_directory \<noteq> []
         then combine_paths current_directory [file_name0]
         else normalize_slashes file_name0);
          components = get_normalized_path_components_from_combined file_name;
          result = get_path_from_path_components components;
          root_length = get_root_length file_name in
      if length result > root_length then remove_trailing_directory_separator result
      else if length result = root_length \<and> root_length \<noteq> 0
      then ensure_trailing_directory_separator result
      else result)"

definition get_normalized_absolute_path_without_root :: "string \<Rightarrow> string \<Rightarrow> string" where
  "get_normalized_absolute_path_without_root file_name current_directory =
     (let absolute_path = get_normalized_absolute_path file_name current_directory in
      drop (get_root_length absolute_path) absolute_path)"

text \<open>The byte loop of \<open>has_relative_path_segment\<close>; \<open>dot_count\<close> is -1 once another byte was seen.\<close>

fun relative_segment_loop :: "string \<Rightarrow> bool \<Rightarrow> nat \<Rightarrow> int \<Rightarrow> bool" where
  "relative_segment_loop [] previous_slash segment_len dot_count =
     ((segment_len = 1 \<and> dot_count = 1) \<or> (segment_len = 2 \<and> dot_count = 2))"
| "relative_segment_loop (b # bytes) previous_slash segment_len dot_count =
     (if b = CHR ''/'' then
        (if previous_slash then True
         else if (segment_len = 1 \<and> dot_count = 1) \<or> (segment_len = 2 \<and> dot_count = 2) then True
         else relative_segment_loop bytes True 0 0)
      else
        relative_segment_loop bytes False (segment_len + 1)
          (if b = CHR ''.'' then (if dot_count \<ge> 0 then dot_count + 1 else dot_count) else -1))"

definition has_relative_path_segment :: "string \<Rightarrow> bool" where
  "has_relative_path_segment path =
     (let len = length path in
      if len = 0 then False
      else if path = ''.'' \<or> path = ''..'' then True
      else if path ! 0 = CHR ''.''
              \<and> ((len \<ge> 2 \<and> path ! 1 = CHR ''/'')
                  \<or> (len \<ge> 3 \<and> path ! 1 = CHR ''.'' \<and> path ! 2 = CHR ''/'')) then True
      else if path ! (len - 1) = CHR ''.''
              \<and> ((len \<ge> 2 \<and> path ! (len - 2) = CHR ''/'')
                  \<or> (len \<ge> 3 \<and> path ! (len - 2) = CHR ''.'' \<and> path ! (len - 3) = CHR ''/''))
      then True
      else relative_segment_loop path False 0 0)"

text \<open>\<open>str::replace("/./", "/")\<close>: non-overlapping occurrences from the left.\<close>

definition replace_dot_segments :: "string \<Rightarrow> string" where
  "replace_dot_segments path = join ''/'' (split_str ''/./'' path)"

definition simple_normalize_path :: "string \<Rightarrow> string option" where
  "simple_normalize_path path =
     (if \<not> has_relative_path_segment path then Some path
      else
        let simplified = replace_dot_segments path;
            trimmed = (if prefix ''./'' simplified then drop 2 simplified else simplified) in
        if trimmed \<noteq> path \<and> \<not> has_relative_path_segment trimmed
           \<and> \<not> (trimmed \<noteq> simplified \<and> prefix ''/'' trimmed)
        then Some trimmed else None)"

definition normalize_path :: "string \<Rightarrow> string" where
  "normalize_path path0 =
     (let path = normalize_slashes path0 in
      case simple_normalize_path path of
        Some normalized \<Rightarrow> normalized
      | None \<Rightarrow>
          let result = get_normalized_absolute_path path [] in
          if has_trailing_directory_separator path \<and> \<not> has_trailing_directory_separator result
          then result @ ''/'' else result)"

definition resolve_path :: "string \<Rightarrow> string list \<Rightarrow> string" where
  "resolve_path path paths =
     normalize_path (if paths = [] then normalize_slashes path else combine_paths path paths)"

definition resolve_tripleslash_reference :: "string \<Rightarrow> string \<Rightarrow> string" where
  "resolve_tripleslash_reference module_name containing_file =
     (let base_path = get_directory_path containing_file in
      if is_rooted_disk_path module_name then normalize_path module_name
      else normalize_path (combine_paths base_path [module_name]))"

section \<open>Case, comparison, containment\<close>

type_synonym lower_case = "string \<Rightarrow> string"

definition to_file_name_lower_case :: "lower_case \<Rightarrow> string \<Rightarrow> string" where
  "to_file_name_lower_case lower file_name =
     (if is_ascii file_name then to_ascii_lowercase file_name else lower file_name)"

definition get_canonical_file_name :: "lower_case \<Rightarrow> string \<Rightarrow> bool \<Rightarrow> string" where
  "get_canonical_file_name lower file_name case_sensitive =
     (if case_sensitive then file_name else to_file_name_lower_case lower file_name)"

definition to_path :: "lower_case \<Rightarrow> string \<Rightarrow> string \<Rightarrow> bool \<Rightarrow> string" where
  "to_path lower file_name base_path case_sensitive =
     get_canonical_file_name lower
       (if is_rooted_disk_path file_name then normalize_path file_name
        else get_normalized_absolute_path file_name base_path)
       case_sensitive"

record compare_paths_options =
  use_case_sensitive_file_names :: bool
  current_directory :: string

definition compare_strings ::
    "lower_case \<Rightarrow> compare_paths_options \<Rightarrow> string \<Rightarrow> string \<Rightarrow> ordering" where
  "compare_strings lower opts a b =
     (if use_case_sensitive_file_names opts then str_cmp a b
      else str_cmp (to_file_name_lower_case lower a) (to_file_name_lower_case lower b))"

definition equal_strings ::
    "lower_case \<Rightarrow> compare_paths_options \<Rightarrow> string \<Rightarrow> string \<Rightarrow> bool" where
  "equal_strings lower opts a b \<longleftrightarrow> compare_strings lower opts a b = Equal"

definition eq_ignore_ascii_case :: "string \<Rightarrow> string \<Rightarrow> bool" where
  "eq_ignore_ascii_case a b \<longleftrightarrow> to_ascii_lowercase a = to_ascii_lowercase b"

text \<open>The loop that counts common leading components; the first one is the root.\<close>

fun common_components ::
    "lower_case \<Rightarrow> compare_paths_options \<Rightarrow> nat \<Rightarrow> string list \<Rightarrow> string list \<Rightarrow> nat" where
  "common_components lower opts start (f # fs) (t # ts) =
     (if (if start = 0 then eq_ignore_ascii_case f t else equal_strings lower opts f t)
      then common_components lower opts (start + 1) fs ts
      else start)"
| "common_components lower opts start _ _ = start"

definition get_path_components_relative_to ::
    "lower_case \<Rightarrow> string \<Rightarrow> string \<Rightarrow> compare_paths_options \<Rightarrow> string list" where
  "get_path_components_relative_to lower from to opts =
     (let from_components =
            reduce_path_components (get_path_components from (current_directory opts));
          to_components = reduce_path_components (get_path_components to (current_directory opts));
          start = common_components lower opts 0 from_components to_components in
      if start = 0 then to_components
      else
        [[]] @ replicate (length from_components - start) ''..'' @ drop start to_components)"

text \<open>\<open>None\<close> is the failed assertion that both paths are absolute or both relative.\<close>

definition get_relative_path_from_directory ::
    "lower_case \<Rightarrow> string \<Rightarrow> string \<Rightarrow> compare_paths_options \<Rightarrow> string option" where
  "get_relative_path_from_directory lower from_directory to opts =
     (if (get_root_length from_directory > 0) = (get_root_length to > 0)
      then Some (get_path_from_path_components
                  (get_path_components_relative_to lower from_directory to opts))
      else None)"

definition path_is_relative :: "string \<Rightarrow> bool" where
  "path_is_relative path \<longleftrightarrow>
     path = ''.'' \<or> path = ''..'' \<or> prefix ''./'' path \<or> prefix [CHR ''.'', CHR 92] path
     \<or> prefix ''../'' path \<or> prefix [CHR ''.'', CHR ''.'', CHR 92] path"

definition ensure_path_is_non_module_name :: "string \<Rightarrow> string" where
  "ensure_path_is_non_module_name path =
     (if \<not> path_is_absolute path \<and> \<not> path_is_relative path then ''./'' @ path else path)"

definition get_relative_path_from_file ::
    "lower_case \<Rightarrow> string \<Rightarrow> string \<Rightarrow> compare_paths_options \<Rightarrow> string option" where
  "get_relative_path_from_file lower from to opts =
     map_option ensure_path_is_non_module_name
       (get_relative_path_from_directory lower (get_directory_path from) to opts)"

definition get_relative_path_to_directory_or_url ::
    "lower_case \<Rightarrow> string \<Rightarrow> string \<Rightarrow> bool \<Rightarrow> compare_paths_options \<Rightarrow> string" where
  "get_relative_path_to_directory_or_url lower directory_path_or_url relative_or_absolute_path
     is_absolute_path_an_url opts =
     (let components =
        get_path_components_relative_to lower directory_path_or_url relative_or_absolute_path opts in
      get_path_from_path_components
        (case components of
           [] \<Rightarrow> []
         | c0 # rest \<Rightarrow>
             if is_absolute_path_an_url \<and> is_rooted_disk_path c0
             then ((if prefix ''/'' c0 then ''file://'' else ''file:///'') @ c0) # rest
             else components))"

definition convert_to_relative_path ::
    "lower_case \<Rightarrow> string \<Rightarrow> compare_paths_options \<Rightarrow> string" where
  "convert_to_relative_path lower path opts =
     (if \<not> is_rooted_disk_path path then path
      else get_relative_path_to_directory_or_url lower (current_directory opts) path False opts)"

definition is_external_module_name_relative :: "string \<Rightarrow> bool" where
  "is_external_module_name_relative module_name \<longleftrightarrow>
     path_is_relative module_name \<or> is_rooted_disk_path module_name"

fun compare_components ::
    "lower_case \<Rightarrow> compare_paths_options \<Rightarrow> string list \<Rightarrow> string list \<Rightarrow> ordering option" where
  "compare_components lower opts (a # as) (b # bs) =
     (let order = compare_strings lower opts a b in
      if order \<noteq> Equal then Some order else compare_components lower opts as bs)"
| "compare_components lower opts _ _ = None"

definition compare_paths ::
    "lower_case \<Rightarrow> string \<Rightarrow> string \<Rightarrow> compare_paths_options \<Rightarrow> ordering" where
  "compare_paths lower a0 b0 opts =
     (let a = combine_paths (current_directory opts) [a0];
          b = combine_paths (current_directory opts) [b0] in
      if a = b then Equal
      else if a = [] then Less
      else if b = [] then Greater
      else
        let a_root_length = get_root_length a;
            b_root_length = get_root_length b;
            root_order = str_cmp (to_file_name_lower_case lower (take a_root_length a))
                                 (to_file_name_lower_case lower (take b_root_length b)) in
        if root_order \<noteq> Equal then root_order
        else
          let a_rest = drop a_root_length a; b_rest = drop b_root_length b in
          if \<not> has_relative_path_segment a_rest \<and> \<not> has_relative_path_segment b_rest
          then compare_strings lower opts a_rest b_rest
          else
            let a_components = reduce_path_components (get_path_components a []);
                b_components = reduce_path_components (get_path_components b []) in
            case compare_components lower opts (tl a_components) (tl b_components) of
              Some order \<Rightarrow> order
            | None \<Rightarrow> cmp (length a_components) (length b_components))"

definition compare_paths_case_sensitive :: "lower_case \<Rightarrow> string \<Rightarrow> string \<Rightarrow> string \<Rightarrow> ordering" where
  "compare_paths_case_sensitive lower a b dir =
     compare_paths lower a b
       \<lparr>use_case_sensitive_file_names = True, current_directory = dir\<rparr>"

definition compare_paths_case_insensitive :: "lower_case \<Rightarrow> string \<Rightarrow> string \<Rightarrow> string \<Rightarrow> ordering" where
  "compare_paths_case_insensitive lower a b dir =
     compare_paths lower a b
       \<lparr>use_case_sensitive_file_names = False, current_directory = dir\<rparr>"

text \<open>\<open>iter().enumerate().all(..)\<close> over the parent's components, the root compared on its own terms.\<close>

fun components_contained ::
    "lower_case \<Rightarrow> compare_paths_options \<Rightarrow> nat \<Rightarrow> string list \<Rightarrow> string list \<Rightarrow> bool" where
  "components_contained lower opts index [] child = True"
| "components_contained lower opts index (p # ps) (c # cs) =
     ((if index = 0 then to_file_name_lower_case lower p = to_file_name_lower_case lower c
       else equal_strings lower opts p c)
      \<and> components_contained lower opts (index + 1) ps cs)"
| "components_contained lower opts index (p # ps) [] = False"

definition contains_path ::
    "lower_case \<Rightarrow> string \<Rightarrow> string \<Rightarrow> compare_paths_options \<Rightarrow> bool" where
  "contains_path lower parent0 child0 opts =
     (let parent = combine_paths (current_directory opts) [parent0];
          child = combine_paths (current_directory opts) [child0] in
      if parent = [] \<or> child = [] then False
      else if parent = child then True
      else
        let parent = reduce_path_components (get_path_components parent []);
            child = reduce_path_components (get_path_components child []) in
        length child \<ge> length parent \<and> components_contained lower opts 0 parent child)"

definition path_contains_path :: "string \<Rightarrow> string \<Rightarrow> bool" where
  "path_contains_path parent child \<longleftrightarrow>
     parent \<noteq> [] \<and>
     (parent = child \<or>
      length child > length parent \<and> prefix parent child
      \<and> (last parent = CHR ''/'' \<or> child ! length parent = CHR ''/''))"

section \<open>File names\<close>

fun extension_loop :: "string \<Rightarrow> bool \<Rightarrow> string list \<Rightarrow> string" where
  "extension_loop path ignore_case [] = []"
| "extension_loop path ignore_case (ext # rest) =
     (let extension = (if prefix ''.'' ext then ext else ''.'' @ ext) in
      if length path \<ge> length extension
         \<and> (let path_extension = drop (length path - length extension) path in
             if ignore_case then eq_ignore_ascii_case path_extension extension
             else path_extension = extension)
      then drop (length path - length extension) path
      else extension_loop path ignore_case rest)"

definition get_any_extension_from_path :: "string \<Rightarrow> string list \<Rightarrow> bool \<Rightarrow> string" where
  "get_any_extension_from_path path extensions ignore_case =
     (if extensions \<noteq> []
      then extension_loop (remove_trailing_directory_separator path) ignore_case extensions
      else
        let base = get_base_file_name path in
        case str_rfind CHR ''.'' base of Some index \<Rightarrow> drop index base | None \<Rightarrow> [])"

definition file_extension_is :: "string \<Rightarrow> string \<Rightarrow> bool" where
  "file_extension_is path extension \<longleftrightarrow> length path > length extension \<and> suffix extension path"

definition has_extension :: "string \<Rightarrow> bool" where
  "has_extension file_name \<longleftrightarrow> CHR ''.'' \<in> set (get_base_file_name file_name)"

definition split_volume_path :: "string \<Rightarrow> (string \<times> string) option" where
  "split_volume_path path =
     (if length path \<ge> 2 \<and> is_volume_character (path ! 0) \<and> path ! 1 = CHR '':''
      then Some (to_ascii_lowercase (take 2 path), drop 2 path) else None)"

definition starts_with_directory :: "lower_case \<Rightarrow> string \<Rightarrow> string \<Rightarrow> bool \<Rightarrow> bool" where
  "starts_with_directory lower file_name0 directory_name0 case_sensitive =
     (if directory_name0 = [] then False
      else
        let file_name = get_canonical_file_name lower file_name0 case_sensitive;
            directory_name =
              rev (dropWhile is_any_directory_separator
                (rev (get_canonical_file_name lower directory_name0 case_sensitive))) in
        prefix (directory_name @ ''/'') file_name
        \<or> prefix (directory_name @ [CHR 92]) file_name)"

definition compare_number_of_directory_separators :: "string \<Rightarrow> string \<Rightarrow> ordering" where
  "compare_number_of_directory_separators path1 path2 =
     cmp (count_list path1 CHR ''/'') (count_list path2 CHR ''/'')"

section \<open>Roots and directories\<close>

lemma url_root_length_bound:
  assumes "str_find ''://'' path = Some e"
  shows "url_root_length path e < 0 \<and> - url_root_length path e - 1 \<le> int (length path)"
proof -
  have le: "e + 3 \<le> length path"
    using str_find_bound [OF assms] by simp
  show ?thesis
  proof (cases "str_find ''/'' (drop (e + 3) path)")
    case None
    then show ?thesis by (simp add: url_root_length_def)
  next
    case (Some al)
    then have "al + 1 \<le> length path - (e + 3)"
      using str_find_bound [OF Some] by simp
    then have "e + 3 + al + 1 \<le> length path"
      using le by simp
    then show ?thesis
      using Some by (auto simp: url_root_length_def Let_def get_file_url_volume_separator_end_def
          split: option.splits if_splits)
  qed
qed

lemma get_encoded_root_length_bound:
  "- int (length path) - 1 \<le> get_encoded_root_length path
   \<and> get_encoded_root_length path \<le> int (length path)"
proof (cases "path = []")
  case True
  then show ?thesis by (simp add: get_encoded_root_length_def)
next
  case False
  then have len: "length path \<ge> 1" by (cases path) auto
  have find: "p1 + 3 \<le> length path" if "str_find [c] (drop 2 path) = Some p1" for c p1
    using str_find_bound [OF that] by simp
  have url: "- int (length path) - 1 \<le> url_root_length path e
      \<and> url_root_length path e \<le> int (length path)" if "str_find ''://'' path = Some e" for e
    using url_root_length_bound [OF that] by linarith
  show ?thesis
  proof (cases "is_any_directory_separator (path ! 0)")
    case True
    then show ?thesis
      using len False find [of "path ! 0"]
      by (cases "str_find [path ! 0] (drop 2 path)") (auto simp: get_encoded_root_length_def Let_def)
  next
    case nosep: False
    then show ?thesis
      using len False url
      by (cases "str_find ''://'' path") (auto simp: get_encoded_root_length_def Let_def)
  qed
qed

lemma get_root_length_le: "get_root_length path \<le> length path"
  using get_encoded_root_length_bound [of path] by (auto simp: get_root_length_def Let_def)

lemma normalize_slashes_length [simp]: "length (normalize_slashes p) = length p"
  by (simp add: normalize_slashes_def)

lemma normalize_slashes_no_backslash [simp]: "CHR 92 \<notin> set (normalize_slashes p)"
  by (auto simp: normalize_slashes_def)

lemma normalize_slashes_id: "CHR 92 \<notin> set p \<Longrightarrow> normalize_slashes p = p"
  unfolding normalize_slashes_def by (rule map_idI) auto

lemma normalize_slashes_idem [simp]: "normalize_slashes (normalize_slashes p) = normalize_slashes p"
  by (rule normalize_slashes_id) simp

lemma str_rfind_less: "str_rfind c s = Some i \<Longrightarrow> i < length s"
  by (cases s) (auto simp: str_rfind_def split: if_splits)

lemma takeWhile_neq_append: "c \<notin> set a \<Longrightarrow> takeWhile (\<lambda>x. x \<noteq> c) (a @ c # b) = a"
  by (induction a) auto

lemma str_rfind_split:
  assumes "str_rfind c s = Some i"
  shows "s = take i s @ c # drop (Suc i) s" "c \<notin> set (drop (Suc i) s)"
proof -
  have c: "c \<in> set s" and i: "i = length s - 1 - length (takeWhile (\<lambda>x. x \<noteq> c) (rev s))"
    using assms by (auto simp: str_rfind_def split: if_splits)
  then obtain a b where s: "rev s = a @ c # b" and a: "c \<notin> set a"
    by (metis in_set_conv_decomp_first set_rev)
  then have "takeWhile (\<lambda>x. x \<noteq> c) (rev s) = a"
    by (simp add: takeWhile_neq_append)
  then have "s = rev b @ c # rev a" "i = length b"
    using s i by (simp_all add: rev_swap)
  with a show "s = take i s @ c # drop (Suc i) s" "c \<notin> set (drop (Suc i) s)"
    by simp_all
qed

lemma remove_trailing_length:
  "length p - 1 \<le> length (remove_trailing_directory_separator p)"
  "length (remove_trailing_directory_separator p) \<le> length p"
  by (simp_all add: remove_trailing_directory_separator_def)

lemma get_directory_path_shrinks:
  "get_directory_path d = normalize_slashes d \<or> length (get_directory_path d) < length d"
proof (cases "get_root_length (normalize_slashes d) = length d")
  case True
  then show ?thesis by (simp add: get_directory_path_def Let_def)
next
  case False
  let ?p = "normalize_slashes d" let ?t = "remove_trailing_directory_separator ?p"
  have root: "get_root_length ?p < length d"
    using False get_root_length_le [of ?p] by simp
  have "(case str_rfind CHR ''/'' ?t of Some i \<Rightarrow> i | None \<Rightarrow> 0) < length d"
    using root str_rfind_less [of "CHR ''/''" ?t] remove_trailing_length(2) [of ?p]
    by (auto split: option.splits)
  then have "length (get_directory_path d) < length d"
    using False root unfolding get_directory_path_def Let_def
    by (auto intro!: le_less_trans [OF min.cobounded2])
  then show ?thesis ..
qed

text \<open>
  The walk to the parent directory ends: a step shortens the path, or it only replaces
  backslashes.
\<close>

lemma get_directory_path_measure:
  assumes "get_directory_path d \<noteq> d"
  shows "(get_directory_path d, d) \<in> measures [length, \<lambda>d. count_list d (CHR 92)]"
proof (cases "length (get_directory_path d) < length d")
  case False
  then have p: "get_directory_path d = normalize_slashes d" "normalize_slashes d \<noteq> d"
    using assms get_directory_path_shrinks [of d] by auto
  then have "CHR 92 \<in> set d"
    using normalize_slashes_id by blast
  then have "0 < count_list d (CHR 92)"
    by (metis count_list_0_iff neq0_conv)
  moreover have "count_list (normalize_slashes d) (CHR 92) = 0"
    by (simp add: count_list_0_iff)
  ultimately show ?thesis using p by simp
qed simp

function for_each_ancestor_directory :: "string \<Rightarrow> (string \<Rightarrow> 'a option) \<Rightarrow> 'a option" where
  "for_each_ancestor_directory directory callback =
     (case callback directory of
        Some result \<Rightarrow> Some result
      | None \<Rightarrow>
          let parent = get_directory_path directory in
          if parent = directory then None else for_each_ancestor_directory parent callback)"
  by pat_completeness auto
termination
  by (relation "inv_image (measures [length, \<lambda>d. count_list d (CHR 92)]) fst")
    (use get_directory_path_measure in auto)

declare for_each_ancestor_directory.simps [simp del]

definition for_each_ancestor_directory_stopping_at_global_cache ::
    "string \<Rightarrow> string \<Rightarrow> (string \<Rightarrow> 'a \<times> bool) \<Rightarrow> 'a option" where
  "for_each_ancestor_directory_stopping_at_global_cache global_cache_location directory callback =
     for_each_ancestor_directory directory
       (\<lambda>ancestor.
          let (result, stop) = callback ancestor in
          if stop \<or> ancestor = global_cache_location then Some result else None)"

definition for_each_ancestor_directory_path :: "string \<Rightarrow> (string \<Rightarrow> 'a option) \<Rightarrow> 'a option" where
  "for_each_ancestor_directory_path directory callback =
     for_each_ancestor_directory directory callback"

text \<open>The directories visited, from the given one up to its root.\<close>

function ancestors :: "string \<Rightarrow> string list" where
  "ancestors d = d # (if get_directory_path d = d then [] else ancestors (get_directory_path d))"
  by pat_completeness auto
termination
  by (relation "measures [length, \<lambda>d. count_list d (CHR 92)]")
    (use get_directory_path_measure in auto)

declare ancestors.simps [simp del]

lemma for_each_ancestor_directory_eq:
  "for_each_ancestor_directory d f =
     (case filter (\<lambda>a. f a \<noteq> None) (ancestors d) of [] \<Rightarrow> None | a # _ \<Rightarrow> f a)"
proof (induction d f rule: for_each_ancestor_directory.induct)
  case (1 d f)
  then show ?case
    by (cases "f d"; cases "get_directory_path d = d")
      (auto simp: for_each_ancestor_directory.simps [of d] ancestors.simps [of d])
qed

lemma last_ancestors: "get_directory_path (last (ancestors d)) = last (ancestors d)"
proof (induction d rule: ancestors.induct)
  case (1 d)
  have "ancestors x \<noteq> []" for x by (simp add: ancestors.simps [of x])
  with 1 show ?case
    by (cases "get_directory_path d = d") (auto simp: ancestors.simps [of d])
qed

section \<open>Normalisation\<close>

lemma normalized_step_reduce_step: "cs \<noteq> [] \<Longrightarrow> normalized_step cs c = reduce_step cs c"
  by (cases cs) (auto simp: normalized_step_def reduce_step_def)

lemma reduce_step_neq_Nil: "cs \<noteq> [] \<Longrightarrow> reduce_step cs c \<noteq> []"
  by (cases cs rule: rev_cases) (auto simp: reduce_step_def)

lemma normalized_step_Nil [simp]: "normalized_step cs [] = cs"
  by (simp add: normalized_step_def)

lemma foldl_normalized_step_reduce:
  "cs \<noteq> [] \<Longrightarrow> foldl normalized_step cs ss = foldl reduce_step cs ss"
  by (induction ss arbitrary: cs) (auto simp: normalized_step_reduce_step reduce_step_neq_Nil)

lemma split_on_dropWhile_delim:
  "foldl normalized_step cs (split_on CHR ''/'' (dropWhile (\<lambda>c. c = CHR ''/'') s)) =
   foldl normalized_step cs (split_on CHR ''/'' s)"
  by (induction s) auto

lemma foldl_split_takeWhile:
  "foldl normalized_step (normalized_step cs (takeWhile (\<lambda>c. c \<noteq> CHR ''/'') s))
     (split_on CHR ''/'' (dropWhile (\<lambda>c. c \<noteq> CHR ''/'') s))
   = foldl normalized_step cs (split_on CHR ''/'' s)"
proof (cases "CHR ''/'' \<in> set s")
  case True
  then obtain a b where s: "s = a @ CHR ''/'' # b" and a: "CHR ''/'' \<notin> set a"
    by (metis split_list_first)
  have "takeWhile (\<lambda>c. c \<noteq> CHR ''/'') s = a"
    "dropWhile (\<lambda>c. c \<noteq> CHR ''/'') s = CHR ''/'' # b"
    unfolding s using a by (induction a) auto
  then show ?thesis using a by (simp add: s split_on_append)
next
  case False
  then have t: "takeWhile (\<lambda>c. c \<noteq> CHR ''/'') s = s" and d: "dropWhile (\<lambda>c. c \<noteq> CHR ''/'') s = []"
    by (auto simp: takeWhile_eq_all_conv dropWhile_eq_Nil_conv)
  show ?thesis unfolding t d using False by (simp add: split_on_no_delim)
qed

lemma normalized_components_loop_eq:
  "normalized_components_loop rest cs = foldl normalized_step cs (split_on CHR ''/'' rest)"
proof (induction rest cs rule: normalized_components_loop.induct)
  case (1 rest cs)
  let ?r = "dropWhile (\<lambda>c. c = CHR ''/'') rest"
  have d: "foldl normalized_step cs (split_on CHR ''/'' rest)
      = foldl normalized_step cs (split_on CHR ''/'' ?r)"
    by (rule split_on_dropWhile_delim [symmetric])
  show ?case
  proof (cases "?r = []")
    case True
    show ?thesis
      unfolding d normalized_components_loop.simps [of rest] Let_def True by simp
  next
    case False
    then show ?thesis
      using 1 [OF refl False] foldl_split_takeWhile [of cs ?r] unfolding d
      by (simp del: dropWhile_eq_Nil_conv add: normalized_components_loop.simps [of rest] False)
  qed
qed

lemma foldl_normalized_butlast:
  "ss \<noteq> [] \<Longrightarrow> last ss = [] \<Longrightarrow>
   foldl normalized_step cs (butlast ss) = foldl normalized_step cs ss"
  by (induction ss rule: rev_induct) auto

lemma normalized_components_eq_reduce:
  "get_normalized_path_components_from_combined path
   = reduce_path_components (path_components path (get_root_length path))"
  by (simp add: get_normalized_path_components_from_combined_def reduce_path_components_def
      path_components_def Let_def normalized_components_loop_eq foldl_normalized_butlast
      flip: foldl_normalized_step_reduce)

text \<open>
  Components in normal form: after the root no empty and no dot component; a rooted path
  has no dot-dot at all, an unrooted one only at the front.
\<close>

definition normal_components :: "string list \<Rightarrow> bool" where
  "normal_components cs \<longleftrightarrow>
     cs \<noteq> [] \<and> [] \<notin> set (tl cs) \<and> ''.'' \<notin> set (tl cs)
     \<and> (if hd cs = [] then ''..'' \<notin> set (dropWhile (\<lambda>c. c = ''..'') (tl cs))
        else ''..'' \<notin> set (tl cs))"

lemma reduce_step_normal:
  assumes "normal_components cs"
  shows "normal_components (reduce_step cs c) \<and> hd (reduce_step cs c) = hd cs"
proof -
  obtain r ts where cs: "cs = r # ts"
    using assms by (cases cs) (auto simp: normal_components_def)
  show ?thesis
  proof (cases ts rule: rev_cases)
    case Nil
    then show ?thesis
      using assms by (auto simp: cs normal_components_def reduce_step_def)
  next
    case (snoc us u)
    have drop: "''..'' \<notin> set (dropWhile (\<lambda>c. c = ''..'') (us @ [x]))"
      if "''..'' \<notin> set (dropWhile (\<lambda>c. c = ''..'') us)" "x \<noteq> ''..'' \<or> set us \<subseteq> {''..''}" for x us
      using that by (induction us) auto
    have drop2: "''..'' \<notin> set (dropWhile (\<lambda>c. c = ''..'') us)"
      if "''..'' \<notin> set (dropWhile (\<lambda>c. c = ''..'') (us @ [x]))" for us and x :: string
      using that by (induction us) auto
    have all: "set us \<subseteq> {''..''}" if "''..'' \<notin> set (dropWhile (\<lambda>c. c = ''..'') (us @ [''..'']))" for us
      using that by (induction us) (auto split: if_splits)
    show ?thesis
      using assms drop [of ts c] drop2 [of us u] all [of us]
      by (auto simp: cs snoc normal_components_def reduce_step_def)
  qed
qed

lemma foldl_reduce_step_normal:
  "normal_components cs \<Longrightarrow>
   normal_components (foldl reduce_step cs ss) \<and> hd (foldl reduce_step cs ss) = hd cs"
  by (induction ss arbitrary: cs) (auto simp: reduce_step_normal)

lemma reduce_path_components_normal:
  "normal_components (reduce_path_components (r # ss))
   \<and> hd (reduce_path_components (r # ss)) = r"
proof -
  have "normal_components [r]" by (simp add: normal_components_def)
  then show ?thesis
    using foldl_reduce_step_normal [of "[r]" ss] by (simp add: reduce_path_components_def)
qed

lemma get_path_components_normal:
  "normal_components (reduce_path_components (get_path_components p dir))"
  using reduce_path_components_normal
  by (simp add: get_path_components_def path_components_def Let_def)

lemma normal_components_snoc:
  assumes "normal_components (r # us @ [u])"
  shows "normal_components (r # us) \<and> reduce_step (r # us) u = r # us @ [u]"
proof -
  have drop: "''..'' \<notin> set (dropWhile (\<lambda>c. c = ''..'') us)
      \<and> (u = ''..'' \<longrightarrow> set us \<subseteq> {''..''})"
    if "''..'' \<notin> set (dropWhile (\<lambda>c. c = ''..'') (us @ [u]))" for us
    using that by (induction us) (auto split: if_splits)
  show ?thesis
    using assms drop [of us]
    by (cases us rule: rev_cases) (auto simp: normal_components_def reduce_step_def split: if_splits)
qed

lemma reduce_normal: "normal_components cs \<Longrightarrow> reduce_path_components cs = cs"
proof -
  have "normal_components (r # ts) \<Longrightarrow> foldl reduce_step [r] ts = r # ts" for r ts
    by (induction ts rule: rev_induct) (use normal_components_snoc in auto)
  then show "normal_components cs \<Longrightarrow> reduce_path_components cs = cs"
    by (cases cs) (auto simp: reduce_path_components_def)
qed

section \<open>Relative paths\<close>

lemma foldl_reduce_step_pops:
  assumes "''..'' \<notin> set fs" "r \<noteq> []"
  shows "foldl reduce_step (r # fs) (replicate k ''..'') = r # take (length fs - k) fs"
  using assms(1)
proof (induction k arbitrary: fs)
  case (Suc k)
  show ?case
  proof (cases fs rule: rev_cases)
    case Nil
    then show ?thesis using Suc assms(2) by (simp add: reduce_step_def)
  next
    case (snoc us u)
    have "reduce_step (r # fs) ''..'' = r # us"
      using Suc.prems by (auto simp: snoc reduce_step_def)
    then show ?thesis using Suc by (simp add: snoc)
  qed
qed simp

lemma foldl_reduce_step_pushes:
  "cs \<noteq> [] \<Longrightarrow> list_all (\<lambda>q. q \<notin> {[], ''.'', ''..''}) qs \<Longrightarrow> foldl reduce_step cs qs = cs @ qs"
  by (induction qs arbitrary: cs) (auto simp: reduce_step_def)

lemma common_components_bounds:
  "start \<le> common_components lower opts start f t
   \<and> common_components lower opts start f t \<le> start + length f
   \<and> common_components lower opts start f t \<le> start + length t"
proof (induction f arbitrary: start t)
  case (Cons x f)
  show ?case
  proof (cases t)
    case (Cons y ts)
    then show ?thesis using Cons.IH [of "start + 1" ts] by auto
  qed simp
qed simp

lemma common_components_take:
  assumes "use_case_sensitive_file_names opts"
  shows "0 < start \<Longrightarrow>
    take (common_components lower opts start f t - start) f
    = take (common_components lower opts start f t - start) t"
proof (induction f arbitrary: start t)
  case (Cons x f)
  show ?case
  proof (cases t)
    case t: (Cons y ts)
    let ?c = "common_components lower opts (Suc start) f ts"
    have "?c - start = Suc (?c - Suc start)"
      using common_components_bounds [of "Suc start" lower opts f ts] by linarith
    then show ?thesis
      using Cons.IH [of "Suc start" ts] Cons.prems assms
      by (auto simp: t equal_strings_def compare_strings_def)
  qed simp
qed simp

lemma relative_components_resolve:
  assumes opts: "use_case_sensitive_file_names opts"
    and f: "normal_components (r # fs)" and t: "normal_components (r # ts)" and r: "r \<noteq> []"
  shows "foldl reduce_step (r # fs)
    (replicate (length (r # fs) - common_components lower opts 0 (r # fs) (r # ts)) ''..''
     @ drop (common_components lower opts 0 (r # fs) (r # ts)) (r # ts)) = r # ts"
proof -
  let ?n = "common_components lower opts 1 fs ts - 1"
  have n: "common_components lower opts 0 (r # fs) (r # ts) = Suc ?n"
    using common_components_bounds [of 1 lower opts fs ts] by (simp add: eq_ignore_ascii_case_def)
  have le: "?n \<le> length fs" "?n \<le> length ts"
    using common_components_bounds [of 1 lower opts fs ts] by auto
  have eq: "take ?n fs = take ?n ts"
    using common_components_take [OF opts, of 1 lower fs ts] by simp
  have "''..'' \<notin> set fs" "list_all (\<lambda>q. q \<notin> {[], ''.'', ''..''}) (drop ?n ts)"
    using f t r by (auto simp: normal_components_def list_all_iff dest: in_set_dropD)
  then have "foldl reduce_step (r # fs) (replicate (length fs - ?n) ''..'' @ drop ?n ts)
      = r # take ?n ts @ drop ?n ts"
    using r le eq
    by (simp add: foldl_reduce_step_pops foldl_reduce_step_pushes del: append_take_drop_id)
  then show ?thesis unfolding n by simp
qed

section \<open>Relative segments\<close>

definition relative_segment :: "string \<Rightarrow> bool" where
  "relative_segment s \<longleftrightarrow> s = ''.'' \<or> s = ''..''"

definition dot_count_of :: "string \<Rightarrow> int" where
  "dot_count_of s = (if list_all (\<lambda>c. c = CHR ''.'') s then int (length s) else -1)"

lemma dot_count_relative:
  "(length s = 1 \<and> dot_count_of s = 1) \<or> (length s = 2 \<and> dot_count_of s = 2)
   \<longleftrightarrow> relative_segment s"
  by (cases s; cases "tl s"; cases "tl (tl s)") (auto simp: dot_count_of_def relative_segment_def)

lemma dot_count_snoc:
  "dot_count_of (s @ [c]) =
     (if c = CHR ''.'' then (if dot_count_of s \<ge> 0 then dot_count_of s + 1 else dot_count_of s) else -1)"
  by (auto simp: dot_count_of_def)

lemma sublist_slashes_Cons:
  "sublist ''//'' (c # s) \<longleftrightarrow> c = CHR ''/'' \<and> prefix ''/'' s \<or> sublist ''//'' s"
  by (auto simp: sublist_Cons_right)

lemma relative_segment_loop_eq:
  "CHR ''/'' \<notin> set seg \<Longrightarrow> (prev \<longrightarrow> seg = []) \<Longrightarrow>
   relative_segment_loop bytes prev (length seg) (dot_count_of seg) \<longleftrightarrow>
     (\<exists>s\<in>set (split_on CHR ''/'' (seg @ bytes)). relative_segment s)
     \<or> prev \<and> prefix ''/'' bytes \<or> sublist ''//'' bytes"
proof (induction bytes arbitrary: prev seg)
  case Nil
  then show ?case using dot_count_relative [of seg] by (simp add: split_on_no_delim)
next
  case (Cons b bytes)
  show ?case
  proof (cases "b = CHR ''/''")
    case True
    have "relative_segment_loop bytes True 0 0 \<longleftrightarrow>
        (\<exists>s\<in>set (split_on CHR ''/'' bytes). relative_segment s)
        \<or> prefix ''/'' bytes \<or> sublist ''//'' bytes"
      using Cons.IH [of "[]" True] by (simp add: dot_count_of_def)
    then show ?thesis
      using True Cons.prems dot_count_relative [of seg]
      by (auto simp: split_on_append sublist_slashes_Cons)
  next
    case False
    have "relative_segment_loop bytes False (length (seg @ [b])) (dot_count_of (seg @ [b])) \<longleftrightarrow>
        (\<exists>s\<in>set (split_on CHR ''/'' ((seg @ [b]) @ bytes)). relative_segment s)
        \<or> sublist ''//'' bytes"
      using Cons.IH [of "seg @ [b]" False] Cons.prems False by simp
    then show ?thesis
      using False by (simp add: dot_count_snoc sublist_slashes_Cons)
  qed
qed

lemma relative_segment_split: "relative_segment s \<Longrightarrow> split_on CHR ''/'' s = [s]"
  by (rule split_on_no_delim) (auto simp: relative_segment_def)

lemma relative_first_segment:
  "relative_segment s \<Longrightarrow> \<exists>x\<in>set (split_on CHR ''/'' (s @ CHR ''/'' # rest)). relative_segment x"
  unfolding split_on_append_delim by (rule bexI [of _ s]) (simp_all add: relative_segment_split)

lemma relative_last_segment:
  "relative_segment s \<Longrightarrow> \<exists>x\<in>set (split_on CHR ''/'' (front @ CHR ''/'' # s)). relative_segment x"
  unfolding split_on_append_delim by (rule bexI [of _ s]) (simp_all add: relative_segment_split)

lemma nth_first_two: "2 \<le> length p \<Longrightarrow> p = [p ! 0, p ! 1] @ drop 2 p"
  by (cases p; cases "tl p") auto

lemma nth_first_three: "3 \<le> length p \<Longrightarrow> p = [p ! 0, p ! 1, p ! 2] @ drop 3 p"
  by (cases p; cases "tl p"; cases "tl (tl p)") auto

lemma nth_last_two:
  assumes "2 \<le> length p"
  shows "p = take (length p - 2) p @ [p ! (length p - 2), p ! (length p - 1)]"
  using nth_first_two [of "drop (length p - 2) p"] assms
  by (simp add: Suc_diff_Suc numeral_2_eq_2) (metis append_take_drop_id)

lemma nth_last_three:
  assumes "3 \<le> length p"
  shows "p = take (length p - 3) p @ [p ! (length p - 3), p ! (length p - 2), p ! (length p - 1)]"
  using nth_first_three [of "drop (length p - 3) p"] assms
  by (simp add: Suc_diff_Suc numeral_3_eq_3 numeral_2_eq_2) (metis append_take_drop_id)

lemma has_relative_path_segment_eq:
  "has_relative_path_segment path \<longleftrightarrow>
     (\<exists>s\<in>set (split_on CHR ''/'' path). relative_segment s) \<or> sublist ''//'' path"
  (is "_ \<longleftrightarrow> ?spec")
proof -
  let ?n = "length path"
  have loop: "relative_segment_loop path False 0 0 \<longleftrightarrow> ?spec"
    using relative_segment_loop_eq [of "[]" False path] by (simp add: dot_count_of_def)
  have dots: "relative_segment ''.''" "relative_segment ''..''"
    by (simp_all add: relative_segment_def)
  have front: ?spec
    if "path ! 0 = CHR ''.''" "?n \<ge> 2 \<and> path ! 1 = CHR ''/''
         \<or> ?n \<ge> 3 \<and> path ! 1 = CHR ''.'' \<and> path ! 2 = CHR ''/''"
  proof -
    have "path = ''.'' @ CHR ''/'' # drop 2 path \<or> path = ''..'' @ CHR ''/'' # drop 3 path"
      using that nth_first_two [of path] nth_first_three [of path] by auto
    then show ?thesis by (metis relative_first_segment dots)
  qed
  have rear: ?spec
    if "path ! (?n - 1) = CHR ''.''" "?n \<ge> 2 \<and> path ! (?n - 2) = CHR ''/''
         \<or> ?n \<ge> 3 \<and> path ! (?n - 2) = CHR ''.'' \<and> path ! (?n - 3) = CHR ''/''"
  proof -
    have "path = take (?n - 2) path @ CHR ''/'' # ''.''
        \<or> path = take (?n - 3) path @ CHR ''/'' # ''..''"
      using that nth_last_two [of path] nth_last_three [of path] by auto
    then show ?thesis by (metis relative_last_segment dots)
  qed
  have whole: ?spec if "path = ''.'' \<or> path = ''..''"
    using that dots by (auto simp: split_on_no_delim)
  have "\<not> ?spec" if "path = []"
    using that by (simp add: relative_segment_def)
  then show ?thesis
    unfolding has_relative_path_segment_def Let_def
    using loop front rear whole by auto
qed

section \<open>Directory and base name\<close>

lemma directory_base_split:
  assumes "CHR 92 \<notin> set p" "\<not> has_trailing_directory_separator p" "get_root_length p < length p"
  shows "(p = get_directory_path p @ ''/'' @ get_base_file_name p
          \<or> p = get_directory_path p @ get_base_file_name p
            \<and> length (get_directory_path p) = get_root_length p)
         \<and> CHR ''/'' \<notin> set (get_base_file_name p)"
proof -
  let ?r = "get_root_length p"
  have n: "normalize_slashes p = p" "remove_trailing_directory_separator p = p"
    using assms by (simp_all add: normalize_slashes_id remove_trailing_directory_separator_def)
  have after_root: "CHR ''/'' \<notin> set (drop ?r p)" if "CHR ''/'' \<notin> set (drop k p)" "k \<le> ?r" for k
    using that by (metis le_add_diff_inverse2 drop_drop in_set_dropD)
  show ?thesis
  proof (cases "str_rfind CHR ''/'' p")
    case None
    then have "CHR ''/'' \<notin> set (drop 0 p)"
      by (auto simp: str_rfind_def split: if_splits)
    then show ?thesis
      using None assms(3) after_root [of 0]
      by (simp add: get_directory_path_def get_base_file_name_def n Let_def)
  next
    case (Some i)
    note i = str_rfind_split [OF Some] str_rfind_less [OF Some]
    show ?thesis
    proof (cases "?r \<le> i")
      case True
      then show ?thesis
        using Some i assms(3)
        by (simp add: get_directory_path_def get_base_file_name_def n Let_def max_def)
    next
      case False
      then have "max ?r i = ?r" "max ?r (Suc i) = ?r" by auto
      then show ?thesis
        using False Some i assms(3) after_root [of "Suc i"]
        by (simp add: get_directory_path_def get_base_file_name_def n Let_def)
    qed
  qed
qed

section \<open>Properties\<close>

text \<open>C33: the single-pass normalisation of \<open>get_normalized_path_components_from_combined\<close>
  gives the components that splitting at separators and \<open>reduce_path_components\<close> give.\<close>

theorem normalization_matches_reduction:
  "get_normalized_path_components_from_combined path
   = reduce_path_components (path_components path (get_root_length path))"
  by (rule normalized_components_eq_reduce)

text \<open>normalised components start with the root of the path, are in normal form, are not
  changed by reducing them again, and never leave the root of an absolute path: no
  dot-dot component is left.\<close>

theorem normalized_components_stay_in_root:
  "let cs = get_normalized_path_components_from_combined path in
   hd cs = take (get_root_length path) path \<and> normal_components cs
   \<and> reduce_path_components cs = cs
   \<and> (0 < get_root_length path \<longrightarrow> ''..'' \<notin> set (tl cs))"
proof -
  let ?cs = "get_normalized_path_components_from_combined path"
  have cs: "normal_components ?cs" "hd ?cs = take (get_root_length path) path"
    using reduce_path_components_normal
    by (simp_all add: normalized_components_eq_reduce path_components_def Let_def)
  have "take (get_root_length path) path \<noteq> []" if "0 < get_root_length path"
    using that get_root_length_le [of path] by auto
  then show ?thesis
    using cs reduce_normal [OF cs(1)] by (auto simp: normal_components_def Let_def)
qed

theorem normalized_components_stay_in_root_witness:
  "''..'' \<notin> set (tl (get_normalized_path_components_from_combined ''/a/../../b/./c''))"
proof -
  have "0 < get_root_length ''/a/../../b/./c''" by code_simp
  then show ?thesis
    using normalized_components_stay_in_root [of "''/a/../../b/./c''"] unfolding Let_def by blast
qed

text \<open>the byte scan of \<open>has_relative_path_segment\<close>, with its shortcuts for the first and
  the last segment, finds exactly the paths that have a dot or dot-dot segment or two
  adjacent separators.\<close>

theorem has_relative_path_segment_iff:
  "has_relative_path_segment path \<longleftrightarrow>
     ''.'' \<in> set (split_on CHR ''/'' path) \<or> ''..'' \<in> set (split_on CHR ''/'' path)
     \<or> sublist ''//'' path"
  by (auto simp: has_relative_path_segment_eq relative_segment_def)

text \<open>every root length is within the path, for disk paths and, in the encoded form, for
  URLs, so the slices taken at it are in range.\<close>

theorem root_length_in_range:
  "get_root_length path \<le> length path
   \<and> - int (length path) - 1 \<le> get_encoded_root_length path
   \<and> get_encoded_root_length path \<le> int (length path)
   \<and> (is_url path \<longleftrightarrow> path_is_absolute path \<and> \<not> is_rooted_disk_path path)"
  using get_root_length_le [of path] get_encoded_root_length_bound [of path]
  by (auto simp: is_url_def path_is_absolute_def is_rooted_disk_path_def)

text \<open>the walk over the ancestor directories ends for every directory and callback; it
  returns what the callback returns at the first directory of the chain where it returns
  something, and the chain ends at a directory that is its own parent.\<close>

theorem ancestor_walk_finds_first:
  "for_each_ancestor_directory d f =
     (case filter (\<lambda>a. f a \<noteq> None) (ancestors d) of [] \<Rightarrow> None | a # _ \<Rightarrow> f a)
   \<and> hd (ancestors d) = d
   \<and> get_directory_path (last (ancestors d)) = last (ancestors d)"
  by (simp add: for_each_ancestor_directory_eq last_ancestors) (simp add: ancestors.simps [of d])

text \<open>on a case-sensitive file system, following the relative components from one path
  to another, both with the same root, leads to the target's normalised components.\<close>

theorem relative_components_lead_to_target:
  assumes "use_case_sensitive_file_names opts"
    and "fc = reduce_path_components (get_path_components from (current_directory opts))"
    and "tc = reduce_path_components (get_path_components to (current_directory opts))"
    and "hd fc = hd tc" "hd fc \<noteq> []"
  shows "reduce_path_components
      (fc @ tl (get_path_components_relative_to lower from to opts)) = tc"
proof -
  have n: "normal_components fc" "normal_components tc"
    using assms(2,3) get_path_components_normal by auto
  then obtain r fs ts where c: "fc = r # fs" "tc = r # ts"
    using assms(4) by (cases fc; cases tc) (auto simp: normal_components_def)
  have start: "common_components lower opts 0 fc tc \<noteq> 0"
    using common_components_bounds [of 1 lower opts fs ts] by (simp add: c eq_ignore_ascii_case_def)
  have rel: "get_path_components_relative_to lower from to opts
      = [] # replicate (length fc - common_components lower opts 0 fc tc) ''..''
          @ drop (common_components lower opts 0 fc tc) tc"
    unfolding get_path_components_relative_to_def assms(2,3) [symmetric] Let_def
    using start by simp
  have "foldl reduce_step [r] fs = r # fs"
    using reduce_normal [OF n(1)] by (simp add: c reduce_path_components_def)
  then show ?thesis
    using relative_components_resolve [OF assms(1), of r fs ts lower] n assms(5) start
    unfolding rel
    by (simp add: c reduce_path_components_def del: common_components.simps)
qed

theorem relative_components_lead_to_target_witness:
  "reduce_path_components
     ([''/'', ''a'', ''b''] @ tl (get_path_components_relative_to id ''/a/b'' ''/a/c/d''
        \<lparr>use_case_sensitive_file_names = True, current_directory = []\<rparr>)) = [''/'', ''a'', ''c'', ''d'']"
proof -
  let ?o = "\<lparr>use_case_sensitive_file_names = True, current_directory = []\<rparr>"
  have f: "[''/'', ''a'', ''b''] = reduce_path_components (get_path_components ''/a/b'' (current_directory ?o))"
    and t: "[''/'', ''a'', ''c'', ''d'']
      = reduce_path_components (get_path_components ''/a/c/d'' (current_directory ?o))"
    by code_simp+
  show ?thesis
    by (rule relative_components_lead_to_target [OF _ f t]) simp_all
qed

text \<open>a path without trailing separator that is not just its root is its directory, a
  separator where the directory is not the root, and its base name, which has no
  separator.\<close>

theorem directory_and_base_name:
  assumes "CHR 92 \<notin> set p" "\<not> has_trailing_directory_separator p" "get_root_length p < length p"
  shows "(p = get_directory_path p @ ''/'' @ get_base_file_name p
          \<or> p = get_directory_path p @ get_base_file_name p
            \<and> length (get_directory_path p) = get_root_length p)
         \<and> CHR ''/'' \<notin> set (get_base_file_name p)"
  using assms by (rule directory_base_split)

theorem directory_and_base_name_witness:
  "''c:/x/y.ts'' = get_directory_path ''c:/x/y.ts'' @ ''/'' @ get_base_file_name ''c:/x/y.ts''"
proof -
  have "CHR 92 \<notin> set ''c:/x/y.ts''" "\<not> has_trailing_directory_separator ''c:/x/y.ts''"
    "get_root_length ''c:/x/y.ts'' < length ''c:/x/y.ts''"
    "length (get_directory_path ''c:/x/y.ts'') \<noteq> get_root_length ''c:/x/y.ts''"
    by code_simp+
  then show ?thesis using directory_and_base_name [of "''c:/x/y.ts''"] by blast
qed

text \<open>\<open>compare_paths\<close> is not a function of the normalised paths: with a dot segment
  it compares components, without one it compares bytes, and the two disagree.\<close>

theorem compare_paths_depends_on_spelling:
  "let opts = \<lparr>use_case_sensitive_file_names = True, current_directory = []\<rparr> in
   normalize_path ''/a/./b'' = ''/a/b''
   \<and> compare_paths lower ''/a-b'' ''/a/b'' opts = Less
   \<and> compare_paths lower ''/a-b'' ''/a/./b'' opts = Greater"
  by code_simp

end
