(* ===== verification/SourceMap.thy ===== *)
theory SourceMap
  imports MachineInt TsPath
begin

text \<open>
  The source map generator and the decoder of its mappings (\<open>ts-sourcemap\<close>:
  \<open>generator.rs\<close>, \<open>decoder.rs\<close>, \<open>lineinfo.rs\<close>, \<open>util.rs\<close>). All line, character and index fields
  are \<open>i32\<close>; arithmetic wraps as in a release build. A panic is \<open>None\<close>, an \<open>Err\<close> is \<open>Inl\<close> of its
  message. The JSON and base64 encodings of the finished map are those of the crates
  \<open>serde_json\<close> and \<open>base64\<close> and are not modelled.
\<close>

section \<open>Generator\<close>

record generator =
  path_options :: compare_paths_options
  gen_file :: string
  source_root :: string
  sources_directory_path :: string
  sources :: "string list"
  source_map_sources :: "string list"
  source_to_source_index_map :: "string \<rightharpoonup> int"
  sources_content :: "string option list"
  names :: "string list"
  name_to_name_index_map :: "string \<rightharpoonup> int"
  mappings :: string
  last_generated_line :: int
  last_generated_character :: int
  last_source_index :: int
  last_source_line :: int
  last_source_character :: int
  last_name_index :: int
  has_last :: bool
  pending_generated_line :: int
  pending_generated_character :: int
  pending_source_index :: int
  pending_source_line :: int
  pending_source_character :: int
  pending_name_index :: int
  has_pending :: bool
  has_pending_source :: bool
  has_pending_name :: bool

record raw_source_map =
  raw_version :: int
  raw_file :: string
  raw_source_root :: string
  raw_sources :: "string list"
  raw_names :: "string list"
  raw_mappings :: string
  raw_sources_content :: "string option list"

definition new_generator :: "string \<Rightarrow> string \<Rightarrow> string \<Rightarrow> compare_paths_options \<Rightarrow> generator" where
  "new_generator file' root dir opts =
     \<lparr>path_options = opts, gen_file = file', source_root = root, sources_directory_path = dir,
      sources = [], source_map_sources = [], source_to_source_index_map = Map.empty,
      sources_content = [], names = [], name_to_name_index_map = Map.empty, mappings = [],
      last_generated_line = 0, last_generated_character = 0, last_source_index = 0,
      last_source_line = 0, last_source_character = 0, last_name_index = 0, has_last = False,
      pending_generated_line = 0, pending_generated_character = 0, pending_source_index = 0,
      pending_source_line = 0, pending_source_character = 0, pending_name_index = 0,
      has_pending = False, has_pending_source = False, has_pending_name = False\<rparr>"

definition add_source :: "lower_case \<Rightarrow> string \<Rightarrow> generator \<Rightarrow> generator \<times> int" where
  "add_source lower file_name g =
     (let source = get_relative_path_to_directory_or_url lower (sources_directory_path g)
                     file_name True (path_options g) in
      case source_to_source_index_map g source of
        Some source_index \<Rightarrow> (g, source_index)
      | None \<Rightarrow>
          let source_index = wrap32 (int (length (source_map_sources g))) in
          (g\<lparr>source_map_sources := source_map_sources g @ [source],
             sources := sources g @ [file_name],
             source_to_source_index_map := (source_to_source_index_map g)(source \<mapsto> source_index)\<rparr>,
           source_index))"

text \<open>The loop of \<open>set_source_content\<close> that pads the vector.\<close>

definition pad_contents :: "nat \<Rightarrow> string option list \<Rightarrow> string option list" where
  "pad_contents n cs = cs @ replicate (n + 1 - length cs) None"

definition set_source_content :: "int \<Rightarrow> string \<Rightarrow> generator \<Rightarrow> generator \<times> (string + unit)" where
  "set_source_content source_index content g =
     (if source_index < 0 \<or> nat source_index \<ge> length (source_map_sources g)
      then (g, Inl ''sourceIndex is out of range'')
      else (g\<lparr>sources_content :=
                (pad_contents (nat source_index) (sources_content g))[nat source_index := Some content]\<rparr>,
            Inr ()))"

definition add_name :: "string \<Rightarrow> generator \<Rightarrow> generator \<times> int" where
  "add_name name g =
     (case name_to_name_index_map g name of
        Some name_index \<Rightarrow> (g, name_index)
      | None \<Rightarrow>
          let name_index = wrap32 (int (length (names g))) in
          (g\<lparr>names := names g @ [name],
             name_to_name_index_map := (name_to_name_index_map g)(name \<mapsto> name_index)\<rparr>,
           name_index))"

definition is_new_generated_position :: "generator \<Rightarrow> int \<Rightarrow> int \<Rightarrow> bool" where
  "is_new_generated_position g generated_line generated_character \<longleftrightarrow>
     \<not> has_pending g \<or> pending_generated_line g \<noteq> generated_line
     \<or> pending_generated_character g \<noteq> generated_character"

definition is_backtracking_source_position :: "generator \<Rightarrow> int \<Rightarrow> int \<Rightarrow> int \<Rightarrow> bool" where
  "is_backtracking_source_position g source_index source_line source_character \<longleftrightarrow>
     source_index \<noteq> -1 \<and> source_line \<noteq> -1 \<and> source_character \<noteq> -1
     \<and> pending_source_index g = source_index
     \<and> (pending_source_line g > source_line
        \<or> pending_source_line g = source_line \<and> pending_source_character g > source_character)"

definition should_commit_mapping :: "generator \<Rightarrow> bool" where
  "should_commit_mapping g \<longleftrightarrow>
     has_pending g
     \<and> (\<not> has_last g
        \<or> last_generated_line g \<noteq> pending_generated_line g
        \<or> last_generated_character g \<noteq> pending_generated_character g
        \<or> last_source_index g \<noteq> pending_source_index g
        \<or> last_source_line g \<noteq> pending_source_line g
        \<or> last_source_character g \<noteq> pending_source_character g
        \<or> last_name_index g \<noteq> pending_name_index g)"

definition base64_format_encode :: "int \<Rightarrow> char option" where
  "base64_format_encode value =
     (if 0 \<le> value \<and> value \<le> 25 then Some (char_of (65 + nat value))
      else if 26 \<le> value \<and> value \<le> 51 then Some (char_of (97 + nat (value - 26)))
      else if 52 \<le> value \<and> value \<le> 61 then Some (char_of (48 + nat (value - 52)))
      else if value = 62 then Some CHR ''+''
      else if value = 63 then Some CHR ''/''
      else None)"

definition append_mapping_char_code :: "char \<Rightarrow> generator \<Rightarrow> generator" where
  "append_mapping_char_code char_code g = g\<lparr>mappings := mappings g @ [char_code]\<rparr>"

function append_base64_vlq_loop :: "int \<Rightarrow> generator \<Rightarrow> generator option" where
  "append_base64_vlq_loop in_value g =
     (let current_digit = in_value AND 31;
          in_value = shr32 in_value 5;
          current_digit = (if in_value > 0 then current_digit OR 32 else current_digit) in
      case base64_format_encode current_digit of
        None \<Rightarrow> None
      | Some c \<Rightarrow>
          let g = append_mapping_char_code c g in
          if in_value \<le> 0 then Some g else append_base64_vlq_loop in_value g)"
  by pat_completeness auto
termination
  by (relation "measure (\<lambda>(v, _). nat v)") (auto simp: shr32_def)

declare append_base64_vlq_loop.simps [simp del]

definition append_base64_vlq :: "int \<Rightarrow> generator \<Rightarrow> generator option" where
  "append_base64_vlq in_value g =
     append_base64_vlq_loop
       (if in_value < 0 then wrap32 (shl32 (wrap32 (- in_value)) 1 + 1) else shl32 in_value 1) g"

text \<open>The loop that emits one semicolon per generated line. It is entered and continued only
  below the pending line, so its increment cannot overflow.\<close>

function append_lines :: "generator \<Rightarrow> generator" where
  "append_lines g =
     (if last_generated_line g < pending_generated_line g
      then append_lines
        ((append_mapping_char_code CHR '';'' g)\<lparr>last_generated_line := last_generated_line g + 1\<rparr>)
      else g)"
  by pat_completeness auto
termination
  by (relation "measure (\<lambda>g. nat (pending_generated_line g - last_generated_line g))")
    (auto simp: append_mapping_char_code_def)

declare append_lines.simps [simp del]

definition commit_pending_source :: "generator \<Rightarrow> generator option" where
  "commit_pending_source g =
     (if has_pending_source g then
        Option.bind (append_base64_vlq (wrap32 (pending_source_index g - last_source_index g)) g)
        (\<lambda>g. let g = g\<lparr>last_source_index := pending_source_index g\<rparr> in
        Option.bind (append_base64_vlq (wrap32 (pending_source_line g - last_source_line g)) g)
        (\<lambda>g. let g = g\<lparr>last_source_line := pending_source_line g\<rparr> in
        Option.bind (append_base64_vlq (wrap32 (pending_source_character g - last_source_character g)) g)
        (\<lambda>g. let g = g\<lparr>last_source_character := pending_source_character g\<rparr> in
          if has_pending_name g then
            Option.bind (append_base64_vlq (wrap32 (pending_name_index g - last_name_index g)) g)
            (\<lambda>g. Some (g\<lparr>last_name_index := pending_name_index g\<rparr>))
          else Some g)))
      else Some g)"

text \<open>The part of \<open>commit_pending_mapping\<close> that brings the output to the generated line.\<close>

definition commit_generated_line :: "generator \<Rightarrow> generator option" where
  "commit_generated_line g =
     (if last_generated_line g < pending_generated_line g
      then Some ((append_lines g)\<lparr>last_generated_character := 0\<rparr>)
      else if last_generated_line g \<noteq> pending_generated_line g then None
      else if has_last g then Some (append_mapping_char_code CHR '','' g)
      else Some g)"

definition commit_pending_mapping :: "generator \<Rightarrow> generator option" where
  "commit_pending_mapping g =
     (if \<not> should_commit_mapping g then Some g
      else
        Option.bind (commit_generated_line g)
        (\<lambda>g. Option.bind
          (append_base64_vlq (wrap32 (pending_generated_character g - last_generated_character g)) g)
        (\<lambda>g. let g = g\<lparr>last_generated_character := pending_generated_character g\<rparr> in
        Option.bind (commit_pending_source g)
        (\<lambda>g. Some (g\<lparr>has_last := True\<rparr>)))))"

definition add_mapping :: "int \<Rightarrow> int \<Rightarrow> int \<Rightarrow> int \<Rightarrow> int \<Rightarrow> int \<Rightarrow> generator \<Rightarrow> generator option" where
  "add_mapping generated_line generated_character source_index source_line source_character
     name_index g =
     Option.bind
       (if is_new_generated_position g generated_line generated_character
           \<or> is_backtracking_source_position g source_index source_line source_character
        then map_option
          (\<lambda>g. g\<lparr>pending_generated_line := generated_line,
                 pending_generated_character := generated_character,
                 has_pending_source := False, has_pending_name := False, has_pending := True\<rparr>)
          (commit_pending_mapping g)
        else Some g)
     (\<lambda>g. Some
       (if source_index \<noteq> -1 \<and> source_line \<noteq> -1 \<and> source_character \<noteq> -1
        then
          let g = g\<lparr>pending_source_index := source_index, pending_source_line := source_line,
                    pending_source_character := source_character, has_pending_source := True\<rparr> in
          if name_index \<noteq> -1
          then g\<lparr>pending_name_index := name_index, has_pending_name := True\<rparr>
          else g
        else g))"

definition add_generated_mapping :: "int \<Rightarrow> int \<Rightarrow> generator \<Rightarrow> (generator \<times> (string + unit)) option" where
  "add_generated_mapping generated_line generated_character g =
     (if generated_line < pending_generated_line g
      then Some (g, Inl ''generatedLine cannot backtrack'')
      else if generated_character < 0
      then Some (g, Inl ''generatedCharacter cannot be negative'')
      else map_option (\<lambda>g. (g, Inr ()))
        (add_mapping generated_line generated_character (-1) (-1) (-1) (-1) g))"

definition validate_source_mapping_args ::
    "int \<Rightarrow> int \<Rightarrow> int \<Rightarrow> int \<Rightarrow> int \<Rightarrow> generator \<Rightarrow> string + unit" where
  "validate_source_mapping_args generated_line generated_character source_index source_line
     source_character g =
     (if generated_line < pending_generated_line g then Inl ''generatedLine cannot backtrack''
      else if generated_character < 0 then Inl ''generatedCharacter cannot be negative''
      else if source_index < 0 \<or> nat source_index \<ge> length (source_map_sources g)
      then Inl ''sourceIndex is out of range''
      else if source_line < 0 then Inl ''sourceLine cannot be negative''
      else if source_character < 0 then Inl ''sourceCharacter cannot be negative''
      else Inr ())"

definition add_source_mapping ::
    "int \<Rightarrow> int \<Rightarrow> int \<Rightarrow> int \<Rightarrow> int \<Rightarrow> generator \<Rightarrow> (generator \<times> (string + unit)) option" where
  "add_source_mapping generated_line generated_character source_index source_line
     source_character g =
     (case validate_source_mapping_args generated_line generated_character source_index source_line
             source_character g of
        Inl e \<Rightarrow> Some (g, Inl e)
      | Inr _ \<Rightarrow> map_option (\<lambda>g. (g, Inr ()))
          (add_mapping generated_line generated_character source_index source_line
             source_character (-1) g))"

definition add_named_source_mapping ::
    "int \<Rightarrow> int \<Rightarrow> int \<Rightarrow> int \<Rightarrow> int \<Rightarrow> int \<Rightarrow> generator \<Rightarrow> (generator \<times> (string + unit)) option" where
  "add_named_source_mapping generated_line generated_character source_index source_line
     source_character name_index g =
     (case validate_source_mapping_args generated_line generated_character source_index source_line
             source_character g of
        Inl e \<Rightarrow> Some (g, Inl e)
      | Inr _ \<Rightarrow>
          if name_index < 0 \<or> nat name_index \<ge> length (names g)
          then Some (g, Inl ''nameIndex is out of range'')
          else map_option (\<lambda>g. (g, Inr ()))
            (add_mapping generated_line generated_character source_index source_line
               source_character name_index g))"

definition generator_raw_source_map :: "generator \<Rightarrow> (generator \<times> raw_source_map) option" where
  "generator_raw_source_map g =
     map_option
       (\<lambda>g. (g, \<lparr>raw_version = 3, raw_file = gen_file g, raw_source_root = source_root g,
                 raw_sources = source_map_sources g, raw_names = names g,
                 raw_mappings = mappings g, raw_sources_content = sources_content g\<rparr>))
       (commit_pending_mapping g)"

section \<open>Decoder\<close>

record mapping =
  generated_line :: int
  generated_character :: int
  source_index :: int
  source_line :: int
  source_character :: int
  name_index :: int

definition is_source_mapping :: "mapping \<Rightarrow> bool" where
  "is_source_mapping m \<longleftrightarrow> source_index m \<noteq> -1 \<and> source_line m \<noteq> -1 \<and> source_character m \<noteq> -1"

record mappings_decoder =
  d_mappings :: string
  d_done :: bool
  d_pos :: nat
  d_generated_line :: int
  d_generated_character :: int
  d_source_index :: int
  d_source_line :: int
  d_source_character :: int
  d_name_index :: int
  d_error :: "string option"

definition decode_mappings :: "string \<Rightarrow> mappings_decoder" where
  "decode_mappings ms =
     \<lparr>d_mappings = ms, d_done = False, d_pos = 0, d_generated_line = 0, d_generated_character = 0,
      d_source_index = 0, d_source_line = 0, d_source_character = 0, d_name_index = 0,
      d_error = None\<rparr>"

definition capture_mapping :: "bool \<Rightarrow> bool \<Rightarrow> mappings_decoder \<Rightarrow> mapping" where
  "capture_mapping has_source has_name d =
     \<lparr>generated_line = d_generated_line d, generated_character = d_generated_character d,
      source_index = (if has_source then d_source_index d else -1),
      source_line = (if has_source then d_source_line d else -1),
      source_character = (if has_source then d_source_character d else -1),
      name_index = (if has_name then d_name_index d else -1)\<rparr>"

definition decoder_state :: "mappings_decoder \<Rightarrow> mapping" where
  "decoder_state d = capture_mapping True True d"

definition stop_iterating :: "mappings_decoder \<Rightarrow> mapping option \<times> mappings_decoder" where
  "stop_iterating d = (None, d\<lparr>d_done := True\<rparr>)"

definition set_error :: "string \<Rightarrow> mappings_decoder \<Rightarrow> mappings_decoder" where
  "set_error err d = d\<lparr>d_error := Some err\<rparr>"

definition set_error_and_stop_iterating ::
    "string \<Rightarrow> mappings_decoder \<Rightarrow> mapping option \<times> mappings_decoder" where
  "set_error_and_stop_iterating err d = stop_iterating (set_error err d)"

definition has_reported_error :: "mappings_decoder \<Rightarrow> bool" where
  "has_reported_error d \<longleftrightarrow> d_error d \<noteq> None"

definition is_source_mapping_segment_end :: "mappings_decoder \<Rightarrow> bool" where
  "is_source_mapping_segment_end d \<longleftrightarrow>
     d_pos d = length (d_mappings d) \<or> d_mappings d ! d_pos d = CHR '',''
     \<or> d_mappings d ! d_pos d = CHR '';''"

definition base64_format_decode :: "char \<Rightarrow> int" where
  "base64_format_decode ch =
     (let c = int (of_char ch) in
      if 65 \<le> c \<and> c \<le> 90 then c - 65
      else if 97 \<le> c \<and> c \<le> 122 then c - 97 + 26
      else if 48 \<le> c \<and> c \<le> 57 then c - 48 + 52
      else if ch = CHR ''+'' then 62
      else if ch = CHR ''/'' then 63
      else -1)"

text \<open>
  The loop reads digits while they have the continuation bit. The shift count is an \<open>i32\<close>, but
  only its value modulo 32 matters to the shift.
\<close>

function vlq_decode_loop :: "mappings_decoder \<Rightarrow> nat \<Rightarrow> int \<Rightarrow> mappings_decoder \<times> int option" where
  "vlq_decode_loop d shift_count value =
     (if d_pos d \<ge> length (d_mappings d)
      then (set_error ''Error in decoding base64VLQFormatDecode, past the mapping string'' d, None)
      else
        let current_byte = base64_format_decode (d_mappings d ! d_pos d);
            d = d\<lparr>d_pos := d_pos d + 1\<rparr> in
        if current_byte = -1 then (set_error ''Invalid character in VLQ'' d, None)
        else
          let more_digits = (current_byte AND 32) \<noteq> 0;
              value = value OR shl32 (current_byte AND 31) shift_count in
          if more_digits then vlq_decode_loop d (shift_count + 5) value else (d, Some value))"
  by pat_completeness auto
termination
  by (relation "measure (\<lambda>(d, _). length (d_mappings d) - d_pos d)") auto

declare vlq_decode_loop.simps [simp del]

definition base64_vlq_format_decode :: "mappings_decoder \<Rightarrow> mappings_decoder \<times> int" where
  "base64_vlq_format_decode d =
     (case vlq_decode_loop d 0 0 of
        (d, None) \<Rightarrow> (d, -1)
      | (d, Some value) \<Rightarrow>
          (d, if (value AND 1) = 0 then shr32 value 1 else - shr32 value 1))"

text \<open>The rest of a segment after its generated character, field by field.\<close>

definition decode_name :: "mappings_decoder \<Rightarrow> mapping option \<times> mappings_decoder" where
  "decode_name d =
     (let (d, v) = base64_vlq_format_decode d;
          d = d\<lparr>d_name_index := wrap32 (d_name_index d + v)\<rparr> in
      if has_reported_error d then stop_iterating d
      else if d_name_index d < 0 then set_error_and_stop_iterating ''Invalid nameIndex found'' d
      else if \<not> is_source_mapping_segment_end d
      then set_error_and_stop_iterating ''Unsupported Error Format: Entries after nameIndex'' d
      else (Some (capture_mapping True True d), d))"

definition decode_source_character :: "mappings_decoder \<Rightarrow> mapping option \<times> mappings_decoder" where
  "decode_source_character d =
     (let (d, v) = base64_vlq_format_decode d;
          d = d\<lparr>d_source_character := wrap32 (d_source_character d + v)\<rparr> in
      if has_reported_error d then stop_iterating d
      else if d_source_character d < 0
      then set_error_and_stop_iterating ''Invalid sourceCharacter found'' d
      else if \<not> is_source_mapping_segment_end d then decode_name d
      else (Some (capture_mapping True False d), d))"

definition decode_source_line :: "mappings_decoder \<Rightarrow> mapping option \<times> mappings_decoder" where
  "decode_source_line d =
     (let (d, v) = base64_vlq_format_decode d;
          d = d\<lparr>d_source_line := wrap32 (d_source_line d + v)\<rparr> in
      if has_reported_error d then stop_iterating d
      else if d_source_line d < 0 then set_error_and_stop_iterating ''Invalid sourceLine found'' d
      else if is_source_mapping_segment_end d
      then set_error_and_stop_iterating ''Unsupported Format: No entries after sourceLine'' d
      else decode_source_character d)"

definition decode_source_index :: "mappings_decoder \<Rightarrow> mapping option \<times> mappings_decoder" where
  "decode_source_index d =
     (let (d, v) = base64_vlq_format_decode d;
          d = d\<lparr>d_source_index := wrap32 (d_source_index d + v)\<rparr> in
      if has_reported_error d then stop_iterating d
      else if d_source_index d < 0 then set_error_and_stop_iterating ''Invalid sourceIndex found'' d
      else if is_source_mapping_segment_end d
      then set_error_and_stop_iterating ''Unsupported Format: No entries after sourceIndex'' d
      else decode_source_line d)"

definition decode_segment :: "mappings_decoder \<Rightarrow> mapping option \<times> mappings_decoder" where
  "decode_segment d =
     (let (d, v) = base64_vlq_format_decode d;
          d = d\<lparr>d_generated_character := wrap32 (d_generated_character d + v)\<rparr> in
      if has_reported_error d then stop_iterating d
      else if d_generated_character d < 0
      then set_error_and_stop_iterating ''Invalid generatedCharacter found'' d
      else if \<not> is_source_mapping_segment_end d then decode_source_index d
      else (Some (capture_mapping False False d), d))"

function next_mapping :: "mappings_decoder \<Rightarrow> mapping option \<times> mappings_decoder" where
  "next_mapping d =
     (if d_done d \<or> d_pos d \<ge> length (d_mappings d) then stop_iterating d
      else
        let ch = d_mappings d ! d_pos d in
        if ch = CHR '';''
        then next_mapping
          (d\<lparr>d_generated_line := wrap32 (d_generated_line d + 1), d_generated_character := 0,
             d_pos := d_pos d + 1\<rparr>)
        else if ch = CHR '','' then next_mapping (d\<lparr>d_pos := d_pos d + 1\<rparr>)
        else decode_segment d)"
  by pat_completeness auto
termination
  by (relation "measure (\<lambda>d. length (d_mappings d) - d_pos d)") auto

declare next_mapping.simps [simp del]

section \<open>Line information\<close>

record ecma_line_info =
  li_text :: string
  li_line_starts :: "int list"

definition line_count :: "ecma_line_info \<Rightarrow> nat" where
  "line_count li = length (li_line_starts li)"

text \<open>A line start is cast to \<open>usize\<close>: a negative one becomes huge and the slice panics.\<close>

definition line_text :: "ecma_line_info \<Rightarrow> nat \<Rightarrow> string option" where
  "line_text li line =
     (if line \<ge> length (li_line_starts li) then None
      else
        let pos = li_line_starts li ! line;
            end = (if line + 1 < length (li_line_starts li)
                   then li_line_starts li ! (line + 1) else int (length (li_text li))) in
        if 0 \<le> pos \<and> pos \<le> end \<and> end \<le> int (length (li_text li))
        then Some (take (nat (end - pos)) (drop (nat pos) (li_text li))) else None)"

text \<open>The loop from the last line backwards: the first argument is the number of lines left.\<close>

fun mapping_url_loop :: "nat \<Rightarrow> ecma_line_info \<Rightarrow> string option" where
  "mapping_url_loop 0 li = Some []"
| "mapping_url_loop (Suc index) li =
     (case line_text li index of
        None \<Rightarrow> None
      | Some text \<Rightarrow>
          let line = rev (dropWhile (\<lambda>c. c = CHR 13 \<or> c = CHR 10) (rev (trim_start text))) in
          if line = [] then mapping_url_loop index li
          else if length line < 4 \<or> \<not> prefix ''//'' line
                  \<or> (line ! 2 \<noteq> CHR ''#'' \<and> line ! 2 \<noteq> CHR ''@'') \<or> line ! 3 \<noteq> CHR '' ''
          then Some []
          else if prefix ''sourceMappingURL='' (drop 4 line) then Some (trim_end (drop 21 line))
          else mapping_url_loop index li)"

definition try_get_source_mapping_url :: "ecma_line_info option \<Rightarrow> string option" where
  "try_get_source_mapping_url line_info =
     (case line_info of
        None \<Rightarrow> Some []
      | Some li \<Rightarrow> mapping_url_loop (line_count li) li)"

section \<open>Base64 digits and variable-length quantities\<close>

lemma base64_digits_check:
  "list_all (\<lambda>n. case base64_format_encode n of
       None \<Rightarrow> False
     | Some c \<Rightarrow> base64_format_decode c = n \<and> c \<noteq> CHR '','' \<and> c \<noteq> CHR '';'') [0..63]"
  by code_simp

lemma base64_digit:
  assumes "0 \<le> n" "n < 64"
  obtains c where "base64_format_encode n = Some c" "base64_format_decode c = n"
    "c \<noteq> CHR '',''" "c \<noteq> CHR '';''"
proof -
  have "n \<in> set [0..63]" using assms by simp
  then have "case base64_format_encode n of
       None \<Rightarrow> False
     | Some c \<Rightarrow> base64_format_decode c = n \<and> c \<noteq> CHR '','' \<and> c \<noteq> CHR '';''"
    using base64_digits_check unfolding list_all_iff by blast
  then show thesis by (auto split: option.splits intro: that)
qed

definition b64 :: "int \<Rightarrow> char" where
  "b64 n = the (base64_format_encode n)"

lemma b64:
  assumes "0 \<le> n" "n < 64"
  shows "base64_format_encode n = Some (b64 n)" "base64_format_decode (b64 n) = n"
    "b64 n \<noteq> CHR '',''" "b64 n \<noteq> CHR '';''"
proof -
  obtain c where "base64_format_encode n = Some c" "base64_format_decode c = n"
    "c \<noteq> CHR '',''" "c \<noteq> CHR '';''" by (rule base64_digit [OF assms])
  then show "base64_format_encode n = Some (b64 n)" "base64_format_decode (b64 n) = n"
    "b64 n \<noteq> CHR '',''" "b64 n \<noteq> CHR '';''" unfolding b64_def by simp_all
qed

text \<open>The digits of a non-negative quantity, least significant first.\<close>

function vlq_text :: "int \<Rightarrow> string" where
  "vlq_text n = (if n < 32 then [b64 n] else b64 (n mod 32 + 32) # vlq_text (n div 32))"
  by pat_completeness auto
termination by (relation "measure nat") auto

declare vlq_text.simps [simp del]

lemma append_vlq_loop_text:
  "0 \<le> n \<Longrightarrow> append_base64_vlq_loop n g = Some (g\<lparr>mappings := mappings g @ vlq_text n\<rparr>)"
proof (induction n arbitrary: g rule: vlq_text.induct)
  case (1 n)
  have q: "shr32 n 5 = n div 32" and r: "n AND 31 = n mod 32" by (simp_all add: shr32_def and_31)
  show ?case
  proof (cases "n < 32")
    case True
    then have "n div 32 = 0" "n mod 32 = n" using 1(2) by auto
    then show ?thesis
      using b64 [of n] 1(2) True
      by (simp add: append_base64_vlq_loop.simps [of n] vlq_text.simps [of n] q r
          append_mapping_char_code_def)
  next
    case False
    then have pos: "n div 32 > 0" by simp
    have d: "n mod 32 OR 32 = n mod 32 + 32" by (rule or_32) auto
    show ?thesis
      using b64 [of "n mod 32 + 32"] 1(1) [OF False] pos False
      by (simp add: append_base64_vlq_loop.simps [of n] vlq_text.simps [of n] q r d
          append_mapping_char_code_def)
  qed
qed

lemma vlq_text_neq_Nil [simp]: "vlq_text n \<noteq> []"
  by (subst vlq_text.simps) simp

definition vlq_code :: "int \<Rightarrow> int" where
  "vlq_code v = (if v < 0 then - v * 2 + 1 else v * 2)"

abbreviation vlq :: "int \<Rightarrow> string" where
  "vlq v \<equiv> vlq_text (vlq_code v)"

lemma append_vlq_text:
  assumes "\<bar>v\<bar> < 2 ^ 30"
  shows "append_base64_vlq v g = Some (g\<lparr>mappings := mappings g @ vlq v\<rparr>)"
proof -
  have "0 \<le> vlq_code v" by (simp add: vlq_code_def)
  moreover have "(if v < 0 then wrap32 (shl32 (wrap32 (- v)) 1 + 1) else shl32 v 1) = vlq_code v"
    using assms by (auto simp: shl32_def vlq_code_def is_i32_def)
  ultimately show ?thesis by (simp add: append_base64_vlq_def append_vlq_loop_text)
qed

lemma vlq_decode_text:
  "0 \<le> n \<Longrightarrow> drop (d_pos d) (d_mappings d) = vlq_text n @ rest \<Longrightarrow>
   0 \<le> acc \<Longrightarrow> acc < 2 ^ (5 * i) \<Longrightarrow> acc + n * 2 ^ (5 * i) < 2 ^ 31 \<Longrightarrow> 0 < n \<or> i = 0 \<Longrightarrow>
   vlq_decode_loop d (5 * i) acc
   = (d\<lparr>d_pos := d_pos d + length (vlq_text n)\<rparr>, Some (acc + n * 2 ^ (5 * i)))"
proof (induction n arbitrary: d i acc rule: vlq_text.induct)
  case (1 n)
  have len: "d_pos d < length (d_mappings d)"
    using 1(3) by (metis append_is_Nil_conv drop_eq_Nil not_le vlq_text_neq_Nil)
  then have hd: "d_mappings d ! d_pos d = hd (vlq_text n)"
    using 1(3) by (metis hd_append2 hd_drop_conv_nth vlq_text_neq_Nil)
  have sh: "5 * i < 32"
  proof (rule ccontr)
    assume "\<not> 5 * i < 32"
    then have "2 ^ 32 \<le> (2 :: int) ^ (5 * i)" by (intro power_increasing) auto
    moreover have "0 < n" using 1(7) \<open>\<not> 5 * i < 32\<close> by auto
    ultimately have "2 ^ 32 \<le> n * 2 ^ (5 * i)"
      by (metis mult_left_mono mult_1 order_trans int_one_le_iff_zero_less zero_le_power zero_le_numeral mult_right_mono)
    then show False using 1(4,6) by simp
  qed
  show ?case
  proof (cases "n < 32")
    case True
    have "0 \<le> n * 2 ^ (5 * i)" using 1(2) by simp
    then have "is_i32 (n * 2 ^ (5 * i))" using 1(4,6) by (simp add: is_i32_def)
    then have w: "shl32 n (5 * i) = n * 2 ^ (5 * i)" using sh by (simp add: shl32_def)
    have "acc OR n * 2 ^ (5 * i) = acc + n * 2 ^ (5 * i)"
      using 1(4,5) by (rule or_shifted)
    then show ?thesis
      using True 1(2) len hd b64 [of n] and_32_digit [of n] w
      by (simp add: vlq_decode_loop.simps [of d] vlq_text.simps [of n])
  next
    case False
    let ?d = "d\<lparr>d_pos := d_pos d + 1\<rparr>" and ?k = "2 ^ (5 * i) :: int"
    have digit: "base64_format_decode (d_mappings d ! d_pos d) = n mod 32 + 32"
      using hd False b64 [of "n mod 32 + 32"] by (simp add: vlq_text.simps [of n])
    have "(n mod 32 + 32 * (n div 32)) * ?k = n * ?k" by (simp only: mod_mult_div_eq)
    then have split: "n mod 32 * ?k + n div 32 * (?k * 32) = n * ?k"
      by (simp only: distrib_right distrib_left mult_ac)
    have le: "n mod 32 * ?k \<le> n * ?k" "0 \<le> n mod 32 * ?k"
      using 1(2) by (auto intro!: mult_right_mono simp: zmod_le_nonneg_dividend)
    then have "is_i32 (n mod 32 * ?k)" unfolding is_i32_def using 1(4,6) by linarith
    then have w: "shl32 (n mod 32) (5 * i) = n mod 32 * ?k" using sh by (simp add: shl32_def)
    have orv: "acc OR n mod 32 * ?k = acc + n mod 32 * ?k"
      using 1(4,5) by (rule or_shifted)
    have k: "2 ^ (5 * (i + 1)) = ?k * 32" by (simp add: power_add)
    have ub: "acc + n mod 32 * ?k < ?k * 32"
    proof -
      have "n mod 32 \<le> 31" by (simp add: zle_diff1_eq [symmetric])
      then have "n mod 32 * ?k \<le> 31 * ?k" by (intro mult_right_mono) auto
      then show ?thesis using 1(5) by linarith
    qed
    have tail: "drop (d_pos ?d) (d_mappings ?d) = vlq_text (n div 32) @ rest"
      using 1(3) False by (simp add: vlq_text.simps [of n]) (metis drop_Suc_Cons drop0 drop_drop plus_1_eq_Suc)
    have "vlq_decode_loop ?d (5 * (i + 1)) (acc + n mod 32 * ?k)
        = (?d\<lparr>d_pos := d_pos ?d + length (vlq_text (n div 32))\<rparr>,
           Some (acc + n mod 32 * ?k + n div 32 * 2 ^ (5 * (i + 1))))"
      by (rule 1(1) [OF False])
        (use False 1(2,4,6) tail k ub split le in \<open>auto simp: algebra_simps\<close>)
    moreover have "33 + n mod 32 \<noteq> 0" using pos_mod_sign [of 32 n] by linarith
    ultimately show ?thesis
      using len digit False and_32_digit [of "n mod 32"] w orv k split
      by (simp add: vlq_decode_loop.simps [of d] vlq_text.simps [of n] add.assoc Let_def
          add.commute [of "5 * i" 5])
  qed
qed

lemma vlq_roundtrip:
  assumes "\<bar>v\<bar> < 2 ^ 30" "drop (d_pos d) (d_mappings d) = vlq v @ rest"
  shows "base64_vlq_format_decode d = (d\<lparr>d_pos := d_pos d + length (vlq v)\<rparr>, v)"
proof -
  have c: "0 \<le> vlq_code v" "vlq_code v < 2 ^ 31" using assms(1) by (auto simp: vlq_code_def)
  have "vlq_decode_loop d (5 * 0) 0 = (d\<lparr>d_pos := d_pos d + length (vlq v)\<rparr>, Some (0 + vlq_code v * 2 ^ (5 * 0)))"
    using c assms(2) by (intro vlq_decode_text) auto
  moreover have "(vlq_code v AND 1 = 0) = (v \<ge> 0)"
    by (simp add: vlq_code_def and_one_eq) presburger
  moreover have "shr32 (vlq_code v) 1 = \<bar>v\<bar>"
    by (auto simp: shr32_def vlq_code_def)
  ultimately show ?thesis by (simp add: base64_vlq_format_decode_def)
qed

section \<open>Decoding encoded segments\<close>

text \<open>
  The specification of the format: the text of a list of mappings, each relative to the
  values \<open>prev\<close> of the fields before it, as the generator writes it.
\<close>

definition advance :: "mapping \<Rightarrow> mapping \<Rightarrow> mapping" where
  "advance prev m =
     \<lparr>generated_line = generated_line m, generated_character = generated_character m,
      source_index = (if is_source_mapping m then source_index m else source_index prev),
      source_line = (if is_source_mapping m then source_line m else source_line prev),
      source_character = (if is_source_mapping m then source_character m else source_character prev),
      name_index = (if is_source_mapping m \<and> name_index m \<noteq> -1 then name_index m else name_index prev)\<rparr>"

definition seg_separator :: "bool \<Rightarrow> mapping \<Rightarrow> mapping \<Rightarrow> string" where
  "seg_separator first prev m =
     (if generated_line prev < generated_line m
      then replicate (nat (generated_line m - generated_line prev)) CHR '';''
      else if first then [] else '','')"

definition seg_source :: "mapping \<Rightarrow> mapping \<Rightarrow> string" where
  "seg_source prev m =
     (if is_source_mapping m then
        vlq (source_index m - source_index prev) @ vlq (source_line m - source_line prev)
        @ vlq (source_character m - source_character prev)
        @ (if name_index m \<noteq> -1 then vlq (name_index m - name_index prev) else [])
      else [])"

definition seg_text :: "mapping \<Rightarrow> mapping \<Rightarrow> string" where
  "seg_text prev m =
     vlq (generated_character m
       - (if generated_line prev < generated_line m then 0 else generated_character prev))
     @ seg_source prev m"

fun enc_mappings :: "bool \<Rightarrow> mapping \<Rightarrow> mapping list \<Rightarrow> string" where
  "enc_mappings first prev [] = []"
| "enc_mappings first prev (m # ms) =
     seg_separator first prev m @ seg_text prev m @ enc_mappings False (advance prev m) ms"

definition small :: "int \<Rightarrow> bool" where
  "small x \<longleftrightarrow> 0 \<le> x \<and> x < 2 ^ 30"

definition small_state :: "mapping \<Rightarrow> bool" where
  "small_state s \<longleftrightarrow>
     small (generated_line s) \<and> small (generated_character s) \<and> small (source_index s)
     \<and> small (source_line s) \<and> small (source_character s) \<and> small (name_index s)"

text \<open>A mapping is generated only, or has a source position, or also a name.\<close>

definition valid_mapping :: "mapping \<Rightarrow> bool" where
  "valid_mapping m \<longleftrightarrow>
     small (generated_line m) \<and> small (generated_character m)
     \<and> (if source_index m = -1
        then source_line m = -1 \<and> source_character m = -1 \<and> name_index m = -1
        else small (source_index m) \<and> small (source_line m) \<and> small (source_character m)
          \<and> (name_index m = -1 \<or> small (name_index m)))"

lemma small_diff: "small x \<Longrightarrow> small y \<Longrightarrow> \<bar>x - y\<bar> < 2 ^ 30"
  by (auto simp: small_def)

lemma small_wrap: "small x \<Longrightarrow> wrap32 x = x" and small_nonneg: "small x \<Longrightarrow> \<not> x < 0"
  by (auto simp: small_def is_i32_def intro: wrap32_id)

lemma small_state_advance: "small_state prev \<Longrightarrow> valid_mapping m \<Longrightarrow> small_state (advance prev m)"
  by (auto simp: small_state_def valid_mapping_def advance_def is_source_mapping_def split: if_splits)

definition seg_end :: "string \<Rightarrow> bool" where
  "seg_end r \<longleftrightarrow> r = [] \<or> hd r = CHR '','' \<or> hd r = CHR '';''"

definition decoder_at :: "mappings_decoder \<Rightarrow> mapping \<Rightarrow> string \<Rightarrow> bool" where
  "decoder_at d prev r \<longleftrightarrow>
     \<not> d_done d \<and> d_error d = None \<and> d_pos d \<le> length (d_mappings d)
     \<and> drop (d_pos d) (d_mappings d) = r \<and> decoder_state d = prev"

lemma seg_end_iff: "decoder_at d prev r \<Longrightarrow> is_source_mapping_segment_end d \<longleftrightarrow> seg_end r"
proof -
  assume at: "decoder_at d prev r"
  then have r: "r = drop (d_pos d) (d_mappings d)" by (simp add: decoder_at_def)
  show ?thesis
  proof (cases "d_pos d = length (d_mappings d)")
    case False
    then have "hd r = d_mappings d ! d_pos d" "r \<noteq> []"
      using at r by (auto simp: decoder_at_def hd_drop_conv_nth)
    then show ?thesis using False by (simp add: is_source_mapping_segment_end_def seg_end_def)
  qed (simp add: is_source_mapping_segment_end_def seg_end_def r)
qed

lemma vlq_not_end: "0 \<le> n \<Longrightarrow> \<not> seg_end (vlq_text n @ r)"
  by (subst vlq_text.simps) (auto simp: seg_end_def b64)

lemma vlq_code_nonneg [simp]: "0 \<le> vlq_code v"
  by (simp add: vlq_code_def)

lemma decode_vlq_at:
  assumes "decoder_at d prev (vlq v @ r)" "\<bar>v\<bar> < 2 ^ 30"
  obtains d' where "base64_vlq_format_decode d = (d', v)" "decoder_at d' prev r" "d_mappings d' = d_mappings d"
proof -
  have e: "drop (d_pos d) (d_mappings d) = vlq v @ r" using assms(1) by (simp add: decoder_at_def)
  then have "drop (d_pos d + length (vlq v)) (d_mappings d) = r"
    by (metis add.commute append_eq_conv_conj drop_drop)
  moreover have "d_pos d + length (vlq v) \<le> length (d_mappings d)"
    using arg_cong [OF e, of length] assms(1) unfolding decoder_at_def length_drop length_append
    by linarith
  ultimately have "decoder_at (d\<lparr>d_pos := d_pos d + length (vlq v)\<rparr>) prev r"
    using assms(1) by (simp add: decoder_at_def decoder_state_def capture_mapping_def)
  then show thesis using that vlq_roundtrip [OF assms(2) e] by simp
qed

lemma decoder_at_fields:
  assumes "decoder_at d prev r"
  shows "d_name_index d = name_index prev" "d_source_character d = source_character prev"
    "d_source_line d = source_line prev" "d_source_index d = source_index prev"
    "d_generated_character d = generated_character prev" "d_generated_line d = generated_line prev"
    "\<not> has_reported_error d"
  using assms by (auto simp: decoder_at_def decoder_state_def capture_mapping_def has_reported_error_def)

lemma decoder_at_update:
  assumes "decoder_at d prev r"
  shows "decoder_at (d\<lparr>d_name_index := x\<rparr>) (prev\<lparr>name_index := x\<rparr>) r"
    "decoder_at (d\<lparr>d_source_character := x\<rparr>) (prev\<lparr>source_character := x\<rparr>) r"
    "decoder_at (d\<lparr>d_source_line := x\<rparr>) (prev\<lparr>source_line := x\<rparr>) r"
    "decoder_at (d\<lparr>d_source_index := x\<rparr>) (prev\<lparr>source_index := x\<rparr>) r"
    "decoder_at (d\<lparr>d_generated_character := x\<rparr>) (prev\<lparr>generated_character := x\<rparr>) r"
  using assms by (auto simp: decoder_at_def decoder_state_def capture_mapping_def)

lemma capture_decoder_state:
  "capture_mapping True False d = (decoder_state d)\<lparr>name_index := -1\<rparr>"
  "capture_mapping False False d = (decoder_state d)
     \<lparr>source_index := -1, source_line := -1, source_character := -1, name_index := -1\<rparr>"
  by (simp_all add: capture_mapping_def decoder_state_def)

text \<open>One field: the decoder reads the difference, and the checks that follow it pass.\<close>

lemmas decode_field_simps = decoder_at_fields small_wrap small_nonneg seg_end_iff Let_def

lemma decode_name_at:
  assumes at: "decoder_at d prev (vlq (x - name_index prev) @ r)" and small: "small x" "small (name_index prev)"
    and r: "seg_end r"
  obtains d' where "decode_name d = (Some (prev\<lparr>name_index := x\<rparr>), d')"
    "decoder_at d' (prev\<lparr>name_index := x\<rparr>) r" "d_mappings d' = d_mappings d"
proof -
  obtain d1 where d1: "base64_vlq_format_decode d = (d1, x - name_index prev)" "decoder_at d1 prev r"
    "d_mappings d1 = d_mappings d" by (rule decode_vlq_at [OF at small_diff [OF small]])
  let ?d = "d1\<lparr>d_name_index := x\<rparr>"
  note u = decoder_at_update(1) [OF d1(2), of x]
  have "capture_mapping True True ?d = prev\<lparr>name_index := x\<rparr>"
    using u by (simp add: decoder_at_def decoder_state_def)
  then have "decode_name d = (Some (prev\<lparr>name_index := x\<rparr>), ?d)"
    using small r u by (simp add: decode_name_def d1(1) decoder_at_fields [OF d1(2)] decode_field_simps)
  with u d1(3) show thesis by (intro that [of ?d]) auto
qed

lemma decode_source_character_at:
  assumes at: "decoder_at d prev (vlq (x - source_character prev)
      @ (if y \<noteq> -1 then vlq (y - name_index prev) else []) @ r)"
    and small: "small x" "small (source_character prev)" "y = -1 \<or> small y" "small (name_index prev)"
    and r: "seg_end r"
  obtains d' where
    "decode_source_character d = (Some (prev\<lparr>source_character := x, name_index := y\<rparr>), d')"
    "decoder_at d' (prev\<lparr>source_character := x, name_index := if y \<noteq> -1 then y else name_index prev\<rparr>) r"
    "d_mappings d' = d_mappings d"
proof -
  let ?r = "(if y \<noteq> -1 then vlq (y - name_index prev) else []) @ r"
  obtain d1 where d1: "base64_vlq_format_decode d = (d1, x - source_character prev)" "decoder_at d1 prev ?r"
    "d_mappings d1 = d_mappings d" by (rule decode_vlq_at [OF at small_diff [OF small(1,2)]])
  let ?d = "d1\<lparr>d_source_character := x\<rparr>"
  note u = decoder_at_update(2) [OF d1(2), of x]
  have step: "decode_source_character d =
      (if \<not> seg_end ?r then decode_name ?d else (Some (capture_mapping True False ?d), ?d))"
    using small(1) u
    by (simp add: decode_source_character_def d1(1) decoder_at_fields [OF d1(2)] decode_field_simps)
  show thesis
  proof (cases "y = -1")
    case True
    have "capture_mapping True False ?d = prev\<lparr>source_character := x, name_index := -1\<rparr>"
      using u by (simp only: capture_decoder_state decoder_at_def)
    then show thesis using that [of ?d] step u d1(3) r True by simp
  next
    case False
    then have at': "decoder_at ?d (prev\<lparr>source_character := x\<rparr>)
        (vlq (y - name_index (prev\<lparr>source_character := x\<rparr>)) @ r)" using u by simp
    obtain d2 where d2: "decode_name ?d = (Some (prev\<lparr>source_character := x, name_index := y\<rparr>), d2)"
      "decoder_at d2 (prev\<lparr>source_character := x, name_index := y\<rparr>) r" "d_mappings d2 = d_mappings ?d"
      using small False r by (auto intro: decode_name_at [OF at'])
    then show thesis using that [of d2] step False d1(3) vlq_not_end [of "vlq_code (y - name_index prev)" r]
      by simp
  qed
qed

lemma decode_source_line_at:
  assumes at: "decoder_at d prev (vlq (w - source_line prev) @ vlq_text n @ r)"
    and small: "small w" "small (source_line prev)" "0 \<le> n"
  obtains d' where "decode_source_line d = decode_source_character d'"
    "decoder_at d' (prev\<lparr>source_line := w\<rparr>) (vlq_text n @ r)" "d_mappings d' = d_mappings d"
proof -
  obtain d1 where d1: "base64_vlq_format_decode d = (d1, w - source_line prev)"
    "decoder_at d1 prev (vlq_text n @ r)" "d_mappings d1 = d_mappings d"
    by (rule decode_vlq_at [OF at small_diff [OF small(1,2)]])
  let ?d = "d1\<lparr>d_source_line := w\<rparr>"
  note u = decoder_at_update(3) [OF d1(2), of w]
  have "decode_source_line d = decode_source_character ?d"
    using small u vlq_not_end [OF small(3)]
    by (simp add: decode_source_line_def d1(1) decoder_at_fields [OF d1(2)] decode_field_simps)
  with u d1(3) show thesis by (intro that [of ?d]) auto
qed

lemma decode_source_index_at:
  assumes at: "decoder_at d prev (vlq (w - source_index prev) @ vlq_text n @ r)"
    and small: "small w" "small (source_index prev)" "0 \<le> n"
  obtains d' where "decode_source_index d = decode_source_line d'"
    "decoder_at d' (prev\<lparr>source_index := w\<rparr>) (vlq_text n @ r)" "d_mappings d' = d_mappings d"
proof -
  obtain d1 where d1: "base64_vlq_format_decode d = (d1, w - source_index prev)"
    "decoder_at d1 prev (vlq_text n @ r)" "d_mappings d1 = d_mappings d"
    by (rule decode_vlq_at [OF at small_diff [OF small(1,2)]])
  let ?d = "d1\<lparr>d_source_index := w\<rparr>"
  note u = decoder_at_update(4) [OF d1(2), of w]
  have "decode_source_index d = decode_source_line ?d"
    using small u vlq_not_end [OF small(3)]
    by (simp add: decode_source_index_def d1(1) decoder_at_fields [OF d1(2)] decode_field_simps)
  with u d1(3) show thesis by (intro that [of ?d]) auto
qed


lemma decode_source_at:
  assumes at: "decoder_at d p (seg_source p m @ r)" and src: "is_source_mapping m"
    and small: "small_state p" and m: "valid_mapping m" and r: "seg_end r"
  obtains d' where
    "decode_source_index d = (Some (p\<lparr>source_index := source_index m, source_line := source_line m,
       source_character := source_character m, name_index := name_index m\<rparr>), d')"
    "decoder_at d' (p\<lparr>source_index := source_index m, source_line := source_line m,
       source_character := source_character m,
       name_index := if name_index m \<noteq> -1 then name_index m else name_index p\<rparr>) r"
    "d_mappings d' = d_mappings d"
proof -
  have sm: "small (source_index m)" "small (source_line m)" "small (source_character m)"
    "name_index m = -1 \<or> small (name_index m)"
    using m src by (auto simp: valid_mapping_def is_source_mapping_def split: if_splits)
  have sp: "small (source_index p)" "small (source_line p)" "small (source_character p)" "small (name_index p)"
    using small by (simp_all add: small_state_def)
  let ?n = "(if name_index m \<noteq> -1 then vlq (name_index m - name_index p) else []) @ r"
  have at1: "decoder_at d p (vlq (source_index m - source_index p)
      @ vlq (source_line m - source_line p) @ vlq (source_character m - source_character p) @ ?n)"
    using at src by (simp add: seg_source_def)
  let ?p2 = "p\<lparr>source_index := source_index m\<rparr>"
  obtain d2 where d2: "decode_source_index d = decode_source_line d2"
    "decoder_at d2 ?p2 (vlq (source_line m - source_line p) @ vlq (source_character m - source_character p) @ ?n)"
    "d_mappings d2 = d_mappings d"
    by (rule decode_source_index_at [OF at1 sm(1) sp(1) vlq_code_nonneg])
  let ?p3 = "?p2\<lparr>source_line := source_line m\<rparr>"
  have at2: "decoder_at d2 ?p2 (vlq (source_line m - source_line ?p2)
      @ vlq (source_character m - source_character p) @ ?n)" and s2: "small (source_line ?p2)"
    using d2(2) sp by (simp_all split del: if_split)
  obtain d3 where d3: "decode_source_line d2 = decode_source_character d3"
    "decoder_at d3 ?p3 (vlq (source_character m - source_character p) @ ?n)" "d_mappings d3 = d_mappings d2"
    by (rule decode_source_line_at [OF at2 sm(2) s2 vlq_code_nonneg])
  have at3: "decoder_at d3 ?p3 (vlq (source_character m - source_character ?p3)
      @ (if name_index m \<noteq> -1 then vlq (name_index m - name_index ?p3) else []) @ r)"
    and s3: "small (source_character ?p3)" "small (name_index ?p3)"
    using d3(2) sp by (cases "name_index m = -1"; simp)+
  obtain d4 where d4: "decode_source_character d3
      = (Some (?p3\<lparr>source_character := source_character m, name_index := name_index m\<rparr>), d4)"
    "decoder_at d4 (?p3\<lparr>source_character := source_character m,
       name_index := if name_index m \<noteq> -1 then name_index m else name_index ?p3\<rparr>) r"
    "d_mappings d4 = d_mappings d3"
    by (rule decode_source_character_at [OF at3 sm(3) s3(1) sm(4) s3(2) r])
  have "name_index ?p3 = name_index p" by simp
  with d2 d3 d4 show thesis by (intro that [of d4]) (simp_all only:)
qed

lemma decode_segment_at:
  assumes at: "decoder_at d prev (vlq (generated_character m - generated_character prev) @ seg_source prev m @ r)"
    and line: "generated_line prev = generated_line m"
    and small: "small_state prev" and m: "valid_mapping m" and r: "seg_end r"
  obtains d' where "decode_segment d = (Some m, d')" "decoder_at d' (advance prev m) r"
    "d_mappings d' = d_mappings d"
proof -
  let ?gc = "generated_character m"
  have sgc: "small ?gc" "small (generated_character prev)"
    using small m by (simp_all add: small_state_def valid_mapping_def)
  obtain d1 where d1: "base64_vlq_format_decode d = (d1, ?gc - generated_character prev)"
    "decoder_at d1 prev (seg_source prev m @ r)" "d_mappings d1 = d_mappings d"
    by (rule decode_vlq_at [OF at small_diff [OF sgc]])
  let ?d = "d1\<lparr>d_generated_character := ?gc\<rparr>" and ?p = "prev\<lparr>generated_character := ?gc\<rparr>"
  note u = decoder_at_update(5) [OF d1(2), of ?gc]
  have step: "decode_segment d =
      (if \<not> seg_end (seg_source prev m @ r) then decode_source_index ?d
       else (Some (capture_mapping False False ?d), ?d))"
    using sgc(1) u
    by (simp add: decode_segment_def d1(1) decoder_at_fields [OF d1(2)] decode_field_simps)
  show thesis
  proof (cases "is_source_mapping m")
    case False
    then have "source_index m = -1" "source_line m = -1" "source_character m = -1" "name_index m = -1"
      using m by (auto simp: valid_mapping_def is_source_mapping_def small_def split: if_splits)
    then have "?p\<lparr>source_index := -1, source_line := -1, source_character := -1, name_index := -1\<rparr> = m"
      using line by simp
    moreover have "capture_mapping False False ?d
        = ?p\<lparr>source_index := -1, source_line := -1, source_character := -1, name_index := -1\<rparr>"
      using u by (simp only: capture_decoder_state decoder_at_def)
    moreover have "advance prev m = ?p" using False line by (simp add: advance_def)
    ultimately show thesis
      using that [of ?d] step u d1(3) r False by (simp add: seg_source_def)
  next
    case True
    have "seg_source ?p m = seg_source prev m" by (simp add: seg_source_def)
    then have at': "decoder_at ?d ?p (seg_source ?p m @ r)" and small': "small_state ?p"
      using u small sgc by (simp_all only: small_state_def) simp
    have "\<not> seg_end (seg_source prev m @ r)"
      using True vlq_not_end [OF vlq_code_nonneg] by (simp add: seg_source_def)
    moreover obtain d2 where d2: "decode_source_index ?d = (Some (?p\<lparr>source_index := source_index m,
        source_line := source_line m, source_character := source_character m,
        name_index := name_index m\<rparr>), d2)"
      "decoder_at d2 (?p\<lparr>source_index := source_index m, source_line := source_line m,
         source_character := source_character m,
         name_index := if name_index m \<noteq> -1 then name_index m else name_index ?p\<rparr>) r"
      "d_mappings d2 = d_mappings ?d"
      by (rule decode_source_at [OF at' True small' m r])
    moreover have "?p\<lparr>source_index := source_index m, source_line := source_line m,
        source_character := source_character m, name_index := name_index m\<rparr> = m"
      using line by simp
    moreover have "?p\<lparr>source_index := source_index m, source_line := source_line m,
         source_character := source_character m,
         name_index := if name_index m \<noteq> -1 then name_index m else name_index ?p\<rparr> = advance prev m"
      using line True by (simp add: advance_def)
    ultimately show thesis using that [of d2] step d1(3) by simp
  qed
qed

section \<open>The decoder terminates on every input\<close>

lemma vlq_decode_loop_pos:
  "vlq_decode_loop d shift acc = (d', res) \<Longrightarrow>
   d_mappings d' = d_mappings d \<and> d_pos d \<le> d_pos d' \<and> (res = None \<longrightarrow> has_reported_error d')
   \<and> (res \<noteq> None \<longrightarrow> d_pos d < d_pos d')"
proof (induction d shift acc rule: vlq_decode_loop.induct)
  case (1 d shift acc)
  show ?case
  proof (cases "d_pos d \<ge> length (d_mappings d) \<or> base64_format_decode (d_mappings d ! d_pos d) = -1
      \<or> base64_format_decode (d_mappings d ! d_pos d) AND 32 = 0")
    case True
    then show ?thesis
      using 1(2) by (auto simp: vlq_decode_loop.simps [of d] Let_def set_error_def has_reported_error_def
          split: if_splits)
  next
    case False
    let ?d = "d\<lparr>d_pos := d_pos d + 1\<rparr>" and ?b = "base64_format_decode (d_mappings d ! d_pos d)"
    have step: "vlq_decode_loop ?d (shift + 5) (acc OR shl32 (?b AND 31) shift) = (d', res)"
      using 1(2) False by (simp add: vlq_decode_loop.simps [of d] Let_def)
    from False have "\<not> length (d_mappings d) \<le> d_pos d" "?b \<noteq> -1" "?b AND 32 \<noteq> 0" by auto
    from 1(1) [OF this(1) refl refl this(2) refl refl this(3) step]
    show ?thesis by (simp only: mappings_decoder.simps) auto
  qed
qed

lemma vlq_decode_pos:
  assumes "base64_vlq_format_decode d = (d', v)"
  shows "d_mappings d' = d_mappings d" "d_pos d \<le> d_pos d'" "has_reported_error d' \<or> d_pos d < d_pos d'"
  using assms vlq_decode_loop_pos [of d 0 0]
  by (auto simp: base64_vlq_format_decode_def split: prod.splits option.splits)

definition progress :: "mappings_decoder \<Rightarrow> mapping option \<times> mappings_decoder \<Rightarrow> bool" where
  "progress d r \<longleftrightarrow> d_mappings (snd r) = d_mappings d \<and> d_pos d \<le> d_pos (snd r)"

lemma progress_stop [simp]:
  "progress d (stop_iterating d') \<longleftrightarrow> d_mappings d' = d_mappings d \<and> d_pos d \<le> d_pos d'"
  "progress d (set_error_and_stop_iterating e d') \<longleftrightarrow> d_mappings d' = d_mappings d \<and> d_pos d \<le> d_pos d'"
  by (simp_all add: progress_def stop_iterating_def set_error_and_stop_iterating_def set_error_def)

lemma progress_trans: "progress d' r \<Longrightarrow> d_mappings d' = d_mappings d \<Longrightarrow> d_pos d \<le> d_pos d' \<Longrightarrow> progress d r"
  by (simp add: progress_def)

lemma progress_Some [simp]:
  "progress d (Some m, d') \<longleftrightarrow> d_mappings d' = d_mappings d \<and> d_pos d \<le> d_pos d'"
  by (simp add: progress_def)

lemma decode_name_progress: "progress d (decode_name d)"
proof (cases "base64_vlq_format_decode d")
  case (Pair d1 v)
  show ?thesis
    using vlq_decode_pos(1,2) [OF Pair]
    by (simp add: decode_name_def Pair Let_def)
qed

lemma decode_source_character_progress: "progress d (decode_source_character d)"
proof (cases "base64_vlq_format_decode d")
  case (Pair d1 v)
  show ?thesis
    using vlq_decode_pos(1,2) [OF Pair]
    by (simp add: decode_source_character_def Pair Let_def progress_trans [OF decode_name_progress])
qed

lemma decode_source_line_progress: "progress d (decode_source_line d)"
proof (cases "base64_vlq_format_decode d")
  case (Pair d1 v)
  show ?thesis
    using vlq_decode_pos(1,2) [OF Pair]
    by (simp add: decode_source_line_def Pair Let_def progress_trans [OF decode_source_character_progress])
qed

lemma decode_source_index_progress: "progress d (decode_source_index d)"
proof (cases "base64_vlq_format_decode d")
  case (Pair d1 v)
  show ?thesis
    using vlq_decode_pos(1,2) [OF Pair]
    by (simp add: decode_source_index_def Pair Let_def progress_trans [OF decode_source_line_progress])
qed

lemma decode_segment_progress:
  assumes "decode_segment d = (Some m, d')"
  shows "d_mappings d' = d_mappings d" "d_pos d < d_pos d'"
proof -
  obtain d1 v where v: "base64_vlq_format_decode d = (d1, v)" by force
  let ?d = "d1\<lparr>d_generated_character := wrap32 (d_generated_character d1 + v)\<rparr>"
  have "\<not> has_reported_error d1"
    using assms v by (cases "d_error d1")
      (simp_all add: decode_segment_def stop_iterating_def has_reported_error_def Let_def)
  then have d1: "d_mappings d1 = d_mappings d" "d_pos d < d_pos d1" using vlq_decode_pos [OF v] by auto
  have "progress ?d (Some m, d')"
    using assms v decode_source_index_progress [of ?d]
    by (auto simp: decode_segment_def stop_iterating_def set_error_and_stop_iterating_def Let_def
        split: if_splits)
  then show "d_mappings d' = d_mappings d" "d_pos d < d_pos d'"
    using d1 by (auto simp: progress_def)
qed

lemma next_mapping_progress:
  "next_mapping d = (Some m, d') \<Longrightarrow> d_mappings d' = d_mappings d \<and> d_pos d < d_pos d' \<and> d_pos d < length (d_mappings d)"
proof (induction d rule: next_mapping.induct)
  case (1 d)
  show ?case
  proof (cases "d_done d \<or> d_pos d \<ge> length (d_mappings d)")
    case True
    then show ?thesis using 1(3) by (simp add: next_mapping.simps [of d] stop_iterating_def)
  next
    case False
    then show ?thesis
      using 1 decode_segment_progress [of d m d']
      by (simp add: next_mapping.simps [of d] Let_def split: if_splits)
  qed
qed

text \<open>\<open>for mapping in decoder\<close>: call \<open>next\<close> until it returns nothing.\<close>

function collect_mappings :: "mappings_decoder \<Rightarrow> mapping list \<times> mappings_decoder" where
  "collect_mappings d =
     (case next_mapping d of
        (None, d) \<Rightarrow> ([], d)
      | (Some m, d) \<Rightarrow> let (ms, d) = collect_mappings d in (m # ms, d))"
  by pat_completeness auto
termination
proof (relation "measure (\<lambda>d. length (d_mappings d) - d_pos d)", goal_cases)
  case (2 d r d' m)
  then have "next_mapping d = (Some m, d')" by simp
  from next_mapping_progress [OF this] show ?case by auto
qed simp

declare collect_mappings.simps [simp del]

section \<open>The decoder inverts the encoding\<close>

lemma next_mapping_lines:
  "decoder_at d p (replicate n CHR '';'' @ r) \<Longrightarrow> 0 < n \<Longrightarrow> 0 \<le> generated_line p \<Longrightarrow> generated_line p + int n < 2 ^ 31 \<Longrightarrow>
   \<exists>d'. next_mapping d = next_mapping d' \<and> d_mappings d' = d_mappings d
     \<and> decoder_at d' (p\<lparr>generated_line := generated_line p + int n, generated_character := 0\<rparr>) r"
proof (induction n arbitrary: d p)
  case (Suc n)
  let ?d = "d\<lparr>d_generated_line := d_generated_line d + 1, d_generated_character := 0, d_pos := d_pos d + 1\<rparr>"
  let ?p = "p\<lparr>generated_line := generated_line p + 1, generated_character := 0\<rparr>"
  have e: "drop (d_pos d) (d_mappings d) = CHR '';'' # replicate n CHR '';'' @ r"
    using Suc.prems(1) by (simp add: decoder_at_def)
  then have l: "d_pos d < length (d_mappings d)" by (metis drop_all list.distinct(1) not_le)
  then have "d_mappings d ! d_pos d = CHR '';''" "drop (d_pos d + 1) (d_mappings d) = replicate n CHR '';'' @ r"
    using e by (metis hd_drop_conv_nth list.sel(1), metis Suc_eq_plus1 drop_Suc drop_tl list.sel(3) e)
  moreover have w: "wrap32 (d_generated_line d + 1) = d_generated_line d + 1"
    using Suc.prems by (intro wrap32_id) (simp add: is_i32_def decoder_at_fields)
  ultimately have step: "next_mapping d = next_mapping ?d"
    and at: "decoder_at ?d ?p (replicate n CHR '';'' @ r)"
    using Suc.prems(1) l
    by (auto simp: next_mapping.simps [of d] decoder_at_def decoder_state_def capture_mapping_def)
  show ?case
  proof (cases "n = 0")
    case True
    then show ?thesis using step at by (intro exI [of _ ?d]) simp
  next
    case False
    then have "\<exists>d'. next_mapping ?d = next_mapping d' \<and> d_mappings d' = d_mappings ?d
      \<and> decoder_at d' (?p\<lparr>generated_line := generated_line ?p + int n, generated_character := 0\<rparr>) r"
      using Suc.prems by (intro Suc.IH [OF at]) auto
    then show ?thesis using step by (simp add: add.assoc)
  qed
qed simp


lemma decoder_at_line:
  "decoder_at d p r \<Longrightarrow> r \<noteq> [] \<Longrightarrow> hd r \<noteq> CHR '','' \<Longrightarrow> hd r \<noteq> CHR '';'' \<Longrightarrow> next_mapping d = decode_segment d"
proof -
  assume at: "decoder_at d p r" and r: "r \<noteq> []" "hd r \<noteq> CHR '',''" "hd r \<noteq> CHR '';''"
  then have "d_pos d < length (d_mappings d)" by (auto simp: decoder_at_def)
  moreover from this have "hd r = d_mappings d ! d_pos d"
    using at by (auto simp: decoder_at_def hd_drop_conv_nth)
  ultimately show ?thesis
    using at r(2,3) by (simp add: next_mapping.simps [of d] decoder_at_def Let_def)
qed

lemma next_mapping_comma:
  assumes "decoder_at d p (CHR '','' # r)"
  shows "next_mapping d = next_mapping (d\<lparr>d_pos := d_pos d + 1\<rparr>)" "decoder_at (d\<lparr>d_pos := d_pos d + 1\<rparr>) p r"
proof -
  have e: "drop (d_pos d) (d_mappings d) = CHR '','' # r" using assms by (simp add: decoder_at_def)
  then have l: "d_pos d < length (d_mappings d)" by (metis drop_all list.distinct(1) not_le)
  moreover have "d_mappings d ! d_pos d = CHR '',''" using e l by (metis hd_drop_conv_nth list.sel(1))
  moreover have "drop (d_pos d + 1) (d_mappings d) = r" using e by (metis Suc_eq_plus1 drop_Suc drop_tl list.sel(3))
  ultimately show "next_mapping d = next_mapping (d\<lparr>d_pos := d_pos d + 1\<rparr>)"
    "decoder_at (d\<lparr>d_pos := d_pos d + 1\<rparr>) p r"
    using assms by (simp_all add: next_mapping.simps [of d] decoder_at_def decoder_state_def capture_mapping_def)
qed

lemma next_mapping_encoded:
  assumes at: "decoder_at d p (seg_separator first p m @ seg_text p m @ r)"
    and line: "generated_line p \<le> generated_line m"
    and small: "small_state p" and m: "valid_mapping m" and r: "seg_end r"
  obtains d' where "next_mapping d = (Some m, d')" "decoder_at d' (advance p m) r" "d_mappings d' = d_mappings d"
proof -
  let ?p = "if generated_line p < generated_line m
    then p\<lparr>generated_line := generated_line m, generated_character := 0\<rparr> else p"
  have src: "seg_source ?p m = seg_source p m" by (simp add: seg_source_def)
  have tx: "seg_text p m = vlq (generated_character m - generated_character ?p) @ seg_source ?p m"
    by (simp add: seg_text_def src)
  obtain d1 where d1: "next_mapping d = next_mapping d1" "decoder_at d1 ?p (seg_text p m @ r)"
    "d_mappings d1 = d_mappings d"
  proof (cases "generated_line p < generated_line m")
    case True
    have "small (generated_line p)" "small (generated_line m)"
      using small m by (simp_all add: small_state_def valid_mapping_def)
    then show thesis
      using True at next_mapping_lines [of d p "nat (generated_line m - generated_line p)" "seg_text p m @ r"] that
      by (auto simp: seg_separator_def small_def)
  next
    case False
    then show thesis
      using at next_mapping_comma [of d p "seg_text p m @ r"] that
      by (cases first) (auto simp: seg_separator_def)
  qed
  have nonend: "\<not> seg_end (seg_text p m @ r)"
    using vlq_not_end [OF vlq_code_nonneg] by (simp add: seg_text_def)
  then have seg: "next_mapping d1 = decode_segment d1"
    unfolding seg_end_def de_Morgan_disj by (elim conjE) (rule decoder_at_line [OF d1(2)])
  have small': "small_state ?p" "generated_line ?p = generated_line m"
    using small m line by (auto simp: small_state_def valid_mapping_def small_def)
  have adv: "advance ?p m = advance p m" by (simp add: advance_def)
  obtain d2 where "decode_segment d1 = (Some m, d2)" "decoder_at d2 (advance ?p m) r" "d_mappings d2 = d_mappings d1"
    by (rule decode_segment_at [of d1 ?p m r])
      (use d1(2) small' m r in \<open>simp_all only: tx append_assoc\<close>)
  then show thesis using that [of d2] d1 seg adv by simp
qed

lemma enc_mappings_end: "seg_end (enc_mappings False p ms)"
proof (cases ms)
  case (Cons m ms')
  then show ?thesis
    by (cases "nat (generated_line m - generated_line p)")
      (auto simp: seg_end_def seg_separator_def)
qed (simp add: seg_end_def)

fun lines_ordered :: "int \<Rightarrow> mapping list \<Rightarrow> bool" where
  "lines_ordered l [] = True"
| "lines_ordered l (m # ms) = (l \<le> generated_line m \<and> lines_ordered (generated_line m) ms)"

lemma collect_encoded:
  "decoder_at d p (enc_mappings first p ms) \<Longrightarrow> small_state p \<Longrightarrow> list_all valid_mapping ms \<Longrightarrow>
   lines_ordered (generated_line p) ms \<Longrightarrow>
   fst (collect_mappings d) = ms \<and> d_error (snd (collect_mappings d)) = None"
proof (induction ms arbitrary: d p first)
  case Nil
  then have "d_pos d \<ge> length (d_mappings d)" by (simp add: decoder_at_def)
  then show ?case
    using Nil by (simp add: collect_mappings.simps [of d] next_mapping.simps [of d] stop_iterating_def decoder_at_def)
next
  case (Cons m ms)
  have at: "decoder_at d p (seg_separator first p m @ seg_text p m @ enc_mappings False (advance p m) ms)"
    and l: "generated_line p \<le> generated_line m" and m: "valid_mapping m"
    using Cons.prems by simp_all
  obtain d' where d': "next_mapping d = (Some m, d')" "decoder_at d' (advance p m) (enc_mappings False (advance p m) ms)"
    by (rule next_mapping_encoded [OF at l Cons.prems(2) m enc_mappings_end])
  have "fst (collect_mappings d') = ms \<and> d_error (snd (collect_mappings d')) = None"
    using Cons.prems m by (intro Cons.IH [OF d'(2)] small_state_advance) (auto simp: advance_def)
  then show ?case by (simp add: collect_mappings.simps [of d] d'(1) case_prod_beta Let_def)
qed

section \<open>The generator writes the encoding\<close>

definition last_state :: "generator \<Rightarrow> mapping" where
  "last_state g =
     \<lparr>generated_line = last_generated_line g, generated_character = last_generated_character g,
      source_index = last_source_index g, source_line = last_source_line g,
      source_character = last_source_character g, name_index = last_name_index g\<rparr>"

definition pending_mapping :: "generator \<Rightarrow> mapping" where
  "pending_mapping g =
     \<lparr>generated_line = pending_generated_line g, generated_character = pending_generated_character g,
      source_index = (if has_pending_source g then pending_source_index g else -1),
      source_line = (if has_pending_source g then pending_source_line g else -1),
      source_character = (if has_pending_source g then pending_source_character g else -1),
      name_index = (if has_pending_source g \<and> has_pending_name g then pending_name_index g else -1)\<rparr>"

lemma append_lines_eq:
  "last_generated_line g \<le> pending_generated_line g \<Longrightarrow>
   append_lines g = g\<lparr>mappings := mappings g
       @ replicate (nat (pending_generated_line g - last_generated_line g)) CHR '';'',
     last_generated_line := pending_generated_line g\<rparr>"
proof (induction g rule: append_lines.induct)
  case (1 g)
  show ?case
  proof (cases "last_generated_line g < pending_generated_line g")
    case True
    then have "nat (pending_generated_line g - last_generated_line g)
        = Suc (nat (pending_generated_line g - (last_generated_line g + 1)))" by simp
    then show ?thesis
      using 1 True by (simp add: append_lines.simps [of g] append_mapping_char_code_def)
  next
    case False
    then show ?thesis using 1(2) by (simp add: append_lines.simps [of g])
  qed
qed

lemma commit_source_text:
  assumes "small_state (last_state g)" "valid_mapping (pending_mapping g)"
    and "has_pending_source g \<Longrightarrow> is_source_mapping (pending_mapping g)"
    and "has_pending_source g \<Longrightarrow> has_pending_name g \<Longrightarrow> pending_name_index g \<noteq> -1"
  shows "commit_pending_source g =
    Some (g\<lparr>mappings := mappings g @ seg_source (last_state g) (pending_mapping g),
      last_source_index := source_index (advance (last_state g) (pending_mapping g)),
      last_source_line := source_line (advance (last_state g) (pending_mapping g)),
      last_source_character := source_character (advance (last_state g) (pending_mapping g)),
      last_name_index := name_index (advance (last_state g) (pending_mapping g))\<rparr>)"
proof (cases "has_pending_source g")
  case False
  then show ?thesis
    by (simp add: commit_pending_source_def seg_source_def advance_def pending_mapping_def last_state_def
        is_source_mapping_def)
next
  case True
  have "small (pending_source_index g)" "small (pending_source_line g)" "small (pending_source_character g)"
    "has_pending_name g \<Longrightarrow> small (pending_name_index g)"
    using assms True by (auto simp: valid_mapping_def pending_mapping_def is_source_mapping_def split: if_splits)
  moreover have "small (last_source_index g)" "small (last_source_line g)" "small (last_source_character g)"
    "small (last_name_index g)"
    using assms(1) by (simp_all add: small_state_def last_state_def)
  ultimately have d: "\<bar>pending_source_index g - last_source_index g\<bar> < 2 ^ 30"
    "\<bar>pending_source_line g - last_source_line g\<bar> < 2 ^ 30"
    "\<bar>pending_source_character g - last_source_character g\<bar> < 2 ^ 30"
    "has_pending_name g \<Longrightarrow> \<bar>pending_name_index g - last_name_index g\<bar> < 2 ^ 30"
    by (simp_all only: small_diff)
  have w: "wrap32 v = v" if "\<bar>v\<bar> < 2 ^ 30" for v
    using that by (intro wrap32_id) (auto simp: is_i32_def)
  show ?thesis
    using True assms(3,4) d
    by (cases "has_pending_name g")
      (simp_all add: commit_pending_source_def w append_vlq_text seg_source_def advance_def pending_mapping_def
        last_state_def Let_def)
qed

lemma commit_line_text:
  assumes "last_generated_line g \<le> pending_generated_line g"
  obtains g1 where "commit_generated_line g = Some g1"
    "mappings g1 = mappings g @ seg_separator (\<not> has_last g) (last_state g) (pending_mapping g)"
    "last_state g1 = (last_state g)\<lparr>generated_line := pending_generated_line g, generated_character :=
       if last_generated_line g < pending_generated_line g then 0 else last_generated_character g\<rparr>"
    "pending_mapping g1 = pending_mapping g" "has_pending_source g1 = has_pending_source g"
    "has_pending_name g1 = has_pending_name g" "pending_name_index g1 = pending_name_index g"
    "source_map_sources g1 = source_map_sources g" "names g1 = names g"
proof (cases "last_generated_line g < pending_generated_line g")
  case True
  then show thesis
    by (intro that [of "(append_lines g)\<lparr>last_generated_character := 0\<rparr>"])
      (simp_all add: commit_generated_line_def seg_separator_def append_lines_eq pending_mapping_def last_state_def)
next
  case False
  then have "last_generated_line g = pending_generated_line g" using assms by simp
  then show thesis
    by (intro that [of "if has_last g then append_mapping_char_code CHR '','' g else g"])
      (simp_all add: commit_generated_line_def seg_separator_def append_mapping_char_code_def
        pending_mapping_def last_state_def)
qed

lemma commit_text:
  assumes "should_commit_mapping g" "last_generated_line g \<le> pending_generated_line g"
    and "small_state (last_state g)" "valid_mapping (pending_mapping g)"
    and "has_pending_source g \<Longrightarrow> is_source_mapping (pending_mapping g)"
    and "has_pending_source g \<Longrightarrow> has_pending_name g \<Longrightarrow> pending_name_index g \<noteq> -1"
  obtains g' where "commit_pending_mapping g = Some g'"
    "mappings g' = mappings g @ seg_separator (\<not> has_last g) (last_state g) (pending_mapping g)
       @ seg_text (last_state g) (pending_mapping g)"
    "last_state g' = advance (last_state g) (pending_mapping g)" "has_last g'"
    "source_map_sources g' = source_map_sources g" "names g' = names g"
proof -
  let ?p = "pending_mapping g" and ?l = "last_state g" and ?gc = "pending_generated_character g"
  let ?c = "if last_generated_line g < pending_generated_line g then 0 else last_generated_character g"
  obtain g1 where g1: "commit_generated_line g = Some g1"
    "mappings g1 = mappings g @ seg_separator (\<not> has_last g) ?l ?p"
    "last_state g1 = ?l\<lparr>generated_line := pending_generated_line g, generated_character := ?c\<rparr>"
    "pending_mapping g1 = ?p" "has_pending_source g1 = has_pending_source g"
    "has_pending_name g1 = has_pending_name g" "pending_name_index g1 = pending_name_index g"
    "source_map_sources g1 = source_map_sources g" "names g1 = names g"
    by (rule commit_line_text [OF assms(2)])
  have gc: "pending_generated_character g1 = ?gc" "last_generated_character g1 = ?c"
    using arg_cong [OF g1(4), of generated_character] arg_cong [OF g1(3), of generated_character]
    by (simp_all add: pending_mapping_def last_state_def)
  have sm: "small ?gc" "small ?c" "small (pending_generated_line g)"
    using assms(3,4) by (auto simp: small_state_def last_state_def valid_mapping_def pending_mapping_def small_def)
  have d: "\<bar>?gc - ?c\<bar> < 2 ^ 30" by (rule small_diff [OF sm(1,2)])
  then have w: "wrap32 (?gc - ?c) = ?gc - ?c"
    by (intro wrap32_id) (auto simp: is_i32_def split: if_splits)
  define g2 where "g2 = g1\<lparr>mappings := mappings g1 @ vlq (?gc - ?c), last_generated_character := ?gc\<rparr>"
  have "last_state g2 = (last_state g1)\<lparr>generated_character := ?gc\<rparr>" by (simp add: g2_def last_state_def)
  then have l2: "last_state g2 = ?l\<lparr>generated_line := pending_generated_line g, generated_character := ?gc\<rparr>"
    using g1(3) by simp
  have "pending_mapping g2 = pending_mapping g1" by (simp add: g2_def pending_mapping_def)
  then have p2: "pending_mapping g2 = ?p" using g1(4) by simp
  have src: "seg_source (last_state g2) ?p = seg_source ?l ?p" by (simp add: l2 seg_source_def)
  have "small_state (last_state g2)" using assms(3) sm by (simp add: l2 small_state_def)
  then obtain g3 where g3: "commit_pending_source g2 = Some g3" "mappings g3 = mappings g2 @ seg_source ?l ?p"
    "last_state g3 = advance ?l ?p" "source_map_sources g3 = source_map_sources g2" "names g3 = names g2"
    using commit_source_text [of g2] assms(4-6) g1(5-7) l2
    unfolding p2 src by (auto simp: g2_def last_state_def advance_def pending_mapping_def)
  have "append_base64_vlq (wrap32 (pending_generated_character g1 - last_generated_character g1)) g1
      = Some (g1\<lparr>mappings := mappings g1 @ vlq (?gc - ?c)\<rparr>)"
    unfolding gc w by (rule append_vlq_text [OF d])
  then have "commit_pending_mapping g = Some (g3\<lparr>has_last := True\<rparr>)"
    using assms(1) g1(1) g3(1) gc(1) by (simp add: commit_pending_mapping_def g2_def Let_def)
  then show thesis
    using that [of "g3\<lparr>has_last := True\<rparr>"] g1 g3
    by (auto simp: g2_def seg_text_def last_state_def pending_mapping_def)
qed

section \<open>Runs of the generator\<close>

datatype mapping_call =
    GeneratedCall int int
  | SourceCall int int int int int
  | NamedCall int int int int int int

fun add_call :: "mapping_call \<Rightarrow> generator \<Rightarrow> (generator \<times> (string + unit)) option" where
  "add_call (GeneratedCall l c) g = add_generated_mapping l c g"
| "add_call (SourceCall l c si sl sc) g = add_source_mapping l c si sl sc g"
| "add_call (NamedCall l c si sl sc ni) g = add_named_source_mapping l c si sl sc ni g"

fun call_mapping :: "mapping_call \<Rightarrow> mapping" where
  "call_mapping (GeneratedCall l c) =
     \<lparr>generated_line = l, generated_character = c, source_index = -1, source_line = -1,
      source_character = -1, name_index = -1\<rparr>"
| "call_mapping (SourceCall l c si sl sc) =
     \<lparr>generated_line = l, generated_character = c, source_index = si, source_line = sl,
      source_character = sc, name_index = -1\<rparr>"
| "call_mapping (NamedCall l c si sl sc ni) =
     \<lparr>generated_line = l, generated_character = c, source_index = si, source_line = sl,
      source_character = sc, name_index = ni\<rparr>"

text \<open>A caller that makes all calls and keeps their results.\<close>

fun run_calls :: "mapping_call list \<Rightarrow> generator \<Rightarrow> (generator \<times> (string + unit) list) option" where
  "run_calls [] g = Some (g, [])"
| "run_calls (c # cs) g =
     (case add_call c g of
        None \<Rightarrow> None
      | Some (g, r) \<Rightarrow> map_option (\<lambda>(g, rs). (g, r # rs)) (run_calls cs g))"

text \<open>A generator to which sources and names have been added.\<close>

definition start_generator ::
    "lower_case \<Rightarrow> string \<Rightarrow> string \<Rightarrow> string \<Rightarrow> compare_paths_options \<Rightarrow> string list \<Rightarrow> string list \<Rightarrow> generator" where
  "start_generator lower f root dir opts srcs nms =
     fold (\<lambda>n g. fst (add_name n g)) nms
       (fold (\<lambda>s g. fst (add_source lower s g)) srcs (new_generator f root dir opts))"

definition unstarted :: "generator \<Rightarrow> bool" where
  "unstarted g \<longleftrightarrow>
     mappings g = [] \<and> \<not> has_last g \<and> \<not> has_pending g \<and> pending_generated_line g = 0
     \<and> last_state g = \<lparr>generated_line = 0, generated_character = 0, source_index = 0, source_line = 0,
         source_character = 0, name_index = 0\<rparr>"

lemma unstarted_start: "unstarted (start_generator lower f root dir opts srcs nms)"
proof -
  have "unstarted (fold (\<lambda>s g. fst (add_source lower s g)) srcs g)" if "unstarted g" for g
    using that by (induction srcs arbitrary: g)
      (auto simp: unstarted_def add_source_def Let_def last_state_def split: option.splits)
  moreover have "unstarted (fold (\<lambda>n g. fst (add_name n g)) nms g)" if "unstarted g" for g
    using that by (induction nms arbitrary: g)
      (auto simp: unstarted_def add_name_def Let_def last_state_def split: option.splits)
  moreover have "unstarted (new_generator f root dir opts)"
    by (simp add: unstarted_def new_generator_def last_state_def)
  ultimately show ?thesis by (simp add: start_generator_def)
qed

subsection \<open>No call panics\<close>

lemma append_vlq_loop_total:
  "\<exists>c. append_base64_vlq_loop v g = Some (g\<lparr>mappings := c\<rparr>)"
proof (induction v g rule: append_base64_vlq_loop.induct)
  case (1 v g)
  have r: "0 \<le> v mod 32" "v mod 32 < 32" by simp_all
  have e: "base64_format_encode (v mod 32) = Some (b64 (v mod 32))"
    "base64_format_encode (v mod 32 + 32) = Some (b64 (v mod 32 + 32))"
    using b64(1) [of "v mod 32"] b64(1) [of "v mod 32 + 32"] r by simp_all
  show ?case
  proof (cases "shr32 v 5 > 0")
    case True
    then show ?thesis
      using 1 [OF refl refl refl, of "b64 (v mod 32 + 32)" "append_mapping_char_code (b64 (v mod 32 + 32)) g"]
        e(2) or_32 [OF r]
      by (auto simp: append_base64_vlq_loop.simps [of v] and_31 append_mapping_char_code_def Let_def)
  next
    case False
    then show ?thesis
      using e(1) by (auto simp: append_base64_vlq_loop.simps [of v] and_31 append_mapping_char_code_def Let_def)
  qed
qed

lemma append_vlq_total: obtains c where "append_base64_vlq v g = Some (g\<lparr>mappings := c\<rparr>)"
  unfolding append_base64_vlq_def using append_vlq_loop_total by blast

lemma commit_source_total:
  obtains g' where "commit_pending_source g = Some g'"
    "last_generated_line g' = last_generated_line g" "pending_generated_line g' = pending_generated_line g"
proof (cases "has_pending_source g")
  case False
  then show thesis using that by (auto simp: commit_pending_source_def)
next
  case True
  obtain c1 where c1: "append_base64_vlq (wrap32 (pending_source_index g - last_source_index g)) g = Some (g\<lparr>mappings := c1\<rparr>)"
    by (rule append_vlq_total)
  let ?g1 = "g\<lparr>mappings := c1, last_source_index := pending_source_index g\<rparr>"
  obtain c2 where c2: "append_base64_vlq (wrap32 (pending_source_line g - last_source_line g)) ?g1 = Some (?g1\<lparr>mappings := c2\<rparr>)"
    by (rule append_vlq_total)
  let ?g2 = "?g1\<lparr>mappings := c2, last_source_line := pending_source_line g\<rparr>"
  obtain c3 where c3: "append_base64_vlq (wrap32 (pending_source_character g - last_source_character g)) ?g2 = Some (?g2\<lparr>mappings := c3\<rparr>)"
    by (rule append_vlq_total)
  let ?g3 = "?g2\<lparr>mappings := c3, last_source_character := pending_source_character g\<rparr>"
  obtain c4 where c4: "append_base64_vlq (wrap32 (pending_name_index g - last_name_index g)) ?g3 = Some (?g3\<lparr>mappings := c4\<rparr>)"
    by (rule append_vlq_total)
  show thesis
    using True c1 c2 c3 c4 that by (cases "has_pending_name g") (simp_all add: commit_pending_source_def Let_def)
qed

lemma commit_total:
  assumes "last_generated_line g \<le> pending_generated_line g"
  obtains g' where "commit_pending_mapping g = Some g'" "last_generated_line g' \<le> pending_generated_line g"
    "pending_generated_line g' = pending_generated_line g"
proof (cases "should_commit_mapping g")
  case False
  then show thesis by (intro that [of g]) (use assms in \<open>simp_all add: commit_pending_mapping_def\<close>)
next
  case True
  have "\<exists>g1. commit_generated_line g = Some g1 \<and> last_generated_line g1 = pending_generated_line g
      \<and> pending_generated_line g1 = pending_generated_line g"
    using assms by (simp add: commit_generated_line_def append_lines_eq append_mapping_char_code_def)
  then obtain g1 where g1: "commit_generated_line g = Some g1" "last_generated_line g1 = pending_generated_line g"
    "pending_generated_line g1 = pending_generated_line g" by blast
  obtain c where c: "append_base64_vlq (wrap32 (pending_generated_character g1 - last_generated_character g1)) g1
      = Some (g1\<lparr>mappings := c\<rparr>)" by (rule append_vlq_total)
  let ?g2 = "g1\<lparr>mappings := c, last_generated_character := pending_generated_character g1\<rparr>"
  obtain g3 where "commit_pending_source ?g2 = Some g3" "last_generated_line g3 = last_generated_line ?g2"
    "pending_generated_line g3 = pending_generated_line ?g2" by (rule commit_source_total)
  then show thesis
    using True g1 c that [of "g3\<lparr>has_last := True\<rparr>"] by (simp add: commit_pending_mapping_def Let_def)
qed

lemma add_mapping_total:
  assumes "last_generated_line g \<le> pending_generated_line g" "pending_generated_line g \<le> l"
  obtains g' where "add_mapping l c si sl sc ni g = Some g'" "last_generated_line g' \<le> pending_generated_line g'"
proof -
  obtain g' where "commit_pending_mapping g = Some g'" "last_generated_line g' \<le> pending_generated_line g"
    "pending_generated_line g' = pending_generated_line g" by (rule commit_total [OF assms(1)])
  then have "\<exists>g'. add_mapping l c si sl sc ni g = Some g' \<and> last_generated_line g' \<le> pending_generated_line g'"
    using assms by (simp add: add_mapping_def Let_def)
  then show thesis using that by blast
qed

lemma add_call_total:
  assumes "last_generated_line g \<le> pending_generated_line g"
  shows "\<exists>g' r. add_call c g = Some (g', r) \<and> last_generated_line g' \<le> pending_generated_line g'"
proof -
  have add: "\<exists>g'. add_mapping l c si sl sc ni g = Some g' \<and> last_generated_line g' \<le> pending_generated_line g'"
    if "\<not> l < pending_generated_line g" for l c si sl sc ni
    using add_mapping_total [OF assms, of l] that by (metis not_le)
  show ?thesis
  proof (cases c)
    case (GeneratedCall l c)
    then show ?thesis using assms add [of l c "-1" "-1" "-1" "-1"] by (auto simp: add_generated_mapping_def)
  next
    case (SourceCall l c si sl sc)
    then show ?thesis using assms add [of l c si sl sc "-1"]
      by (auto simp: add_source_mapping_def validate_source_mapping_args_def)
  next
    case (NamedCall l c si sl sc ni)
    then show ?thesis using assms add [of l c si sl sc ni]
      by (auto simp: add_named_source_mapping_def validate_source_mapping_args_def)
  qed
qed



subsection \<open>Decoding what was generated\<close>

abbreviation zero_state :: mapping where
  "zero_state \<equiv> \<lparr>generated_line = 0, generated_character = 0, source_index = 0, source_line = 0,
     source_character = 0, name_index = 0\<rparr>"

definition gen_pos :: "mapping \<Rightarrow> int \<times> int" where
  "gen_pos m = (generated_line m, generated_character m)"

definition gen_inv :: "generator \<Rightarrow> mapping list \<Rightarrow> bool" where
  "gen_inv g ms \<longleftrightarrow>
     mappings g = enc_mappings True zero_state ms \<and> last_state g = foldl advance zero_state ms
     \<and> has_last g = (ms \<noteq> []) \<and> list_all valid_mapping ms \<and> lines_ordered 0 ms
     \<and> small_state (foldl advance zero_state ms)"

definition pending_ok :: "generator \<Rightarrow> mapping \<Rightarrow> bool" where
  "pending_ok g m \<longleftrightarrow>
     has_pending g \<and> pending_mapping g = m \<and> valid_mapping m
     \<and> (has_pending_source g \<longrightarrow> is_source_mapping m)
     \<and> (has_pending_source g \<longrightarrow> has_pending_name g \<longrightarrow> pending_name_index g \<noteq> -1)
     \<and> last_generated_line g \<le> generated_line m
     \<and> (has_last g \<longrightarrow> gen_pos (last_state g) \<noteq> gen_pos m)"

lemma enc_mappings_snoc:
  "enc_mappings first p (ms @ [m]) = enc_mappings first p ms
     @ seg_separator (first \<and> ms = []) (foldl advance p ms) m @ seg_text (foldl advance p ms) m"
proof (induction ms arbitrary: first p)
  case (Cons a ms)
  then show ?case by (cases ms) auto
qed simp

lemma lines_ordered_snoc:
  "lines_ordered (generated_line p) (ms @ [m])
   \<longleftrightarrow> lines_ordered (generated_line p) ms \<and> generated_line (foldl advance p ms) \<le> generated_line m"
proof (induction ms arbitrary: p)
  case (Cons a ms)
  have "generated_line (advance p a) = generated_line a" by (simp add: advance_def)
  then show ?case using Cons [of "advance p a"] by simp
qed simp

lemma commit_gen_inv:
  assumes inv: "gen_inv g ms" and pend: "pending_ok g m"
  obtains g' where "commit_pending_mapping g = Some g'" "gen_inv g' (ms @ [m])"
    "has_last g'" "gen_pos (last_state g') = gen_pos m"
    "source_map_sources g' = source_map_sources g" "names g' = names g"
proof -
  have m: "m = pending_mapping g" using pend by (simp add: pending_ok_def)
  have should: "should_commit_mapping g"
    using pend by (auto simp: pending_ok_def should_commit_mapping_def gen_pos_def last_state_def pending_mapping_def)
  have le: "last_generated_line g \<le> pending_generated_line g"
    using pend by (auto simp: pending_ok_def pending_mapping_def)
  have small: "small_state (last_state g)" using inv by (simp add: gen_inv_def)
  have v: "valid_mapping (pending_mapping g)" "has_pending_source g \<Longrightarrow> is_source_mapping (pending_mapping g)"
    "has_pending_source g \<Longrightarrow> has_pending_name g \<Longrightarrow> pending_name_index g \<noteq> -1"
    using pend by (auto simp: pending_ok_def)
  obtain g' where g': "commit_pending_mapping g = Some g'"
    "mappings g' = mappings g @ seg_separator (\<not> has_last g) (last_state g) m @ seg_text (last_state g) m"
    "last_state g' = advance (last_state g) m" "has_last g'"
    "source_map_sources g' = source_map_sources g" "names g' = names g"
    unfolding m by (rule commit_text [OF should le small v])
  have "generated_line (last_state g) \<le> generated_line m"
    using pend by (simp add: pending_ok_def last_state_def)
  then have "lines_ordered 0 (ms @ [m])"
    using inv lines_ordered_snoc [of zero_state ms m] by (simp add: gen_inv_def)
  then have "gen_inv g' (ms @ [m])"
    using inv g' small_state_advance [OF small v(1)] v(1)
    by (simp add: gen_inv_def enc_mappings_snoc m [symmetric])
  moreover have "gen_pos (last_state g') = gen_pos m" by (simp add: g'(3) advance_def gen_pos_def)
  ultimately show thesis using that g' by blast
qed

lemma add_mapping_new:
  assumes g': "commit_pending_mapping g = Some g'" and new: "is_new_generated_position g l c"
    and m: "m = \<lparr>generated_line = l, generated_character = c, source_index = si, source_line = sl,
       source_character = sc, name_index = ni\<rparr>" "valid_mapping m"
    and l: "last_generated_line g' \<le> l" "has_last g' \<Longrightarrow> gen_pos (last_state g') \<noteq> (l, c)"
    and inv: "gen_inv g' ms"
  obtains g'' where "add_mapping l c si sl sc ni g = Some g''" "gen_inv g'' ms" "pending_ok g'' m"
proof -
  let ?g = "g'\<lparr>pending_generated_line := l, pending_generated_character := c,
     has_pending_source := False, has_pending_name := False, has_pending := True\<rparr>"
  let ?src = "?g\<lparr>pending_source_index := si, pending_source_line := sl,
     pending_source_character := sc, has_pending_source := True\<rparr>"
  let ?g'' = "if si \<noteq> -1 \<and> sl \<noteq> -1 \<and> sc \<noteq> -1
     then if ni \<noteq> -1 then ?src\<lparr>pending_name_index := ni, has_pending_name := True\<rparr> else ?src else ?g"
  have "add_mapping l c si sl sc ni g = Some ?g''"
    using g' new by (simp add: add_mapping_def Let_def)
  moreover have "gen_inv ?g'' ms" using inv by (simp add: gen_inv_def last_state_def)
  moreover have "pending_ok ?g'' m"
    using l m by (auto simp: pending_ok_def pending_mapping_def gen_pos_def last_state_def valid_mapping_def
        is_source_mapping_def small_def split: if_splits)
  ultimately show thesis by (rule that)
qed


text \<open>What a call that returned \<open>Ok\<close> does.\<close>

lemma add_call_Ok:
  assumes "add_call c g = Some (g', Inr ())" "valid_mapping (call_mapping c)"
  obtains si sl sc ni where "call_mapping c = \<lparr>generated_line = generated_line (call_mapping c),
      generated_character = generated_character (call_mapping c), source_index = si, source_line = sl,
      source_character = sc, name_index = ni\<rparr>"
    "add_mapping (generated_line (call_mapping c)) (generated_character (call_mapping c)) si sl sc ni g = Some g'"
    "pending_generated_line g \<le> generated_line (call_mapping c)"
proof (cases c)
  case (GeneratedCall l c')
  then show thesis
    using assms that [of "-1" "-1" "-1" "-1"] by (auto simp: add_generated_mapping_def split: if_splits)
next
  case (SourceCall l c' si sl sc)
  then show thesis
    using assms that [of si sl sc "-1"]
    by (auto simp: add_source_mapping_def validate_source_mapping_args_def split: if_splits)
next
  case (NamedCall l c' si sl sc ni)
  then show thesis
    using assms that [of si sl sc ni]
    by (auto simp: add_named_source_mapping_def validate_source_mapping_args_def split: if_splits)
qed

lemma add_call_gen_inv:
  assumes call: "add_call c g = Some (g', Inr ())" and v: "valid_mapping (call_mapping c)"
    and inv: "gen_inv g ms" and pend: "pending_ok g m" and pos: "gen_pos m \<noteq> gen_pos (call_mapping c)"
  shows "gen_inv g' (ms @ [m]) \<and> pending_ok g' (call_mapping c)"
proof -
  let ?m = "call_mapping c"
  obtain si sl sc ni where m: "?m = \<lparr>generated_line = generated_line ?m,
      generated_character = generated_character ?m, source_index = si, source_line = sl,
      source_character = sc, name_index = ni\<rparr>"
    and add: "add_mapping (generated_line ?m) (generated_character ?m) si sl sc ni g = Some g'"
    and line: "pending_generated_line g \<le> generated_line ?m"
    by (rule add_call_Ok [OF call v])
  obtain g1 where g1: "commit_pending_mapping g = Some g1" "gen_inv g1 (ms @ [m])" "has_last g1"
    "gen_pos (last_state g1) = gen_pos m" by (rule commit_gen_inv [OF inv pend])
  have new: "is_new_generated_position g (generated_line ?m) (generated_character ?m)"
    using pend pos by (auto simp: pending_ok_def pending_mapping_def gen_pos_def is_new_generated_position_def)
  have l: "last_generated_line g1 \<le> generated_line ?m"
    using g1(4) line pend by (auto simp: gen_pos_def last_state_def pending_ok_def pending_mapping_def)
  have d: "gen_pos (last_state g1) \<noteq> (generated_line ?m, generated_character ?m)"
    using g1(4) pos by (simp add: gen_pos_def)
  show ?thesis
    using add_mapping_new [OF g1(1) new m v l d g1(2)] add by (metis option.inject)
qed

lemma first_call_gen_inv:
  assumes call: "add_call c g = Some (g', Inr ())" and v: "valid_mapping (call_mapping c)" and u: "unstarted g"
  shows "gen_inv g' [] \<and> pending_ok g' (call_mapping c)"
proof -
  let ?m = "call_mapping c"
  obtain si sl sc ni where m: "?m = \<lparr>generated_line = generated_line ?m,
      generated_character = generated_character ?m, source_index = si, source_line = sl,
      source_character = sc, name_index = ni\<rparr>"
    and add: "add_mapping (generated_line ?m) (generated_character ?m) si sl sc ni g = Some g'"
    and line: "pending_generated_line g \<le> generated_line ?m"
    by (rule add_call_Ok [OF call v])
  have g1: "commit_pending_mapping g = Some g"
    and new: "is_new_generated_position g (generated_line ?m) (generated_character ?m)"
    and inv: "gen_inv g []" and l: "last_generated_line g \<le> generated_line ?m" and h: "\<not> has_last g"
    using u line by (auto simp: unstarted_def commit_pending_mapping_def should_commit_mapping_def
        is_new_generated_position_def gen_inv_def last_state_def small_state_def small_def)
  have d: "gen_pos (last_state g) \<noteq> (generated_line ?m, generated_character ?m)" if "has_last g"
    using that h by simp
  show ?thesis
    using add_mapping_new [OF g1 new m v l d inv] add by (metis option.inject)
qed

lemma run_calls_gen_inv:
  "run_calls cs g = Some (g', rs) \<Longrightarrow> list_all (\<lambda>r. r = Inr ()) rs \<Longrightarrow>
   list_all (valid_mapping \<circ> call_mapping) cs \<Longrightarrow> gen_inv g ms \<Longrightarrow> pending_ok g m \<Longrightarrow>
   distinct_adj (map gen_pos (m # map call_mapping cs)) \<Longrightarrow>
   \<exists>ms' m'. gen_inv g' ms' \<and> pending_ok g' m' \<and> ms' @ [m'] = ms @ m # map call_mapping cs"
proof (induction cs arbitrary: g rs ms m)
  case (Cons c cs)
  obtain g1 rs' where c: "add_call c g = Some (g1, Inr ())" "run_calls cs g1 = Some (g', rs')" "list_all (\<lambda>r. r = Inr ()) rs'"
    using Cons.prems(1,2) by (auto split: option.splits)
  have "gen_inv g1 (ms @ [m]) \<and> pending_ok g1 (call_mapping c)"
    using Cons.prems by (intro add_call_gen_inv [OF c(1)]) auto
  then show ?case using Cons.IH [OF c(2,3), of "ms @ [m]" "call_mapping c"] Cons.prems by auto
qed auto

text \<open>C3: source maps survive the round trip. If every call to the generator returned \<open>Ok\<close>, no
  two consecutive calls named the same generated position, and all coordinates are below
  \<open>2^30\<close>, then decoding the mappings of the finished map reports no error and yields exactly
  the mappings of the calls, in order.\<close>

theorem source_map_roundtrip:
  assumes "run_calls cs (start_generator lower f root dir opts srcs nms) = Some (g, rs)"
    and "list_all (\<lambda>r. r = Inr ()) rs"
    and "list_all (valid_mapping \<circ> call_mapping) cs"
    and "distinct_adj (map (gen_pos \<circ> call_mapping) cs)"
  shows "\<exists>g' raw d. generator_raw_source_map g = Some (g', raw)
    \<and> collect_mappings (decode_mappings (raw_mappings raw)) = (map call_mapping cs, d) \<and> d_error d = None"
proof -
  let ?g = "start_generator lower f root dir opts srcs nms"
  have "\<exists>g'. commit_pending_mapping g = Some g' \<and> gen_inv g' (map call_mapping cs)"
  proof (cases cs)
    case Nil
    then show ?thesis
      using assms(1) unstarted_start [of lower f root dir opts srcs nms]
      by (auto simp: unstarted_def commit_pending_mapping_def should_commit_mapping_def gen_inv_def
          small_state_def small_def)
  next
    case (Cons c cs')
    obtain g1 rs' where c: "add_call c ?g = Some (g1, Inr ())" "run_calls cs' g1 = Some (g, rs')"
      "list_all (\<lambda>r. r = Inr ()) rs'"
      using assms(1,2) Cons by (auto split: option.splits)
    have "gen_inv g1 []" "pending_ok g1 (call_mapping c)"
      using first_call_gen_inv [OF c(1) _ unstarted_start] assms(3) Cons by auto
    then obtain ms m where "gen_inv g ms" "pending_ok g m" "ms @ [m] = map call_mapping cs"
      using run_calls_gen_inv [OF c(2,3), of "[]" "call_mapping c"] assms(3,4) Cons by (auto simp: comp_def)
    then show ?thesis using commit_gen_inv [of g ms m] by metis
  qed
  then obtain g' where g': "commit_pending_mapping g = Some g'" "gen_inv g' (map call_mapping cs)" by blast
  have "decoder_at (decode_mappings (mappings g')) zero_state (enc_mappings True zero_state (map call_mapping cs))"
    using g'(2) by (simp add: decoder_at_def decode_mappings_def decoder_state_def capture_mapping_def gen_inv_def)
  from collect_encoded [OF this] g' show ?thesis
    by (cases "collect_mappings (decode_mappings (mappings g'))")
      (auto simp: generator_raw_source_map_def gen_inv_def small_state_def small_def)
qed


theorem source_map_roundtrip_witness:
  "let cs = [GeneratedCall 0 0, SourceCall 0 5 0 1 2, NamedCall 2 3 0 0 7 0];
       g = start_generator id ''a.js'' [] ''/x'' \<lparr>use_case_sensitive_file_names = True, current_directory = ''/''\<rparr>
             [''/x/a.ts''] [''f''] in
   \<exists>g1 rs g' raw d. run_calls cs g = Some (g1, rs) \<and> generator_raw_source_map g1 = Some (g', raw)
     \<and> collect_mappings (decode_mappings (raw_mappings raw)) = (map call_mapping cs, d) \<and> d_error d = None"
proof -
  let ?cs = "[GeneratedCall 0 0, SourceCall 0 5 0 1 2, NamedCall 2 3 0 0 7 0]"
  let ?g = "start_generator id ''a.js'' [] ''/x'' \<lparr>use_case_sensitive_file_names = True, current_directory = ''/''\<rparr>
     [''/x/a.ts''] [''f'']"
  have "(case run_calls ?cs ?g of None \<Rightarrow> False | Some (g, rs) \<Rightarrow> list_all (\<lambda>r. r = Inr ()) rs)" by code_simp
  then obtain g1 rs where r: "run_calls ?cs ?g = Some (g1, rs)" "list_all (\<lambda>r. r = Inr ()) rs"
    by (auto split: option.splits prod.splits)
  moreover have "list_all (valid_mapping \<circ> call_mapping) ?cs" "distinct_adj (map (gen_pos \<circ> call_mapping) ?cs)"
    by (simp_all add: valid_mapping_def small_def gen_pos_def)
  ultimately show ?thesis
    unfolding Let_def using source_map_roundtrip [OF r] by blast
qed

text \<open>What the decoder yields on any input.\<close>

definition decoded_ok :: "mapping \<Rightarrow> bool" where
  "decoded_ok m \<longleftrightarrow>
     0 \<le> generated_character m
     \<and> (if is_source_mapping m
        then 0 \<le> source_index m \<and> 0 \<le> source_line m \<and> 0 \<le> source_character m
          \<and> (name_index m = -1 \<or> 0 \<le> name_index m)
        else source_index m = -1 \<and> source_line m = -1 \<and> source_character m = -1 \<and> name_index m = -1)"

lemma vlq_decode_other_fields:
  "vlq_decode_loop d shift acc = (d', res) \<Longrightarrow>
   d_generated_character d' = d_generated_character d \<and> d_source_index d' = d_source_index d
   \<and> d_source_line d' = d_source_line d \<and> d_source_character d' = d_source_character d"
proof (induction d shift acc rule: vlq_decode_loop.induct)
  case (1 d shift acc)
  let ?d = "d\<lparr>d_pos := d_pos d + 1\<rparr>" and ?b = "base64_format_decode (d_mappings d ! d_pos d)"
  show ?case
  proof (cases "d_pos d \<ge> length (d_mappings d) \<or> ?b = -1 \<or> ?b AND 32 = 0")
    case True
    then show ?thesis
      using 1(2) by (auto simp: vlq_decode_loop.simps [of d] Let_def set_error_def split: if_splits)
  next
    case False
    have step: "vlq_decode_loop ?d (shift + 5) (acc OR shl32 (?b AND 31) shift) = (d', res)"
      using 1(2) False by (simp add: vlq_decode_loop.simps [of d] Let_def)
    from False have "\<not> length (d_mappings d) \<le> d_pos d" "?b \<noteq> -1" "?b AND 32 \<noteq> 0" by auto
    from 1(1) [OF this(1) refl refl this(2) refl refl this(3) step] show ?thesis by simp
  qed
qed

lemma vlq_format_decode_fields:
  assumes "base64_vlq_format_decode d = (d', v)"
  shows "d_generated_character d' = d_generated_character d" "d_source_index d' = d_source_index d"
    "d_source_line d' = d_source_line d" "d_source_character d' = d_source_character d"
  using assms vlq_decode_other_fields [of d 0 0]
  by (auto simp: base64_vlq_format_decode_def split: prod.splits option.splits)

lemma decode_name_ok:
  assumes "decode_name d = (Some m, d')" "0 \<le> d_generated_character d" "0 \<le> d_source_index d"
    "0 \<le> d_source_line d" "0 \<le> d_source_character d"
  shows "decoded_ok m"
proof (cases "base64_vlq_format_decode d")
  case (Pair d1 v)
  show ?thesis
    using assms vlq_format_decode_fields [OF Pair]
    by (auto simp: decode_name_def Pair Let_def decoded_ok_def capture_mapping_def is_source_mapping_def
        stop_iterating_def set_error_and_stop_iterating_def split: if_splits)
qed

lemma decode_source_character_ok:
  assumes "decode_source_character d = (Some m, d')" "0 \<le> d_generated_character d" "0 \<le> d_source_index d"
    "0 \<le> d_source_line d"
  shows "decoded_ok m"
proof (cases "base64_vlq_format_decode d")
  case (Pair d1 v)
  let ?d = "d1\<lparr>d_source_character := wrap32 (d_source_character d1 + v)\<rparr>"
  have nonneg: "0 \<le> d_source_character ?d" "0 \<le> d_generated_character ?d" "0 \<le> d_source_index ?d" "0 \<le> d_source_line ?d"
    and r: "(if \<not> is_source_mapping_segment_end ?d then decode_name ?d
       else (Some (capture_mapping True False ?d), ?d)) = (Some m, d')"
    using assms vlq_format_decode_fields [OF Pair]
    by (auto simp: decode_source_character_def Pair Let_def stop_iterating_def set_error_and_stop_iterating_def
        split: if_splits)
  show ?thesis
  proof (cases "is_source_mapping_segment_end ?d")
    case True
    then have "m = capture_mapping True False ?d" using r by auto
    then show ?thesis using nonneg by (simp add: decoded_ok_def capture_mapping_def is_source_mapping_def)
  next
    case False
    then show ?thesis using r nonneg decode_name_ok [of ?d m d'] by simp
  qed
qed

lemma decode_source_line_ok:
  assumes "decode_source_line d = (Some m, d')" "0 \<le> d_generated_character d" "0 \<le> d_source_index d"
  shows "decoded_ok m"
proof (cases "base64_vlq_format_decode d")
  case (Pair d1 v)
  show ?thesis
    using assms vlq_format_decode_fields [OF Pair]
    by (intro decode_source_character_ok [of "d1\<lparr>d_source_line := wrap32 (d_source_line d1 + v)\<rparr>" m d'])
      (auto simp: decode_source_line_def Pair Let_def
        stop_iterating_def set_error_and_stop_iterating_def split: if_splits)
qed

lemma decode_source_index_ok:
  assumes "decode_source_index d = (Some m, d')" "0 \<le> d_generated_character d"
  shows "decoded_ok m"
proof (cases "base64_vlq_format_decode d")
  case (Pair d1 v)
  show ?thesis
    using assms vlq_format_decode_fields [OF Pair]
    by (intro decode_source_line_ok [of "d1\<lparr>d_source_index := wrap32 (d_source_index d1 + v)\<rparr>" m d'])
      (auto simp: decode_source_index_def Pair Let_def
        stop_iterating_def set_error_and_stop_iterating_def split: if_splits)
qed

lemma decode_segment_ok:
  assumes "decode_segment d = (Some m, d')"
  shows "decoded_ok m"
proof (cases "base64_vlq_format_decode d")
  case (Pair d1 v)
  let ?d = "d1\<lparr>d_generated_character := wrap32 (d_generated_character d1 + v)\<rparr>"
  have nonneg: "0 \<le> d_generated_character ?d"
    and r: "(if \<not> is_source_mapping_segment_end ?d then decode_source_index ?d
       else (Some (capture_mapping False False ?d), ?d)) = (Some m, d')"
    using assms
    by (auto simp: decode_segment_def Pair Let_def stop_iterating_def set_error_and_stop_iterating_def
        split: if_splits)
  show ?thesis
  proof (cases "is_source_mapping_segment_end ?d")
    case True
    then have "m = capture_mapping False False ?d" using r by auto
    then show ?thesis using nonneg by (simp add: decoded_ok_def capture_mapping_def is_source_mapping_def)
  next
    case False
    then show ?thesis using r nonneg decode_source_index_ok [of ?d m d'] by simp
  qed
qed

lemma next_mapping_ok: "next_mapping d = (Some m, d') \<Longrightarrow> decoded_ok m"
proof (induction d rule: next_mapping.induct)
  case (1 d)
  then show ?case
    using decode_segment_ok [of d m d']
    by (cases "d_done d \<or> d_pos d \<ge> length (d_mappings d)")
      (simp_all add: next_mapping.simps [of d] stop_iterating_def Let_def split: if_splits)
qed


end
