(* ===== verification/CoreUtils.thy ===== *)
theory CoreUtils
  imports MachineInt "HOL-Library.Multiset"
begin

text \<open>
  The general-purpose helpers of \<open>ts-core\<close>: functions on slices (\<open>core.rs\<close>), the binary search
  (\<open>binarysearch.rs\<close>), module name patterns with one star (\<open>pattern.rs\<close>), text ranges
  (\<open>text.rs\<close>) and the stack (\<open>stack.rs\<close>). A slice is a list, \<open>T::default()\<close> an argument
  \<open>zero\<close>; callbacks are functions. A panic is \<open>None\<close>. Where a Rust function avoids work with an
  early return, the model does too.
\<close>

section \<open>Slices\<close>

text \<open>The loops that look for the first element that makes a copy necessary: the elements
  before it, itself, and the elements after it.\<close>

fun split_first :: "('a \<Rightarrow> bool) \<Rightarrow> 'a list \<Rightarrow> ('a list \<times> 'a \<times> 'a list) option" where
  "split_first P [] = None"
| "split_first P (x # xs) =
     (if P x then Some ([], x, xs)
      else map_option (\<lambda>(as, a, bs). (x # as, a, bs)) (split_first P xs))"

definition filter_slice :: "('a \<Rightarrow> bool) \<Rightarrow> 'a list \<Rightarrow> 'a list" where
  "filter_slice f xs =
     (case split_first (\<lambda>v. \<not> f v) xs of
        Some (before', _, rest) \<Rightarrow> before' @ filter f rest
      | None \<Rightarrow> xs)"

definition same_map :: "('a \<Rightarrow> 'a) \<Rightarrow> 'a list \<Rightarrow> 'a list" where
  "same_map f xs =
     (case split_first (\<lambda>v. f v \<noteq> v) xs of
        Some (before', v, rest) \<Rightarrow> before' @ [f v] @ map f rest
      | None \<Rightarrow> xs)"

fun try_map :: "('a \<Rightarrow> 'e + 'b) \<Rightarrow> 'a list \<Rightarrow> 'e + 'b list" where
  "try_map f [] = Inr []"
| "try_map f (x # xs) =
     (case f x of
        Inl e \<Rightarrow> Inl e
      | Inr y \<Rightarrow> (case try_map f xs of Inl e \<Rightarrow> Inl e | Inr ys \<Rightarrow> Inr (y # ys)))"

fun map_non_nil :: "'b \<Rightarrow> ('a \<Rightarrow> 'b) \<Rightarrow> 'a list \<Rightarrow> 'b list" where
  "map_non_nil zero f [] = []"
| "map_non_nil zero f (x # xs) =
     (let mapped = f x in if mapped \<noteq> zero then mapped # map_non_nil zero f xs else map_non_nil zero f xs)"

fun map_filtered :: "('a \<Rightarrow> 'b option) \<Rightarrow> 'a list \<Rightarrow> 'b list" where
  "map_filtered f [] = []"
| "map_filtered f (x # xs) =
     (case f x of Some mapped \<Rightarrow> mapped # map_filtered f xs | None \<Rightarrow> map_filtered f xs)"

fun flat_map :: "('a \<Rightarrow> 'b list) \<Rightarrow> 'a list \<Rightarrow> 'b list" where
  "flat_map f [] = []"
| "flat_map f (x # xs) = (let mapped = f x in (if mapped \<noteq> [] then mapped else []) @ flat_map f xs)"

definition find_or_zero :: "'a \<Rightarrow> ('a \<Rightarrow> bool) \<Rightarrow> 'a list \<Rightarrow> 'a" where
  "find_or_zero zero f xs = (case List.find f xs of Some v \<Rightarrow> v | None \<Rightarrow> zero)"

definition find_last :: "'a \<Rightarrow> ('a \<Rightarrow> bool) \<Rightarrow> 'a list \<Rightarrow> 'a" where
  "find_last zero f xs = (case List.find f (rev xs) of Some v \<Rightarrow> v | None \<Rightarrow> zero)"

definition find_index :: "('a \<Rightarrow> bool) \<Rightarrow> 'a list \<Rightarrow> int" where
  "find_index f xs = (case position f xs of Some i \<Rightarrow> int i | None \<Rightarrow> -1)"

definition find_last_index :: "('a \<Rightarrow> bool) \<Rightarrow> 'a list \<Rightarrow> int" where
  "find_last_index f xs =
     (case position f (rev xs) of Some i \<Rightarrow> int (length xs) - 1 - int i | None \<Rightarrow> -1)"

definition element_or_nil :: "'a \<Rightarrow> 'a list \<Rightarrow> nat \<Rightarrow> 'a" where
  "element_or_nil zero xs index = (if index < length xs then xs ! index else zero)"

fun first_non_nil :: "'b \<Rightarrow> ('a \<Rightarrow> 'b) \<Rightarrow> 'a list \<Rightarrow> 'b" where
  "first_non_nil zero f [] = zero"
| "first_non_nil zero f (x # xs) = (let mapped = f x in if mapped \<noteq> zero then mapped else first_non_nil zero f xs)"

definition concatenate :: "'a list \<Rightarrow> 'a list \<Rightarrow> 'a list" where
  "concatenate s1 s2 = (if s2 = [] then s1 else if s1 = [] then s2 else s1 @ s2)"

text \<open>Lengths of slices fit \<open>isize\<close>, and so does the sum of a start within the slice and a
  delete count on any slice that can exist beside it; the code adds in \<open>usize\<close>.\<close>

definition splice :: "'a list \<Rightarrow> int \<Rightarrow> int \<Rightarrow> 'a list \<Rightarrow> 'a list" where
  "splice s1 start0 delete_count0 items =
     (let start = (if start0 < 0 then start0 + int (length s1) else start0);
          start = (if start < 0 then 0 else start);
          start = (if start > int (length s1) then int (length s1) else start);
          delete_count = (if delete_count0 < 0 then 0 else delete_count0);
          start = nat start;
          end = min (start + nat (max delete_count 0)) (length s1) in
      if start = end \<and> items = [] then s1
      else take start s1 @ items @ drop end s1)"

definition count_where :: "('a \<Rightarrow> bool) \<Rightarrow> 'a list \<Rightarrow> nat" where
  "count_where f xs = length (filter f xs)"

definition replace_element :: "'a list \<Rightarrow> nat \<Rightarrow> 'a \<Rightarrow> 'a list option" where
  "replace_element xs i t = (if i < length xs then Some (xs[i := t]) else None)"

fun min_all_loop :: "('a \<Rightarrow> 'a \<Rightarrow> int) \<Rightarrow> 'a list \<Rightarrow> 'a \<Rightarrow> 'a list \<Rightarrow> 'a list" where
  "min_all_loop cmp' [] m mins = mins"
| "min_all_loop cmp' (x # xs) m mins =
     (let c = cmp' x m in
      if c < 0 then min_all_loop cmp' xs x [x]
      else if c = 0 then min_all_loop cmp' xs m (mins @ [x])
      else min_all_loop cmp' xs m mins)"

definition min_all_func :: "'a list \<Rightarrow> ('a \<Rightarrow> 'a \<Rightarrow> int) \<Rightarrow> 'a list" where
  "min_all_func xs cmp' = (case xs of [] \<Rightarrow> [] | m # rest \<Rightarrow> min_all_loop cmp' rest m [m])"

definition append_if_unique :: "'a list \<Rightarrow> 'a \<Rightarrow> 'a list" where
  "append_if_unique xs element = (if element \<in> set xs then xs else xs @ [element])"

definition or_else :: "'a \<Rightarrow> 'a \<Rightarrow> 'a \<Rightarrow> 'a" where
  "or_else zero value' default_value = (if value' \<noteq> zero then value' else default_value)"

definition coalesce :: "'a option \<Rightarrow> 'a option \<Rightarrow> 'a option" where
  "coalesce a b = (if a = None then b else a)"

fun flatten :: "'a list list \<Rightarrow> 'a list" where
  "flatten [] = []"
| "flatten (xs # xss) = xs @ flatten xss"

fun check_each_defined :: "'a option list \<Rightarrow> 'a list option" where
  "check_each_defined [] = Some []"
| "check_each_defined (v # vs) =
     (case v of None \<Rightarrow> None | Some x \<Rightarrow> map_option ((#) x) (check_each_defined vs))"

definition copy_map_into :: "('k \<rightharpoonup> 'v) option \<Rightarrow> ('k \<rightharpoonup> 'v) \<Rightarrow> ('k \<rightharpoonup> 'v)" where
  "copy_map_into dst src = (case dst of Some dst \<Rightarrow> dst ++ src | None \<Rightarrow> src)"

text \<open>The counting table is a map from elements to \<open>isize\<close>.\<close>

fun count_up :: "'a list \<Rightarrow> ('a \<rightharpoonup> int) \<Rightarrow> ('a \<rightharpoonup> int)" where
  "count_up [] counts = counts"
| "count_up (v # vs) counts =
     count_up vs (counts(v \<mapsto> (case counts v of Some n \<Rightarrow> n | None \<Rightarrow> 0) + 1))"

fun count_down :: "'a list \<Rightarrow> ('a \<rightharpoonup> int) \<Rightarrow> bool" where
  "count_down [] counts = True"
| "count_down (v # vs) counts =
     (let entry = (case counts v of Some n \<Rightarrow> n | None \<Rightarrow> 0) - 1 in
      if entry < 0 then False else count_down vs (counts(v \<mapsto> entry)))"

definition unordered_equal :: "'a list \<Rightarrow> 'a list \<Rightarrow> bool" where
  "unordered_equal s1 s2 =
     (if length s1 \<noteq> length s2 then False else count_down s2 (count_up s1 Map.empty))"

fun dedup_loop :: "'a list \<Rightarrow> 'a list \<Rightarrow> 'a list" where
  "dedup_loop [] result = result"
| "dedup_loop (v # vs) result =
     (if v \<notin> set result then dedup_loop vs (result @ [v]) else dedup_loop vs result)"

text \<open>The scan for the first repeated element: the elements before it and after it.\<close>

fun first_repeated :: "'a list \<Rightarrow> 'a list \<Rightarrow> ('a list \<times> 'a list) option" where
  "first_repeated before' [] = None"
| "first_repeated before' (v # vs) =
     (if v \<in> set before' then Some (before', vs) else first_repeated (before' @ [v]) vs)"

definition deduplicate :: "'a list \<Rightarrow> 'a list" where
  "deduplicate xs =
     (if length xs > 1 then
        (case first_repeated [] xs of
           Some (before', rest) \<Rightarrow> dedup_loop rest before'
         | None \<Rightarrow> xs)
      else xs)"

fun dedup_sorted_loop :: "('a \<Rightarrow> 'a \<Rightarrow> bool) \<Rightarrow> 'a \<Rightarrow> 'a list \<Rightarrow> 'a list \<Rightarrow> 'a list" where
  "dedup_sorted_loop is_equal prev [] acc = acc"
| "dedup_sorted_loop is_equal prev (next' # rest) acc =
     (if is_equal prev next' then dedup_sorted_loop is_equal prev rest acc
      else dedup_sorted_loop is_equal next' rest (acc @ [next']))"

definition deduplicate_sorted :: "'a list \<Rightarrow> ('a \<Rightarrow> 'a \<Rightarrow> bool) \<Rightarrow> 'a list" where
  "deduplicate_sorted xs is_equal =
     (case xs of [] \<Rightarrow> [] | x # xs \<Rightarrow> dedup_sorted_loop is_equal x xs [x])"

definition compare_booleans :: "bool \<Rightarrow> bool \<Rightarrow> int" where
  "compare_booleans a b = (if a \<and> \<not> b then 1 else if \<not> a \<and> b then -1 else 0)"

definition index_after :: "string \<Rightarrow> string \<Rightarrow> nat \<Rightarrow> int option" where
  "index_after s pat start_index =
     (if start_index > length s then None
      else Some (case str_find pat (drop start_index s) of
                   None \<Rightarrow> -1
                 | Some matched \<Rightarrow> int (matched + start_index)))"

section \<open>Binary search\<close>

text \<open>\<open>high\<close> may be just below \<open>low\<close> only when it is at least 0, which the guard on \<open>middle\<close>
  ensures; so it is a \<open>nat\<close>.\<close>

function binary_search_loop :: "(nat \<Rightarrow> 'a \<Rightarrow> ordering) \<Rightarrow> 'a list \<Rightarrow> nat \<Rightarrow> nat \<Rightarrow> nat \<times> bool" where
  "binary_search_loop cmp' x low high =
     (if low \<le> high then
        let middle = low + (high - low) div 2 in
        case cmp' middle (x ! middle) of
          Less \<Rightarrow> binary_search_loop cmp' x (middle + 1) high
        | Greater \<Rightarrow>
            if middle = 0 then (0, False) else binary_search_loop cmp' x low (middle - 1)
        | Equal \<Rightarrow> (middle, True)
      else (low, False))"
  by pat_completeness auto
termination
  by (relation "measure (\<lambda>(_, _, low, high). Suc high - low)") auto

declare binary_search_loop.simps [simp del]

definition binary_search_unique_func :: "'a list \<Rightarrow> (nat \<Rightarrow> 'a \<Rightarrow> ordering) \<Rightarrow> nat \<times> bool" where
  "binary_search_unique_func x cmp' =
     (if length x = 0 then (0, False) else binary_search_loop cmp' x 0 (length x - 1))"

section \<open>Patterns\<close>

record pattern =
  pattern_text :: string
  star_index :: int

definition try_parse_pattern :: "string \<Rightarrow> pattern" where
  "try_parse_pattern p =
     (let star = (case str_find ''*'' p of Some i \<Rightarrow> int i | None \<Rightarrow> -1) in
      if star = -1 \<or> CHR ''*'' \<notin> set (drop (nat star + 1) p)
      then \<lparr>pattern_text = p, star_index = star\<rparr>
      else \<lparr>pattern_text = [], star_index = 0\<rparr>)"

definition pattern_is_valid :: "pattern \<Rightarrow> bool" where
  "pattern_is_valid p \<longleftrightarrow> star_index p = -1 \<or> star_index p < int (length (pattern_text p))"

text \<open>Slicing the text at the star panics when it is out of range.\<close>

definition pattern_matches :: "pattern \<Rightarrow> string \<Rightarrow> bool option" where
  "pattern_matches p candidate =
     (if star_index p = -1 then Some (pattern_text p = candidate)
      else
        let star = nat (star_index p) in
        if \<not> star \<le> length candidate then Some False
        else if star_index p < 0 \<or> star > length (pattern_text p) then None
        else if \<not> prefix (take star (pattern_text p)) candidate then Some False
        else if star + 1 > length (pattern_text p) then None
        else Some (suffix (drop (star + 1) (pattern_text p)) candidate))"

text \<open>The end of the slice is computed in \<open>usize\<close>, where the difference may wrap; the sum is
  right again if the true value is not negative. A slice whose end is before its start
  panics.\<close>

definition matched_text :: "pattern \<Rightarrow> string \<Rightarrow> string option" where
  "matched_text p candidate =
     (case pattern_matches p candidate of
        Some True \<Rightarrow>
          if star_index p = -1 then Some []
          else
            let star = nat (star_index p);
                end = int (length candidate) - int (length (pattern_text p)) + int star + 1 in
            if int star \<le> end \<and> end \<le> int (length candidate)
            then Some (take (nat end - star) (drop star candidate)) else None
      | _ \<Rightarrow> None)"

fun best_pattern_loop ::
    "('a \<Rightarrow> pattern) \<Rightarrow> string \<Rightarrow> 'a list \<Rightarrow> 'a \<Rightarrow> int \<Rightarrow> 'a option" where
  "best_pattern_loop get_pattern candidate [] best longest = Some best"
| "best_pattern_loop get_pattern candidate (v # vs) best longest =
     (let p = get_pattern v in
      if star_index p = -1 \<or> star_index p > longest then
        (case pattern_matches p candidate of
           None \<Rightarrow> None
         | Some True \<Rightarrow> best_pattern_loop get_pattern candidate vs v (star_index p)
         | Some False \<Rightarrow> best_pattern_loop get_pattern candidate vs best longest)
      else best_pattern_loop get_pattern candidate vs best longest)"

definition find_best_pattern_match :: "'a \<Rightarrow> 'a list \<Rightarrow> ('a \<Rightarrow> pattern) \<Rightarrow> string \<Rightarrow> 'a option" where
  "find_best_pattern_match zero values get_pattern candidate =
     best_pattern_loop get_pattern candidate values zero (-1)"

section \<open>Text ranges\<close>

record text_range =
  tr_pos :: int
  tr_end :: int

definition new_text_range :: "int \<Rightarrow> int \<Rightarrow> text_range" where
  "new_text_range pos end = \<lparr>tr_pos = pos, tr_end = end\<rparr>"

definition undefined_text_range :: text_range where
  "undefined_text_range = \<lparr>tr_pos = -1, tr_end = -1\<rparr>"

definition range_len :: "text_range \<Rightarrow> int" where
  "range_len r = wrap32 (tr_end r - tr_pos r)"

definition text_range_is_empty :: "text_range \<Rightarrow> bool" where
  "text_range_is_empty r \<longleftrightarrow> range_len r = 0"

definition range_is_valid :: "text_range \<Rightarrow> bool" where
  "range_is_valid r \<longleftrightarrow> tr_pos r \<ge> 0 \<or> tr_end r \<ge> 0"

definition range_contains :: "text_range \<Rightarrow> int \<Rightarrow> bool" where
  "range_contains r pos \<longleftrightarrow> pos \<ge> tr_pos r \<and> pos < tr_end r"

definition contains_inclusive :: "text_range \<Rightarrow> int \<Rightarrow> bool" where
  "contains_inclusive r pos \<longleftrightarrow> pos \<ge> tr_pos r \<and> pos \<le> tr_end r"

definition contains_exclusive :: "text_range \<Rightarrow> int \<Rightarrow> bool" where
  "contains_exclusive r pos \<longleftrightarrow> tr_pos r < pos \<and> pos < tr_end r"

definition contained_by :: "text_range \<Rightarrow> text_range \<Rightarrow> bool" where
  "contained_by r t2 \<longleftrightarrow> tr_pos t2 \<le> tr_pos r \<and> tr_end t2 \<ge> tr_end r"

definition overlaps :: "text_range \<Rightarrow> text_range \<Rightarrow> bool" where
  "overlaps r t2 \<longleftrightarrow> max (tr_pos r) (tr_pos t2) < min (tr_end r) (tr_end t2)"

definition range_intersects :: "text_range \<Rightarrow> text_range \<Rightarrow> bool" where
  "range_intersects r t2 \<longleftrightarrow> max (tr_pos r) (tr_pos t2) \<le> min (tr_end r) (tr_end t2)"

definition compare_text_ranges :: "text_range \<Rightarrow> text_range \<Rightarrow> int" where
  "compare_text_ranges r1 r2 =
     (let c = wrap32 (tr_pos r1 - tr_pos r2) in
      if c \<noteq> 0 then c else wrap32 (tr_end r1 - tr_end r2))"

section \<open>Stack\<close>

record 'a stack =
  stack_data :: "'a list"

definition stack_default :: "'a stack" where
  "stack_default = \<lparr>stack_data = []\<rparr>"

definition stack_push :: "'a \<Rightarrow> 'a stack \<Rightarrow> 'a stack" where
  "stack_push x s = s\<lparr>stack_data := stack_data s @ [x]\<rparr>"

definition stack_pop :: "'a stack \<Rightarrow> ('a stack \<times> 'a) option" where
  "stack_pop s =
     (if stack_data s = [] then None
      else Some (s\<lparr>stack_data := butlast (stack_data s)\<rparr>, last (stack_data s)))"

definition stack_peek :: "'a stack \<Rightarrow> 'a option" where
  "stack_peek s = (if stack_data s = [] then None else Some (last (stack_data s)))"

definition stack_len :: "'a stack \<Rightarrow> nat" where
  "stack_len s = length (stack_data s)"

section \<open>Shortcuts compute the plain function\<close>

lemma split_first_Some:
  "split_first P xs = Some (as, a, bs) \<Longrightarrow> xs = as @ a # bs \<and> P a \<and> (\<forall>x\<in>set as. \<not> P x)"
  by (induction xs arbitrary: as) (auto split: if_splits)

lemma split_first_None: "split_first P xs = None \<Longrightarrow> \<forall>x\<in>set xs. \<not> P x"
  by (induction xs) (auto split: if_splits)

lemma filter_slice_eq: "filter_slice f xs = filter f xs"
proof (cases "split_first (\<lambda>v. \<not> f v) xs")
  case None
  then show ?thesis using split_first_None [OF None] by (simp add: filter_slice_def filter_id_conv)
next
  case (Some t)
  obtain as a bs where t: "t = (as, a, bs)" by (cases t)
  show ?thesis using split_first_Some [OF Some [unfolded t]] Some t by (auto simp: filter_slice_def filter_id_conv)
qed

lemma same_map_eq: "same_map f xs = map f xs"
proof (cases "split_first (\<lambda>v. f v \<noteq> v) xs")
  case None
  then show ?thesis using split_first_None [OF None] by (simp add: same_map_def map_idI)
next
  case (Some t)
  obtain as a bs where t: "t = (as, a, bs)" by (cases t)
  show ?thesis using split_first_Some [OF Some [unfolded t]] Some t by (auto simp: same_map_def map_idI)
qed

lemma dedup_loop_eq: "dedup_loop vs acc = acc @ rev (remdups (rev (filter (\<lambda>v. v \<notin> set acc) vs)))"
proof (induction vs arbitrary: acc)
  case (Cons v vs)
  have "remdups (xs @ [v]) = remdups (filter (\<lambda>x. x \<noteq> v) xs) @ [v]" for xs
    by (induction xs) auto
  then show ?case using Cons by (auto simp: rev_filter [symmetric] filter_filter conj_commute)
qed simp

lemma first_repeated_Some:
  "first_repeated acc xs = Some (as, bs) \<Longrightarrow> distinct acc \<Longrightarrow>
   distinct as \<and> (\<exists>a\<in>set as. acc @ xs = as @ a # bs)"
proof (induction xs arbitrary: acc)
  case (Cons x xs)
  then show ?case
    by (cases "x \<in> set acc") (auto dest!: Cons.IH)
qed simp

lemma first_repeated_None: "first_repeated acc xs = None \<Longrightarrow> distinct acc \<Longrightarrow> distinct (acc @ xs)"
proof (induction xs arbitrary: acc)
  case (Cons x xs)
  then have "x \<notin> set acc" "first_repeated (acc @ [x]) xs = None" by (auto split: if_splits)
  then have "distinct ((acc @ [x]) @ xs)" using Cons.prems by (intro Cons.IH) auto
  then show ?case by simp
qed simp

lemma rev_remdups_append_member:
  "distinct as \<Longrightarrow> rev (remdups (rev (as @ bs))) = as @ rev (remdups (rev (filter (\<lambda>v. v \<notin> set as) bs)))"
  using dedup_loop_eq [of "as @ bs" "[]"] dedup_loop_eq [of bs as]
proof -
  assume d: "distinct as"
  have "dedup_loop (as @ bs) acc = dedup_loop bs (acc @ as)" if "distinct (acc @ as)" for acc
    using that by (induction as arbitrary: acc) auto
  from this [of "[]"] d show ?thesis
    using dedup_loop_eq [of "as @ bs" "[]"] dedup_loop_eq [of bs as] by simp
qed

lemma deduplicate_eq: "deduplicate xs = rev (remdups (rev xs))"
proof (cases "first_repeated [] xs")
  case None
  then have "distinct xs" using first_repeated_None [of "[]" xs] by simp
  then show ?thesis using None by (simp add: deduplicate_def distinct_remdups_id)
next
  case (Some t)
  obtain as bs where t: "t = (as, bs)" by (cases t)
  then obtain a where a: "distinct as" "a \<in> set as" "xs = as @ a # bs"
    using first_repeated_Some [of "[]" xs as bs] Some by auto
  then have "length xs > 1" by (cases as) auto
  then show ?thesis
    using Some t a rev_remdups_append_member [OF a(1), of "a # bs"]
    by (simp add: deduplicate_def dedup_loop_eq)
qed

lemma flat_map_eq: "flat_map f xs = concat (map f xs)"
  by (induction xs) (auto simp: Let_def)

lemma map_filtered_eq: "map_filtered f xs = List.map_filter f xs"
  by (induction xs) (auto simp: List.map_filter_simps split: option.splits)

lemma flatten_eq: "flatten xss = concat xss"
  by (induction xss) auto

text \<open>the slice helpers that return early or copy lazily compute the plain functions:
  \<open>filter\<close>, \<open>same_map\<close>, \<open>flat_map\<close>, \<open>map_filtered\<close>, \<open>flatten\<close> and \<open>concatenate\<close> are filter, map,
  concatenation of images, partial map, concatenation and append, and \<open>deduplicate\<close> keeps
  the first occurrence of every element, in order.\<close>

theorem slice_helpers_exact:
  "filter_slice p xs = filter p xs \<and> same_map f xs = map f xs
   \<and> flat_map h xs = concat (map h xs) \<and> map_filtered k xs = List.map_filter k xs
   \<and> flatten xss = concat xss \<and> concatenate xs ys = xs @ ys
   \<and> deduplicate xs = rev (remdups (rev xs)) \<and> distinct (deduplicate xs)
   \<and> set (deduplicate xs) = set xs"
  by (simp add: filter_slice_eq same_map_eq flat_map_eq map_filtered_eq flatten_eq concatenate_def deduplicate_eq)

section \<open>Equality up to order\<close>

definition count_of :: "('a \<rightharpoonup> int) \<Rightarrow> 'a \<Rightarrow> int" where
  "count_of m v = (case m v of Some n \<Rightarrow> n | None \<Rightarrow> 0)"

lemma count_up_eq: "count_of (count_up vs m) v = count_of m v + int (count (mset vs) v)"
  by (induction vs arbitrary: m) (auto simp: count_of_def split: option.splits)

lemma count_down_eq:
  "\<forall>v. 0 \<le> count_of m v \<Longrightarrow> count_down vs m \<longleftrightarrow> (\<forall>v. int (count (mset vs) v) \<le> count_of m v)"
proof (induction vs arbitrary: m)
  case (Cons v vs)
  let ?n = "count_of m v - 1"
  have n: "(case m v of Some n \<Rightarrow> n | None \<Rightarrow> 0) - 1 = ?n" by (simp add: count_of_def)
  have upd: "count_of (m(v \<mapsto> ?n)) = (count_of m)(v := ?n)" by (auto simp: count_of_def fun_eq_iff)
  show ?case
  proof (cases "?n < 0")
    case True
    then have "\<not> int (count (mset (v # vs)) v) \<le> count_of m v" by simp
    then show ?thesis using True n by auto
  next
    case False
    then have "\<forall>u. 0 \<le> count_of (m(v \<mapsto> ?n)) u" unfolding upd using Cons.prems by simp
    then have "count_down vs (m(v \<mapsto> ?n)) \<longleftrightarrow> (\<forall>u. int (count (mset vs) u) \<le> ((count_of m)(v := ?n)) u)"
      unfolding upd [symmetric] by (rule Cons.IH)
    also have "\<dots> \<longleftrightarrow> (\<forall>u. int (count (mset (v # vs)) u) \<le> count_of m u)"
      by (rule all_cong1) auto
    finally show ?thesis using False n by (simp only: count_down.simps Let_def if_False)
  qed
qed simp

text \<open>\<open>unordered_equal\<close> decides equality as multisets.\<close>

theorem unordered_equal_iff: "unordered_equal xs ys \<longleftrightarrow> mset xs = mset ys"
proof -
  let ?m = "count_up xs Map.empty"
  have m: "count_of ?m v = int (count (mset xs) v)" for v
    unfolding count_up_eq by (simp add: count_of_def)
  then have "count_down ys ?m \<longleftrightarrow> (\<forall>v. int (count (mset ys) v) \<le> count_of ?m v)"
    by (intro count_down_eq) simp
  then have "count_down ys ?m \<longleftrightarrow> mset ys \<subseteq># mset xs"
    unfolding m subseteq_mset_def by simp
  moreover have "mset ys \<subseteq># mset xs \<and> length xs = length ys \<longleftrightarrow> mset xs = mset ys"
    using mset_subset_size [of "mset ys" "mset xs"] mset_eq_length [of xs ys]
    by (auto simp: subset_mset.le_less)
  ultimately show ?thesis by (auto simp: unordered_equal_def)
qed


section \<open>Binary search\<close>

text \<open>The comparison sorts the positions: first those before the target, then those after it.\<close>

definition search_ordered :: "(nat \<Rightarrow> 'a \<Rightarrow> ordering) \<Rightarrow> 'a list \<Rightarrow> bool" where
  "search_ordered cmp' xs \<longleftrightarrow>
     (\<forall>j<length xs. \<forall>i<j. (cmp' j (xs ! j) \<noteq> Greater \<longrightarrow> cmp' i (xs ! i) = Less)
        \<and> (cmp' i (xs ! i) \<noteq> Less \<longrightarrow> cmp' j (xs ! j) = Greater))"

lemma search_ordered_below:
  "search_ordered cmp' xs \<Longrightarrow> j < length xs \<Longrightarrow> cmp' j (xs ! j) \<noteq> Greater \<Longrightarrow> \<forall>i<j. cmp' i (xs ! i) = Less"
  unfolding search_ordered_def by blast

lemma search_ordered_above:
  "search_ordered cmp' xs \<Longrightarrow> cmp' i (xs ! i) \<noteq> Less \<Longrightarrow> i < j \<Longrightarrow> j < length xs \<Longrightarrow> cmp' j (xs ! j) = Greater"
  unfolding search_ordered_def by blast

lemma binary_search_loop_correct:
  "search_ordered cmp' xs \<Longrightarrow> high < length xs \<Longrightarrow> low \<le> Suc high \<Longrightarrow>
   \<forall>i<low. cmp' i (xs ! i) = Less \<Longrightarrow> \<forall>i. high < i \<and> i < length xs \<longrightarrow> cmp' i (xs ! i) = Greater \<Longrightarrow>
   binary_search_loop cmp' xs low high = (i, found) \<Longrightarrow>
   (if found then i < length xs \<and> cmp' i (xs ! i) = Equal
    else i \<le> length xs \<and> (\<forall>j<i. cmp' j (xs ! j) = Less) \<and> (\<forall>j. i \<le> j \<and> j < length xs \<longrightarrow> cmp' j (xs ! j) = Greater))"
proof (induction cmp' xs low high rule: binary_search_loop.induct)
  case (1 cmp' xs low high)
  let ?m = "low + (high - low) div 2"
  show ?case
  proof (cases "low \<le> high")
    case False
    then show ?thesis using 1(3-8) by (auto simp: binary_search_loop.simps [of cmp' xs low high])
  next
    case True
    then have m: "?m \<le> high" "low \<le> ?m" "?m < length xs" using 1(4) by linarith+
    have step: "binary_search_loop cmp' xs low high =
        (case cmp' ?m (xs ! ?m) of
           Less \<Rightarrow> binary_search_loop cmp' xs (?m + 1) high
         | Greater \<Rightarrow> if ?m = 0 then (0, False) else binary_search_loop cmp' xs low (?m - 1)
         | Equal \<Rightarrow> (?m, True))"
      unfolding binary_search_loop.simps [of cmp' xs low high] Let_def using True by (simp only: if_True)
    show ?thesis
    proof (cases "cmp' ?m (xs ! ?m)")
      case Equal
      then show ?thesis using 1(8) m(3) unfolding step by auto
    next
      case Less
      have "\<forall>i<?m + 1. cmp' i (xs ! i) = Less"
        using search_ordered_below [OF 1(3) m(3)] Less by (simp add: less_Suc_eq)
      moreover have "?m + 1 \<le> Suc high" using m(1) by linarith
      moreover have "binary_search_loop cmp' xs (?m + 1) high = (i, found)" using 1(8) Less unfolding step by simp
      ultimately show ?thesis using 1(1) [OF True refl Less 1(3) 1(4)] 1(7) by blast
    next
      case Greater
      have g: "\<forall>i. ?m \<le> i \<and> i < length xs \<longrightarrow> cmp' i (xs ! i) = Greater"
        using search_ordered_above [OF 1(3)] Greater by (metis le_less ordering.distinct(3))
      show ?thesis
      proof (cases "?m = 0")
        case True
        then have "(0, False) = (i, found)" using 1(8) Greater unfolding step by (simp only: ordering.case simp_thms if_True)
        then show ?thesis using g True by simp
      next
        case False
        have "\<forall>i. ?m - 1 < i \<and> i < length xs \<longrightarrow> cmp' i (xs ! i) = Greater" using g False by auto
        moreover have "?m - 1 < length xs" "low \<le> Suc (?m - 1)" using m by linarith+
        moreover have "binary_search_loop cmp' xs low (?m - 1) = (i, found)"
          using 1(8) Greater False unfolding step by (simp only: ordering.case if_False)
        ultimately show ?thesis using 1(2) [OF True refl Greater False 1(3)] 1(6) by blast
      qed
    qed
  qed
qed

text \<open>the binary search finds the element that matches, if there is one, and otherwise
  returns the position that separates the elements before the target from those after it;
  it never reads out of range.\<close>

theorem binary_search_correct:
  assumes "search_ordered cmp' xs" and "binary_search_unique_func xs cmp' = (i, found)"
  shows "(found \<longrightarrow> i < length xs \<and> cmp' i (xs ! i) = Equal)
    \<and> (\<not> found \<longrightarrow> i \<le> length xs \<and> (\<forall>j<i. cmp' j (xs ! j) = Less)
         \<and> (\<forall>j. i \<le> j \<and> j < length xs \<longrightarrow> cmp' j (xs ! j) = Greater))
    \<and> (found \<longleftrightarrow> (\<exists>j<length xs. cmp' j (xs ! j) = Equal))"
proof -
  have main: "if found then i < length xs \<and> cmp' i (xs ! i) = Equal
    else i \<le> length xs \<and> (\<forall>j<i. cmp' j (xs ! j) = Less) \<and> (\<forall>j. i \<le> j \<and> j < length xs \<longrightarrow> cmp' j (xs ! j) = Greater)"
  proof (cases "xs = []")
    case True
    then show ?thesis using assms(2) by (auto simp: binary_search_unique_func_def)
  next
    case False
    then show ?thesis
      using assms(2) by (intro binary_search_loop_correct [OF assms(1), of "length xs - 1" 0])
        (auto simp: binary_search_unique_func_def)
  qed
  have "cmp' j (xs ! j) \<noteq> Equal" if "\<not> found" "j < length xs" for j
    using main that by (cases "j < i") auto
  then show ?thesis using main by (auto split: if_splits)
qed

theorem binary_search_correct_witness:
  "search_ordered (\<lambda>_ x. cmp x 7) [1, 3, 7, 9 :: int]
   \<and> binary_search_unique_func [1, 3, 7, 9 :: int] (\<lambda>_ x. cmp x 7) = (2, True)
   \<and> (\<exists>j<length [1, 3, 7, 9 :: int]. cmp ([1, 3, 7, 9 :: int] ! j) 7 = Equal)"
proof -
  have srt: "search_ordered (\<lambda>_ x. cmp x 7) [1, 3, 7, 9 :: int]"
    by (auto simp: search_ordered_def cmp_def less_Suc_eq numeral_eq_Suc)
  have b: "binary_search_unique_func [1, 3, 7, 9 :: int] (\<lambda>_ x. cmp x 7) = (2, True)" by code_simp
  show ?thesis using srt b binary_search_correct [OF srt b] by blast
qed


section \<open>Patterns\<close>

lemma find_star: "CHR ''*'' \<notin> set pre \<Longrightarrow> str_find ''*'' (pre @ CHR ''*'' # suf) = Some (length pre)"
  by (induction pre) auto

lemma try_parse_pattern_star:
  "CHR ''*'' \<notin> set pre \<Longrightarrow> CHR ''*'' \<notin> set suf \<Longrightarrow>
   try_parse_pattern (pre @ CHR ''*'' # suf) = \<lparr>pattern_text = pre @ CHR ''*'' # suf, star_index = int (length pre)\<rparr>"
  by (simp add: try_parse_pattern_def find_star)

lemma star_pattern_matches:
  "pattern_matches \<lparr>pattern_text = pre @ CHR ''*'' # suf, star_index = int (length pre)\<rparr> candidate
   = Some (prefix pre candidate \<and> suffix suf candidate)"
  using prefix_length_le [of pre candidate] by (auto simp: pattern_matches_def Let_def)

lemma prefix_suffix_decompose:
  assumes "prefix pre c" "suffix suf c" "length pre + length suf \<le> length c"
  shows "c = pre @ take (length c - length suf - length pre) (drop (length pre) c) @ suf"
proof -
  obtain m where m: "c = m @ suf" using assms(2) by (auto simp: suffix_def)
  have "prefix pre m" using assms(1,3) unfolding m by (simp add: prefix_append) (auto dest: prefix_length_le)
  then obtain k where "m = pre @ k" by (auto simp: prefix_def)
  then show ?thesis by (simp add: m)
qed

lemma star_matched_text:
  "matched_text \<lparr>pattern_text = pre @ CHR ''*'' # suf, star_index = int (length pre)\<rparr> c = Some t
   \<longleftrightarrow> c = pre @ t @ suf"
proof -
  have "matched_text \<lparr>pattern_text = pre @ CHR ''*'' # suf, star_index = int (length pre)\<rparr> c =
      (if prefix pre c \<and> suffix suf c \<and> length pre + length suf \<le> length c
       then Some (take (length c - length suf - length pre) (drop (length pre) c)) else None)"
    by (auto simp: matched_text_def star_pattern_matches Let_def nat_diff_distrib'
        split: bool.split intro!: arg_cong2 [where f = take])
  then show ?thesis using prefix_suffix_decompose [of pre c suf] by (auto simp: suffix_def)
qed

text \<open>for a pattern with one star, \<open>matches\<close> tests the two ends, and \<open>matched_text\<close> returns
  \<open>t\<close> exactly when the candidate is the pattern with \<open>t\<close> in place of the star; so it panics on
  a candidate \<open>matches\<close> accepts only because the two ends overlap.\<close>

theorem pattern_match_exact:
  assumes "CHR ''*'' \<notin> set pre" and "CHR ''*'' \<notin> set suf"
  shows "pattern_matches (try_parse_pattern (pre @ CHR ''*'' # suf)) candidate
           = Some (prefix pre candidate \<and> suffix suf candidate)
    \<and> (matched_text (try_parse_pattern (pre @ CHR ''*'' # suf)) candidate = Some t \<longleftrightarrow> candidate = pre @ t @ suf)"
  using assms by (simp add: try_parse_pattern_star star_pattern_matches star_matched_text)

theorem pattern_match_exact_witness:
  "matched_text (try_parse_pattern ''lib/*.ts'') ''lib/a/b.ts'' = Some ''a/b''
   \<and> pattern_matches (try_parse_pattern ''ab*ba'') ''aba'' = Some True
   \<and> matched_text (try_parse_pattern ''ab*ba'') ''aba'' = None"
proof -
  have 1: "matched_text (try_parse_pattern ''lib/*.ts'') ''lib/a/b.ts'' = Some ''a/b''"
    using pattern_match_exact [of "''lib/''" "''.ts''" "''lib/a/b.ts''" "''a/b''"] by simp
  have 2: "pattern_matches (try_parse_pattern ''ab*ba'') ''aba'' = Some True"
    using pattern_match_exact [of "''ab''" "''ba''" "''aba''" "[]"] by (simp add: suffix_def)
  have "matched_text (try_parse_pattern ''ab*ba'') ''aba'' \<noteq> Some t" for t
    using pattern_match_exact [of "''ab''" "''ba''" "''aba''" t] by simp
  then show ?thesis using 1 2 by blast
qed

section \<open>The best pattern\<close>

lemma best_pattern_loop_longest:
  "\<forall>v\<in>set vs. \<exists>b. pattern_matches (get_pattern v) c = Some b \<and> 0 \<le> star_index (get_pattern v) \<Longrightarrow>
   \<exists>r. best_pattern_loop get_pattern c vs best longest = Some r
     \<and> (r = best \<and> (\<forall>v\<in>set vs. pattern_matches (get_pattern v) c = Some True \<longrightarrow> star_index (get_pattern v) \<le> longest)
        \<or> r \<in> set vs \<and> pattern_matches (get_pattern r) c = Some True \<and> longest < star_index (get_pattern r)
           \<and> (\<forall>v\<in>set vs. pattern_matches (get_pattern v) c = Some True \<longrightarrow> star_index (get_pattern v) \<le> star_index (get_pattern r)))"
proof (induction vs arbitrary: best longest)
  case (Cons v vs)
  let ?p = "get_pattern v"
  obtain b where b: "pattern_matches ?p c = Some b" "0 \<le> star_index ?p" using Cons.prems by auto
  have IH: "\<exists>r. best_pattern_loop get_pattern c vs best longest = Some r
     \<and> (r = best \<and> (\<forall>v\<in>set vs. pattern_matches (get_pattern v) c = Some True \<longrightarrow> star_index (get_pattern v) \<le> longest)
        \<or> r \<in> set vs \<and> pattern_matches (get_pattern r) c = Some True \<and> longest < star_index (get_pattern r)
           \<and> (\<forall>v\<in>set vs. pattern_matches (get_pattern v) c = Some True \<longrightarrow> star_index (get_pattern v) \<le> star_index (get_pattern r)))"
    for best longest by (rule Cons.IH) (use Cons.prems in simp)
  show ?case
  proof (cases "longest < star_index ?p \<and> b")
    case True
    then have "best_pattern_loop get_pattern c (v # vs) best longest
        = best_pattern_loop get_pattern c vs v (star_index ?p)" using b by (simp add: Let_def)
    moreover obtain r where "best_pattern_loop get_pattern c vs v (star_index ?p) = Some r"
      and "r = v \<and> (\<forall>v'\<in>set vs. pattern_matches (get_pattern v') c = Some True \<longrightarrow> star_index (get_pattern v') \<le> star_index ?p)
        \<or> r \<in> set vs \<and> pattern_matches (get_pattern r) c = Some True \<and> star_index ?p < star_index (get_pattern r)
           \<and> (\<forall>v\<in>set vs. pattern_matches (get_pattern v) c = Some True \<longrightarrow> star_index (get_pattern v) \<le> star_index (get_pattern r))"
      using IH [of v "star_index ?p"] by blast
    ultimately show ?thesis using True b by (intro exI [of _ r]) auto
  next
    case False
    then have "best_pattern_loop get_pattern c (v # vs) best longest
        = best_pattern_loop get_pattern c vs best longest" using b by (auto simp: Let_def)
    moreover have "pattern_matches ?p c = Some True \<Longrightarrow> star_index ?p \<le> longest" using False b by auto
    ultimately show ?thesis using IH [of best longest] by fastforce
  qed
qed simp


text \<open>among valid patterns that all have a star, \<open>find_best_pattern_match\<close> returns a value whose
  pattern matches and has the longest prefix, and the zero value only when none matches.\<close>

theorem find_best_pattern_match_longest:
  assumes "list_all (\<lambda>v. pattern_is_valid (get_pattern v) \<and> 0 \<le> star_index (get_pattern v)) values"
  shows "\<exists>r. find_best_pattern_match zero values get_pattern c = Some r
    \<and> (r = zero \<and> (\<forall>v\<in>set values. pattern_matches (get_pattern v) c = Some False)
       \<or> r \<in> set values \<and> pattern_matches (get_pattern r) c = Some True
          \<and> (\<forall>v\<in>set values. pattern_matches (get_pattern v) c = Some True
               \<longrightarrow> star_index (get_pattern v) \<le> star_index (get_pattern r)))"
proof -
  have *: "\<exists>b. pattern_matches (get_pattern v) c = Some b \<and> 0 \<le> star_index (get_pattern v)"
    if "v \<in> set values" for v
  proof -
    have "pattern_is_valid (get_pattern v)" "0 \<le> star_index (get_pattern v)"
      using assms that by (auto simp: list_all_iff)
    then show ?thesis by (auto simp: pattern_matches_def pattern_is_valid_def Let_def)
  qed
  have "pattern_matches (get_pattern v) c = Some False"
    if "v \<in> set values" "pattern_matches (get_pattern v) c = Some True \<longrightarrow> star_index (get_pattern v) \<le> -1" for v
    using * [OF that(1)] that(2) by auto
  then show ?thesis
    unfolding find_best_pattern_match_def
    using best_pattern_loop_longest [of "values" get_pattern c zero "-1"] * by fast
qed

theorem find_best_pattern_match_longest_witness:
  "list_all (\<lambda>v. pattern_is_valid (try_parse_pattern v) \<and> 0 \<le> star_index (try_parse_pattern v)) [''*'', ''lib/*'', ''l*'']
   \<and> find_best_pattern_match [] [''*'', ''lib/*'', ''l*''] try_parse_pattern ''lib/x'' = Some ''lib/*''
   \<and> (\<exists>r. find_best_pattern_match [] [''*'', ''lib/*'', ''l*''] try_parse_pattern ''lib/x'' = Some r)"
proof -
  have v: "list_all (\<lambda>v. pattern_is_valid (try_parse_pattern v) \<and> 0 \<le> star_index (try_parse_pattern v)) [''*'', ''lib/*'', ''l*'']"
    by code_simp
  have r: "find_best_pattern_match [] [''*'', ''lib/*'', ''l*''] try_parse_pattern ''lib/x'' = Some ''lib/*''" by code_simp
  show ?thesis using v r find_best_pattern_match_longest [OF v, of "[]" "''lib/x''"] by blast
qed

text \<open>An exact match does not end the search, and resets the length to beat: a pattern with a star that
  comes later wins over it.\<close>

lemma exact_pattern_loses_to_later_wildcard:
  "find_best_pattern_match [] [''lib/x'', ''*''] try_parse_pattern ''lib/x'' = Some ''*''"
  by code_simp

section \<open>All minima\<close>

lemma min_all_loop_eq:
  fixes key :: "'a \<Rightarrow> 'b::linorder"
  assumes cmp: "\<And>x y. cmp' x y < 0 \<longleftrightarrow> key x < key y" "\<And>x y. cmp' x y = 0 \<longleftrightarrow> key x = key y"
  shows "mins = filter (\<lambda>x. key x = key m) seen \<Longrightarrow> m \<in> set seen \<Longrightarrow> (\<forall>y\<in>set seen. key m \<le> key y) \<Longrightarrow>
    min_all_loop cmp' xs m mins = filter (\<lambda>x. \<forall>y\<in>set (seen @ xs). key x \<le> key y) (seen @ xs)"
proof (induction xs arbitrary: m mins seen)
  case Nil
  then have "filter (\<lambda>x. \<forall>y\<in>set seen. key x \<le> key y) seen = mins" by (auto intro!: filter_cong antisym)
  then show ?case by simp
next
  case (Cons x xs)
  consider "key x < key m" | "key x = key m" | "key m < key x" by fastforce
  then show ?case
  proof cases
    case 1
    then have "filter (\<lambda>y. key y = key x) seen = []" using Cons.prems(3) by (auto simp: filter_empty_conv)
    then have "[x] = filter (\<lambda>y. key y = key x) (seen @ [x])" by simp
    moreover have "\<forall>y\<in>set (seen @ [x]). key x \<le> key y" using 1 Cons.prems(3) by fastforce
    ultimately show ?thesis using 1 cmp(1) Cons.IH [of "[x]" x "seen @ [x]"] by (simp add: Let_def)
  next
    case 2
    then have "cmp' x m = 0" by (simp add: cmp(2))
    then show ?thesis using 2 Cons.prems Cons.IH [of "mins @ [x]" m "seen @ [x]"] by (simp add: Let_def)
  next
    case 3
    then have "\<not> cmp' x m < 0" "cmp' x m \<noteq> 0" by (simp_all add: cmp)
    then show ?thesis using 3 Cons.prems Cons.IH [of mins m "seen @ [x]"] by (simp add: Let_def)
  qed
qed

lemma min_all_func_eq:
  fixes key :: "'a \<Rightarrow> 'b::linorder"
  assumes "\<And>x y. cmp' x y < 0 \<longleftrightarrow> key x < key y" "\<And>x y. cmp' x y = 0 \<longleftrightarrow> key x = key y"
  shows "min_all_func xs cmp' = filter (\<lambda>x. \<forall>y\<in>set xs. key x \<le> key y) xs"
proof (cases xs)
  case (Cons x rest)
  then show ?thesis
    using min_all_loop_eq [where cmp' = cmp' and key = key and seen = "[x]" and m = x and mins = "[x]" and xs = rest, OF assms]
    by (simp add: min_all_func_def)
qed (simp add: min_all_func_def)

section \<open>Text ranges\<close>

text \<open>two ranges overlap when they share a position they contain, and intersect when they share one
  including their ends; a range with a length is contained in another when all its positions are.\<close>

theorem text_range_geometry:
  "(overlaps r t \<longleftrightarrow> (\<exists>p. range_contains r p \<and> range_contains t p))
   \<and> (range_intersects r t \<longleftrightarrow> (\<exists>p. contains_inclusive r p \<and> contains_inclusive t p))
   \<and> overlaps r t = overlaps t r \<and> range_intersects r t = range_intersects t r
   \<and> (contained_by r t \<and> tr_pos r < tr_end r
        \<longleftrightarrow> tr_pos r < tr_end r \<and> {p. range_contains r p} \<subseteq> {p. range_contains t p})"
proof -
  have "overlaps r t \<longleftrightarrow> (\<exists>p. range_contains r p \<and> range_contains t p)"
    unfolding overlaps_def range_contains_def
    by (rule iffI, rule exI [of _ "max (tr_pos r) (tr_pos t)"]) auto
  moreover have "range_intersects r t \<longleftrightarrow> (\<exists>p. contains_inclusive r p \<and> contains_inclusive t p)"
    unfolding range_intersects_def contains_inclusive_def
    by (rule iffI, rule exI [of _ "max (tr_pos r) (tr_pos t)"]) auto
  moreover have "contained_by r t \<longleftrightarrow> {p. range_contains r p} \<subseteq> {p. range_contains t p}" if "tr_pos r < tr_end r"
  proof
    assume sub: "{p. range_contains r p} \<subseteq> {p. range_contains t p}"
    have "range_contains r (tr_pos r)" "range_contains r (tr_end r - 1)" using that by (auto simp: range_contains_def)
    then have "range_contains t (tr_pos r)" "range_contains t (tr_end r - 1)" using sub by auto
    then show "contained_by r t" by (auto simp: range_contains_def contained_by_def)
  qed (auto simp: contained_by_def range_contains_def)
  ultimately show ?thesis by (auto simp: overlaps_def range_intersects_def max.commute min.commute)
qed

text \<open>Ranges of a source text have positions that are not negative, and there the wrapped differences
  order them by start and then by end.\<close>

lemma compare_text_ranges_lex:
  assumes "0 \<le> tr_pos a" "0 \<le> tr_end a" "0 \<le> tr_pos b" "0 \<le> tr_end b"
    and "is_i32 (tr_pos a)" "is_i32 (tr_end a)" "is_i32 (tr_pos b)" "is_i32 (tr_end b)"
  shows "compare_text_ranges a b < 0 \<longleftrightarrow> tr_pos a < tr_pos b \<or> tr_pos a = tr_pos b \<and> tr_end a < tr_end b"
proof -
  have "wrap32 (tr_pos a - tr_pos b) = tr_pos a - tr_pos b" "wrap32 (tr_end a - tr_end b) = tr_end a - tr_end b"
    using assms by (auto simp: wrap32_id is_i32_def)
  then show ?thesis by (auto simp: compare_text_ranges_def Let_def)
qed

section \<open>Stack\<close>

lemma stack_pop_push: "stack_pop (stack_push x s) = Some (s, x)"
  by (simp add: stack_pop_def stack_push_def)

lemma stack_peek_pop: "stack_peek s = map_option snd (stack_pop s)"
  by (simp add: stack_peek_def stack_pop_def)

lemma stack_len_pop: "stack_pop s = Some (s', x) \<Longrightarrow> stack_len s = Suc (stack_len s') \<and> stack_push x s' = s"
  by (auto simp: stack_pop_def stack_len_def stack_push_def split: if_splits)

end
