(* ===== verification/Utf8.thy ===== *)
theory Utf8
  imports MachineInt
begin

text \<open>
  UTF-8 as the Rust standard library defines it for \<open>&str\<close>. A string is a list of bytes; a
  \<open>char\<close> is a Unicode scalar value, a number below \<open>0x110000\<close> outside the surrogates. The
  strings that can exist in the program are the encodings \<open>enc cs\<close> of lists of scalar values.
  The theory has the encoder, the decoder of \<open>chars()\<close>, character boundaries and slices, and
  shows that they fit together.
\<close>

type_synonym rune = nat

definition is_scalar :: "rune \<Rightarrow> bool" where
  "is_scalar c \<longleftrightarrow> c < 0x110000 \<and> \<not> (0xD800 \<le> c \<and> c < 0xE000)"

definition len_utf8 :: "rune \<Rightarrow> nat" where
  "len_utf8 c = (if c < 0x80 then 1 else if c < 0x800 then 2 else if c < 0x10000 then 3 else 4)"

definition len_utf16 :: "rune \<Rightarrow> nat" where
  "len_utf16 c = (if c < 0x10000 then 1 else 2)"

definition utf8_encode :: "rune \<Rightarrow> string" where
  "utf8_encode c = map char_of
     (if c < 0x80 then [c]
      else if c < 0x800 then [0xC0 + c div 64, 0x80 + c mod 64]
      else if c < 0x10000 then [0xE0 + c div 4096, 0x80 + c div 64 mod 64, 0x80 + c mod 64]
      else [0xF0 + c div 262144, 0x80 + c div 4096 mod 64, 0x80 + c div 64 mod 64, 0x80 + c mod 64])"

definition enc :: "rune list \<Rightarrow> string" where
  "enc cs = concat (map utf8_encode cs)"

text \<open>\<open>chars().next()\<close>: the first character of a string that starts at a boundary.\<close>

definition next_char :: "string \<Rightarrow> rune option" where
  "next_char s =
     (case map byte s of
        [] \<Rightarrow> None
      | b # bs \<Rightarrow>
          if b < 0x80 then Some b
          else if b < 0xC0 then None
          else if b < 0xE0 then
            (case bs of b1 # _ \<Rightarrow> Some (b mod 32 * 64 + b1 mod 64) | _ \<Rightarrow> None)
          else if b < 0xF0 then
            (case bs of b1 # b2 # _ \<Rightarrow> Some ((b mod 16 * 64 + b1 mod 64) * 64 + b2 mod 64) | _ \<Rightarrow> None)
          else
            (case bs of b1 # b2 # b3 # _ \<Rightarrow>
               Some (((b mod 8 * 64 + b1 mod 64) * 64 + b2 mod 64) * 64 + b3 mod 64) | _ \<Rightarrow> None))"

lemma len_utf8_pos [simp]: "0 < len_utf8 c" and len_utf8_le: "len_utf8 c \<le> 4"
  by (auto simp: len_utf8_def)

function chars_of :: "string \<Rightarrow> rune list" where
  "chars_of s = (case next_char s of None \<Rightarrow> [] | Some c \<Rightarrow> c # chars_of (drop (len_utf8 c) s))"
  by pat_completeness auto
termination
  by (relation "measure length") (auto simp: next_char_def Suc_le_eq split: list.splits)

declare chars_of.simps [simp del]

definition is_char_boundary :: "string \<Rightarrow> nat \<Rightarrow> bool" where
  "is_char_boundary s i \<longleftrightarrow> i = length s \<or> i < length s \<and> \<not> (0x80 \<le> byte (s ! i) \<and> byte (s ! i) < 0xC0)"

text \<open>\<open>&s[a..b]\<close> panics unless both ends are boundaries in order.\<close>

definition str_slice :: "string \<Rightarrow> nat \<Rightarrow> nat \<Rightarrow> string option" where
  "str_slice s a b =
     (if a \<le> b \<and> is_char_boundary s a \<and> is_char_boundary s b then Some (take (b - a) (drop a s)) else None)"

section \<open>Encoding and decoding\<close>

lemma byte_char_of [simp]: "n < 256 \<Longrightarrow> byte (char_of n) = n"
  by (simp add: byte_def)

lemma length_utf8_encode [simp]: "length (utf8_encode c) = len_utf8 c"
  by (simp add: utf8_encode_def len_utf8_def)

lemma enc_simps [simp]: "enc [] = []" "enc (c # cs) = utf8_encode c @ enc cs" "enc (cs @ ds) = enc cs @ enc ds"
  by (simp_all add: enc_def)

lemma utf8_encode_nonempty [simp]: "utf8_encode c \<noteq> []"
  by (simp add: utf8_encode_def)

lemma enc_eq_Nil_iff [simp]: "enc cs = [] \<longleftrightarrow> cs = []"
  by (cases cs) auto

lemma utf8_encode_ascii: "c < 0x80 \<Longrightarrow> utf8_encode c = [char_of c]"
  by (simp add: utf8_encode_def)

lemma lead_byte:
  "d < 32 \<Longrightarrow> (192 + d) mod 32 = (d :: nat)" "d < 16 \<Longrightarrow> (224 + d) mod 16 = d" "d < 8 \<Longrightarrow> (240 + d) mod 8 = d"
  using mod_mult_self3 [of 6 32 d] mod_mult_self3 [of 14 16 d] mod_mult_self3 [of 30 8 d] by simp_all

lemma continuation_byte: "(128 + d mod 64) mod 64 = d mod (64 :: nat)"
  using mod_mult_self3 [of 2 64 "d mod 64"] by simp

lemma base64_digits_of_rune:
  "c div 64 * 64 + c mod 64 = (c :: nat)" "c div 4096 * 64 + c div 64 mod 64 = c div 64"
  "c div 262144 * 64 + c div 4096 mod 64 = c div 4096"
  using div_mult_mod_eq [of "c div 64" 64] div_mult_mod_eq [of "c div 4096" 64] by (simp_all add: div_mult2_eq [symmetric])

lemma next_char_enc:
  assumes "c < 0x110000"
  shows "next_char (utf8_encode c @ s) = Some c"
proof -
  consider "c < 0x80" | "0x80 \<le> c" "c < 0x800" | "0x800 \<le> c" "c < 0x10000" | "0x10000 \<le> c" by linarith
  then show ?thesis
  proof cases
    case 1
    then show ?thesis by (simp add: next_char_def utf8_encode_def)
  next
    case 2
    then have "c div 64 < 32" by simp
    then show ?thesis using 2
      by (simp add: next_char_def utf8_encode_def lead_byte continuation_byte base64_digits_of_rune)
  next
    case 3
    then have "c div 4096 < 16" by simp
    then show ?thesis using 3
      by (simp add: next_char_def utf8_encode_def lead_byte continuation_byte base64_digits_of_rune)
  next
    case 4
    then have "c div 262144 < 8" using assms by simp
    moreover have "((c div 262144 * 64 + c div 4096 mod 64) * 64 + c div 64 mod 64) * 64 + c mod 64 = c"
      by (simp only: base64_digits_of_rune)
    ultimately show ?thesis using 4
      by (simp add: next_char_def utf8_encode_def lead_byte continuation_byte)
  qed
qed

definition runes :: "rune list \<Rightarrow> bool" where
  "runes cs \<longleftrightarrow> list_all is_scalar cs"

lemma runes_simps [simp]:
  "runes []" "runes (c # cs) \<longleftrightarrow> is_scalar c \<and> runes cs" "runes (cs @ ds) \<longleftrightarrow> runes cs \<and> runes ds"
  by (simp_all add: runes_def)

lemma next_char_Nil [simp]: "next_char [] = None"
  by (simp add: next_char_def)

lemma next_char_scalar [simp]: "is_scalar c \<Longrightarrow> next_char (utf8_encode c @ s) = Some c"
  by (simp add: is_scalar_def next_char_enc)

text \<open>Decoding inverts encoding.\<close>

theorem chars_of_enc: "runes cs \<Longrightarrow> chars_of (enc cs) = cs"
  by (induction cs) (simp_all add: chars_of.simps [of "[]"] chars_of.simps [of "_ @ _"])

section \<open>Bytes and boundaries\<close>

lemma first_byte:
  assumes "is_scalar c"
  shows "byte (hd (utf8_encode c)) < 0x80 \<longleftrightarrow> c < 0x80"
    and "c < 0x80 \<Longrightarrow> byte (hd (utf8_encode c)) = c"
    and "\<not> (0x80 \<le> byte (hd (utf8_encode c)) \<and> byte (hd (utf8_encode c)) < 0xC0)"
  using assms by (auto simp: utf8_encode_def is_scalar_def)

lemma nth_first_byte: "(enc us @ utf8_encode c @ s) ! length (enc us) = hd (utf8_encode c)"
  by (simp add: nth_append hd_conv_nth)

lemma continuation_bytes:
  assumes "is_scalar c" "0 < i" "i < len_utf8 c"
  shows "0x80 \<le> byte (utf8_encode c ! i) \<and> byte (utf8_encode c ! i) < 0xC0"
proof -
  have "i = 1 \<or> i = 2 \<or> i = 3" "c < 0x110000"
    using assms len_utf8_le [of c] by (auto simp: is_scalar_def)
  then show ?thesis using assms(2,3) by (auto simp: utf8_encode_def len_utf8_def split: if_splits)
qed

text \<open>The boundaries of an encoded string are the ends of its prefixes.\<close>

lemma enc_boundary: "runes cs \<Longrightarrow> is_char_boundary (enc cs) (length (enc (take k cs)))"
proof (cases "k < length cs")
  case True
  assume r: "runes cs"
  have cs: "cs = take k cs @ cs ! k # drop (Suc k) cs" using True by (rule id_take_nth_drop)
  then have "is_scalar (cs ! k)" using r runes_simps(2,3) by metis
  moreover have "enc cs ! length (enc (take k cs)) = hd (utf8_encode (cs ! k))"
    by (subst cs) (simp add: nth_first_byte)
  moreover have "length (enc (take k cs)) < length (enc cs)" by (subst (2) cs) simp
  ultimately show ?thesis using first_byte(3) by (simp add: is_char_boundary_def)
qed (simp add: is_char_boundary_def)

lemma boundary_is_prefix:
  "runes cs \<Longrightarrow> is_char_boundary (enc cs) i \<Longrightarrow> \<exists>us vs. cs = us @ vs \<and> i = length (enc us)"
proof (induction cs arbitrary: i)
  case (Cons c cs)
  show ?case
  proof (cases "i < len_utf8 c")
    case True
    have "enc (c # cs) ! i = utf8_encode c ! i" "i < length (enc (c # cs))" using True by (simp_all add: nth_append)
    then have "\<not> (0x80 \<le> byte (utf8_encode c ! i) \<and> byte (utf8_encode c ! i) < 0xC0)"
      using Cons.prems(2) by (simp add: is_char_boundary_def)
    then have "\<not> 0 < i" using Cons.prems(1) True continuation_bytes [of c i] by auto
    then show ?thesis by (intro exI [of _ "[]"] exI [of _ "c # cs"]) simp
  next
    case False
    then have "is_char_boundary (enc cs) (i - len_utf8 c)"
      using Cons.prems by (auto simp: is_char_boundary_def nth_append)
    then obtain us vs where "cs = us @ vs" "i - len_utf8 c = length (enc us)"
      using Cons.IH Cons.prems(1) by (simp only: runes_simps) blast
    then show ?thesis using False by (intro exI [of _ "c # us"] exI [of _ vs]) auto
  qed
qed (simp add: is_char_boundary_def)

lemma str_slice_enc:
  assumes "runes (us @ vs @ ws)"
  shows "str_slice (enc (us @ vs @ ws)) (length (enc us)) (length (enc (us @ vs))) = Some (enc vs)"
  using enc_boundary [OF assms, of "length us"] enc_boundary [OF assms, of "length us + length vs"]
  by (simp add: str_slice_def)

section \<open>Valid texts\<close>

text \<open>The texts that a \<open>&str\<close> can hold.\<close>

definition valid_text :: "string \<Rightarrow> bool" where
  "valid_text t \<longleftrightarrow> (\<exists>cs. runes cs \<and> t = enc cs)"

lemma valid_text_enc [simp]: "runes cs \<Longrightarrow> valid_text (enc cs)"
  by (auto simp: valid_text_def)

lemma boundary_le: "is_char_boundary t p \<Longrightarrow> p \<le> length t"
  by (auto simp: is_char_boundary_def)

lemma boundary_0: "valid_text t \<Longrightarrow> is_char_boundary t 0"
  unfolding valid_text_def using enc_boundary [of _ 0] by auto

lemma boundary_length [simp]: "is_char_boundary t (length t)"
  by (simp add: is_char_boundary_def)

lemma ascii_is_boundary: "p < length t \<Longrightarrow> byte (t ! p) < 0x80 \<Longrightarrow> is_char_boundary t p"
  by (simp add: is_char_boundary_def)

text \<open>At a boundary before the end there is a character, and after it the next boundary.\<close>

lemma char_at_boundary:
  assumes "valid_text t" "is_char_boundary t p" "p < length t"
  obtains c where "next_char (drop p t) = Some c" "is_scalar c" "is_char_boundary t (p + len_utf8 c)"
    "byte (t ! p) < 0x80 \<longleftrightarrow> c < 0x80" "c < 0x80 \<Longrightarrow> byte (t ! p) = c"
proof -
  obtain cs where r: "runes cs" and t: "t = enc cs" using assms(1) by (auto simp: valid_text_def)
  obtain us vs where cs: "cs = us @ vs" and p: "p = length (enc us)"
    using boundary_is_prefix [OF r] assms(2) t by blast
  have "vs \<noteq> []" using assms(3) by (auto simp: t cs p)
  then obtain c ws where vs: "vs = c # ws" by (cases vs) auto
  have sc: "is_scalar c" using r by (simp add: cs vs)
  have rest: "drop p t = utf8_encode c @ enc ws" by (simp add: t cs p vs)
  have first: "t ! p = hd (utf8_encode c)" using nth_first_byte [of us c "enc ws"] by (simp add: t cs p vs)
  have "is_char_boundary t (length (enc (take (Suc (length us)) cs)))" using enc_boundary [OF r] t by blast
  then have "is_char_boundary t (p + len_utf8 c)" by (simp add: cs vs p)
  then show thesis using that [of c] sc rest first first_byte [OF sc] by simp
qed

lemma ascii_step:
  assumes "valid_text t" "p < length t" "byte (t ! p) < 0x80"
  shows "is_char_boundary t (p + 1)"
proof -
  obtain c where "is_char_boundary t (p + len_utf8 c)" "byte (t ! p) < 0x80 \<longleftrightarrow> c < 0x80"
    using char_at_boundary [OF assms(1) ascii_is_boundary [OF assms(2,3)] assms(2)] by metis
  then show ?thesis using assms(3) by (simp add: len_utf8_def)
qed

lemma slice_boundaries:
  "is_char_boundary t p \<Longrightarrow> is_char_boundary t q \<Longrightarrow> p \<le> q \<Longrightarrow> str_slice t p q = Some (take (q - p) (drop p t))"
  by (simp add: str_slice_def)

lemma slice_rest: "is_char_boundary t p \<Longrightarrow> str_slice t p (length t) = Some (drop p t)"
  using boundary_le [of t p] by (simp add: str_slice_def)

lemma lf_after:
  assumes "runes (us @ vs)"
  shows "length (enc us) < length (enc (us @ vs)) \<and> enc (us @ vs) ! length (enc us) = CHR 0x0A \<longleftrightarrow> vs \<noteq> [] \<and> hd vs = 10"
proof (cases vs)
  case (Cons d ds)
  have d: "is_scalar d" using assms Cons by simp
  have "hd (utf8_encode d) = CHR 0x0A \<longleftrightarrow> d = 10"
  proof
    assume "hd (utf8_encode d) = CHR 0x0A"
    then have "byte (hd (utf8_encode d)) = 10" by (simp add: byte_def)
    then show "d = 10" using first_byte(1,2) [OF d] by simp
  next
    assume "d = 10"
    moreover have "utf8_encode 10 = [CHR 0x0A]" by code_simp
    ultimately show "hd (utf8_encode d) = CHR 0x0A" by simp
  qed
  then show ?thesis using Cons nth_first_byte [of us d "enc ds"] by simp
qed simp

end
