(* ===== verification/Lines.thy ===== *)
theory Lines
  imports Utf8
begin

text \<open>
  Lines and positions in a source text: the iterator over the starts of the lines and the length in
  UTF-16 units (\<open>ts-core/src/core.rs\<close>), and the conversions between byte positions, lines, byte
  offsets and UTF-16 offsets (\<open>ts-scanner/src/scanner.rs\<close>). A \<open>TextPos\<close> is an \<open>i32\<close>, a byte
  position a \<open>nat\<close>. A panic (an index out of range, a slice that is not at a character boundary,
  a failed assertion) is \<open>None\<close>.
\<close>

definition is_line_break :: "rune \<Rightarrow> bool" where
  "is_line_break ch \<longleftrightarrow> ch = 10 \<or> ch = 13 \<or> ch = 0x2028 \<or> ch = 0x2029"

section \<open>The starts of the lines\<close>

text \<open>The loop of \<open>next\<close> advances \<open>pos\<close> past the next line break and says whether there was one.\<close>

definition text_len :: "string \<Rightarrow> int" where
  "text_len text = wrap32 (int (length text))"

lemma text_len_le: "text_len text \<le> int (length text)"
  using wrap32_le [of "int (length text)"] by (simp add: text_len_def)

lemma before_text_len: "int pos < text_len text \<Longrightarrow> pos < length text"
  using text_len_le [of "text"] by linarith

function line_break_loop :: "string \<Rightarrow> nat \<Rightarrow> (nat \<times> bool) option" where
  "line_break_loop text pos =
     (if int pos < text_len text then
        let b = byte (text ! pos) in
        if b < 0x80 then
          let pos = pos + 1 in
          if b = 13 then
            (if int pos < text_len text \<and> byte (text ! pos) = 10 then Some (pos + 1, True) else Some (pos, True))
          else if b = 10 then Some (pos, True)
          else line_break_loop text pos
        else
          (case next_char (drop pos text) of
             None \<Rightarrow> None
           | Some ch \<Rightarrow>
               let pos = pos + len_utf8 ch in
               if is_line_break ch then Some (pos, True) else line_break_loop text pos)
      else Some (pos, False))"
  by pat_completeness auto
termination
  by (relation "measure (\<lambda>(text, pos). length text - pos)") (auto dest: before_text_len intro: diff_less_mono2)

declare line_break_loop.simps [simp del]

record line_starts_seq =
  seq_text :: string
  seq_pos :: nat
  seq_line_start :: nat
  seq_done :: bool

definition compute_ecmaline_starts_seq :: "string \<Rightarrow> line_starts_seq" where
  "compute_ecmaline_starts_seq text = \<lparr>seq_text = text, seq_pos = 0, seq_line_start = 0, seq_done = False\<rparr>"

definition line_starts_next :: "line_starts_seq \<Rightarrow> (line_starts_seq \<times> nat option) option" where
  "line_starts_next s =
     (if seq_done s then Some (s, None)
      else
        (case line_break_loop (seq_text s) (seq_pos s) of
           None \<Rightarrow> None
         | Some (pos, True) \<Rightarrow> Some (s\<lparr>seq_pos := pos, seq_line_start := pos\<rparr>, Some (seq_line_start s))
         | Some (pos, False) \<Rightarrow> Some (s\<lparr>seq_pos := pos, seq_done := True\<rparr>, Some (seq_line_start s))))"

text \<open>\<open>collect\<close> calls \<open>next\<close> until it returns nothing.\<close>

lemma line_break_loop_progress: "line_break_loop text pos = Some (p, True) \<Longrightarrow> pos < p \<and> pos < length text"
proof (induction "text" pos rule: line_break_loop.induct)
  case (1 "text" pos)
  have "int pos < text_len text"
    using 1(3) unfolding line_break_loop.simps [of "text" pos] by (simp split: if_splits)
  moreover have "pos < pos + len_utf8 ch" for ch by simp
  ultimately have "pos < p"
    using 1(1) [OF _ refl _ refl] 1(2) [OF _ refl _ _ refl] 1(3)
    unfolding line_break_loop.simps [of "text" pos]
    by (auto simp: Let_def split: if_splits option.splits dest: add_lessD1)
  then show ?case using before_text_len [OF \<open>int pos < text_len text\<close>] by simp
qed

function collect_line_starts :: "line_starts_seq \<Rightarrow> int list option" where
  "collect_line_starts s =
     (case line_starts_next s of
        None \<Rightarrow> None
      | Some (s', None) \<Rightarrow> Some []
      | Some (s', Some start) \<Rightarrow> map_option ((#) (int start)) (collect_line_starts s'))"
  by pat_completeness auto
termination
  by (relation "measure (\<lambda>s. if seq_done s then 0 else Suc (length (seq_text s) - seq_pos s))")
    (auto simp: line_starts_next_def dest!: line_break_loop_progress split: if_splits option.splits bool.splits)

declare collect_line_starts.simps [simp del]

definition compute_ecmaline_starts :: "string \<Rightarrow> int list option" where
  "compute_ecmaline_starts text = collect_line_starts (compute_ecmaline_starts_seq text)"

section \<open>Lengths in UTF-16 units\<close>

fun sum_utf16 :: "rune list \<Rightarrow> int" where
  "sum_utf16 [] = 0"
| "sum_utf16 (c # cs) = int (len_utf16 c) + sum_utf16 cs"

text \<open>The scan for the first byte that is not ASCII; the sum is in \<open>i32\<close>.\<close>

definition utf16len :: "string \<Rightarrow> int option" where
  "utf16len s =
     (case position (\<lambda>b. byte b \<ge> 0x80) s of
        Some i \<Rightarrow>
          map_option (\<lambda>t. wrap32 (int i + sum_utf16 (chars_of t))) (str_slice s i (length s))
      | None \<Rightarrow> Some (wrap32 (int (length s))))"

section \<open>Conversions\<close>

text \<open>\<open>partition_point\<close> and \<open>binary_search\<close> of the standard library on a sorted slice: \<open>Inr\<close> is the
  index of the element, \<open>Inl\<close> the index where it would be inserted.\<close>

definition partition_point :: "('a \<Rightarrow> bool) \<Rightarrow> 'a list \<Rightarrow> nat" where
  "partition_point P xs = length (takeWhile P xs)"

definition slice_binary_search :: "int list \<Rightarrow> int \<Rightarrow> nat + nat" where
  "slice_binary_search xs x =
     (let i = partition_point (\<lambda>y. y < x) xs in
      if i < length xs \<and> xs ! i = x then Inr i else Inl i)"

text \<open>\<open>position - line_starts[line] as usize\<close> underflows if the first line does not start at 0.\<close>

definition position_to_line_and_byte_offset :: "nat \<Rightarrow> int list \<Rightarrow> (nat \<times> nat) option" where
  "position_to_line_and_byte_offset pos line_starts =
     (let line = partition_point (\<lambda>line_start. line_start mod 2 ^ 64 \<le> int pos) line_starts - 1 in
      if line < length line_starts \<and> line_starts ! line mod 2 ^ 64 \<le> int pos
      then Some (line, pos - nat (line_starts ! line mod 2 ^ 64)) else None)"

definition compute_line_of_position :: "int list \<Rightarrow> nat \<Rightarrow> nat" where
  "compute_line_of_position line_starts pos =
     (case slice_binary_search line_starts (wrap32 (int pos)) of
        Inr index \<Rightarrow> index
      | Inl index \<Rightarrow> index - 1)"

definition get_or_default :: "int list \<Rightarrow> nat \<Rightarrow> int" where
  "get_or_default xs i = (if i < length xs then xs ! i else 0)"

definition get_ecma_line_and_utf16_character_of_position ::
    "string \<Rightarrow> int list \<Rightarrow> nat \<Rightarrow> (nat \<times> int) option" where
  "get_ecma_line_and_utf16_character_of_position text line_map pos =
     (let line = compute_line_of_position line_map pos;
          line_start = nat (max (get_or_default line_map line) 0) in
      case str_slice text line_start (min pos (length text)) of
        None \<Rightarrow> None
      | Some t \<Rightarrow> Some (line, wrap32 (sum_utf16 (chars_of t))))"

definition get_ecma_line_and_byte_offset_of_position :: "int list \<Rightarrow> nat \<Rightarrow> nat \<times> nat" where
  "get_ecma_line_and_byte_offset_of_position line_map pos =
     (let line = compute_line_of_position line_map pos;
          line_start = nat (max (get_or_default line_map line) 0) in
      (line, pos - line_start))"

definition saturating_add32 :: "int \<Rightarrow> int \<Rightarrow> int" where
  "saturating_add32 a b = max (- (2 ^ 31)) (min (2 ^ 31 - 1) (a + b))"

definition compute_position_of_line_and_byte_offset :: "int list \<Rightarrow> nat \<Rightarrow> nat \<Rightarrow> nat" where
  "compute_position_of_line_and_byte_offset line_starts line byte_offset =
     nat (saturating_add32 (get_or_default line_starts line) (wrap32 (int byte_offset)) mod 2 ^ 64)"

text \<open>The loop that counts UTF-16 units from \<open>pos\<close> to the end of the line.\<close>

function utf16_walk :: "string \<Rightarrow> nat \<Rightarrow> int \<Rightarrow> int \<Rightarrow> nat \<Rightarrow> (int \<times> nat) option" where
  "utf16_walk text line_end character utf16 pos =
     (if pos < line_end then
        if utf16 \<ge> character then Some (utf16, pos)
        else if \<not> is_char_boundary text pos then None
        else
          (case next_char (drop pos text) of
             None \<Rightarrow> Some (utf16, pos)
           | Some ch \<Rightarrow>
               utf16_walk text line_end character (wrap32 (utf16 + int (len_utf16 ch))) (pos + len_utf8 ch))
      else Some (utf16, pos))"
  by pat_completeness auto
termination
  by (relation "measure (\<lambda>(_, line_end, _, _, pos). line_end - pos)") (auto intro: diff_less_mono2)

declare utf16_walk.simps [simp del]

definition compute_position_of_line_and_utf16_character ::
    "int list \<Rightarrow> nat \<Rightarrow> int \<Rightarrow> string \<Rightarrow> bool \<Rightarrow> nat option" where
  "compute_position_of_line_and_utf16_character line_starts line character text allow_edits =
     (if \<not> line < length line_starts then
        if \<not> allow_edits then None
        else Some (if line_starts = [] then 0
                   else if line = 0 then nat (max (line_starts ! 0) 0)
                   else nat (max (line_starts ! (length line_starts - 1)) 0))
      else
        let line_start = nat (max (line_starts ! line) 0) in
        if character > 0 then
          let line_end = (if line + 1 < length line_starts
                          then nat (max (line_starts ! (line + 1)) 0) else length text) in
          (case utf16_walk text line_end character 0 line_start of
             None \<Rightarrow> None
           | Some (utf16, pos) \<Rightarrow>
               if \<not> allow_edits \<and> pos = line_end \<and> utf16 < character then None
               else if allow_edits \<and> pos > length text then Some (length text)
               else Some pos)
        else if allow_edits \<and> line_start > length text then Some (length text)
        else if \<not> allow_edits \<and> \<not> line_start \<le> length text then None
        else Some line_start)"

section \<open>The starts of the lines, seen on characters\<close>

text \<open>Where the line of the text \<open>vs\<close> at byte position \<open>p\<close> ends.\<close>

fun next_break :: "nat \<Rightarrow> rune list \<Rightarrow> nat \<times> bool" where
  "next_break p [] = (p, False)"
| "next_break p (c # vs) =
     (if c = 13 then (if vs \<noteq> [] \<and> hd vs = 10 then (p + 2, True) else (p + 1, True))
      else if is_line_break c then (p + len_utf8 c, True)
      else next_break (p + len_utf8 c) vs)"

fun later_starts :: "nat \<Rightarrow> rune list \<Rightarrow> nat list" where
  "later_starts p [] = []"
| "later_starts p (c # vs) =
     (if is_line_break c \<and> \<not> (c = 13 \<and> vs \<noteq> [] \<and> hd vs = 10)
      then (p + len_utf8 c) # later_starts (p + len_utf8 c) vs
      else later_starts (p + len_utf8 c) vs)"

definition short_text :: "rune list \<Rightarrow> bool" where
  "short_text cs \<longleftrightarrow> runes cs \<and> int (length (enc cs)) < 2 ^ 31"

lemma text_len_enc: "short_text cs \<Longrightarrow> text_len (enc cs) = int (length (enc cs))"
  by (simp add: text_len_def short_text_def is_i32_def)

lemma line_break_loop_enc:
  "short_text (us @ vs) \<Longrightarrow> line_break_loop (enc (us @ vs)) (length (enc us)) = Some (next_break (length (enc us)) vs)"
proof (induction vs arbitrary: us)
  case Nil
  then show ?case by (simp add: line_break_loop.simps [of "enc us"] text_len_enc)
next
  case (Cons c vs)
  let ?t = "enc (us @ c # vs)" and ?p = "length (enc us)"
  have c: "is_scalar c" and vs: "runes vs" using Cons.prems by (simp_all add: short_text_def)
  have len: "text_len ?t = int (?p + len_utf8 c + length (enc vs))" unfolding text_len_enc [OF Cons.prems] by simp
  have lt: "int ?p < text_len ?t" unfolding len using len_utf8_pos [of c] by linarith
  have b: "byte (?t ! ?p) = byte (hd (utf8_encode c))" using nth_first_byte [of us c "enc vs"] by simp
  have IH: "line_break_loop ?t (?p + len_utf8 c) = Some (next_break (?p + len_utf8 c) vs)"
    using Cons.IH [of "us @ [c]"] Cons.prems by simp
  have nl: "int (?p + 1) < text_len ?t \<and> byte (?t ! (?p + 1)) = 10 \<longleftrightarrow> vs \<noteq> [] \<and> hd vs = 10" if "c = 13"
  proof (cases vs)
    case Nil
    then show ?thesis unfolding len using that by (simp add: len_utf8_def)
  next
    case (Cons d ds)
    have d: "is_scalar d" using vs Cons by simp
    have "byte (?t ! (?p + 1)) = byte (hd (utf8_encode d))"
      using nth_first_byte [of "us @ [c]" d "enc ds"] that Cons by (simp add: len_utf8_def)
    moreover have "int (?p + 1) < text_len ?t"
      unfolding len using that Cons len_utf8_pos [of d] by (simp add: len_utf8_def)
    moreover have "byte (hd (utf8_encode d)) = 10 \<longleftrightarrow> d = 10"
      using first_byte [OF d] by (cases "d < 128") auto
    ultimately show ?thesis using Cons by simp
  qed
  show ?case
  proof (cases "c < 0x80")
    case True
    then have "byte (?t ! ?p) = c" "len_utf8 c = 1" using b first_byte(2) [OF c] by (simp_all add: len_utf8_def)
    then show ?thesis
      unfolding line_break_loop.simps [of ?t ?p] Let_def next_break.simps
      using lt True IH nl by (auto simp: is_line_break_def)
  next
    case False
    then have "\<not> byte (?t ! ?p) < 0x80" using b first_byte(1) [OF c] by simp
    moreover have "next_char (drop ?p ?t) = Some c" using c by simp
    ultimately show ?thesis
      unfolding line_break_loop.simps [of ?t ?p] Let_def next_break.simps
      using lt False IH by auto
  qed
qed


lemma next_break_later_starts:
  "next_break p vs = (q, True) \<Longrightarrow>
     \<exists>ws xs. vs = ws @ xs \<and> ws \<noteq> [] \<and> q = p + length (enc ws) \<and> later_starts p vs = q # later_starts q xs"
proof (induction p vs rule: next_break.induct)
  case (2 p c vs)
  consider (crlf) ds where "c = 13" "vs = 10 # ds" | (brk) "is_line_break c" "\<not> (c = 13 \<and> vs \<noteq> [] \<and> hd vs = 10)"
    | (other) "\<not> is_line_break c" by (cases vs) auto
  then show ?case
  proof cases
    case crlf
    then show ?thesis using 2(2)
      by (intro exI [of _ "[13, 10]"] exI [of _ ds]) (simp add: is_line_break_def len_utf8_def)
  next
    case brk
    then have "q = p + len_utf8 c" using 2(2) by (auto simp: len_utf8_def split: if_splits)
    then show ?thesis using brk by (intro exI [of _ "[c]"] exI [of _ vs]) simp
  next
    case other
    then have "next_break (p + len_utf8 c) vs = (q, True)" "c \<noteq> 13" using 2(2) by (auto simp: is_line_break_def)
    then obtain ws xs where "vs = ws @ xs" "q = p + len_utf8 c + length (enc ws)"
      "later_starts (p + len_utf8 c) vs = q # later_starts q xs" using 2(1) other by blast
    then show ?thesis using other by (intro exI [of _ "c # ws"] exI [of _ xs]) simp
  qed
qed simp

lemma next_break_none: "next_break p vs = (q, False) \<Longrightarrow> later_starts p vs = []"
  by (induction p vs rule: next_break.induct) (auto split: if_splits)

lemma collect_line_starts_enc:
  "short_text (us @ vs) \<Longrightarrow>
   collect_line_starts \<lparr>seq_text = enc (us @ vs), seq_pos = length (enc us), seq_line_start = s, seq_done = False\<rparr>
     = Some (int s # map int (later_starts (length (enc us)) vs))"
proof (induction "length vs" arbitrary: us vs s rule: less_induct)
  case less
  let ?p = "length (enc us)"
  let ?s = "\<lparr>seq_text = enc (us @ vs), seq_pos = ?p, seq_line_start = s, seq_done = False\<rparr>"
  obtain q found where nb: "next_break ?p vs = (q, found)" by fastforce
  show ?case
  proof (cases found)
    case True
    then obtain ws xs where ws: "vs = ws @ xs" "ws \<noteq> []" "q = ?p + length (enc ws)"
      "later_starts ?p vs = q # later_starts q xs" using next_break_later_starts [of ?p vs q] nb by auto
    have "collect_line_starts (?s\<lparr>seq_pos := q, seq_line_start := q\<rparr>) = Some (int q # map int (later_starts q xs))"
      using less.hyps [of xs "us @ ws" q] less.prems ws(1,2,3) by simp
    moreover have "line_starts_next ?s = Some (?s\<lparr>seq_pos := q, seq_line_start := q\<rparr>, Some s)"
      using line_break_loop_enc [OF less.prems] nb True by (simp add: line_starts_next_def)
    ultimately show ?thesis unfolding collect_line_starts.simps [of ?s] by (simp add: ws(4))
  next
    case False
    then have "line_starts_next ?s = Some (?s\<lparr>seq_pos := q, seq_done := True\<rparr>, Some s)"
      using line_break_loop_enc [OF less.prems] nb by (simp add: line_starts_next_def)
    moreover have "collect_line_starts (?s\<lparr>seq_pos := q, seq_done := True\<rparr>) = Some []"
      unfolding collect_line_starts.simps [of "?s\<lparr>seq_pos := q, seq_done := True\<rparr>"] by (simp add: line_starts_next_def)
    ultimately show ?thesis
      unfolding collect_line_starts.simps [of ?s] using next_break_none nb False by simp
  qed
qed

lemma compute_ecmaline_starts_enc:
  "short_text cs \<Longrightarrow> compute_ecmaline_starts (enc cs) = Some (map int (0 # later_starts 0 cs))"
  using collect_line_starts_enc [of "[]" cs 0] by (simp add: compute_ecmaline_starts_def compute_ecmaline_starts_seq_def)

text \<open>A position starts a line if it is the start of the text or comes right after a line break,
  where a carriage return before a line feed is not yet the end of the line.\<close>

definition is_line_start :: "rune list \<Rightarrow> nat \<Rightarrow> bool" where
  "is_line_start cs q \<longleftrightarrow> q = 0 \<or>
     (\<exists>us c vs. cs = us @ c # vs \<and> q = length (enc (us @ [c])) \<and> is_line_break c
        \<and> \<not> (c = 13 \<and> vs \<noteq> [] \<and> hd vs = 10))"

lemma later_starts_iff:
  "q \<in> set (later_starts p vs) \<longleftrightarrow>
     (\<exists>us c ws. vs = us @ c # ws \<and> q = p + length (enc (us @ [c])) \<and> is_line_break c
        \<and> \<not> (c = 13 \<and> ws \<noteq> [] \<and> hd ws = 10))"
proof (induction p vs rule: later_starts.induct)
  case (2 p c vs)
  let ?ok = "is_line_break c \<and> \<not> (c = 13 \<and> vs \<noteq> [] \<and> hd vs = 10)"
  have "q \<in> set (later_starts p (c # vs)) \<longleftrightarrow> ?ok \<and> q = p + len_utf8 c \<or> q \<in> set (later_starts (p + len_utf8 c) vs)"
    by auto
  also have "\<dots> \<longleftrightarrow> (\<exists>us d ws. c # vs = us @ d # ws \<and> q = p + length (enc (us @ [d])) \<and> is_line_break d
      \<and> \<not> (d = 13 \<and> ws \<noteq> [] \<and> hd ws = 10))" (is "_ \<longleftrightarrow> ?R")
  proof
    assume "?ok \<and> q = p + len_utf8 c \<or> q \<in> set (later_starts (p + len_utf8 c) vs)"
    then show ?R
    proof
      assume "?ok \<and> q = p + len_utf8 c"
      then show ?R by (intro exI [of _ "[]"] exI [of _ c] exI [of _ vs]) simp
    next
      assume "q \<in> set (later_starts (p + len_utf8 c) vs)"
      moreover have "q \<in> set (later_starts (p + len_utf8 c) vs) \<longleftrightarrow>
          (\<exists>us d ws. vs = us @ d # ws \<and> q = p + len_utf8 c + length (enc (us @ [d])) \<and> is_line_break d
             \<and> \<not> (d = 13 \<and> ws \<noteq> [] \<and> hd ws = 10))" using 2 by (cases ?ok) blast+
      ultimately obtain us d ws where "vs = us @ d # ws" "q = p + len_utf8 c + length (enc (us @ [d]))"
        "is_line_break d" "\<not> (d = 13 \<and> ws \<noteq> [] \<and> hd ws = 10)" by blast
      then show ?R by (intro exI [of _ "c # us"] exI [of _ d] exI [of _ ws]) simp
    qed
  next
    assume ?R
    then obtain us d ws where *: "c # vs = us @ d # ws" "q = p + length (enc (us @ [d]))"
      "is_line_break d" "\<not> (d = 13 \<and> ws \<noteq> [] \<and> hd ws = 10)" by blast
    show "?ok \<and> q = p + len_utf8 c \<or> q \<in> set (later_starts (p + len_utf8 c) vs)"
    proof (cases us)
      case Nil
      then show ?thesis using * by simp
    next
      case (Cons e us')
      then have "vs = us' @ d # ws" "q = p + len_utf8 c + length (enc (us' @ [d]))" using * by auto
      then show ?thesis using 2 *(3,4) by (cases ?ok) blast+
    qed
  qed
  finally show ?case .
qed simp

lemma later_starts_above: "q \<in> set (later_starts p vs) \<Longrightarrow> p < q"
  unfolding later_starts_iff using len_utf8_pos by auto

lemma later_starts_sorted: "sorted_wrt (<) (later_starts p vs)"
  by (induction p vs rule: later_starts.induct) (auto dest: later_starts_above)

lemma line_start_iff: "is_line_start cs q \<longleftrightarrow> q = 0 \<or> q \<in> set (later_starts 0 cs)"
  unfolding is_line_start_def later_starts_iff by (simp only: add_0)

text \<open>C18: the iterator never panics on a text below 2 GB and yields the starts of the lines, each once
  and in order: position 0 and the positions right after a line break, where CR LF is one break.\<close>

theorem line_starts_exact:
  assumes "short_text cs"
  shows "\<exists>ls. compute_ecmaline_starts (enc cs) = Some (map int ls) \<and> sorted_wrt (<) ls
    \<and> set ls = {q. is_line_start cs q}"
proof (intro exI conjI)
  show "compute_ecmaline_starts (enc cs) = Some (map int (0 # later_starts 0 cs))"
    by (rule compute_ecmaline_starts_enc [OF assms])
  show "sorted_wrt (<) (0 # later_starts 0 cs)"
    using later_starts_sorted [of 0 cs] later_starts_above [of _ 0 cs] by simp
  show "set (0 # later_starts 0 cs) = {q. is_line_start cs q}"
    using line_start_iff by auto
qed

theorem line_starts_exact_witness:
  "compute_ecmaline_starts (enc [97, 13, 10, 0x2028, 13]) = Some [0, 3, 6, 7]
   \<and> (\<exists>ls. compute_ecmaline_starts (enc [97, 13, 10, 0x2028, 13]) = Some (map int ls) \<and> sorted_wrt (<) ls
        \<and> set ls = {q. is_line_start [97, 13, 10, 0x2028, 13] q})"
proof -
  have short: "short_text [97, 13, 10, 0x2028, 13]" by (simp add: short_text_def is_scalar_def len_utf8_def)
  have "compute_ecmaline_starts (enc [97, 13, 10, 0x2028, 13]) = Some [0, 3, 6, 7]"
    unfolding compute_ecmaline_starts_enc [OF short] by (simp add: is_line_break_def len_utf8_def)
  then show ?thesis using line_starts_exact [OF short] by blast
qed

section \<open>The line of a position\<close>

text \<open>What the conversions need of a table of line starts.\<close>

definition line_table :: "nat list \<Rightarrow> bool" where
  "line_table L \<longleftrightarrow> L \<noteq> [] \<and> hd L = 0 \<and> sorted_wrt (<) L \<and> (\<forall>s\<in>set L. int s < 2 ^ 31)"

definition line_index :: "nat list \<Rightarrow> nat \<Rightarrow> nat" where
  "line_index L pos = length (takeWhile (\<lambda>s. s \<le> pos) L) - 1"

lemma takeWhile_sorted_nth:
  assumes "sorted_wrt (<) (L :: nat list)" "i < length L"
  shows "i < length (takeWhile (\<lambda>s. s \<le> pos) L) \<longleftrightarrow> L ! i \<le> pos"
proof
  show "i < length (takeWhile (\<lambda>s. s \<le> pos) L) \<Longrightarrow> L ! i \<le> pos"
    using nth_mem [of i "takeWhile (\<lambda>s. s \<le> pos) L"] by (auto simp: takeWhile_nth dest!: set_takeWhileD)
next
  let ?n = "length (takeWhile (\<lambda>s. s \<le> pos) L)"
  assume le: "L ! i \<le> pos"
  show "i < ?n"
  proof (rule ccontr)
    assume "\<not> i < ?n"
    then have "?n \<le> i" "?n < length L" using assms(2) by auto
    then have "\<not> L ! ?n \<le> pos" "L ! ?n \<le> L ! i"
      using nth_length_takeWhile [of "\<lambda>s. s \<le> pos" L] sorted_wrt_nth_less [OF assms(1), of ?n i] assms(2)
      by (auto simp: le_less)
    then show False using le by simp
  qed
qed

lemma line_index_props:
  assumes "line_table L"
  shows "line_index L pos < length L" and "L ! line_index L pos \<le> pos"
    and "line_index L pos + 1 < length L \<Longrightarrow> pos < L ! (line_index L pos + 1)"
proof -
  let ?n = "length (takeWhile (\<lambda>s. s \<le> pos) L)"
  have srt: "sorted_wrt (<) L" and ne: "0 < length L" "L ! 0 = 0"
    using assms by (auto simp: line_table_def hd_conv_nth)
  have "0 < ?n" using takeWhile_sorted_nth [OF srt ne(1)] ne(2) by simp
  moreover have "?n \<le> length L" by (rule length_takeWhile_le)
  ultimately show k: "line_index L pos < length L" unfolding line_index_def by linarith
  show "L ! line_index L pos \<le> pos"
    using takeWhile_sorted_nth [OF srt k, of pos] \<open>0 < ?n\<close> by (simp add: line_index_def)
  show "pos < L ! (line_index L pos + 1)" if "line_index L pos + 1 < length L"
    using takeWhile_sorted_nth [OF srt that, of pos] \<open>0 < ?n\<close> by (simp add: line_index_def)
qed

lemma line_index_unique:
  assumes "line_table L" "k < length L" "L ! k \<le> pos" "k + 1 < length L \<Longrightarrow> pos < L ! (k + 1)"
  shows "line_index L pos = k"
proof (rule ccontr)
  assume ne: "line_index L pos \<noteq> k"
  have srt: "sorted_wrt (<) L" using assms(1) by (simp add: line_table_def)
  have mono: "i \<le> j \<Longrightarrow> j < length L \<Longrightarrow> L ! i \<le> L ! j" for i j
    using sorted_wrt_nth_less [OF srt, of i j] by (cases "i = j") auto
  let ?l = "line_index L pos"
  note l = line_index_props [OF assms(1), of pos]
  show False
  proof (cases "?l < k")
    case True
    then show False using l(3) mono [of "?l + 1" k] assms(2,3) by simp
  next
    case False
    then have "k + 1 \<le> ?l" using ne by simp
    then show False using assms(4) mono [of "k + 1" ?l] l(1,2) by simp
  qed
qed

lemma partition_point_line:
  assumes "line_table L"
  shows "partition_point (\<lambda>s. s mod 2 ^ 64 \<le> int pos) (map int L) = length (takeWhile (\<lambda>s. s \<le> pos) L)"
proof -
  have "int s mod 2 ^ 64 = int s" if "s \<in> set L" for s using assms that by (auto simp: line_table_def)
  then show ?thesis by (auto simp: partition_point_def takeWhile_map intro!: arg_cong [where f = length] takeWhile_cong)
qed

lemma position_to_line_eq:
  assumes "line_table L"
  shows "position_to_line_and_byte_offset pos (map int L) = Some (line_index L pos, pos - L ! line_index L pos)"
proof -
  note l = line_index_props [OF assms, of pos]
  have "int (L ! line_index L pos) mod 2 ^ 64 = int (L ! line_index L pos)"
    using nth_mem [OF l(1)] assms by (auto simp: line_table_def)
  then show ?thesis using l(1,2)
    unfolding position_to_line_and_byte_offset_def partition_point_line [OF assms] by (simp add: Let_def line_index_def)
qed

lemma compute_line_of_position_eq:
  assumes "line_table L" "int pos < 2 ^ 31"
  shows "compute_line_of_position (map int L) pos = line_index L pos"
proof -
  let ?n = "length (takeWhile (\<lambda>s. s < pos) L)"
  have w: "wrap32 (int pos) = int pos" using assms(2) by (intro wrap32_id) (simp add: is_i32_def)
  have tw: "partition_point (\<lambda>y. y < int pos) (map int L) = ?n"
    by (simp add: partition_point_def takeWhile_map comp_def)
  have n: "?n \<le> length L" by (rule length_takeWhile_le)
  have below: "i < ?n \<Longrightarrow> L ! i < pos" for i
    using nth_mem [of i "takeWhile (\<lambda>s. s < pos) L"] by (auto simp: takeWhile_nth dest!: set_takeWhileD)
  have at: "?n < length L \<Longrightarrow> pos \<le> L ! ?n" using nth_length_takeWhile [of "\<lambda>s. s < pos" L] by simp
  have srt: "sorted_wrt (<) L" using assms(1) by (simp add: line_table_def)
  show ?thesis
  proof (cases "?n < length L \<and> L ! ?n = pos")
    case True
    then have "line_index L pos = ?n"
      using sorted_wrt_nth_less [OF srt, of ?n "?n + 1"] by (intro line_index_unique [OF assms(1)]) auto
    then show ?thesis using True by (simp add: compute_line_of_position_def slice_binary_search_def w tw Let_def)
  next
    case False
    have "0 < ?n"
    proof (rule ccontr)
      assume "\<not> 0 < ?n"
      then show False using False at assms(1) by (cases L) (auto simp: line_table_def)
    qed
    then have "?n - 1 < length L" using n by linarith
    then have "line_index L pos = ?n - 1"
      using \<open>0 < ?n\<close> below [of "?n - 1"] at False n by (intro line_index_unique [OF assms(1)]) auto
    then show ?thesis using False
      by (auto simp: compute_line_of_position_def slice_binary_search_def w tw Let_def)
  qed
qed


section \<open>Round trips between positions\<close>

definition starts_of :: "rune list \<Rightarrow> nat list" where
  "starts_of cs = 0 # later_starts 0 cs"

lemma later_starts_le: "q \<in> set (later_starts p vs) \<Longrightarrow> q \<le> p + length (enc vs)"
  by (auto simp: later_starts_iff)

lemma line_table_starts_of: "short_text cs \<Longrightarrow> line_table (starts_of cs)"
  using later_starts_sorted [of 0 cs] later_starts_above [of _ 0 cs] later_starts_le [of _ 0 cs]
  by (fastforce simp: line_table_def starts_of_def short_text_def)

lemma starts_of_enc: "short_text cs \<Longrightarrow> compute_ecmaline_starts (enc cs) = Some (map int (starts_of cs))"
  by (simp only: compute_ecmaline_starts_enc starts_of_def)

lemma starts_of_prefix: "q \<in> set (starts_of cs) \<Longrightarrow> \<exists>us vs. cs = us @ vs \<and> q = length (enc us)"
proof (cases "q = 0")
  case False
  assume "q \<in> set (starts_of cs)"
  then obtain us c vs where "cs = (us @ [c]) @ vs" "q = length (enc (us @ [c]))"
    using False by (auto simp: starts_of_def later_starts_iff)
  then show ?thesis by blast
qed auto

text \<open>a byte position is converted to its line and its offset from the greatest line start that is not
  after it, by both conversions, and converted back.\<close>

theorem line_and_byte_offset_roundtrip:
  assumes "short_text cs" and "pos \<le> length (enc cs)" and "compute_ecmaline_starts (enc cs) = Some ls"
  shows "\<exists>line off. position_to_line_and_byte_offset pos ls = Some (line, off)
    \<and> get_ecma_line_and_byte_offset_of_position ls pos = (line, off)
    \<and> compute_position_of_line_and_byte_offset ls line off = pos
    \<and> off \<le> pos \<and> is_line_start cs (pos - off) \<and> (\<forall>q. pos - off < q \<and> q \<le> pos \<longrightarrow> \<not> is_line_start cs q)"
proof -
  let ?L = "starts_of cs"
  let ?k = "line_index ?L pos" 
  have tab: "line_table ?L" and ls: "ls = map int ?L"
    using assms(1,3) by (simp_all add: line_table_starts_of starts_of_enc)
  have p: "int pos < 2 ^ 31" using assms(1,2) by (simp add: short_text_def)
  note l = line_index_props [OF tab, of pos]
  have mem: "?L ! ?k \<in> set ?L" using l(1) by simp
  have start: "q \<in> set ?L \<longleftrightarrow> is_line_start cs q" for q by (simp add: starts_of_def line_start_iff)
  have get: "get_or_default ls ?k = int (?L ! ?k)" using l(1) by (simp add: get_or_default_def ls)
  have 1: "position_to_line_and_byte_offset pos ls = Some (?k, pos - ?L ! ?k)"
    unfolding ls by (rule position_to_line_eq [OF tab])
  have 2: "get_ecma_line_and_byte_offset_of_position ls pos = (?k, pos - ?L ! ?k)"
    unfolding get_ecma_line_and_byte_offset_of_position_def
    using compute_line_of_position_eq [OF tab p] get by (simp add: ls Let_def)
  have off: "wrap32 (int (pos - ?L ! ?k)) = int (pos - ?L ! ?k)" using p by (intro wrap32_id) (simp add: is_i32_def)
  have 3: "compute_position_of_line_and_byte_offset ls ?k (pos - ?L ! ?k) = pos"
    unfolding compute_position_of_line_and_byte_offset_def get off saturating_add32_def using l(2) p by simp
  have 4: "\<not> is_line_start cs q" if q: "?L ! ?k < q \<and> q \<le> pos" for q
  proof
    assume "is_line_start cs q"
    then obtain i where i: "i < length ?L" "?L ! i = q" using start by (metis in_set_conv_nth)
    have srt: "sorted_wrt (<) ?L" using tab by (simp add: line_table_def)
    have "?k < i"
      using i q sorted_wrt_nth_less [OF srt, of i ?k] l(1) by (metis leD less_imp_le linorder_cases)
    then have "pos < ?L ! (?k + 1)" "?L ! (?k + 1) \<le> ?L ! i"
      using l(3) i(1) sorted_wrt_nth_less [OF srt, of "?k + 1" i] by (cases "?k + 1 = i"; simp)+
    then show False using i(2) q by simp
  qed
  show ?thesis
    using 1 2 3 4 l(2) mem start by (intro exI [of _ ?k] exI [of _ "pos - ?L ! ?k"]) simp
qed

theorem line_and_byte_offset_roundtrip_witness:
  "short_text [97, 10, 0x2028, 98] \<and> (\<exists>line off. position_to_line_and_byte_offset 5 [0, 2, 5] = Some (line, off)
     \<and> compute_position_of_line_and_byte_offset [0, 2, 5] line off = 5)"
proof -
  have short: "short_text [97, 10, 0x2028, 98]" by (simp add: short_text_def is_scalar_def len_utf8_def)
  have "compute_ecmaline_starts (enc [97, 10, 0x2028, 98]) = Some [0, 2, 5]"
    unfolding compute_ecmaline_starts_enc [OF short] by (simp add: is_line_break_def len_utf8_def)
  moreover have "5 \<le> length (enc [97, 10, 0x2028, 98])" by (simp add: len_utf8_def)
  ultimately show ?thesis using line_and_byte_offset_roundtrip [OF short] short by blast
qed

lemma sum_utf16_append [simp]: "sum_utf16 (xs @ ys) = sum_utf16 xs + sum_utf16 ys"
  by (induction xs) simp_all

lemma sum_utf16_bounds: "0 \<le> sum_utf16 xs" "sum_utf16 xs \<le> int (length (enc xs))"
  by (induction xs) (auto simp: len_utf16_def len_utf8_def)

lemma len_utf16_pos: "0 < len_utf16 c"
  by (simp add: len_utf16_def)

lemma sum_utf16_pos: "xs \<noteq> [] \<Longrightarrow> 0 < sum_utf16 xs"
  using sum_utf16_bounds len_utf16_pos by (cases xs) (auto simp: add_pos_nonneg)

lemma utf16_walk_enc:
  "short_text (ws @ xs @ vs) \<Longrightarrow> length (enc (ws @ xs)) \<le> line_end \<Longrightarrow> 0 \<le> u \<Longrightarrow> u + sum_utf16 xs < 2 ^ 31 \<Longrightarrow>
   utf16_walk (enc (ws @ xs @ vs)) line_end (u + sum_utf16 xs) u (length (enc ws))
     = Some (u + sum_utf16 xs, length (enc (ws @ xs)))"
proof (induction xs arbitrary: ws u)
  case Nil
  then show ?case by (simp add: utf16_walk.simps [of _ _ u u])
next
  case (Cons c xs)
  let ?t = "enc (ws @ (c # xs) @ vs)" and ?p = "length (enc ws)"
  let ?u = "u + int (len_utf16 c)"
  have c: "is_scalar c" and r: "runes (ws @ (c # xs) @ vs)" using Cons.prems(1) by (simp_all add: short_text_def)
  have "?p + len_utf8 c \<le> line_end" using Cons.prems(2) by simp
  then have lt: "?p < line_end" using len_utf8_pos [of c] by linarith
  have ch: "\<not> u + sum_utf16 (c # xs) \<le> u" using sum_utf16_pos [of "c # xs"] by simp
  have bd: "is_char_boundary ?t ?p" using enc_boundary [OF r, of "length ws"] by simp
  have nc: "next_char (drop ?p ?t) = Some c" using c by simp
  have w: "wrap32 ?u = ?u"
    using Cons.prems(3,4) sum_utf16_bounds(1) [of xs] by (intro wrap32_id) (simp add: is_i32_def)
  have IH: "utf16_walk ?t line_end (?u + sum_utf16 xs) ?u (length (enc (ws @ [c])))
      = Some (?u + sum_utf16 xs, length (enc ((ws @ [c]) @ xs)))"
    using Cons.IH [of "ws @ [c]" ?u] Cons.prems by simp
  have "utf16_walk ?t line_end (u + sum_utf16 (c # xs)) u ?p
      = utf16_walk ?t line_end (u + sum_utf16 (c # xs)) ?u (?p + len_utf8 c)"
    unfolding utf16_walk.simps [of ?t line_end "u + sum_utf16 (c # xs)" u ?p] nc using lt ch bd w
    by (simp only: if_True if_False option.case not_True_eq_False)
  then show ?case using IH by (simp add: add.assoc)
qed

lemma prefixes_by_length:
  assumes "us @ vs = us' @ vs'" "length (enc us) \<le> length (enc us')"
  shows "\<exists>xs. us' = us @ xs"
proof -
  consider xs where "us' = us @ xs" | xs where "us = us' @ xs"
    using assms(1) by (auto simp: append_eq_append_conv2)
  then show ?thesis
  proof cases
    case 2
    then have "enc xs = []" using assms(2) by simp
    then show ?thesis using 2 by (intro exI [of _ "[]"]) simp
  qed blast
qed

text \<open>The line and the offset of a position at a boundary.\<close>

lemma line_and_utf16_at:
  assumes "short_text cs" and "is_char_boundary (enc cs) pos" and "compute_ecmaline_starts (enc cs) = Some ls"
  obtains k ws xs vs where "cs = ws @ xs @ vs" "pos = length (enc (ws @ xs))" "compute_line_of_position ls pos = k"
    "k < length ls" "ls ! k = int (length (enc ws))" "k + 1 < length ls \<Longrightarrow> int pos < ls ! (k + 1)" "sum_utf16 xs < 2 ^ 31"
    "get_ecma_line_and_utf16_character_of_position (enc cs) ls pos = Some (k, sum_utf16 xs)"
proof -
  let ?L = "starts_of cs"
  let ?k = "line_index ?L pos"
  have tab: "line_table ?L" and ls: "ls = map int ?L"
    using assms(1,3) by (simp_all add: line_table_starts_of starts_of_enc)
  have r: "runes cs" using assms(1) by (simp add: short_text_def)
  have le: "pos \<le> length (enc cs)" using assms(2) by (auto simp: is_char_boundary_def)
  then have p: "int pos < 2 ^ 31" using assms(1) by (simp add: short_text_def)
  note l = line_index_props [OF tab, of pos]
  obtain us vs where us: "cs = us @ vs" "pos = length (enc us)" using boundary_is_prefix [OF r assms(2)] by blast
  obtain ws zs where ws: "cs = ws @ zs" "?L ! ?k = length (enc ws)" using starts_of_prefix [of "?L ! ?k" cs] l(1) by auto
  obtain xs where xs: "us = ws @ xs" using prefixes_by_length [of ws zs us vs] us ws l(2) by auto
  have cs: "cs = ws @ xs @ vs" "pos = length (enc (ws @ xs))" using us xs by simp_all
  have small: "sum_utf16 xs < 2 ^ 31"
    using sum_utf16_bounds(2) [of xs] p unfolding cs(2) by simp
  have line: "compute_line_of_position ls pos = ?k" unfolding ls by (rule compute_line_of_position_eq [OF tab p])
  have len: "?k < length ls" "nat (max (ls ! ?k) 0) = length (enc ws)" using l(1) ws(2) by (simp_all add: ls)
  have "str_slice (enc cs) (length (enc ws)) (min pos (length (enc cs))) = Some (enc xs)"
    using str_slice_enc [of ws xs vs] r le unfolding cs by (simp add: min_absorb1)
  moreover have "wrap32 (sum_utf16 (chars_of (enc xs))) = sum_utf16 xs"
    using small sum_utf16_bounds(1) [of xs] r by (subst chars_of_enc) (simp_all add: cs(1) is_i32_def)
  ultimately have 1: "get_ecma_line_and_utf16_character_of_position (enc cs) ls pos = Some (?k, sum_utf16 xs)"
    unfolding get_ecma_line_and_utf16_character_of_position_def line Let_def
    using len by (simp add: get_or_default_def)
  show ?thesis
    using that [OF cs line _ _ _ small 1] l ws(2) by (simp add: ls)
qed

text \<open>C22: a position at a character boundary is converted to its line and its offset in UTF-16 units without a
  panic, and converted back to the same position, whether or not edits are allowed.\<close>

theorem line_and_utf16_roundtrip:
  assumes "short_text cs" and "is_char_boundary (enc cs) pos" and "compute_ecmaline_starts (enc cs) = Some ls"
  shows "\<exists>line ch. get_ecma_line_and_utf16_character_of_position (enc cs) ls pos = Some (line, ch)
    \<and> compute_position_of_line_and_utf16_character ls line ch (enc cs) allow_edits = Some pos"
proof -
  obtain k ws xs vs where cs: "cs = ws @ xs @ vs" "pos = length (enc (ws @ xs))" and k: "k < length ls" "ls ! k = int (length (enc ws))"
      "k + 1 < length ls \<Longrightarrow> int pos < ls ! (k + 1)" and small: "sum_utf16 xs < 2 ^ 31"
    and 1: "get_ecma_line_and_utf16_character_of_position (enc cs) ls pos = Some (k, sum_utf16 xs)"
    using line_and_utf16_at [OF assms] by metis
  have len: "k < length ls" "nat (max (ls ! k) 0) = length (enc ws)" using k by simp_all
  have le: "pos \<le> length (enc cs)" using assms(2) by (auto simp: is_char_boundary_def)
  let ?e = "if k + 1 < length ls then nat (max (ls ! (k + 1)) 0) else length (enc cs)"
  have "pos \<le> ?e" using k(3) le by auto
  then have walk: "utf16_walk (enc cs) ?e (sum_utf16 xs) 0 (length (enc ws)) = Some (sum_utf16 xs, pos)"
    using utf16_walk_enc [of ws xs vs ?e 0] assms(1) small unfolding cs by simp
  have 2: "compute_position_of_line_and_utf16_character ls k (sum_utf16 xs) (enc cs) allow_edits = Some pos"
  proof (cases "xs = []")
    case True
    then show ?thesis using len le cs(2) by (simp add: compute_position_of_line_and_utf16_character_def Let_def)
  next
    case False
    then have "0 < sum_utf16 xs" by (rule sum_utf16_pos)
    then show ?thesis using len walk le
      unfolding compute_position_of_line_and_utf16_character_def Let_def by simp
  qed
  show ?thesis using 1 2 by blast
qed

theorem line_and_utf16_roundtrip_witness:
  "is_char_boundary (enc [97, 10, 0x1F600, 98]) 6
   \<and> (\<exists>line ch. get_ecma_line_and_utf16_character_of_position (enc [97, 10, 0x1F600, 98]) [0, 2] 6 = Some (line, ch)
        \<and> compute_position_of_line_and_utf16_character [0, 2] line ch (enc [97, 10, 0x1F600, 98]) False = Some 6)"
proof -
  have short: "short_text [97, 10, 0x1F600, 98]" by (simp add: short_text_def is_scalar_def len_utf8_def)
  have "compute_ecmaline_starts (enc [97, 10, 0x1F600, 98]) = Some [0, 2]"
    unfolding compute_ecmaline_starts_enc [OF short] by (simp add: is_line_break_def len_utf8_def)
  moreover have b: "is_char_boundary (enc [97, 10, 0x1F600, 98]) 6"
    using enc_boundary [of "[97, 10, 0x1F600, 98]" "Suc (Suc (Suc 0))"] short by (simp add: short_text_def len_utf8_def)
  ultimately show ?thesis using line_and_utf16_roundtrip [OF short b] b by blast
qed

lemma sum_utf16_ascii: "\<forall>c\<in>set as. c < 0x80 \<Longrightarrow> sum_utf16 as = int (length as) \<and> length (enc as) = length as"
  by (induction as) (auto simp: len_utf16_def len_utf8_def)

lemma position_ascii:
  "\<forall>c\<in>set as. c < 0x80 \<Longrightarrow> position (\<lambda>b. byte b \<ge> 0x80) (enc as @ s)
     = (case position (\<lambda>b. byte b \<ge> 0x80) s of None \<Rightarrow> None | Some i \<Rightarrow> Some (length as + i))"
  by (induction as) (auto simp: utf8_encode_ascii split: option.splits)

lemma position_non_ascii:
  assumes "is_scalar c" "\<not> c < 0x80"
  shows "position (\<lambda>b. byte b \<ge> 0x80) (utf8_encode c @ s) = Some 0"
proof -
  obtain b bs where b: "utf8_encode c = b # bs" by (cases "utf8_encode c") auto
  then have "byte b \<ge> 0x80" using first_byte(1) [OF assms(1)] assms(2) by simp
  then show ?thesis by (simp add: b)
qed

text \<open>The fast path for ASCII agrees with counting the UTF-16 units of every character.\<close>

lemma utf16len_enc:
  assumes "short_text cs"
  shows "utf16len (enc cs) = Some (sum_utf16 cs)"
proof -
  have wrap: "wrap32 (sum_utf16 cs) = sum_utf16 cs"
    using assms sum_utf16_bounds [of cs] by (intro wrap32_id) (simp add: is_i32_def short_text_def)
  define as bs where "as = takeWhile (\<lambda>c. c < 0x80) cs" and "bs = dropWhile (\<lambda>c. c < 0x80) cs"
  have cs: "cs = as @ bs" by (simp add: as_def bs_def)
  have as: "\<forall>c\<in>set as. c < 0x80" by (auto simp: as_def dest: set_takeWhileD)
  note n = sum_utf16_ascii [OF as]
  have r: "runes (as @ bs @ [])" using assms by (simp add: short_text_def cs)
  show ?thesis
  proof (cases bs)
    case Nil
    then have "position (\<lambda>b. byte b \<ge> 0x80) (enc cs) = None" using position_ascii [OF as, of "[]"] by (simp add: cs)
    then show ?thesis using n wrap Nil by (simp add: utf16len_def cs)
  next
    case (Cons c bs')
    have "\<not> c < 0x80" using Cons hd_dropWhile [of "\<lambda>c. c < 0x80" cs] by (simp add: bs_def [symmetric])
    then have "position (\<lambda>b. byte b \<ge> 0x80) (enc cs) = Some (length (enc as))"
      using position_ascii [OF as, of "enc bs"] position_non_ascii [of c "enc bs'"] r n by (simp add: cs Cons)
    moreover have "str_slice (enc cs) (length (enc as)) (length (enc cs)) = Some (enc bs)"
      using str_slice_enc [OF r] by (simp add: cs)
    ultimately show ?thesis using r wrap n by (simp add: utf16len_def chars_of_enc cs)
  qed
qed

end
