(* ===== verification/SourceMapper.thy ===== *)
theory SourceMapper
  imports SourceMap Lines
begin

text \<open>
  The mapper between positions of a generated file and of its sources
  (\<open>ts-sourcemap/src/source_mapper.rs\<close>): it decodes a source map, converts every mapping to byte
  positions, sorts them by generated and by source position, and looks positions up by binary search.
  The host is a record of its functions. \<open>serde_json\<close>, \<open>base64\<close> and the conversion of bytes to a
  string are arguments. A panic is \<open>None\<close>. A hash map whose size the code reads is an association
  list with distinct keys.
\<close>

record host =
  use_case_sensitive_file_names :: bool
  get_ecma_line_info :: "string \<Rightarrow> ecma_line_info option"
  read_file :: "string \<Rightarrow> string option"

record mapped_position =
  generated_position :: int
  source_position :: int
  mp_source_index :: int
  mp_name_index :: int

definition is_source_mapped_position :: "mapped_position \<Rightarrow> bool" where
  "is_source_mapped_position m \<longleftrightarrow> mp_source_index m \<noteq> -1 \<and> source_position m \<noteq> -1"

record document_position_mapper =
  dm_case_sensitive :: bool
  source_file_absolute_paths :: "string list"
  dm_source_to_source_index :: "string \<rightharpoonup> int"
  generated_absolute_file_path :: string
  generated_mappings :: "mapped_position list"
  source_mappings :: "(int \<times> mapped_position list) list"

section \<open>Creating a mapper\<close>

text \<open>\<open>compute_position_of_line_and_utf16_character(\<dots>) as i32\<close> of a file the host may not know.\<close>

definition position_in :: "ecma_line_info option \<Rightarrow> int \<Rightarrow> int \<Rightarrow> int option" where
  "position_in info line character =
     (case info of
        None \<Rightarrow> Some (-1)
      | Some li \<Rightarrow>
          map_option (\<lambda>p. wrap32 (int p))
            (compute_position_of_line_and_utf16_character (li_line_starts li) (nat (line mod 2 ^ 64)) character
               (li_text li) True))"

definition map_position ::
    "host \<Rightarrow> string \<Rightarrow> string list \<Rightarrow> mapping \<Rightarrow> mapped_position option" where
  "map_position h generated_path source_paths m =
     (case position_in (get_ecma_line_info h generated_path) (generated_line m) (generated_character m) of
        None \<Rightarrow> None
      | Some gp \<Rightarrow>
          let index = nat (source_index m mod 2 ^ 64);
              info = (if index < length source_paths then get_ecma_line_info h (source_paths ! index) else None) in
          case (if is_source_mapping m then position_in info (source_line m) (source_character m)
                else Some (-1)) of
            None \<Rightarrow> None
          | Some sp \<Rightarrow>
              Some \<lparr>generated_position = gp, source_position = sp, mp_source_index = source_index m,
                    mp_name_index = name_index m\<rparr>)"

fun map_positions ::
    "host \<Rightarrow> string \<Rightarrow> string list \<Rightarrow> mapping list \<Rightarrow> mapped_position list option" where
  "map_positions h gp sps [] = Some []"
| "map_positions h gp sps (m # ms) =
     (case map_position h gp sps m of
        None \<Rightarrow> None
      | Some p \<Rightarrow> map_option ((#) p) (map_positions h gp sps ms))"

text \<open>\<open>entry(k).or_default().push(v)\<close>.\<close>

fun entry_push :: "int \<Rightarrow> 'v \<Rightarrow> (int \<times> 'v list) list \<Rightarrow> (int \<times> 'v list) list" where
  "entry_push k v [] = [(k, [v])]"
| "entry_push k v ((k', vs) # rest) =
     (if k = k' then (k', vs @ [v]) # rest else (k', vs) # entry_push k v rest)"

fun group_by_source ::
    "mapped_position list \<Rightarrow> (int \<times> mapped_position list) list \<Rightarrow> (int \<times> mapped_position list) list" where
  "group_by_source [] tab = tab"
| "group_by_source (m # ms) tab =
     (if \<not> is_source_mapped_position m then group_by_source ms tab
      else group_by_source ms (entry_push (mp_source_index m) m tab))"

text \<open>\<open>dedup_by\<close> drops an element that is the same as the last one kept.\<close>

fun dedup_by :: "('a \<Rightarrow> 'a \<Rightarrow> bool) \<Rightarrow> 'a list \<Rightarrow> 'a list" where
  "dedup_by same (x # y # xs) = (if same y x then dedup_by same (x # xs) else x # dedup_by same (y # xs))"
| "dedup_by same xs = xs"

definition same_position :: "mapped_position \<Rightarrow> mapped_position \<Rightarrow> bool" where
  "same_position a b \<longleftrightarrow> generated_position a = generated_position b
     \<and> mp_source_index a = mp_source_index b \<and> source_position a = source_position b"

fun index_sources ::
    "lower_case \<Rightarrow> bool \<Rightarrow> string list \<Rightarrow> nat \<Rightarrow> (string \<rightharpoonup> int) \<Rightarrow> (string \<rightharpoonup> int)" where
  "index_sources lower cs [] i m = m"
| "index_sources lower cs (s # ss) i m =
     index_sources lower cs ss (Suc i) (m(get_canonical_file_name lower s cs \<mapsto> wrap32 (int i)))"

definition create_document_position_mapper ::
    "lower_case \<Rightarrow> host \<Rightarrow> raw_source_map \<Rightarrow> string \<Rightarrow> document_position_mapper option" where
  "create_document_position_mapper lower h source_map map_path =
     (let map_directory = get_directory_path map_path;
          source_root' = (if raw_source_root source_map = [] then map_directory
                         else get_normalized_absolute_path (raw_source_root source_map) map_directory);
          generated_path = get_normalized_absolute_path (raw_file source_map) map_directory;
          source_paths = map (\<lambda>source. get_normalized_absolute_path source source_root') (raw_sources source_map);
          cs = use_case_sensitive_file_names h;
          (ms, decoder) = collect_mappings (decode_mappings (raw_mappings source_map)) in
      case map_positions h generated_path source_paths ms of
        None \<Rightarrow> None
      | Some positions \<Rightarrow>
          let decoded = (if has_reported_error decoder then [] else positions);
              by_source = map (\<lambda>(k, l). (k, dedup_by same_position (sort_key source_position l)))
                            (group_by_source decoded []) in
          Some \<lparr>dm_case_sensitive = cs, source_file_absolute_paths = source_paths,
                dm_source_to_source_index = index_sources lower cs source_paths 0 Map.empty,
                generated_absolute_file_path = generated_path,
                generated_mappings = dedup_by same_position (sort_key generated_position decoded),
                source_mappings = by_source\<rparr>)"

section \<open>Looking positions up\<close>

record document_position =
  dp_file_name :: string
  dp_pos :: int

definition get_source_position :: "document_position_mapper \<Rightarrow> document_position \<Rightarrow> document_position option" where
  "get_source_position dm loc =
     (if generated_mappings dm = [] then None
      else
        let target_index = partition_point (\<lambda>m. generated_position m < dp_pos loc) (generated_mappings dm) in
        if \<not> target_index < length (generated_mappings dm) then None
        else
          let m = generated_mappings dm ! target_index in
          if \<not> is_source_mapped_position m then None
          else
            let i = nat (mp_source_index m mod 2 ^ 64) in
            if i < length (source_file_absolute_paths dm)
            then Some \<lparr>dp_file_name = source_file_absolute_paths dm ! i, dp_pos = source_position m\<rparr>
            else None)"

definition get_generated_position ::
    "lower_case \<Rightarrow> document_position_mapper \<Rightarrow> document_position \<Rightarrow> document_position option" where
  "get_generated_position lower dm loc =
     (case dm_source_to_source_index dm
             (get_canonical_file_name lower (dp_file_name loc) (dm_case_sensitive dm)) of
        None \<Rightarrow> None
      | Some index \<Rightarrow>
          case map_of (source_mappings dm) index of
            None \<Rightarrow> None
          | Some ms \<Rightarrow>
              if index < 0 \<or> nat index \<ge> length (source_mappings dm) then None
              else
                let target_index = partition_point (\<lambda>m. source_position m < dp_pos loc) ms in
                if \<not> target_index < length ms then None
                else
                  let m = ms ! target_index in
                  if mp_source_index m \<noteq> index then None
                  else Some \<lparr>dp_file_name = generated_absolute_file_path dm, dp_pos = generated_position m\<rparr>)"

section \<open>Finding the source map of a file\<close>

definition strip_prefix :: "string \<Rightarrow> string \<Rightarrow> string option" where
  "strip_prefix p s = (if prefix p s then Some (drop (length p) s) else None)"

definition base64_url_char :: "char \<Rightarrow> bool" where
  "base64_url_char ch \<longleftrightarrow> is_ascii_alphanumeric ch \<or> ch = CHR ''+'' \<or> ch = CHR ''/'' \<or> ch = CHR ''=''"

text \<open>The payload of a \<open>data:\<close> URL, and whether the URL is one; slicing the charset off panics if the
  cut is inside a character.\<close>

definition base64_url_payload :: "string \<Rightarrow> string \<times> bool" where
  "base64_url_payload url =
     (case strip_prefix ''base64,'' url of
        None \<Rightarrow> ([], True)
      | Some rest \<Rightarrow> if \<not> list_all base64_url_char rest then ([], True) else (rest, True))"

definition try_parse_base64_url :: "string \<Rightarrow> (string \<times> bool) option" where
  "try_parse_base64_url url0 =
     (case strip_prefix ''data:'' url0 of
        None \<Rightarrow> Some ([], False)
      | Some url \<Rightarrow>
          case strip_prefix ''application/json;'' url of
            None \<Rightarrow> Some ([], True)
          | Some url \<Rightarrow>
              case strip_prefix ''charset='' url of
                None \<Rightarrow> Some (base64_url_payload url)
              | Some rest \<Rightarrow>
                  if length rest < 6 then Some ([], True)
                  else
                    case str_slice rest 0 6 of
                      None \<Rightarrow> None
                    | Some charset \<Rightarrow>
                        if \<not> eq_ignore_ascii_case charset ''utf-8;'' then Some ([], True)
                        else Some (base64_url_payload (drop 6 rest)))"

definition try_parse_raw_source_map :: "(string \<Rightarrow> raw_source_map option) \<Rightarrow> string \<Rightarrow> raw_source_map option" where
  "try_parse_raw_source_map from_json contents =
     (case from_json contents of
        None \<Rightarrow> None
      | Some source_map \<Rightarrow> if raw_version source_map \<noteq> 3 then None else Some source_map)"

text \<open>The outer option is a panic, the inner one the absence of a mapper.\<close>

definition convert_document_to_source_mapper ::
    "lower_case \<Rightarrow> (string \<Rightarrow> raw_source_map option) \<Rightarrow> host \<Rightarrow> string \<Rightarrow> string
     \<Rightarrow> document_position_mapper option option" where
  "convert_document_to_source_mapper lower from_json h contents map_file_name =
     (case try_parse_raw_source_map from_json contents of
        None \<Rightarrow> Some None
      | Some source_map \<Rightarrow>
          if raw_sources source_map = [] \<or> raw_file source_map = [] \<or> raw_mappings source_map = [] then Some None
          else if list_ex (\<lambda>content. content \<noteq> None) (raw_sources_content source_map) then Some None
          else map_option Some (create_document_position_mapper lower h source_map map_file_name))"

fun try_map_locations ::
    "lower_case \<Rightarrow> (string \<Rightarrow> raw_source_map option) \<Rightarrow> host \<Rightarrow> string \<Rightarrow> string list
     \<Rightarrow> document_position_mapper option option" where
  "try_map_locations lower from_json h generated_file_name [] = Some None"
| "try_map_locations lower from_json h generated_file_name (location # rest) =
     (let map_file_name = get_normalized_absolute_path location (get_directory_path generated_file_name) in
      case read_file h map_file_name of
        Some contents \<Rightarrow> convert_document_to_source_mapper lower from_json h contents map_file_name
      | None \<Rightarrow> try_map_locations lower from_json h generated_file_name rest)"

definition get_document_position_mapper ::
    "lower_case \<Rightarrow> (string \<Rightarrow> raw_source_map option) \<Rightarrow> (string \<Rightarrow> string option) \<Rightarrow> host \<Rightarrow> string
     \<Rightarrow> document_position_mapper option option" where
  "get_document_position_mapper lower from_json decode h generated_file_name =
     (case try_get_source_mapping_url (get_ecma_line_info h generated_file_name) of
        None \<Rightarrow> None
      | Some url \<Rightarrow>
          let locations = (\<lambda>name. (if name \<noteq> [] then [name] else []) @ [generated_file_name @ ''.map'']);
              by_location = (\<lambda>name. try_map_locations lower from_json h generated_file_name (locations name)) in
          if url = [] then by_location []
          else
            case try_parse_base64_url url of
              None \<Rightarrow> None
            | Some (base64_object, matched) \<Rightarrow>
                if \<not> matched then by_location url
                else
                  case (if base64_object \<noteq> [] then decode base64_object else None) of
                    Some contents \<Rightarrow> convert_document_to_source_mapper lower from_json h contents generated_file_name
                  | None \<Rightarrow> by_location [])"

section \<open>Sorted and deduplicated lists\<close>

lemma dedup_by_subset: "set (dedup_by same xs) \<subseteq> set xs"
  by (induction same xs rule: dedup_by.induct) auto

lemma dedup_by_sorted: "sorted (map f xs) \<Longrightarrow> sorted (map f (dedup_by same xs))"
proof (induction same xs rule: dedup_by.induct)
  case (1 same x y xs)
  then show ?case using dedup_by_subset [of same "y # xs"] by (auto split: if_splits)
qed auto

text \<open>Every element has a representative that is the same position.\<close>

lemma same_position_trans: "same_position a b \<Longrightarrow> same_position b c \<Longrightarrow> same_position a c"
  by (simp add: same_position_def)

lemma dedup_by_head: "\<exists>ys. dedup_by same (x # xs) = x # ys"
  by (induction xs) (auto split: if_splits)

lemma dedup_by_covers: "\<forall>x\<in>set xs. \<exists>y\<in>set (dedup_by same_position xs). same_position x y"
proof (induction same_position xs rule: dedup_by.induct)
  case (1 x y xs)
  show ?case
  proof (cases "same_position y x")
    case True
    obtain ys where "dedup_by same_position (x # xs) = x # ys" using dedup_by_head [of same_position x xs] by auto
    then show ?thesis using 1(1) [OF True] True by auto
  next
    case False
    then show ?thesis using 1(2) by (auto simp: same_position_def)
  qed
qed (auto simp: same_position_def)

section \<open>The nearest mapping\<close>

definition nearest :: "('a \<Rightarrow> int) \<Rightarrow> int \<Rightarrow> 'a list \<Rightarrow> 'a \<Rightarrow> bool" where
  "nearest f p xs m \<longleftrightarrow> m \<in> set xs \<and> p \<le> f m \<and> (\<forall>m'\<in>set xs. p \<le> f m' \<longrightarrow> f m \<le> f m')"

lemma partition_point_nearest:
  assumes "sorted (map f xs)" "partition_point (\<lambda>m. f m < p) xs < length xs"
  shows "nearest f p xs (xs ! partition_point (\<lambda>m. f m < p) xs)"
proof -
  let ?i = "partition_point (\<lambda>m. f m < p) xs"
  have lt: "?i < length xs" by (rule assms(2))
  have "\<not> f (xs ! ?i) < p" using nth_length_takeWhile [of "\<lambda>m. f m < p" xs] lt by (simp add: partition_point_def)
  moreover have "f (xs ! ?i) \<le> f m'" if mem: "m' \<in> set xs" and le: "p \<le> f m'" for m'
  proof -
    obtain j where j: "j < length xs" "xs ! j = m'" using mem by (auto simp: in_set_conv_nth)
    have "\<not> j < ?i"
    proof
      assume "j < ?i"
      then have "f (xs ! j) < p"
        using nth_mem [of j "takeWhile (\<lambda>m. f m < p) xs"] by (auto simp: partition_point_def takeWhile_nth dest!: set_takeWhileD)
      then show False using j(2) le by simp
    qed
    then show ?thesis using sorted_nth_mono [OF assms(1), of ?i j] j lt by simp
  qed
  ultimately show ?thesis using lt by (simp add: nearest_def)
qed

lemma partition_point_none:
  "\<not> partition_point (\<lambda>m. f m < p) xs < length xs \<Longrightarrow> m \<in> set xs \<Longrightarrow> f m < (p :: int)"
  by (induction xs) (auto simp: partition_point_def split: if_splits)

section \<open>Grouping by source\<close>

lemma map_of_entry_push:
  "map_of (entry_push k v tab) k' =
     (if k' = k then Some ((case map_of tab k of None \<Rightarrow> [] | Some l \<Rightarrow> l) @ [v]) else map_of tab k')"
  by (induction k v tab rule: entry_push.induct) auto

lemma entry_push_keys: "set (map fst (entry_push k v tab)) = insert k (set (map fst tab))"
  by (induction k v tab rule: entry_push.induct) auto

lemma entry_push_distinct: "distinct (map fst tab) \<Longrightarrow> distinct (map fst (entry_push k v tab))"
proof (induction k v tab rule: entry_push.induct)
  case (2 k v k' vs rest)
  then show ?case using entry_push_keys [of k v rest] by auto
qed simp

lemma group_by_source_distinct: "distinct (map fst tab) \<Longrightarrow> distinct (map fst (group_by_source ms tab))"
  by (induction ms tab rule: group_by_source.induct) (auto simp: entry_push_distinct)

definition of_source :: "int \<Rightarrow> mapped_position list \<Rightarrow> mapped_position list" where
  "of_source k ms = filter (\<lambda>m. is_source_mapped_position m \<and> mp_source_index m = k) ms"

lemma map_of_group_by_source:
  "map_of (group_by_source ms tab) k =
     (case map_of tab k of
        None \<Rightarrow> if of_source k ms = [] then None else Some (of_source k ms)
      | Some l \<Rightarrow> Some (l @ of_source k ms))"
  by (induction ms tab rule: group_by_source.induct) (auto simp: of_source_def map_of_entry_push split: option.splits)


section \<open>The mapper\<close>

text \<open>What a mapper holds, for the positions \<open>ps\<close> of the decoded mappings.\<close>

definition mapper_of :: "mapped_position list \<Rightarrow> document_position_mapper \<Rightarrow> bool" where
  "mapper_of ps dm \<longleftrightarrow>
     sorted (map generated_position (generated_mappings dm))
     \<and> set (generated_mappings dm) \<subseteq> set ps
     \<and> (\<forall>p\<in>set ps. \<exists>m\<in>set (generated_mappings dm). same_position p m)
     \<and> distinct (map fst (source_mappings dm))
     \<and> (\<forall>k. map_of (source_mappings dm) k =
          (if of_source k ps = [] then None else Some (dedup_by same_position (sort_key source_position (of_source k ps)))))"

lemma create_mapper_of:
  assumes "create_document_position_mapper lower h source_map map_path = Some dm"
  obtains ps where "mapper_of ps dm"
proof -
  let ?gp = "generated_absolute_file_path dm" and ?sps = "source_file_absolute_paths dm"
  obtain ms d where c: "collect_mappings (decode_mappings (raw_mappings source_map)) = (ms, d)" by fastforce
  obtain ps where "map_positions h ?gp ?sps ms = Some ps"
    and gm: "generated_mappings dm = dedup_by same_position (sort_key generated_position (if has_reported_error d then [] else ps))"
    and sm: "source_mappings dm = map (\<lambda>(k, l). (k, dedup_by same_position (sort_key source_position l)))
               (group_by_source (if has_reported_error d then [] else ps) [])"
    using assms by (auto simp: create_document_position_mapper_def c Let_def split: option.splits)
  let ?ps = "if has_reported_error d then [] else ps"
  have "sorted (map generated_position (generated_mappings dm))"
    unfolding gm by (intro dedup_by_sorted sorted_sort_key)
  moreover have "set (generated_mappings dm) \<subseteq> set ?ps"
    unfolding gm using dedup_by_subset [of same_position "sort_key generated_position ?ps"] by simp
  moreover have "\<forall>p\<in>set ?ps. \<exists>m\<in>set (generated_mappings dm). same_position p m"
    unfolding gm using dedup_by_covers [of "sort_key generated_position ?ps"] by simp
  moreover have "distinct (map fst (source_mappings dm))"
    unfolding sm using group_by_source_distinct [of "[]" ?ps] by (simp add: comp_def case_prod_beta)
  moreover have "map_of (source_mappings dm) k =
      (if of_source k ?ps = [] then None else Some (dedup_by same_position (sort_key source_position (of_source k ?ps))))" for k
    unfolding sm map_of_map map_of_group_by_source by simp
  ultimately show thesis using that [of ?ps] unfolding mapper_of_def by blast
qed

text \<open>C25: a position of the generated file is mapped through the nearest mapping at or after it: the result is its
  source position, and there is none only if no mapping follows or that mapping has no known source.\<close>

theorem get_source_position_nearest:
  assumes "create_document_position_mapper lower h source_map map_path = Some dm"
  shows "case get_source_position dm loc of
      Some dp \<Rightarrow> \<exists>m. nearest generated_position (dp_pos loc) (generated_mappings dm) m
        \<and> is_source_mapped_position m \<and> dp_pos dp = source_position m
        \<and> dp_file_name dp = source_file_absolute_paths dm ! nat (mp_source_index m mod 2 ^ 64)
        \<and> nat (mp_source_index m mod 2 ^ 64) < length (source_file_absolute_paths dm)
    | None \<Rightarrow> list_all (\<lambda>m. generated_position m < dp_pos loc) (generated_mappings dm)
        \<or> (\<exists>m. nearest generated_position (dp_pos loc) (generated_mappings dm) m
             \<and> (mp_source_index m = -1 \<or> source_position m = -1
                \<or> length (source_file_absolute_paths dm) \<le> nat (mp_source_index m mod 2 ^ 64)))"
proof -
  let ?gm = "generated_mappings dm"
  let ?i = "partition_point (\<lambda>m. generated_position m < dp_pos loc) ?gm"
  obtain ps where "mapper_of ps dm" by (rule create_mapper_of [OF assms])
  then have srt: "sorted (map generated_position ?gm)" by (simp add: mapper_of_def)
  show ?thesis
  proof (cases "?i < length ?gm")
    case True
    have near: "nearest generated_position (dp_pos loc) ?gm (?gm ! ?i)" by (rule partition_point_nearest [OF srt True])
    have "?gm \<noteq> []" using True by auto
    then show ?thesis using near True
      by (auto simp: get_source_position_def Let_def is_source_mapped_position_def not_less intro!: exI [of _ "?gm ! ?i"])
  next
    case False
    then have "list_all (\<lambda>m. generated_position m < dp_pos loc) ?gm"
      unfolding list_all_iff using partition_point_none [of generated_position "dp_pos loc" ?gm] by blast
    then show ?thesis using False by (simp add: get_source_position_def Let_def)
  qed
qed

text \<open>a position of a source whose index is below the number of sources that have mappings is mapped to the
  generated position of the nearest mapping of that source, whenever one follows it.\<close>

theorem get_generated_position_nearest:
  assumes "create_document_position_mapper lower h source_map map_path = Some dm"
    and "dm_source_to_source_index dm (get_canonical_file_name lower (dp_file_name loc) (dm_case_sensitive dm)) = Some k"
    and "map_of (source_mappings dm) k = Some ms" and "0 \<le> k" and "nat k < length (source_mappings dm)"
  shows "case get_generated_position lower dm loc of
      Some dp \<Rightarrow> \<exists>m. nearest source_position (dp_pos loc) ms m \<and> mp_source_index m = k
        \<and> dp_pos dp = generated_position m \<and> dp_file_name dp = generated_absolute_file_path dm
    | None \<Rightarrow> list_all (\<lambda>m. source_position m < dp_pos loc) ms"
proof -
  let ?i = "partition_point (\<lambda>m. source_position m < dp_pos loc) ms"
  obtain ps where ps: "mapper_of ps dm" by (rule create_mapper_of [OF assms(1)])
  then have ms: "ms = dedup_by same_position (sort_key source_position (of_source k ps))"
    using assms(3) unfolding mapper_of_def by (metis option.distinct(1) option.inject)
  have srt: "sorted (map source_position ms)" unfolding ms by (intro dedup_by_sorted sorted_sort_key)
  have idx: "mp_source_index m = k" if "m \<in> set ms" for m
    using that dedup_by_subset [of same_position "sort_key source_position (of_source k ps)"]
    by (auto simp: ms of_source_def)
  show ?thesis
  proof (cases "?i < length ms")
    case True
    have near: "nearest source_position (dp_pos loc) ms (ms ! ?i)" by (rule partition_point_nearest [OF srt True])
    have "mp_source_index (ms ! ?i) = k" using True by (intro idx nth_mem)
    then show ?thesis using near True assms(2-5) by (auto simp: get_generated_position_def Let_def)
  next
    case False
    then have "list_all (\<lambda>m. source_position m < dp_pos loc) ms"
      unfolding list_all_iff using partition_point_none [of source_position "dp_pos loc" ms] by blast
    then show ?thesis using False assms(2-5) by (simp add: get_generated_position_def Let_def)
  qed
qed

text \<open>The code compares the index of the source with the number of sources that have mappings; a source
  with mappings whose index is not below that number cannot be mapped.\<close>

lemma get_generated_position_lost:
  assumes "dm_source_to_source_index dm (get_canonical_file_name lower (dp_file_name loc) (dm_case_sensitive dm)) = Some k"
    and "length (source_mappings dm) \<le> nat k"
  shows "get_generated_position lower dm loc = None"
  using assms by (auto simp: get_generated_position_def split: option.splits)

section \<open>A concrete mapper\<close>

text \<open>Two sources; the second has all the mappings.\<close>

definition sample_host :: host where
  "sample_host = \<lparr>use_case_sensitive_file_names = True,
     get_ecma_line_info = (\<lambda>_. Some \<lparr>li_text = ''abcd'', li_line_starts = [0]\<rparr>), read_file = (\<lambda>_. None)\<rparr>"

definition sample_map :: "string \<Rightarrow> raw_source_map" where
  "sample_map ms = \<lparr>raw_version = 3, raw_file = ''o.js'', raw_source_root = [], raw_sources = [''a'', ''b''],
     raw_names = [], raw_mappings = ms, raw_sources_content = []\<rparr>"

lemma sample_paths:
  "get_directory_path ''/o.js.map'' = ''/''" "get_normalized_absolute_path ''o.js'' ''/'' = ''/o.js''"
  "get_normalized_absolute_path ''a'' ''/'' = ''/a''" "get_normalized_absolute_path ''b'' ''/'' = ''/b''"
  by code_simp+

text \<open>The maps \<open>AAAA\<close> and \<open>ACAA\<close> send the start of the generated file to the start of the first and of the
  second source.\<close>

definition sample_mapping :: "int \<Rightarrow> mapping" where
  "sample_mapping i = \<lparr>generated_line = 0, generated_character = 0, source_index = i, source_line = 0,
     source_character = 0, name_index = -1\<rparr>"

definition sample_position :: "int \<Rightarrow> mapped_position" where
  "sample_position i = \<lparr>generated_position = 0, source_position = 0, mp_source_index = i, mp_name_index = -1\<rparr>"

definition sample_mapper :: "int \<Rightarrow> document_position_mapper" where
  "sample_mapper i = \<lparr>dm_case_sensitive = True, source_file_absolute_paths = [''/a'', ''/b''],
     dm_source_to_source_index = [''/a'' \<mapsto> 0, ''/b'' \<mapsto> 1], generated_absolute_file_path = ''/o.js'',
     generated_mappings = [sample_position i], source_mappings = [(i, [sample_position i])]\<rparr>"

lemma sample_decoded:
  "fst (collect_mappings (decode_mappings ''AAAA'')) = [sample_mapping 0]"
  "\<not> has_reported_error (snd (collect_mappings (decode_mappings ''AAAA'')))"
  "fst (collect_mappings (decode_mappings ''ACAA'')) = [sample_mapping 1]"
  "\<not> has_reported_error (snd (collect_mappings (decode_mappings ''ACAA'')))"
  by code_simp+

lemma create_from_decoded:
  assumes "fst (collect_mappings (decode_mappings ms)) = [sample_mapping i]"
    and "\<not> has_reported_error (snd (collect_mappings (decode_mappings ms)))" and "i = 0 \<or> i = 1"
  shows "create_document_position_mapper (\<lambda>s. s) sample_host (sample_map ms) ''/o.js.map'' = Some (sample_mapper i)"
proof -
  obtain d where c: "collect_mappings (decode_mappings ms) = ([sample_mapping i], d)" "\<not> has_reported_error d"
    using assms(1,2) by (cases "collect_mappings (decode_mappings ms)") auto
  have "map_positions sample_host ''/o.js'' [''/a'', ''/b''] [sample_mapping 0] = Some [sample_position 0]"
    "map_positions sample_host ''/o.js'' [''/a'', ''/b''] [sample_mapping 1] = Some [sample_position 1]" by code_simp+
  then have "map_positions sample_host ''/o.js'' [''/a'', ''/b''] [sample_mapping i] = Some [sample_position i]"
    using assms(3) by auto
  moreover have "group_by_source [sample_position i] [] = [(i, [sample_position i])]"
    using assms(3) by (auto simp: sample_position_def is_source_mapped_position_def)
  moreover have "index_sources (\<lambda>s. s) True [''/a'', ''/b''] 0 Map.empty = [''/a'' \<mapsto> 0, ''/b'' \<mapsto> 1]"
    by (simp add: get_canonical_file_name_def is_i32_def)
  moreover have "use_case_sensitive_file_names sample_host" by (simp add: sample_host_def)
  ultimately show ?thesis
    unfolding create_document_position_mapper_def sample_map_def sample_mapper_def
    by (simp add: sample_paths c Let_def del: map_positions.simps group_by_source.simps index_sources.simps)
qed

lemmas create_sample_mapper =
  create_from_decoded [OF sample_decoded(1,2), simplified] create_from_decoded [OF sample_decoded(3,4), simplified]

theorem get_source_position_nearest_witness:
  "get_source_position (sample_mapper 1) \<lparr>dp_file_name = ''/o.js'', dp_pos = 0\<rparr> = Some \<lparr>dp_file_name = ''/b'', dp_pos = 0\<rparr>
   \<and> (\<exists>m. nearest generated_position 0 (generated_mappings (sample_mapper 1)) m \<and> source_position m = 0)"
proof -
  have "get_source_position (sample_mapper 1) \<lparr>dp_file_name = ''/o.js'', dp_pos = 0\<rparr> = Some \<lparr>dp_file_name = ''/b'', dp_pos = 0\<rparr>"
    by code_simp
  then show ?thesis
    using get_source_position_nearest [OF create_sample_mapper(2), of "\<lparr>dp_file_name = ''/o.js'', dp_pos = 0\<rparr>"] by auto
qed

theorem get_generated_position_nearest_witness:
  "get_generated_position (\<lambda>s. s) (sample_mapper 0) \<lparr>dp_file_name = ''/a'', dp_pos = 0\<rparr> = Some \<lparr>dp_file_name = ''/o.js'', dp_pos = 0\<rparr>
   \<and> (\<exists>m. nearest source_position 0 [sample_position 0] m \<and> mp_source_index m = 0)"
proof -
  have g: "get_generated_position (\<lambda>s. s) (sample_mapper 0) \<lparr>dp_file_name = ''/a'', dp_pos = 0\<rparr> = Some \<lparr>dp_file_name = ''/o.js'', dp_pos = 0\<rparr>"
    by code_simp
  have "dm_source_to_source_index (sample_mapper 0)
      (get_canonical_file_name (\<lambda>s. s) (dp_file_name \<lparr>dp_file_name = ''/a'', dp_pos = 0\<rparr>) (dm_case_sensitive (sample_mapper 0))) = Some 0"
    "map_of (source_mappings (sample_mapper 0)) 0 = Some [sample_position 0]" "nat 0 < length (source_mappings (sample_mapper 0))"
    by (simp_all add: sample_mapper_def get_canonical_file_name_def)
  from get_generated_position_nearest [OF create_sample_mapper(1) this(1,2) order_refl this(3)] g
  show ?thesis by auto
qed

text \<open>when the only source with mappings is the second one, no position of it can be mapped back to the
  generated file, although the generated position maps to it.\<close>

theorem get_generated_position_loses_source:
  "create_document_position_mapper (\<lambda>s. s) sample_host (sample_map ''ACAA'') ''/o.js.map'' = Some (sample_mapper 1)
   \<and> get_source_position (sample_mapper 1) \<lparr>dp_file_name = ''/o.js'', dp_pos = 0\<rparr> = Some \<lparr>dp_file_name = ''/b'', dp_pos = 0\<rparr>
   \<and> get_generated_position (\<lambda>s. s) (sample_mapper 1) \<lparr>dp_file_name = ''/b'', dp_pos = p\<rparr> = None"
proof (intro conjI)
  show "get_source_position (sample_mapper 1) \<lparr>dp_file_name = ''/o.js'', dp_pos = 0\<rparr> = Some \<lparr>dp_file_name = ''/b'', dp_pos = 0\<rparr>"
    by code_simp
  show "get_generated_position (\<lambda>s. s) (sample_mapper 1) \<lparr>dp_file_name = ''/b'', dp_pos = p\<rparr> = None"
    by (rule get_generated_position_lost [where k = 1]) (simp_all add: sample_mapper_def get_canonical_file_name_def)
qed (rule create_sample_mapper(2))

end
