(* ===== verification/Bfs.thy ===== *)
theory Bfs
  imports OrderedCollections Sets
begin

text \<open>
  The breadth-first search of \<open>ts-core/src/bfs.rs\<close>, over the ordered map of the jobs of a level and the
  concurrent set of visited keys. Jobs point to their parents; a job is a tree path. The callbacks are
  functions of their arguments. The loop over the levels may not end on an infinite graph, so it is a
  partial function, and \<open>None\<close> also stands for a panic; on a graph with finitely many reachable nodes
  it is shown to return.
\<close>

datatype 'n job = Job (job_node: 'n) (job_parent: "'n job option")

record 'n bfs_result =
  bfs_stopped :: bool
  bfs_path :: "'n list"

type_synonym ('k, 'n) bfs_level = "('k, 'n job) ordered_map"

definition level_has :: "('k, 'n) bfs_level \<Rightarrow> 'k \<Rightarrow> bool" where
  "level_has lvl key = om_has lvl key"

definition level_delete :: "'k \<Rightarrow> ('k, 'n) bfs_level \<Rightarrow> ('k, 'n) bfs_level" where
  "level_delete key lvl = fst (om_delete key lvl)"

fun range_loop :: "('s \<Rightarrow> 'n \<Rightarrow> 's \<times> bool) \<Rightarrow> 'n job list \<Rightarrow> 's \<Rightarrow> 's" where
  "range_loop f [] s = s"
| "range_loop f (j # js) s = (let (s, continue) = f s (job_node j) in if \<not> continue then s else range_loop f js s)"

definition level_range :: "('s \<Rightarrow> 'n \<Rightarrow> 's \<times> bool) \<Rightarrow> ('k, 'n) bfs_level \<Rightarrow> 's \<Rightarrow> 's option" where
  "level_range f lvl s = map_option (\<lambda>js. range_loop f js s) (om_values lvl)"

record ('k, 'n) bfs_options =
  opt_visited :: "('k, unit) sync_map option"
  preprocess_level :: "(('k, 'n) bfs_level \<Rightarrow> ('k, 'n) bfs_level) option"

definition bfs_options_default :: "('k, 'n) bfs_options" where
  "bfs_options_default = \<lparr>opt_visited = None, preprocess_level = None\<rparr>"

fun job_path :: "'n job \<Rightarrow> 'n list" where
  "job_path (Job n None) = [n]"
| "job_path (Job n (Some p)) = n # job_path p"

definition create_path :: "'n job option \<Rightarrow> 'n list" where
  "create_path job = (case job of None \<Rightarrow> [] | Some j \<Rightarrow> job_path j)"

text \<open>The loop over the children of a job.\<close>

fun add_children ::
    "('n \<Rightarrow> 'k) \<Rightarrow> 'n job \<Rightarrow> 'n list \<Rightarrow> ('k, 'n) bfs_level \<Rightarrow> ('k, 'n) bfs_level" where
  "add_children get_key j [] next_jobs = next_jobs"
| "add_children get_key j (child # cs) next_jobs =
     (let c = Job child (Some j); key = get_key (job_node c) in
      add_children get_key j cs (if \<not> om_has next_jobs key then om_set key c next_jobs else next_jobs))"

text \<open>The loop over the jobs of a level: \<open>Inl\<close> is the job whose visit stops the search.\<close>

fun process_level ::
    "('n \<Rightarrow> 'k) \<Rightarrow> ('n \<Rightarrow> 'n list) \<Rightarrow> ('n \<Rightarrow> bool \<times> bool) \<Rightarrow> 'n job list \<Rightarrow> ('k, unit) sync_map
     \<Rightarrow> 'n job option \<Rightarrow> ('k, 'n) bfs_level
     \<Rightarrow> 'n job + (('k, unit) sync_map \<times> 'n job option \<times> ('k, 'n) bfs_level)" where
  "process_level get_key neighbors visit [] visited fallback next_jobs = Inr (visited, fallback, next_jobs)"
| "process_level get_key neighbors visit (j # js) visited fallback next_jobs =
     (case syncset_add_if_absent (get_key (job_node j)) visited of
        (visited, new) \<Rightarrow>
          if \<not> new then process_level get_key neighbors visit js visited fallback next_jobs
          else
            case visit (job_node j) of
              (is_result, stop) \<Rightarrow>
                if is_result \<and> stop then Inl j
                else
                  let fallback = (if is_result \<and> fallback = None then Some j else fallback) in
                  process_level get_key neighbors visit js visited fallback
                    (add_children get_key j (neighbors (job_node j)) next_jobs))"

partial_function (option) search_levels ::
    "('n \<Rightarrow> 'k) \<Rightarrow> ('n \<Rightarrow> 'n list) \<Rightarrow> ('n \<Rightarrow> bool \<times> bool) \<Rightarrow> (('k, 'n) bfs_level \<Rightarrow> ('k, 'n) bfs_level) option
     \<Rightarrow> ('k, unit) sync_map \<Rightarrow> 'n job option \<Rightarrow> ('k, 'n) bfs_level \<Rightarrow> 'n bfs_result option" where
  "search_levels get_key neighbors visit preprocess visited fallback level =
     (if om_size level > 0 then
        let level = (case preprocess of Some f \<Rightarrow> f level | None \<Rightarrow> level) in
        case om_values level of
          None \<Rightarrow> None
        | Some jobs \<Rightarrow>
            (case process_level get_key neighbors visit jobs visited fallback om_default of
               Inl j \<Rightarrow> Some \<lparr>bfs_stopped = True, bfs_path = create_path (Some j)\<rparr>
             | Inr (visited, fallback, next_jobs) \<Rightarrow>
                 search_levels get_key neighbors visit preprocess visited fallback next_jobs)
      else Some \<lparr>bfs_stopped = False, bfs_path = create_path fallback\<rparr>)"

declare search_levels.simps [code]

definition breadth_first_search_parallel_ex ::
    "'n \<Rightarrow> ('n \<Rightarrow> 'n list) \<Rightarrow> ('n \<Rightarrow> bool \<times> bool) \<Rightarrow> ('k, 'n) bfs_options \<Rightarrow> ('n \<Rightarrow> 'k) \<Rightarrow> 'n bfs_result option" where
  "breadth_first_search_parallel_ex start neighbors visit options get_key =
     search_levels get_key neighbors visit (preprocess_level options)
       (case opt_visited options of Some v \<Rightarrow> v | None \<Rightarrow> Map.empty) None
       (new_ordered_map_from_list [(get_key start, Job start None)])"

definition breadth_first_search_parallel ::
    "'n \<Rightarrow> ('n \<Rightarrow> 'n list) \<Rightarrow> ('n \<Rightarrow> bool \<times> bool) \<Rightarrow> 'n bfs_result option" where
  "breadth_first_search_parallel start neighbors visit =
     breadth_first_search_parallel_ex start neighbors visit bfs_options_default (\<lambda>n. n)"

section \<open>Layers\<close>

text \<open>The nodes reached by a walk of exactly \<open>d\<close> steps, and by fewer than \<open>d\<close>.\<close>

fun layer :: "'n \<Rightarrow> ('n \<Rightarrow> 'n list) \<Rightarrow> nat \<Rightarrow> 'n set" where
  "layer start neighbors 0 = {start}"
| "layer start neighbors (Suc d) = (\<Union>n\<in>layer start neighbors d. set (neighbors n))"

definition before_layer :: "'n \<Rightarrow> ('n \<Rightarrow> 'n list) \<Rightarrow> nat \<Rightarrow> 'n set" where
  "before_layer start neighbors d = (\<Union>k<d. layer start neighbors k)"

definition reachable_nodes :: "'n \<Rightarrow> ('n \<Rightarrow> 'n list) \<Rightarrow> 'n set" where
  "reachable_nodes start neighbors = (\<Union>k. layer start neighbors k)"

text \<open>A path back to the start.\<close>

fun walk_back :: "'n \<Rightarrow> ('n \<Rightarrow> 'n list) \<Rightarrow> 'n list \<Rightarrow> bool" where
  "walk_back start neighbors [] = False"
| "walk_back start neighbors [n] = (n = start)"
| "walk_back start neighbors (n # m # ns) = (n \<in> set (neighbors m) \<and> walk_back start neighbors (m # ns))"

lemma hd_job_path [simp]: "hd (job_path j) = job_node j" "job_path j \<noteq> []"
  by (cases j; cases "job_parent j"; simp)+

lemma job_path_child: "job_path (Job n (Some j)) = n # job_path j"
  by simp

lemma walk_back_Cons: "walk_back s nb p \<Longrightarrow> n \<in> set (nb (hd p)) \<Longrightarrow> walk_back s nb (n # p)"
  by (cases p) auto

text \<open>A job of the level \<open>d\<close>: its path is a walk of \<open>d\<close> steps.\<close>

definition job_at :: "'n \<Rightarrow> ('n \<Rightarrow> 'n list) \<Rightarrow> nat \<Rightarrow> 'n job \<Rightarrow> bool" where
  "job_at s nb d j \<longleftrightarrow> walk_back s nb (job_path j) \<and> length (job_path j) = Suc d \<and> job_node j \<in> layer s nb d"

lemma job_at_child:
  assumes "job_at s nb d j" "n \<in> set (nb (job_node j))"
  shows "job_at s nb (Suc d) (Job n (Some j))"
  using assms walk_back_Cons [of s nb "job_path j" n] by (auto simp: job_at_def)

text \<open>The jobs collected for the level \<open>d\<close>: keyed by their node.\<close>

definition level_at :: "'n \<Rightarrow> ('n \<Rightarrow> 'n list) \<Rightarrow> nat \<Rightarrow> ('n, 'n) bfs_level \<Rightarrow> bool" where
  "level_at s nb d lvl \<longleftrightarrow> om_inv lvl \<and> (\<forall>k j. om_get lvl k = Some j \<longrightarrow> job_node j = k \<and> job_at s nb d j)"

lemma level_at_default: "level_at s nb d om_default"
  by (simp add: level_at_def om_get_def om_default_def om_inv_def)

lemma level_at_set:
  "level_at s nb d lvl \<Longrightarrow> job_at s nb d j \<Longrightarrow> level_at s nb d (om_set (job_node j) j lvl)"
  by (auto simp: level_at_def om_inv_set om_get_set)

lemma dom_om_set: "dom (om_get (om_set k v m)) = insert k (dom (om_get m))"
  by (simp add: om_get_set)

lemma om_has_dom: "om_has m k \<longleftrightarrow> k \<in> dom (om_get m)"
  by (auto simp: om_has_def om_get_def)

lemma add_children_level:
  "level_at s nb (Suc d) lvl \<Longrightarrow> job_at s nb d j \<Longrightarrow> set cs \<subseteq> set (nb (job_node j)) \<Longrightarrow>
   level_at s nb (Suc d) (add_children (\<lambda>n. n) j cs lvl)
   \<and> dom (om_get (add_children (\<lambda>n. n) j cs lvl)) = dom (om_get lvl) \<union> set cs"
proof (induction cs arbitrary: lvl)
  case (Cons c cs)
  let ?lvl = "if \<not> om_has lvl c then om_set c (Job c (Some j)) lvl else lvl"
  have "job_at s nb (Suc d) (Job c (Some j))" using Cons.prems(2,3) by (intro job_at_child) auto
  then have "level_at s nb (Suc d) ?lvl" "dom (om_get ?lvl) = insert c (dom (om_get lvl))"
    using Cons.prems(1) level_at_set [of s nb "Suc d" lvl "Job c (Some j)"]
    by (auto simp: dom_om_set om_has_dom)
  moreover have "add_children (\<lambda>n. n) j (c # cs) lvl = add_children (\<lambda>n. n) j cs ?lvl" by (simp add: Let_def)
  ultimately show ?case using Cons.IH [of ?lvl] Cons.prems(2,3) by auto
qed simp

text \<open>What the loop over the jobs of the level \<open>d\<close> leaves behind.\<close>

definition new_nodes :: "'n job list \<Rightarrow> ('n, unit) sync_map \<Rightarrow> 'n set" where
  "new_nodes js visited = job_node ` set js - dom visited"

lemma process_level_stop:
  "process_level (\<lambda>n. n) nb visit js visited fb lvl = Inl j \<Longrightarrow>
   j \<in> set js \<and> job_node j \<in> new_nodes js visited \<and> visit (job_node j) = (True, True)"
proof (induction js arbitrary: visited fb lvl)
  case (Cons j' js)
  show ?case
  proof (cases "job_node j' \<in> dom visited")
    case True
    then have "process_level (\<lambda>n. n) nb visit js visited fb lvl = Inl j"
      using Cons.prems by (auto simp: add_if_absent_eq)
    from Cons.IH [OF this] show ?thesis by (auto simp: new_nodes_def)
  next
    case False
    then have none: "visited (job_node j') = None" by auto
    show ?thesis
    proof (cases "visit (job_node j') = (True, True)")
      case True
      then have "j = j'" using Cons.prems none by (simp add: add_if_absent_eq)
      then show ?thesis using True False by (simp add: new_nodes_def)
    next
      case nostop: False
      obtain r st where v: "visit (job_node j') = (r, st)" by fastforce
      have "\<exists>fb lvl. process_level (\<lambda>n. n) nb visit js (visited(job_node j' \<mapsto> Some ())) fb lvl = Inl j"
        using Cons.prems none v nostop by (auto simp: add_if_absent_eq Let_def split: if_splits)
      then show ?thesis using Cons.IH by (fastforce simp: new_nodes_def)
    qed
  qed
qed simp

lemma process_level_done:
  assumes "\<forall>j\<in>set js. job_at s nb d j" "level_at s nb (Suc d) lvl"
    "process_level (\<lambda>n. n) nb visit js visited fb lvl = Inr (visited', fb', lvl')"
  shows "dom visited' = dom visited \<union> job_node ` set js \<and> level_at s nb (Suc d) lvl'
    \<and> dom (om_get lvl') = dom (om_get lvl) \<union> (\<Union>n\<in>new_nodes js visited. set (nb n))
    \<and> (\<forall>n\<in>new_nodes js visited. visit n \<noteq> (True, True))
    \<and> (case fb of
         Some j \<Rightarrow> fb' = Some j
       | None \<Rightarrow> (case fb' of
           None \<Rightarrow> \<forall>n\<in>new_nodes js visited. \<not> fst (visit n)
         | Some j \<Rightarrow> j \<in> set js \<and> job_node j \<in> new_nodes js visited \<and> fst (visit (job_node j))))"
  using assms
proof (induction js arbitrary: visited fb lvl)
  case Nil
  then show ?case by (auto simp: new_nodes_def split: option.split)
next
  case (Cons j js)
  let ?n = "job_node j"
  show ?case
  proof (cases "?n \<in> dom visited")
    case True
    then have "process_level (\<lambda>n. n) nb visit js visited fb lvl = Inr (visited', fb', lvl')"
      using Cons.prems(3) by (auto simp: add_if_absent_eq)
    moreover have "new_nodes (j # js) visited = new_nodes js visited" using True by (auto simp: new_nodes_def)
    ultimately show ?thesis using Cons.IH [of lvl visited fb] Cons.prems(1,2) True
      by (auto simp: insert_absorb split: option.splits)
  next
    case False
    obtain r st where v: "visit ?n = (r, st)" by fastforce
    let ?vis = "visited(?n \<mapsto> Some ())" and ?fb = "if r \<and> fb = None then Some j else fb"
    let ?lvl = "add_children (\<lambda>n. n) j (nb ?n) lvl"
    have none: "visited ?n = None" using False by auto
    then have ns: "\<not> (r \<and> st)" using Cons.prems(3) v by (auto simp: add_if_absent_eq)
    then have rest: "process_level (\<lambda>n. n) nb visit js ?vis ?fb ?lvl = Inr (visited', fb', lvl')"
      using Cons.prems(3) v none by (auto simp: add_if_absent_eq Let_def split del: if_split)
    have new: "new_nodes (j # js) visited = insert ?n (new_nodes js ?vis)" using False by (auto simp: new_nodes_def)
    have ch: "level_at s nb (Suc d) ?lvl \<and> dom (om_get ?lvl) = dom (om_get lvl) \<union> set (nb ?n)"
      using add_children_level [of s nb d lvl j "nb ?n"] Cons.prems(1,2) by simp
    have jobs: "\<forall>j\<in>set js. job_at s nb d j" using Cons.prems(1) by simp
    note IH = Cons.IH [OF jobs conjunct1 [OF ch] rest]
    have A: "dom visited' = dom ?vis \<union> job_node ` set js" "level_at s nb (Suc d) lvl'"
      "dom (om_get lvl') = dom (om_get ?lvl) \<union> (\<Union>n\<in>new_nodes js ?vis. set (nb n))"
      "\<forall>n\<in>new_nodes js ?vis. visit n \<noteq> (True, True)" using IH by blast+
    have B: "case ?fb of Some j \<Rightarrow> fb' = Some j
       | None \<Rightarrow> (case fb' of
           None \<Rightarrow> \<forall>n\<in>new_nodes js ?vis. \<not> fst (visit n)
         | Some j \<Rightarrow> j \<in> set js \<and> job_node j \<in> new_nodes js ?vis \<and> fst (visit (job_node j)))"
      using IH by blast
    have C: "case fb of Some j \<Rightarrow> fb' = Some j
       | None \<Rightarrow> (case fb' of
           None \<Rightarrow> \<forall>n\<in>new_nodes (j # js) visited. \<not> fst (visit n)
         | Some j' \<Rightarrow> j' \<in> set (j # js) \<and> job_node j' \<in> new_nodes (j # js) visited \<and> fst (visit (job_node j')))"
    proof (cases fb)
      case None
      then show ?thesis using B v unfolding new by (cases r) (auto split: option.splits)
    qed (use B in simp)
    show ?thesis using A C ch v ns unfolding new by auto
  qed
qed


section \<open>The search\<close>

lemma om_get_mp: "om_get m = om_mp m"
  by (simp add: fun_eq_iff om_get_def)

lemma before_layer_Suc: "before_layer s nb (Suc d) = before_layer s nb d \<union> layer s nb d"
  by (auto simp: before_layer_def less_Suc_eq)

lemma layer_reachable: "layer s nb d \<subseteq> reachable_nodes s nb"
  by (auto simp: reachable_nodes_def)

lemma next_layer_new:
  "n \<in> layer s nb (Suc d) \<Longrightarrow> n \<notin> before_layer s nb (Suc d) \<Longrightarrow>
   \<exists>m\<in>layer s nb d - before_layer s nb d. n \<in> set (nb m)"
proof -
  assume n: "n \<in> layer s nb (Suc d)" "n \<notin> before_layer s nb (Suc d)"
  then obtain m where m: "m \<in> layer s nb d" "n \<in> set (nb m)" by auto
  moreover have "m \<notin> before_layer s nb d"
  proof
    assume "m \<in> before_layer s nb d"
    then obtain k where "k < d" "m \<in> layer s nb k" by (auto simp: before_layer_def)
    then have "n \<in> layer s nb (Suc k)" "Suc k < Suc d" using m(2) by auto
    then show False using n(2) unfolding before_layer_def by blast
  qed
  ultimately show ?thesis by blast
qed

text \<open>The first job found in the layers before \<open>d\<close>, for the fallback.\<close>

definition fallback_ok :: "'n \<Rightarrow> ('n \<Rightarrow> 'n list) \<Rightarrow> ('n \<Rightarrow> bool \<times> bool) \<Rightarrow> nat \<Rightarrow> 'n job option \<Rightarrow> bool" where
  "fallback_ok s nb visit d fb \<longleftrightarrow> (case fb of
     None \<Rightarrow> (\<forall>n\<in>before_layer s nb d. \<not> fst (visit n))
   | Some j \<Rightarrow> (\<exists>k<d. job_at s nb k j \<and> fst (visit (job_node j)) \<and> (\<forall>n\<in>before_layer s nb k. \<not> fst (visit n))))"

text \<open>A result: the path leads back to the start, and no nearer node would do.\<close>

definition nearest_by :: "'n \<Rightarrow> ('n \<Rightarrow> 'n list) \<Rightarrow> ('n \<Rightarrow> bool) \<Rightarrow> 'n list \<Rightarrow> bool" where
  "nearest_by s nb P p \<longleftrightarrow> walk_back s nb p \<and> P (hd p) \<and> (\<forall>n\<in>before_layer s nb (length p - 1). \<not> P n)"

definition bfs_correct :: "'n \<Rightarrow> ('n \<Rightarrow> 'n list) \<Rightarrow> ('n \<Rightarrow> bool \<times> bool) \<Rightarrow> 'n bfs_result \<Rightarrow> bool" where
  "bfs_correct s nb visit r \<longleftrightarrow>
     (if bfs_stopped r then nearest_by s nb (\<lambda>n. visit n = (True, True)) (bfs_path r)
      else (\<forall>n\<in>reachable_nodes s nb. visit n \<noteq> (True, True))
        \<and> (if bfs_path r = [] then (\<forall>n\<in>reachable_nodes s nb. \<not> fst (visit n))
           else nearest_by s nb (\<lambda>n. fst (visit n)) (bfs_path r)))"

text \<open>The state of the search before the layer \<open>d\<close>.\<close>

definition bfs_inv ::
    "'n \<Rightarrow> ('n \<Rightarrow> 'n list) \<Rightarrow> ('n \<Rightarrow> bool \<times> bool) \<Rightarrow> nat \<Rightarrow> ('n, unit) sync_map \<Rightarrow> 'n job option
     \<Rightarrow> ('n, 'n) bfs_level \<Rightarrow> bool" where
  "bfs_inv s nb visit d visited fb lvl \<longleftrightarrow>
     dom visited = before_layer s nb d \<and> level_at s nb d lvl
     \<and> layer s nb d - before_layer s nb d \<subseteq> dom (om_get lvl)
     \<and> (\<forall>n\<in>before_layer s nb d. visit n \<noteq> (True, True)) \<and> fallback_ok s nb visit d fb"

lemma level_values:
  assumes "level_at s nb d lvl"
  obtains js where "om_values lvl = Some js" "\<forall>j\<in>set js. job_at s nb d j" "job_node ` set js = dom (om_get lvl)"
proof -
  have inv: "om_inv lvl" and ok: "\<And>k j. om_get lvl k = Some j \<Longrightarrow> job_node j = k \<and> job_at s nb d j"
    using assms by (auto simp: level_at_def)
  let ?js = "map snd (om_abs lvl)"
  have mem: "j \<in> set ?js \<longleftrightarrow> (\<exists>k. om_get lvl k = Some j)" for j
    using in_om_abs [OF inv] by force
  have "om_values lvl = Some ?js" using inv by (simp add: om_entries_values om_entries_abs)
  moreover have "\<forall>j\<in>set ?js. job_at s nb d j" using mem ok by blast
  moreover have "job_node ` set ?js = dom (om_get lvl)" using mem ok by (auto simp: image_iff) metis+
  ultimately show thesis by (rule that)
qed

lemma bfs_inv_layer:
  assumes "bfs_inv s nb visit d visited fb lvl" "job_node ` set js = dom (om_get lvl)"
  shows "new_nodes js visited = layer s nb d - before_layer s nb d"
proof -
  have "dom (om_get lvl) \<subseteq> layer s nb d"
    using assms(1) by (fastforce simp: bfs_inv_def level_at_def job_at_def)
  then show ?thesis using assms by (auto simp: bfs_inv_def new_nodes_def)
qed

lemma bfs_inv_step:
  assumes inv: "bfs_inv s nb visit d visited fb lvl"
    and js: "\<forall>j\<in>set js. job_at s nb d j" "job_node ` set js = dom (om_get lvl)"
    and run: "process_level (\<lambda>n. n) nb visit js visited fb om_default = Inr (visited', fb', lvl')"
  shows "bfs_inv s nb visit (Suc d) visited' fb' lvl'"
proof -
  have new: "new_nodes js visited = layer s nb d - before_layer s nb d" by (rule bfs_inv_layer [OF inv js(2)])
  note P = process_level_done [OF js(1) level_at_default run]
  have vis: "dom visited = before_layer s nb d" using inv by (simp add: bfs_inv_def)
  have "job_node ` set js - before_layer s nb d = layer s nb d - before_layer s nb d"
    using new by (simp add: new_nodes_def vis)
  then have 1: "dom visited' = before_layer s nb (Suc d)" using P vis by (auto simp: before_layer_Suc)
  have 2: "layer s nb (Suc d) - before_layer s nb (Suc d) \<subseteq> dom (om_get lvl')"
    using P next_layer_new [of _ s nb d] unfolding new by fastforce
  have 3: "\<forall>n\<in>before_layer s nb (Suc d). visit n \<noteq> (True, True)"
    using P inv unfolding new by (auto simp: bfs_inv_def before_layer_Suc)
  have 4: "fallback_ok s nb visit (Suc d) fb'"
  proof (cases fb)
    case None
    then have old: "\<forall>n\<in>before_layer s nb d. \<not> fst (visit n)" using inv by (simp add: bfs_inv_def fallback_ok_def)
    have "case fb' of None \<Rightarrow> \<forall>n\<in>new_nodes js visited. \<not> fst (visit n)
       | Some j \<Rightarrow> j \<in> set js \<and> job_node j \<in> new_nodes js visited \<and> fst (visit (job_node j))"
      using P None by simp
    then show ?thesis using old js(1) unfolding new fallback_ok_def
      by (auto simp: before_layer_Suc less_Suc_eq split: option.splits)
  next
    case (Some j)
    then have "fb' = Some j" "fallback_ok s nb visit d (Some j)" using P inv by (auto simp: bfs_inv_def)
    then show ?thesis by (auto simp: fallback_ok_def less_Suc_eq)
  qed
  show ?thesis using 1 2 3 4 P by (simp add: bfs_inv_def)
qed

lemma job_nearest:
  "job_at s nb d j \<Longrightarrow> P (job_node j) \<Longrightarrow> \<forall>n\<in>before_layer s nb d. \<not> P n \<Longrightarrow> nearest_by s nb P (create_path (Some j))"
  by (simp add: nearest_by_def job_at_def create_path_def)

text \<open>Once a layer brings nothing new, neither does any later one.\<close>

lemma layers_closed:
  assumes "layer s nb d \<subseteq> before_layer s nb d"
  shows "reachable_nodes s nb = before_layer s nb d"
proof -
  have "layer s nb k \<subseteq> before_layer s nb d" for k
  proof (induction k)
    case 0
    then show ?case using assms by (cases d) (auto simp: before_layer_def intro: bexI [of _ 0])
  next
    case (Suc k)
    have "set (nb n) \<subseteq> before_layer s nb d" if n: "n \<in> before_layer s nb d" for n
    proof -
      obtain i where i: "i < d" "n \<in> layer s nb i" using n by (auto simp: before_layer_def)
      then have "set (nb n) \<subseteq> layer s nb (Suc i)" by auto
      moreover have "layer s nb (Suc i) \<subseteq> before_layer s nb d"
      proof (cases "Suc i = d")
        case False
        then have "Suc i < d" using i(1) by simp
        then show ?thesis unfolding before_layer_def by blast
      qed (use assms in simp)
      ultimately show ?thesis by blast
    qed
    then show ?case using Suc by auto
  qed
  then show ?thesis by (auto simp: reachable_nodes_def before_layer_def)
qed

text \<open>A level without new nodes leaves no jobs, any other one leaves fewer nodes to visit.\<close>

lemma search_measure:
  assumes "finite (reachable_nodes s nb)" "om_size lvl > 0" "level_at s nb (Suc d) lvl'"
    "dom (om_get lvl') = dom (om_get om_default) \<union> (\<Union>n\<in>layer s nb d - before_layer s nb d. set (nb n))"
  shows "2 * card (reachable_nodes s nb - before_layer s nb (Suc d)) + (if om_size lvl' > 0 then 1 else 0)
    < 2 * card (reachable_nodes s nb - before_layer s nb d) + (if om_size lvl > 0 then 1 else 0 :: nat)"
proof (cases "layer s nb d \<subseteq> before_layer s nb d")
  case True
  then have "om_get lvl' = Map.empty" using assms(4) by (auto simp: om_get_mp om_default_def)
  then have "om_size lvl' = 0" using assms(3) by (auto simp: level_at_def om_inv_def om_size_def om_get_mp)
  moreover have "before_layer s nb (Suc d) = before_layer s nb d" using True by (auto simp: before_layer_Suc)
  ultimately show ?thesis using assms(2) by simp
next
  case False
  then have "reachable_nodes s nb - before_layer s nb (Suc d) \<subset> reachable_nodes s nb - before_layer s nb d"
    using layer_reachable [of s nb d] by (auto simp: before_layer_Suc)
  then have "card (reachable_nodes s nb - before_layer s nb (Suc d)) < card (reachable_nodes s nb - before_layer s nb d)"
    using assms(1) by (intro psubset_card_mono) auto
  then show ?thesis using assms(2) by simp
qed

lemma search_levels_correct:
  assumes "finite (reachable_nodes s nb)" "bfs_inv s nb visit d visited fb lvl"
  shows "\<exists>r. search_levels (\<lambda>n. n) nb visit None visited fb lvl = Some r \<and> bfs_correct s nb visit r"
  using assms(2)
proof (induction "2 * card (reachable_nodes s nb - before_layer s nb d) + (if om_size lvl > 0 then 1 else 0)" arbitrary: d visited fb lvl rule: less_induct)
  case less
  note inv = less.prems
  show ?case
  proof (cases "om_size lvl > 0")
    case False
    then have "om_get lvl = Map.empty" using inv by (auto simp: bfs_inv_def level_at_def om_inv_def om_size_def om_get_mp)
    then have "layer s nb d \<subseteq> before_layer s nb d" using inv by (auto simp: bfs_inv_def)
    then have all: "reachable_nodes s nb = before_layer s nb d" by (rule layers_closed)
    have "bfs_correct s nb visit \<lparr>bfs_stopped = False, bfs_path = create_path fb\<rparr>"
    proof (cases fb)
      case None
      then show ?thesis using inv all by (simp add: bfs_correct_def bfs_inv_def fallback_ok_def create_path_def)
    next
      case (Some j)
      then obtain k where "job_at s nb k j" "fst (visit (job_node j))" "\<forall>n\<in>before_layer s nb k. \<not> fst (visit n)"
        using inv by (auto simp: bfs_inv_def fallback_ok_def)
      from job_nearest [where P = "\<lambda>n. fst (visit n)", OF this]
      show ?thesis using inv all Some by (simp add: bfs_correct_def bfs_inv_def create_path_def)
    qed
    then show ?thesis using False by (simp add: search_levels.simps [of _ _ _ _ _ _ lvl])
  next
    case True
    obtain js where js: "om_values lvl = Some js" "\<forall>j\<in>set js. job_at s nb d j" "job_node ` set js = dom (om_get lvl)"
      using inv level_values [of s nb d lvl] by (auto simp: bfs_inv_def)
    have new: "new_nodes js visited = layer s nb d - before_layer s nb d" by (rule bfs_inv_layer [OF inv js(3)])
    show ?thesis
    proof (cases "process_level (\<lambda>n. n) nb visit js visited fb om_default")
      case (Inl j)
      have "j \<in> set js" "visit (job_node j) = (True, True)" using process_level_stop [OF Inl] by simp_all
      then have "nearest_by s nb (\<lambda>n. visit n = (True, True)) (create_path (Some j))"
        using js(2) inv by (intro job_nearest) (auto simp: bfs_inv_def)
      then show ?thesis using True js(1) Inl by (simp add: search_levels.simps [of _ _ _ _ _ _ lvl] bfs_correct_def)
    next
      case (Inr st)
      obtain visited' fb' lvl' where st: "st = (visited', fb', lvl')" by (cases st)
      have inv': "bfs_inv s nb visit (Suc d) visited' fb' lvl'"
        by (rule bfs_inv_step [OF inv js(2,3) Inr [unfolded st]])
      have step: "search_levels (\<lambda>n. n) nb visit None visited fb lvl = search_levels (\<lambda>n. n) nb visit None visited' fb' lvl'"
        using True js(1) Inr by (simp add: search_levels.simps [of _ _ _ _ _ _ lvl] st)
      have "2 * card (reachable_nodes s nb - before_layer s nb (Suc d)) + (if om_size lvl' > 0 then 1 else 0)
          < 2 * card (reachable_nodes s nb - before_layer s nb d) + (if om_size lvl > 0 then 1 else 0)"
        using process_level_done [OF js(2) level_at_default Inr [unfolded st]] True
        unfolding new by (intro search_measure [OF assms(1)]) simp_all
      then show ?thesis unfolding step by (rule less.hyps [OF _ inv'])
    qed
  qed
qed

text \<open>C15: on a graph with finitely many reachable nodes the search returns. If it stops, the path leads back to
  the start from a node that stops the search, over as few edges as any such node; if not, no reachable
  node stops it, and the path leads back from a nearest result, or is empty when there is none.\<close>

theorem breadth_first_search_correct:
  assumes "finite (reachable_nodes start neighbors)"
  shows "\<exists>r. breadth_first_search_parallel start neighbors visit = Some r \<and> bfs_correct start neighbors visit r"
proof -
  let ?lvl = "om_set start (Job start None) om_default"
  have "level_at start neighbors 0 ?lvl"
    using level_at_set [OF level_at_default, of start neighbors 0 "Job start None"] by (simp add: job_at_def)
  then have "bfs_inv start neighbors visit 0 Map.empty None ?lvl"
    by (simp add: bfs_inv_def before_layer_def fallback_ok_def dom_om_set)
  moreover have "new_ordered_map_from_list [(start, Job start None)] = ?lvl"
    by (simp add: new_ordered_map_from_list_def new_ordered_map_with_size_hint_def om_default_def)
  ultimately show ?thesis
    using search_levels_correct [OF assms]
    by (simp add: breadth_first_search_parallel_def breadth_first_search_parallel_ex_def bfs_options_default_def)
qed

theorem breadth_first_search_correct_witness:
  "breadth_first_search_parallel (1::nat) (\<lambda>n. if n < 4 then [2 * n, 2 * n + 1] else [1]) (\<lambda>n. (n = 6, True))
     = Some \<lparr>bfs_stopped = True, bfs_path = [6, 3, 1]\<rparr>
   \<and> bfs_correct 1 (\<lambda>n. if n < 4 then [2 * n, 2 * n + 1] else [1]) (\<lambda>n. (n = 6, True))
       \<lparr>bfs_stopped = True, bfs_path = [6, 3, 1 :: nat]\<rparr>"
proof -
  let ?nb = "\<lambda>n::nat. if n < 4 then [2 * n, 2 * n + 1] else [1]"
  have "layer 1 ?nb d \<subseteq> {..7}" for d by (induction d) (auto split: if_splits)
  then have "reachable_nodes 1 ?nb \<subseteq> {..7}" by (auto simp: reachable_nodes_def)
  then have fin: "finite (reachable_nodes 1 ?nb)" by (rule finite_subset) simp
  have "breadth_first_search_parallel (1::nat) ?nb (\<lambda>n. (n = 6, True))
     = Some \<lparr>bfs_stopped = True, bfs_path = [6, 3, 1]\<rparr>" by code_simp
  then show ?thesis using breadth_first_search_correct [OF fin, of "\<lambda>n. (n = 6, True)"] by simp
qed

end
