(* ===== verification/ScannerTables.thy ===== *)
theory ScannerTables
  imports Utf8 "HOL-Library.Code_Target_Nat"
begin

text \<open>
  The tables of the scanner: the token kinds of \<open>ast::Kind\<close>, the texts of tokens and keywords
  (\<open>scanner.rs\<close> and \<open>utilities.rs\<close> of \<open>ts-scanner\<close>), and the Unicode ranges of identifiers with
  the binary search over them. A kind is its discriminant; the constants below name the ones of
  tokens, in the order of the enumeration. A \<open>match\<close> on strings is a lookup in the list of its arms.
\<close>

section \<open>Token kinds\<close>

type_synonym kind = nat

abbreviation (input) "Unknown \<equiv> 0 :: kind"
abbreviation (input) "EndOfFile \<equiv> 1 :: kind"
abbreviation (input) "SingleLineCommentTrivia \<equiv> 2 :: kind"
abbreviation (input) "MultiLineCommentTrivia \<equiv> 3 :: kind"
abbreviation (input) "NewLineTrivia \<equiv> 4 :: kind"
abbreviation (input) "WhitespaceTrivia \<equiv> 5 :: kind"
abbreviation (input) "ConflictMarkerTrivia \<equiv> 6 :: kind"
abbreviation (input) "NonTextFileMarkerTrivia \<equiv> 7 :: kind"
abbreviation (input) "NumericLiteral \<equiv> 8 :: kind"
abbreviation (input) "BigIntLiteral \<equiv> 9 :: kind"
abbreviation (input) "StringLiteral \<equiv> 10 :: kind"
abbreviation (input) "JsxText \<equiv> 11 :: kind"
abbreviation (input) "JsxTextAllWhiteSpaces \<equiv> 12 :: kind"
abbreviation (input) "RegularExpressionLiteral \<equiv> 13 :: kind"
abbreviation (input) "NoSubstitutionTemplateLiteral \<equiv> 14 :: kind"
abbreviation (input) "TemplateHead \<equiv> 15 :: kind"
abbreviation (input) "TemplateMiddle \<equiv> 16 :: kind"
abbreviation (input) "TemplateTail \<equiv> 17 :: kind"
abbreviation (input) "OpenBraceToken \<equiv> 18 :: kind"
abbreviation (input) "CloseBraceToken \<equiv> 19 :: kind"
abbreviation (input) "OpenParenToken \<equiv> 20 :: kind"
abbreviation (input) "CloseParenToken \<equiv> 21 :: kind"
abbreviation (input) "OpenBracketToken \<equiv> 22 :: kind"
abbreviation (input) "CloseBracketToken \<equiv> 23 :: kind"
abbreviation (input) "DotToken \<equiv> 24 :: kind"
abbreviation (input) "DotDotDotToken \<equiv> 25 :: kind"
abbreviation (input) "SemicolonToken \<equiv> 26 :: kind"
abbreviation (input) "CommaToken \<equiv> 27 :: kind"
abbreviation (input) "QuestionDotToken \<equiv> 28 :: kind"
abbreviation (input) "LessThanToken \<equiv> 29 :: kind"
abbreviation (input) "LessThanSlashToken \<equiv> 30 :: kind"
abbreviation (input) "GreaterThanToken \<equiv> 31 :: kind"
abbreviation (input) "LessThanEqualsToken \<equiv> 32 :: kind"
abbreviation (input) "GreaterThanEqualsToken \<equiv> 33 :: kind"
abbreviation (input) "EqualsEqualsToken \<equiv> 34 :: kind"
abbreviation (input) "ExclamationEqualsToken \<equiv> 35 :: kind"
abbreviation (input) "EqualsEqualsEqualsToken \<equiv> 36 :: kind"
abbreviation (input) "ExclamationEqualsEqualsToken \<equiv> 37 :: kind"
abbreviation (input) "EqualsGreaterThanToken \<equiv> 38 :: kind"
abbreviation (input) "PlusToken \<equiv> 39 :: kind"
abbreviation (input) "MinusToken \<equiv> 40 :: kind"
abbreviation (input) "AsteriskToken \<equiv> 41 :: kind"
abbreviation (input) "AsteriskAsteriskToken \<equiv> 42 :: kind"
abbreviation (input) "SlashToken \<equiv> 43 :: kind"
abbreviation (input) "PercentToken \<equiv> 44 :: kind"
abbreviation (input) "PlusPlusToken \<equiv> 45 :: kind"
abbreviation (input) "MinusMinusToken \<equiv> 46 :: kind"
abbreviation (input) "LessThanLessThanToken \<equiv> 47 :: kind"
abbreviation (input) "GreaterThanGreaterThanToken \<equiv> 48 :: kind"
abbreviation (input) "GreaterThanGreaterThanGreaterThanToken \<equiv> 49 :: kind"
abbreviation (input) "AmpersandToken \<equiv> 50 :: kind"
abbreviation (input) "BarToken \<equiv> 51 :: kind"
abbreviation (input) "CaretToken \<equiv> 52 :: kind"
abbreviation (input) "ExclamationToken \<equiv> 53 :: kind"
abbreviation (input) "TildeToken \<equiv> 54 :: kind"
abbreviation (input) "AmpersandAmpersandToken \<equiv> 55 :: kind"
abbreviation (input) "BarBarToken \<equiv> 56 :: kind"
abbreviation (input) "QuestionToken \<equiv> 57 :: kind"
abbreviation (input) "ColonToken \<equiv> 58 :: kind"
abbreviation (input) "AtToken \<equiv> 59 :: kind"
abbreviation (input) "QuestionQuestionToken \<equiv> 60 :: kind"
abbreviation (input) "BacktickToken \<equiv> 61 :: kind"
abbreviation (input) "HashToken \<equiv> 62 :: kind"
abbreviation (input) "EqualsToken \<equiv> 63 :: kind"
abbreviation (input) "PlusEqualsToken \<equiv> 64 :: kind"
abbreviation (input) "MinusEqualsToken \<equiv> 65 :: kind"
abbreviation (input) "AsteriskEqualsToken \<equiv> 66 :: kind"
abbreviation (input) "AsteriskAsteriskEqualsToken \<equiv> 67 :: kind"
abbreviation (input) "SlashEqualsToken \<equiv> 68 :: kind"
abbreviation (input) "PercentEqualsToken \<equiv> 69 :: kind"
abbreviation (input) "LessThanLessThanEqualsToken \<equiv> 70 :: kind"
abbreviation (input) "GreaterThanGreaterThanEqualsToken \<equiv> 71 :: kind"
abbreviation (input) "GreaterThanGreaterThanGreaterThanEqualsToken \<equiv> 72 :: kind"
abbreviation (input) "AmpersandEqualsToken \<equiv> 73 :: kind"
abbreviation (input) "BarEqualsToken \<equiv> 74 :: kind"
abbreviation (input) "BarBarEqualsToken \<equiv> 75 :: kind"
abbreviation (input) "AmpersandAmpersandEqualsToken \<equiv> 76 :: kind"
abbreviation (input) "QuestionQuestionEqualsToken \<equiv> 77 :: kind"
abbreviation (input) "CaretEqualsToken \<equiv> 78 :: kind"
abbreviation (input) "Identifier \<equiv> 79 :: kind"
abbreviation (input) "PrivateIdentifier \<equiv> 80 :: kind"
abbreviation (input) "BreakKeyword \<equiv> 81 :: kind"
abbreviation (input) "CaseKeyword \<equiv> 82 :: kind"
abbreviation (input) "CatchKeyword \<equiv> 83 :: kind"
abbreviation (input) "ClassKeyword \<equiv> 84 :: kind"
abbreviation (input) "ConstKeyword \<equiv> 85 :: kind"
abbreviation (input) "ContinueKeyword \<equiv> 86 :: kind"
abbreviation (input) "DebuggerKeyword \<equiv> 87 :: kind"
abbreviation (input) "DefaultKeyword \<equiv> 88 :: kind"
abbreviation (input) "DeleteKeyword \<equiv> 89 :: kind"
abbreviation (input) "DoKeyword \<equiv> 90 :: kind"
abbreviation (input) "ElseKeyword \<equiv> 91 :: kind"
abbreviation (input) "EnumKeyword \<equiv> 92 :: kind"
abbreviation (input) "ExportKeyword \<equiv> 93 :: kind"
abbreviation (input) "ExtendsKeyword \<equiv> 94 :: kind"
abbreviation (input) "FalseKeyword \<equiv> 95 :: kind"
abbreviation (input) "FinallyKeyword \<equiv> 96 :: kind"
abbreviation (input) "ForKeyword \<equiv> 97 :: kind"
abbreviation (input) "FunctionKeyword \<equiv> 98 :: kind"
abbreviation (input) "IfKeyword \<equiv> 99 :: kind"
abbreviation (input) "ImportKeyword \<equiv> 100 :: kind"
abbreviation (input) "InKeyword \<equiv> 101 :: kind"
abbreviation (input) "InstanceOfKeyword \<equiv> 102 :: kind"
abbreviation (input) "NewKeyword \<equiv> 103 :: kind"
abbreviation (input) "NullKeyword \<equiv> 104 :: kind"
abbreviation (input) "ReturnKeyword \<equiv> 105 :: kind"
abbreviation (input) "SuperKeyword \<equiv> 106 :: kind"
abbreviation (input) "SwitchKeyword \<equiv> 107 :: kind"
abbreviation (input) "ThisKeyword \<equiv> 108 :: kind"
abbreviation (input) "ThrowKeyword \<equiv> 109 :: kind"
abbreviation (input) "TrueKeyword \<equiv> 110 :: kind"
abbreviation (input) "TryKeyword \<equiv> 111 :: kind"
abbreviation (input) "TypeOfKeyword \<equiv> 112 :: kind"
abbreviation (input) "VarKeyword \<equiv> 113 :: kind"
abbreviation (input) "VoidKeyword \<equiv> 114 :: kind"
abbreviation (input) "WhileKeyword \<equiv> 115 :: kind"
abbreviation (input) "WithKeyword \<equiv> 116 :: kind"
abbreviation (input) "ImplementsKeyword \<equiv> 117 :: kind"
abbreviation (input) "InterfaceKeyword \<equiv> 118 :: kind"
abbreviation (input) "LetKeyword \<equiv> 119 :: kind"
abbreviation (input) "PackageKeyword \<equiv> 120 :: kind"
abbreviation (input) "PrivateKeyword \<equiv> 121 :: kind"
abbreviation (input) "ProtectedKeyword \<equiv> 122 :: kind"
abbreviation (input) "PublicKeyword \<equiv> 123 :: kind"
abbreviation (input) "StaticKeyword \<equiv> 124 :: kind"
abbreviation (input) "YieldKeyword \<equiv> 125 :: kind"
abbreviation (input) "AbstractKeyword \<equiv> 126 :: kind"
abbreviation (input) "AccessorKeyword \<equiv> 127 :: kind"
abbreviation (input) "AsKeyword \<equiv> 128 :: kind"
abbreviation (input) "AssertsKeyword \<equiv> 129 :: kind"
abbreviation (input) "AssertKeyword \<equiv> 130 :: kind"
abbreviation (input) "AnyKeyword \<equiv> 131 :: kind"
abbreviation (input) "AsyncKeyword \<equiv> 132 :: kind"
abbreviation (input) "AwaitKeyword \<equiv> 133 :: kind"
abbreviation (input) "BooleanKeyword \<equiv> 134 :: kind"
abbreviation (input) "ConstructorKeyword \<equiv> 135 :: kind"
abbreviation (input) "DeclareKeyword \<equiv> 136 :: kind"
abbreviation (input) "GetKeyword \<equiv> 137 :: kind"
abbreviation (input) "ImmediateKeyword \<equiv> 138 :: kind"
abbreviation (input) "InferKeyword \<equiv> 139 :: kind"
abbreviation (input) "IntrinsicKeyword \<equiv> 140 :: kind"
abbreviation (input) "IsKeyword \<equiv> 141 :: kind"
abbreviation (input) "KeyOfKeyword \<equiv> 142 :: kind"
abbreviation (input) "ModuleKeyword \<equiv> 143 :: kind"
abbreviation (input) "NamespaceKeyword \<equiv> 144 :: kind"
abbreviation (input) "NeverKeyword \<equiv> 145 :: kind"
abbreviation (input) "OutKeyword \<equiv> 146 :: kind"
abbreviation (input) "ReadonlyKeyword \<equiv> 147 :: kind"
abbreviation (input) "RequireKeyword \<equiv> 148 :: kind"
abbreviation (input) "NumberKeyword \<equiv> 149 :: kind"
abbreviation (input) "ObjectKeyword \<equiv> 150 :: kind"
abbreviation (input) "SatisfiesKeyword \<equiv> 151 :: kind"
abbreviation (input) "SetKeyword \<equiv> 152 :: kind"
abbreviation (input) "StringKeyword \<equiv> 153 :: kind"
abbreviation (input) "SymbolKeyword \<equiv> 154 :: kind"
abbreviation (input) "TypeKeyword \<equiv> 155 :: kind"
abbreviation (input) "UndefinedKeyword \<equiv> 156 :: kind"
abbreviation (input) "UniqueKeyword \<equiv> 157 :: kind"
abbreviation (input) "UnknownKeyword \<equiv> 158 :: kind"
abbreviation (input) "UsingKeyword \<equiv> 159 :: kind"
abbreviation (input) "FromKeyword \<equiv> 160 :: kind"
abbreviation (input) "GlobalKeyword \<equiv> 161 :: kind"
abbreviation (input) "BigIntKeyword \<equiv> 162 :: kind"
abbreviation (input) "OverrideKeyword \<equiv> 163 :: kind"
abbreviation (input) "OfKeyword \<equiv> 164 :: kind"
abbreviation (input) "DeferKeyword \<equiv> 165 :: kind"

section \<open>Token texts\<close>

definition keyword_table :: "(string \<times> kind) list" where
  "keyword_table =
    [(''break'', BreakKeyword), (''case'', CaseKeyword), (''catch'', CatchKeyword),
     (''class'', ClassKeyword), (''const'', ConstKeyword), (''continue'', ContinueKeyword),
     (''debugger'', DebuggerKeyword), (''default'', DefaultKeyword), (''delete'', DeleteKeyword),
     (''do'', DoKeyword), (''else'', ElseKeyword), (''enum'', EnumKeyword),
     (''export'', ExportKeyword), (''extends'', ExtendsKeyword), (''false'', FalseKeyword),
     (''finally'', FinallyKeyword), (''for'', ForKeyword), (''function'', FunctionKeyword),
     (''if'', IfKeyword), (''import'', ImportKeyword), (''in'', InKeyword),
     (''instanceof'', InstanceOfKeyword), (''new'', NewKeyword), (''null'', NullKeyword),
     (''return'', ReturnKeyword), (''super'', SuperKeyword), (''switch'', SwitchKeyword),
     (''this'', ThisKeyword), (''throw'', ThrowKeyword), (''true'', TrueKeyword),
     (''try'', TryKeyword), (''typeof'', TypeOfKeyword), (''var'', VarKeyword),
     (''void'', VoidKeyword), (''while'', WhileKeyword), (''with'', WithKeyword),
     (''implements'', ImplementsKeyword), (''interface'', InterfaceKeyword),
     (''let'', LetKeyword), (''package'', PackageKeyword), (''private'', PrivateKeyword),
     (''protected'', ProtectedKeyword), (''public'', PublicKeyword), (''static'', StaticKeyword),
     (''yield'', YieldKeyword), (''abstract'', AbstractKeyword), (''accessor'', AccessorKeyword),
     (''as'', AsKeyword), (''asserts'', AssertsKeyword), (''assert'', AssertKeyword),
     (''any'', AnyKeyword), (''async'', AsyncKeyword), (''await'', AwaitKeyword),
     (''boolean'', BooleanKeyword), (''constructor'', ConstructorKeyword),
     (''declare'', DeclareKeyword), (''get'', GetKeyword), (''immediate'', ImmediateKeyword),
     (''infer'', InferKeyword), (''intrinsic'', IntrinsicKeyword), (''is'', IsKeyword),
     (''keyof'', KeyOfKeyword), (''module'', ModuleKeyword), (''namespace'', NamespaceKeyword),
     (''never'', NeverKeyword), (''out'', OutKeyword), (''readonly'', ReadonlyKeyword),
     (''require'', RequireKeyword), (''number'', NumberKeyword), (''object'', ObjectKeyword),
     (''satisfies'', SatisfiesKeyword), (''set'', SetKeyword), (''string'', StringKeyword),
     (''symbol'', SymbolKeyword), (''type'', TypeKeyword), (''undefined'', UndefinedKeyword),
     (''unique'', UniqueKeyword), (''unknown'', UnknownKeyword), (''using'', UsingKeyword),
     (''from'', FromKeyword), (''global'', GlobalKeyword), (''bigint'', BigIntKeyword),
     (''override'', OverrideKeyword), (''of'', OfKeyword), (''defer'', DeferKeyword)]"

definition string_to_keyword_kind :: "string \<Rightarrow> kind" where
  "string_to_keyword_kind text = (case map_of keyword_table text of Some k \<Rightarrow> k | None \<Rightarrow> Unknown)"

definition token_texts :: "(kind \<times> string) list" where
  "token_texts =
    [(OpenBraceToken, ''{''), (CloseBraceToken, ''}''), (OpenParenToken, ''(''),
     (CloseParenToken, '')''), (OpenBracketToken, ''[''), (CloseBracketToken, '']''),
     (DotToken, ''.''), (DotDotDotToken, ''...''), (SemicolonToken, '';''), (CommaToken, '',''),
     (LessThanToken, ''<''), (GreaterThanToken, ''>''), (LessThanEqualsToken, ''<=''),
     (GreaterThanEqualsToken, ''>=''), (EqualsEqualsToken, ''==''),
     (ExclamationEqualsToken, ''!=''), (EqualsEqualsEqualsToken, ''===''),
     (ExclamationEqualsEqualsToken, ''!==''), (EqualsGreaterThanToken, ''=>''),
     (PlusToken, ''+''), (MinusToken, ''-''), (AsteriskAsteriskToken, ''**''),
     (AsteriskToken, ''*''), (SlashToken, ''/''), (PercentToken, ''%''), (PlusPlusToken, ''++''),
     (MinusMinusToken, ''--''), (LessThanLessThanToken, ''<<''), (LessThanSlashToken, ''</''),
     (GreaterThanGreaterThanToken, ''>>''), (GreaterThanGreaterThanGreaterThanToken, ''>>>''),
     (AmpersandToken, ''&''), (BarToken, ''|''), (CaretToken, ''^''), (ExclamationToken, ''!''),
     (TildeToken, ''~''), (AmpersandAmpersandToken, ''&&''), (BarBarToken, ''||''),
     (QuestionToken, ''?''), (QuestionQuestionToken, ''??''), (QuestionDotToken, ''?.''),
     (ColonToken, '':''), (EqualsToken, ''=''), (PlusEqualsToken, ''+=''),
     (MinusEqualsToken, ''-=''), (AsteriskEqualsToken, ''*=''),
     (AsteriskAsteriskEqualsToken, ''**=''), (SlashEqualsToken, ''/=''),
     (PercentEqualsToken, ''%=''), (LessThanLessThanEqualsToken, ''<<=''),
     (GreaterThanGreaterThanEqualsToken, ''>>=''),
     (GreaterThanGreaterThanGreaterThanEqualsToken, ''>>>=''), (AmpersandEqualsToken, ''&=''),
     (BarEqualsToken, ''|=''), (CaretEqualsToken, ''^=''), (BarBarEqualsToken, ''||=''),
     (AmpersandAmpersandEqualsToken, ''&&=''), (QuestionQuestionEqualsToken, ''??=''),
     (AtToken, ''@''), (HashToken, ''#''), (BacktickToken, ''`''),
     (AbstractKeyword, ''abstract''), (AccessorKeyword, ''accessor''), (AnyKeyword, ''any''),
     (AsKeyword, ''as''), (AssertsKeyword, ''asserts''), (AssertKeyword, ''assert''),
     (BigIntKeyword, ''bigint''), (BooleanKeyword, ''boolean''), (BreakKeyword, ''break''),
     (CaseKeyword, ''case''), (CatchKeyword, ''catch''), (ClassKeyword, ''class''),
     (ContinueKeyword, ''continue''), (ConstKeyword, ''const''),
     (ConstructorKeyword, ''constructor''), (DebuggerKeyword, ''debugger''),
     (DeclareKeyword, ''declare''), (DefaultKeyword, ''default''), (DeferKeyword, ''defer''),
     (DeleteKeyword, ''delete''), (DoKeyword, ''do''), (ElseKeyword, ''else''),
     (EnumKeyword, ''enum''), (ExportKeyword, ''export''), (ExtendsKeyword, ''extends''),
     (FalseKeyword, ''false''), (FinallyKeyword, ''finally''), (ForKeyword, ''for''),
     (FromKeyword, ''from''), (FunctionKeyword, ''function''), (GetKeyword, ''get''),
     (IfKeyword, ''if''), (ImmediateKeyword, ''immediate''), (ImplementsKeyword, ''implements''),
     (ImportKeyword, ''import''), (InKeyword, ''in''), (InferKeyword, ''infer''),
     (InstanceOfKeyword, ''instanceof''), (InterfaceKeyword, ''interface''),
     (IntrinsicKeyword, ''intrinsic''), (IsKeyword, ''is''), (KeyOfKeyword, ''keyof''),
     (LetKeyword, ''let''), (ModuleKeyword, ''module''), (NamespaceKeyword, ''namespace''),
     (NeverKeyword, ''never''), (NewKeyword, ''new''), (NullKeyword, ''null''),
     (NumberKeyword, ''number''), (ObjectKeyword, ''object''), (PackageKeyword, ''package''),
     (PrivateKeyword, ''private''), (ProtectedKeyword, ''protected''),
     (PublicKeyword, ''public''), (OverrideKeyword, ''override''), (OutKeyword, ''out''),
     (ReadonlyKeyword, ''readonly''), (RequireKeyword, ''require''), (GlobalKeyword, ''global''),
     (ReturnKeyword, ''return''), (SatisfiesKeyword, ''satisfies''), (SetKeyword, ''set''),
     (StaticKeyword, ''static''), (StringKeyword, ''string''), (SuperKeyword, ''super''),
     (SwitchKeyword, ''switch''), (SymbolKeyword, ''symbol''), (ThisKeyword, ''this''),
     (ThrowKeyword, ''throw''), (TrueKeyword, ''true''), (TryKeyword, ''try''),
     (TypeKeyword, ''type''), (TypeOfKeyword, ''typeof''), (UndefinedKeyword, ''undefined''),
     (UniqueKeyword, ''unique''), (UnknownKeyword, ''unknown''), (UsingKeyword, ''using''),
     (VarKeyword, ''var''), (VoidKeyword, ''void''), (WhileKeyword, ''while''),
     (WithKeyword, ''with''), (YieldKeyword, ''yield''), (AsyncKeyword, ''async''),
     (AwaitKeyword, ''await''), (OfKeyword, ''of'')]"

definition token_to_string :: "kind \<Rightarrow> string" where
  "token_to_string token = (case map_of token_texts token of Some text \<Rightarrow> text | None \<Rightarrow> [])"

definition token_strings :: "(string \<times> kind) list" where
  "token_strings =
    [(''{'', OpenBraceToken), (''}'', CloseBraceToken), (''('', OpenParenToken),
     ('')'', CloseParenToken), (''['', OpenBracketToken), ('']'', CloseBracketToken),
     (''.'', DotToken), (''...'', DotDotDotToken), ('';'', SemicolonToken), ('','', CommaToken),
     (''<'', LessThanToken), (''>'', GreaterThanToken), (''<='', LessThanEqualsToken),
     (''>='', GreaterThanEqualsToken), (''=='', EqualsEqualsToken),
     (''!='', ExclamationEqualsToken), (''==='', EqualsEqualsEqualsToken),
     (''!=='', ExclamationEqualsEqualsToken), (''=>'', EqualsGreaterThanToken),
     (''+'', PlusToken), (''-'', MinusToken), (''**'', AsteriskAsteriskToken),
     (''*'', AsteriskToken), (''/'', SlashToken), (''%'', PercentToken), (''++'', PlusPlusToken),
     (''--'', MinusMinusToken), (''<<'', LessThanLessThanToken), (''</'', LessThanSlashToken),
     (''>>'', GreaterThanGreaterThanToken), (''>>>'', GreaterThanGreaterThanGreaterThanToken),
     (''&'', AmpersandToken), (''|'', BarToken), (''^'', CaretToken), (''!'', ExclamationToken),
     (''~'', TildeToken), (''&&'', AmpersandAmpersandToken), (''||'', BarBarToken),
     (''?'', QuestionToken), (''??'', QuestionQuestionToken), (''?.'', QuestionDotToken),
     ('':'', ColonToken), (''='', EqualsToken), (''+='', PlusEqualsToken),
     (''-='', MinusEqualsToken), (''*='', AsteriskEqualsToken),
     (''**='', AsteriskAsteriskEqualsToken), (''/='', SlashEqualsToken),
     (''%='', PercentEqualsToken), (''<<='', LessThanLessThanEqualsToken),
     (''>>='', GreaterThanGreaterThanEqualsToken),
     (''>>>='', GreaterThanGreaterThanGreaterThanEqualsToken), (''&='', AmpersandEqualsToken),
     (''|='', BarEqualsToken), (''^='', CaretEqualsToken), (''||='', BarBarEqualsToken),
     (''&&='', AmpersandAmpersandEqualsToken), (''??='', QuestionQuestionEqualsToken),
     (''@'', AtToken), (''#'', HashToken), (''`'', BacktickToken)]"

definition string_to_token :: "string \<Rightarrow> kind" where
  "string_to_token s =
     (case map_of token_strings s of Some k \<Rightarrow> k | None \<Rightarrow> string_to_keyword_kind s)"

definition keyword_texts :: "string list" where
  "keyword_texts =
    [''abstract'', ''accessor'', ''any'', ''as'', ''asserts'', ''assert'', ''bigint'',
     ''boolean'', ''break'', ''case'', ''catch'', ''class'', ''continue'', ''const'',
     ''constructor'', ''debugger'', ''declare'', ''default'', ''defer'', ''delete'', ''do'',
     ''else'', ''enum'', ''export'', ''extends'', ''false'', ''finally'', ''for'', ''from'',
     ''function'', ''get'', ''if'', ''immediate'', ''implements'', ''import'', ''in'', ''infer'',
     ''instanceof'', ''interface'', ''intrinsic'', ''is'', ''keyof'', ''let'', ''module'',
     ''namespace'', ''never'', ''new'', ''null'', ''number'', ''object'', ''package'',
     ''private'', ''protected'', ''public'', ''override'', ''out'', ''readonly'', ''require'',
     ''global'', ''return'', ''satisfies'', ''set'', ''static'', ''string'', ''super'',
     ''switch'', ''symbol'', ''this'', ''throw'', ''true'', ''try'', ''type'', ''typeof'',
     ''undefined'', ''unique'', ''unknown'', ''using'', ''var'', ''void'', ''while'', ''with'',
     ''yield'', ''async'', ''await'', ''of'']"

definition get_viable_keyword_suggestions :: "string list" where
  "get_viable_keyword_suggestions = filter (\<lambda>text. length text > 2) keyword_texts"

definition get_identifier_token :: "string \<Rightarrow> kind" where
  "get_identifier_token text =
     (if 2 \<le> length text \<and> length text \<le> 12 \<and> is_ascii_lowercase (hd text) then
        let keyword = string_to_keyword_kind text in
        if keyword \<noteq> Unknown then keyword else Identifier
      else Identifier)"

definition token_is_identifier_or_keyword :: "kind \<Rightarrow> bool" where
  "token_is_identifier_or_keyword token \<longleftrightarrow> token \<ge> Identifier"

section \<open>Unicode ranges\<close>

definition unicode_identifier_start_ranges :: "nat list" where
  "unicode_identifier_start_ranges =
    [65, 90, 97, 122, 170, 170, 181, 181, 186, 186, 192, 214, 216, 246, 248, 705, 710, 721, 736,
     740, 748, 748, 750, 750, 880, 884, 886, 887, 890, 893, 895, 895, 902, 902, 904, 906, 908,
     908, 910, 929, 931, 1013, 1015, 1153, 1162, 1327, 1329, 1366, 1369, 1369, 1376, 1416, 1488,
     1514, 1519, 1522, 1568, 1610, 1646, 1647, 1649, 1747, 1749, 1749, 1765, 1766, 1774, 1775,
     1786, 1788, 1791, 1791, 1808, 1808, 1810, 1839, 1869, 1957, 1969, 1969, 1994, 2026, 2036,
     2037, 2042, 2042, 2048, 2069, 2074, 2074, 2084, 2084, 2088, 2088, 2112, 2136, 2144, 2154,
     2160, 2183, 2185, 2190, 2208, 2249, 2308, 2361, 2365, 2365, 2384, 2384, 2392, 2401, 2417,
     2432, 2437, 2444, 2447, 2448, 2451, 2472, 2474, 2480, 2482, 2482, 2486, 2489, 2493, 2493,
     2510, 2510, 2524, 2525, 2527, 2529, 2544, 2545, 2556, 2556, 2565, 2570, 2575, 2576, 2579,
     2600, 2602, 2608, 2610, 2611, 2613, 2614, 2616, 2617, 2649, 2652, 2654, 2654, 2674, 2676,
     2693, 2701, 2703, 2705, 2707, 2728, 2730, 2736, 2738, 2739, 2741, 2745, 2749, 2749, 2768,
     2768, 2784, 2785, 2809, 2809, 2821, 2828, 2831, 2832, 2835, 2856, 2858, 2864, 2866, 2867,
     2869, 2873, 2877, 2877, 2908, 2909, 2911, 2913, 2929, 2929, 2947, 2947, 2949, 2954, 2958,
     2960, 2962, 2965, 2969, 2970, 2972, 2972, 2974, 2975, 2979, 2980, 2984, 2986, 2990, 3001,
     3024, 3024, 3077, 3084, 3086, 3088, 3090, 3112, 3114, 3129, 3133, 3133, 3160, 3162, 3165,
     3165, 3168, 3169, 3200, 3200, 3205, 3212, 3214, 3216, 3218, 3240, 3242, 3251, 3253, 3257,
     3261, 3261, 3293, 3294, 3296, 3297, 3313, 3314, 3332, 3340, 3342, 3344, 3346, 3386, 3389,
     3389, 3406, 3406, 3412, 3414, 3423, 3425, 3450, 3455, 3461, 3478, 3482, 3505, 3507, 3515,
     3517, 3517, 3520, 3526, 3585, 3632, 3634, 3635, 3648, 3654, 3713, 3714, 3716, 3716, 3718,
     3722, 3724, 3747, 3749, 3749, 3751, 3760, 3762, 3763, 3773, 3773, 3776, 3780, 3782, 3782,
     3804, 3807, 3840, 3840, 3904, 3911, 3913, 3948, 3976, 3980, 4096, 4138, 4159, 4159, 4176,
     4181, 4186, 4189, 4193, 4193, 4197, 4198, 4206, 4208, 4213, 4225, 4238, 4238, 4256, 4293,
     4295, 4295, 4301, 4301, 4304, 4346, 4348, 4680, 4682, 4685, 4688, 4694, 4696, 4696, 4698,
     4701, 4704, 4744, 4746, 4749, 4752, 4784, 4786, 4789, 4792, 4798, 4800, 4800, 4802, 4805,
     4808, 4822, 4824, 4880, 4882, 4885, 4888, 4954, 4992, 5007, 5024, 5109, 5112, 5117, 5121,
     5740, 5743, 5759, 5761, 5786, 5792, 5866, 5870, 5880, 5888, 5905, 5919, 5937, 5952, 5969,
     5984, 5996, 5998, 6000, 6016, 6067, 6103, 6103, 6108, 6108, 6176, 6264, 6272, 6312, 6314,
     6314, 6320, 6389, 6400, 6430, 6480, 6509, 6512, 6516, 6528, 6571, 6576, 6601, 6656, 6678,
     6688, 6740, 6823, 6823, 6917, 6963, 6981, 6988, 7043, 7072, 7086, 7087, 7098, 7141, 7168,
     7203, 7245, 7247, 7258, 7293, 7296, 7304, 7312, 7354, 7357, 7359, 7401, 7404, 7406, 7411,
     7413, 7414, 7418, 7418, 7424, 7615, 7680, 7957, 7960, 7965, 7968, 8005, 8008, 8013, 8016,
     8023, 8025, 8025, 8027, 8027, 8029, 8029, 8031, 8061, 8064, 8116, 8118, 8124, 8126, 8126,
     8130, 8132, 8134, 8140, 8144, 8147, 8150, 8155, 8160, 8172, 8178, 8180, 8182, 8188, 8305,
     8305, 8319, 8319, 8336, 8348, 8450, 8450, 8455, 8455, 8458, 8467, 8469, 8469, 8472, 8477,
     8484, 8484, 8486, 8486, 8488, 8488, 8490, 8505, 8508, 8511, 8517, 8521, 8526, 8526, 8544,
     8584, 11264, 11492, 11499, 11502, 11506, 11507, 11520, 11557, 11559, 11559, 11565, 11565,
     11568, 11623, 11631, 11631, 11648, 11670, 11680, 11686, 11688, 11694, 11696, 11702, 11704,
     11710, 11712, 11718, 11720, 11726, 11728, 11734, 11736, 11742, 12293, 12295, 12321, 12329,
     12337, 12341, 12344, 12348, 12353, 12438, 12443, 12447, 12449, 12538, 12540, 12543, 12549,
     12591, 12593, 12686, 12704, 12735, 12784, 12799, 13312, 19903, 19968, 42124, 42192, 42237,
     42240, 42508, 42512, 42527, 42538, 42539, 42560, 42606, 42623, 42653, 42656, 42735, 42775,
     42783, 42786, 42888, 42891, 42954, 42960, 42961, 42963, 42963, 42965, 42969, 42994, 43009,
     43011, 43013, 43015, 43018, 43020, 43042, 43072, 43123, 43138, 43187, 43250, 43255, 43259,
     43259, 43261, 43262, 43274, 43301, 43312, 43334, 43360, 43388, 43396, 43442, 43471, 43471,
     43488, 43492, 43494, 43503, 43514, 43518, 43520, 43560, 43584, 43586, 43588, 43595, 43616,
     43638, 43642, 43642, 43646, 43695, 43697, 43697, 43701, 43702, 43705, 43709, 43712, 43712,
     43714, 43714, 43739, 43741, 43744, 43754, 43762, 43764, 43777, 43782, 43785, 43790, 43793,
     43798, 43808, 43814, 43816, 43822, 43824, 43866, 43868, 43881, 43888, 44002, 44032, 55203,
     55216, 55238, 55243, 55291, 63744, 64109, 64112, 64217, 64256, 64262, 64275, 64279, 64285,
     64285, 64287, 64296, 64298, 64310, 64312, 64316, 64318, 64318, 64320, 64321, 64323, 64324,
     64326, 64433, 64467, 64829, 64848, 64911, 64914, 64967, 65008, 65019, 65136, 65140, 65142,
     65276, 65313, 65338, 65345, 65370, 65382, 65470, 65474, 65479, 65482, 65487, 65490, 65495,
     65498, 65500, 65536, 65547, 65549, 65574, 65576, 65594, 65596, 65597, 65599, 65613, 65616,
     65629, 65664, 65786, 65856, 65908, 66176, 66204, 66208, 66256, 66304, 66335, 66349, 66378,
     66384, 66421, 66432, 66461, 66464, 66499, 66504, 66511, 66513, 66517, 66560, 66717, 66736,
     66771, 66776, 66811, 66816, 66855, 66864, 66915, 66928, 66938, 66940, 66954, 66956, 66962,
     66964, 66965, 66967, 66977, 66979, 66993, 66995, 67001, 67003, 67004, 67072, 67382, 67392,
     67413, 67424, 67431, 67456, 67461, 67463, 67504, 67506, 67514, 67584, 67589, 67592, 67592,
     67594, 67637, 67639, 67640, 67644, 67644, 67647, 67669, 67680, 67702, 67712, 67742, 67808,
     67826, 67828, 67829, 67840, 67861, 67872, 67897, 67968, 68023, 68030, 68031, 68096, 68096,
     68112, 68115, 68117, 68119, 68121, 68149, 68192, 68220, 68224, 68252, 68288, 68295, 68297,
     68324, 68352, 68405, 68416, 68437, 68448, 68466, 68480, 68497, 68608, 68680, 68736, 68786,
     68800, 68850, 68864, 68899, 69248, 69289, 69296, 69297, 69376, 69404, 69415, 69415, 69424,
     69445, 69488, 69505, 69552, 69572, 69600, 69622, 69635, 69687, 69745, 69746, 69749, 69749,
     69763, 69807, 69840, 69864, 69891, 69926, 69956, 69956, 69959, 69959, 69968, 70002, 70006,
     70006, 70019, 70066, 70081, 70084, 70106, 70106, 70108, 70108, 70144, 70161, 70163, 70187,
     70207, 70208, 70272, 70278, 70280, 70280, 70282, 70285, 70287, 70301, 70303, 70312, 70320,
     70366, 70405, 70412, 70415, 70416, 70419, 70440, 70442, 70448, 70450, 70451, 70453, 70457,
     70461, 70461, 70480, 70480, 70493, 70497, 70656, 70708, 70727, 70730, 70751, 70753, 70784,
     70831, 70852, 70853, 70855, 70855, 71040, 71086, 71128, 71131, 71168, 71215, 71236, 71236,
     71296, 71338, 71352, 71352, 71424, 71450, 71488, 71494, 71680, 71723, 71840, 71903, 71935,
     71942, 71945, 71945, 71948, 71955, 71957, 71958, 71960, 71983, 71999, 71999, 72001, 72001,
     72096, 72103, 72106, 72144, 72161, 72161, 72163, 72163, 72192, 72192, 72203, 72242, 72250,
     72250, 72272, 72272, 72284, 72329, 72349, 72349, 72368, 72440, 72704, 72712, 72714, 72750,
     72768, 72768, 72818, 72847, 72960, 72966, 72968, 72969, 72971, 73008, 73030, 73030, 73056,
     73061, 73063, 73064, 73066, 73097, 73112, 73112, 73440, 73458, 73474, 73474, 73476, 73488,
     73490, 73523, 73648, 73648, 73728, 74649, 74752, 74862, 74880, 75075, 77712, 77808, 77824,
     78895, 78913, 78918, 82944, 83526, 92160, 92728, 92736, 92766, 92784, 92862, 92880, 92909,
     92928, 92975, 92992, 92995, 93027, 93047, 93053, 93071, 93760, 93823, 93952, 94026, 94032,
     94032, 94099, 94111, 94176, 94177, 94179, 94179, 94208, 100343, 100352, 101589, 101632,
     101640, 110576, 110579, 110581, 110587, 110589, 110590, 110592, 110882, 110898, 110898,
     110928, 110930, 110933, 110933, 110948, 110951, 110960, 111355, 113664, 113770, 113776,
     113788, 113792, 113800, 113808, 113817, 119808, 119892, 119894, 119964, 119966, 119967,
     119970, 119970, 119973, 119974, 119977, 119980, 119982, 119993, 119995, 119995, 119997,
     120003, 120005, 120069, 120071, 120074, 120077, 120084, 120086, 120092, 120094, 120121,
     120123, 120126, 120128, 120132, 120134, 120134, 120138, 120144, 120146, 120485, 120488,
     120512, 120514, 120538, 120540, 120570, 120572, 120596, 120598, 120628, 120630, 120654,
     120656, 120686, 120688, 120712, 120714, 120744, 120746, 120770, 120772, 120779, 122624,
     122654, 122661, 122666, 122928, 122989, 123136, 123180, 123191, 123197, 123214, 123214,
     123536, 123565, 123584, 123627, 124112, 124139, 124896, 124902, 124904, 124907, 124909,
     124910, 124912, 124926, 124928, 125124, 125184, 125251, 125259, 125259, 126464, 126467,
     126469, 126495, 126497, 126498, 126500, 126500, 126503, 126503, 126505, 126514, 126516,
     126519, 126521, 126521, 126523, 126523, 126530, 126530, 126535, 126535, 126537, 126537,
     126539, 126539, 126541, 126543, 126545, 126546, 126548, 126548, 126551, 126551, 126553,
     126553, 126555, 126555, 126557, 126557, 126559, 126559, 126561, 126562, 126564, 126564,
     126567, 126570, 126572, 126578, 126580, 126583, 126585, 126588, 126590, 126590, 126592,
     126601, 126603, 126619, 126625, 126627, 126629, 126633, 126635, 126651, 131072, 173791,
     173824, 177977, 177984, 178205, 178208, 183969, 183984, 191456, 191472, 192093, 194560,
     195101, 196608, 201546, 201552, 205743]"

definition unicode_identifier_part_ranges :: "nat list" where
  "unicode_identifier_part_ranges =
    [48, 57, 65, 90, 95, 95, 97, 122, 170, 170, 181, 181, 183, 183, 186, 186, 192, 214, 216, 246,
     248, 705, 710, 721, 736, 740, 748, 748, 750, 750, 768, 884, 886, 887, 890, 893, 895, 895,
     902, 906, 908, 908, 910, 929, 931, 1013, 1015, 1153, 1155, 1159, 1162, 1327, 1329, 1366,
     1369, 1369, 1376, 1416, 1425, 1469, 1471, 1471, 1473, 1474, 1476, 1477, 1479, 1479, 1488,
     1514, 1519, 1522, 1552, 1562, 1568, 1641, 1646, 1747, 1749, 1756, 1759, 1768, 1770, 1788,
     1791, 1791, 1808, 1866, 1869, 1969, 1984, 2037, 2042, 2042, 2045, 2045, 2048, 2093, 2112,
     2139, 2144, 2154, 2160, 2183, 2185, 2190, 2200, 2273, 2275, 2403, 2406, 2415, 2417, 2435,
     2437, 2444, 2447, 2448, 2451, 2472, 2474, 2480, 2482, 2482, 2486, 2489, 2492, 2500, 2503,
     2504, 2507, 2510, 2519, 2519, 2524, 2525, 2527, 2531, 2534, 2545, 2556, 2556, 2558, 2558,
     2561, 2563, 2565, 2570, 2575, 2576, 2579, 2600, 2602, 2608, 2610, 2611, 2613, 2614, 2616,
     2617, 2620, 2620, 2622, 2626, 2631, 2632, 2635, 2637, 2641, 2641, 2649, 2652, 2654, 2654,
     2662, 2677, 2689, 2691, 2693, 2701, 2703, 2705, 2707, 2728, 2730, 2736, 2738, 2739, 2741,
     2745, 2748, 2757, 2759, 2761, 2763, 2765, 2768, 2768, 2784, 2787, 2790, 2799, 2809, 2815,
     2817, 2819, 2821, 2828, 2831, 2832, 2835, 2856, 2858, 2864, 2866, 2867, 2869, 2873, 2876,
     2884, 2887, 2888, 2891, 2893, 2901, 2903, 2908, 2909, 2911, 2915, 2918, 2927, 2929, 2929,
     2946, 2947, 2949, 2954, 2958, 2960, 2962, 2965, 2969, 2970, 2972, 2972, 2974, 2975, 2979,
     2980, 2984, 2986, 2990, 3001, 3006, 3010, 3014, 3016, 3018, 3021, 3024, 3024, 3031, 3031,
     3046, 3055, 3072, 3084, 3086, 3088, 3090, 3112, 3114, 3129, 3132, 3140, 3142, 3144, 3146,
     3149, 3157, 3158, 3160, 3162, 3165, 3165, 3168, 3171, 3174, 3183, 3200, 3203, 3205, 3212,
     3214, 3216, 3218, 3240, 3242, 3251, 3253, 3257, 3260, 3268, 3270, 3272, 3274, 3277, 3285,
     3286, 3293, 3294, 3296, 3299, 3302, 3311, 3313, 3315, 3328, 3340, 3342, 3344, 3346, 3396,
     3398, 3400, 3402, 3406, 3412, 3415, 3423, 3427, 3430, 3439, 3450, 3455, 3457, 3459, 3461,
     3478, 3482, 3505, 3507, 3515, 3517, 3517, 3520, 3526, 3530, 3530, 3535, 3540, 3542, 3542,
     3544, 3551, 3558, 3567, 3570, 3571, 3585, 3642, 3648, 3662, 3664, 3673, 3713, 3714, 3716,
     3716, 3718, 3722, 3724, 3747, 3749, 3749, 3751, 3773, 3776, 3780, 3782, 3782, 3784, 3790,
     3792, 3801, 3804, 3807, 3840, 3840, 3864, 3865, 3872, 3881, 3893, 3893, 3895, 3895, 3897,
     3897, 3902, 3911, 3913, 3948, 3953, 3972, 3974, 3991, 3993, 4028, 4038, 4038, 4096, 4169,
     4176, 4253, 4256, 4293, 4295, 4295, 4301, 4301, 4304, 4346, 4348, 4680, 4682, 4685, 4688,
     4694, 4696, 4696, 4698, 4701, 4704, 4744, 4746, 4749, 4752, 4784, 4786, 4789, 4792, 4798,
     4800, 4800, 4802, 4805, 4808, 4822, 4824, 4880, 4882, 4885, 4888, 4954, 4957, 4959, 4969,
     4977, 4992, 5007, 5024, 5109, 5112, 5117, 5121, 5740, 5743, 5759, 5761, 5786, 5792, 5866,
     5870, 5880, 5888, 5909, 5919, 5940, 5952, 5971, 5984, 5996, 5998, 6000, 6002, 6003, 6016,
     6099, 6103, 6103, 6108, 6109, 6112, 6121, 6155, 6157, 6159, 6169, 6176, 6264, 6272, 6314,
     6320, 6389, 6400, 6430, 6432, 6443, 6448, 6459, 6470, 6509, 6512, 6516, 6528, 6571, 6576,
     6601, 6608, 6618, 6656, 6683, 6688, 6750, 6752, 6780, 6783, 6793, 6800, 6809, 6823, 6823,
     6832, 6845, 6847, 6862, 6912, 6988, 6992, 7001, 7019, 7027, 7040, 7155, 7168, 7223, 7232,
     7241, 7245, 7293, 7296, 7304, 7312, 7354, 7357, 7359, 7376, 7378, 7380, 7418, 7424, 7957,
     7960, 7965, 7968, 8005, 8008, 8013, 8016, 8023, 8025, 8025, 8027, 8027, 8029, 8029, 8031,
     8061, 8064, 8116, 8118, 8124, 8126, 8126, 8130, 8132, 8134, 8140, 8144, 8147, 8150, 8155,
     8160, 8172, 8178, 8180, 8182, 8188, 8204, 8205, 8255, 8256, 8276, 8276, 8305, 8305, 8319,
     8319, 8336, 8348, 8400, 8412, 8417, 8417, 8421, 8432, 8450, 8450, 8455, 8455, 8458, 8467,
     8469, 8469, 8472, 8477, 8484, 8484, 8486, 8486, 8488, 8488, 8490, 8505, 8508, 8511, 8517,
     8521, 8526, 8526, 8544, 8584, 11264, 11492, 11499, 11507, 11520, 11557, 11559, 11559, 11565,
     11565, 11568, 11623, 11631, 11631, 11647, 11670, 11680, 11686, 11688, 11694, 11696, 11702,
     11704, 11710, 11712, 11718, 11720, 11726, 11728, 11734, 11736, 11742, 11744, 11775, 12293,
     12295, 12321, 12335, 12337, 12341, 12344, 12348, 12353, 12438, 12441, 12447, 12449, 12543,
     12549, 12591, 12593, 12686, 12704, 12735, 12784, 12799, 13312, 19903, 19968, 42124, 42192,
     42237, 42240, 42508, 42512, 42539, 42560, 42607, 42612, 42621, 42623, 42737, 42775, 42783,
     42786, 42888, 42891, 42954, 42960, 42961, 42963, 42963, 42965, 42969, 42994, 43047, 43052,
     43052, 43072, 43123, 43136, 43205, 43216, 43225, 43232, 43255, 43259, 43259, 43261, 43309,
     43312, 43347, 43360, 43388, 43392, 43456, 43471, 43481, 43488, 43518, 43520, 43574, 43584,
     43597, 43600, 43609, 43616, 43638, 43642, 43714, 43739, 43741, 43744, 43759, 43762, 43766,
     43777, 43782, 43785, 43790, 43793, 43798, 43808, 43814, 43816, 43822, 43824, 43866, 43868,
     43881, 43888, 44010, 44012, 44013, 44016, 44025, 44032, 55203, 55216, 55238, 55243, 55291,
     63744, 64109, 64112, 64217, 64256, 64262, 64275, 64279, 64285, 64296, 64298, 64310, 64312,
     64316, 64318, 64318, 64320, 64321, 64323, 64324, 64326, 64433, 64467, 64829, 64848, 64911,
     64914, 64967, 65008, 65019, 65024, 65039, 65056, 65071, 65075, 65076, 65101, 65103, 65136,
     65140, 65142, 65276, 65296, 65305, 65313, 65338, 65343, 65343, 65345, 65370, 65381, 65470,
     65474, 65479, 65482, 65487, 65490, 65495, 65498, 65500, 65536, 65547, 65549, 65574, 65576,
     65594, 65596, 65597, 65599, 65613, 65616, 65629, 65664, 65786, 65856, 65908, 66045, 66045,
     66176, 66204, 66208, 66256, 66272, 66272, 66304, 66335, 66349, 66378, 66384, 66426, 66432,
     66461, 66464, 66499, 66504, 66511, 66513, 66517, 66560, 66717, 66720, 66729, 66736, 66771,
     66776, 66811, 66816, 66855, 66864, 66915, 66928, 66938, 66940, 66954, 66956, 66962, 66964,
     66965, 66967, 66977, 66979, 66993, 66995, 67001, 67003, 67004, 67072, 67382, 67392, 67413,
     67424, 67431, 67456, 67461, 67463, 67504, 67506, 67514, 67584, 67589, 67592, 67592, 67594,
     67637, 67639, 67640, 67644, 67644, 67647, 67669, 67680, 67702, 67712, 67742, 67808, 67826,
     67828, 67829, 67840, 67861, 67872, 67897, 67968, 68023, 68030, 68031, 68096, 68099, 68101,
     68102, 68108, 68115, 68117, 68119, 68121, 68149, 68152, 68154, 68159, 68159, 68192, 68220,
     68224, 68252, 68288, 68295, 68297, 68326, 68352, 68405, 68416, 68437, 68448, 68466, 68480,
     68497, 68608, 68680, 68736, 68786, 68800, 68850, 68864, 68903, 68912, 68921, 69248, 69289,
     69291, 69292, 69296, 69297, 69373, 69404, 69415, 69415, 69424, 69456, 69488, 69509, 69552,
     69572, 69600, 69622, 69632, 69702, 69734, 69749, 69759, 69818, 69826, 69826, 69840, 69864,
     69872, 69881, 69888, 69940, 69942, 69951, 69956, 69959, 69968, 70003, 70006, 70006, 70016,
     70084, 70089, 70092, 70094, 70106, 70108, 70108, 70144, 70161, 70163, 70199, 70206, 70209,
     70272, 70278, 70280, 70280, 70282, 70285, 70287, 70301, 70303, 70312, 70320, 70378, 70384,
     70393, 70400, 70403, 70405, 70412, 70415, 70416, 70419, 70440, 70442, 70448, 70450, 70451,
     70453, 70457, 70459, 70468, 70471, 70472, 70475, 70477, 70480, 70480, 70487, 70487, 70493,
     70499, 70502, 70508, 70512, 70516, 70656, 70730, 70736, 70745, 70750, 70753, 70784, 70853,
     70855, 70855, 70864, 70873, 71040, 71093, 71096, 71104, 71128, 71133, 71168, 71232, 71236,
     71236, 71248, 71257, 71296, 71352, 71360, 71369, 71424, 71450, 71453, 71467, 71472, 71481,
     71488, 71494, 71680, 71738, 71840, 71913, 71935, 71942, 71945, 71945, 71948, 71955, 71957,
     71958, 71960, 71989, 71991, 71992, 71995, 72003, 72016, 72025, 72096, 72103, 72106, 72151,
     72154, 72161, 72163, 72164, 72192, 72254, 72263, 72263, 72272, 72345, 72349, 72349, 72368,
     72440, 72704, 72712, 72714, 72758, 72760, 72768, 72784, 72793, 72818, 72847, 72850, 72871,
     72873, 72886, 72960, 72966, 72968, 72969, 72971, 73014, 73018, 73018, 73020, 73021, 73023,
     73031, 73040, 73049, 73056, 73061, 73063, 73064, 73066, 73102, 73104, 73105, 73107, 73112,
     73120, 73129, 73440, 73462, 73472, 73488, 73490, 73530, 73534, 73538, 73552, 73561, 73648,
     73648, 73728, 74649, 74752, 74862, 74880, 75075, 77712, 77808, 77824, 78895, 78912, 78933,
     82944, 83526, 92160, 92728, 92736, 92766, 92768, 92777, 92784, 92862, 92864, 92873, 92880,
     92909, 92912, 92916, 92928, 92982, 92992, 92995, 93008, 93017, 93027, 93047, 93053, 93071,
     93760, 93823, 93952, 94026, 94031, 94087, 94095, 94111, 94176, 94177, 94179, 94180, 94192,
     94193, 94208, 100343, 100352, 101589, 101632, 101640, 110576, 110579, 110581, 110587,
     110589, 110590, 110592, 110882, 110898, 110898, 110928, 110930, 110933, 110933, 110948,
     110951, 110960, 111355, 113664, 113770, 113776, 113788, 113792, 113800, 113808, 113817,
     113821, 113822, 118528, 118573, 118576, 118598, 119141, 119145, 119149, 119154, 119163,
     119170, 119173, 119179, 119210, 119213, 119362, 119364, 119808, 119892, 119894, 119964,
     119966, 119967, 119970, 119970, 119973, 119974, 119977, 119980, 119982, 119993, 119995,
     119995, 119997, 120003, 120005, 120069, 120071, 120074, 120077, 120084, 120086, 120092,
     120094, 120121, 120123, 120126, 120128, 120132, 120134, 120134, 120138, 120144, 120146,
     120485, 120488, 120512, 120514, 120538, 120540, 120570, 120572, 120596, 120598, 120628,
     120630, 120654, 120656, 120686, 120688, 120712, 120714, 120744, 120746, 120770, 120772,
     120779, 120782, 120831, 121344, 121398, 121403, 121452, 121461, 121461, 121476, 121476,
     121499, 121503, 121505, 121519, 122624, 122654, 122661, 122666, 122880, 122886, 122888,
     122904, 122907, 122913, 122915, 122916, 122918, 122922, 122928, 122989, 123023, 123023,
     123136, 123180, 123184, 123197, 123200, 123209, 123214, 123214, 123536, 123566, 123584,
     123641, 124112, 124153, 124896, 124902, 124904, 124907, 124909, 124910, 124912, 124926,
     124928, 125124, 125136, 125142, 125184, 125259, 125264, 125273, 126464, 126467, 126469,
     126495, 126497, 126498, 126500, 126500, 126503, 126503, 126505, 126514, 126516, 126519,
     126521, 126521, 126523, 126523, 126530, 126530, 126535, 126535, 126537, 126537, 126539,
     126539, 126541, 126543, 126545, 126546, 126548, 126548, 126551, 126551, 126553, 126553,
     126555, 126555, 126557, 126557, 126559, 126559, 126561, 126562, 126564, 126564, 126567,
     126570, 126572, 126578, 126580, 126583, 126585, 126588, 126590, 126590, 126592, 126601,
     126603, 126619, 126625, 126627, 126629, 126633, 126635, 126651, 130032, 130041, 131072,
     173791, 173824, 177977, 177984, 178205, 178208, 183969, 183984, 191456, 191472, 192093,
     194560, 195101, 196608, 201546, 201552, 205743, 917760, 917999]"

text \<open>\<open>mid\<close> is made even to hit the beginning of a range.\<close>

definition even_mid :: "nat \<Rightarrow> nat \<Rightarrow> nat" where
  "even_mid lo hi = (let mid = lo + (hi - lo) div 2 in mid - mid mod 2)"

lemma even_mid_bounds: "lo + 1 < hi \<Longrightarrow> even_mid lo hi < hi" "lo + 1 < hi \<Longrightarrow> lo < even_mid lo hi + 2"
proof -
  assume less: "lo + 1 < hi"
  have "lo + (hi - lo) div 2 < hi" using less by linarith
  moreover have "(lo + (hi - lo) div 2) mod 2 < 2" by simp
  ultimately show "even_mid lo hi < hi" "lo < even_mid lo hi + 2" unfolding even_mid_def Let_def by linarith+
qed

function range_search :: "rune \<Rightarrow> nat list \<Rightarrow> nat \<Rightarrow> nat \<Rightarrow> bool" where
  "range_search cp ranges lo hi =
     (if lo + 1 < hi then
        let mid = even_mid lo hi in
        if ranges ! mid \<le> cp \<and> cp \<le> ranges ! (mid + 1) then True
        else if cp < ranges ! mid then range_search cp ranges lo mid
        else range_search cp ranges (mid + 2) hi
      else False)"
  by pat_completeness auto
termination
proof (relation "measure (\<lambda>(_, _, lo, hi). hi - lo)", goal_cases)
  case (2 cp ranges lo hi mid)
  then show ?case using even_mid_bounds [of lo hi] by simp
next
  case (3 cp ranges lo hi mid)
  then show ?case using even_mid_bounds [of lo hi] by simp
qed simp

declare range_search.simps [simp del]

definition is_in_unicode_ranges :: "rune \<Rightarrow> nat list \<Rightarrow> bool" where
  "is_in_unicode_ranges cp ranges = (if cp < ranges ! 0 then False else range_search cp ranges 0 (length ranges))"

definition is_unicode_identifier_start :: "rune \<Rightarrow> bool" where
  "is_unicode_identifier_start ch = is_in_unicode_ranges ch unicode_identifier_start_ranges"

definition is_unicode_identifier_part :: "rune \<Rightarrow> bool" where
  "is_unicode_identifier_part ch = is_in_unicode_ranges ch unicode_identifier_part_ranges"

section \<open>Texts and kinds\<close>

lemma punctuation_texts: "take 61 token_texts = map prod.swap token_strings"
  by code_simp

lemma keyword_token_texts: "list_all (\<lambda>(k, s). (s, k) \<in> set keyword_table) (drop 61 token_texts)"
  by code_simp

lemma table_keys_distinct:
  "distinct (map fst token_strings)" "distinct (map fst keyword_table)" "distinct (map fst token_texts)"
  by code_simp+

lemma keyword_texts_lowercase:
  "list_all (\<lambda>(s, k). 2 \<le> length s \<and> length s \<le> 12 \<and> is_ascii_lowercase (hd s) \<and> k \<noteq> Unknown) keyword_table"
  by code_simp

lemma punctuation_not_lowercase:
  "list_all (\<lambda>(s, k). s \<noteq> [] \<and> \<not> is_ascii_lowercase (hd s) \<and> k \<noteq> Unknown) token_strings"
  by code_simp

lemma table_lengths: "length keyword_table = 85" "length (drop 61 token_texts) = 85"
  by code_simp+

text \<open>The texts of keyword tokens are the keyword table, read the other way.\<close>

lemma keyword_token_texts_set: "prod.swap ` set (drop 61 token_texts) = set keyword_table"
proof (rule card_subset_eq)
  show "prod.swap ` set (drop 61 token_texts) \<subseteq> set keyword_table"
    using keyword_token_texts by (auto simp: list_all_iff)
  have "distinct (drop 61 token_texts)" "distinct keyword_table"
    using table_keys_distinct by (auto simp: distinct_map)
  then have "card (set (drop 61 token_texts)) = 85" "card (set keyword_table) = 85"
    using table_lengths by (simp_all only: distinct_card)
  then show "card (prod.swap ` set (drop 61 token_texts)) = card (set keyword_table)"
    by (simp add: card_image)
qed simp

lemma token_texts_set: "(k, s) \<in> set token_texts \<longleftrightarrow> (s, k) \<in> set token_strings \<or> (s, k) \<in> set keyword_table"
proof -
  have "set token_texts = set (take 61 token_texts) \<union> set (drop 61 token_texts)"
    by (metis append_take_drop_id set_append)
  moreover have "(k, s) \<in> set (take 61 token_texts) \<longleftrightarrow> (s, k) \<in> set token_strings"
    unfolding punctuation_texts by force
  moreover have "(k, s) \<in> set (drop 61 token_texts) \<longleftrightarrow> (s, k) \<in> set keyword_table"
    unfolding keyword_token_texts_set [symmetric] by force
  ultimately show ?thesis by blast
qed

lemma string_to_token_iff:
  assumes "k \<noteq> Unknown"
  shows "string_to_token s = k \<longleftrightarrow> (s, k) \<in> set token_strings \<or> (s, k) \<in> set keyword_table"
proof -
  have str: "map_of token_strings s = Some k' \<longleftrightarrow> (s, k') \<in> set token_strings"
    and kw: "map_of keyword_table s = Some k' \<longleftrightarrow> (s, k') \<in> set keyword_table" for k'
    using table_keys_distinct by (simp_all add: map_of_eq_Some_iff)
  have disj: "(s, k1) \<in> set token_strings \<Longrightarrow> (s, k2) \<notin> set keyword_table" for k1 k2
    using punctuation_not_lowercase keyword_texts_lowercase by (fastforce simp: list_all_iff)
  show ?thesis
  proof (cases "map_of token_strings s")
    case None
    then have none: "(s, k) \<notin> set token_strings" using str [of k] by simp
    show ?thesis
    proof (cases "map_of keyword_table s")
      case miss: None
      then show ?thesis using None none kw [of k] assms by (simp add: string_to_token_def string_to_keyword_kind_def)
    next
      case (Some k')
      then show ?thesis using None none kw [of k]
        by (simp add: string_to_token_def string_to_keyword_kind_def)
    qed
  next
    case (Some k')
    then show ?thesis using str [of k'] str [of k] disj by (auto simp: string_to_token_def)
  qed
qed

lemma token_to_string_iff: "s \<noteq> [] \<Longrightarrow> token_to_string k = s \<longleftrightarrow> (k, s) \<in> set token_texts"
  unfolding map_of_eq_Some_iff [OF table_keys_distinct(3), symmetric]
  by (auto simp only: token_to_string_def option.simps split: option.splits)

text \<open>the text of a token determines its kind and the kind its text: a kind that has a text is found again
  from it, and a text that is a token is printed again from its kind.\<close>

theorem token_text_roundtrip:
  "(token_to_string k = [] \<or> string_to_token (token_to_string k) = k)
   \<and> (string_to_token s = Unknown \<or> token_to_string (string_to_token s) = s)"
proof
  have known: "k \<noteq> Unknown \<and> s \<noteq> []" if "(s, k) \<in> set token_strings \<or> (s, k) \<in> set keyword_table" for s k
    using that punctuation_not_lowercase keyword_texts_lowercase by (fastforce simp: list_all_iff)
  show "token_to_string k = [] \<or> string_to_token (token_to_string k) = k"
    using token_to_string_iff [of "token_to_string k" k] token_texts_set known string_to_token_iff by blast
  show "string_to_token s = Unknown \<or> token_to_string (string_to_token s) = s"
    using string_to_token_iff [of "string_to_token s" s] token_texts_set known token_to_string_iff by blast
qed

lemma map_of_list_all: "list_all (\<lambda>(k, v). P k v) al \<Longrightarrow> map_of al k = Some v \<Longrightarrow> P k v"
  by (auto simp: list_all_iff dest: map_of_SomeD)

lemma keyword_texts_keys: "list_all (\<lambda>s. s \<in> set (map fst keyword_table)) keyword_texts"
  "list_all (\<lambda>s. s \<in> set keyword_texts) (map fst keyword_table)"
  by code_simp+

text \<open>the test of length and first letter in front of the keyword lookup never hides a keyword, and the
  list of keyword texts is the list of the lookup.\<close>

theorem get_identifier_token_exact:
  "get_identifier_token text = (case map_of keyword_table text of Some k \<Rightarrow> k | None \<Rightarrow> Identifier)
   \<and> set keyword_texts = fst ` set keyword_table"
proof
  show "get_identifier_token text = (case map_of keyword_table text of Some k \<Rightarrow> k | None \<Rightarrow> Identifier)"
    using map_of_list_all [OF keyword_texts_lowercase, of "text"]
    by (auto simp: get_identifier_token_def string_to_keyword_kind_def Let_def split: option.splits)
  show "set keyword_texts = fst ` set keyword_table"
    using keyword_texts_keys by (auto simp: list_all_iff)
qed

section \<open>The search in the ranges\<close>

text \<open>A table of ranges: an even number of bounds in order.\<close>

fun ascending :: "nat list \<Rightarrow> bool" where
  "ascending (x # y # xs) = (x \<le> y \<and> ascending (y # xs))"
| "ascending _ = True"

lemma ascending_sorted: "ascending xs = sorted xs"
  by (induction xs rule: ascending.induct) (auto simp: order_trans)

definition in_some_range :: "nat \<Rightarrow> nat list \<Rightarrow> nat \<Rightarrow> nat \<Rightarrow> bool" where
  "in_some_range cp r lo hi \<longleftrightarrow> (\<exists>i. lo \<le> 2 * i \<and> 2 * i + 1 < hi \<and> r ! (2 * i) \<le> cp \<and> cp \<le> r ! (2 * i + 1))"

lemma even_mid_even: "even (even_mid lo hi)"
  unfolding even_mid_def Let_def by (simp add: minus_mod_eq_mult_div)

lemma range_search_iff:
  "sorted r \<Longrightarrow> hi \<le> length r \<Longrightarrow> even lo \<Longrightarrow> even hi \<Longrightarrow> range_search cp r lo hi \<longleftrightarrow> in_some_range cp r lo hi"
proof (induction cp r lo hi rule: range_search.induct)
  case (1 cp r lo hi)
  show ?case
  proof (cases "lo + 1 < hi")
    case False
    then have "\<not> in_some_range cp r lo hi" by (auto simp: in_some_range_def)
    then show ?thesis using False by (simp add: range_search.simps [of cp r lo hi])
  next
    case True
    let ?m = "even_mid lo hi"
    have ev: "even ?m" by (rule even_mid_even)
    have m: "?m < hi" "lo < ?m + 2" using even_mid_bounds [OF True] .
    have m1: "?m + 1 < hi" "lo \<le> ?m" using m ev 1(5,6) by (auto elim!: evenE)
    obtain k where k: "?m = 2 * k" using ev by (elim evenE)
    have mono: "i \<le> j \<Longrightarrow> j < hi \<Longrightarrow> r ! i \<le> r ! j" for i j using sorted_nth_mono [OF 1(3)] 1(4) by simp
    consider (hit) "r ! ?m \<le> cp" "cp \<le> r ! (?m + 1)" | (below) "cp < r ! ?m" | (above) "r ! (?m + 1) < cp" "r ! ?m \<le> cp"
      by linarith
    then show ?thesis
    proof cases
      case hit
      then have "in_some_range cp r lo hi" unfolding in_some_range_def using m1 k by (intro exI [of _ k]) simp
      then show ?thesis using hit True by (simp add: range_search.simps [of cp r lo hi] Let_def)
    next
      case below
      have "2 * i + 1 < ?m" if "2 * i + 1 < hi" "r ! (2 * i) \<le> cp" for i
      proof (rule ccontr)
        assume "\<not> 2 * i + 1 < ?m"
        then have "?m \<le> 2 * i" using k by simp
        then show False using mono [of ?m "2 * i"] that below by simp
      qed
      then have "in_some_range cp r lo hi \<longleftrightarrow> in_some_range cp r lo ?m"
        using m(1) unfolding in_some_range_def by (meson less_trans)
      then show ?thesis using 1(1) [OF True refl _ below] 1(3-6) below True m(1) ev
        by (simp add: range_search.simps [of cp r lo hi] Let_def)
    next
      case above
      have "?m + 2 \<le> 2 * i" if "2 * i + 1 < hi" "cp \<le> r ! (2 * i + 1)" for i
      proof (rule ccontr)
        assume "\<not> ?m + 2 \<le> 2 * i"
        then have "2 * i + 1 \<le> ?m + 1" using k by simp
        then show False using mono [of "2 * i + 1" "?m + 1"] m1(1) that above by simp
      qed
      then have "in_some_range cp r lo hi \<longleftrightarrow> in_some_range cp r (?m + 2) hi"
        using m(2) unfolding in_some_range_def by (meson less_imp_le order_trans)
      then show ?thesis using 1(2) [OF True refl] 1(3-6) above True ev
        by (simp add: range_search.simps [of cp r lo hi] Let_def)
    qed
  qed
qed

lemma unicode_tables_wellformed:
  "ascending unicode_identifier_start_ranges \<and> even (length unicode_identifier_start_ranges)"
  "ascending unicode_identifier_part_ranges \<and> even (length unicode_identifier_part_ranges)"
  unfolding unicode_identifier_start_ranges_def unicode_identifier_part_ranges_def
  by (simp_all only: ascending.simps list.size even_Suc even_zero even_add add_0_right simp_thms numeral_le_iff le_num_simps less_num_simps le_numeral_extra add.commute)

lemma is_in_unicode_ranges_iff:
  assumes "ascending r \<and> even (length r)" "r \<noteq> []"
  shows "is_in_unicode_ranges cp r \<longleftrightarrow> (\<exists>i. 2 * i + 1 < length r \<and> r ! (2 * i) \<le> cp \<and> cp \<le> r ! (2 * i + 1))"
proof -
  have srt: "sorted r" using assms by (simp add: ascending_sorted)
  have search: "range_search cp r 0 (length r) \<longleftrightarrow> (\<exists>i. 2 * i + 1 < length r \<and> r ! (2 * i) \<le> cp \<and> cp \<le> r ! (2 * i + 1))"
    using range_search_iff [OF srt, of "length r" 0 cp] assms(1) by (simp add: in_some_range_def)
  have first: "r ! 0 \<le> r ! (2 * i)" if "2 * i + 1 < length r" for i
    using sorted_nth_mono [OF srt, of 0 "2 * i"] that by simp
  show ?thesis
  proof (cases "cp < r ! 0")
    case True
    have "\<not> r ! (2 * i) \<le> cp" if "2 * i + 1 < length r" for i using first [OF that] True by linarith
    then show ?thesis using True unfolding is_in_unicode_ranges_def by auto
  next
    case False
    then show ?thesis using search unfolding is_in_unicode_ranges_def by simp
  qed
qed

text \<open>the binary search over the two generated tables decides whether a character lies in one of their
  ranges.\<close>

theorem unicode_identifier_search_exact:
  "(is_unicode_identifier_start ch \<longleftrightarrow> (\<exists>i. 2 * i + 1 < length unicode_identifier_start_ranges
      \<and> unicode_identifier_start_ranges ! (2 * i) \<le> ch \<and> ch \<le> unicode_identifier_start_ranges ! (2 * i + 1)))
   \<and> (is_unicode_identifier_part ch \<longleftrightarrow> (\<exists>i. 2 * i + 1 < length unicode_identifier_part_ranges
      \<and> unicode_identifier_part_ranges ! (2 * i) \<le> ch \<and> ch \<le> unicode_identifier_part_ranges ! (2 * i + 1)))"
proof -
  have "unicode_identifier_start_ranges \<noteq> []" "unicode_identifier_part_ranges \<noteq> []"
    by (simp_all only: unicode_identifier_start_ranges_def unicode_identifier_part_ranges_def list.distinct not_False_eq_True)
  then show ?thesis
    unfolding is_unicode_identifier_start_def is_unicode_identifier_part_def
    using is_in_unicode_ranges_iff [OF unicode_tables_wellformed(1)] is_in_unicode_ranges_iff [OF unicode_tables_wellformed(2)]
    by blast
qed

end
