(* ===== verification/Trivia.thy ===== *)
theory Trivia
  imports ScannerTables Lines CoreUtils
begin

text \<open>
  The part of \<open>ts-scanner\<close> that works on a text and a position: the classes of characters, conflict
  markers, shebangs, \<open>skip_trivia\<close> and the collection of comment ranges. A text is a list of bytes and a
  byte is a \<open>char\<close>; a character is its code point. A panic is \<open>None\<close>.
\<close>

section \<open>Classes of characters\<close>

definition ascii_rune :: "(char \<Rightarrow> bool) \<Rightarrow> rune \<Rightarrow> bool" where
  "ascii_rune p ch \<longleftrightarrow> ch < 0x80 \<and> p (char_of ch)"

definition is_word_character :: "rune \<Rightarrow> bool" where
  "is_word_character ch \<longleftrightarrow> ch = byte CHR ''_'' \<or> ascii_rune is_ascii_alphanumeric ch"

definition is_white_space_single_line :: "rune \<Rightarrow> bool" where
  "is_white_space_single_line ch \<longleftrightarrow>
     ch \<in> set [0x20, 0x09, 0x0B, 0x0C, 0x85, 0xA0, 0x1680, 0x2000, 0x2001, 0x2002, 0x2003, 0x2004, 0x2005,
       0x2006, 0x2007, 0x2008, 0x2009, 0x200A, 0x200B, 0x202F, 0x205F, 0x3000, 0xFEFF]"

definition is_white_space_like :: "rune \<Rightarrow> bool" where
  "is_white_space_like ch \<longleftrightarrow> is_white_space_single_line ch \<or> is_line_break ch"

definition is_identifier_start :: "rune \<Rightarrow> bool" where
  "is_identifier_start ch \<longleftrightarrow>
     ascii_rune is_ascii_alphabetic ch \<or> ch = byte CHR ''_'' \<or> ch = byte CHR ''$''
     \<or> \<not> ch < 0x80 \<and> is_unicode_identifier_start ch"

definition is_identifier_part :: "rune \<Rightarrow> bool" where
  "is_identifier_part ch \<longleftrightarrow>
     ascii_rune is_ascii_alphanumeric ch \<or> ch = byte CHR ''_'' \<or> ch = byte CHR ''$''
     \<or> \<not> ch < 0x80 \<and> is_unicode_identifier_part ch"

datatype language_variant = Standard | JSX

definition is_identifier_part_ex :: "rune \<Rightarrow> language_variant \<Rightarrow> bool" where
  "is_identifier_part_ex ch variant \<longleftrightarrow>
     is_identifier_part ch \<or> variant = JSX \<and> (ch = byte CHR ''-'' \<or> ch = byte CHR '':'')"

definition is_valid_identifier :: "string \<Rightarrow> bool" where
  "is_valid_identifier s =
     (case chars_of s of [] \<Rightarrow> False | first # chars \<Rightarrow> is_identifier_start first \<and> list_all is_identifier_part chars)"

definition is_identifier_text :: "string \<Rightarrow> language_variant \<Rightarrow> bool" where
  "is_identifier_text name variant =
     (if prefix (utf8_encode 0xFE) name then False
      else
        (case chars_of name of
           [] \<Rightarrow> False
         | first # chars \<Rightarrow>
             if \<not> is_identifier_start first then False
             else list_all (\<lambda>ch. is_identifier_part_ex ch variant) chars))"

definition is_intrinsic_jsx_name :: "string \<Rightarrow> bool" where
  "is_intrinsic_jsx_name name \<longleftrightarrow>
     name \<noteq> [] \<and> (is_ascii_lowercase (hd name) \<or> list_ex (\<lambda>ch. ch = byte CHR ''-'') (chars_of name))"

section \<open>Comments, shebangs and conflict markers\<close>

text \<open>\<open>find(['\r', '\n'])\<close> and \<open>find("*/")\<close> on the rest of the text.\<close>

definition scan_line_comment :: "string \<Rightarrow> nat \<Rightarrow> nat option" where
  "scan_line_comment text pos =
     map_option (\<lambda>rest. case position (\<lambda>c. byte c = 13 \<or> byte c = 10) rest of
        Some offset \<Rightarrow> pos + offset | None \<Rightarrow> length text) (str_slice text pos (length text))"

definition scan_block_comment :: "string \<Rightarrow> nat \<Rightarrow> nat option" where
  "scan_block_comment text pos =
     map_option (\<lambda>rest. case str_find ''*/'' rest of
        Some offset \<Rightarrow> pos + 2 + offset + 2 | None \<Rightarrow> length text) (str_slice text (pos + 2) (length text))"

definition merge_conflict_marker_length :: nat where
  "merge_conflict_marker_length = length ''<<<<<<<''"

definition is_conflict_marker_trivia :: "string \<Rightarrow> nat \<Rightarrow> bool" where
  "is_conflict_marker_trivia text pos =
     (if pos > 0 \<and> \<not> (pos - 1 < length text \<and> byte (text ! (pos - 1)) \<in> {10, 13}) then False
      else if \<not> pos < length text then False
      else
        let ch = text ! pos in
        if \<not> ch \<in> set ''<|=>'' then False
        else if pos + merge_conflict_marker_length \<ge> length text then False
        else if list_ex (\<lambda>i. text ! (pos + i) \<noteq> ch) [0..<merge_conflict_marker_length] then False
        else ch = CHR ''='' \<or> text ! (pos + merge_conflict_marker_length) = CHR '' '')"

function next_conflict_marker :: "string \<Rightarrow> char \<Rightarrow> nat \<Rightarrow> nat" where
  "next_conflict_marker text ch pos =
     (if pos < length text then
        let current_char = text ! pos in
        if (current_char = CHR ''='' \<or> current_char = CHR ''>'') \<and> current_char \<noteq> ch
           \<and> is_conflict_marker_trivia text pos
        then pos
        else next_conflict_marker text ch (pos + 1)
      else pos)"
  by pat_completeness auto
termination by (relation "measure (\<lambda>(text, _, pos). length text - pos)") auto

declare next_conflict_marker.simps [simp del]

definition scan_conflict_marker_trivia :: "string \<Rightarrow> nat \<Rightarrow> nat option" where
  "scan_conflict_marker_trivia text pos =
     (if \<not> pos < length text then Some pos
      else
        let ch = text ! pos in
        if ch = CHR ''<'' \<or> ch = CHR ''>'' then scan_line_comment text pos
        else Some (next_conflict_marker text ch pos))"

definition is_shebang_trivia :: "string \<Rightarrow> nat \<Rightarrow> bool" where
  "is_shebang_trivia text pos \<longleftrightarrow> pos = 0 \<and> prefix ''#!'' text"

definition scan_shebang_trivia :: "string \<Rightarrow> nat \<Rightarrow> nat option" where
  "scan_shebang_trivia text pos = scan_line_comment text pos"

definition get_shebang :: "string \<Rightarrow> string option" where
  "get_shebang text =
     (if is_shebang_trivia text 0
      then Option.bind (scan_shebang_trivia text 0) (\<lambda>end. str_slice text 0 end)
      else Some [])"

section \<open>Skipping trivia\<close>

record skip_trivia_options =
  stop_after_line_break :: bool
  stop_at_comments :: bool

definition is_some_and :: "('a \<Rightarrow> bool) \<Rightarrow> 'a option \<Rightarrow> bool" where
  "is_some_and p x \<longleftrightarrow> (case x of None \<Rightarrow> False | Some a \<Rightarrow> p a)"

partial_function (option) skip_trivia_ex :: "string \<Rightarrow> nat \<Rightarrow> skip_trivia_options option \<Rightarrow> nat option" where
  "skip_trivia_ex text pos options =
     (if pos < length text then
        if is_shebang_trivia text pos then
          Option.bind (scan_shebang_trivia text pos) (\<lambda>pos. skip_trivia_ex text pos options)
        else if is_conflict_marker_trivia text pos then
          Option.bind (scan_conflict_marker_trivia text pos) (\<lambda>pos. skip_trivia_ex text pos options)
        else
          Option.bind (str_slice text pos (length text)) (\<lambda>rest.
            if prefix ''//'' rest then
              if is_some_and stop_at_comments options then Some pos
              else Option.bind (scan_line_comment text pos) (\<lambda>pos. skip_trivia_ex text pos options)
            else if prefix ''/*'' rest then
              if is_some_and stop_at_comments options then Some pos
              else Option.bind (scan_block_comment text pos) (\<lambda>pos. skip_trivia_ex text pos options)
            else
              case next_char rest of
                None \<Rightarrow> Some pos
              | Some ch \<Rightarrow>
                  if ch = 13 \<or> ch = 10 then
                    Option.bind
                      (if ch = 13 then
                         map_option (\<lambda>rest. if prefix [CHR 10] rest then pos + len_utf8 ch + 1 else pos + len_utf8 ch)
                           (str_slice text (pos + len_utf8 ch) (length text))
                       else Some (pos + len_utf8 ch))
                      (\<lambda>pos. if is_some_and stop_after_line_break options then Some pos
                              else skip_trivia_ex text pos options)
                  else if is_white_space_like ch then skip_trivia_ex text (pos + len_utf8 ch) options
                  else Some pos)
      else Some pos)"

declare skip_trivia_ex.simps [code]

definition skip_trivia :: "string \<Rightarrow> nat \<Rightarrow> nat option" where
  "skip_trivia text pos = skip_trivia_ex text pos None"

section \<open>Comment ranges\<close>

record comment_range =
  cr_text_range :: text_range
  cr_kind :: kind
  cr_has_trailing_new_line :: bool

function line_comment_end :: "string \<Rightarrow> nat \<Rightarrow> nat \<times> bool" where
  "line_comment_end text pos =
     (if pos < length text then
        if byte (text ! pos) \<in> {13, 10} then (pos, True) else line_comment_end text (pos + 1)
      else (pos, False))"
  by pat_completeness auto
termination by (relation "measure (\<lambda>(text, pos). length text - pos)") auto

function block_comment_end :: "string \<Rightarrow> nat \<Rightarrow> nat" where
  "block_comment_end text pos =
     (if pos < length text then
        if text ! pos = CHR ''*'' \<and> pos + 1 < length text \<and> text ! (pos + 1) = CHR ''/'' then pos + 2
        else block_comment_end text (pos + 1)
      else pos)"
  by pat_completeness auto
termination by (relation "measure (\<lambda>(text, pos). length text - pos)") auto

declare line_comment_end.simps [simp del] block_comment_end.simps [simp del]

text \<open>\<open>char::is_whitespace\<close> above ASCII.\<close>

definition is_unicode_whitespace :: "rune \<Rightarrow> bool" where
  "is_unicode_whitespace ch \<longleftrightarrow>
     ch = 0x85 \<or> ch = 0xA0 \<or> ch = 0x1680 \<or> 0x2000 \<le> ch \<and> ch \<le> 0x200A \<or> ch = 0x2028 \<or> ch = 0x2029
     \<or> ch = 0x202F \<or> ch = 0x205F \<or> ch = 0x3000"

record comment_state =
  cs_pos :: nat
  cs_pending :: "comment_range option"
  cs_ranges :: "comment_range list"
  cs_collecting :: bool

definition set_trailing_new_line :: "comment_state \<Rightarrow> comment_state" where
  "set_trailing_new_line st = st\<lparr>cs_pending := map_option (\<lambda>c. c\<lparr>cr_has_trailing_new_line := True\<rparr>) (cs_pending st)\<rparr>"

text \<open>The arm of a comment: its end is found, and when comments are collected it becomes the pending one.\<close>

definition comment_at :: "string \<Rightarrow> comment_state \<Rightarrow> comment_state" where
  "comment_at text st =
     (let start = cs_pos st;
          kind = (if text ! (start + 1) = CHR ''/'' then SingleLineCommentTrivia else MultiLineCommentTrivia);
          (pos, nl) = (if kind = SingleLineCommentTrivia then line_comment_end text (start + 2)
                       else (block_comment_end text (start + 2), False));
          st = st\<lparr>cs_pos := pos\<rparr> in
      if cs_collecting st then
        st\<lparr>cs_pending := Some \<lparr>cr_text_range = new_text_range (wrap32 (int start)) (wrap32 (int pos)),
                                 cr_kind = kind, cr_has_trailing_new_line = nl\<rparr>,
            cs_ranges := (case cs_pending st of Some comment \<Rightarrow> cs_ranges st @ [comment] | None \<Rightarrow> cs_ranges st)\<rparr>
      else st)"

text \<open>One turn of the loop: \<open>Inl\<close> leaves it, \<open>Inr\<close> goes on.\<close>

definition comment_step :: "string \<Rightarrow> bool \<Rightarrow> comment_state \<Rightarrow> (comment_state + comment_state) option" where
  "comment_step text trailing st =
     (let pos = cs_pos st; b = byte (text ! pos) in
      if b = 13 \<or> b = 10 then
        let st = st\<lparr>cs_pos := (if b = 13 \<and> pos + 1 < length text \<and> byte (text ! (pos + 1)) = 10
                                then pos + 2 else pos + 1)\<rparr> in
        if trailing then Some (Inl st)
        else Some (Inr (set_trailing_new_line (st\<lparr>cs_collecting := True\<rparr>)))
      else if b \<in> {9, 11, 12, 32} then Some (Inr (st\<lparr>cs_pos := pos + 1\<rparr>))
      else if text ! pos = CHR ''/'' \<and> pos + 1 < length text \<and> text ! (pos + 1) \<in> {CHR ''/'', CHR ''*''} then
        Some (Inr (comment_at text st))
      else if b > 0x7F then
        Option.bind (str_slice text pos (length text)) (\<lambda>rest.
          case next_char rest of
            None \<Rightarrow> Some (Inl st)
          | Some ch \<Rightarrow>
              if \<not> is_unicode_whitespace ch then Some (Inl st)
              else
                let st = (if ch = 0x2028 \<or> ch = 0x2029 then set_trailing_new_line st else st) in
                Some (Inr (st\<lparr>cs_pos := pos + len_utf8 ch\<rparr>)))
      else Some (Inl st))"

lemma line_comment_end_ge: "pos \<le> fst (line_comment_end text pos)"
proof (induction "text" pos rule: line_comment_end.induct)
  case (1 "text" pos)
  then show ?case by (cases "pos < length text") (auto simp: line_comment_end.simps [of "text" pos])
qed

lemma block_comment_end_ge: "pos \<le> block_comment_end text pos"
proof (induction "text" pos rule: block_comment_end.induct)
  case (1 "text" pos)
  then show ?case by (cases "pos < length text") (auto simp: block_comment_end.simps [of "text" pos])
qed

lemma comment_at_pos: "cs_pos st < cs_pos (comment_at text st)"
  using line_comment_end_ge [of "cs_pos st + 2" "text"] block_comment_end_ge [of "cs_pos st + 2" "text"]
  by (auto simp: comment_at_def Let_def split: prod.splits)

lemma comment_step_pos: "comment_step text trailing st = Some (Inr st') \<Longrightarrow> cs_pos st < cs_pos st'"
  using comment_at_pos [of st "text"]
  by (auto simp: comment_step_def Let_def set_trailing_new_line_def split: if_splits option.splits bind_splits)

function comment_loop :: "string \<Rightarrow> bool \<Rightarrow> comment_state \<Rightarrow> comment_state option" where
  "comment_loop text trailing st =
     (if cs_pos st < length text then
        case comment_step text trailing st of
          None \<Rightarrow> None
        | Some (Inl st) \<Rightarrow> Some st
        | Some (Inr st) \<Rightarrow> comment_loop text trailing st
      else Some st)"
  by pat_completeness auto
termination
  by (relation "measure (\<lambda>(text, _, st). length text - cs_pos st)") (auto dest: comment_step_pos intro: diff_less_mono2)

declare comment_loop.simps [simp del]

definition usize_of_i32 :: "int \<Rightarrow> nat" where
  "usize_of_i32 x = nat (x mod 2 ^ 64)"

definition iterate_comment_ranges :: "string \<Rightarrow> int \<Rightarrow> bool \<Rightarrow> comment_range list option" where
  "iterate_comment_ranges text pos trailing =
     (if pos < 0 then Some []
      else
        let pos = usize_of_i32 (min pos (wrap32 (int (length text)))) in
        Option.bind (if pos = 0 \<and> is_shebang_trivia text pos then scan_shebang_trivia text pos else Some pos) (\<lambda>start.
        Option.bind
          (comment_loop text trailing
             \<lparr>cs_pos = start, cs_pending = None, cs_ranges = [], cs_collecting = trailing \<or> pos = 0\<rparr>) (\<lambda>st.
        Some (case cs_pending st of Some comment \<Rightarrow> cs_ranges st @ [comment] | None \<Rightarrow> cs_ranges st))))"

definition get_leading_comment_ranges :: "string \<Rightarrow> int \<Rightarrow> comment_range list option" where
  "get_leading_comment_ranges text pos = iterate_comment_ranges text pos False"

definition get_trailing_comment_ranges :: "string \<Rightarrow> int \<Rightarrow> comment_range list option" where
  "get_trailing_comment_ranges text pos = iterate_comment_ranges text pos True"

section \<open>Trivia at boundaries\<close>

lemma scan_line_comment_ok:
  assumes "valid_text t" "is_char_boundary t p"
  obtains e where "scan_line_comment t p = Some e" "p \<le> e" "is_char_boundary t e"
    "p < length t \<Longrightarrow> byte (t ! p) \<noteq> 13 \<Longrightarrow> byte (t ! p) \<noteq> 10 \<Longrightarrow> p < e"
    "\<And>i. p \<le> i \<Longrightarrow> i < e \<Longrightarrow> byte (t ! i) \<noteq> 13 \<and> byte (t ! i) \<noteq> 10"
    "e < length t \<Longrightarrow> byte (t ! e) = 13 \<or> byte (t ! e) = 10"
proof (cases "position (\<lambda>c. byte c = 13 \<or> byte c = 10) (drop p t)")
  case None
  have le: "p \<le> length t" using assms(2) by (rule boundary_le)
  have "byte (t ! i) \<noteq> 13 \<and> byte (t ! i) \<noteq> 10" if "p \<le> i" "i < length t" for i
  proof -
    have "drop p t ! (i - p) \<in> set (drop p t)" using that by (intro nth_mem) simp
    then show ?thesis using None [unfolded position_None_iff] that by auto
  qed
  moreover have "scan_line_comment t p = Some (length t)"
    using None slice_rest [OF assms(2)] by (simp add: scan_line_comment_def)
  ultimately show thesis by (intro that [of "length t"]) (use le in auto)
next
  case (Some i)
  note pos = position_SomeD [OF Some]
  have le: "p \<le> length t" using assms(2) by (rule boundary_le)
  have lt: "p + i < length t" and hit: "byte (t ! (p + i)) = 13 \<or> byte (t ! (p + i)) = 10"
    using pos le by auto
  have before: "byte (t ! j) \<noteq> 13 \<and> byte (t ! j) \<noteq> 10" if "p \<le> j" "j < p + i" for j
  proof -
    have "\<not> (byte (drop p t ! (j - p)) = 13 \<or> byte (drop p t ! (j - p)) = 10)" using pos that by auto
    then show ?thesis using that le by simp
  qed
  have "is_char_boundary t (p + i)" using ascii_is_boundary [OF lt] hit by auto
  moreover have "p < p + i" if "byte (t ! p) \<noteq> 13" "byte (t ! p) \<noteq> 10"
    using that hit by (cases i) auto
  moreover have "scan_line_comment t p = Some (p + i)"
    using Some slice_rest [OF assms(2)] by (simp add: scan_line_comment_def)
  ultimately show thesis by (intro that [of "p + i"]) (use before hit in \<open>auto simp del: add_diff_assoc\<close>)
qed

lemma scan_block_comment_ok:
  assumes "valid_text t" "is_char_boundary t (p + 2)"
  obtains e where "scan_block_comment t p = Some e" "p + 2 \<le> e" "is_char_boundary t e"
proof (cases "str_find ''*/'' (drop (p + 2) t)")
  case None
  then show thesis using that [of "length t"] boundary_le [OF assms(2)] slice_rest [OF assms(2)]
    by (simp add: scan_block_comment_def)
next
  case (Some i)
  have le: "p + 2 \<le> length t" using assms(2) by (rule boundary_le)
  have "prefix ''*/'' (drop i (drop (p + 2) t))" and "i + 2 \<le> length (drop (p + 2) t)"
    using str_find_SomeD [OF Some] str_find_bound [OF Some] by simp_all
  then have lt: "p + 2 + i + 1 < length t" and "t ! (p + 2 + i + 1) = CHR ''/''"
    using le by (auto simp: prefix_def add.commute add.left_commute dest!: arg_cong [where f = "\<lambda>xs. xs ! 1"])
  then have "is_char_boundary t (p + 2 + i + 1 + 1)" by (intro ascii_step [OF assms(1) lt]) (simp add: byte_def)
  then show thesis using that [of "p + 2 + i + 2"] Some slice_rest [OF assms(2)]
    by (simp add: scan_block_comment_def)
qed

lemma next_conflict_marker_ok:
  "valid_text t \<Longrightarrow> p \<le> length t \<Longrightarrow>
     p \<le> next_conflict_marker t ch p \<and> is_char_boundary t (next_conflict_marker t ch p)"
proof (induction t ch p rule: next_conflict_marker.induct)
  case (1 t ch p)
  show ?case
  proof (cases "p < length t \<and> \<not> ((t ! p = CHR ''='' \<or> t ! p = CHR ''>'') \<and> t ! p \<noteq> ch \<and> is_conflict_marker_trivia t p)")
    case True
    then have "next_conflict_marker t ch p = next_conflict_marker t ch (p + 1)"
      by (subst next_conflict_marker.simps) (simp add: Let_def del: de_Morgan_conj)
    then show ?thesis using 1 True by (simp add: Let_def del: de_Morgan_conj)
  next
    case False
    then have eq: "next_conflict_marker t ch p = p" by (subst next_conflict_marker.simps) (auto simp: Let_def)
    then show ?thesis using False 1(3) by (auto simp: is_char_boundary_def byte_def)
  qed
qed

lemma conflict_marker_here:
  assumes "is_conflict_marker_trivia t p"
  shows "p < length t" "t ! p \<in> set ''<|=>''"
  using assms by (auto simp: is_conflict_marker_trivia_def Let_def split: if_splits)

lemma scan_conflict_marker_trivia_ok:
  assumes "valid_text t" "is_conflict_marker_trivia t p"
  obtains e where "scan_conflict_marker_trivia t p = Some e" "p < e" "is_char_boundary t e"
proof -
  have here: "p < length t" "t ! p \<in> set ''<|=>''" using conflict_marker_here [OF assms(2)] by blast+
  then have b: "is_char_boundary t p" by (intro ascii_is_boundary) (auto simp: byte_def)
  obtain e where e: "scan_line_comment t p = Some e" "is_char_boundary t e"
    "p < length t \<Longrightarrow> byte (t ! p) \<noteq> 13 \<Longrightarrow> byte (t ! p) \<noteq> 10 \<Longrightarrow> p < e"
    using scan_line_comment_ok [OF assms(1) b] by metis
  show thesis
  proof (cases "t ! p = CHR ''<'' \<or> t ! p = CHR ''>''")
    case True
    then show ?thesis using that [of e] e here by (auto simp: scan_conflict_marker_trivia_def Let_def byte_def)
  next
    case False
    have "next_conflict_marker t (t ! p) p = next_conflict_marker t (t ! p) (p + 1)"
      using here(1) by (subst next_conflict_marker.simps) (simp add: Let_def)
    then have "p < next_conflict_marker t (t ! p) p \<and> is_char_boundary t (next_conflict_marker t (t ! p) p)"
      using next_conflict_marker_ok [OF assms(1), of "p + 1" "t ! p"] here(1) by auto
    then show ?thesis using that [of "next_conflict_marker t (t ! p) p"] False here
      by (simp add: scan_conflict_marker_trivia_def Let_def)
  qed
qed

lemma prefix_nth:
  assumes "prefix w (drop p t)" "i < length w"
  shows "p + i < length t" "t ! (p + i) = w ! i"
proof -
  obtain z where z: "drop p t = w @ z" using assms(1) by (auto simp: prefix_def)
  have "length w \<le> length (drop p t)" by (simp only: z length_append)
  then show "p + i < length t" using assms(2) by simp
  then show "t ! (p + i) = w ! i" using arg_cong [OF z, of "\<lambda>xs. xs ! i"] assms(2) by (simp add: nth_append)
qed

lemma skip_trivia_end: "\<not> p < length t \<Longrightarrow> skip_trivia_ex t p opts = Some p"
  by (simp add: skip_trivia_ex.simps [of t p])

text \<open>One turn of the loop at a boundary: it stops here, goes on at a later boundary, or stops after a line
  break when the options ask for it.\<close>

lemma skip_trivia_turn:
  assumes "valid_text t" "is_char_boundary t p" "p < length t"
  obtains (stop) "skip_trivia_ex t p opts = Some p"
    | (go) e where "p < e" "is_char_boundary t e" "skip_trivia_ex t p opts = skip_trivia_ex t e opts"
    | (after_line) e where "p < e" "is_char_boundary t e" "is_some_and stop_after_line_break opts"
        "skip_trivia_ex t p opts = Some e"
proof -
  obtain c where c: "next_char (drop p t) = Some c" "is_char_boundary t (p + len_utf8 c)"
    "byte (t ! p) < 0x80 \<longleftrightarrow> c < 0x80" "c < 0x80 \<Longrightarrow> byte (t ! p) = c"
    using char_at_boundary [OF assms] by metis
  have len: "0 < len_utf8 c" by simp
  obtain e where e: "scan_line_comment t p = Some e" "is_char_boundary t e"
    "p < length t \<Longrightarrow> byte (t ! p) \<noteq> 13 \<Longrightarrow> byte (t ! p) \<noteq> 10 \<Longrightarrow> p < e"
    using scan_line_comment_ok [OF assms(1,2)] by metis
  note unf = skip_trivia_ex.simps [of t p opts] slice_rest [OF assms(2)]
  have two: "t ! p = CHR ''/'' \<and> is_char_boundary t (p + 2)" if "prefix ''//'' (drop p t) \<or> prefix ''/*'' (drop p t)"
  proof -
    have lt: "p + 1 < length t" "t ! p = CHR ''/''" "t ! (p + 1) \<in> {CHR ''/'', CHR ''*''}"
      using that prefix_nth [of "''//''" p t 0] prefix_nth [of "''//''" p t 1]
        prefix_nth [of "''/*''" p t 0] prefix_nth [of "''/*''" p t 1] by auto
    have "is_char_boundary t (p + 1 + 1)" using lt by (intro ascii_step [OF assms(1)]) (auto simp: byte_def)
    then show ?thesis using lt(2) by simp
  qed
  show thesis
  proof (cases "is_shebang_trivia t p")
    case True
    then have "t ! p = CHR ''#''" by (auto simp: is_shebang_trivia_def prefix_def)
    then have "p < e" using e(3) assms(3) by (simp add: byte_def)
    moreover have "skip_trivia_ex t p opts = skip_trivia_ex t e opts"
      using True assms(3) e(1) by (simp add: skip_trivia_ex.simps [of t p opts] scan_shebang_trivia_def)
    ultimately show ?thesis using go e(2) by blast
  next
    case False
    note nsb = this
    show ?thesis
    proof (cases "is_conflict_marker_trivia t p")
      case True
      obtain f where f: "scan_conflict_marker_trivia t p = Some f" "p < f" "is_char_boundary t f"
        using scan_conflict_marker_trivia_ok [OF assms(1) True] by metis
      have "skip_trivia_ex t p opts = skip_trivia_ex t f opts"
        using True nsb assms(3) f(1) by (simp add: skip_trivia_ex.simps [of t p opts])
      then show ?thesis using go f by blast
    next
      case False
      note ncm = this
      show ?thesis
      proof (cases "prefix ''//'' (drop p t) \<or> prefix ''/*'' (drop p t)")
        case True
        obtain f where f: "scan_block_comment t p = Some f" "p + 2 \<le> f" "is_char_boundary t f"
          using scan_block_comment_ok [OF assms(1)] two [OF True] by metis
        have "p < e" using e(3) two [OF True] assms(3) by (simp add: byte_def)
        then show ?thesis using stop go [of e] go [of f] e f True nsb ncm assms(3)
          by (cases "is_some_and stop_at_comments opts"; cases "prefix ''//'' (drop p t)") (simp_all add: unf)
      next
        case False
        show ?thesis
        proof (cases "c = 13 \<or> c = 10")
          case True
          let ?q = "if c = 13 \<and> prefix [CHR 10] (drop (p + 1) t) then p + 2 else p + 1"
          have b1: "is_char_boundary t (p + 1)" using c(2) True by (auto simp: len_utf8_def)
          have q: "is_char_boundary t ?q" "p < ?q"
            using b1 ascii_step [OF assms(1), of "p + 1"] prefix_nth [of "[CHR 10]" "p + 1" t 0]
            by (auto simp: byte_def)
          have "skip_trivia_ex t p opts =
              (if is_some_and stop_after_line_break opts then Some ?q else skip_trivia_ex t ?q opts)"
            using True
          proof
            assume "c = 13"
            then show ?thesis using False nsb ncm assms(3) c(1)
              by (subst skip_trivia_ex.simps) (simp add: slice_rest [OF assms(2)] slice_rest [OF b1, simplified] len_utf8_def)
          next
            assume "c = 10"
            then show ?thesis using False nsb ncm assms(3) c(1)
              by (subst skip_trivia_ex.simps) (simp add: slice_rest [OF assms(2)] len_utf8_def)
          qed
          then show ?thesis using go [of ?q] after_line [of ?q] q
            by (cases "is_some_and stop_after_line_break opts") (simp_all only: if_True if_False)
        next
          case False
          then show ?thesis using \<open>\<not> (prefix _ _ \<or> _)\<close> nsb ncm assms(3) c(1,2) len stop go [of "p + len_utf8 c"]
            by (cases "is_white_space_like c") (simp_all add: unf)
        qed
      qed
    qed
  qed
qed



section \<open>Comment ranges\<close>

text \<open>Comments between two positions: in order, without overlap, each at the text that starts its kind.\<close>

fun comments_within :: "string \<Rightarrow> nat \<Rightarrow> nat \<Rightarrow> (text_range \<times> kind) list \<Rightarrow> bool" where
  "comments_within t lo hi [] \<longleftrightarrow> lo \<le> hi"
| "comments_within t lo hi ((r, k) # rs) \<longleftrightarrow>
     int lo \<le> tr_pos r \<and> tr_pos r + 2 \<le> tr_end r
     \<and> (k = SingleLineCommentTrivia \<and> prefix ''//'' (drop (nat (tr_pos r)) t)
        \<or> k = MultiLineCommentTrivia \<and> prefix ''/*'' (drop (nat (tr_pos r)) t))
     \<and> comments_within t (nat (tr_end r)) hi rs"

definition range_and_kind :: "comment_range \<Rightarrow> text_range \<times> kind" where
  "range_and_kind c = (cr_text_range c, cr_kind c)"

definition found_comments :: "comment_state \<Rightarrow> comment_range list" where
  "found_comments st = (case cs_pending st of Some comment \<Rightarrow> cs_ranges st @ [comment] | None \<Rightarrow> cs_ranges st)"

lemma comments_within_mono: "comments_within t lo hi rs \<Longrightarrow> hi \<le> hi' \<Longrightarrow> comments_within t lo hi' rs"
  by (induction t lo hi rs rule: comments_within.induct) auto

lemma comments_within_snoc:
  "comments_within t lo hi rs \<Longrightarrow> comments_within t hi hi' [x] \<Longrightarrow> comments_within t lo hi' (rs @ [x])"
  by (induction t lo hi rs rule: comments_within.induct) (cases x, auto)

lemma line_comment_end_ok:
  "valid_text t \<Longrightarrow> p \<le> length t \<Longrightarrow> is_char_boundary t (fst (line_comment_end t p))"
proof (induction t p rule: line_comment_end.induct)
  case (1 t p)
  then show ?case using ascii_is_boundary [of p t]
    by (cases "p < length t") (auto simp: line_comment_end.simps [of t p] line_comment_end.simps [of t "length t"])
qed

lemma block_comment_end_ok:
  "valid_text t \<Longrightarrow> p \<le> length t \<Longrightarrow> is_char_boundary t (block_comment_end t p)"
proof (induction t p rule: block_comment_end.induct)
  case (1 t p)
  show ?case
  proof (cases "t ! p = CHR ''*'' \<and> p + 1 < length t \<and> t ! (p + 1) = CHR ''/''")
    case True
    then have "is_char_boundary t (p + 1 + 1)" by (intro ascii_step [OF 1(2)]) (auto simp: byte_def)
    then show ?thesis using True by (simp add: block_comment_end.simps [of t p])
  next
    case False
    then show ?thesis using 1 by (cases "p < length t") (auto simp: block_comment_end.simps [of t p] block_comment_end.simps [of t "length t"])
  qed
qed

text \<open>What the loop keeps.\<close>

definition comment_inv :: "string \<Rightarrow> nat \<Rightarrow> comment_state \<Rightarrow> bool" where
  "comment_inv t lo st \<longleftrightarrow>
     is_char_boundary t (cs_pos st) \<and> comments_within t lo (cs_pos st) (map range_and_kind (found_comments st))"

lemma found_set_trailing [simp]:
  "map range_and_kind (found_comments (set_trailing_new_line st)) = map range_and_kind (found_comments st)"
  "cs_pos (set_trailing_new_line st) = cs_pos st"
  by (auto simp: found_comments_def set_trailing_new_line_def range_and_kind_def split: option.splits)

lemma found_update [simp]:
  "found_comments (st\<lparr>cs_pos := p\<rparr>) = found_comments st" "found_comments (st\<lparr>cs_collecting := b\<rparr>) = found_comments st"
  by (simp_all add: found_comments_def split: option.splits)

lemma comment_inv_advance:
  "comment_inv t lo st \<Longrightarrow> cs_pos st \<le> p \<Longrightarrow> is_char_boundary t p \<Longrightarrow> comment_inv t lo (st\<lparr>cs_pos := p\<rparr>)"
  by (auto simp: comment_inv_def intro: comments_within_mono)

lemma comment_inv_trailing: "comment_inv t lo st \<Longrightarrow> comment_inv t lo (set_trailing_new_line st)"
  by (simp add: comment_inv_def)

lemma comment_inv_collecting: "comment_inv t lo st \<Longrightarrow> comment_inv t lo (st\<lparr>cs_collecting := b\<rparr>)"
  by (simp add: comment_inv_def)

lemma comment_at_inv:
  assumes t: "valid_text t" "length t < 2 ^ 31" and inv: "comment_inv t lo st"
    and here: "t ! cs_pos st = CHR ''/''" "cs_pos st + 1 < length t" "t ! (cs_pos st + 1) \<in> {CHR ''/'', CHR ''*''}"
  shows "comment_inv t lo (comment_at t st)"
proof -
  let ?s = "cs_pos st"
  define e where "e = cs_pos (comment_at t st)"
  have le: "?s + 2 \<le> length t" using here(2) by simp
  have e: "?s + 2 \<le> e" "is_char_boundary t e"
    using line_comment_end_ge [of "?s + 2" t] block_comment_end_ge [of "?s + 2" t]
      line_comment_end_ok [OF t(1) le] block_comment_end_ok [OF t(1) le]
    by (auto simp: e_def comment_at_def Let_def split: prod.splits)
  have small: "wrap32 (int ?s) = int ?s" "wrap32 (int e) = int e"
    using boundary_le [OF e(2)] t(2) e(1) by (simp_all add: is_i32_def)
  have two: "drop ?s t = CHR ''/'' # t ! (?s + 1) # drop (?s + 2) t"
    using here(1,2) by (simp add: Cons_nth_drop_Suc [symmetric])
  let ?k = "if t ! (?s + 1) = CHR ''/'' then SingleLineCommentTrivia else MultiLineCommentTrivia"
  have "comments_within t ?s e [(new_text_range (int ?s) (int e), ?k)]"
    using e here(3) by (auto simp: new_text_range_def two)
  then have "comments_within t lo e (map range_and_kind (found_comments st) @ [(new_text_range (int ?s) (int e), ?k)])"
    using comments_within_snoc inv by (auto simp: comment_inv_def)
  moreover have "comments_within t lo e (map range_and_kind (found_comments st))"
    using inv comments_within_mono [of t lo ?s _ e] e(1) by (auto simp: comment_inv_def)
  moreover have "map range_and_kind (found_comments (comment_at t st)) =
      map range_and_kind (found_comments st) @ (if cs_collecting st then [(new_text_range (int ?s) (int e), ?k)] else [])"
    using small by (auto simp: e_def comment_at_def Let_def found_comments_def range_and_kind_def split: prod.splits option.splits)
  ultimately show ?thesis using e(2) by (simp add: comment_inv_def e_def)
qed

lemma comment_step_ok:
  assumes t: "valid_text t" "length t < 2 ^ 31" and inv: "comment_inv t lo st" and lt: "cs_pos st < length t"
  obtains st' where "comment_step t trailing st = Some (Inl st') \<or> comment_step t trailing st = Some (Inr st')"
    "comment_inv t lo st'"
proof -
  let ?p = "cs_pos st"
  have b: "is_char_boundary t ?p" using inv by (simp add: comment_inv_def)
  obtain c where c: "next_char (drop ?p t) = Some c" "is_char_boundary t (?p + len_utf8 c)"
    using char_at_boundary [OF t(1) b lt] by metis
  have ascii1: "byte (t ! ?p) < 128 \<Longrightarrow> is_char_boundary t (?p + 1)" using ascii_step [OF t(1) lt] by simp
  have ascii2: "?p + 1 < length t \<Longrightarrow> byte (t ! (?p + 1)) < 128 \<Longrightarrow> is_char_boundary t (?p + 2)"
    using ascii_step [OF t(1), of "?p + 1"] by simp
  consider (nl) "byte (t ! ?p) = 13 \<or> byte (t ! ?p) = 10" | (ws) "byte (t ! ?p) \<in> {9, 11, 12, 32}"
    | (comment) "t ! ?p = CHR ''/''" "?p + 1 < length t" "t ! (?p + 1) \<in> {CHR ''/'', CHR ''*''}"
    | (other) "\<not> (byte (t ! ?p) = 13 \<or> byte (t ! ?p) = 10)" "byte (t ! ?p) \<notin> {9, 11, 12, 32}"
        "\<not> (t ! ?p = CHR ''/'' \<and> ?p + 1 < length t \<and> t ! (?p + 1) \<in> {CHR ''/'', CHR ''*''})" by blast
  then show thesis
  proof cases
    case nl
    let ?q = "if byte (t ! ?p) = 13 \<and> ?p + 1 < length t \<and> byte (t ! (?p + 1)) = 10 then ?p + 2 else ?p + 1"
    have "comment_inv t lo (st\<lparr>cs_pos := ?q\<rparr>)" using ascii1 ascii2 nl by (intro comment_inv_advance inv) auto
    note kept = this comment_inv_trailing [OF comment_inv_collecting [OF this]]
    show thesis
      by (cases trailing) (rule that [OF _ kept(1)], use nl in \<open>simp add: comment_step_def Let_def\<close>,
        rule that [OF _ kept(2)], use nl in \<open>simp add: comment_step_def Let_def\<close>)
  next
    case ws
    then have "comment_inv t lo (st\<lparr>cs_pos := ?p + 1\<rparr>)" using ascii1 by (intro comment_inv_advance inv) auto
    then show thesis using ws by (intro that) (auto simp: comment_step_def Let_def)
  next
    case comment
    then have "comment_inv t lo (comment_at t st)" by (intro comment_at_inv t inv)
    then show thesis using comment by (intro that) (auto simp: comment_step_def Let_def byte_def)
  next
    case other
    have go: "comment_inv t lo (st'\<lparr>cs_pos := ?p + len_utf8 c\<rparr>)" if "comment_inv t lo st'" "cs_pos st' = ?p" for st'
      using that c(2) by (intro comment_inv_advance) auto
    show thesis
    proof (cases "byte (t ! ?p) > 0x7F \<and> is_unicode_whitespace c")
      case True
      then have "comment_step t trailing st =
          Some (Inr ((if c = 0x2028 \<or> c = 0x2029 then set_trailing_new_line st else st)\<lparr>cs_pos := ?p + len_utf8 c\<rparr>))"
        using other c(1) b by (auto simp: comment_step_def Let_def slice_rest byte_def)
      moreover have "comment_inv t lo
          ((if c = 0x2028 \<or> c = 0x2029 then set_trailing_new_line st else st)\<lparr>cs_pos := ?p + len_utf8 c\<rparr>)"
        by (rule go) (use inv comment_inv_trailing in auto)
      ultimately show thesis using that by blast
    next
      case False
      then have "comment_step t trailing st = Some (Inl st)"
        using other c(1) b by (auto simp: comment_step_def Let_def slice_rest)
      then show thesis using that inv by blast
    qed
  qed
qed

lemma comment_loop_ok:
  assumes "valid_text t" "length t < 2 ^ 31" "comment_inv t lo st"
  shows "\<exists>st'. comment_loop t trailing st = Some st' \<and> comment_inv t lo st'"
  using assms
proof (induction t trailing st rule: comment_loop.induct)
  case (1 t trailing st)
  show ?case
  proof (cases "cs_pos st < length t")
    case True
    obtain st' where st': "comment_step t trailing st = Some (Inl st') \<or> comment_step t trailing st = Some (Inr st')"
      "comment_inv t lo st'" using comment_step_ok [OF 1(2-4) True] by metis
    then show ?thesis using 1(1) [OF True, of "Inr st'" st'] 1(2,3) True
      by (auto simp: comment_loop.simps [of t trailing st])
  next
    case False
    then show ?thesis using 1(4) by (simp add: comment_loop.simps [of t trailing st])
  qed
qed



end
