(* ===== verification/BigInts.thy ===== *)
theory BigInts
  imports Utf8
begin

text \<open>
  The big integers of \<open>ts-jsnum/src/lib.rs\<close>: a sign and a decimal string. Literals with a prefix are
  converted to decimal by long multiplication on the digits. A panic is \<open>None\<close>. The values that occur
  in the multiplication stay far below \<open>2^32\<close>, so they are natural numbers.
\<close>

text \<open>\<open>char::to_digit\<close>\<close>

definition to_digit :: "nat \<Rightarrow> rune \<Rightarrow> nat option" where
  "to_digit radix ch =
     (let d = (if 48 \<le> ch \<and> ch \<le> 57 then Some (ch - 48)
               else if 97 \<le> ch \<and> ch \<le> 122 then Some (ch - 97 + 10)
               else if 65 \<le> ch \<and> ch \<le> 90 then Some (ch - 65 + 10)
               else None) in
      case d of Some v \<Rightarrow> if v < radix then Some v else None | None \<Rightarrow> None)"

record pseudo_big_int =
  negative :: bool
  base10_value :: string

definition new_pseudo_big_int :: "string \<Rightarrow> bool \<Rightarrow> pseudo_big_int" where
  "new_pseudo_big_int value neg =
     (let value = dropWhile (\<lambda>c. c = CHR ''0'') value in
      \<lparr>negative = neg \<and> value \<noteq> [], base10_value = value\<rparr>)"

definition pseudo_big_int_to_string :: "pseudo_big_int \<Rightarrow> string" where
  "pseudo_big_int_to_string b =
     (if base10_value b = [] then ''0''
      else if negative b then ''-'' @ base10_value b
      else base10_value b)"

definition pseudo_big_int_sign :: "pseudo_big_int \<Rightarrow> int" where
  "pseudo_big_int_sign b = (if base10_value b = [] then 0 else if negative b then -1 else 1)"

text \<open>The two loops of the multiplication: over the digits from the last one, and over the rest of the carry.\<close>

fun mul_digits :: "nat \<Rightarrow> string \<Rightarrow> nat \<Rightarrow> string \<Rightarrow> string \<times> nat" where
  "mul_digits mul [] carry out = (out, carry)"
| "mul_digits mul (b # bs) carry out =
     (let value = (byte b - 48) * mul + carry in
      mul_digits mul bs (value div 10) (out @ [char_of (value mod 10 + 48)]))"

fun push_carry :: "nat \<Rightarrow> string \<Rightarrow> string" where
  "push_carry carry out =
     (if carry > 0 then push_carry (carry div 10) (out @ [char_of (carry mod 10 + 48)]) else out)"

declare push_carry.simps [simp del]

definition decimal_mul_small_add :: "string \<Rightarrow> nat \<Rightarrow> nat \<Rightarrow> string" where
  "decimal_mul_small_add decimal mul add =
     (let (out, carry) = mul_digits mul (rev decimal) add [];
          decimal = rev (push_carry carry out);
          trimmed = dropWhile (\<lambda>c. c = CHR ''0'') decimal in
      if trimmed = [] then ''0''
      else if length trimmed \<noteq> length decimal then trimmed
      else decimal)"

fun prefixed_digits :: "nat \<Rightarrow> rune list \<Rightarrow> string \<Rightarrow> string option" where
  "prefixed_digits base [] decimal = Some decimal"
| "prefixed_digits base (ch # chs) decimal =
     (if ch = byte CHR ''_'' then prefixed_digits base chs decimal
      else
        (case to_digit base ch of
           None \<Rightarrow> None
         | Some digit \<Rightarrow> prefixed_digits base chs (decimal_mul_small_add decimal base digit)))"

text \<open>The base of a prefix. The two bytes of the prefix are ASCII, so the slice after them is at a boundary.\<close>

definition prefix_base :: "char \<Rightarrow> nat option" where
  "prefix_base c =
     (if c = CHR ''b'' \<or> c = CHR ''B'' then Some 2
      else if c = CHR ''o'' \<or> c = CHR ''O'' then Some 8
      else if c = CHR ''x'' \<or> c = CHR ''X'' then Some 16
      else None)"

definition parse_prefixed_integer_to_decimal :: "string \<Rightarrow> string option" where
  "parse_prefixed_integer_to_decimal text =
     (if length text < 2 \<or> text ! 0 \<noteq> CHR ''0'' then None
      else
        (case prefix_base (text ! 1) of
           None \<Rightarrow> None
         | Some base \<Rightarrow> prefixed_digits base (chars_of (drop 2 text)) ''0''))"

definition strip_suffix_n :: "string \<Rightarrow> string" where
  "strip_suffix_n s = (if s \<noteq> [] \<and> last s = CHR ''n'' then butlast s else s)"

definition parse_pseudo_big_int :: "string \<Rightarrow> string option" where
  "parse_pseudo_big_int string_value =
     (let s = strip_suffix_n string_value;
          b1 = (if 1 < length s then s ! 1 else CHR 0x00) in
      if b1 \<in> set ''bBoOxX'' then parse_prefixed_integer_to_decimal s
      else
        let s = dropWhile (\<lambda>c. c = CHR ''0'') s in
        if s = [] then Some ''0'' else Some s)"

definition parse_valid_big_int :: "string \<Rightarrow> pseudo_big_int option" where
  "parse_valid_big_int text =
     (let (text, neg) = (if text \<noteq> [] \<and> hd text = CHR ''-'' then (tl text, True) else (text, False)) in
      map_option (\<lambda>v. new_pseudo_big_int v neg) (parse_pseudo_big_int text))"

section \<open>Decimal strings and their values\<close>

lemma show_nat_dec_value:
  "list_all is_ascii_digit s \<Longrightarrow> s \<noteq> [] \<Longrightarrow> hd s \<noteq> CHR ''0'' \<Longrightarrow> show_nat (dec_value s) = s"
proof (induction s rule: rev_induct)
  case (snoc c s)
  have c: "48 \<le> byte c" "byte c \<le> 57" using snoc.prems(1) by (auto simp: is_ascii_digit_def byte_def)
  have dc: "digit_char (byte c - 48) = c" using c by (simp add: digit_char_def byte_def)
  show ?case
  proof (cases s)
    case Nil
    have "byte c - 48 < 10" using c by simp
    then show ?thesis using dc dec_value_snoc [of "[]" c]
      by (subst show_nat.simps) (simp add: Nil byte_def del: dec_value_snoc)
  next
    case (Cons d ds)
    then have "show_nat (dec_value s) = s" using snoc by simp
    moreover have "of_char d \<noteq> (48 :: nat)"
      using Cons snoc.prems(3) of_char_eq_iff [of d "CHR ''0''", where ?'a = nat] by (simp del: of_char_eq_iff)
    then have "0 < dec_value s"
      using Cons snoc.prems by (auto simp: dec_value_Cons is_ascii_digit_def intro!: gr0I)
    moreover have "byte c = 48 + (byte c - 48)" "byte c - 48 < 10" using c by simp_all
    then obtain d :: nat where "of_char c = 48 + d" "d < 10" unfolding byte_def by blast
    ultimately show ?thesis using dc by (subst show_nat.simps) (simp add: byte_def)
  qed
qed simp

lemma dec_value_zeros: "dec_value (dropWhile (\<lambda>c. c = CHR ''0'') s) = dec_value s"
  by (induction s) (simp_all add: dec_value_Cons)

text \<open>Dropping leading zeros makes a digit string canonical.\<close>

lemma trimmed_show_nat:
  assumes "list_all is_ascii_digit s"
  shows "(if dropWhile (\<lambda>c. c = CHR ''0'') s = [] then ''0'' else dropWhile (\<lambda>c. c = CHR ''0'') s) = show_nat (dec_value s)"
proof -
  let ?t = "dropWhile (\<lambda>c. c = CHR ''0'') s"
  have "list_all is_ascii_digit ?t" using assms set_dropWhileD by (fastforce simp: list_all_iff)
  moreover have "?t \<noteq> [] \<Longrightarrow> hd ?t \<noteq> CHR ''0''" using hd_dropWhile [of "\<lambda>c. c = CHR ''0''" s] by auto
  ultimately show ?thesis using show_nat_dec_value [of ?t] dec_value_zeros [of s] by (cases "?t = []") auto
qed

section \<open>Long multiplication\<close>

fun le_value :: "string \<Rightarrow> nat" where
  "le_value [] = 0"
| "le_value (c # cs) = byte c - 48 + 10 * le_value cs"

lemma le_value_rev: "le_value (rev s) = dec_value s"
  by (induction s rule: rev_induct) (simp_all add: byte_def)

lemma le_value_snoc: "le_value (s @ [c]) = le_value s + 10 ^ length s * (byte c - 48)"
  by (induction s) (simp_all add: algebra_simps)

lemma digit_and_carry: "10 ^ k * (v mod 10) + 10 * (10 ^ k * (v div 10)) = 10 ^ k * (v :: nat)"
proof -
  have "10 ^ k * (v mod 10) + 10 * (10 ^ k * (v div 10)) = 10 ^ k * (v mod 10 + 10 * (v div 10))"
    by (simp only: distrib_left mult.left_commute)
  then show ?thesis by simp
qed

lemma mul_digits_value:
  "mul_digits mul bs carry out = (out', carry') \<Longrightarrow>
     le_value out' + 10 ^ length out' * carry' = le_value out + 10 ^ length out * (le_value bs * mul + carry)
     \<and> (list_all is_ascii_digit out \<longrightarrow> list_all is_ascii_digit out')"
proof (induction mul bs carry out rule: mul_digits.induct)
  case (2 mul b bs carry out)
  let ?v = "(byte b - 48) * mul + carry"
  let ?out = "out @ [char_of (?v mod 10 + 48)]"
  have small: "?v mod 10 + 48 < 256" using mod_less_divisor [of 10 ?v] by simp
  have ih: "le_value out' + 10 ^ length out' * carry' = le_value ?out + 10 ^ length ?out * (le_value bs * mul + ?v div 10)"
    "list_all is_ascii_digit ?out \<longrightarrow> list_all is_ascii_digit out'"
    using 2(1) [OF refl] 2(2) by (auto simp: Let_def)
  have "le_value ?out + 10 ^ length ?out * (le_value bs * mul + ?v div 10)
      = le_value out + (10 ^ length out * (?v mod 10) + 10 * (10 ^ length out * (?v div 10)))
        + 10 ^ length out * (10 * le_value bs * mul)"
    using small by (simp add: le_value_snoc algebra_simps del: mod_mult_self1 mod_mult_self2)
  also have "\<dots> = le_value out + 10 ^ length out * (le_value (b # bs) * mul + carry)"
    unfolding digit_and_carry by (simp add: algebra_simps)
  finally show ?case using ih mod_less_divisor [of 10 ?v] by (simp add: is_ascii_digit_def [of "char_of _"])
qed simp

lemma push_carry_value:
  "le_value (push_carry carry out) = le_value out + 10 ^ length out * carry
   \<and> (list_all is_ascii_digit out \<longrightarrow> list_all is_ascii_digit (push_carry carry out))"
proof (induction carry out rule: push_carry.induct)
  case (1 carry out)
  show ?case
  proof (cases "carry > 0")
    case True
    have small: "carry mod 10 + 48 < 256" using mod_less_divisor [of 10 carry] by simp
    show ?thesis using 1 [OF True] True digit_and_carry [of "length out" carry] small
      by (simp add: push_carry.simps [of carry out] le_value_snoc is_ascii_digit_def)
  next
    case False
    then show ?thesis by (simp add: push_carry.simps [of 0 out])
  qed
qed

lemma decimal_mul_small_add_show: "decimal_mul_small_add (show_nat n) mul add = show_nat (n * mul + add)"
proof -
  obtain out carry where m: "mul_digits mul (rev (show_nat n)) add [] = (out, carry)" by fastforce
  let ?d = "rev (push_carry carry out)"
  have digits: "list_all is_ascii_digit ?d"
    using mul_digits_value [OF m] push_carry_value [of carry out] by (simp add: list_all_iff)
  have "dec_value ?d = n * mul + add"
    using mul_digits_value [OF m] push_carry_value [of carry out]
    by (simp add: le_value_rev [of "rev (push_carry carry out)", symmetric] le_value_rev)
  moreover have "decimal_mul_small_add (show_nat n) mul add =
      (if dropWhile (\<lambda>c. c = CHR ''0'') ?d = [] then ''0'' else dropWhile (\<lambda>c. c = CHR ''0'') ?d)"
    using m suffix_order.antisym [OF suffix_dropWhile [of "\<lambda>c. c = CHR ''0''" ?d]]
      suffix_length_suffix [OF suffix_order.refl suffix_dropWhile [of "\<lambda>c. c = CHR ''0''" ?d]]
    by (auto simp: decimal_mul_small_add_def Let_def)
  ultimately show ?thesis using trimmed_show_nat [OF digits] by simp
qed

section \<open>Literals\<close>

text \<open>The value of the digits after a prefix; separators do not count.\<close>

definition radix_value :: "nat \<Rightarrow> string \<Rightarrow> nat" where
  "radix_value base ds =
     foldl (\<lambda>v c. if c = CHR ''_'' then v else v * base + the (to_digit base (byte c))) 0 ds"

definition radix_digits :: "nat \<Rightarrow> string \<Rightarrow> bool" where
  "radix_digits base ds \<longleftrightarrow> list_all (\<lambda>c. c = CHR ''_'' \<or> to_digit base (byte c) \<noteq> None) ds"

lemma to_digit_ascii: "to_digit base ch = Some d \<Longrightarrow> ch < 0x80"
  by (auto simp: to_digit_def Let_def split: if_splits)

lemma ascii_is_enc: "list_all (\<lambda>c. byte c < 0x80) ds \<Longrightarrow> enc (map byte ds) = ds \<and> runes (map byte ds)"
  by (induction ds) (auto simp: utf8_encode_ascii is_scalar_def byte_def)

lemma radix_digits_ascii: "radix_digits base ds \<Longrightarrow> list_all (\<lambda>c. byte c < 0x80) ds"
  unfolding radix_digits_def list_all_iff
proof
  fix c assume "\<forall>c\<in>set ds. c = CHR ''_'' \<or> to_digit base (byte c) \<noteq> None" "c \<in> set ds"
  then consider "c = CHR ''_''" | d where "to_digit base (byte c) = Some d" by blast
  then show "byte c < 0x80" by cases (simp add: byte_def, rule to_digit_ascii)
qed

lemma chars_of_radix_digits: "radix_digits base ds \<Longrightarrow> chars_of ds = map byte ds"
  by (metis ascii_is_enc chars_of_enc radix_digits_ascii)

lemma prefixed_digits_value:
  "radix_digits base ds \<Longrightarrow>
     prefixed_digits base (map byte ds) (show_nat n)
     = Some (show_nat (foldl (\<lambda>v c. if c = CHR ''_'' then v else v * base + the (to_digit base (byte c))) n ds))"
proof (induction ds arbitrary: n)
  case (Cons c ds)
  have "byte c = byte CHR ''_'' \<longleftrightarrow> c = CHR ''_''" by (simp only: byte_def of_char_eq_iff)
  then show ?case using Cons by (auto simp: radix_digits_def decimal_mul_small_add_show)
qed simp

lemma strip_suffix_n_digits:
  assumes "sfx = [] \<or> sfx = ''n''" "s = [] \<or> last s \<noteq> CHR ''n''"
  shows "strip_suffix_n (s @ sfx) = s"
  using assms by (auto simp: strip_suffix_n_def)

lemma parse_prefixed_literal:
  assumes "prefix_base p = Some base" "radix_digits base ds" "sfx = [] \<or> sfx = ''n''"
  shows "parse_pseudo_big_int (''0'' @ [p] @ ds @ sfx) = Some (show_nat (radix_value base ds))"
proof -
  have base: "base \<le> 16" "p \<in> set ''bBoOxX''" using assms(1) by (auto simp: prefix_base_def split: if_splits)
  have "to_digit base (byte CHR ''n'') = None" using base(1) by (simp add: to_digit_def byte_def)
  then have "CHR ''n'' \<notin> set ds"
    using bspec [of "set ds" _ "CHR ''n''"] assms(2) unfolding radix_digits_def list_all_iff by force
  then have "CHR ''n'' \<notin> set (''0'' @ [p] @ ds)" using base(2) by auto
  then have "last (''0'' @ [p] @ ds) \<noteq> CHR ''n''" by (metis append_is_Nil_conv last_in_set list.distinct(1))
  then have "strip_suffix_n (''0'' @ [p] @ ds @ sfx) = ''0'' @ [p] @ ds"
    using strip_suffix_n_digits [OF assms(3), of "''0'' @ [p] @ ds"] by simp
  then show ?thesis
    using base assms prefixed_digits_value [OF assms(2), of 0]
    by (simp add: parse_pseudo_big_int_def parse_prefixed_integer_to_decimal_def chars_of_radix_digits radix_value_def)
qed

text \<open>C38: a binary, octal or hexadecimal big integer literal, with or without separators and the suffix \<open>n\<close>, is
  converted to the decimal string of its value, of any size.\<close>

theorem parse_pseudo_big_int_prefixed:
  assumes "prefix_base p = Some base" "radix_digits base ds" "sfx = [] \<or> sfx = ''n''"
  shows "parse_pseudo_big_int (''0'' @ [p] @ ds @ sfx) = Some (show_nat (radix_value base ds))"
  using assms by (rule parse_prefixed_literal)

theorem parse_pseudo_big_int_prefixed_witness:
  "parse_pseudo_big_int (''0'' @ [CHR ''x''] @ ''1_0'' @ ''n'') = Some (show_nat (radix_value 16 ''1_0''))"
  by (rule parse_pseudo_big_int_prefixed) (simp_all add: prefix_base_def radix_digits_def to_digit_def byte_def)

lemma digit_not_prefix: "is_ascii_digit c \<Longrightarrow> c \<notin> set ''bBoOxX'' \<and> c \<noteq> CHR ''n'' \<and> c \<noteq> CHR ''-''"
  by (auto simp: is_ascii_digit_def)

lemma parse_pseudo_big_int_decimal:
  assumes "list_all is_ascii_digit s"
  shows "parse_pseudo_big_int s = Some (show_nat (dec_value s))"
proof -
  have "s \<noteq> [] \<Longrightarrow> last s \<noteq> CHR ''n''"
    using assms digit_not_prefix [of "last s"] last_in_set [of s] unfolding list_all_iff by blast
  then have "strip_suffix_n s = s" by (auto simp: strip_suffix_n_def)
  moreover have "1 < length s \<Longrightarrow> s ! 1 \<notin> set ''bBoOxX''"
    using assms digit_not_prefix [of "s ! 1"] unfolding list_all_length by blast
  ultimately have "parse_pseudo_big_int s =
      Some (if dropWhile (\<lambda>c. c = CHR ''0'') s = [] then ''0'' else dropWhile (\<lambda>c. c = CHR ''0'') s)"
    by (cases "1 < length s") (simp_all only: parse_pseudo_big_int_def Let_def if_True if_False if_distrib [of Some], simp)
  then show ?thesis unfolding trimmed_show_nat [OF assms] .
qed

text \<open>The values of the type: no leading zeros, and only a number other than zero is negative.\<close>

definition big_int_ok :: "pseudo_big_int \<Rightarrow> bool" where
  "big_int_ok b \<longleftrightarrow> list_all is_ascii_digit (base10_value b)
     \<and> (if base10_value b = [] then \<not> negative b else hd (base10_value b) \<noteq> CHR ''0'')"

text \<open>a big integer that is printed is parsed again to the same value, and its printed text is the decimal
  numeral of its value.\<close>

theorem big_int_print_parse:
  assumes "big_int_ok b"
  shows "parse_valid_big_int (pseudo_big_int_to_string b) = Some b
    \<and> pseudo_big_int_to_string b = (if negative b then ''-'' else []) @ show_nat (dec_value (base10_value b))"
proof (cases "base10_value b = []")
  case True
  then have "\<not> negative b" using assms by (simp add: big_int_ok_def)
  then show ?thesis using True parse_pseudo_big_int_decimal [of "''0''"]
    by (cases b) (simp add: parse_valid_big_int_def pseudo_big_int_to_string_def new_pseudo_big_int_def is_ascii_digit_def dec_value_def)
next
  case False
  let ?v = "base10_value b"
  have ok: "list_all is_ascii_digit ?v" "hd ?v \<noteq> CHR ''0''" using assms False by (auto simp: big_int_ok_def)
  have show_v: "show_nat (dec_value ?v) = ?v" by (rule show_nat_dec_value [OF ok(1) False ok(2)])
  have parse: "parse_pseudo_big_int ?v = Some ?v" using parse_pseudo_big_int_decimal [OF ok(1)] show_v by simp
  have "\<exists>x\<in>set ?v. x \<noteq> CHR ''0''" using ok(2) False hd_in_set by blast
  note nonzero = this
  have keep: "dropWhile (\<lambda>c. c = CHR ''0'') ?v = ?v" using ok(2) False by (simp add: dropWhile_eq_self_iff)
  have "hd ?v \<noteq> CHR ''-''" using ok(1) False digit_not_prefix [of "hd ?v"] hd_in_set [of ?v] by (auto simp: list_all_iff)
  then show ?thesis using False parse keep show_v nonzero
    by (cases b; cases "negative b") (simp_all add: parse_valid_big_int_def pseudo_big_int_to_string_def new_pseudo_big_int_def)
qed

theorem big_int_print_parse_witness:
  "parse_valid_big_int (pseudo_big_int_to_string \<lparr>negative = True, base10_value = ''120''\<rparr>)
     = Some \<lparr>negative = True, base10_value = ''120''\<rparr>
   \<and> pseudo_big_int_to_string \<lparr>negative = True, base10_value = ''120''\<rparr>
     = (if negative \<lparr>negative = True, base10_value = ''120''\<rparr> then ''-'' else [])
       @ show_nat (dec_value (base10_value \<lparr>negative = True, base10_value = ''120''\<rparr>))"
  by (rule big_int_print_parse) (simp add: big_int_ok_def is_ascii_digit_def)

end
