(* ===== verification/Scanner.thy ===== *)
theory Scanner
  imports Trivia BigInts "HOL-Library.Monad_Syntax"
begin

text \<open>
  The scanner of \<open>ts-scanner\<close> (\<open>lib.rs\<close>, \<open>scanner.rs\<close>): its state, the operations that move it, and the
  scanning of tokens, identifiers, strings, templates, escapes, numbers and JSX text. The text is a list
  of bytes; \<open>char()\<close> reads one byte as a character, \<open>char_and_size()\<close> decodes one. Every slice of the text
  is taken with \<open>str_slice\<close>, so that a slice that is not at character boundaries is the panic \<open>None\<close>; a
  loop that is not seen to end is a partial function, and not returning is \<open>None\<close> too.

  A diagnostic is named by its message; the error callback, which is told of each diagnostic again, is
  not part of the state. \<open>jsnum::from_string(..).to_string()\<close>, the printing of a parsed floating point
  number, is the argument \<open>num\<close> of the operations that use it. The number caches are never read.
\<close>

section \<open>State\<close>

record scanner_diagnostic =
  sd_message :: string
  sd_start :: nat
  sd_length :: nat
  sd_args :: "string list"

datatype token_value = NoValue | SourceRange nat nat | Owned string

datatype comment_directive_kind = UnknownDirective | ExpectError | Ignore

record comment_directive =
  cd_loc :: text_range
  cd_kind :: comment_directive_kind

record scanner =
  sc_text :: string
  sc_end :: nat
  sc_language_variant :: language_variant
  sc_skip_trivia :: bool
  sc_pos :: nat
  sc_full_start_pos :: nat
  sc_token_start :: nat
  sc_token :: kind
  sc_token_value :: token_value
  sc_token_flags :: int
  sc_comment_directives :: "comment_directive list"
  sc_contains_non_ascii :: bool
  sc_diagnostics :: "scanner_diagnostic list"

record scanner_state =
  st_end :: nat
  st_pos :: nat
  st_full_start_pos :: nat
  st_token_start :: nat
  st_token :: kind
  st_token_value :: token_value
  st_token_flags :: int
  st_comment_directives_len :: nat

text \<open>The bits of \<open>TokenFlags\<close>.\<close>

abbreviation (input) "PRECEDING_LINE_BREAK \<equiv> 1 :: int"
abbreviation (input) "UNTERMINATED \<equiv> 4 :: int"
abbreviation (input) "EXTENDED_UNICODE_ESCAPE \<equiv> 8 :: int"
abbreviation (input) "SCIENTIFIC \<equiv> 16 :: int"
abbreviation (input) "OCTAL \<equiv> 32 :: int"
abbreviation (input) "HEX_SPECIFIER \<equiv> 64 :: int"
abbreviation (input) "BINARY_SPECIFIER \<equiv> 128 :: int"
abbreviation (input) "OCTAL_SPECIFIER \<equiv> 256 :: int"
abbreviation (input) "CONTAINS_SEPARATOR \<equiv> 512 :: int"
abbreviation (input) "UNICODE_ESCAPE \<equiv> 1024 :: int"
abbreviation (input) "CONTAINS_INVALID_ESCAPE \<equiv> 2048 :: int"
abbreviation (input) "HEX_ESCAPE \<equiv> 4096 :: int"
abbreviation (input) "CONTAINS_LEADING_ZERO \<equiv> 8192 :: int"
abbreviation (input) "CONTAINS_INVALID_SEPARATOR \<equiv> 16384 :: int"
abbreviation (input) "SINGLE_QUOTE \<equiv> 65536 :: int"
abbreviation (input) "BINARY_OR_OCTAL_SPECIFIER \<equiv> 384 :: int"

text \<open>The bits of \<open>EscapeSequenceScanningFlags\<close>.\<close>

abbreviation (input) "esc_String \<equiv> 1 :: int"
abbreviation (input) "esc_ReportErrors \<equiv> 2 :: int"
abbreviation (input) "esc_RegularExpression \<equiv> 4 :: int"
abbreviation (input) "esc_AnnexB \<equiv> 8 :: int"
abbreviation (input) "esc_AnyUnicodeMode \<equiv> 16 :: int"
abbreviation (input) "esc_AtomEscape \<equiv> 32 :: int"
abbreviation (input) "esc_REPORT_INVALID_ESCAPE_ERRORS \<equiv> 6 :: int"
abbreviation (input) "esc_ALLOW_EXTENDED_UNICODE_ESCAPE \<equiv> 17 :: int"

definition flags_contain :: "int \<Rightarrow> int \<Rightarrow> bool" where
  "flags_contain flags other \<longleftrightarrow> flags AND other = other"

definition add_flags :: "int \<Rightarrow> scanner \<Rightarrow> scanner" where
  "add_flags f s = s\<lparr>sc_token_flags := sc_token_flags s OR f\<rparr>"

definition advance :: "nat \<Rightarrow> scanner \<Rightarrow> scanner" where
  "advance n s = s\<lparr>sc_pos := sc_pos s + n\<rparr>"

definition error_at :: "string \<Rightarrow> nat \<Rightarrow> nat \<Rightarrow> string list \<Rightarrow> scanner \<Rightarrow> scanner" where
  "error_at message start len args s =
     s\<lparr>sc_diagnostics := sc_diagnostics s @ [\<lparr>sd_message = message, sd_start = start, sd_length = len, sd_args = args\<rparr>]\<rparr>"

definition new_scanner_on :: "string \<Rightarrow> scanner" where
  "new_scanner_on text =
     \<lparr>sc_text = text, sc_end = length text, sc_language_variant = Standard, sc_skip_trivia = True, sc_pos = 0,
      sc_full_start_pos = 0, sc_token_start = 0, sc_token = Unknown, sc_token_value = NoValue, sc_token_flags = 0,
      sc_comment_directives = [], sc_contains_non_ascii = False, sc_diagnostics = []\<rparr>"

definition reset_scanner :: "scanner \<Rightarrow> scanner" where
  "reset_scanner s = new_scanner_on []"

definition set_text :: "string \<Rightarrow> scanner \<Rightarrow> scanner" where
  "set_text text s =
     s\<lparr>sc_text := text, sc_end := length text, sc_pos := 0, sc_full_start_pos := 0, sc_token_start := 0,
       sc_token := Unknown, sc_token_value := NoValue, sc_token_flags := 0, sc_comment_directives := [],
       sc_contains_non_ascii := False\<rparr>"

definition set_language_variant :: "language_variant \<Rightarrow> scanner \<Rightarrow> scanner" where
  "set_language_variant v s = s\<lparr>sc_language_variant := v\<rparr>"

definition set_skip_trivia :: "bool \<Rightarrow> scanner \<Rightarrow> scanner" where
  "set_skip_trivia skip s = s\<lparr>sc_skip_trivia := skip\<rparr>"

definition char_here :: "scanner \<Rightarrow> char" where
  "char_here s = (if sc_pos s < sc_end s then sc_text s ! sc_pos s else CHR 0x00)"

definition char_at :: "scanner \<Rightarrow> nat \<Rightarrow> char" where
  "char_at s offset = (if sc_pos s + offset < sc_end s then sc_text s ! (sc_pos s + offset) else CHR 0x00)"

definition char_and_size :: "scanner \<Rightarrow> rune \<times> nat \<times> scanner" where
  "char_and_size s =
     (if sc_pos s \<ge> sc_end s then (0, 0, s)
      else
        let b = byte (sc_text s ! sc_pos s) in
        if b < 0x80 then (b, 1, s)
        else
          (case (if is_char_boundary (sc_text s) (sc_pos s) then next_char (drop (sc_pos s) (sc_text s)) else None) of
             None \<Rightarrow> (0, 0, s)
           | Some ch \<Rightarrow>
               (ch, len_utf8 ch, if len_utf8 ch > 1 then s\<lparr>sc_contains_non_ascii := True\<rparr> else s)))"

definition token_text :: "scanner \<Rightarrow> string option" where
  "token_text s = str_slice (sc_text s) (sc_token_start s) (sc_pos s)"

definition token_range :: "scanner \<Rightarrow> text_range" where
  "token_range s = new_text_range (wrap32 (int (sc_token_start s))) (wrap32 (int (sc_pos s)))"

definition token_value_text :: "scanner \<Rightarrow> string option" where
  "token_value_text s =
     (case sc_token_value s of
        NoValue \<Rightarrow> Some []
      | SourceRange start end \<Rightarrow> str_slice (sc_text s) start end
      | Owned v \<Rightarrow> Some v)"

definition clear_token_value :: "scanner \<Rightarrow> scanner" where
  "clear_token_value s = s\<lparr>sc_token_value := NoValue\<rparr>"

definition set_token_value :: "string \<Rightarrow> scanner \<Rightarrow> scanner" where
  "set_token_value v s = s\<lparr>sc_token_value := Owned v\<rparr>"

definition set_token_value_from_range :: "nat \<Rightarrow> nat \<Rightarrow> scanner \<Rightarrow> scanner" where
  "set_token_value_from_range start end s = s\<lparr>sc_token_value := SourceRange start end\<rparr>"

definition push_str_token_value :: "string \<Rightarrow> scanner \<Rightarrow> scanner option" where
  "push_str_token_value v s = map_option (\<lambda>old. set_token_value (old @ v) s) (token_value_text s)"

definition push_token_value :: "rune \<Rightarrow> scanner \<Rightarrow> scanner option" where
  "push_token_value ch s = push_str_token_value (utf8_encode ch) s"

definition mark :: "scanner \<Rightarrow> scanner_state" where
  "mark s =
     \<lparr>st_end = sc_end s, st_pos = sc_pos s, st_full_start_pos = sc_full_start_pos s, st_token_start = sc_token_start s,
      st_token = sc_token s, st_token_value = sc_token_value s, st_token_flags = sc_token_flags s,
      st_comment_directives_len = length (sc_comment_directives s)\<rparr>"

definition rewind :: "scanner_state \<Rightarrow> scanner \<Rightarrow> scanner" where
  "rewind st s =
     s\<lparr>sc_end := st_end st, sc_pos := st_pos st, sc_full_start_pos := st_full_start_pos st,
       sc_token_start := st_token_start st, sc_token := st_token st, sc_token_value := st_token_value st,
       sc_token_flags := st_token_flags st,
       sc_comment_directives := take (st_comment_directives_len st) (sc_comment_directives s)\<rparr>"

definition reset_pos :: "int \<Rightarrow> scanner \<Rightarrow> scanner option" where
  "reset_pos pos s =
     (if pos < 0 then None
      else Some (s\<lparr>sc_pos := nat pos, sc_full_start_pos := nat pos, sc_token_start := nat pos\<rparr>))"

definition reset_token_state :: "int \<Rightarrow> scanner \<Rightarrow> scanner option" where
  "reset_token_state pos s =
     map_option (\<lambda>s. (clear_token_value (s\<lparr>sc_token := Unknown\<rparr>))\<lparr>sc_token_flags := 0\<rparr>) (reset_pos pos s)"

definition set_text_end :: "nat \<Rightarrow> scanner \<Rightarrow> scanner option" where
  "set_text_end end s =
     (if \<not> end \<le> length (sc_text s) then None
      else
        Some (s\<lparr>sc_end := end, sc_pos := (if sc_pos s > end then end else sc_pos s),
          sc_full_start_pos := (if sc_full_start_pos s > end then end else sc_full_start_pos s),
          sc_token_start := (if sc_token_start s > end then end else sc_token_start s)\<rparr>))"

definition has_unicode_escape :: "scanner \<Rightarrow> bool" where
  "has_unicode_escape s \<longleftrightarrow> flags_contain (sc_token_flags s) UNICODE_ESCAPE"

definition has_extended_unicode_escape :: "scanner \<Rightarrow> bool" where
  "has_extended_unicode_escape s \<longleftrightarrow> flags_contain (sc_token_flags s) EXTENDED_UNICODE_ESCAPE"

definition has_preceding_line_break :: "scanner \<Rightarrow> bool" where
  "has_preceding_line_break s \<longleftrightarrow> flags_contain (sc_token_flags s) PRECEDING_LINE_BREAK"

section \<open>Loops over characters\<close>

lemma char_and_size_before_end: "char_and_size s = (ch, sz, s') \<Longrightarrow> sz \<noteq> 0 \<Longrightarrow> sc_pos s < sc_end s"
  by (auto simp: char_and_size_def split: if_splits)

lemma char_and_size_state:
  "char_and_size s = (ch, sz, s') \<Longrightarrow> s' = s \<or> s' = s\<lparr>sc_contains_non_ascii := True\<rparr>"
  by (auto simp: char_and_size_def Let_def split: if_splits option.splits)

lemma char_and_size_pos:
  "char_and_size s = (ch, sz, s') \<Longrightarrow> sz \<noteq> 0 \<Longrightarrow> sc_end s' - (sc_pos s' + sz) < sc_end s - sc_pos s"
  using char_and_size_before_end [of s ch sz s'] char_and_size_state [of s ch sz s'] by auto

lemma char_here_before_end: "char_here s \<noteq> CHR 0x00 \<Longrightarrow> sc_pos s < sc_end s"
  by (auto simp: char_here_def split: if_splits)

text \<open>\<open>loop { let (ch, size) = self.char_and_size(); if size == 0 || !p(ch) { break; } self.pos += size; }\<close>\<close>

function skip_chars :: "(rune \<Rightarrow> bool) \<Rightarrow> scanner \<Rightarrow> scanner" where
  "skip_chars p s =
     (let (ch, sz, s') = char_and_size s in
      if sz = 0 \<or> \<not> p ch then s' else skip_chars p (advance sz s'))"
  by pat_completeness auto
termination
  by (relation "measure (\<lambda>(_, s). sc_end s - sc_pos s)") (auto simp: advance_def dest: char_and_size_pos [OF sym])

declare skip_chars.simps [simp del]

text \<open>The body of a block comment: whether it was closed, and where its last line starts.\<close>

function block_comment_body :: "nat \<Rightarrow> scanner \<Rightarrow> bool \<times> nat \<times> scanner" where
  "block_comment_body last_line_start s =
     (let (ch, sz, s') = char_and_size s in
      if sz = 0 then (False, last_line_start, s')
      else if ch = byte CHR ''*'' \<and> char_at s' 1 = CHR ''/'' then (True, last_line_start, advance 2 s')
      else
        let s'' = advance sz s' in
        if is_line_break ch then block_comment_body (sc_pos s'') (add_flags PRECEDING_LINE_BREAK s'')
        else block_comment_body last_line_start s'')"
  by pat_completeness auto
termination
  by (relation "measure (\<lambda>(_, s). sc_end s - sc_pos s)")
    (auto simp: advance_def add_flags_def dest: char_and_size_pos [OF sym])

declare block_comment_body.simps [simp del]

section \<open>Digits\<close>

definition is_ascii_hexdigit :: "char \<Rightarrow> bool" where
  "is_ascii_hexdigit c \<longleftrightarrow> to_digit 16 (byte c) \<noteq> None"

definition is_octal_digit :: "char \<Rightarrow> bool" where
  "is_octal_digit c \<longleftrightarrow> to_digit 8 (byte c) \<noteq> None"

definition separator_error :: "bool \<Rightarrow> scanner \<Rightarrow> scanner" where
  "separator_error is_previous s =
     (if is_previous
      then error_at ''Multiple_consecutive_numeric_separators_are_not_permitted'' (sc_pos s) 1 [] s
      else error_at ''Numeric_separators_are_not_allowed_here'' (sc_pos s) 1 [] s)"

text \<open>\<open>from_str_radix\<close> of the standard library, with the greatest value of the type.\<close>

definition from_str_radix :: "nat \<Rightarrow> nat \<Rightarrow> string \<Rightarrow> nat option" where
  "from_str_radix maximum radix s =
     (let ds = (if s \<noteq> [] \<and> hd s = CHR ''+'' then tl s else s) in
      if ds \<noteq> [] \<and> list_all (\<lambda>c. to_digit radix (byte c) \<noteq> None) ds \<and> radix_value radix ds \<le> maximum
      then Some (radix_value radix ds) else None)"

text \<open>The loop of \<open>scan_hex_digits\<close>: the number of digits, and whether a separator came last.\<close>

function hex_digits_loop ::
    "nat \<Rightarrow> bool \<Rightarrow> bool \<Rightarrow> nat \<Rightarrow> bool \<Rightarrow> bool \<Rightarrow> scanner \<Rightarrow> nat \<times> bool \<times> scanner" where
  "hex_digits_loop min_count as_many can_sep digit_count allow_separator is_previous s =
     (if digit_count < min_count \<or> as_many then
        let ch = char_here s in
        if is_ascii_hexdigit ch then
          hex_digits_loop min_count as_many can_sep (digit_count + 1) can_sep False (advance 1 s)
        else if can_sep \<and> ch = CHR ''_'' then
          let s' = add_flags CONTAINS_SEPARATOR s in
          if allow_separator
          then hex_digits_loop min_count as_many can_sep digit_count False True (advance 1 s')
          else hex_digits_loop min_count as_many can_sep digit_count allow_separator is_previous
                 (advance 1 (separator_error is_previous s'))
        else (digit_count, is_previous, s)
      else (digit_count, is_previous, s))"
  by pat_completeness auto
termination
proof (relation "measure (\<lambda>(_, _, _, _, _, _, s). sc_end s - sc_pos s)", goal_cases)
  case (2 min_count as_many can_sep digit_count allow_separator is_previous s ch)
  then have "char_here s \<noteq> CHR 0x00" by (auto simp: is_ascii_hexdigit_def to_digit_def byte_def)
  then show ?case by (auto simp: advance_def dest!: char_here_before_end)
next
  case (3 min_count as_many can_sep digit_count allow_separator is_previous s ch s')
  then have "char_here s = CHR ''_''" by simp
  then have "sc_pos s < sc_end s" by (intro char_here_before_end) simp
  then show ?case using 3 by (auto simp: advance_def add_flags_def)
next
  case (4 min_count as_many can_sep digit_count allow_separator is_previous s ch s')
  then have "char_here s = CHR ''_''" by simp
  then have "sc_pos s < sc_end s" by (intro char_here_before_end) simp
  then show ?case using 4 by (auto simp: advance_def add_flags_def separator_error_def error_at_def)
qed simp

declare hex_digits_loop.simps [simp del]

definition scan_hex_digits :: "nat \<Rightarrow> bool \<Rightarrow> bool \<Rightarrow> scanner \<Rightarrow> (string \<times> scanner) option" where
  "scan_hex_digits min_count as_many can_sep s =
     (let start = sc_pos s;
          (digit_count, is_previous, s) = hex_digits_loop min_count as_many can_sep 0 False False s;
          s = (if is_previous then error_at ''Numeric_separators_are_not_allowed_here'' (sc_pos s - 1) 1 [] s else s) in
      if digit_count < min_count then Some ([], s)
      else do {
        raw \<leftarrow> str_slice (sc_text s) start (sc_pos s);
        let digits = to_ascii_lowercase raw;
        Some (if flags_contain (sc_token_flags s) CONTAINS_SEPARATOR
              then filter (\<lambda>ch. ch \<noteq> CHR ''_'') digits else digits, s)
      })"

function binary_or_octal_loop ::
    "nat \<Rightarrow> string \<Rightarrow> bool \<Rightarrow> bool \<Rightarrow> scanner \<Rightarrow> string \<times> bool \<times> scanner" where
  "binary_or_octal_loop base result allow_separator is_previous s =
     (let ch = char_here s in
      if is_ascii_digit ch \<and> (case to_digit 10 (byte ch) of Some digit \<Rightarrow> digit < base | None \<Rightarrow> False) then
        binary_or_octal_loop base (result @ [ch]) True False (advance 1 s)
      else if ch = CHR ''_'' then
        let s' = add_flags CONTAINS_SEPARATOR s in
        if allow_separator then binary_or_octal_loop base result False True (advance 1 s')
        else binary_or_octal_loop base result allow_separator is_previous (advance 1 (separator_error is_previous s'))
      else (result, is_previous, s))"
  by pat_completeness auto
termination
proof (relation "measure (\<lambda>(_, _, _, _, s). sc_end s - sc_pos s)", goal_cases)
  case (2 base result allow_separator is_previous s ch)
  then have "char_here s \<noteq> CHR 0x00" by (auto simp: is_ascii_digit_def)
  then show ?case by (auto simp: advance_def dest!: char_here_before_end)
next
  case (3 base result allow_separator is_previous s ch s')
  then have "char_here s = CHR ''_''" by simp
  then have "sc_pos s < sc_end s" by (intro char_here_before_end) simp
  then show ?case using 3 by (auto simp: advance_def add_flags_def)
next
  case (4 base result allow_separator is_previous s ch s')
  then have "char_here s = CHR ''_''" by simp
  then have "sc_pos s < sc_end s" by (intro char_here_before_end) simp
  then show ?case using 4 by (auto simp: advance_def add_flags_def separator_error_def error_at_def)
qed simp

declare binary_or_octal_loop.simps [simp del]

definition scan_binary_or_octal_digits :: "nat \<Rightarrow> scanner \<Rightarrow> string \<times> scanner" where
  "scan_binary_or_octal_digits base s =
     (let (result, is_previous, s) = binary_or_octal_loop base [] False False s in
      (result,
       if is_previous then error_at ''Numeric_separators_are_not_allowed_here'' (sc_pos s - 1) 1 [] s else s))"

function digits_loop :: "bool \<Rightarrow> scanner \<Rightarrow> bool \<times> scanner" where
  "digits_loop is_octal s =
     (if is_ascii_digit (char_here s) then digits_loop (if \<not> is_octal_digit (char_here s) then False else is_octal) (advance 1 s)
      else (is_octal, s))"
  by pat_completeness auto
termination
proof (relation "measure (\<lambda>(_, s). sc_end s - sc_pos s)", goal_cases)
  case (2 is_octal s)
  then have "char_here s \<noteq> CHR 0x00" by (auto simp: is_ascii_digit_def)
  then show ?case by (auto simp: advance_def dest!: char_here_before_end)
qed simp

declare digits_loop.simps [simp del]

definition scan_digits :: "scanner \<Rightarrow> (string \<times> bool \<times> scanner) option" where
  "scan_digits s =
     (let start = sc_pos s; (is_octal, s) = digits_loop True s in do {
        digits \<leftarrow> str_slice (sc_text s) start (sc_pos s);
        Some (digits, is_octal, s)
      })"

text \<open>The loop of \<open>scan_number_fragment\<close>: the text so far, the start of the current run of digits, whether a
  separator came last.\<close>

partial_function (option) number_fragment_loop ::
    "string \<Rightarrow> nat \<Rightarrow> bool \<Rightarrow> bool \<Rightarrow> scanner \<Rightarrow> (string \<times> nat \<times> bool \<times> scanner) option" where
  "number_fragment_loop result start allow_separator is_previous s =
     (let ch = char_here s in
      if ch = CHR ''_'' then
        let s = add_flags CONTAINS_SEPARATOR s in
        if allow_separator then
          Option.bind (str_slice (sc_text s) start (sc_pos s)) (\<lambda>run.
            let s = advance 1 s in number_fragment_loop (result @ run) (sc_pos s) False True s)
        else
          let s = advance 1 (separator_error is_previous (add_flags CONTAINS_INVALID_SEPARATOR s)) in
          number_fragment_loop result (sc_pos s) allow_separator is_previous s
      else if is_ascii_digit ch then number_fragment_loop result start True False (advance 1 s)
      else Some (result, start, is_previous, s))"

declare number_fragment_loop.simps [code]

definition scan_number_fragment :: "scanner \<Rightarrow> (string \<times> scanner) option" where
  "scan_number_fragment s = do {
     (result, start, is_previous, s) \<leftarrow> number_fragment_loop [] (sc_pos s) False False s;
     let s = (if is_previous
              then error_at ''Numeric_separators_are_not_allowed_here'' (sc_pos s - 1) 1 []
                     (add_flags CONTAINS_INVALID_SEPARATOR s)
              else s);
     run \<leftarrow> str_slice (sc_text s) start (sc_pos s);
     Some (result @ run, s)
   }"

section \<open>Escapes\<close>

text \<open>\<open>char::from_u32\<close>, and the helpers for surrogates (\<open>utilities.rs\<close>), on 32-bit words.\<close>

definition char_from_u32 :: "nat \<Rightarrow> rune option" where
  "char_from_u32 n = (if is_scalar n then Some n else None)"

definition code_point_is_high_surrogate :: "nat \<Rightarrow> bool" where
  "code_point_is_high_surrogate r \<longleftrightarrow> 0xD800 \<le> r \<and> r < 0xDC00"

definition code_point_is_low_surrogate :: "nat \<Rightarrow> bool" where
  "code_point_is_low_surrogate r \<longleftrightarrow> 0xDC00 \<le> r \<and> r < 0xE000"

definition surrogate_pair_to_codepoint :: "nat \<Rightarrow> nat \<Rightarrow> nat" where
  "surrogate_pair_to_codepoint r1 r2 =
     unat (push_bit 10 (word_of_nat r1 - 0xD800 :: 32 word) OR ((word_of_nat r2 - 0xDC00) + 0x10000))"

definition encode_surrogate :: "nat \<Rightarrow> string" where
  "encode_surrogate r = map char_of [0xED, 0x80 + r div 64 mod 64, 0x80 + r mod 64]"

text \<open>\<open>String::from_utf8_lossy\<close> on an encoded surrogate: none of its three bytes is part of a character, and
  each becomes a replacement character.\<close>

definition lossy_surrogate :: "nat \<Rightarrow> string" where
  "lossy_surrogate r = enc (map (\<lambda>_. 0xFFFD) (encode_surrogate r))"

text \<open>\<open>format!("{:02x}")\<close> and \<open>format!("{:o}")\<close>\<close>

definition hex_digit_char :: "nat \<Rightarrow> char" where
  "hex_digit_char d = char_of (if d < 10 then 48 + d else 87 + d)"

fun show_hex :: "nat \<Rightarrow> string" where
  "show_hex n = (if n < 16 then [hex_digit_char n] else show_hex (n div 16) @ [hex_digit_char (n mod 16)])"

fun show_octal :: "nat \<Rightarrow> string" where
  "show_octal n = (if n < 8 then [hex_digit_char n] else show_octal (n div 8) @ [hex_digit_char (n mod 8)])"

declare show_hex.simps [simp del] show_octal.simps [simp del]

definition hex_escape_text :: "nat \<Rightarrow> string" where
  "hex_escape_text code = CHR 0x5C # CHR ''x'' # (if code < 16 then CHR ''0'' # show_hex code else show_hex code)"

definition scan_unicode_escape :: "bool \<Rightarrow> scanner \<Rightarrow> (nat option \<times> scanner) option" where
  "scan_unicode_escape report s =
     (let s = advance 2 s;
          start = sc_pos s;
          extended = (char_here s = CHR ''{'') in do {
        (hex_digits, s) \<leftarrow> (if extended then scan_hex_digits 1 True False (advance 1 s)
                            else scan_hex_digits 4 False False (add_flags UNICODE_ESCAPE s));
        (if hex_digits = [] then
           let s = add_flags CONTAINS_INVALID_ESCAPE s in
           Some (None, if report then error_at ''Hexadecimal_digit_expected'' (sc_pos s) 0 [] s else s)
         else
           case from_str_radix (2 ^ 32 - 1) 16 hex_digits of
             None \<Rightarrow> Some (None, add_flags CONTAINS_INVALID_ESCAPE s)
           | Some hex_value \<Rightarrow>
               if extended then
                 let s = (if hex_value > 0x10FFFF \<and> report
                          then error_at ''An_extended_Unicode_escape_value_must_be_between_0x0_and_0x10FFFF_inclusive''
                                 (start + 1) (sc_pos s - (start + 1)) [] s
                          else s);
                     (invalid, s) =
                       (if sc_pos s \<ge> sc_end s then
                          (True, if report then error_at ''Unexpected_end_of_text'' (sc_pos s) 0 [] s else s)
                        else if char_here s = CHR ''}'' then (hex_value > 0x10FFFF, advance 1 s)
                        else
                          (True, if report then error_at ''Unterminated_Unicode_escape_sequence'' (sc_pos s) 0 [] s else s)) in
                 if invalid then Some (None, add_flags CONTAINS_INVALID_ESCAPE s)
                 else Some (Some hex_value, add_flags EXTENDED_UNICODE_ESCAPE s)
               else Some (Some hex_value, s))
      })"

definition peek_unicode_escape :: "scanner \<Rightarrow> rune option option" where
  "peek_unicode_escape s =
     (if char_at s 1 = CHR ''u''
      then map_option (\<lambda>(code, _). Option.bind code char_from_u32) (scan_unicode_escape False s)
      else Some None)"

definition scan_octal_escape_tail :: "nat \<Rightarrow> char \<Rightarrow> int \<Rightarrow> scanner \<Rightarrow> (string \<times> scanner) option" where
  "scan_octal_escape_tail start ch flags s =
     (let s = (if ch \<in> set ''0123'' \<and> is_octal_digit (char_here s) then advance 1 s else s);
          s = (if is_octal_digit (char_here s) then advance 1 s else s);
          s = add_flags CONTAINS_INVALID_ESCAPE s in
      if flags AND esc_REPORT_INVALID_ESCAPE_ERRORS \<noteq> 0 then do {
        digits \<leftarrow> str_slice (sc_text s) (start + 1) (sc_pos s);
        let code = (case from_str_radix (2 ^ 32 - 1) 8 digits of Some code \<Rightarrow> code | None \<Rightarrow> 0);
        let message =
          (if flags AND esc_RegularExpression \<noteq> 0 \<and> flags AND esc_AtomEscape = 0 \<and> ch \<noteq> CHR ''0''
           then ''Octal_escape_sequences_and_backreferences_are_not_allowed_in_a_character_class_If_this_was_intended_as_an_escape_sequence_use_the_syntax_0_instead''
           else ''Octal_escape_sequences_are_not_allowed_Use_the_syntax_0'');
        Some (utf8_encode (case char_from_u32 code of Some c \<Rightarrow> c | None \<Rightarrow> 0),
              error_at message start (sc_pos s - start) [hex_escape_text code] s)
      }
      else map_option (\<lambda>raw. (raw, s)) (str_slice (sc_text s) start (sc_pos s)))"

text \<open>The loop over the digits of a \<open>\x\<close> escape; it fails at the first character that is not one.\<close>

function hex_escape_digits :: "nat \<Rightarrow> scanner \<Rightarrow> bool \<times> scanner" where
  "hex_escape_digits start s =
     (if sc_pos s < start + 4 then
        if \<not> is_ascii_hexdigit (char_here s) then (False, s) else hex_escape_digits start (advance 1 s)
      else (True, s))"
  by pat_completeness auto
termination by (relation "measure (\<lambda>(start, s). start + 4 - sc_pos s)") (auto simp: advance_def)

declare hex_escape_digits.simps [simp del]

definition scan_hex_escape :: "nat \<Rightarrow> int \<Rightarrow> scanner \<Rightarrow> (string \<times> scanner) option" where
  "scan_hex_escape start flags s =
     (let (complete, s) = hex_escape_digits start s in
      if \<not> complete then
        let s = add_flags CONTAINS_INVALID_ESCAPE s;
            s = (if flags AND esc_REPORT_INVALID_ESCAPE_ERRORS \<noteq> 0
                 then error_at ''Hexadecimal_digit_expected'' (sc_pos s) 0 [] s else s) in
        map_option (\<lambda>raw. (raw, s)) (str_slice (sc_text s) start (sc_pos s))
      else
        let s = add_flags HEX_ESCAPE s in do {
          digits \<leftarrow> str_slice (sc_text s) (start + 2) (sc_pos s);
          let code = (case from_str_radix (2 ^ 32 - 1) 16 digits of Some code \<Rightarrow> code | None \<Rightarrow> 0);
          Some (utf8_encode (case char_from_u32 code of Some c \<Rightarrow> c | None \<Rightarrow> 0), s)
        })"

definition rune_or_replacement :: "nat \<Rightarrow> string" where
  "rune_or_replacement code = utf8_encode (case char_from_u32 code of Some c \<Rightarrow> c | None \<Rightarrow> 0xFFFD)"

text \<open>The arm of \<open>\u\<close>: the position is after the letter.\<close>

definition scan_u_escape :: "nat \<Rightarrow> int \<Rightarrow> scanner \<Rightarrow> (string \<times> scanner) option" where
  "scan_u_escape start flags s =
     (let extended = (char_here s = CHR ''{'');
          report = (flags AND esc_REPORT_INVALID_ESCAPE_ERRORS \<noteq> 0) in do {
        (code_point, s) \<leftarrow> scan_unicode_escape report (s\<lparr>sc_pos := sc_pos s - 2\<rparr>);
        (if extended then
           let s = (if flags AND esc_ALLOW_EXTENDED_UNICODE_ESCAPE = 0 then
                      let s = add_flags CONTAINS_INVALID_ESCAPE s in
                      if report then error_at ''Unicode_escape_sequences_are_only_available_when_the_Unicode_u_flag_or_the_Unicode_Sets_v_flag_is_set''
                                       start (sc_pos s - start) [] s
                      else s
                    else s) in
           case code_point of
             None \<Rightarrow> map_option (\<lambda>raw. (raw, s)) (str_slice (sc_text s) start (sc_pos s))
           | Some code \<Rightarrow> Some (rune_or_replacement code, s)
         else
           case code_point of
             None \<Rightarrow> map_option (\<lambda>raw. (raw, s)) (str_slice (sc_text s) start (sc_pos s))
           | Some code \<Rightarrow>
               if code_point_is_high_surrogate code
                  \<and> (flags AND esc_RegularExpression = 0 \<or> flags AND esc_AnyUnicodeMode \<noteq> 0)
                  \<and> char_here s = CHR 0x5C \<and> char_at s 1 = CHR ''u'' \<and> char_at s 2 \<noteq> CHR ''{''
               then do {
                 let saved_pos = sc_pos s;
                 (next_code_point, s) \<leftarrow> scan_unicode_escape report s;
                 (case next_code_point of
                    Some next_code \<Rightarrow>
                      if code_point_is_low_surrogate next_code then
                        (case char_from_u32 (surrogate_pair_to_codepoint code next_code) of
                           Some c \<Rightarrow> Some (utf8_encode c, s)
                         | None \<Rightarrow> map_option (\<lambda>raw. (raw, s)) (str_slice (sc_text s) start (sc_pos s)))
                      else if flags AND esc_RegularExpression \<noteq> 0 then Some (lossy_surrogate code, s\<lparr>sc_pos := saved_pos\<rparr>)
                      else Some (rune_or_replacement code, s\<lparr>sc_pos := saved_pos\<rparr>)
                  | None \<Rightarrow>
                      if flags AND esc_RegularExpression \<noteq> 0 then Some (lossy_surrogate code, s\<lparr>sc_pos := saved_pos\<rparr>)
                      else Some (rune_or_replacement code, s\<lparr>sc_pos := saved_pos\<rparr>))
               }
               else if (code_point_is_high_surrogate code \<or> code_point_is_low_surrogate code)
                    \<and> flags AND esc_RegularExpression \<noteq> 0
               then Some (lossy_surrogate code, s)
               else Some (rune_or_replacement code, s))
      })"

definition scan_escape_sequence :: "int \<Rightarrow> scanner \<Rightarrow> (string \<times> scanner) option" where
  "scan_escape_sequence flags s =
     (let start = sc_pos s;
          s = advance 1 s;
          ch = char_here s in
      if ch = CHR 0x00 then Some ([], error_at ''Unexpected_end_of_text'' (sc_pos s) 0 [] s)
      else
        let s = advance 1 s in
        if ch = CHR ''0'' then
          (if \<not> is_ascii_digit (char_here s) then Some ([CHR 0x00], s) else scan_octal_escape_tail start ch flags s)
        else if ch \<in> set ''1234567'' then scan_octal_escape_tail start ch flags s
        else if ch = CHR ''8'' \<or> ch = CHR ''9'' then
          let s = add_flags CONTAINS_INVALID_ESCAPE s in
          if flags AND esc_REPORT_INVALID_ESCAPE_ERRORS \<noteq> 0 then
            (if flags AND esc_RegularExpression \<noteq> 0 \<and> flags AND esc_AtomEscape = 0
             then Some ([ch], error_at ''Decimal_escape_sequences_and_backreferences_are_not_allowed_in_a_character_class''
                                start (sc_pos s - start) [] s)
             else map_option (\<lambda>raw. ([ch], error_at ''Escape_sequence_0_is_not_allowed'' start (sc_pos s - start) [raw] s))
                    (str_slice (sc_text s) start (sc_pos s)))
          else map_option (\<lambda>raw. (raw, s)) (str_slice (sc_text s) start (sc_pos s))
        else if ch = CHR ''b'' then Some ([CHR 0x08], s)
        else if ch = CHR ''t'' then Some ([CHR 0x09], s)
        else if ch = CHR ''n'' then Some ([CHR 0x0A], s)
        else if ch = CHR ''v'' then Some ([CHR 0x0B], s)
        else if ch = CHR ''f'' then Some ([CHR 0x0C], s)
        else if ch = CHR ''r'' then Some ([CHR 0x0D], s)
        else if ch = CHR 0x27 then Some ([CHR 0x27], s)
        else if ch = CHR 0x22 then Some ([CHR 0x22], s)
        else if ch = CHR ''u'' then scan_u_escape start flags s
        else if ch = CHR ''x'' then scan_hex_escape start flags s
        else if ch = CHR 0x0D then Some ([], if char_here s = CHR 0x0A then advance 1 s else s)
        else if ch = CHR 0x0A then Some ([], s)
        else if ch = CHR 0xE2 \<and> char_here s = CHR 0x80 then
          (if char_at s 1 = CHR 0xA8 \<or> char_at s 1 = CHR 0xA9
           then Some (enc [0xE2, 0xFFFD, 0xFFFD], advance 2 s)
           else Some (utf8_encode (byte ch), s))
        else if ch = CHR 0xC2 \<and> char_here s = CHR 0x85 then Some (enc [0xC2, 0xFFFD], advance 1 s)
        else
          Some (utf8_encode (byte ch),
                if flags AND esc_AnyUnicodeMode \<noteq> 0
                   \<or> flags AND esc_RegularExpression \<noteq> 0 \<and> flags AND esc_AnnexB = 0 \<and> is_identifier_part (byte ch)
                then error_at ''This_character_cannot_be_escaped_in_a_regular_expression'' (sc_pos s - 2) 2 [] s
                else s))"

section \<open>Identifiers\<close>

partial_function (option) identifier_parts_loop :: "string \<Rightarrow> nat \<Rightarrow> scanner \<Rightarrow> (string \<times> scanner) option" where
  "identifier_parts_loop result start s =
     (let (ch, sz, s) = char_and_size s in
      if sz = 0 then map_option (\<lambda>run. (result @ run, s)) (str_slice (sc_text s) start (sc_pos s))
      else if is_identifier_part ch then identifier_parts_loop result start (advance sz s)
      else if ch = 0x5C then
        Option.bind (peek_unicode_escape s) (\<lambda>escaped.
          if (case escaped of Some e \<Rightarrow> is_identifier_part e | None \<Rightarrow> False) then
            Option.bind (str_slice (sc_text s) start (sc_pos s)) (\<lambda>run.
            Option.bind (scan_unicode_escape True s) (\<lambda>(code, s).
              identifier_parts_loop
                (result @ run @ (case Option.bind code char_from_u32 of Some c \<Rightarrow> utf8_encode c | None \<Rightarrow> []))
                (sc_pos s) s))
          else map_option (\<lambda>run. (result @ run, s)) (str_slice (sc_text s) start (sc_pos s)))
      else map_option (\<lambda>run. (result @ run, s)) (str_slice (sc_text s) start (sc_pos s)))"

declare identifier_parts_loop.simps [code]

definition scan_identifier_parts :: "scanner \<Rightarrow> (string \<times> scanner) option" where
  "scan_identifier_parts s = identifier_parts_loop [] (sc_pos s) s"

text \<open>The two loops of \<open>scan_identifier\<close>: over ASCII words, and over decoded characters.\<close>

function word_loop :: "scanner \<Rightarrow> scanner" where
  "word_loop s =
     (let s' = advance 1 s in
      if is_word_character (byte (char_here s')) \<or> char_here s' = CHR ''$'' then word_loop s' else s')"
  by pat_completeness auto
termination
proof (relation "measure (\<lambda>s. sc_end s - sc_pos s)", goal_cases)
  case (2 s s')
  then have "char_here s' \<noteq> CHR 0x00"
    by (auto simp: is_word_character_def ascii_rune_def byte_def is_ascii_alphanumeric_def is_ascii_digit_def
      is_ascii_alphabetic_def is_ascii_uppercase_def is_ascii_lowercase_def)
  then have "sc_pos s' < sc_end s'" by (rule char_here_before_end)
  then show ?case using 2(1) by (auto simp: advance_def)
qed simp

declare word_loop.simps [simp del]

lemma not_identifier_part_0 [simp]: "\<not> is_identifier_part 0" "\<not> is_identifier_start 0"
  by (simp_all add: is_identifier_part_def is_identifier_start_def ascii_rune_def byte_def is_ascii_alphanumeric_def is_ascii_digit_def
      is_ascii_alphabetic_def is_ascii_uppercase_def is_ascii_lowercase_def)

lemma char_and_size_part:
  "char_and_size s = (ch, sz, s') \<Longrightarrow> is_identifier_part ch \<Longrightarrow> sc_pos s < sc_end s \<and> sc_pos s' = sc_pos s \<and> sc_end s' = sc_end s \<and> 0 < sz"
  by (auto simp: char_and_size_def Let_def split: if_splits option.splits)

function identifier_loop :: "nat \<Rightarrow> scanner \<Rightarrow> rune \<times> scanner" where
  "identifier_loop sz s =
     (let (ch, sz', s') = char_and_size (advance sz s) in
      if is_identifier_part ch then identifier_loop sz' s' else (ch, s'))"
  by pat_completeness auto
termination
  by (relation "measure (\<lambda>(sz, s). sc_end s - (sc_pos s + sz))")
    (auto simp: advance_def dest!: char_and_size_part [OF sym])

declare identifier_loop.simps [simp del]

definition scan_identifier :: "nat \<Rightarrow> scanner \<Rightarrow> (bool \<times> scanner) option" where
  "scan_identifier prefix_length s =
     (let start = sc_pos s;
          s = advance prefix_length s;
          ch = char_here s;
          word = (is_ascii_alphabetic ch \<or> ch = CHR ''_'' \<or> ch = CHR ''$'');
          s' = word_loop s in
      if word \<and> byte (char_here s') < 0x80 \<and> char_here s' \<noteq> CHR 0x5C
      then Some (True, set_token_value_from_range start (sc_pos s') s')
      else
        let (ch, sz, s) = char_and_size s in
        if is_identifier_start ch then
          let (ch, s) = identifier_loop sz s;
              s = set_token_value_from_range start (sc_pos s) s in
          if ch = 0x5C then do {
            (escaped_parts, s) \<leftarrow> scan_identifier_parts s;
            s \<leftarrow> push_str_token_value escaped_parts s;
            Some (True, s)
          }
          else Some (True, s)
        else Some (False, s))"

section \<open>Strings and templates\<close>

text \<open>The value of a literal that ends at the current position: the text with what was pushed before the
  current run, or the range of the text when nothing was.\<close>

definition literal_value :: "string option \<Rightarrow> nat \<Rightarrow> nat \<Rightarrow> scanner \<Rightarrow> token_value option" where
  "literal_value result start value_start s =
     (case result of
        None \<Rightarrow> Some (SourceRange value_start (sc_pos s))
      | Some r \<Rightarrow> map_option (\<lambda>run. Owned (r @ run)) (str_slice (sc_text s) start (sc_pos s)))"

definition pushed :: "string option \<Rightarrow> string" where
  "pushed result = (case result of Some r \<Rightarrow> r | None \<Rightarrow> [])"

definition unterminated_string :: "scanner \<Rightarrow> scanner" where
  "unterminated_string s = error_at ''Unterminated_string_literal'' (sc_pos s) 0 [] (add_flags UNTERMINATED s)"

partial_function (option) string_loop ::
    "char \<Rightarrow> bool \<Rightarrow> nat \<Rightarrow> string option \<Rightarrow> nat \<Rightarrow> scanner \<Rightarrow> scanner option" where
  "string_loop quote jsx value_start result start s =
     (let (ch, sz, s) = char_and_size s in
      if sz = 0 then
        map_option (\<lambda>v. (unterminated_string s)\<lparr>sc_token_value := v\<rparr>) (literal_value result start value_start s)
      else if ch = byte quote then
        map_option (\<lambda>v. (advance sz s)\<lparr>sc_token_value := v\<rparr>) (literal_value result start value_start s)
      else if ch = 0x5C \<and> \<not> jsx then
        Option.bind (str_slice (sc_text s) start (sc_pos s)) (\<lambda>run.
        Option.bind (scan_escape_sequence (esc_String OR esc_ReportErrors) s) (\<lambda>(escaped, s).
          string_loop quote jsx value_start (Some (pushed result @ run @ escaped)) (sc_pos s) s))
      else if (ch = 10 \<or> ch = 13) \<and> \<not> jsx then
        map_option (\<lambda>v. (unterminated_string s)\<lparr>sc_token_value := v\<rparr>) (literal_value result start value_start s)
      else string_loop quote jsx value_start result start (advance sz s))"

declare string_loop.simps [code]

definition scan_string_and_set_token_value :: "bool \<Rightarrow> scanner \<Rightarrow> scanner option" where
  "scan_string_and_set_token_value jsx s =
     (let quote = char_here s;
          s = (if quote = CHR 0x27 then add_flags SINGLE_QUOTE s else s);
          s = advance (len_utf8 (byte quote)) s;
          value_start = sc_pos s in do {
        rest \<leftarrow> str_slice (sc_text s) (sc_pos s) (sc_end s);
        (case str_find (utf8_encode (byte quote)) rest of
           None \<Rightarrow> string_loop quote jsx value_start None value_start s
         | Some relative_end \<Rightarrow>
             let value_end = sc_pos s + relative_end in
             if relative_end = 0 then
               Some (set_token_value_from_range value_start value_end (advance (len_utf8 (byte quote)) s))
             else do {
               literal \<leftarrow> str_slice (sc_text s) value_start value_end;
               (if jsx \<or> CHR 0x0D \<notin> set literal \<and> CHR 0x0A \<notin> set literal \<and> CHR 0x5C \<notin> set literal
                then Some (set_token_value_from_range value_start value_end
                             (advance (relative_end + len_utf8 (byte quote)) s))
                else string_loop quote jsx value_start None value_start s)
             })
      })"

definition scan_string :: "bool \<Rightarrow> scanner \<Rightarrow> (string \<times> scanner) option" where
  "scan_string jsx s = do {
     s' \<leftarrow> scan_string_and_set_token_value jsx s;
     v \<leftarrow> token_value_text s';
     Some (v, s'\<lparr>sc_token_value := sc_token_value s\<rparr>)
   }"

partial_function (option) template_loop ::
    "bool \<Rightarrow> bool \<Rightarrow> nat \<Rightarrow> string option \<Rightarrow> nat \<Rightarrow> scanner \<Rightarrow> (kind \<times> scanner) option" where
  "template_loop started_with_backtick report value_start result start s =
     (let (ch, sz, s) = char_and_size s in
      if sz = 0 \<or> ch = byte CHR ''`'' then
        map_option (\<lambda>v.
          (if started_with_backtick then NoSubstitutionTemplateLiteral else TemplateTail,
           (if ch = byte CHR ''`'' then advance sz s
            else error_at ''Unterminated_template_literal'' (sc_pos s) 0 [] (add_flags UNTERMINATED s))\<lparr>sc_token_value := v\<rparr>))
          (literal_value result start value_start s)
      else if ch = byte CHR ''$'' \<and> char_at s 1 = CHR ''{'' then
        map_option (\<lambda>v.
          (if started_with_backtick then TemplateHead else TemplateMiddle, (advance 2 s)\<lparr>sc_token_value := v\<rparr>))
          (literal_value result start value_start s)
      else if ch = 0x5C then
        Option.bind (str_slice (sc_text s) start (sc_pos s)) (\<lambda>run.
        Option.bind (scan_escape_sequence (if report then esc_String OR esc_ReportErrors else esc_String) s) (\<lambda>(escaped, s).
          template_loop started_with_backtick report value_start (Some (pushed result @ run @ escaped)) (sc_pos s) s))
      else if ch = 13 then
        Option.bind (str_slice (sc_text s) start (sc_pos s)) (\<lambda>run.
          let s = advance sz s;
              s = (if char_here s = CHR 0x0A then advance 1 s else s) in
          template_loop started_with_backtick report value_start (Some (pushed result @ run @ [CHR 0x0A])) (sc_pos s) s)
      else template_loop started_with_backtick report value_start result start (advance sz s))"

declare template_loop.simps [code]

definition scan_template_and_set_token_value :: "bool \<Rightarrow> scanner \<Rightarrow> (kind \<times> scanner) option" where
  "scan_template_and_set_token_value report s =
     (let started_with_backtick = (char_here s = CHR ''`''); s = advance 1 s in
      template_loop started_with_backtick report (sc_pos s) None (sc_pos s) s)"

section \<open>Numbers\<close>

definition scan_big_int_suffix :: "(string \<Rightarrow> string) \<Rightarrow> scanner \<Rightarrow> (kind \<times> scanner) option" where
  "scan_big_int_suffix num s =
     (if char_here s = CHR ''n'' then do {
        s \<leftarrow> push_token_value (byte CHR ''n'') s;
        s \<leftarrow> (if sc_token_flags s AND BINARY_OR_OCTAL_SPECIFIER \<noteq> 0 then do {
                v \<leftarrow> token_value_text s;
                decimal \<leftarrow> parse_pseudo_big_int v;
                Some (set_token_value (decimal @ ''n'') s)
              }
              else Some s);
        Some (BigIntLiteral, advance 1 s)
      }
      else do {
        v \<leftarrow> token_value_text s;
        Some (NumericLiteral, if num v \<noteq> v then set_token_value (num v) s else s)
      })"

text \<open>The part before the point: \<open>Inl\<close> is the end of the token at a legacy octal literal.\<close>

definition scan_fixed_part :: "scanner \<Rightarrow> (scanner + string \<times> scanner) option" where
  "scan_fixed_part s =
     (let start = sc_pos s in
      if char_here s = CHR ''0'' then
        let s = advance 1 s in
        if char_here s = CHR ''_'' then
          let s = add_flags (CONTAINS_SEPARATOR OR CONTAINS_INVALID_SEPARATOR) s;
              s = error_at ''Numeric_separators_are_not_allowed_here'' (sc_pos s) 1 [] s in
          map_option Inr (scan_number_fragment (s\<lparr>sc_pos := start\<rparr>))
        else do {
          (digits, is_octal, s) \<leftarrow> scan_digits s;
          (if digits = [] then Some (Inr (''0'', s))
           else if \<not> is_octal then Some (Inr (digits, add_flags CONTAINS_LEADING_ZERO s))
           else
             let val = (case from_str_radix (2 ^ 63 - 1) 8 digits of Some v \<Rightarrow> v | None \<Rightarrow> 2 ^ 63 - 1);
                 s = add_flags OCTAL (set_token_value (show_nat val) s);
                 with_minus = (sc_token s = MinusToken);
                 literal = (if with_minus then ''-'' else []) @ ''0o'' @ show_octal val;
                 start = (if with_minus then start - 1 else start) in
             Some (Inl (error_at ''Octal_literals_are_not_allowed_Use_the_syntax_0'' start (sc_pos s - start) [literal] s)))
        }
      else map_option Inr (scan_number_fragment s))"

text \<open>The exponent: its preamble, its digits, and the end of the number.\<close>

definition scan_exponent :: "scanner \<Rightarrow> (string \<times> string \<times> nat \<times> scanner) option" where
  "scan_exponent s =
     (let end = sc_pos s in
      if char_here s = CHR ''E'' \<or> char_here s = CHR ''e'' then
        let s = add_flags SCIENTIFIC (advance 1 s);
            s = (if char_here s = CHR ''+'' \<or> char_here s = CHR ''-'' then advance 1 s else s);
            start_numeric_part = sc_pos s in do {
          (exponent_part, s) \<leftarrow> scan_number_fragment s;
          (if exponent_part = [] then Some ([], [], end, error_at ''Digit_expected'' (sc_pos s) 0 [] s)
           else
             map_option (\<lambda>exponent_preamble. (exponent_preamble, exponent_part, sc_pos s, s))
               (str_slice (sc_text s) end start_numeric_part))
        }
      else Some ([], [], end, s))"

text \<open>An identifier that follows a number directly.\<close>

definition check_identifier_follows :: "nat \<Rightarrow> nat \<Rightarrow> kind \<Rightarrow> scanner \<Rightarrow> (kind \<times> scanner) option" where
  "check_identifier_follows start fixed_part_end result s =
     (let (ch, _, s) = char_and_size s in
      if is_identifier_start ch then
        let id_start = sc_pos s in do {
          (id, s) \<leftarrow> scan_identifier_parts s;
          let suffix_n = (result \<noteq> BigIntLiteral \<and> length id = 1 \<and> sc_text s ! id_start = CHR ''n'');
          (if suffix_n \<and> flags_contain (sc_token_flags s) SCIENTIFIC
           then Some (result, error_at ''A_bigint_literal_cannot_use_exponential_notation'' start (sc_pos s - start) [] s)
           else if suffix_n \<and> fixed_part_end < id_start
           then Some (result, error_at ''A_bigint_literal_must_be_an_integer'' start (sc_pos s - start) [] s)
           else
             Some (result,
               (error_at ''An_identifier_or_keyword_cannot_immediately_follow_a_numeric_literal''
                  id_start (sc_pos s - id_start) [] s)\<lparr>sc_pos := id_start\<rparr>))
        }
      else Some (result, s))"

text \<open>The value of a decimal literal: its text, or its parts when the text has separators.\<close>

definition set_number_value ::
    "nat \<Rightarrow> nat \<Rightarrow> string \<Rightarrow> string \<Rightarrow> string \<Rightarrow> string \<Rightarrow> scanner \<Rightarrow> scanner" where
  "set_number_value start end fixed_part fractional_part exponent_preamble exponent_part s =
     (if flags_contain (sc_token_flags s) CONTAINS_SEPARATOR then
        set_token_value
          (fixed_part @ (if fractional_part \<noteq> [] then ''.'' @ fractional_part else [])
           @ (if exponent_part \<noteq> [] then exponent_preamble @ exponent_part else [])) s
      else set_token_value_from_range start end s)"

definition scan_number :: "(string \<Rightarrow> string) \<Rightarrow> scanner \<Rightarrow> (kind \<times> scanner) option" where
  "scan_number num s =
     (let start = sc_pos s in do {
        fixed \<leftarrow> scan_fixed_part s;
        (case fixed of
           Inl s \<Rightarrow> Some (NumericLiteral, s)
         | Inr (fixed_part, s) \<Rightarrow>
             let fixed_part_end = sc_pos s in do {
               (fractional_part, s) \<leftarrow>
                 (if char_here s = CHR ''.'' then scan_number_fragment (advance 1 s) else Some ([], s));
               (exponent_preamble, exponent_part, end, s) \<leftarrow> scan_exponent s;
               let s = set_number_value start end fixed_part fractional_part exponent_preamble exponent_part s;
               (if flags_contain (sc_token_flags s) CONTAINS_LEADING_ZERO then do {
                  let s = error_at ''Decimals_with_leading_zeros_are_not_allowed'' start (sc_pos s - start) [] s;
                  v \<leftarrow> token_value_text s;
                  Some (NumericLiteral, set_token_value (num v) s)
                }
                else do {
                  (result, s) \<leftarrow>
                    (if fixed_part_end = sc_pos s then scan_big_int_suffix num s
                     else map_option (\<lambda>v. (NumericLiteral, set_token_value (num v) s)) (token_value_text s));
                  check_identifier_follows start fixed_part_end result s
                })
             })
      })"

section \<open>Scanning tokens\<close>

function skip_bytes :: "string \<Rightarrow> string \<Rightarrow> nat \<Rightarrow> nat \<Rightarrow> nat" where
  "skip_bytes cs text end pos = (if pos < end \<and> text ! pos \<in> set cs then skip_bytes cs text end (pos + 1) else pos)"
  by pat_completeness auto
termination by (relation "measure (\<lambda>(_, _, end, pos). end - pos)") auto

declare skip_bytes.simps [simp del]

definition process_comment_directive :: "nat \<Rightarrow> nat \<Rightarrow> bool \<Rightarrow> scanner \<Rightarrow> scanner" where
  "process_comment_directive start end multiline s =
     (let text = sc_text s;
          end = min end (length text) in
      if start \<ge> end then s
      else
        let pos = (if multiline then skip_bytes ''/*'' text end (skip_bytes [CHR 0x20, CHR 0x09] text end start)
                   else skip_bytes ''/'' text end (min (start + 2) end));
            pos = skip_bytes [CHR 0x20, CHR 0x09] text end pos in
        if pos \<ge> end \<or> text ! pos \<noteq> CHR ''@'' then s
        else
          let directive_text = drop (pos + 1) text;
              kind = (if prefix ''ts-expect-error'' directive_text then Some ExpectError
                      else if prefix ''ts-ignore'' directive_text then Some Ignore else None) in
          case kind of
            None \<Rightarrow> s
          | Some k \<Rightarrow>
              s\<lparr>sc_comment_directives := sc_comment_directives s
                  @ [\<lparr>cd_loc = new_text_range (wrap32 (int start)) (wrap32 (int end)), cd_kind = k\<rparr>]\<rparr>)"

definition scan_conflict_marker_as_token :: "scanner \<Rightarrow> (bool \<times> scanner) option" where
  "scan_conflict_marker_as_token s =
     (if \<not> is_conflict_marker_trivia (sc_text s) (sc_pos s) then Some (False, s)
      else
        let s = error_at ''Merge_conflict_marker_encountered'' (sc_pos s) 7 [] s in do {
          pos \<leftarrow> scan_conflict_marker_trivia (sc_text s) (sc_pos s);
          Some (True, s\<lparr>sc_pos := pos, sc_token := ConflictMarkerTrivia\<rparr>)
        })"

definition scan_invalid_character :: "scanner \<Rightarrow> scanner" where
  "scan_invalid_character s =
     (let (_, sz, s) = char_and_size s in
      (advance sz (error_at ''Invalid_character'' (sc_pos s) sz [] s))\<lparr>sc_token := Unknown\<rparr>)"

text \<open>The arms of \<open>scan\<close> that only look at the next characters: how many they take and the token.\<close>

definition punctuation :: "scanner \<Rightarrow> (nat \<times> kind) option" where
  "punctuation s =
     (let ch = char_here s; c1 = char_at s 1; c2 = char_at s 2 in
      if ch = CHR ''!'' then
        (if c1 = CHR ''='' then if c2 = CHR ''='' then Some (3, ExclamationEqualsEqualsToken) else Some (2, ExclamationEqualsToken)
         else Some (1, ExclamationToken))
      else if ch = CHR ''%'' then (if c1 = CHR ''='' then Some (2, PercentEqualsToken) else Some (1, PercentToken))
      else if ch = CHR ''&'' then
        (if c1 = CHR ''&'' then if c2 = CHR ''='' then Some (3, AmpersandAmpersandEqualsToken) else Some (2, AmpersandAmpersandToken)
         else if c1 = CHR ''='' then Some (2, AmpersandEqualsToken)
         else Some (1, AmpersandToken))
      else if ch = CHR ''('' then Some (1, OpenParenToken)
      else if ch = CHR '')'' then Some (1, CloseParenToken)
      else if ch = CHR ''*'' then
        (if c1 = CHR ''='' then Some (2, AsteriskEqualsToken)
         else if c1 = CHR ''*'' then if c2 = CHR ''='' then Some (3, AsteriskAsteriskEqualsToken) else Some (2, AsteriskAsteriskToken)
         else Some (1, AsteriskToken))
      else if ch = CHR ''+'' then
        (if c1 = CHR ''='' then Some (2, PlusEqualsToken)
         else if c1 = CHR ''+'' then Some (2, PlusPlusToken)
         else Some (1, PlusToken))
      else if ch = CHR '','' then Some (1, CommaToken)
      else if ch = CHR ''-'' then
        (if c1 = CHR ''='' then Some (2, MinusEqualsToken)
         else if c1 = CHR ''-'' then Some (2, MinusMinusToken)
         else Some (1, MinusToken))
      else if ch = CHR ''.'' then
        (if c1 = CHR ''.'' \<and> c2 = CHR ''.'' then Some (3, DotDotDotToken) else Some (1, DotToken))
      else if ch = CHR ''/'' then (if c1 = CHR ''='' then Some (2, SlashEqualsToken) else Some (1, SlashToken))
      else if ch = CHR '':'' then Some (1, ColonToken)
      else if ch = CHR '';'' then Some (1, SemicolonToken)
      else if ch = CHR ''<'' then
        (if c1 = CHR ''<'' then if c2 = CHR ''='' then Some (3, LessThanLessThanEqualsToken) else Some (2, LessThanLessThanToken)
         else if c1 = CHR ''='' then Some (2, LessThanEqualsToken)
         else if sc_language_variant s = JSX \<and> c1 = CHR ''/'' \<and> c2 \<noteq> CHR ''*'' then Some (2, LessThanSlashToken)
         else Some (1, LessThanToken))
      else if ch = CHR ''='' then
        (if c1 = CHR ''='' then if c2 = CHR ''='' then Some (3, EqualsEqualsEqualsToken) else Some (2, EqualsEqualsToken)
         else if c1 = CHR ''>'' then Some (2, EqualsGreaterThanToken)
         else Some (1, EqualsToken))
      else if ch = CHR ''>'' then Some (1, GreaterThanToken)
      else if ch = CHR ''?'' then
        (if c1 = CHR ''.'' \<and> \<not> is_ascii_digit c2 then Some (2, QuestionDotToken)
         else if c1 = CHR ''?'' then if c2 = CHR ''='' then Some (3, QuestionQuestionEqualsToken) else Some (2, QuestionQuestionToken)
         else Some (1, QuestionToken))
      else if ch = CHR ''['' then Some (1, OpenBracketToken)
      else if ch = CHR '']'' then Some (1, CloseBracketToken)
      else if ch = CHR ''^'' then (if c1 = CHR ''='' then Some (2, CaretEqualsToken) else Some (1, CaretToken))
      else if ch = CHR ''{'' then Some (1, OpenBraceToken)
      else if ch = CHR ''|'' then
        (if c1 = CHR ''|'' then if c2 = CHR ''='' then Some (3, BarBarEqualsToken) else Some (2, BarBarToken)
         else if c1 = CHR ''='' then Some (2, BarEqualsToken)
         else Some (1, BarToken))
      else if ch = CHR ''}'' then Some (1, CloseBraceToken)
      else if ch = CHR ''~'' then Some (1, TildeToken)
      else if ch = CHR ''@'' then Some (1, AtToken)
      else None)"

text \<open>The other arms. Their result says whether the loop of \<open>scan\<close> continues or returns.\<close>

definition scan_line_comment_token :: "scanner \<Rightarrow> bool \<times> scanner" where
  "scan_line_comment_token s =
     (let s = skip_chars (\<lambda>ch. \<not> is_line_break ch) (advance 2 s);
          s = process_comment_directive (sc_token_start s) (sc_pos s) False s in
      if sc_skip_trivia s then (True, s) else (False, s\<lparr>sc_token := SingleLineCommentTrivia\<rparr>))"

definition scan_block_comment_token :: "scanner \<Rightarrow> bool \<times> scanner" where
  "scan_block_comment_token s =
     (let (comment_closed, last_line_start, s) = block_comment_body (sc_token_start s) (advance 2 s);
          s = process_comment_directive last_line_start (sc_pos s) True s;
          s = (if \<not> comment_closed then error_at ''Asterisk_Slash_expected'' (sc_pos s) 0 [] s else s) in
      if sc_skip_trivia s then (True, s)
      else
        (False, (if \<not> comment_closed then add_flags UNTERMINATED s else s)\<lparr>sc_token := MultiLineCommentTrivia\<rparr>))"

definition scan_hex_literal :: "(string \<Rightarrow> string) \<Rightarrow> scanner \<Rightarrow> scanner option" where
  "scan_hex_literal num s =
     (let start = sc_pos s in do {
        (digits, s) \<leftarrow> scan_hex_digits 1 True True (advance 2 s);
        let (digits, s) = (if digits = [] then (''0'', error_at ''Hexadecimal_digit_expected'' (sc_pos s) 0 [] s) else (digits, s));
        raw_text \<leftarrow> str_slice (sc_text s) start (sc_pos s);
        let s = (if prefix ''0x'' raw_text \<and> drop 2 raw_text = digits
                 then set_token_value_from_range start (sc_pos s) s
                 else set_token_value (''0x'' @ digits) s);
        (k, s) \<leftarrow> scan_big_int_suffix num (add_flags HEX_SPECIFIER s);
        Some (s\<lparr>sc_token := k\<rparr>)
      })"

definition scan_binary_or_octal_literal ::
    "(string \<Rightarrow> string) \<Rightarrow> nat \<Rightarrow> char \<Rightarrow> string \<Rightarrow> int \<Rightarrow> scanner \<Rightarrow> scanner option" where
  "scan_binary_or_octal_literal num base letter message flag s =
     (let (digits, s) = scan_binary_or_octal_digits base (advance 2 s);
          (digits, s) = (if digits = [] then (''0'', error_at message (sc_pos s) 0 [] s) else (digits, s));
          s = add_flags flag (set_token_value (''0'' @ [letter] @ digits) s) in
      map_option (\<lambda>(k, s). s\<lparr>sc_token := k\<rparr>) (scan_big_int_suffix num s))"

definition scan_zero :: "(string \<Rightarrow> string) \<Rightarrow> scanner \<Rightarrow> scanner option" where
  "scan_zero num s =
     (let c1 = char_at s 1 in
      if c1 = CHR ''X'' \<or> c1 = CHR ''x'' then scan_hex_literal num s
      else if c1 = CHR ''B'' \<or> c1 = CHR ''b'' then
        scan_binary_or_octal_literal num 2 CHR ''b'' ''Binary_digit_expected'' BINARY_SPECIFIER s
      else if c1 = CHR ''O'' \<or> c1 = CHR ''o'' then
        scan_binary_or_octal_literal num 8 CHR ''o'' ''Octal_digit_expected'' OCTAL_SPECIFIER s
      else map_option (\<lambda>(k, s). s\<lparr>sc_token := k\<rparr>) (scan_number num s))"

text \<open>An identifier that starts with an escape; \<open>pre\<close> is the text before the escaped character.\<close>

definition scan_escaped_identifier :: "string \<Rightarrow> rune \<Rightarrow> scanner \<Rightarrow> scanner option" where
  "scan_escaped_identifier pre cp s = do {
     let s = set_token_value (pre @ utf8_encode cp) s;
     (_, s) \<leftarrow> scan_unicode_escape True s;
     (parts, s) \<leftarrow> scan_identifier_parts s;
     push_str_token_value parts s
   }"

definition escaped_identifier_start :: "scanner \<Rightarrow> rune option option" where
  "escaped_identifier_start s =
     map_option (\<lambda>cp. case cp of Some c \<Rightarrow> if is_identifier_start c then Some c else None | None \<Rightarrow> None)
       (peek_unicode_escape s)"

definition set_identifier_token :: "scanner \<Rightarrow> scanner option" where
  "set_identifier_token s = map_option (\<lambda>v. s\<lparr>sc_token := get_identifier_token v\<rparr>) (token_value_text s)"

definition scan_backslash :: "scanner \<Rightarrow> scanner option" where
  "scan_backslash s = do {
     cp \<leftarrow> escaped_identifier_start s;
     (case cp of
        Some c \<Rightarrow> Option.bind (scan_escaped_identifier [] c s) set_identifier_token
      | None \<Rightarrow> Some (scan_invalid_character s))
   }"

definition scan_hash :: "scanner \<Rightarrow> (bool \<times> scanner) option" where
  "scan_hash s =
     (if char_at s 1 = CHR ''!'' then
        if sc_pos s = 0 then Some (True, skip_chars (\<lambda>ch. \<not> is_line_break ch) (advance 2 s))
        else
          let s = error_at ''X_can_only_be_used_at_the_start_of_a_file'' (sc_pos s) 2 [] s in
          Some (False, (advance 1 s)\<lparr>sc_token := Unknown\<rparr>)
      else do {
        cp \<leftarrow> (if char_at s 1 = CHR 0x5C then escaped_identifier_start (advance 1 s) else Some None);
        (case cp of
           Some c \<Rightarrow>
             map_option (\<lambda>s. (False, s\<lparr>sc_token := PrivateIdentifier\<rparr>)) (scan_escaped_identifier ''#'' c (advance 1 s))
         | None \<Rightarrow> do {
             (found, s) \<leftarrow> scan_identifier 1 s;
             let s = (if \<not> found
                      then set_token_value ''#'' (error_at ''Invalid_character'' (sc_pos s - 1) 1 [] s)
                      else s);
             Some (False, s\<lparr>sc_token := PrivateIdentifier\<rparr>)
           })
      })"

definition scan_other :: "scanner \<Rightarrow> (bool \<times> scanner) option" where
  "scan_other s = do {
     (found, s) \<leftarrow> scan_identifier 0 s;
     (if found then map_option (\<lambda>s. (False, s)) (set_identifier_token s)
      else
        let (ch, sz, s) = char_and_size s in
        if ch = 0xFFFD then
          Some (False, (error_at ''File_appears_to_be_binary'' 0 0 [] s)\<lparr>sc_pos := sc_end s, sc_token := NonTextFileMarkerTrivia\<rparr>)
        else if is_white_space_single_line ch then
          let s = advance sz s in
          if ch = 0x85 \<or> sc_skip_trivia s then Some (True, s)
          else Some (False, (skip_chars is_white_space_single_line s)\<lparr>sc_token := WhitespaceTrivia\<rparr>)
        else if is_line_break ch then Some (True, advance sz (add_flags PRECEDING_LINE_BREAK s))
        else Some (False, scan_invalid_character s))
   }"

text \<open>One turn of the loop of \<open>scan\<close>: whether it continues, and the state.\<close>

definition scan_step :: "(string \<Rightarrow> string) \<Rightarrow> scanner \<Rightarrow> (bool \<times> scanner) option" where
  "scan_step num s =
     (let s = clear_token_value (s\<lparr>sc_token_start := sc_pos s\<rparr>);
          ch = char_here s in
      if ch \<in> {CHR 0x09, CHR 0x0B, CHR 0x0C, CHR 0x20} then
        let s = advance 1 s in
        if sc_skip_trivia s then Some (True, s)
        else Some (False, (skip_chars is_white_space_single_line s)\<lparr>sc_token := WhitespaceTrivia\<rparr>)
      else if ch = CHR 0x0A \<or> ch = CHR 0x0D then
        let s = add_flags PRECEDING_LINE_BREAK s in
        if sc_skip_trivia s then Some (True, advance 1 s)
        else
          Some (False, (advance (if ch = CHR 0x0D \<and> char_at s 1 = CHR 0x0A then 2 else 1) s)\<lparr>sc_token := NewLineTrivia\<rparr>)
      else if ch = CHR 0x22 \<or> ch = CHR 0x27 then
        map_option (\<lambda>s. (False, s\<lparr>sc_token := StringLiteral\<rparr>)) (scan_string_and_set_token_value False s)
      else if ch = CHR ''`'' then
        map_option (\<lambda>(k, s). (False, s\<lparr>sc_token := k\<rparr>)) (scan_template_and_set_token_value False s)
      else if ch = CHR ''.'' \<and> is_ascii_digit (char_at s 1) then
        map_option (\<lambda>(k, s). (False, s\<lparr>sc_token := k\<rparr>)) (scan_number num s)
      else if ch = CHR ''/'' \<and> char_at s 1 = CHR ''/'' then Some (scan_line_comment_token s)
      else if ch = CHR ''/'' \<and> char_at s 1 = CHR ''*'' then Some (scan_block_comment_token s)
      else if ch = CHR ''0'' then map_option (Pair False) (scan_zero num s)
      else if ch \<in> set ''123456789'' then
        map_option (\<lambda>(k, s). (False, s\<lparr>sc_token := k\<rparr>)) (scan_number num s)
      else if ch \<in> set ''<=>|'' \<and> is_conflict_marker_trivia (sc_text s) (sc_pos s) then
        map_option (\<lambda>(_, s). (sc_skip_trivia s, s)) (scan_conflict_marker_as_token s)
      else if ch = CHR 0x5C then map_option (Pair False) (scan_backslash s)
      else if ch = CHR ''#'' then scan_hash s
      else
        case punctuation s of
          Some (n, k) \<Rightarrow> Some (False, (advance n s)\<lparr>sc_token := k\<rparr>)
        | None \<Rightarrow>
            if ch = CHR 0x00 \<and> sc_pos s \<ge> sc_end s then Some (False, s\<lparr>sc_token := EndOfFile\<rparr>)
            else scan_other s)"

partial_function (option) scan_loop :: "(string \<Rightarrow> string) \<Rightarrow> scanner \<Rightarrow> scanner option" where
  "scan_loop num s =
     Option.bind (scan_step num s) (\<lambda>(continue, s). if continue then scan_loop num s else Some s)"

declare scan_loop.simps [code]

text \<open>The token that \<open>scan\<close> returns is the one of the state.\<close>

definition scan :: "(string \<Rightarrow> string) \<Rightarrow> scanner \<Rightarrow> scanner option" where
  "scan num s = scan_loop num (s\<lparr>sc_full_start_pos := sc_pos s, sc_token_flags := 0\<rparr>)"

definition get_scanner_for_source_file ::
    "(string \<Rightarrow> string) \<Rightarrow> string \<Rightarrow> language_variant \<Rightarrow> nat \<Rightarrow> scanner option" where
  "get_scanner_for_source_file num text variant pos =
     scan num ((new_scanner_on text)\<lparr>sc_language_variant := variant, sc_pos := pos\<rparr>)"

definition scan_token_at_position :: "(string \<Rightarrow> string) \<Rightarrow> string \<Rightarrow> language_variant \<Rightarrow> nat \<Rightarrow> kind option" where
  "scan_token_at_position num text variant pos = map_option sc_token (get_scanner_for_source_file num text variant pos)"

definition get_range_of_token_at_position ::
    "(string \<Rightarrow> string) \<Rightarrow> string \<Rightarrow> language_variant \<Rightarrow> nat \<Rightarrow> text_range option" where
  "get_range_of_token_at_position num text variant pos =
     map_option (\<lambda>s. new_text_range (wrap32 (int (sc_token_start s))) (wrap32 (int (sc_pos s))))
       (get_scanner_for_source_file num text variant pos)"

section \<open>Scanning again\<close>

definition rescan_less_than_token :: "scanner \<Rightarrow> scanner" where
  "rescan_less_than_token s =
     (if sc_token s = LessThanLessThanToken then s\<lparr>sc_pos := sc_token_start s + 1, sc_token := LessThanToken\<rparr> else s)"

definition text_byte_is :: "string \<Rightarrow> nat \<Rightarrow> char \<Rightarrow> bool" where
  "text_byte_is text i c \<longleftrightarrow> i < length text \<and> text ! i = c"

definition rescan_greater_than_token :: "scanner \<Rightarrow> scanner" where
  "rescan_greater_than_token s =
     (if sc_token s = GreaterThanToken then
        let p = sc_token_start s + 1; text = sc_text s in
        if text_byte_is text p CHR ''>'' then
          if text_byte_is text (p + 1) CHR ''>'' then
            if text_byte_is text (p + 2) CHR ''=''
            then s\<lparr>sc_pos := p + 3, sc_token := GreaterThanGreaterThanGreaterThanEqualsToken\<rparr>
            else s\<lparr>sc_pos := p + 2, sc_token := GreaterThanGreaterThanGreaterThanToken\<rparr>
          else if text_byte_is text (p + 1) CHR ''='' then s\<lparr>sc_pos := p + 2, sc_token := GreaterThanGreaterThanEqualsToken\<rparr>
          else s\<lparr>sc_pos := p + 1, sc_token := GreaterThanGreaterThanToken\<rparr>
        else if text_byte_is text p CHR ''='' then s\<lparr>sc_pos := p + 1, sc_token := GreaterThanEqualsToken\<rparr>
        else s\<lparr>sc_pos := p\<rparr>
      else s)"

definition rescan_template_token :: "bool \<Rightarrow> scanner \<Rightarrow> scanner option" where
  "rescan_template_token is_tagged_template s =
     map_option (\<lambda>(k, s). s\<lparr>sc_token := k\<rparr>)
       (scan_template_and_set_token_value (\<not> is_tagged_template) (s\<lparr>sc_pos := sc_token_start s\<rparr>))"

definition rescan_asterisk_equals_token :: "scanner \<Rightarrow> scanner option" where
  "rescan_asterisk_equals_token s =
     (if sc_token s \<noteq> AsteriskEqualsToken then None
      else Some (s\<lparr>sc_pos := sc_token_start s + 1, sc_token := EqualsToken\<rparr>))"

definition rescan_hash_token :: "scanner \<Rightarrow> scanner" where
  "rescan_hash_token s =
     (if sc_token s = PrivateIdentifier then s\<lparr>sc_pos := sc_token_start s + 1, sc_token := HashToken\<rparr> else s)"

definition rescan_question_token :: "scanner \<Rightarrow> scanner option" where
  "rescan_question_token s =
     (if sc_token s \<noteq> QuestionQuestionToken then None
      else Some (s\<lparr>sc_pos := sc_token_start s + 1, sc_token := QuestionToken\<rparr>))"

section \<open>JSX\<close>

text \<open>The loop over JSX text: whether it ended at a conflict marker, where the last character that is not white
  space was (-1 after a leading line break), and the state.\<close>

partial_function (option) jsx_text_loop :: "bool \<Rightarrow> int \<Rightarrow> scanner \<Rightarrow> (bool \<times> int \<times> scanner) option" where
  "jsx_text_loop allow_multiline first_non_whitespace s =
     (let (ch, sz, s) = char_and_size s in
      if sz = 0 \<or> ch = byte CHR ''{'' then Some (False, first_non_whitespace, s)
      else if ch = byte CHR ''<'' then
        if is_conflict_marker_trivia (sc_text s) (sc_pos s) then
          let s = error_at ''Merge_conflict_marker_encountered'' (sc_pos s) 7 [] s in
          map_option (\<lambda>pos. (True, first_non_whitespace, s\<lparr>sc_pos := pos, sc_token := ConflictMarkerTrivia\<rparr>))
            (scan_conflict_marker_trivia (sc_text s) (sc_pos s))
        else Some (False, first_non_whitespace, s)
      else
        let s = (if ch = byte CHR ''>'' then error_at ''Unexpected_token_Did_you_mean_or_gt'' (sc_pos s) 1 [] s
                 else if ch = byte CHR ''}'' then error_at ''Unexpected_token_Did_you_mean_or_rbrace'' (sc_pos s) 1 [] s
                 else s) in
        if is_line_break ch \<and> first_non_whitespace = 0 then jsx_text_loop allow_multiline (-1) (advance sz s)
        else if \<not> allow_multiline \<and> is_line_break ch \<and> first_non_whitespace > 0 then
          Some (False, first_non_whitespace, s)
        else if \<not> is_white_space_like ch then jsx_text_loop allow_multiline (int (sc_pos s)) (advance sz s)
        else jsx_text_loop allow_multiline first_non_whitespace (advance sz s))"

declare jsx_text_loop.simps [code]

definition scan_jsx_token_ex :: "bool \<Rightarrow> scanner \<Rightarrow> scanner option" where
  "scan_jsx_token_ex allow_multiline s =
     (let s = s\<lparr>sc_full_start_pos := sc_pos s, sc_token_start := sc_pos s\<rparr>;
          ch = char_here s in
      if ch = CHR 0x00 then Some (s\<lparr>sc_token := EndOfFile\<rparr>)
      else if ch = CHR ''<'' then
        (if char_at s 1 = CHR ''/'' then Some ((advance 2 s)\<lparr>sc_token := LessThanSlashToken\<rparr>)
         else Some ((advance 1 s)\<lparr>sc_token := LessThanToken\<rparr>))
      else if ch = CHR ''{'' then Some ((advance 1 s)\<lparr>sc_token := OpenBraceToken\<rparr>)
      else do {
        (conflict, first_non_whitespace, s) \<leftarrow> jsx_text_loop allow_multiline 0 s;
        Some (if conflict then s
              else (set_token_value_from_range (sc_full_start_pos s) (sc_pos s) s)
                     \<lparr>sc_token := (if first_non_whitespace = -1 then JsxTextAllWhiteSpaces else JsxText)\<rparr>)
      })"

definition scan_jsx_token :: "scanner \<Rightarrow> scanner option" where
  "scan_jsx_token s = scan_jsx_token_ex True s"

definition rescan_jsx_token :: "bool \<Rightarrow> scanner \<Rightarrow> scanner option" where
  "rescan_jsx_token allow_multiline s =
     scan_jsx_token_ex allow_multiline (s\<lparr>sc_pos := sc_full_start_pos s, sc_token_start := sc_full_start_pos s\<rparr>)"

partial_function (option) jsx_identifier_loop :: "scanner \<Rightarrow> scanner option" where
  "jsx_identifier_loop s =
     (let ch = char_here s in
      if ch = CHR 0x00 then Some s
      else if ch = CHR ''-'' then
        Option.bind (push_token_value (byte CHR ''-'') s) (\<lambda>s. jsx_identifier_loop (advance 1 s))
      else
        let old_pos = sc_pos s in
        Option.bind (scan_identifier_parts s) (\<lambda>(parts, s).
        Option.bind (push_str_token_value parts s) (\<lambda>s.
          if sc_pos s = old_pos then Some s else jsx_identifier_loop s)))"

declare jsx_identifier_loop.simps [code]

definition scan_jsx_identifier :: "scanner \<Rightarrow> scanner option" where
  "scan_jsx_identifier s =
     (if token_is_identifier_or_keyword (sc_token s)
      then Option.bind (jsx_identifier_loop s) set_identifier_token
      else Some s)"

definition scan_jsx_attribute_value :: "(string \<Rightarrow> string) \<Rightarrow> scanner \<Rightarrow> scanner option" where
  "scan_jsx_attribute_value num s =
     (let s = skip_chars is_white_space_like (s\<lparr>sc_full_start_pos := sc_pos s\<rparr>);
          s = s\<lparr>sc_token_start := sc_pos s\<rparr> in
      if char_here s = CHR 0x22 \<or> char_here s = CHR 0x27 then
        map_option (\<lambda>s. s\<lparr>sc_token := StringLiteral\<rparr>) (scan_string_and_set_token_value True s)
      else scan num s)"

definition rescan_jsx_attribute_value :: "(string \<Rightarrow> string) \<Rightarrow> scanner \<Rightarrow> scanner option" where
  "rescan_jsx_attribute_value num s =
     scan_jsx_attribute_value num (s\<lparr>sc_pos := sc_full_start_pos s, sc_token_start := sc_full_start_pos s\<rparr>)"

end
