(* ===== verification/ScannerProofs.thy ===== *)
theory ScannerProofs
  imports Scanner
begin

text \<open>
  What the scanner does on the texts that can occur: from a character boundary every operation returns,
  the position moves forward from boundary to boundary, and what is not its own part of the state is
  kept. The lemmas go through the operations in the order in which they call each other.
\<close>

section \<open>Positions and frames\<close>

text \<open>The part of the state that the operations inside a token do not change.\<close>

definition core_of :: "scanner \<Rightarrow> string \<times> nat \<times> nat \<times> nat \<times> bool \<times> language_variant" where
  "core_of s = (sc_text s, sc_end s, sc_full_start_pos s, sc_token_start s, sc_skip_trivia s, sc_language_variant s)"

text \<open>Only comments add to the list of directives.\<close>

definition frame :: "scanner \<Rightarrow> (string \<times> nat \<times> nat \<times> nat \<times> bool \<times> language_variant) \<times> comment_directive list" where
  "frame s = (core_of s, sc_comment_directives s)"

definition ok :: "scanner \<Rightarrow> bool" where
  "ok s \<longleftrightarrow> valid_text (sc_text s) \<and> sc_end s = length (sc_text s) \<and> is_char_boundary (sc_text s) (sc_pos s)"

definition after :: "scanner \<Rightarrow> scanner \<Rightarrow> bool" where
  "after s s' \<longleftrightarrow> core_of s' = core_of s \<and> sc_pos s \<le> sc_pos s' \<and> is_char_boundary (sc_text s) (sc_pos s')
     \<and> prefix (sc_comment_directives s) (sc_comment_directives s')"

named_theorems frame_simps

lemma frame_updates [simp, frame_simps]:
  "frame (add_flags f s) = frame s" "frame (advance n s) = frame s" "frame (error_at m a l args s) = frame s"
  "frame (clear_token_value s) = frame s" "frame (set_token_value v s) = frame s"
  "frame (set_token_value_from_range a b s) = frame s" "frame (separator_error p s) = frame s"
  "frame (s\<lparr>sc_token := k\<rparr>) = frame s" "frame (s\<lparr>sc_token_value := tv\<rparr>) = frame s"
  "frame (s\<lparr>sc_pos := q\<rparr>) = frame s" "frame (s\<lparr>sc_contains_non_ascii := na\<rparr>) = frame s"
  "frame (unterminated_string s) = frame s"
  by (simp_all add: frame_def core_of_def add_flags_def advance_def error_at_def clear_token_value_def set_token_value_def
    set_token_value_from_range_def separator_error_def unterminated_string_def)

lemma pos_updates [simp, frame_simps]:
  "sc_pos (add_flags f s) = sc_pos s" "sc_pos (advance n s) = sc_pos s + n" "sc_pos (error_at m a l args s) = sc_pos s"
  "sc_pos (clear_token_value s) = sc_pos s" "sc_pos (set_token_value v s) = sc_pos s"
  "sc_pos (set_token_value_from_range a b s) = sc_pos s" "sc_pos (separator_error p s) = sc_pos s"
  "sc_pos (unterminated_string s) = sc_pos s"
  by (simp_all add: add_flags_def advance_def error_at_def clear_token_value_def set_token_value_def
    set_token_value_from_range_def separator_error_def unterminated_string_def)

lemma directives_updates [simp, frame_simps]:
  "sc_comment_directives (add_flags f s) = sc_comment_directives s"
  "sc_comment_directives (advance n s) = sc_comment_directives s"
  "sc_comment_directives (error_at m a l args s) = sc_comment_directives s"
  "sc_comment_directives (clear_token_value s) = sc_comment_directives s"
  "sc_comment_directives (set_token_value v s) = sc_comment_directives s"
  "sc_comment_directives (set_token_value_from_range a b s) = sc_comment_directives s"
  "sc_comment_directives (separator_error p s) = sc_comment_directives s"
  "sc_comment_directives (unterminated_string s) = sc_comment_directives s"
  by (simp_all add: add_flags_def advance_def error_at_def clear_token_value_def set_token_value_def
    set_token_value_from_range_def separator_error_def unterminated_string_def)

lemma text_updates [simp, frame_simps]:
  "sc_text (add_flags f s) = sc_text s" "sc_text (advance n s) = sc_text s" "sc_text (error_at m a l args s) = sc_text s"
  "sc_text (clear_token_value s) = sc_text s" "sc_text (set_token_value v s) = sc_text s"
  "sc_text (set_token_value_from_range a b s) = sc_text s" "sc_text (separator_error p s) = sc_text s"
  "sc_text (unterminated_string s) = sc_text s"
  "sc_end (add_flags f s) = sc_end s" "sc_end (advance n s) = sc_end s" "sc_end (error_at m a l args s) = sc_end s"
  "sc_end (clear_token_value s) = sc_end s" "sc_end (set_token_value v s) = sc_end s"
  "sc_end (set_token_value_from_range a b s) = sc_end s" "sc_end (separator_error p s) = sc_end s"
  "sc_end (unterminated_string s) = sc_end s"
  by (simp_all add: add_flags_def advance_def error_at_def clear_token_value_def set_token_value_def
    set_token_value_from_range_def separator_error_def unterminated_string_def)

lemma frame_coreD: "frame s' = frame s \<Longrightarrow> core_of s' = core_of s \<and> sc_comment_directives s' = sc_comment_directives s"
  by (simp add: frame_def)

lemma core_updates [simp, frame_simps]:
  "core_of (add_flags f s) = core_of s" "core_of (advance n s) = core_of s" "core_of (error_at m a l args s) = core_of s"
  "core_of (clear_token_value s) = core_of s" "core_of (set_token_value v s) = core_of s"
  "core_of (set_token_value_from_range a b s) = core_of s" "core_of (separator_error p s) = core_of s"
  "core_of (s\<lparr>sc_token := k\<rparr>) = core_of s" "core_of (s\<lparr>sc_token_value := tv\<rparr>) = core_of s"
  "core_of (s\<lparr>sc_pos := q\<rparr>) = core_of s" "core_of (s\<lparr>sc_contains_non_ascii := na\<rparr>) = core_of s"
  "core_of (unterminated_string s) = core_of s" "core_of (s\<lparr>sc_comment_directives := ds\<rparr>) = core_of s"
  by (simp_all add: core_of_def add_flags_def advance_def error_at_def clear_token_value_def set_token_value_def
    set_token_value_from_range_def separator_error_def unterminated_string_def)

lemma coreD: "core_of s' = core_of s \<Longrightarrow> sc_text s' = sc_text s \<and> sc_end s' = sc_end s \<and> sc_skip_trivia s' = sc_skip_trivia s
    \<and> sc_token_start s' = sc_token_start s \<and> sc_full_start_pos s' = sc_full_start_pos s
    \<and> sc_language_variant s' = sc_language_variant s"
  by (simp add: core_of_def)

lemma frameD: "frame s' = frame s \<Longrightarrow> sc_text s' = sc_text s \<and> sc_end s' = sc_end s \<and> sc_skip_trivia s' = sc_skip_trivia s
    \<and> sc_token_start s' = sc_token_start s \<and> sc_full_start_pos s' = sc_full_start_pos s
    \<and> sc_language_variant s' = sc_language_variant s"
  by (simp add: frame_def core_of_def)

lemma after_refl: "ok s \<Longrightarrow> after s s"
  by (simp add: ok_def after_def)

lemma after_trans: "after s s' \<Longrightarrow> after s' s'' \<Longrightarrow> after s s''"
  by (auto simp: after_def core_of_def intro: prefix_order.trans)

lemma after_ok: "after s s' \<Longrightarrow> ok s \<Longrightarrow> ok s'"
  by (auto simp: after_def ok_def core_of_def)

lemma after_text: "after s s' \<Longrightarrow> sc_text s' = sc_text s" and after_end: "after s s' \<Longrightarrow> sc_end s' = sc_end s"
  and after_pos: "after s s' \<Longrightarrow> sc_pos s \<le> sc_pos s'" and after_core: "after s s' \<Longrightarrow> core_of s' = core_of s"
  and after_boundary: "after s s' \<Longrightarrow> is_char_boundary (sc_text s) (sc_pos s')"
  by (auto simp: after_def core_of_def)

lemma ok_pos_le: "ok s \<Longrightarrow> sc_pos s \<le> sc_end s"
  using boundary_le by (auto simp: ok_def)

text \<open>A state with the same frame and position is as good.\<close>

lemma ok_same: "frame s' = frame s \<Longrightarrow> sc_pos s' = sc_pos s \<Longrightarrow> ok s' = ok s"
  by (simp add: ok_def frame_def core_of_def)

lemma after_same:
  "after s s1 \<Longrightarrow> frame s' = frame s1 \<Longrightarrow> sc_pos s' = sc_pos s1
   \<Longrightarrow> after s s'"
  by (auto simp: after_def frame_def)

lemma char_here_core: "core_of s' = core_of s \<Longrightarrow> sc_pos s' = sc_pos s \<Longrightarrow> char_here s' = char_here s \<and> char_at s' n = char_at s n"
  by (simp add: char_here_def char_at_def core_of_def)

lemma char_here_same: "frame s' = frame s \<Longrightarrow> sc_pos s' = sc_pos s \<Longrightarrow> char_here s' = char_here s \<and> char_at s' n = char_at s n"
  by (simp add: char_here_def char_at_def frame_def core_of_def)

lemma ok_updates [simp]:
  "ok (add_flags f s) = ok s" "ok (error_at m a l args s) = ok s" "ok (set_token_value v s) = ok s"
  "ok (set_token_value_from_range a b s) = ok s" "ok (clear_token_value s) = ok s" "ok (separator_error p s) = ok s"
  "ok (s\<lparr>sc_token := k\<rparr>) = ok s" "ok (s\<lparr>sc_token_value := tv\<rparr>) = ok s" "ok (unterminated_string s) = ok s"
  "ok (s\<lparr>sc_contains_non_ascii := na\<rparr>) = ok s"
  by (rule ok_same; simp)+

lemma char_here_updates [simp]:
  "char_here (add_flags f s) = char_here s" "char_here (error_at m a l args s) = char_here s"
  "char_here (set_token_value v s) = char_here s" "char_here (set_token_value_from_range a b s) = char_here s"
  "char_here (separator_error p s) = char_here s" "char_here (clear_token_value s) = char_here s"
  "char_here (s\<lparr>sc_token_value := tv\<rparr>) = char_here s" "char_here (s\<lparr>sc_token := k\<rparr>) = char_here s"
  "char_here (s\<lparr>sc_contains_non_ascii := na\<rparr>) = char_here s"
  by (rule char_here_same [THEN conjunct1]; simp)+

lemma after_updates [simp]:
  "after s (add_flags f s') = after s s'" "after s (error_at m a l args s') = after s s'"
  "after s (set_token_value v s') = after s s'" "after s (set_token_value_from_range a b s') = after s s'"
  "after s (separator_error p s') = after s s'" "after s (s'\<lparr>sc_token := k\<rparr>) = after s s'"
  "after s (s'\<lparr>sc_token_value := tv\<rparr>) = after s s'" "after s (unterminated_string s') = after s s'"
  "after s (clear_token_value s') = after s s'" "after s (s'\<lparr>sc_contains_non_ascii := na\<rparr>) = after s s'"
  by (simp_all add: after_def)

lemma after_from_updates [simp]:
  "after (add_flags f s) s' = after s s'" "after (error_at m a l args s) s' = after s s'"
  "after (set_token_value v s) s' = after s s'" "after (set_token_value_from_range a b s) s' = after s s'"
  "after (separator_error p s) s' = after s s'" "after (clear_token_value s) s' = after s s'"
  "after (s\<lparr>sc_token_value := tv\<rparr>) s' = after s s'" "after (s\<lparr>sc_token := k\<rparr>) s' = after s s'"
  "after (s\<lparr>sc_contains_non_ascii := na\<rparr>) s' = after s s'"
  by (auto simp: after_def)

section \<open>Single characters\<close>

lemma char_here_at: "char_here s = char_at s 0"
  by (simp add: char_here_def char_at_def)

lemma char_at_advance: "char_here (advance n s) = char_at s n" "char_at (advance n s) m = char_at s (n + m)"
  by (simp_all add: char_here_def char_at_def advance_def add.assoc)

text \<open>A character other than NUL is in the text; after an ASCII one there is a boundary.\<close>

lemma char_at_in_text:
  assumes "ok s" "char_at s n \<noteq> CHR 0x00"
  shows "sc_pos s + n < length (sc_text s)" "sc_text s ! (sc_pos s + n) = char_at s n"
  using assms by (auto simp: ok_def char_at_def split: if_splits)

lemma boundary_after_ascii:
  assumes "ok s" "char_at s n \<noteq> CHR 0x00" "byte (char_at s n) < 0x80"
  shows "is_char_boundary (sc_text s) (sc_pos s + n + 1)"
  using char_at_in_text [OF assms(1,2)] assms(1,3) ascii_step [of "sc_text s" "sc_pos s + n"] by (simp add: ok_def)

lemma advance_ascii:
  assumes "ok s" "char_at s n \<noteq> CHR 0x00" "byte (char_at s n) < 0x80"
  shows "after s (advance (n + 1) s)" "ok (advance (n + 1) s)"
proof -
  show "after s (advance (n + 1) s)" using boundary_after_ascii [OF assms] by (simp add: after_def add.assoc)
  then show "ok (advance (n + 1) s)" using assms(1) by (rule after_ok)
qed

lemma advance_here:
  assumes "ok s" "char_here s \<noteq> CHR 0x00" "byte (char_here s) < 0x80"
  shows "after s (advance 1 s)" "ok (advance 1 s)" "sc_pos s < sc_end s"
  using advance_ascii [OF assms(1), of 0] assms char_here_before_end [of s] by (auto simp: char_here_at)

lemma char_and_size_ok:
  assumes "ok s" "char_and_size s = (ch, sz, s')"
  shows "frame s' = frame s" "sc_pos s' = sc_pos s" "sz = 0 \<longleftrightarrow> \<not> sc_pos s < sc_end s" "sz = 0 \<Longrightarrow> ch = 0"
    "is_char_boundary (sc_text s) (sc_pos s + sz)"
    "sc_pos s < sc_end s \<Longrightarrow> next_char (drop (sc_pos s) (sc_text s)) = Some ch \<and> sz = len_utf8 ch \<and> is_scalar ch"
    "sc_pos s < sc_end s \<Longrightarrow> byte (char_here s) < 0x80 \<longleftrightarrow> ch < 0x80"
    "sc_pos s < sc_end s \<Longrightarrow> ch < 0x80 \<Longrightarrow> byte (char_here s) = ch \<and> sz = 1"
proof -
  have st: "s' = s \<or> s' = s\<lparr>sc_contains_non_ascii := True\<rparr>" using char_and_size_state [OF assms(2)] .
  then show "frame s' = frame s" "sc_pos s' = sc_pos s" by auto
  have b: "valid_text (sc_text s)" "is_char_boundary (sc_text s) (sc_pos s)" "sc_end s = length (sc_text s)"
    using assms(1) by (auto simp: ok_def)
  have *: "sz = 0 \<and> ch = 0" if "\<not> sc_pos s < sc_end s" using assms(2) that by (simp add: char_and_size_def)
  have **: "next_char (drop (sc_pos s) (sc_text s)) = Some ch \<and> sz = len_utf8 ch \<and> is_scalar ch
      \<and> is_char_boundary (sc_text s) (sc_pos s + sz) \<and> (byte (char_here s) < 0x80 \<longleftrightarrow> ch < 0x80)
      \<and> (ch < 0x80 \<longrightarrow> byte (char_here s) = ch)" if lt: "sc_pos s < sc_end s"
  proof -
    obtain c where c: "next_char (drop (sc_pos s) (sc_text s)) = Some c" "is_scalar c"
      "is_char_boundary (sc_text s) (sc_pos s + len_utf8 c)"
      "byte (sc_text s ! sc_pos s) < 0x80 \<longleftrightarrow> c < 0x80" "c < 0x80 \<Longrightarrow> byte (sc_text s ! sc_pos s) = c"
      using char_at_boundary [OF b(1,2)] lt b(3) by metis
    have "ch = c \<and> sz = len_utf8 c"
      using assms(2) lt b(2) c by (auto simp: char_and_size_def Let_def len_utf8_def split: if_splits)
    then show ?thesis using c lt by (simp add: char_here_def)
  qed
  show "sz = 0 \<longleftrightarrow> \<not> sc_pos s < sc_end s" using * ** len_utf8_pos [of ch] by (cases "sc_pos s < sc_end s") auto
  show "sz = 0 \<Longrightarrow> ch = 0" using * ** len_utf8_pos [of ch] by (cases "sc_pos s < sc_end s") auto
  show "is_char_boundary (sc_text s) (sc_pos s + sz)" using * ** b(2) by (cases "sc_pos s < sc_end s") auto
  show "sc_pos s < sc_end s \<Longrightarrow> next_char (drop (sc_pos s) (sc_text s)) = Some ch \<and> sz = len_utf8 ch \<and> is_scalar ch"
    using ** by blast
  show "sc_pos s < sc_end s \<Longrightarrow> byte (char_here s) < 0x80 \<longleftrightarrow> ch < 0x80" using ** by blast
  show "sc_pos s < sc_end s \<Longrightarrow> ch < 0x80 \<Longrightarrow> byte (char_here s) = ch \<and> sz = 1" using ** by (auto simp: len_utf8_def)
qed

lemma char_and_size_after:
  assumes "ok s" "char_and_size s = (ch, sz, s')"
  shows "after s s'" "ok s'" "after s (advance sz s')" "ok (advance sz s')" "sz \<noteq> 0 \<Longrightarrow> sc_pos s < sc_pos (advance sz s')"
proof -
  note cs = char_and_size_ok [OF assms]
  show "after s s'" using after_same [OF after_refl [OF assms(1)]] cs(1,2) .
  then show "ok s'" using assms(1) by (rule after_ok)
  show "after s (advance sz s')" using cs(2,5) frame_coreD [OF cs(1)] by (simp add: after_def)
  then show "ok (advance sz s')" using assms(1) by (rule after_ok)
  show "sz \<noteq> 0 \<Longrightarrow> sc_pos s < sc_pos (advance sz s')" using cs(2) by simp
qed

section \<open>Loops\<close>

lemma skip_chars_after: "ok s \<Longrightarrow> after s (skip_chars p s)"
proof (induction p s rule: skip_chars.induct)
  case (1 p s)
  obtain ch sz s' where c: "char_and_size s = (ch, sz, s')" by (metis prod_cases3)
  note cs = char_and_size_after [OF 1(2) c]
  show ?case
  proof (cases "sz = 0 \<or> \<not> p ch")
    case True
    then show ?thesis using cs(1) c by (simp add: skip_chars.simps [of p s])
  next
    case False
    then have "after (advance sz s') (skip_chars p (advance sz s'))" using 1(1) c cs(4) by simp
    then show ?thesis using after_trans [OF cs(3)] False c by (simp add: skip_chars.simps [of p s])
  qed
qed

lemma block_comment_body_after: "ok s \<Longrightarrow> block_comment_body l s = (closed, l', s') \<Longrightarrow> after s s'"
proof (induction l s rule: block_comment_body.induct)
  case (1 l s)
  obtain ch sz s1 where c: "char_and_size s = (ch, sz, s1)" by (metis prod_cases3)
  note cs = char_and_size_after [OF 1(3) c]
  consider "sz = 0" | (close) "sz \<noteq> 0" "ch = byte CHR ''*'' \<and> char_at s1 1 = CHR ''/''"
    | (go) "sz \<noteq> 0" "\<not> (ch = byte CHR ''*'' \<and> char_at s1 1 = CHR ''/'')" by blast
  then show ?case
  proof cases
    case 1
    then show ?thesis using cs(1) c \<open>block_comment_body l s = _\<close> by (simp add: block_comment_body.simps [of l s])
  next
    case close
    have "after s1 (advance (1 + 1) s1)" by (rule advance_ascii [OF cs(2)]) (use close in \<open>simp_all add: byte_def\<close>)
    then show ?thesis using after_trans [OF cs(1)] c close 1(4)
      by (simp add: block_comment_body.simps [of l s] numeral_2_eq_2)
  next
    case go
    have "after (advance sz s1) s'"
    proof (cases "is_line_break ch")
      case True
      then show ?thesis using 1(1) [OF c [symmetric] refl refl go refl True] 1(4) cs(4) c go
        by (auto simp: block_comment_body.simps [of l s] Let_def split: if_splits)
    next
      case False
      then show ?thesis using 1(2) [OF c [symmetric] refl refl go refl False] 1(4) cs(4) c go
        by (auto simp: block_comment_body.simps [of l s] Let_def split: if_splits)
    qed
    then show ?thesis by (rule after_trans [OF cs(3)])
  qed
qed

section \<open>Digits\<close>

text \<open>All bytes from one position to another satisfy a predicate.\<close>

definition bytes_between :: "(char \<Rightarrow> bool) \<Rightarrow> string \<Rightarrow> nat \<Rightarrow> nat \<Rightarrow> bool" where
  "bytes_between P t a b \<longleftrightarrow> (\<forall>i. a \<le> i \<longrightarrow> i < b \<longrightarrow> P (t ! i))"

lemma bytes_between_empty [simp]: "bytes_between P t a a"
  by (simp add: bytes_between_def)

lemma bytes_between_step:
  "P (t ! a) \<Longrightarrow> bytes_between P t (Suc a) b \<Longrightarrow> bytes_between P t a b"
  unfolding bytes_between_def by (metis Suc_leI le_neq_implies_less)

lemma bytes_between_snoc: "bytes_between P t a b \<Longrightarrow> P (t ! b) \<Longrightarrow> bytes_between P t a (Suc b)"
  unfolding bytes_between_def by (auto simp: less_Suc_eq)

lemma bytes_between_trans: "bytes_between P t a b \<Longrightarrow> bytes_between P t b c \<Longrightarrow> bytes_between P t a c"
  unfolding bytes_between_def by (meson not_le)

lemma slice_between:
  assumes "is_char_boundary t a" "is_char_boundary t b" "a \<le> b" "bytes_between P t a b"
  obtains run where "str_slice t a b = Some run" "list_all P run"
proof
  show "str_slice t a b = Some (take (b - a) (drop a t))" using assms(1-3) by (rule slice_boundaries)
  show "list_all P (take (b - a) (drop a t))"
    using assms(4) by (auto simp: list_all_length bytes_between_def)
qed

lemma char_here_text: "ok s \<Longrightarrow> char_here s \<noteq> CHR 0x00 \<Longrightarrow> sc_text s ! sc_pos s = char_here s"
  using char_at_in_text [of s 0] by (simp add: char_here_at)

lemma hexdigit_ascii: "is_ascii_hexdigit c \<Longrightarrow> c \<noteq> CHR 0x00 \<and> byte c < 0x80"
  by (auto simp: is_ascii_hexdigit_def to_digit_def byte_def split: if_splits)

lemma digit_ascii: "is_ascii_digit c \<Longrightarrow> c \<noteq> CHR 0x00 \<and> byte c < 0x80"
  by (auto simp: is_ascii_digit_def byte_def)

lemma octal_digit_ascii: "is_octal_digit c \<Longrightarrow> c \<noteq> CHR 0x00 \<and> byte c < 0x80"
  by (auto simp: is_octal_digit_def to_digit_def byte_def split: if_splits)

abbreviation "hex_or_sep c \<equiv> is_ascii_hexdigit c \<or> c = CHR ''_''"
abbreviation "digit_or_sep c \<equiv> is_ascii_digit c \<or> c = CHR ''_''"

text \<open>One ASCII character is taken, and the rest is known.\<close>

lemma consume_ascii:
  assumes "ok s" "P (char_here s)" "frame s1 = frame s" "sc_pos s1 = sc_pos s"
    and asc: "\<And>c. P c \<Longrightarrow> c \<noteq> CHR 0x00 \<and> byte c < 0x80"
    and ih: "ok (advance 1 s1) \<Longrightarrow> after (advance 1 s1) s'
        \<and> bytes_between P (sc_text (advance 1 s1)) (sc_pos (advance 1 s1)) (sc_pos s')"
  shows "after s s' \<and> bytes_between P (sc_text s) (sc_pos s) (sc_pos s') \<and> sc_pos s < sc_pos s'"
proof -
  note here = conjunct1 [OF asc [OF assms(2)]] conjunct2 [OF asc [OF assms(2)]]
  have adv: "after s (advance 1 s1)"
    using after_same [OF advance_here(1) [OF assms(1) here]] assms(3,4) by simp
  have rest: "after (advance 1 s1) s'" "bytes_between P (sc_text s) (Suc (sc_pos s)) (sc_pos s')"
    using ih [OF after_ok [OF adv assms(1)]] assms(4) frameD [OF assms(3)] by simp_all
  then show ?thesis
    using after_trans [OF adv rest(1)] bytes_between_step [of P, OF _ rest(2)] assms(2,4) char_here_text [OF assms(1) here(1)]
      after_pos [OF rest(1)] by simp
qed

lemma hex_or_sep_ascii: "hex_or_sep c \<Longrightarrow> c \<noteq> CHR 0x00 \<and> byte c < 0x80"
  using hexdigit_ascii by (auto simp: byte_def)

lemma digit_or_sep_ascii: "digit_or_sep c \<Longrightarrow> c \<noteq> CHR 0x00 \<and> byte c < 0x80"
  using digit_ascii by (auto simp: byte_def)

lemma hex_digits_loop_after:
  "ok s \<Longrightarrow> hex_digits_loop mc am cs n a p s = (n', p', s') \<Longrightarrow>
     after s s' \<and> bytes_between hex_or_sep (sc_text s) (sc_pos s) (sc_pos s')"
proof (induction mc am cs n a p s rule: hex_digits_loop.induct)
  case (1 mc am cs n a p s)
  note unf = hex_digits_loop.simps [of mc am cs n a p s]
  note go = consume_ascii [where P = hex_or_sep, OF 1(4)]
  show ?case
  proof (cases "n < mc \<or> am")
    case False
    then show ?thesis using 1(5) [unfolded unf] after_refl [OF 1(4)] by auto
  next
    case True
    note more = this
    consider (digit) "is_ascii_hexdigit (char_here s)"
      | (sep) "\<not> is_ascii_hexdigit (char_here s)" "cs \<and> char_here s = CHR ''_''"
      | (stop) "\<not> is_ascii_hexdigit (char_here s)" "\<not> (cs \<and> char_here s = CHR ''_'')" by blast
    then show ?thesis
    proof cases
      case digit
      then show ?thesis using go [of s] hex_or_sep_ascii 1(1) [OF more refl digit] 1(5) [unfolded unf] more by simp
    next
      case sep
      show ?thesis
      proof (cases a)
        case True
        then show ?thesis using hex_or_sep_ascii go [of "add_flags CONTAINS_SEPARATOR s"] 1(2) [OF more refl sep refl True] 1(5) [unfolded unf] more sep
          by (simp add: Let_def)
      next
        case False
        then show ?thesis
          using hex_or_sep_ascii go [of "separator_error p (add_flags CONTAINS_SEPARATOR s)"] 1(3) [OF more refl sep refl False] 1(5) [unfolded unf] more sep
          by (simp add: Let_def)
      qed
    next
      case stop
      then show ?thesis using 1(5) [unfolded unf] after_refl [OF 1(4)] more by (auto simp: Let_def)
    qed
  qed
qed

lemma lowercase_hex: "hex_or_sep c \<Longrightarrow> list_all hex_or_sep (to_ascii_lowercase [c])"
  by (auto simp: to_ascii_lowercase_def is_ascii_hexdigit_def to_digit_def byte_def is_ascii_uppercase_def Let_def
    split: if_splits)

lemma scan_hex_digits_ok:
  assumes "ok s"
  obtains ds s' where "scan_hex_digits mc am cs s = Some (ds, s')" "after s s'" "list_all hex_or_sep ds"
proof -
  obtain n p s1 where l: "hex_digits_loop mc am cs 0 False False s = (n, p, s1)" by (metis prod_cases3)
  note af = hex_digits_loop_after [OF assms l]
  define s2 where "s2 = (if p then error_at ''Numeric_separators_are_not_allowed_here'' (sc_pos s1 - 1) 1 [] s1 else s1)"
  have s2: "after s s2" "sc_pos s2 = sc_pos s1" "sc_text s2 = sc_text s"
    using af after_text [of s s1] by (simp_all add: s2_def)
  show thesis
  proof (cases "n < mc")
    case True
    then show ?thesis using that [of "[]" s2] s2 l by (simp add: scan_hex_digits_def s2_def Let_def)
  next
    case False
    obtain run where run: "str_slice (sc_text s) (sc_pos s) (sc_pos s1) = Some run" "list_all hex_or_sep run"
      using slice_between [of "sc_text s" "sc_pos s" "sc_pos s1" hex_or_sep] assms af after_pos [of s s1] after_boundary [of s s1]
      by (auto simp: ok_def)
    have low: "list_all hex_or_sep (to_ascii_lowercase run)"
      using run(2) lowercase_hex by (induction run) (auto simp: to_ascii_lowercase_def)
    then have "list_all hex_or_sep (filter (\<lambda>ch. ch \<noteq> CHR ''_'') (to_ascii_lowercase run))"
      by (auto simp: list_all_iff)
    then show ?thesis
      using that [of "if flags_contain (sc_token_flags s2) CONTAINS_SEPARATOR
          then filter (\<lambda>ch. ch \<noteq> CHR ''_'') (to_ascii_lowercase run) else to_ascii_lowercase run" s2] low s2 False l run(1)
      by (simp add: scan_hex_digits_def s2_def [symmetric] Let_def)
  qed
qed

lemma binary_or_octal_loop_after:
  "ok s \<Longrightarrow> binary_or_octal_loop base r a p s = (r', p', s') \<Longrightarrow> list_all (\<lambda>c. is_ascii_digit c \<and> byte c - 48 < base) r \<Longrightarrow>
     after s s' \<and> bytes_between digit_or_sep (sc_text s) (sc_pos s) (sc_pos s')
     \<and> list_all (\<lambda>c. is_ascii_digit c \<and> byte c - 48 < base) r'"
proof (induction base r a p s rule: binary_or_octal_loop.induct)
  case (1 base r a p s)
  note unf = binary_or_octal_loop.simps [of base r a p s]
  have step: "after s s' \<and> bytes_between digit_or_sep (sc_text s) (sc_pos s) (sc_pos s') \<and> Q"
    if c: "digit_or_sep (char_here s)" and fr: "frame s1 = frame s" "sc_pos s1 = sc_pos s"
      and ih: "ok (advance 1 s1) \<Longrightarrow> after (advance 1 s1) s'
        \<and> bytes_between digit_or_sep (sc_text (advance 1 s1)) (sc_pos (advance 1 s1)) (sc_pos s') \<and> Q" for s1 Q
  proof -
    have "ok (advance 1 s)" using advance_here(2) [OF 1(4)] digit_or_sep_ascii [OF c] by blast
    then have "ok (advance 1 s1)" using ok_same [of "advance 1 s1" "advance 1 s"] fr by simp
    then show ?thesis using consume_ascii [of s digit_or_sep, OF 1(4) c fr digit_or_sep_ascii] ih by blast
  qed
  let ?digit = "is_ascii_digit (char_here s)
      \<and> (case to_digit 10 (byte (char_here s)) of Some digit \<Rightarrow> digit < base | None \<Rightarrow> False)"
  consider (digit) ?digit | (sep) "\<not> ?digit" "char_here s = CHR ''_''" | (stop) "\<not> ?digit" "char_here s \<noteq> CHR ''_''" by blast
  then show ?case
  proof cases
    case digit
    then have dig: "list_all (\<lambda>c. is_ascii_digit c \<and> byte c - 48 < base) (r @ [char_here s])"
      using 1(6) by (auto simp: to_digit_def Let_def is_ascii_digit_def byte_def split: if_splits)
    have eq: "binary_or_octal_loop base (r @ [char_here s]) True False (advance 1 s) = (r', p', s')"
      using 1(5) [unfolded unf] digit by (simp add: Let_def)
    show ?thesis by (rule step [of s, OF _ refl refl 1(1) [OF refl digit _ eq dig]]) (use digit in simp)
  next
    case sep
    show ?thesis
    proof (cases a)
      case True
      let ?s1 = "add_flags CONTAINS_SEPARATOR s"
      have eq: "binary_or_octal_loop base r False True (advance 1 ?s1) = (r', p', s')"
        using 1(5) [unfolded unf] sep True by (simp add: Let_def is_ascii_digit_def)
      show ?thesis by (rule step [of ?s1, OF _ _ _ 1(2) [OF refl sep refl True _ eq 1(6)]]) (use sep in simp_all)
    next
      case False
      let ?s1 = "separator_error p (add_flags CONTAINS_SEPARATOR s)"
      have eq: "binary_or_octal_loop base r a p (advance 1 ?s1) = (r', p', s')"
        using 1(5) [unfolded unf] sep False by (simp add: Let_def is_ascii_digit_def)
      show ?thesis by (rule step [of ?s1, OF _ _ _ 1(3) [OF refl sep refl False _ eq 1(6)]]) (use sep in simp_all)
    qed
  next
    case stop
    then show ?thesis using 1(5) [unfolded unf] 1(6) after_refl [OF 1(4)] by (auto simp: Let_def)
  qed
qed

lemma digits_loop_after:
  "ok s \<Longrightarrow> digits_loop oc s = (oc', s') \<Longrightarrow> after s s' \<and> bytes_between is_ascii_digit (sc_text s) (sc_pos s) (sc_pos s')"
proof (induction oc s rule: digits_loop.induct)
  case (1 oc s)
  show ?case
  proof (cases "is_ascii_digit (char_here s)")
    case True
    then show ?thesis using consume_ascii [where P = is_ascii_digit, OF 1(2) True, of s s'] digit_ascii 1(1) [OF True] 1(3)
      by (simp add: digits_loop.simps [of oc s])
  next
    case False
    then show ?thesis using 1(3) after_refl [OF 1(2)] by (simp add: digits_loop.simps [of oc s])
  qed
qed

lemma hex_escape_digits_after:
  "ok s \<Longrightarrow> hex_escape_digits start s = (complete, s') \<Longrightarrow> after s s'"
proof (induction start s rule: hex_escape_digits.induct)
  case (1 start s)
  show ?case
  proof (cases "sc_pos s < start + 4 \<and> is_ascii_hexdigit (char_here s)")
    case True
    note adv = advance_here [OF 1(2)] hexdigit_ascii [of "char_here s"]
    have "after (advance 1 s) s'" using 1(1) True 1(3) adv by (simp add: hex_escape_digits.simps [of start s])
    then show ?thesis using after_trans adv True by blast
  next
    case False
    then show ?thesis using 1(3) after_refl [OF 1(2)] by (auto simp: hex_escape_digits.simps [of start s] split: if_splits)
  qed
qed

lemma scan_digits_ok:
  assumes "ok s"
  obtains ds oc s' where "scan_digits s = Some (ds, oc, s')" "after s s'" "list_all is_ascii_digit ds"
    "bytes_between is_ascii_digit (sc_text s) (sc_pos s) (sc_pos s')"
proof -
  obtain oc s' where l: "digits_loop True s = (oc, s')" by fastforce
  note af = digits_loop_after [OF assms l]
  obtain run where "str_slice (sc_text s) (sc_pos s) (sc_pos s') = Some run" "list_all is_ascii_digit run"
    using slice_between [of "sc_text s" "sc_pos s" "sc_pos s'" is_ascii_digit] assms af after_pos [of s s'] after_boundary [of s s']
    by (auto simp: ok_def)
  then show thesis using that [of run oc s'] af l after_text [of s s'] by (simp add: scan_digits_def)
qed

text \<open>The loop over a run of digits with separators.\<close>

definition fragment_start :: "nat \<Rightarrow> scanner \<Rightarrow> bool" where
  "fragment_start start s \<longleftrightarrow> start \<le> sc_pos s \<and> is_char_boundary (sc_text s) start
     \<and> bytes_between is_ascii_digit (sc_text s) start (sc_pos s)"

lemma fragment_start_here: "ok s \<Longrightarrow> fragment_start (sc_pos s) s"
  by (simp add: fragment_start_def ok_def)

lemma number_fragment_loop_ok:
  assumes "ok s" "fragment_start start s" "list_all is_ascii_digit r"
  shows "\<exists>r' start' p' s'. number_fragment_loop r start a p s = Some (r', start', p', s') \<and> after s s'
           \<and> fragment_start start' s' \<and> list_all is_ascii_digit r'
           \<and> bytes_between digit_or_sep (sc_text s) (sc_pos s) (sc_pos s')
           \<and> (digit_or_sep (char_here s) \<longrightarrow> sc_pos s < sc_pos s')"
  using assms
proof (induction "sc_end s - sc_pos s" arbitrary: r start a p s rule: less_induct)
  case less
  note unf = number_fragment_loop.simps [of r start a p s]
  have go: "\<exists>r' start' p' s'. number_fragment_loop r1 start1 a1 p1 (advance 1 s1) = Some (r', start', p', s') \<and> after s s'
           \<and> fragment_start start' s' \<and> list_all is_ascii_digit r'
           \<and> bytes_between digit_or_sep (sc_text s) (sc_pos s) (sc_pos s')
           \<and> (digit_or_sep (char_here s) \<longrightarrow> sc_pos s < sc_pos s')"
    if c: "digit_or_sep (char_here s)" and fr: "frame s1 = frame s" "sc_pos s1 = sc_pos s"
      and st: "fragment_start start1 (advance 1 s1)" "list_all is_ascii_digit r1" for r1 start1 a1 p1 s1
  proof -
    have asc: "char_here s \<noteq> CHR 0x00" "byte (char_here s) < 0x80" using digit_or_sep_ascii [OF c] by auto
    note adv = advance_here [OF less.prems(1) asc]
    have ok1: "ok (advance 1 s1)" using adv(2) ok_same [of "advance 1 s1" "advance 1 s"] fr by simp
    have "sc_end (advance 1 s1) - sc_pos (advance 1 s1) < sc_end s - sc_pos s"
      using adv(3) fr frameD [OF fr(1)] by simp
    then obtain r' start' p' s' where
      s': "number_fragment_loop r1 start1 a1 p1 (advance 1 s1) = Some (r', start', p', s')" "after (advance 1 s1) s'"
      "fragment_start start' s'" "list_all is_ascii_digit r'"
      "bytes_between digit_or_sep (sc_text (advance 1 s1)) (sc_pos (advance 1 s1)) (sc_pos s')"
      using less.hyps [of "advance 1 s1" start1 r1 a1 p1] ok1 st by blast
    have "after s s' \<and> bytes_between digit_or_sep (sc_text s) (sc_pos s) (sc_pos s') \<and> sc_pos s < sc_pos s'"
      using consume_ascii [of s digit_or_sep, OF less.prems(1) c fr digit_or_sep_ascii] s'(2,5) by blast
    then show ?thesis using s' by blast
  qed
  have b: "is_char_boundary (sc_text s) (sc_pos s)" using less.prems(1) by (simp add: ok_def)
  consider (sep) "char_here s = CHR ''_''" | (digit) "char_here s \<noteq> CHR ''_''" "is_ascii_digit (char_here s)"
    | (stop) "char_here s \<noteq> CHR ''_''" "\<not> is_ascii_digit (char_here s)" by blast
  then show ?case
  proof cases
    case sep
    have st: "fragment_start (sc_pos (advance 1 s1)) (advance 1 s1)" if "frame s1 = frame s" "sc_pos s1 = sc_pos s" for s1
      using advance_here(2) [OF less.prems(1)] sep that ok_same [of "advance 1 s1" "advance 1 s"]
      by (intro fragment_start_here) (simp add: byte_def)
    show ?thesis
    proof (cases a)
      case True
      obtain run where run: "str_slice (sc_text s) start (sc_pos s) = Some run" "list_all is_ascii_digit run"
        using slice_between [of "sc_text s" start "sc_pos s" is_ascii_digit] less.prems(2) b by (auto simp: fragment_start_def)
      let ?s1 = "add_flags CONTAINS_SEPARATOR s"
      have "number_fragment_loop r start a p s =
          number_fragment_loop (r @ run) (sc_pos (advance 1 ?s1)) False True (advance 1 ?s1)"
        using sep True run(1) by (subst unf) (simp add: Let_def)
      then show ?thesis using go [of ?s1 "sc_pos (advance 1 ?s1)" "r @ run" False True] st [of ?s1] sep run(2) less.prems(3) by simp
    next
      case False
      let ?s1 = "separator_error p (add_flags CONTAINS_INVALID_SEPARATOR (add_flags CONTAINS_SEPARATOR s))"
      have "number_fragment_loop r start a p s = number_fragment_loop r (sc_pos (advance 1 ?s1)) a p (advance 1 ?s1)"
        using sep False by (subst unf) (simp add: Let_def)
      then show ?thesis using go [of ?s1 "sc_pos (advance 1 ?s1)" r a p] st [of ?s1] sep less.prems(3) by simp
    qed
  next
    case digit
    have "char_here s \<noteq> CHR 0x00" using digit(2) digit_ascii by blast
    then have "fragment_start start (advance 1 s)"
      using less.prems(2) digit(2) char_here_text [OF less.prems(1)] bytes_between_snoc [of is_ascii_digit "sc_text s" start "sc_pos s"]
      by (simp add: fragment_start_def)
    moreover have "number_fragment_loop r start a p s = number_fragment_loop r start True False (advance 1 s)"
      using digit by (subst unf) (simp add: Let_def)
    ultimately show ?thesis using go [of s start r True False] digit less.prems(3) by simp
  next
    case stop
    then have "number_fragment_loop r start a p s = Some (r, start, p, s)" by (subst unf) (simp add: Let_def)
    then show ?thesis using less.prems after_refl stop by simp
  qed
qed

lemma scan_number_fragment_ok:
  assumes "ok s"
  obtains ds s' where "scan_number_fragment s = Some (ds, s')" "after s s'" "list_all is_ascii_digit ds"
    "bytes_between digit_or_sep (sc_text s) (sc_pos s) (sc_pos s')" "digit_or_sep (char_here s) \<Longrightarrow> sc_pos s < sc_pos s'"
proof -
  obtain r start p s1 where l: "number_fragment_loop [] (sc_pos s) False False s = Some (r, start, p, s1)" "after s s1"
    "fragment_start start s1" "list_all is_ascii_digit r" "bytes_between digit_or_sep (sc_text s) (sc_pos s) (sc_pos s1)"
    "digit_or_sep (char_here s) \<Longrightarrow> sc_pos s < sc_pos s1"
    using number_fragment_loop_ok [OF assms fragment_start_here [OF assms], of "[]" False False] by auto
  obtain run where run: "str_slice (sc_text s1) start (sc_pos s1) = Some run" "list_all is_ascii_digit run"
    using slice_between [of "sc_text s1" start "sc_pos s1" is_ascii_digit] l(2,3) after_boundary [of s s1] after_text [of s s1]
    by (auto simp: fragment_start_def)
  define s2 where "s2 = (if p then error_at ''Numeric_separators_are_not_allowed_here'' (sc_pos s1 - 1) 1 []
      (add_flags CONTAINS_INVALID_SEPARATOR s1) else s1)"
  have s2: "after s s2" "sc_pos s2 = sc_pos s1" "sc_text s2 = sc_text s1" using l(2) by (simp_all add: s2_def)
  have "scan_number_fragment s = Some (r @ run, s2)"
    using l(1) run(1) s2 by (simp add: scan_number_fragment_def Let_def s2_def split del: if_split)
  then show thesis using that [of "r @ run" s2] s2 l run(2) by simp
qed

section \<open>Escapes\<close>

text \<open>No backslash is followed by a character outside ASCII.\<close>

definition escapes_ascii :: "string \<Rightarrow> bool" where
  "escapes_ascii t \<longleftrightarrow> list_all (\<lambda>i. t ! i = CHR 0x5C \<longrightarrow> byte (t ! (i + 1)) < 0x80) [0..<length t - 1]"

lemma advance_commutes [simp]:
  "advance n (error_at m a l args s) = error_at m a l args (advance n s)" "advance n (add_flags f s) = add_flags f (advance n s)"
  "advance n (set_token_value v s) = set_token_value v (advance n s)"
  by (simp_all add: advance_def error_at_def add_flags_def set_token_value_def)

lemma scan_unicode_escape_ok:
  assumes "ok s" "char_here s = CHR 0x5C" "char_at s 1 = CHR ''u''"
  obtains c s' where "scan_unicode_escape report s = Some (c, s')" "after s s'" "sc_pos s + 2 \<le> sc_pos s'"
proof -
  have u: "after s (advance 2 s)" "ok (advance 2 s)"
    using advance_ascii [of s 1] assms(1,3) by (simp_all add: byte_def numeral_2_eq_2)
  define ex where "ex = (char_here (advance 2 s) = CHR ''{'')"
  have "\<exists>ds s1. (if ex then scan_hex_digits 1 True False (advance 1 (advance 2 s))
      else scan_hex_digits 4 False False (add_flags UNICODE_ESCAPE (advance 2 s))) = Some (ds, s1) \<and> after (advance 2 s) s1"
  proof (cases ex)
    case True
    note adv = advance_here [OF u(2)]
    have "ok (advance 1 (advance 2 s))" "after (advance 2 s) (advance 1 (advance 2 s))"
      using adv True by (simp_all add: ex_def byte_def)
    then show ?thesis using scan_hex_digits_ok [of "advance 1 (advance 2 s)" 1 True False] True after_trans by metis
  next
    case False
    then show ?thesis using scan_hex_digits_ok [of "add_flags UNICODE_ESCAPE (advance 2 s)" 4 False False] u(2)
      by (metis after_from_updates(1) ok_updates(1))
  qed
  then obtain ds s1 where ds: "(if ex then scan_hex_digits 1 True False (advance 1 (advance 2 s))
      else scan_hex_digits 4 False False (add_flags UNICODE_ESCAPE (advance 2 s))) = Some (ds, s1)" "after (advance 2 s) s1"
    by blast
  have ok1: "ok s1" using after_ok [OF ds(2) u(2)] .
  have s1: "after s s1" "sc_pos s + 2 \<le> sc_pos s1" using after_trans [OF u(1) ds(2)] after_pos [OF ds(2)] by auto
  have brace: "after s (advance 1 s1)" if "char_here s1 = CHR ''}''"
    using after_trans [OF s1(1) advance_here(1) [OF ok1]] that by (simp add: byte_def)
  have "\<exists>c s'. scan_unicode_escape report s = Some (c, s') \<and> after s s' \<and> sc_pos s + 2 \<le> sc_pos s'"
    using ds(1) s1 brace unfolding scan_unicode_escape_def Let_def ex_def [symmetric]
    by (auto split: option.splits if_splits)
  then show thesis using that by blast
qed

lemma peek_unicode_escape_ok:
  assumes "ok s" "char_here s = CHR 0x5C"
  obtains c where "peek_unicode_escape s = Some c" "c \<noteq> None \<Longrightarrow> char_at s 1 = CHR ''u''"
proof (cases "char_at s 1 = CHR ''u''")
  case True
  obtain c s' where "scan_unicode_escape False s = Some (c, s')"
    using scan_unicode_escape_ok [OF assms True] by metis
  then show thesis using that [of "Option.bind c char_from_u32"] True by (simp add: peek_unicode_escape_def)
next
  case False
  then show thesis using that [of None] by (simp add: peek_unicode_escape_def)
qed

lemma slice_after:
  assumes "ok s" "after s s'"
  obtains run where "str_slice (sc_text s) (sc_pos s) (sc_pos s') = Some run"
  using slice_boundaries [of "sc_text s" "sc_pos s" "sc_pos s'"] assms by (auto simp: ok_def after_def)

lemma scan_octal_escape_tail_ok:
  assumes "ok s0" "after s0 s" "is_char_boundary (sc_text s0) (sc_pos s0 + 1)" "sc_pos s0 + 1 \<le> sc_pos s"
  obtains e s' where "scan_octal_escape_tail (sc_pos s0) ch flags s = Some (e, s')" "after s s'"
proof -
  have step: "\<exists>s2. (if q \<and> is_octal_digit (char_here s1) then advance 1 s1 else s1) = s2 \<and> after s1 s2 \<and> ok s2"
    if "ok s1" for q s1
    using advance_here [OF that] octal_digit_ascii [of "char_here s1"] after_refl [OF that] that by auto
  define s1 where "s1 = (if ch \<in> set ''0123'' \<and> is_octal_digit (char_here s) then advance 1 s else s)"
  define s2 where "s2 = add_flags CONTAINS_INVALID_ESCAPE (if is_octal_digit (char_here s1) then advance 1 s1 else s1)"
  have ok_s: "ok s" using after_ok [OF assms(2,1)] .
  have s1: "after s s1" "ok s1" using step [OF ok_s, of "ch \<in> set ''0123''"] unfolding s1_def by auto
  have s2: "after s1 s2" using step [OF s1(2), of True] unfolding s2_def by auto
  have af: "after s s2" "after s0 s2" using after_trans [OF s1(1) s2] after_trans [OF assms(2)] by blast+
  have tx: "sc_text s2 = sc_text s0" using after_text [OF af(2)] .
  obtain raw where raw: "str_slice (sc_text s2) (sc_pos s0) (sc_pos s2) = Some raw"
    using slice_after [OF assms(1) af(2)] tx by metis
  obtain ds where ds: "str_slice (sc_text s2) (sc_pos s0 + 1) (sc_pos s2) = Some ds"
    using slice_boundaries [OF assms(3) after_boundary [OF af(2)]] assms(4) after_pos [OF af(1)] tx by auto
  have "\<exists>e s'. scan_octal_escape_tail (sc_pos s0) ch flags s = Some (e, s') \<and> after s s'"
    using raw ds af(1) unfolding scan_octal_escape_tail_def Let_def s1_def [symmetric] s2_def [symmetric] by auto
  then show thesis using that by blast
qed

lemma scan_hex_escape_ok:
  assumes "ok s0" "after s0 s" "is_char_boundary (sc_text s0) (sc_pos s0 + 2)" "sc_pos s0 + 2 \<le> sc_pos s"
  obtains e s' where "scan_hex_escape (sc_pos s0) flags s = Some (e, s')" "after s s'"
proof -
  obtain complete s1 where l: "hex_escape_digits (sc_pos s0) s = (complete, s1)" by fastforce
  have af: "after s s1" "after s0 s1"
    using hex_escape_digits_after [OF after_ok [OF assms(2,1)] l] after_trans [OF assms(2)] by blast+
  have tx: "sc_text s1 = sc_text s0" using after_text [OF af(2)] .
  obtain raw where raw: "str_slice (sc_text s1) (sc_pos s0) (sc_pos s1) = Some raw"
    using slice_after [OF assms(1) af(2)] tx by metis
  obtain ds where ds: "str_slice (sc_text s1) (sc_pos s0 + 2) (sc_pos s1) = Some ds"
    using slice_boundaries [OF assms(3) after_boundary [OF af(2)]] assms(4) after_pos [OF af(1)] tx by auto
  have "\<exists>e s'. scan_hex_escape (sc_pos s0) flags s = Some (e, s') \<and> after s s'"
    using l raw ds af(1) unfolding scan_hex_escape_def by (auto simp: Let_def)
  then show thesis using that by blast
qed

lemma slice_from:
  assumes "ok s0" "after s0 s"
  obtains raw where "str_slice (sc_text s) (sc_pos s0) (sc_pos s) = Some raw"
  using slice_after [OF assms] after_text [OF assms(2)] by metis

lemma scan_u_escape_ok:
  assumes "ok s0" "char_here s0 = CHR 0x5C" "char_at s0 1 = CHR ''u''" "frame s = frame s0" "sc_pos s = sc_pos s0 + 2"
  obtains e s' where "scan_u_escape (sc_pos s0) flags s = Some (e, s')" "after s0 s'" "sc_pos s0 < sc_pos s'"
proof -
  define report where "report = (flags AND esc_REPORT_INVALID_ESCAPE_ERRORS \<noteq> 0)"
  define t where "t = s\<lparr>sc_pos := sc_pos s - 2\<rparr>"
  have t: "frame t = frame s0" "sc_pos t = sc_pos s0" by (simp_all add: t_def assms)
  have same: "ok t" "char_here t = CHR 0x5C" "char_at t 1 = CHR ''u''"
    using ok_same [OF t] char_here_same [OF t, of 1] assms by simp_all
  obtain c s1 where c: "scan_unicode_escape report t = Some (c, s1)" "after t s1" "sc_pos t + 2 \<le> sc_pos s1"
    using scan_unicode_escape_ok [OF same] by metis
  have s1: "after s0 s1" "sc_pos s0 < sc_pos s1" "ok s1"
    using c(2,3) t(2) after_ok [OF c(2) same(1)] frameD [OF t(1)] frame_coreD [OF t(1)] by (auto simp: after_def)
  obtain raw where raw: "str_slice (sc_text s1) (sc_pos s0) (sc_pos s1) = Some raw" using slice_from [OF assms(1) s1(1)] .
  have sv: "after s0 (s2\<lparr>sc_pos := sc_pos s1\<rparr>)" if "after s1 s2" for s2
    using s1(1) that by (auto simp: after_def core_of_def intro: prefix_order.trans)
  have "\<exists>e s'. scan_u_escape (sc_pos s0) flags s = Some (e, s') \<and> after s0 s' \<and> sc_pos s0 < sc_pos s'"
  proof (cases "char_here s1 = CHR 0x5C \<and> char_at s1 1 = CHR ''u''")
    case True
    obtain c2 s2 where c2: "scan_unicode_escape report s1 = Some (c2, s2)" "after s1 s2"
      using scan_unicode_escape_ok [OF s1(3)] True by metis
    have s2: "after s0 s2" "sc_pos s0 < sc_pos s2" using after_trans [OF s1(1) c2(2)] s1(2) after_pos [OF c2(2)] by auto
    obtain raw2 where "str_slice (sc_text s2) (sc_pos s0) (sc_pos s2) = Some raw2" using slice_from [OF assms(1) s2(1)] .
    then show ?thesis using c(1) c2(1) raw s1 s2 sv [OF c2(2)]
      unfolding scan_u_escape_def Let_def report_def [symmetric] t_def [symmetric]
      by (auto split: option.splits if_splits)
  next
    case False
    then show ?thesis using c(1) raw s1
      unfolding scan_u_escape_def Let_def report_def [symmetric] t_def [symmetric]
      by (auto split: option.splits if_splits)
  qed
  then show thesis using that by blast
qed

lemma escapes_asciiD:
  assumes "escapes_ascii (sc_text s)" "ok s" "char_here s = CHR 0x5C"
  shows "byte (char_at s 1) < 0x80"
proof (cases "char_at s 1 = CHR 0x00")
  case True
  then show ?thesis by (simp add: byte_def)
next
  case False
  have "sc_pos s + 1 < length (sc_text s)" "sc_text s ! (sc_pos s + 1) = char_at s 1" "sc_text s ! sc_pos s = CHR 0x5C"
    using char_at_in_text [OF assms(2) False] char_here_text [OF assms(2)] assms(3) by simp_all
  then show ?thesis using assms(1) by (auto simp: escapes_ascii_def list_all_iff)
qed

lemma scan_escape_sequence_ok:
  assumes "ok s" "char_here s = CHR 0x5C" "escapes_ascii (sc_text s)"
  obtains e s' where "scan_escape_sequence flags s = Some (e, s')" "after s s'" "sc_pos s < sc_pos s'"
proof -
  define c where "c = char_at s 1"
  have a1: "after s (advance 1 s)" "ok (advance 1 s)" using advance_here [OF assms(1)] assms(2) by (simp_all add: byte_def)
  have asc: "byte c < 0x80" using escapes_asciiD [OF assms(3,1,2)] by (simp add: c_def)
  have here: "char_here (advance 1 s) = c" by (simp add: c_def char_at_advance)
  have "\<exists>e s'. scan_escape_sequence flags s = Some (e, s') \<and> after s s' \<and> sc_pos s < sc_pos s'"
  proof (cases "c = CHR 0x00")
    case True
    then show ?thesis using a1 here by (auto simp: scan_escape_sequence_def Let_def)
  next
    case False
    define s2 where "s2 = advance 1 (advance 1 s)"
    have a2: "after s s2" "ok s2" "sc_pos s2 = sc_pos s + 2" "frame s2 = frame s"
      using advance_here [OF a1(2)] here False asc after_trans [OF a1(1)] by (auto simp: s2_def)
    have bd: "is_char_boundary (sc_text s) (sc_pos s + 1)" "is_char_boundary (sc_text s) (sc_pos s + 2)"
      using a1(1) a2(1,3) by (auto simp: after_def)
    have later: "after s s' \<and> sc_pos s < sc_pos s'" if "after s2 s'" for s'
      using after_trans [OF a2(1) that] after_pos [OF that] a2(3) by simp
    have oct: "\<exists>e s'. scan_octal_escape_tail (sc_pos s) ch flags s2 = Some (e, s') \<and> after s s' \<and> sc_pos s < sc_pos s'" for ch
    proof -
      have "sc_pos s + 1 \<le> sc_pos s2" using a2(3) by simp
      then show ?thesis using scan_octal_escape_tail_ok [OF assms(1) a2(1) bd(1), of ch flags] later by metis
    qed
    have hex: "\<exists>e s'. scan_hex_escape (sc_pos s) flags s2 = Some (e, s') \<and> after s s' \<and> sc_pos s < sc_pos s'"
    proof -
      have "sc_pos s + 2 \<le> sc_pos s2" using a2(3) by simp
      then show ?thesis using scan_hex_escape_ok [OF assms(1) a2(1) bd(2), of flags] later by metis
    qed
    have uni: "\<exists>e s'. scan_u_escape (sc_pos s) flags s2 = Some (e, s') \<and> after s s' \<and> sc_pos s < sc_pos s'" if "c = CHR ''u''"
      using scan_u_escape_ok [OF assms(1,2), of s2 flags] that a2 unfolding c_def by metis
    have lf: "after s (advance 1 s2)" if "char_here s2 = CHR 0x0A"
      using after_trans [OF a2(1) advance_here(1) [OF a2(2)]] that by (simp add: byte_def)
    obtain raw where raw: "str_slice (sc_text s2) (sc_pos s) (sc_pos s2) = Some raw" using slice_from [OF assms(1) a2(1)] .
    have wide: "c \<noteq> CHR 0xE2" "c \<noteq> CHR 0xC2" using asc by (auto simp: byte_def)
    show ?thesis
      unfolding scan_escape_sequence_def Let_def here s2_def [symmetric]
      using oct hex uni lf raw wide a2(1,3) False
      by (simp split: if_split)
  qed
  then show thesis using that by blast
qed

section \<open>Identifiers\<close>

lemma progress_less: "after s s' \<Longrightarrow> ok s \<Longrightarrow> sc_pos s < sc_pos s' \<Longrightarrow> sc_end s' - sc_pos s' < sc_end s - sc_pos s"
  using ok_pos_le [of s'] after_ok [of s s'] after_end [of s s'] by auto

text \<open>What is scanned inside an identifier leaves the value of the token.\<close>

lemma value_updates [simp, frame_simps]:
  "sc_token_value (add_flags f s) = sc_token_value s" "sc_token_value (advance n s) = sc_token_value s"
  "sc_token_value (error_at m a l args s) = sc_token_value s" "sc_token_value (separator_error p s) = sc_token_value s"
  by (simp_all add: add_flags_def advance_def error_at_def separator_error_def)

lemma hex_digits_loop_value:
  "hex_digits_loop mc am cs n a p s = (n', p', s') \<Longrightarrow> sc_token_value s' = sc_token_value s"
proof (induction mc am cs n a p s rule: hex_digits_loop.induct)
  case (1 mc am cs n a p s)
  then show ?case unfolding hex_digits_loop.simps [of mc am cs n a p s] by (simp add: Let_def split: if_splits)
qed

lemma scan_unicode_escape_value:
  assumes "scan_unicode_escape report s = Some (c, s')"
  shows "sc_token_value s' = sc_token_value s"
proof -
  have hex: "sc_token_value s2 = sc_token_value s1" if "scan_hex_digits mc am cs s1 = Some (ds, s2)" for mc am cs s1 ds s2
    using that hex_digits_loop_value [of mc am cs 0 False False s1]
    by (auto simp: scan_hex_digits_def Let_def split: prod.splits if_splits bind_splits)
  show ?thesis using assms hex
    by (force simp: scan_unicode_escape_def Let_def split: prod.splits if_splits bind_splits option.splits)
qed

lemma char_and_size_value: "char_and_size s = (ch, sz, s') \<Longrightarrow> sc_token_value s' = sc_token_value s"
  using char_and_size_state [of s ch sz s'] by auto

lemma slice_between_states:
  assumes "ok s" "start \<le> sc_pos s" "is_char_boundary (sc_text s) start"
  obtains run where "str_slice (sc_text s) start (sc_pos s) = Some run"
  using slice_boundaries [OF assms(3), of "sc_pos s"] assms(1,2) by (auto simp: ok_def)

lemma backslash_here:
  assumes "ok s" "char_and_size s = (ch, sz, s')" "ch = 0x5C"
  shows "char_here s' = CHR 0x5C"
proof -
  note cs = char_and_size_ok [OF assms(1,2)]
  have lt: "sc_pos s < sc_end s" using cs(3,4) assms(3) by (cases "sc_pos s < sc_end s") auto
  have "byte (char_here s) = 0x5C" using cs(8) [OF lt] assms(3) by simp
  then have "of_char (char_here s) = (of_char (CHR 0x5C) :: nat)" by (simp add: byte_def)
  then have "char_here s = CHR 0x5C" by (simp only: of_char_eq_iff)
  then show ?thesis using char_here_same [OF cs(1,2)] by simp
qed

lemma identifier_parts_loop_ok:
  assumes "ok s" "start \<le> sc_pos s" "is_char_boundary (sc_text s) start"
  shows "\<exists>r' s'. identifier_parts_loop r start s = Some (r', s') \<and> after s s' \<and> sc_token_value s' = sc_token_value s"
  using assms
proof (induction "sc_end s - sc_pos s" arbitrary: r start s rule: less_induct)
  case less
  note unf = identifier_parts_loop.simps [of r start s]
  obtain ch sz s1 where c: "char_and_size s = (ch, sz, s1)" by (metis prod_cases3)
  note cs = char_and_size_after [OF less.prems(1) c] and val = char_and_size_value [OF c]
  have s1: "sc_pos s1 = sc_pos s" "sc_text s1 = sc_text s"
    using char_and_size_ok(1,2) [OF less.prems(1) c] by (auto dest: frameD)
  obtain run where run: "str_slice (sc_text s1) start (sc_pos s1) = Some run"
    using slice_between_states [OF cs(2), of start] less.prems(2,3) s1 by auto
  have stop: ?case if "identifier_parts_loop r start s = map_option (\<lambda>run. (r @ run, s1)) (str_slice (sc_text s1) start (sc_pos s1))"
    using that run cs(1) val by simp
  have go: ?case if e: "identifier_parts_loop r start s = identifier_parts_loop r1 start1 s2" and s2: "after s s2" "sc_pos s < sc_pos s2"
      "sc_token_value s2 = sc_token_value s" "start1 \<le> sc_pos s2" "is_char_boundary (sc_text s) start1" for r1 start1 s2
  proof -
    have "sc_end s2 - sc_pos s2 < sc_end s - sc_pos s" by (rule progress_less [OF s2(1) less.prems(1) s2(2)])
    moreover have "is_char_boundary (sc_text s2) start1" using s2(5) after_text [OF s2(1)] by simp
    ultimately obtain r' s' where "identifier_parts_loop r1 start1 s2 = Some (r', s')" "after s2 s'" "sc_token_value s' = sc_token_value s2"
      using less.hyps [of s2 start1 r1] after_ok [OF s2(1) less.prems(1)] s2(4) by blast
    then show ?thesis using e s2 after_trans by auto
  qed
  consider (fin) "sz = 0" | (part) "sz \<noteq> 0" "is_identifier_part ch"
    | (esc) "sz \<noteq> 0" "\<not> is_identifier_part ch" "ch = 0x5C" | (other) "sz \<noteq> 0" "\<not> is_identifier_part ch" "ch \<noteq> 0x5C" by blast
  then show ?case
  proof cases
    case fin
    then show ?thesis by (intro stop) (simp add: unf c)
  next
    case other
    then show ?thesis by (intro stop) (simp add: unf c)
  next
    case part
    then have "identifier_parts_loop r start s = identifier_parts_loop r start (advance sz s1)" by (simp add: unf c)
    then show ?thesis by (rule go) (use cs(3,5) part s1 val less.prems in auto)
  next
    case esc
    have here: "char_here s1 = CHR 0x5C" by (rule backslash_here [OF less.prems(1) c esc(3)])
    obtain e where e: "peek_unicode_escape s1 = Some e" "e \<noteq> None \<Longrightarrow> char_at s1 1 = CHR ''u''"
      using peek_unicode_escape_ok [OF cs(2) here] by metis
    show ?thesis
    proof (cases "case e of Some e \<Rightarrow> is_identifier_part e | None \<Rightarrow> False")
      case False
      then show ?thesis using esc e by (intro stop) (simp add: unf c)
    next
      case True
      then have u: "char_at s1 1 = CHR ''u''" using e(2) by (auto split: option.splits)
      obtain code s2 where s2: "scan_unicode_escape True s1 = Some (code, s2)" "after s1 s2" "sc_pos s1 + 2 \<le> sc_pos s2"
        using scan_unicode_escape_ok [OF cs(2) here u] by metis
      show ?thesis
      proof (rule go)
        show "identifier_parts_loop r start s = identifier_parts_loop
            (r @ run @ (case Option.bind code char_from_u32 of Some c \<Rightarrow> utf8_encode c | None \<Rightarrow> [])) (sc_pos s2) s2"
          using esc e True run s2(1) by (subst unf) (simp add: c)
        show "after s s2" using after_trans [OF cs(1) s2(2)] .
        then show "is_char_boundary (sc_text s) (sc_pos s2)" by (rule after_boundary)
        show "sc_token_value s2 = sc_token_value s" using scan_unicode_escape_value [OF s2(1)] val by simp
      qed (use s2(3) s1 in auto)
    qed
  qed
qed

lemma scan_identifier_parts_ok:
  assumes "ok s"
  obtains r s' where "scan_identifier_parts s = Some (r, s')" "after s s'" "sc_token_value s' = sc_token_value s"
  using identifier_parts_loop_ok [OF assms order_refl] assms unfolding scan_identifier_parts_def ok_def by blast

end
