(* ===== verification/ScannerTokens.thy ===== *)
theory ScannerTokens
  imports ScannerProofs
begin

text \<open>
  The tokens of the scanner, continued: identifiers, strings, templates, numbers and comments, and then
  \<open>scan\<close> itself. From a character boundary of a valid text in which no backslash stands before a character
  outside ASCII, each of them returns at a later boundary.
\<close>

section \<open>Identifiers, continued\<close>

lemma word_char_ascii: "is_word_character (byte c) \<or> c = CHR ''$'' \<Longrightarrow> c \<noteq> CHR 0x00 \<and> byte c < 0x80"
  by (auto simp: is_word_character_def ascii_rune_def byte_def is_ascii_alphanumeric_def is_ascii_digit_def
    is_ascii_alphabetic_def is_ascii_uppercase_def is_ascii_lowercase_def)

lemma word_start_ascii: "is_ascii_alphabetic c \<or> c = CHR ''_'' \<or> c = CHR ''$'' \<Longrightarrow> c \<noteq> CHR 0x00 \<and> byte c < 0x80"
  by (auto simp: byte_def is_ascii_alphabetic_def is_ascii_uppercase_def is_ascii_lowercase_def)

lemma word_loop_after:
  "ok s \<Longrightarrow> char_here s \<noteq> CHR 0x00 \<Longrightarrow> byte (char_here s) < 0x80 \<Longrightarrow> after s (word_loop s) \<and> sc_pos s < sc_pos (word_loop s)"
proof (induction s rule: word_loop.induct)
  case (1 s)
  note adv = advance_here [OF 1(2-4)]
  show ?case
  proof (cases "is_word_character (byte (char_here (advance 1 s))) \<or> char_here (advance 1 s) = CHR ''$''")
    case True
    then have "after (advance 1 s) (word_loop (advance 1 s))"
      using 1(1) [OF refl True] adv(2) word_char_ascii [OF True] by blast
    then show ?thesis using after_trans [OF adv(1)] after_pos [of "advance 1 s"] True
      by (subst (1 2) word_loop.simps) (auto simp: Let_def dest: after_pos)
  next
    case False
    then show ?thesis using adv(1) by (subst (1 2) word_loop.simps) (simp add: Let_def)
  qed
qed

lemma identifier_loop_after:
  "ok (advance sz s) \<Longrightarrow> identifier_loop sz s = (ch, s') \<Longrightarrow>
     after (advance sz s) s' \<and> (ch = 0x5C \<longrightarrow> char_here s' = CHR 0x5C)"
proof (induction sz s rule: identifier_loop.induct)
  case (1 sz s)
  obtain c z s1 where c: "char_and_size (advance sz s) = (c, z, s1)" by (metis prod_cases3)
  note cs = char_and_size_after [OF 1(2) c]
  show ?case
  proof (cases "is_identifier_part c")
    case True
    then have "after (advance z s1) s' \<and> (ch = 0x5C \<longrightarrow> char_here s' = CHR 0x5C)"
      using 1(1) [OF c [symmetric] refl refl True cs(4)] 1(3) c by (simp add: identifier_loop.simps [of sz s])
    then show ?thesis using after_trans [OF cs(3)] by blast
  next
    case False
    then show ?thesis using 1(3) c cs(1) backslash_here [OF 1(2) c] by (simp add: identifier_loop.simps [of sz s])
  qed
qed

lemma token_value_text_cong:
  "sc_token_value s = sc_token_value s' \<Longrightarrow> sc_text s = sc_text s' \<Longrightarrow> token_value_text s = token_value_text s'"
  by (simp add: token_value_text_def split: token_value.splits)

lemma scan_identifier_ok:
  assumes "ok s" "ok (advance n s)"
  obtains b s' where "scan_identifier n s = Some (b, s')" "after (advance n s) s'"
    "b \<Longrightarrow> sc_pos s + n < sc_pos s'" "\<not> b \<Longrightarrow> sc_pos s' = sc_pos s + n" "b \<Longrightarrow> token_value_text s' \<noteq> None"
proof -
  define s0 where "s0 = advance n s"
  have s0: "ok s0" "sc_pos s0 = sc_pos s + n" "sc_text s0 = sc_text s" using assms(2) by (simp_all add: s0_def)
  have val: "\<exists>v. token_value_text (set_token_value_from_range (sc_pos s) (sc_pos s1) s1) = Some v" if "after s0 s1" for s1
    using slice_boundaries [of "sc_text s" "sc_pos s" "sc_pos s1"] assms(1) that s0
    by (auto simp: token_value_text_def set_token_value_from_range_def ok_def after_def core_of_def)
  define w where "w \<longleftrightarrow> is_ascii_alphabetic (char_here s0) \<or> char_here s0 = CHR ''_'' \<or> char_here s0 = CHR ''$''"
  define s1 where "s1 = word_loop s0"
  show thesis
  proof (cases "w \<and> byte (char_here s1) < 0x80 \<and> char_here s1 \<noteq> CHR 0x5C")
    case True
    then have "after s0 s1" "sc_pos s0 < sc_pos s1"
      using word_loop_after [OF s0(1)] word_start_ascii [of "char_here s0"] unfolding w_def s1_def by blast+
    then show ?thesis using that [of True "set_token_value_from_range (sc_pos s) (sc_pos s1) s1"] True s0 val [of s1]
      unfolding scan_identifier_def Let_def s0_def [symmetric] s1_def [symmetric] w_def [symmetric] by simp
  next
    case False
    note slow = this
    obtain ch sz s2 where c: "char_and_size s0 = (ch, sz, s2)" by (metis prod_cases3)
    note cs = char_and_size_after [OF s0(1) c]
    show ?thesis
    proof (cases "is_identifier_start ch")
      case False
      have "scan_identifier n s = Some (False, s2)" using slow False c
        unfolding scan_identifier_def Let_def s0_def [symmetric] s1_def [symmetric] w_def [symmetric] by auto
      then show ?thesis using that cs(1) char_and_size_ok(2) [OF s0(1) c] s0(2) by (auto simp: s0_def)
    next
      case True
      then have "ch \<noteq> 0" by (cases "ch = 0") auto
      then have "sz \<noteq> 0" using char_and_size_ok(4) [OF s0(1) c] by auto
      obtain ch' s3 where l: "identifier_loop sz s2 = (ch', s3)" by fastforce
      note il = identifier_loop_after [OF cs(4) l]
      have s3: "after s0 s3" "sc_pos s0 < sc_pos s3" "ok s3"
        using after_trans [OF cs(3)] il cs(5) [OF \<open>sz \<noteq> 0\<close>] after_pos [of "advance sz s2" s3] after_ok [OF _ cs(4)] by auto
      let ?s4 = "set_token_value_from_range (sc_pos s) (sc_pos s3) s3"
      show ?thesis
      proof (cases "ch' = 0x5C")
        case False
        then have "scan_identifier n s = Some (True, ?s4)" using slow True c l
          unfolding scan_identifier_def Let_def s0_def [symmetric] s1_def [symmetric] w_def [symmetric] by auto
        then show ?thesis using that s3 s0 val [OF s3(1)] by (simp add: s0_def)
      next
        case bs: True
        obtain r s5 where s5: "scan_identifier_parts ?s4 = Some (r, s5)" "after ?s4 s5" "sc_token_value s5 = sc_token_value ?s4"
          using scan_identifier_parts_ok [of ?s4] s3(3) by auto
        have af: "after s0 s5" using after_trans [OF s3(1)] s5(2) by simp
        obtain v where v: "token_value_text s5 = Some v"
          using val [OF s3(1)] token_value_text_cong [OF s5(3) after_text [OF s5(2)]] by auto
        have "scan_identifier n s = Some (True, set_token_value (v @ r) s5)" using slow True c l bs s5(1) v
          unfolding scan_identifier_def Let_def s0_def [symmetric] s1_def [symmetric] w_def [symmetric]
          by (auto simp: push_str_token_value_def)
        moreover have "sc_pos s + n < sc_pos s5" using s3(2) after_pos [OF s5(2)] s0(2) by simp
        ultimately show ?thesis using that af s0_def by (auto simp: token_value_text_def set_token_value_def)
      qed
    qed
  qed
qed

section \<open>Strings and templates\<close>

lemma literal_value_ok:
  assumes "ok s" "start \<le> sc_pos s" "is_char_boundary (sc_text s) start"
  obtains v where "literal_value r start vs s = Some v"
proof -
  obtain run where "str_slice (sc_text s) start (sc_pos s) = Some run" using slice_between_states [OF assms] .
  then show thesis using that by (cases r) (auto simp: literal_value_def)
qed

text \<open>Two loops that go from boundary to boundary: what is to be shown of one turn.\<close>

lemma literal_turn:
  assumes "ok s" "start \<le> sc_pos s" "is_char_boundary (sc_text s) start" "char_and_size s = (ch, sz, s1)"
  shows "after s s1" "ok s1" "sc_pos s1 = sc_pos s" "sc_text s1 = sc_text s" "start \<le> sc_pos s1" "is_char_boundary (sc_text s1) start"
    "after s (advance sz s1)" "ok (advance sz s1)" "sz \<noteq> 0 \<Longrightarrow> sc_pos s < sc_pos s1 + sz"
  using char_and_size_after [OF assms(1,4)] char_and_size_ok(1,2) [OF assms(1,4)] assms(2,3) by (auto dest: frameD)

lemma string_loop_ok:
  assumes "ok s" "start \<le> sc_pos s" "is_char_boundary (sc_text s) start" "escapes_ascii (sc_text s)"
  shows "\<exists>s'. string_loop quote jsx vs r start s = Some s' \<and> after s s'"
  using assms
proof (induction "sc_end s - sc_pos s" arbitrary: r start s rule: less_induct)
  case less
  note unf = string_loop.simps [of quote jsx vs r start s]
  obtain ch sz s1 where c: "char_and_size s = (ch, sz, s1)" by (metis prod_cases3)
  note t = literal_turn [OF less.prems(1-3) c]
  obtain v where v: "literal_value r start vs s1 = Some v" using literal_value_ok [OF t(2,5,6)] .
  have go: "\<exists>s'. string_loop quote jsx vs r1 start1 s2 = Some s' \<and> after s s'"
    if "after s s2" "sc_pos s < sc_pos s2" "start1 \<le> sc_pos s2" "is_char_boundary (sc_text s) start1" for r1 start1 s2
    using less.hyps [OF progress_less [OF that(1) less.prems(1) that(2)], of start1 r1] after_ok [OF that(1) less.prems(1)]
      that after_text [OF that(1)] less.prems(4) after_trans [OF that(1)] by auto
  consider (fin) "sz = 0 \<or> ch = byte quote \<or> ch \<noteq> 0x5C \<and> (ch = 10 \<or> ch = 13) \<and> \<not> jsx"
    | (esc) "sz \<noteq> 0" "ch \<noteq> byte quote" "ch = 0x5C \<and> \<not> jsx"
    | (other) "sz \<noteq> 0" "ch \<noteq> byte quote" "\<not> (ch = 0x5C \<and> \<not> jsx)" "\<not> ((ch = 10 \<or> ch = 13) \<and> \<not> jsx)" by blast
  then show ?case
  proof cases
    case fin
    then show ?thesis using t(1,7) v by (subst unf) (auto simp: c)
  next
    case esc
    have here: "char_here s1 = CHR 0x5C" using backslash_here [OF less.prems(1) c] esc(3) by blast
    obtain run where run: "str_slice (sc_text s1) start (sc_pos s1) = Some run" using slice_between_states [OF t(2,5,6)] .
    obtain e s2 where s2: "scan_escape_sequence (esc_String OR esc_ReportErrors) s1 = Some (e, s2)" "after s1 s2" "sc_pos s1 < sc_pos s2"
      using scan_escape_sequence_ok [OF t(2) here] less.prems(4) t(4) by metis
    have "string_loop quote jsx vs r start s = string_loop quote jsx vs (Some (pushed r @ run @ e)) (sc_pos s2) s2"
      using esc run s2(1) by (subst unf) (simp add: c)
    then show ?thesis using go [of s2 "sc_pos s2"] after_trans [OF t(1) s2(2)] s2(3) t(3) after_boundary by simp
  next
    case other
    then have "string_loop quote jsx vs r start s = string_loop quote jsx vs r start (advance sz s1)"
      by (subst unf) (auto simp: c)
    then show ?thesis using go [of "advance sz s1" start r] t(3,7,9) other(1) less.prems(2,3) by simp
  qed
qed

lemma scan_string_and_set_token_value_ok:
  assumes "ok s" "char_here s = CHR 0x22 \<or> char_here s = CHR 0x27" "escapes_ascii (sc_text s)"
  obtains s' where "scan_string_and_set_token_value jsx s = Some s'" "after s s'" "sc_pos s < sc_pos s'"
proof -
  define q where "q = char_here s"
  have q: "q \<noteq> CHR 0x00" "byte q < 0x80" "utf8_encode (byte q) = [q]" "len_utf8 (byte q) = 1"
    using assms(2) by (auto simp: q_def byte_def utf8_encode_def len_utf8_def)
  define s0 where "s0 = (if q = CHR 0x27 then add_flags SINGLE_QUOTE s else s)"
  define s1 where "s1 = advance 1 s0"
  have s0: "frame s0 = frame s" "sc_pos s0 = sc_pos s" "char_here s0 = q" "ok s0" using assms(1) by (simp_all add: s0_def q_def)
  have s1: "after s s1" "ok s1" "sc_pos s1 = sc_pos s + 1" "sc_text s1 = sc_text s" "sc_end s1 = sc_end s"
    using advance_here [OF s0(4)] s0(2-) q frameD [OF s0(1)] frame_coreD [OF s0(1)] by (auto simp: s1_def after_def)
  have b1: "is_char_boundary (sc_text s1) (sc_pos s1)" "sc_end s1 = length (sc_text s1)" "sc_pos s1 \<le> sc_end s1"
    using s1(2) ok_pos_le [OF s1(2)] by (auto simp: ok_def)
  have rest: "str_slice (sc_text s1) (sc_pos s1) (sc_end s1) = Some (drop (sc_pos s1) (sc_text s1))"
    using slice_rest [OF b1(1)] b1(2) by simp
  have loop: "\<exists>s'. string_loop q jsx (sc_pos s1) None (sc_pos s1) s1 = Some s' \<and> after s s' \<and> sc_pos s < sc_pos s'"
    using string_loop_ok [OF s1(2) order_refl b1(1), of q jsx "sc_pos s1" None] assms(3) s1 after_trans [OF s1(1)] after_pos [of s1]
    by fastforce
  have "\<exists>s'. scan_string_and_set_token_value jsx s = Some s' \<and> after s s' \<and> sc_pos s < sc_pos s'"
  proof (cases "str_find [q] (drop (sc_pos s1) (sc_text s1))")
    case None
    then show ?thesis using loop rest q
      unfolding scan_string_and_set_token_value_def Let_def q_def [symmetric] s0_def [symmetric] q(3,4) s1_def [symmetric] by simp
  next
    case (Some i)
    have found: "prefix [q] (drop (sc_pos s1 + i) (sc_text s1))"
      using str_find_SomeD [OF Some] by (simp add: add.commute)
    have lt: "sc_pos s1 + i < length (sc_text s1)" "sc_text s1 ! (sc_pos s1 + i) = q"
      using prefix_nth [OF found, of 0] by simp_all
    have bi: "is_char_boundary (sc_text s1) (sc_pos s1 + i)" "is_char_boundary (sc_text s1) (sc_pos s1 + i + 1)"
      using ascii_is_boundary [OF lt(1)] ascii_step [OF _ lt(1)] lt(2) q(2) s1(2) by (auto simp: ok_def)
    have lit: "str_slice (sc_text s1) (sc_pos s1) (sc_pos s1 + i) = Some (take i (drop (sc_pos s1) (sc_text s1)))"
      using slice_boundaries [OF b1(1) bi(1)] by simp
    have close: "after s (advance (i + 1) s1)" using s1 bi(2) by (auto simp: after_def add.assoc)
    then show ?thesis using Some loop rest q lit
      unfolding scan_string_and_set_token_value_def Let_def q_def [symmetric] s0_def [symmetric] q(3,4) s1_def [symmetric]
      by (cases i) (auto simp: s1(3))
  qed
  then show thesis using that by blast
qed

lemma template_loop_ok:
  assumes "ok s" "start \<le> sc_pos s" "is_char_boundary (sc_text s) start" "escapes_ascii (sc_text s)"
  shows "\<exists>k s'. template_loop bt report vs r start s = Some (k, s') \<and> after s s'"
  using assms
proof (induction "sc_end s - sc_pos s" arbitrary: r start s rule: less_induct)
  case less
  note unf = template_loop.simps [of bt report vs r start s]
  obtain ch sz s1 where c: "char_and_size s = (ch, sz, s1)" by (metis prod_cases3)
  note t = literal_turn [OF less.prems(1-3) c]
  obtain v where v: "literal_value r start vs s1 = Some v" using literal_value_ok [OF t(2,5,6)] .
  obtain run where run: "str_slice (sc_text s1) start (sc_pos s1) = Some run" using slice_between_states [OF t(2,5,6)] .
  have go: "\<exists>k s'. template_loop bt report vs r1 start1 s2 = Some (k, s') \<and> after s s'"
    if "after s s2" "sc_pos s < sc_pos s2" "start1 \<le> sc_pos s2" "is_char_boundary (sc_text s) start1" for r1 start1 s2
    using less.hyps [OF progress_less [OF that(1) less.prems(1) that(2)], of start1 r1] after_ok [OF that(1) less.prems(1)]
      that after_text [OF that(1)] less.prems(4) after_trans [OF that(1)] by fastforce
  consider (fin) "sz = 0 \<or> ch = byte CHR ''`''" | (hd) "sz \<noteq> 0" "ch \<noteq> byte CHR ''`''" "ch = byte CHR ''$'' \<and> char_at s1 1 = CHR ''{''"
    | (esc) "sz \<noteq> 0" "\<not> (ch = byte CHR ''$'' \<and> char_at s1 1 = CHR ''{'')" "ch = 0x5C"
    | (cr) "sz \<noteq> 0" "\<not> (ch = byte CHR ''$'' \<and> char_at s1 1 = CHR ''{'')" "ch = 13"
    | (other) "sz \<noteq> 0" "ch \<noteq> byte CHR ''`''" "\<not> (ch = byte CHR ''$'' \<and> char_at s1 1 = CHR ''{'')" "ch \<noteq> 0x5C" "ch \<noteq> 13"
    by blast
  then show ?case
  proof cases
    case fin
    then show ?thesis using t(1,7) v by (subst unf) (simp add: c)
  next
    case hd
    have "after s1 (advance (1 + 1) s1)" by (rule advance_ascii [OF t(2)]) (use hd in \<open>simp_all add: byte_def\<close>)
    then have "after s (advance 2 s1)" using after_trans [OF t(1)] by (simp add: numeral_2_eq_2)
    then show ?thesis using hd v by (subst unf) (simp add: c)
  next
    case esc
    let ?flags = "if report then esc_String OR esc_ReportErrors else esc_String"
    have here: "char_here s1 = CHR 0x5C" using backslash_here [OF less.prems(1) c] esc(3) by blast
    obtain e s2 where s2: "scan_escape_sequence ?flags s1 = Some (e, s2)" "after s1 s2" "sc_pos s1 < sc_pos s2"
      using scan_escape_sequence_ok [OF t(2) here, of ?flags] less.prems(4) t(4) by metis
    have "template_loop bt report vs r start s = template_loop bt report vs (Some (pushed r @ run @ e)) (sc_pos s2) s2"
      using esc run s2(1) by (subst unf) (simp add: c byte_def)
    then show ?thesis using go [of s2 "sc_pos s2"] after_trans [OF t(1) s2(2)] s2(3) t(3) after_boundary by simp
  next
    case cr
    define s2 where "s2 = (if char_here (advance sz s1) = CHR 0x0A then advance 1 (advance sz s1) else advance sz s1)"
    have s2: "after s s2" "sc_pos s < sc_pos s2"
      using advance_here(1) [OF t(8)] after_trans [OF t(7)] t(7,9) cr(1) by (auto simp: s2_def byte_def)
    have "template_loop bt report vs r start s = template_loop bt report vs (Some (pushed r @ run @ [CHR 0x0A])) (sc_pos s2) s2"
      using cr run by (subst unf) (simp add: c byte_def s2_def Let_def)
    then show ?thesis using go [of s2 "sc_pos s2"] s2 after_boundary by simp
  next
    case other
    then have "template_loop bt report vs r start s = template_loop bt report vs r start (advance sz s1)"
      by (subst unf) (auto simp: c)
    then show ?thesis using go [of "advance sz s1" start r] t(3,7,9) other(1) less.prems(2,3) by simp
  qed
qed

section \<open>Numbers\<close>

lemma scan_template_and_set_token_value_ok:
  assumes "ok s" "char_here s \<noteq> CHR 0x00" "byte (char_here s) < 0x80" "escapes_ascii (sc_text s)"
  obtains k s' where "scan_template_and_set_token_value report s = Some (k, s')" "after s s'" "sc_pos s < sc_pos s'"
proof -
  note adv = advance_here [OF assms(1-3)]
  obtain k s' where s': "template_loop (char_here s = CHR ''`'') report (sc_pos (advance 1 s)) None (sc_pos (advance 1 s)) (advance 1 s)
      = Some (k, s')" "after (advance 1 s) s'"
    using template_loop_ok [OF adv(2) order_refl] adv(2) assms(4) unfolding ok_def by fastforce
  show thesis
  proof (rule that)
    show "scan_template_and_set_token_value report s = Some (k, s')"
      using s'(1) by (simp add: scan_template_and_set_token_value_def Let_def)
    show "after s s'" using after_trans [OF adv(1) s'(2)] .
    show "sc_pos s < sc_pos s'" using after_pos [OF s'(2)] by simp
  qed
qed

lemma token_value_text_set [simp]: "token_value_text (set_token_value v s) = Some v"
  by (simp add: token_value_text_def set_token_value_def)

lemma token_value_text_updates [simp]:
  "token_value_text (add_flags f s) = token_value_text s" "token_value_text (advance n s) = token_value_text s"
  "token_value_text (error_at m a l args s) = token_value_text s"
  by (rule token_value_text_cong; simp)+

lemma scan_big_int_suffix_ok:
  assumes "ok s" "token_value_text s = Some v" "parse_pseudo_big_int (v @ ''n'') \<noteq> None"
  obtains k s' where "scan_big_int_suffix num s = Some (k, s')" "after s s'"
proof -
  have "\<exists>k s'. scan_big_int_suffix num s = Some (k, s') \<and> after s s'"
  proof (cases "char_here s = CHR ''n''")
    case True
    have "after s (advance 1 s)" using advance_here(1) [OF assms(1)] True by (simp add: byte_def)
    moreover have "utf8_encode (byte CHR ''n'') = ''n''" by code_simp
    ultimately show ?thesis using True assms(2,3)
      by (auto simp: scan_big_int_suffix_def push_token_value_def push_str_token_value_def)
  next
    case False
    then show ?thesis using assms(1,2) after_refl by (auto simp: scan_big_int_suffix_def)
  qed
  then show thesis using that by blast
qed

lemma parse_digits_or_sep: "list_all digit_or_sep v \<Longrightarrow> parse_pseudo_big_int (v @ ''n'') \<noteq> None"
proof -
  assume v: "list_all digit_or_sep v"
  have "strip_suffix_n (v @ ''n'') = v" by (simp add: strip_suffix_n_def)
  moreover have "v ! 1 \<notin> set ''bBoOxX''" if "1 < length v"
    using v that unfolding list_all_length by (auto simp: is_ascii_digit_def dest!: spec [of _ 1])
  ultimately show ?thesis by (cases "1 < length v") (simp_all add: parse_pseudo_big_int_def Let_def)
qed

lemma digits_are_digit_or_sep: "list_all is_ascii_digit v \<Longrightarrow> list_all digit_or_sep v"
  by (simp add: list_all_iff)

lemma bytes_between_mono: "bytes_between P t a b \<Longrightarrow> (\<And>c. P c \<Longrightarrow> Q c) \<Longrightarrow> bytes_between Q t a b"
  by (simp add: bytes_between_def)

lemma scan_fixed_part_ok:
  assumes "ok s"
  obtains (octal) s' where "scan_fixed_part s = Some (Inl s')" "after s s'" "sc_pos s < sc_pos s'"
  | (fixed) fp s' where "scan_fixed_part s = Some (Inr (fp, s'))" "after s s'" "list_all is_ascii_digit fp"
      "bytes_between digit_or_sep (sc_text s) (sc_pos s) (sc_pos s')" "is_ascii_digit (char_here s) \<Longrightarrow> sc_pos s < sc_pos s'"
proof (cases "char_here s = CHR ''0''")
  case False
  obtain ds s' where "scan_number_fragment s = Some (ds, s')" "after s s'" "list_all is_ascii_digit ds"
    "bytes_between digit_or_sep (sc_text s) (sc_pos s) (sc_pos s')" "digit_or_sep (char_here s) \<Longrightarrow> sc_pos s < sc_pos s'"
    using scan_number_fragment_ok [OF assms] by blast
  then show thesis using fixed [of ds s'] False by (simp add: scan_fixed_part_def Let_def)
next
  case True
  note zero = this
  note adv = advance_here [OF assms]
  have adv: "after s (advance 1 s)" "ok (advance 1 s)" "sc_pos s < sc_end s"
    using adv zero by (simp_all add: byte_def)
  show thesis
  proof (cases "char_here (advance 1 s) = CHR ''_''")
    case True
    define s1 where "s1 = (error_at ''Numeric_separators_are_not_allowed_here'' (sc_pos (advance 1 s)) 1 []
        (add_flags (CONTAINS_SEPARATOR OR CONTAINS_INVALID_SEPARATOR) (advance 1 s)))\<lparr>sc_pos := sc_pos s\<rparr>"
    have s1: "frame s1 = frame s" "sc_pos s1 = sc_pos s" by (simp_all add: s1_def)
    have here: "ok s1" "char_here s1 = char_here s" "sc_text s1 = sc_text s"
      using ok_same [OF s1] char_here_same [OF s1] assms frameD [OF s1(1)] by auto
    obtain ds s' where ds: "scan_number_fragment s1 = Some (ds, s')" "after s1 s'" "list_all is_ascii_digit ds"
      "bytes_between digit_or_sep (sc_text s1) (sc_pos s1) (sc_pos s')" "digit_or_sep (char_here s1) \<Longrightarrow> sc_pos s1 < sc_pos s'"
      using scan_number_fragment_ok [OF here(1)] by blast
    have "after s s'" using ds(2) s1(2) frame_coreD [OF s1(1)] here(3) by (simp add: after_def)
    moreover have "scan_fixed_part s = Some (Inr (ds, s'))" using zero True ds(1) by (simp add: scan_fixed_part_def Let_def s1_def)
    ultimately show ?thesis using fixed [of ds s'] ds here s1(2) by simp
  next
    case False
    obtain ds oc s' where ds: "scan_digits (advance 1 s) = Some (ds, oc, s')" "after (advance 1 s) s'" "list_all is_ascii_digit ds"
      "bytes_between is_ascii_digit (sc_text (advance 1 s)) (sc_pos (advance 1 s)) (sc_pos s')"
      using scan_digits_ok [OF adv(2)] by blast
    have s': "after s s'" "sc_pos s < sc_pos s'" using after_trans [OF adv(1) ds(2)] after_pos [OF ds(2)] by auto
    have "sc_text s ! sc_pos s = CHR ''0''" using char_here_text [OF assms] zero by simp
    then have bt: "bytes_between digit_or_sep (sc_text s) (sc_pos s) (sc_pos s')"
      using bytes_between_step [of digit_or_sep "sc_text s" "sc_pos s" "sc_pos s'"] bytes_between_mono [OF ds(4), of digit_or_sep]
      by (simp add: is_ascii_digit_def)
    show ?thesis
    proof (cases "ds = [] \<or> \<not> oc")
      case True
      then show ?thesis using fixed [of "if ds = [] then ''0'' else ds" "if ds = [] then s' else add_flags CONTAINS_LEADING_ZERO s'"]
          zero False ds s' bt by (auto simp: scan_fixed_part_def Let_def is_ascii_digit_def)
    next
      case oct: False
      then show ?thesis using octal zero False ds(1) s' by (simp add: scan_fixed_part_def Let_def)
    qed
  qed
qed

lemma scan_exponent_ok:
  assumes "ok s"
  obtains pre ex en s' where "scan_exponent s = Some (pre, ex, en, s')" "after s s'" "is_char_boundary (sc_text s) en"
    "sc_pos s \<le> en" "en \<le> sc_pos s'"
proof (cases "char_here s = CHR ''E'' \<or> char_here s = CHR ''e''")
  case False
  then show thesis using that [of "[]" "[]" "sc_pos s" s] assms after_refl by (simp add: scan_exponent_def ok_def)
next
  case True
  then have adv: "after s (advance 1 s)" "ok (advance 1 s)" using advance_here [OF assms] by (auto simp: byte_def)
  define s1 where "s1 = add_flags SCIENTIFIC (advance 1 s)"
  have s1: "ok s1" "after s s1" using adv by (simp_all add: s1_def)
  define s2 where "s2 = (if char_here s1 = CHR ''+'' \<or> char_here s1 = CHR ''-'' then advance 1 s1 else s1)"
  have s2: "ok s2" "after s s2"
    using advance_here [OF s1(1)] after_trans [OF s1(2)] s1 by (auto simp: s2_def byte_def)
  obtain ds s' where ds: "scan_number_fragment s2 = Some (ds, s')" "after s2 s'" using scan_number_fragment_ok [OF s2(1)] by blast
  have s': "after s s'" "sc_text s' = sc_text s" using after_trans [OF s2(2) ds(2)] after_text by auto
  have pre: "str_slice (sc_text s') (sc_pos s) (sc_pos s2) = Some (take (sc_pos s2 - sc_pos s) (drop (sc_pos s) (sc_text s')))"
    using slice_boundaries [of "sc_text s" "sc_pos s" "sc_pos s2"] assms s2(2) s'(2) by (auto simp: ok_def after_def)
  show thesis
  proof (cases "ds = []")
    case fin: True
    have "scan_exponent s = Some ([], [], sc_pos s, error_at ''Digit_expected'' (sc_pos s') 0 [] s')"
      using True fin ds(1) unfolding scan_exponent_def Let_def s1_def [symmetric] s2_def [symmetric] by simp
    then show ?thesis using that s' assms after_pos [OF s'(1)] by (auto simp: ok_def)
  next
    case more: False
    have "scan_exponent s = Some (take (sc_pos s2 - sc_pos s) (drop (sc_pos s) (sc_text s')), ds, sc_pos s', s')"
      using True more ds(1) pre unfolding scan_exponent_def Let_def s1_def [symmetric] s2_def [symmetric] by simp
    then show ?thesis using that s' after_pos [OF s'(1)] after_boundary [OF s'(1)] by blast
  qed
qed

lemma check_identifier_follows_ok:
  assumes "ok s"
  obtains s' where "check_identifier_follows start fe result s = Some (result, s')" "after s s'"
proof -
  obtain ch sz s1 where c: "char_and_size s = (ch, sz, s1)" by (metis prod_cases3)
  note cs = char_and_size_after [OF assms c]
  obtain id s2 where s2: "scan_identifier_parts s1 = Some (id, s2)" "after s1 s2" using scan_identifier_parts_ok [OF cs(2)] by blast
  have "after s s2" "after s (s2\<lparr>sc_pos := sc_pos s1\<rparr>)"
    using after_trans [OF cs(1) s2(2)] cs(1) after_core [OF s2(2)] by (auto simp: after_def)
  then have "\<exists>s'. check_identifier_follows start fe result s = Some (result, s') \<and> after s s'"
    using c s2(1) cs(1) by (auto simp: check_identifier_follows_def Let_def after_def)
  then show thesis using that by blast
qed

lemma set_number_value_ok:
  assumes "ok s" "start \<le> en" "en \<le> sc_pos s" "is_char_boundary (sc_text s) start" "is_char_boundary (sc_text s) en"
  obtains v where "token_value_text (set_number_value start en fp fr pre ex s) = Some v"
proof (cases "flags_contain (sc_token_flags s) CONTAINS_SEPARATOR")
  case True
  then show thesis using that by (simp add: set_number_value_def)
next
  case False
  then show thesis using that slice_boundaries [OF assms(4,5,2)]
    by (simp add: set_number_value_def token_value_text_def set_token_value_from_range_def)
qed

lemma set_number_value_frame [simp]:
  "frame (set_number_value start en fp fr pre ex s) = frame s" "sc_pos (set_number_value start en fp fr pre ex s) = sc_pos s"
  "ok (set_number_value start en fp fr pre ex s) = ok s" "after s' (set_number_value start en fp fr pre ex s) = after s' s"
  by (simp_all add: set_number_value_def)

text \<open>A number that ends with its fixed part has only digits and separators in its value.\<close>

lemma fixed_value:
  assumes "ok s" "sc_pos s0 \<le> sc_pos s" "is_char_boundary (sc_text s) (sc_pos s0)" "list_all is_ascii_digit fp"
    and "bytes_between digit_or_sep (sc_text s) (sc_pos s0) (sc_pos s)"
  obtains v where "token_value_text (set_number_value (sc_pos s0) (sc_pos s) fp [] pre [] s) = Some v" "list_all digit_or_sep v"
proof (cases "flags_contain (sc_token_flags s) CONTAINS_SEPARATOR")
  case True
  then show thesis using that [of fp] digits_are_digit_or_sep [OF assms(4)] by (simp add: set_number_value_def)
next
  case False
  obtain run where "str_slice (sc_text s) (sc_pos s0) (sc_pos s) = Some run" "list_all digit_or_sep run"
    using slice_between [OF assms(3) _ assms(2,5)] assms(1) by (auto simp: ok_def)
  then show thesis using that False
    by (simp add: set_number_value_def token_value_text_def set_token_value_from_range_def)
qed

lemma fractional_part_ok:
  assumes "ok s"
  obtains fr s' where "(if char_here s = CHR ''.'' then scan_number_fragment (advance 1 s) else Some ([], s)) = Some (fr, s')"
    "after s s'" "sc_pos s' = sc_pos s \<Longrightarrow> fr = [] \<and> s' = s" "char_here s = CHR ''.'' \<Longrightarrow> sc_pos s < sc_pos s'"
proof (cases "char_here s = CHR ''.''")
  case True
  then have adv: "after s (advance 1 s)" "ok (advance 1 s)" using advance_here [OF assms] by (simp_all add: byte_def)
  obtain fr s' where "scan_number_fragment (advance 1 s) = Some (fr, s')" "after (advance 1 s) s'"
    using scan_number_fragment_ok [OF adv(2)] by blast
  then show thesis using that [of fr s'] True after_trans [OF adv(1)] after_pos [of "advance 1 s" s'] by simp
next
  case False
  then show thesis using that [of "[]" s] assms after_refl by simp
qed

lemma no_exponent:
  assumes "ok s" "scan_exponent s = Some (pre, ex, en, s')" "sc_pos s' = sc_pos s"
  shows "ex = [] \<and> en = sc_pos s"
proof (cases "char_here s = CHR ''E'' \<or> char_here s = CHR ''e''")
  case False
  then show ?thesis using assms(2) by (auto simp: scan_exponent_def Let_def)
next
  case True
  then have ok1: "ok (add_flags SCIENTIFIC (advance 1 s))" using advance_here(2) [OF assms(1)] by (auto simp: byte_def)
  define s1 where "s1 = add_flags SCIENTIFIC (advance 1 s)"
  define s2 where "s2 = (if char_here s1 = CHR ''+'' \<or> char_here s1 = CHR ''-'' then advance 1 s1 else s1)"
  have "ok s2" using advance_here(2) [of s1] ok1 by (auto simp: s2_def s1_def byte_def)
  then obtain ds s3 where "scan_number_fragment s2 = Some (ds, s3)" "after s2 s3" using scan_number_fragment_ok by blast
  moreover have "sc_pos s < sc_pos s2" by (simp add: s2_def s1_def)
  ultimately have "sc_pos s < sc_pos s'"
    using True assms(2) after_pos [of s2 s3] unfolding scan_exponent_def Let_def s1_def [symmetric] s2_def [symmetric]
    by (auto split: if_splits)
  then show ?thesis using assms(3) by simp
qed

lemma scan_number_ok:
  assumes "ok s" "is_ascii_digit (char_here s) \<or> char_here s = CHR ''.''"
  obtains k s' where "scan_number num s = Some (k, s')" "after s s'" "sc_pos s < sc_pos s'"
proof (rule scan_fixed_part_ok [OF assms(1)])
  fix s' assume "scan_fixed_part s = Some (Inl s')" "after s s'" "sc_pos s < sc_pos s'"
  then show thesis using that by (simp add: scan_number_def Let_def)
next
  fix fp s1
  assume f: "scan_fixed_part s = Some (Inr (fp, s1))" "after s s1" "list_all is_ascii_digit fp"
    "bytes_between digit_or_sep (sc_text s) (sc_pos s) (sc_pos s1)" "is_ascii_digit (char_here s) \<Longrightarrow> sc_pos s < sc_pos s1"
  have ok1: "ok s1" by (rule after_ok [OF f(2) assms(1)])
  obtain fr s2 where fr: "(if char_here s1 = CHR ''.'' then scan_number_fragment (advance 1 s1) else Some ([], s1)) = Some (fr, s2)"
    "after s1 s2" "sc_pos s2 = sc_pos s1 \<Longrightarrow> fr = [] \<and> s2 = s1" "char_here s1 = CHR ''.'' \<Longrightarrow> sc_pos s1 < sc_pos s2"
    using fractional_part_ok [OF ok1] by blast
  have ok2: "ok s2" by (rule after_ok [OF fr(2) ok1])
  obtain pre ex en s3 where ex: "scan_exponent s2 = Some (pre, ex, en, s3)" "after s2 s3" "is_char_boundary (sc_text s2) en"
    "sc_pos s2 \<le> en" "en \<le> sc_pos s3" using scan_exponent_ok [OF ok2] by blast
  have ok3: "ok s3" by (rule after_ok [OF ex(2) ok2])
  have a3: "after s s2" "after s s3" using after_trans [OF f(2) fr(2)] after_trans [OF _ ex(2)] by blast+
  have tx: "sc_text s1 = sc_text s" "sc_text s2 = sc_text s" "sc_text s3 = sc_text s"
    using after_text [OF f(2)] after_text [OF a3(1)] after_text [OF a3(2)] by auto
  have bs: "is_char_boundary (sc_text s3) (sc_pos s)" "is_char_boundary (sc_text s3) en" "sc_pos s \<le> en"
    using assms(1) ex(3,4) tx after_pos [OF a3(1)] by (auto simp: ok_def)
  have moved: "sc_pos s < sc_pos s2"
  proof (cases "is_ascii_digit (char_here s)")
    case True
    then show ?thesis using f(5) after_pos [OF fr(2)] by linarith
  next
    case False
    then have dot: "char_here s = CHR ''.''" using assms(2) by blast
    show ?thesis
    proof (cases "sc_pos s1 = sc_pos s")
      case True
      then have "char_here s1 = CHR ''.''" using char_here_core [OF after_core [OF f(2)] True] dot by simp
      then show ?thesis using fr(4) True by simp
    next
      case False
      then show ?thesis using after_pos [OF f(2)] after_pos [OF fr(2)] by linarith
    qed
  qed
  define s4 where "s4 = set_number_value (sc_pos s) en fp fr pre ex s3"
  have s4: "ok s4" "after s s4" "sc_pos s < sc_pos s4" using ok3 a3(2) moved after_pos [OF ex(2)] by (simp_all add: s4_def)
  obtain v where v: "token_value_text s4 = Some v" using set_number_value_ok [OF ok3 bs(3) ex(5) bs(1,2)] s4_def by blast
  have suffix: "\<exists>k s5. scan_big_int_suffix num s4 = Some (k, s5) \<and> after s4 s5" if "sc_pos s1 = sc_pos s4"
  proof -
    have eq: "sc_pos s2 = sc_pos s1" "sc_pos s3 = sc_pos s2"
      using that after_pos [OF fr(2)] after_pos [OF ex(2)] by (simp_all add: s4_def)
    have parts: "fr = []" "ex = []" "en = sc_pos s3" using fr(3) eq(1) no_exponent [OF ok2 ex(1) eq(2)] eq(2) by auto
    have "\<exists>v. token_value_text s4 = Some v \<and> list_all digit_or_sep v"
      unfolding s4_def parts
      using fixed_value [OF ok3, of s fp pre] bs(1) after_pos [OF a3(2)] f(3,4) tx eq by metis
    then show ?thesis using scan_big_int_suffix_ok [OF s4(1)] parse_digits_or_sep by metis
  qed
  have follows: "\<exists>k s'. check_identifier_follows (sc_pos s) (sc_pos s1) k0 s5 = Some (k, s') \<and> after s s' \<and> sc_pos s < sc_pos s'"
    if "after s4 s5" for k0 s5
    using check_identifier_follows_ok [OF after_ok [OF that s4(1)], of "sc_pos s" "sc_pos s1" k0]
      after_trans [OF after_trans [OF s4(2) that]] after_pos [OF that] s4(3) after_pos [of s5]
    by (metis less_le_trans)
  have "\<exists>k s'. scan_number num s = Some (k, s') \<and> after s s' \<and> sc_pos s < sc_pos s'"
    using f(1) fr(1) ex(1) v s4 suffix follows [of "set_token_value (num v) s4" NumericLiteral] follows after_refl [OF s4(1)]
    unfolding scan_number_def Let_def by (auto simp: s4_def [symmetric] split: if_splits)
  then show thesis using that by blast
qed

lemma radix_digits_hex: "list_all hex_or_sep ds \<Longrightarrow> radix_digits 16 ds"
  by (auto simp: radix_digits_def is_ascii_hexdigit_def list_all_iff)

lemma scan_hex_literal_ok:
  assumes "ok s" "char_here s = CHR ''0''" "char_at s 1 = CHR ''x'' \<or> char_at s 1 = CHR ''X''"
  obtains s' where "scan_hex_literal num s = Some s'" "after s s'" "sc_pos s < sc_pos s'"
proof -
  have a2: "after s (advance 2 s)" "ok (advance 2 s)"
    using advance_ascii [of s 1] assms(1,3) by (auto simp: byte_def numeral_2_eq_2)
  obtain ds s1 where ds: "scan_hex_digits 1 True True (advance 2 s) = Some (ds, s1)" "after (advance 2 s) s1" "list_all hex_or_sep ds"
    using scan_hex_digits_ok [OF a2(2)] by blast
  define ds2 where "ds2 = (if ds = [] then ''0'' else ds)"
  define s2 where "s2 = (if ds = [] then error_at ''Hexadecimal_digit_expected'' (sc_pos s1) 0 [] s1 else s1)"
  have split2: "(if ds = [] then (''0'', error_at ''Hexadecimal_digit_expected'' (sc_pos s1) 0 [] s1) else (ds, s1)) = (ds2, s2)"
    by (simp add: ds2_def s2_def)
  have hex2: "radix_digits 16 ds2" using ds(3) radix_digits_hex by (auto simp: ds2_def is_ascii_hexdigit_def to_digit_def byte_def)
  have s2: "after s s2" "ok s2" "sc_pos s < sc_pos s2"
    using after_trans [OF a2(1) ds(2)] after_ok [OF ds(2) a2(2)] after_pos [OF ds(2)] by (simp_all add: s2_def)
  obtain raw where raw: "str_slice (sc_text s2) (sc_pos s) (sc_pos s2) = Some raw" using slice_from [OF assms(1) s2(1)] .
  define s3 where "s3 = (if prefix ''0x'' raw \<and> drop 2 raw = ds2 then set_token_value_from_range (sc_pos s) (sc_pos s2) s2
      else set_token_value (''0x'' @ ds2) s2)"
  have val: "token_value_text s3 = Some (''0x'' @ ds2)"
    using raw by (auto simp: s3_def token_value_text_def set_token_value_from_range_def set_token_value_def prefix_def)
  have "parse_pseudo_big_int (''0'' @ [CHR ''x''] @ ds2 @ ''n'') = Some (show_nat (radix_value 16 ds2))"
    by (rule parse_prefixed_literal [OF _ hex2]) (simp_all add: prefix_base_def)
  then have "parse_pseudo_big_int ((''0x'' @ ds2) @ ''n'') \<noteq> None" by simp
  moreover have "ok (add_flags HEX_SPECIFIER s3)" using s2(2) by (simp add: s3_def)
  ultimately obtain k s4 where s4: "scan_big_int_suffix num (add_flags HEX_SPECIFIER s3) = Some (k, s4)" "after s3 s4"
    using scan_big_int_suffix_ok [of "add_flags HEX_SPECIFIER s3" "''0x'' @ ds2"] val by (metis after_from_updates(1) token_value_text_updates(1))
  have s3: "after s s3" "sc_pos s3 = sc_pos s2" using s2(1) by (simp_all add: s3_def)
  have "scan_hex_literal num s = Some (s4\<lparr>sc_token := k\<rparr>)"
    using ds(1) raw s4(1) unfolding scan_hex_literal_def Let_def
    by (simp add: split2 s3_def [symmetric] split del: if_split)
  then show thesis using that after_trans [OF s3(1) s4(2)] after_pos [OF s4(2)] s3(2) s2(3) by simp
qed

lemma scan_binary_or_octal_literal_ok:
  assumes "ok s" "char_here s = CHR ''0''" "byte (char_at s 1) < 0x80" "char_at s 1 \<noteq> CHR 0x00"
    and base: "prefix_base letter = Some base" "base \<le> 8" "0 < base"
  obtains s' where "scan_binary_or_octal_literal num base letter message flag s = Some s'" "after s s'" "sc_pos s < sc_pos s'"
proof -
  have a2: "after s (advance 2 s)" "ok (advance 2 s)"
    using advance_ascii [of s 1] assms(1,3,4) by (auto simp: numeral_2_eq_2)
  obtain ds p s1 where l: "binary_or_octal_loop base [] False False (advance 2 s) = (ds, p, s1)" by (metis prod_cases3)
  have s1: "after (advance 2 s) s1" "list_all (\<lambda>c. is_ascii_digit c \<and> byte c - 48 < base) ds"
    using binary_or_octal_loop_after [OF a2(2) l] by simp_all
  define s1' where "s1' = (if p then error_at ''Numeric_separators_are_not_allowed_here'' (sc_pos s1 - 1) 1 [] s1 else s1)"
  have sc: "scan_binary_or_octal_digits base (advance 2 s) = (ds, s1')" using l by (simp add: scan_binary_or_octal_digits_def s1'_def)
  define ds2 where "ds2 = (if ds = [] then ''0'' else ds)"
  define s2 where "s2 = (if ds = [] then error_at message (sc_pos s1') 0 [] s1' else s1')"
  have split2: "(if ds = [] then (''0'', error_at message (sc_pos s1') 0 [] s1') else (ds, s1')) = (ds2, s2)"
    by (simp add: ds2_def s2_def)
  have s2: "after s s2" "ok s2" "sc_pos s < sc_pos s2"
    using after_trans [OF a2(1) s1(1)] after_ok [OF s1(1) a2(2)] after_pos [OF s1(1)] by (simp_all add: s2_def s1'_def)
  have dig: "to_digit base (byte c) \<noteq> None" if "is_ascii_digit c" "byte c - 48 < base" for c
    using that by (auto simp: to_digit_def is_ascii_digit_def byte_def)
  have "radix_digits base ds2"
    using s1(2) dig base(3) dig [of "CHR ''0''"] by (auto simp: radix_digits_def ds2_def list_all_iff is_ascii_digit_def byte_def)
  then have parse: "parse_pseudo_big_int (''0'' @ [letter] @ ds2 @ ''n'') = Some (show_nat (radix_value base ds2))"
    by (intro parse_prefixed_literal base(1)) simp_all
  define s3 where "s3 = add_flags flag (set_token_value (''0'' @ [letter] @ ds2) s2)"
  have "ok s3" "token_value_text s3 = Some (''0'' @ [letter] @ ds2)" using s2(2) by (simp_all add: s3_def)
  moreover have "parse_pseudo_big_int ((''0'' @ [letter] @ ds2) @ ''n'') \<noteq> None" using parse by simp
  ultimately obtain k s4 where s4: "scan_big_int_suffix num s3 = Some (k, s4)" "after s3 s4"
    using scan_big_int_suffix_ok by metis
  have s3: "after s s3" "sc_pos s3 = sc_pos s2" using s2(1) by (simp_all add: s3_def)
  have "scan_binary_or_octal_literal num base letter message flag s = Some (s4\<lparr>sc_token := k\<rparr>)"
    using sc s4(1) unfolding scan_binary_or_octal_literal_def Let_def
    by (simp add: split2 s3_def split del: if_split)
  then show thesis using that after_trans [OF s3(1) s4(2)] after_pos [OF s4(2)] s3(2) s2(3) by simp
qed

lemma digit_0: "is_ascii_digit CHR ''0''"
  by (simp add: is_ascii_digit_def)

lemma scan_zero_ok:
  assumes "ok s" "char_here s = CHR ''0''"
  obtains s' where "scan_zero num s = Some s'" "after s s'" "sc_pos s < sc_pos s'"
proof -
  consider (hex) "char_at s 1 = CHR ''x'' \<or> char_at s 1 = CHR ''X''" | (bin) "char_at s 1 = CHR ''b'' \<or> char_at s 1 = CHR ''B''"
    | (oct) "char_at s 1 = CHR ''o'' \<or> char_at s 1 = CHR ''O''" | (dec) "char_at s 1 \<notin> set ''xXbBoO''" by auto
  then have "\<exists>s'. scan_zero num s = Some s' \<and> after s s' \<and> sc_pos s < sc_pos s'"
  proof cases
    case hex
    have "scan_zero num s = scan_hex_literal num s" using hex by (auto simp: scan_zero_def)
    then show ?thesis using scan_hex_literal_ok [OF assms hex, of num] by metis
  next
    case bin
    have "scan_zero num s = scan_binary_or_octal_literal num 2 CHR ''b'' ''Binary_digit_expected'' BINARY_SPECIFIER s"
      using bin by (auto simp: scan_zero_def)
    moreover have c: "byte (char_at s 1) < 0x80" "char_at s 1 \<noteq> CHR 0x00" "prefix_base CHR ''b'' = Some 2" "2 \<le> (8 :: nat)" "0 < (2 :: nat)"
      using bin by (auto simp: byte_def prefix_base_def)
    obtain s' where "scan_binary_or_octal_literal num 2 CHR ''b'' ''Binary_digit_expected'' BINARY_SPECIFIER s = Some s'" "after s s'" "sc_pos s < sc_pos s'"
      by (rule scan_binary_or_octal_literal_ok [OF assms c])
    ultimately show ?thesis by simp
  next
    case oct
    have "scan_zero num s = scan_binary_or_octal_literal num 8 CHR ''o'' ''Octal_digit_expected'' OCTAL_SPECIFIER s"
      using oct by (auto simp: scan_zero_def)
    moreover have c: "byte (char_at s 1) < 0x80" "char_at s 1 \<noteq> CHR 0x00" "prefix_base CHR ''o'' = Some 8" "8 \<le> (8 :: nat)" "0 < (8 :: nat)"
      using oct by (auto simp: byte_def prefix_base_def)
    obtain s' where "scan_binary_or_octal_literal num 8 CHR ''o'' ''Octal_digit_expected'' OCTAL_SPECIFIER s = Some s'" "after s s'" "sc_pos s < sc_pos s'"
      by (rule scan_binary_or_octal_literal_ok [OF assms c])
    ultimately show ?thesis by simp
  next
    case dec
    obtain k s' where "scan_number num s = Some (k, s')" "after s s'" "sc_pos s < sc_pos s'"
      using scan_number_ok [OF assms(1), of num] assms(2) digit_0 by metis
    then show ?thesis using dec by (auto simp: scan_zero_def Let_def)
  qed
  then show thesis using that by blast
qed

section \<open>Tokens\<close>

lemma process_comment_directive_core [simp]:
  "core_of (process_comment_directive a b m s) = core_of s" "sc_pos (process_comment_directive a b m s) = sc_pos s"
  "sc_skip_trivia (process_comment_directive a b m s) = sc_skip_trivia s"
  by (auto simp: process_comment_directive_def Let_def split: option.splits)

lemma process_comment_directive_directives:
  "prefix (sc_comment_directives s) (sc_comment_directives (process_comment_directive a b m s))"
  by (auto simp: process_comment_directive_def Let_def split: option.splits)

lemma process_comment_directive_after:
  "after s' s \<Longrightarrow> after s' (process_comment_directive a b m s)"
  using process_comment_directive_directives [of s a b m]
  by (auto simp: after_def intro: prefix_order.trans)

lemma two_ascii:
  assumes "ok s" "char_at s 1 \<noteq> CHR 0x00" "byte (char_at s 1) < 0x80"
  shows "after s (advance 2 s)" "ok (advance 2 s)"
  using advance_ascii [OF assms] by (simp_all add: numeral_2_eq_2)

lemma scan_line_comment_token_ok:
  assumes "ok s" "char_at s 1 = CHR ''/''" "scan_line_comment_token s = (b, s')"
  shows "after s s'" "sc_pos s < sc_pos s'"
proof -
  have a2: "after s (advance 2 s)" "ok (advance 2 s)" using two_ascii [OF assms(1)] assms(2) by (simp_all add: byte_def)
  note sk = skip_chars_after [OF a2(2), of "\<lambda>ch. \<not> is_line_break ch"]
  show "after s s'" using process_comment_directive_after [OF after_trans [OF a2(1) sk]] assms(3)
    by (auto simp: scan_line_comment_token_def Let_def split: if_splits)
  show "sc_pos s < sc_pos s'" using after_pos [OF sk] assms(3) by (auto simp: scan_line_comment_token_def Let_def split: if_splits)
qed

lemma scan_block_comment_token_ok:
  assumes "ok s" "char_at s 1 = CHR ''*''" "scan_block_comment_token s = (b, s')"
  shows "after s s'" "sc_pos s < sc_pos s'"
proof -
  have a2: "after s (advance 2 s)" "ok (advance 2 s)" using two_ascii [OF assms(1)] assms(2) by (simp_all add: byte_def)
  obtain c l s1 where bc: "block_comment_body (sc_token_start s) (advance 2 s) = (c, l, s1)" by (metis prod_cases3)
  note bo = block_comment_body_after [OF a2(2) bc]
  show "after s s'" using process_comment_directive_after [OF after_trans [OF a2(1) bo]] assms(3) bc
    by (auto simp: scan_block_comment_token_def Let_def split: if_splits)
  show "sc_pos s < sc_pos s'" using after_pos [OF bo] assms(3) bc
    by (auto simp: scan_block_comment_token_def Let_def split: if_splits)
qed

lemma scan_escaped_identifier_ok:
  assumes "ok s" "char_here s = CHR 0x5C" "char_at s 1 = CHR ''u''"
  obtains s' v where "scan_escaped_identifier pre cp s = Some s'" "after s s'" "sc_pos s < sc_pos s'" "token_value_text s' = Some v"
proof -
  define s0 where "s0 = set_token_value (pre @ utf8_encode cp) s"
  have fr: "frame s0 = frame s" "sc_pos s0 = sc_pos s" by (simp_all add: s0_def)
  have s0: "ok s0" "char_here s0 = CHR 0x5C" "char_at s0 1 = CHR ''u''"
    using assms ok_same [OF fr] char_here_same [OF fr, of 1] by simp_all
  obtain c s1 where s1: "scan_unicode_escape True s0 = Some (c, s1)" "after s0 s1" "sc_pos s0 + 2 \<le> sc_pos s1"
    using scan_unicode_escape_ok [OF s0] by blast
  obtain r s2 where s2: "scan_identifier_parts s1 = Some (r, s2)" "after s1 s2" "sc_token_value s2 = sc_token_value s1"
    using scan_identifier_parts_ok [OF after_ok [OF s1(2) s0(1)]] by blast
  have v: "token_value_text s2 = Some (pre @ utf8_encode cp)"
    using scan_unicode_escape_value [OF s1(1)] s2(3) by (simp add: token_value_text_def s0_def set_token_value_def)
  have af: "after s s2" using after_trans [OF s1(2) s2(2)] by (simp add: s0_def)
  have "scan_escaped_identifier pre cp s = Some (set_token_value ((pre @ utf8_encode cp) @ r) s2)"
    using s1(1) s2(1) v unfolding scan_escaped_identifier_def Let_def s0_def [symmetric] by (simp add: push_str_token_value_def)
  then show thesis using that af s1(3) after_pos [OF s2(2)] fr by simp
qed

lemma escaped_identifier_start_ok:
  assumes "ok s" "char_here s = CHR 0x5C"
  obtains c where "escaped_identifier_start s = Some c" "c \<noteq> None \<Longrightarrow> char_at s 1 = CHR ''u''"
proof -
  obtain c where c: "peek_unicode_escape s = Some c" "c \<noteq> None \<Longrightarrow> char_at s 1 = CHR ''u''"
    using peek_unicode_escape_ok [OF assms] by blast
  show thesis
    by (rule that [of "case c of Some c \<Rightarrow> if is_identifier_start c then Some c else None | None \<Rightarrow> None"])
      (use c in \<open>auto simp: escaped_identifier_start_def split: option.splits\<close>)
qed

lemma scan_invalid_character_ok:
  assumes "ok s" "sc_pos s < sc_end s"
  shows "after s (scan_invalid_character s)" "sc_pos s < sc_pos (scan_invalid_character s)"
proof -
  obtain ch sz s1 where c: "char_and_size s = (ch, sz, s1)" by (metis prod_cases3)
  note cs = char_and_size_after [OF assms(1) c]
  have "sz \<noteq> 0" using char_and_size_ok(3) [OF assms(1) c] assms(2) by blast
  then show "after s (scan_invalid_character s)" "sc_pos s < sc_pos (scan_invalid_character s)"
    using cs(3,5) c by (simp_all add: scan_invalid_character_def)
qed

lemma set_identifier_token_ok:
  "token_value_text s = Some v \<Longrightarrow> set_identifier_token s = Some (s\<lparr>sc_token := get_identifier_token v\<rparr>)"
  by (simp add: set_identifier_token_def)

lemma scan_backslash_ok:
  assumes "ok s" "char_here s = CHR 0x5C"
  obtains s' where "scan_backslash s = Some s'" "after s s'" "sc_pos s < sc_pos s'"
proof -
  obtain c where c: "escaped_identifier_start s = Some c" "c \<noteq> None \<Longrightarrow> char_at s 1 = CHR ''u''"
    using escaped_identifier_start_ok [OF assms] by blast
  show thesis
  proof (cases c)
    case None
    have "sc_pos s < sc_end s" using char_here_before_end [of s] assms(2) by simp
    then show ?thesis using that scan_invalid_character_ok [OF assms(1)] None c by (simp add: scan_backslash_def)
  next
    case (Some cp)
    obtain s' v where "scan_escaped_identifier [] cp s = Some s'" "after s s'" "sc_pos s < sc_pos s'" "token_value_text s' = Some v"
      using scan_escaped_identifier_ok [OF assms] c(2) Some by blast
    then show ?thesis using that Some c(1) by (simp add: scan_backslash_def set_identifier_token_ok)
  qed
qed

lemma scan_hash_ok:
  assumes "ok s" "char_here s = CHR ''#''"
  obtains b s' where "scan_hash s = Some (b, s')" "after s s'" "sc_pos s < sc_pos s'"
proof -
  have a1: "after s (advance 1 s)" "ok (advance 1 s)" using advance_here [OF assms(1)] assms(2) by (simp_all add: byte_def)
  show thesis
  proof (cases "char_at s 1 = CHR ''!''")
    case True
    note a2 = two_ascii [OF assms(1)]
    have "after s (advance 2 s)" "ok (advance 2 s)" using a2 True by (simp_all add: byte_def)
    note sk = after_trans [OF this(1) skip_chars_after [OF this(2)]] after_pos [OF skip_chars_after [OF this(2)]]
    show ?thesis
    proof (cases "sc_pos s = 0")
      case zero: True
      then show ?thesis using that [of True] True sk [of "\<lambda>ch. \<not> is_line_break ch"] by (simp add: scan_hash_def)
    next
      case False
      then show ?thesis using that [of False] True a1(1) by (simp add: scan_hash_def Let_def)
    qed
  next
    case False
    note no_bang = this
    have e: "\<exists>cp. (if char_at s 1 = CHR 0x5C then escaped_identifier_start (advance 1 s) else Some None) = Some cp
        \<and> (cp \<noteq> None \<longrightarrow> char_here (advance 1 s) = CHR 0x5C \<and> char_at (advance 1 s) 1 = CHR ''u'')"
    proof (cases "char_at s 1 = CHR 0x5C")
      case True
      then have here: "char_here (advance 1 s) = CHR 0x5C" by (simp add: char_at_advance)
      obtain c where "escaped_identifier_start (advance 1 s) = Some c" "c \<noteq> None \<Longrightarrow> char_at (advance 1 s) 1 = CHR ''u''"
        using escaped_identifier_start_ok [OF a1(2) here] by blast
      then show ?thesis using True here by auto
    qed simp
    then obtain cp where cp: "(if char_at s 1 = CHR 0x5C then escaped_identifier_start (advance 1 s) else Some None) = Some cp"
      "cp \<noteq> None \<Longrightarrow> char_here (advance 1 s) = CHR 0x5C \<and> char_at (advance 1 s) 1 = CHR ''u''" by blast
    show ?thesis
    proof (cases cp)
      case (Some c)
      obtain s' v where s': "scan_escaped_identifier ''#'' c (advance 1 s) = Some s'" "after (advance 1 s) s'"
        using scan_escaped_identifier_ok [OF a1(2)] cp(2) Some by blast
      have "scan_hash s = Some (False, s'\<lparr>sc_token := PrivateIdentifier\<rparr>)"
        using cp(1) Some s'(1) no_bang unfolding scan_hash_def by simp
      then show ?thesis by (rule that) (use after_trans [OF a1(1) s'(2)] after_pos [OF s'(2)] in simp_all)
    next
      case None
      obtain b s' where s': "scan_identifier 1 s = Some (b, s')" "after (advance 1 s) s'"
        using scan_identifier_ok [OF assms(1) a1(2)] by blast
      have "\<exists>s2. scan_hash s = Some (False, s2) \<and> frame s2 = frame s' \<and> sc_pos s2 = sc_pos s'"
        using cp(1) None s'(1) no_bang unfolding scan_hash_def by (simp add: Let_def)
      then obtain s2 where s2: "scan_hash s = Some (False, s2)" "frame s2 = frame s'" "sc_pos s2 = sc_pos s'" by blast
      have "after s s2" using after_same [OF after_trans [OF a1(1) s'(2)] s2(2,3)] .
      then show ?thesis by (rule that [OF s2(1)]) (use s2 after_pos [OF s'(2)] in simp)
    qed
  qed
qed

lemma scan_other_ok:
  assumes "ok s" "sc_pos s < sc_end s"
  obtains b s' where "scan_other s = Some (b, s')" "after s s'" "sc_pos s < sc_pos s'"
proof -
  have ok0: "ok (advance 0 s)" using assms(1) by (simp add: advance_def)
  obtain f s1 where f: "scan_identifier 0 s = Some (f, s1)" "after s s1" "f \<Longrightarrow> sc_pos s + 0 < sc_pos s1"
    "\<not> f \<Longrightarrow> sc_pos s1 = sc_pos s + 0" "f \<Longrightarrow> token_value_text s1 \<noteq> None"
    using scan_identifier_ok [OF assms(1) ok0] by (auto simp: advance_def)
  show thesis
  proof (cases f)
    case True
    then obtain v where "token_value_text s1 = Some v" using f(5) by auto
    then have "scan_other s = Some (False, s1\<lparr>sc_token := get_identifier_token v\<rparr>)"
      using True f(1) by (simp add: scan_other_def set_identifier_token_ok)
    then show ?thesis by (rule that) (use f True in simp_all)
  next
    case False
    have s1: "ok s1" "sc_pos s1 = sc_pos s" "sc_pos s1 < sc_end s1"
      using after_ok [OF f(2) assms(1)] f(4) False after_end [OF f(2)] assms(2) by auto
    obtain ch sz s2 where c: "char_and_size s1 = (ch, sz, s2)" by (metis prod_cases3)
    note cs = char_and_size_after [OF s1(1) c]
    have sz: "sz \<noteq> 0" using char_and_size_ok(3) [OF s1(1) c] s1(3) by blast
    have fr: "frame s2 = frame s1" "sc_pos s2 = sc_pos s1" using char_and_size_ok(1,2) [OF s1(1) c] .
    have lt2: "sc_pos s2 < sc_end s2" using s1(3) fr frameD [OF fr(1)] by simp
    have to_end: "after s (s2\<lparr>sc_pos := sc_end s2\<rparr>)"
      using after_trans [OF f(2) cs(1)] ok_pos_le [OF cs(2)] cs(2) by (auto simp: after_def ok_def core_of_def)
    note sk = skip_chars_after [OF cs(4), of is_white_space_single_line]
    note inv = scan_invalid_character_ok [OF cs(2) lt2]
    have st: "after s (advance sz s2)" "sc_pos s < sc_pos (advance sz s2)"
      "after s (skip_chars is_white_space_single_line (advance sz s2))"
      "sc_pos s < sc_pos (skip_chars is_white_space_single_line (advance sz s2))"
      "after s (scan_invalid_character s2)" "sc_pos s < sc_pos (scan_invalid_character s2)"
      using after_trans [OF f(2) cs(3)] cs(5) [OF sz] s1(2) after_trans [OF after_trans [OF f(2) cs(3)] sk] after_pos [OF sk]
        after_trans [OF after_trans [OF f(2) cs(1)] inv(1)] inv(2) fr(2) by auto
    have "\<exists>b s'. scan_other s = Some (b, s') \<and> after s s' \<and> sc_pos s < sc_pos s'"
    proof (cases "ch = 0xFFFD")
      case True
      have "after s ((error_at ''File_appears_to_be_binary'' 0 0 [] s2)\<lparr>sc_pos := sc_end s2, sc_token := NonTextFileMarkerTrivia\<rparr>)"
        using to_end by (simp add: after_def)
      moreover have "sc_pos s < sc_end s2" using lt2 fr(2) s1(2) by simp
      ultimately show ?thesis using True False f(1) c by (auto simp: scan_other_def)
    next
      case nb: False
      then show ?thesis using False f(1) c st by (auto simp: scan_other_def Let_def)
    qed
    then show ?thesis using that by blast
  qed
qed

lemma punctuation_ascii:
  assumes "punctuation s = Some (n, k)"
  shows "0 < n \<and> char_at s (n - 1) \<noteq> CHR 0x00 \<and> byte (char_at s (n - 1)) < 0x80 \<and> k \<noteq> EndOfFile"
  using assms unfolding punctuation_def Let_def char_here_at
  by (simp split: if_split_asm; simp add: byte_def; (elim conjE)?; simp)

lemma punctuation_ok:
  assumes "ok s" "punctuation s = Some (n, k)"
  shows "after s (advance n s)" "sc_pos s < sc_pos (advance n s)"
  using punctuation_ascii [OF assms(2)] advance_ascii(1) [OF assms(1), of "n - 1"] by simp_all


text \<open>One turn of the loop of \<open>scan\<close> takes at least one character, unless it is at the end of the text.\<close>

lemma scan_step_ok:
  assumes "ok s" "escapes_ascii (sc_text s)"
  obtains b s' where "scan_step num s = Some (b, s')" "after (s\<lparr>sc_token_start := sc_pos s\<rparr>) s'"
    "sc_pos s < sc_pos s' \<or> \<not> b \<and> sc_token s' = EndOfFile \<and> sc_pos s = sc_end s \<and> sc_pos s' = sc_pos s"
proof -
  define s0 where "s0 = clear_token_value (s\<lparr>sc_token_start := sc_pos s\<rparr>)"
  have s0: "ok s0" "sc_pos s0 = sc_pos s" "escapes_ascii (sc_text s0)" "sc_end s0 = sc_end s"
    using assms by (simp_all add: s0_def ok_def)
  define ch where "ch = char_here s0"
  note defs = scan_step_def Let_def s0_def [symmetric] ch_def [symmetric]
  note adv = advance_here [OF s0(1), folded ch_def]
  have "\<exists>b s'. scan_step num s = Some (b, s') \<and> after s0 s'
      \<and> (sc_pos s < sc_pos s' \<or> \<not> b \<and> sc_token s' = EndOfFile \<and> sc_pos s = sc_end s \<and> sc_pos s' = sc_pos s)"
  proof -
    consider (ws) "ch \<in> {CHR 0x09, CHR 0x0B, CHR 0x0C, CHR 0x20}" | (nl) "ch = CHR 0x0A \<or> ch = CHR 0x0D"
      | (str) "ch = CHR 0x22 \<or> ch = CHR 0x27" | (tmpl) "ch = CHR ''`''" | (dot) "ch = CHR ''.''" "is_ascii_digit (char_at s0 1)"
      | (lc) "ch = CHR ''/''" "char_at s0 1 = CHR ''/''" | (bc) "ch = CHR ''/''" "char_at s0 1 = CHR ''*''"
      | (zero) "ch = CHR ''0''" | (num) "ch \<in> set ''123456789''"
      | (cm) "ch \<in> set ''<=>|''" "is_conflict_marker_trivia (sc_text s0) (sc_pos s0)"
      | (bs) "ch = CHR 0x5C" | (hash) "ch = CHR ''#''"
      | (rest) "ch \<notin> {CHR 0x09, CHR 0x0B, CHR 0x0C, CHR 0x20}" "\<not> (ch = CHR 0x0A \<or> ch = CHR 0x0D)"
          "\<not> (ch = CHR 0x22 \<or> ch = CHR 0x27)" "ch \<noteq> CHR ''`''" "\<not> (ch = CHR ''.'' \<and> is_ascii_digit (char_at s0 1))"
          "\<not> (ch = CHR ''/'' \<and> char_at s0 1 = CHR ''/'')" "\<not> (ch = CHR ''/'' \<and> char_at s0 1 = CHR ''*'')"
          "ch \<noteq> CHR ''0''" "ch \<notin> set ''123456789''"
          "\<not> (ch \<in> set ''<=>|'' \<and> is_conflict_marker_trivia (sc_text s0) (sc_pos s0))" "ch \<noteq> CHR 0x5C" "ch \<noteq> CHR ''#''"
      by satx
    then show ?thesis
    proof cases
      case ws
      then have a: "after s0 (advance 1 s0)" "ok (advance 1 s0)" using adv by (auto simp: byte_def)
      note sk = skip_chars_after [OF a(2), of is_white_space_single_line]
      show ?thesis using ws a(1) after_trans [OF a(1) sk] after_pos [OF sk] s0(2) unfolding defs by auto
    next
      case nl
      then have a: "after s0 (advance 1 s0)" using adv by (auto simp: byte_def)
      have a2: "after s0 (advance 2 s0)" if "char_at s0 1 = CHR 0x0A"
        using two_ascii(1) [OF s0(1)] that by (simp add: byte_def)
      have same: "char_at (add_flags PRECEDING_LINE_BREAK s0) 1 = char_at s0 1" by (simp add: char_at_def)
      show ?thesis using nl a a2 s0(2) unfolding defs same by (auto simp: byte_def)
    next
      case str
      obtain s' where "scan_string_and_set_token_value False s0 = Some s'" "after s0 s'" "sc_pos s0 < sc_pos s'"
        using scan_string_and_set_token_value_ok [OF s0(1) str [unfolded ch_def] s0(3)] by blast
      moreover have "scan_step num s = map_option (\<lambda>s. (False, s\<lparr>sc_token := StringLiteral\<rparr>)) (scan_string_and_set_token_value False s0)"
        using str unfolding defs by (elim disjE) simp_all
      ultimately show ?thesis using s0(2) by auto
    next
      case tmpl
      have "char_here s0 \<noteq> CHR 0x00" "byte (char_here s0) < 0x80" using tmpl unfolding ch_def by (simp_all add: byte_def)
      then obtain k s' where "scan_template_and_set_token_value False s0 = Some (k, s')" "after s0 s'" "sc_pos s0 < sc_pos s'"
        using scan_template_and_set_token_value_ok [OF s0(1) _ _ s0(3), of False] by blast
      moreover have "scan_step num s = map_option (\<lambda>(k, s). (False, s\<lparr>sc_token := k\<rparr>)) (scan_template_and_set_token_value False s0)"
        using tmpl unfolding defs by simp
      ultimately show ?thesis using s0(2) by auto
    next
      case dot
      obtain k s' where "scan_number num s0 = Some (k, s')" "after s0 s'" "sc_pos s0 < sc_pos s'"
        using scan_number_ok [OF s0(1)] dot(1) unfolding ch_def by blast
      moreover have "scan_step num s = map_option (\<lambda>(k, s). (False, s\<lparr>sc_token := k\<rparr>)) (scan_number num s0)"
        using dot unfolding defs by simp
      ultimately show ?thesis using s0(2) by auto
    next
      case lc
      obtain b s' where c: "scan_line_comment_token s0 = (b, s')" by fastforce
      have "scan_step num s = Some (scan_line_comment_token s0)" using lc unfolding defs by simp
      then show ?thesis using scan_line_comment_token_ok [OF s0(1) lc(2) c] s0(2) c by simp
    next
      case bc
      obtain b s' where c: "scan_block_comment_token s0 = (b, s')" by fastforce
      have "scan_step num s = Some (scan_block_comment_token s0)" using bc unfolding defs by simp
      then show ?thesis using scan_block_comment_token_ok [OF s0(1) bc(2) c] s0(2) c by simp
    next
      case zero
      obtain s' where "scan_zero num s0 = Some s'" "after s0 s'" "sc_pos s0 < sc_pos s'"
        using scan_zero_ok [OF s0(1)] zero unfolding ch_def by blast
      moreover have "scan_step num s = map_option (Pair False) (scan_zero num s0)" using zero unfolding defs by simp
      ultimately show ?thesis using s0(2) by auto
    next
      case num
      then have "is_ascii_digit ch" by (auto simp: is_ascii_digit_def)
      then obtain k s' where "scan_number num s0 = Some (k, s')" "after s0 s'" "sc_pos s0 < sc_pos s'"
        using scan_number_ok [OF s0(1)] unfolding ch_def by blast
      moreover have "scan_step num s = map_option (\<lambda>(k, s). (False, s\<lparr>sc_token := k\<rparr>)) (scan_number num s0)"
        using num [simplified] unfolding defs by (elim disjE) simp_all
      ultimately show ?thesis using s0(2) by auto
    next
      case cm
      obtain e where e: "scan_conflict_marker_trivia (sc_text s0) (sc_pos s0) = Some e" "sc_pos s0 < e" "is_char_boundary (sc_text s0) e"
        using scan_conflict_marker_trivia_ok [OF _ cm(2)] s0(1) unfolding ok_def by blast
      then have "after s0 ((error_at ''Merge_conflict_marker_encountered'' (sc_pos s0) 7 [] s0)\<lparr>sc_pos := e, sc_token := ConflictMarkerTrivia\<rparr>)"
        by (simp add: after_def)
      moreover have "scan_step num s = map_option (\<lambda>(_, s). (sc_skip_trivia s, s)) (scan_conflict_marker_as_token s0)"
        using cm(1) [simplified] cm(2) unfolding defs by (elim disjE) simp_all
      ultimately show ?thesis using e s0(2) cm(2) by (auto simp: scan_conflict_marker_as_token_def Let_def)
    next
      case bs
      obtain s' where "scan_backslash s0 = Some s'" "after s0 s'" "sc_pos s0 < sc_pos s'"
        using scan_backslash_ok [OF s0(1)] bs unfolding ch_def by blast
      moreover have "scan_step num s = map_option (Pair False) (scan_backslash s0)" using bs unfolding defs by simp
      ultimately show ?thesis using s0(2) by auto
    next
      case hash
      obtain b s' where "scan_hash s0 = Some (b, s')" "after s0 s'" "sc_pos s0 < sc_pos s'"
        using scan_hash_ok [OF s0(1)] hash unfolding ch_def by blast
      moreover have "scan_step num s = scan_hash s0" using hash unfolding defs by simp
      ultimately show ?thesis using s0(2) by auto
    next
      case rest
      have eq: "scan_step num s = (case punctuation s0 of
          Some (n, k) \<Rightarrow> Some (False, (advance n s0)\<lparr>sc_token := k\<rparr>)
        | None \<Rightarrow> if ch = CHR 0x00 \<and> sc_pos s0 \<ge> sc_end s0 then Some (False, s0\<lparr>sc_token := EndOfFile\<rparr>) else scan_other s0)"
        unfolding defs by (simp only: rest if_False)
      show ?thesis
      proof (cases "punctuation s0")
        case (Some nk)
        then obtain n k where "punctuation s0 = Some (n, k)" by (cases nk) auto
        then show ?thesis using eq punctuation_ok [OF s0(1)] s0(2) by auto
      next
        case None
        show ?thesis
        proof (cases "sc_pos s0 < sc_end s0")
          case True
          obtain b s' where "scan_other s0 = Some (b, s')" "after s0 s'" "sc_pos s0 < sc_pos s'"
            using scan_other_ok [OF s0(1) True] by blast
          then show ?thesis using eq None True s0(2) by auto
        next
          case False
          then have "ch = CHR 0x00" by (simp add: ch_def char_here_def)
          then show ?thesis using eq None False s0 after_refl [OF s0(1)] ok_pos_le [OF s0(1)] by auto
        qed
      qed
    qed
  qed
  then show thesis using that unfolding s0_def by auto
qed

end
