(* ===== verification/ScannerRuns.thy ===== *)
theory ScannerRuns
  imports ScannerTokens
begin

text \<open>
  Whole runs of the scanner: \<open>scan\<close> returns from every character boundary, a run from the start of a text
  gives tokens that cover it without a gap and ends with the end of file, and a run can be taken back
  with \<open>mark\<close> and \<open>rewind\<close>.
\<close>

section \<open>The kinds of tokens\<close>

named_theorems not_eof

lemma template_loop_kind:
  "template_loop b e vs r st s = Some y \<Longrightarrow> fst y \<noteq> EndOfFile"
  by (erule template_loop.raw_induct [where P = "\<lambda>_ _ _ _ _ _ y. fst y \<noteq> EndOfFile", rotated])
    (auto simp: Let_def split: if_splits prod.splits bind_splits)

lemma scan_template_kind [not_eof]: "scan_template_and_set_token_value e s = Some (k, s') \<Longrightarrow> k \<noteq> EndOfFile"
  using template_loop_kind by (fastforce simp: scan_template_and_set_token_value_def Let_def)

lemma scan_big_int_suffix_kind [not_eof]: "scan_big_int_suffix num s = Some (k, s') \<Longrightarrow> k \<noteq> EndOfFile"
  by (auto simp: scan_big_int_suffix_def Let_def split: if_splits bind_splits)

lemma check_identifier_follows_kind: "check_identifier_follows a b r s = Some (k, s') \<Longrightarrow> k = r"
  by (auto simp: check_identifier_follows_def Let_def split: if_splits bind_splits prod.splits)

lemma checked_suffix_kind:
  "scan_big_int_suffix num s = Some (r, t) \<Longrightarrow> check_identifier_follows a b r t = Some (k, s') \<Longrightarrow> k \<noteq> EndOfFile"
  using check_identifier_follows_kind scan_big_int_suffix_kind by blast

lemma scan_number_kind [not_eof]: "scan_number num s = Some (k, s') \<Longrightarrow> k \<noteq> EndOfFile"
  by (auto simp: scan_number_def Let_def split: if_splits bind_splits prod.splits sum.splits
      dest: checked_suffix_kind check_identifier_follows_kind)

lemma scan_zero_kind [not_eof]: "scan_zero num s = Some s' \<Longrightarrow> sc_token s' \<noteq> EndOfFile"
  by (auto simp: scan_zero_def scan_hex_literal_def scan_binary_or_octal_literal_def Let_def
      split: if_splits bind_splits prod.splits dest: scan_big_int_suffix_kind scan_number_kind)

lemma punctuation_kind [not_eof]: "punctuation s = Some (n, k) \<Longrightarrow> k \<noteq> EndOfFile"
  using punctuation_ascii by blast

lemma keyword_table_kind: "list_all (\<lambda>(_, k). k \<noteq> EndOfFile) keyword_table"
  by code_simp

lemma get_identifier_token_kind: "get_identifier_token v \<noteq> EndOfFile"
  using map_of_list_all [OF keyword_table_kind, of v]
  by (auto simp: get_identifier_token_def string_to_keyword_kind_def Let_def split: option.splits)

lemma set_identifier_token_kind [not_eof]: "set_identifier_token s = Some s' \<Longrightarrow> sc_token s' \<noteq> EndOfFile"
  using get_identifier_token_kind by (auto simp: set_identifier_token_def)

lemma scan_invalid_character_kind [simp]: "sc_token (scan_invalid_character s) = Unknown"
  by (simp add: scan_invalid_character_def split: prod.splits)

lemma scan_backslash_kind [not_eof]: "scan_backslash s = Some s' \<Longrightarrow> sc_token s' \<noteq> EndOfFile"
  by (auto simp: scan_backslash_def split: bind_splits option.splits dest: set_identifier_token_kind)

lemma scan_hash_kind [not_eof]: "scan_hash s = Some (False, s') \<Longrightarrow> sc_token s' \<noteq> EndOfFile"
  by (auto simp: scan_hash_def Let_def split: if_splits bind_splits option.splits)

lemma scan_other_kind [not_eof]: "scan_other s = Some (False, s') \<Longrightarrow> sc_token s' \<noteq> EndOfFile"
  by (auto simp: scan_other_def Let_def split: if_splits bind_splits prod.splits dest: set_identifier_token_kind)

lemma comment_token_kind [not_eof]:
  "scan_line_comment_token s = (False, s') \<Longrightarrow> sc_token s' \<noteq> EndOfFile"
  "scan_block_comment_token s = (False, s') \<Longrightarrow> sc_token s' \<noteq> EndOfFile"
  by (auto simp: scan_line_comment_token_def scan_block_comment_token_def Let_def split: if_splits prod.splits)

lemma scan_conflict_marker_kind [not_eof]:
  "scan_conflict_marker_as_token s = Some (b, s') \<Longrightarrow> is_conflict_marker_trivia (sc_text s) (sc_pos s)
   \<Longrightarrow> sc_token s' \<noteq> EndOfFile"
  by (auto simp: scan_conflict_marker_as_token_def Let_def split: bind_splits)

lemma scan_step_eof:
  assumes "scan_step num s = Some (False, s')" "sc_token s' = EndOfFile"
  shows "sc_end s \<le> sc_pos s"
  using assms
  by (auto simp: scan_step_def Let_def split: if_splits option.splits prod.splits dest: not_eof)

section \<open>One token\<close>

text \<open>What a call of \<open>scan\<close> may do to the state: the text and the options stay, the token lies between the old
  and the new position, and only the token of the end of file is empty.\<close>

definition setting :: "scanner \<Rightarrow> string \<times> nat \<times> bool \<times> language_variant" where
  "setting s = (sc_text s, sc_end s, sc_skip_trivia s, sc_language_variant s)"

definition token_read :: "scanner \<Rightarrow> scanner \<Rightarrow> bool" where
  "token_read s s' \<longleftrightarrow> setting s' = setting s \<and> sc_pos s \<le> sc_token_start s' \<and> sc_token_start s' \<le> sc_pos s'
     \<and> is_char_boundary (sc_text s) (sc_token_start s') \<and> is_char_boundary (sc_text s) (sc_pos s')
     \<and> prefix (sc_comment_directives s) (sc_comment_directives s')
     \<and> (if sc_token s' = EndOfFile then sc_token_start s' = sc_end s \<and> sc_pos s' = sc_end s
         else sc_token_start s' < sc_pos s')"

lemma token_read_ok: "token_read s s' \<Longrightarrow> ok s \<Longrightarrow> ok s'"
  by (auto simp: token_read_def ok_def setting_def)

lemma after_started:
  assumes "ok s" "after (s\<lparr>sc_token_start := sc_pos s\<rparr>) s'"
  shows "ok s'" "setting s' = setting s" "sc_full_start_pos s' = sc_full_start_pos s" "sc_token_start s' = sc_pos s"
    "sc_pos s \<le> sc_pos s'" "is_char_boundary (sc_text s) (sc_pos s')"
    "prefix (sc_comment_directives s) (sc_comment_directives s')"
  using assms by (auto simp: after_def ok_def core_of_def setting_def)

lemma scan_loop_ok:
  assumes "ok s" "escapes_ascii (sc_text s)"
  shows "\<exists>s'. scan_loop num s = Some s' \<and> token_read s s' \<and> sc_full_start_pos s' = sc_full_start_pos s"
  using assms
proof (induction "sc_end s - sc_pos s" arbitrary: s rule: less_induct)
  case less
  obtain b s1 where st: "scan_step num s = Some (b, s1)" "after (s\<lparr>sc_token_start := sc_pos s\<rparr>) s1"
      "sc_pos s < sc_pos s1 \<or> \<not> b \<and> sc_token s1 = EndOfFile \<and> sc_pos s = sc_end s \<and> sc_pos s1 = sc_pos s"
    using scan_step_ok [OF less.prems] by blast
  note a = after_started [OF less.prems(1) st(2)]
  note unf = scan_loop.simps [of num s]
  show ?case
  proof (cases b)
    case True
    then have lt: "sc_pos s < sc_pos s1" using st(3) by blast
    have se: "sc_text s1 = sc_text s" "sc_end s1 = sc_end s" using a(2) by (simp_all add: setting_def)
    have "sc_end s1 - sc_pos s1 < sc_end s - sc_pos s" using lt ok_pos_le [OF a(1)] se by linarith
    from less.hyps [OF this a(1)] obtain s' where s': "scan_loop num s1 = Some s'" "token_read s1 s'"
        "sc_full_start_pos s' = sc_full_start_pos s1"
      using less.prems(2) se by auto
    have "token_read s s'" using s'(2) a(2,5,7) se by (auto simp: token_read_def intro: prefix_order.trans)
    then show ?thesis using unf st(1) True s' a(3) by simp
  next
    case False
    have eof: "sc_token s1 = EndOfFile \<Longrightarrow> sc_end s \<le> sc_pos s" using scan_step_eof [of num s s1] st(1) False by simp
    have "token_read s s1"
      using a st(3) eof ok_pos_le [OF less.prems(1)] ok_pos_le [OF a(1)] less.prems(1)
      by (auto simp: token_read_def ok_def setting_def)
    then show ?thesis using unf st(1) False a(3) by simp
  qed
qed

lemma scan_ok:
  assumes "ok s" "escapes_ascii (sc_text s)"
  obtains s' where "scan num s = Some s'" "token_read s s'" "sc_full_start_pos s' = sc_pos s" "ok s'" "sc_text s' = sc_text s"
proof -
  define s0 where "s0 = s\<lparr>sc_full_start_pos := sc_pos s, sc_token_flags := 0\<rparr>"
  have s0: "ok s0" "escapes_ascii (sc_text s0)" using assms by (simp_all add: s0_def ok_def)
  obtain s' where s': "scan_loop num s0 = Some s'" "token_read s0 s'" "sc_full_start_pos s' = sc_full_start_pos s0"
    using scan_loop_ok [OF s0] by blast
  have "token_read s s'" using s'(2) by (simp add: token_read_def s0_def setting_def)
  then show thesis using that s' token_read_ok [OF _ assms(1)] by (simp add: scan_def s0_def token_read_def setting_def)
qed


section \<open>Whole texts\<close>

text \<open>The calls of \<open>scan\<close> up to the end of file, with the state after each; and the text of a token with the
  trivia in front of it.\<close>

fun scan_tokens :: "(string \<Rightarrow> string) \<Rightarrow> nat \<Rightarrow> scanner \<Rightarrow> scanner list option" where
  "scan_tokens num 0 s = None"
| "scan_tokens num (Suc fuel) s =
     (case scan num s of
        None \<Rightarrow> None
      | Some s' \<Rightarrow> if sc_token s' = EndOfFile then Some [s'] else map_option (Cons s') (scan_tokens num fuel s'))"

definition token_full_text :: "scanner \<Rightarrow> string option" where
  "token_full_text s =
     Option.bind (str_slice (sc_text s) (sc_full_start_pos s) (sc_token_start s)) (\<lambda>trivia.
       map_option (\<lambda>token. trivia @ token) (token_text s))"

lemma token_full_text_read:
  assumes "ok s" "token_read s s'" "sc_full_start_pos s' = sc_pos s"
  shows "token_full_text s' = Some (take (sc_pos s' - sc_pos s) (drop (sc_pos s) (sc_text s)))"
proof -
  have t: "sc_text s' = sc_text s" "sc_pos s \<le> sc_token_start s'" "sc_token_start s' \<le> sc_pos s'"
    and b: "is_char_boundary (sc_text s) (sc_pos s)" "is_char_boundary (sc_text s) (sc_token_start s')"
      "is_char_boundary (sc_text s) (sc_pos s')"
    using assms by (auto simp: token_read_def ok_def setting_def)
  show ?thesis
    using slice_boundaries [OF b(1,2) t(2)] slice_boundaries [OF b(2,3) t(3)] t assms(3)
      take_add [of "sc_token_start s' - sc_pos s" "sc_pos s' - sc_token_start s'" "drop (sc_pos s) (sc_text s)"]
    by (simp add: token_full_text_def token_text_def)
qed

definition full_run :: "scanner list \<Rightarrow> string \<Rightarrow> bool" where
  "full_run toks t \<longleftrightarrow> toks \<noteq> [] \<and> sc_token (last toks) = EndOfFile
     \<and> list_all (\<lambda>s. sc_token s \<noteq> EndOfFile \<and> token_text s \<noteq> Some []) (butlast toks)
     \<and> (\<exists>parts. map token_full_text toks = map Some parts \<and> concat parts = t)"

lemma full_run_single: "sc_token s = EndOfFile \<Longrightarrow> token_full_text s = Some t \<Longrightarrow> full_run [s] t"
  by (auto simp: full_run_def intro!: exI [of _ "[t]"])

lemma full_run_Cons:
  "full_run toks t \<Longrightarrow> sc_token s \<noteq> EndOfFile \<Longrightarrow> token_text s \<noteq> Some [] \<Longrightarrow> token_full_text s = Some p
   \<Longrightarrow> full_run (s # toks) (p @ t)"
  unfolding full_run_def by (auto intro: exI [of _ "p # parts" for parts])

lemma scan_tokens_ok:
  assumes "ok s" "escapes_ascii (sc_text s)" "sc_end s - sc_pos s < fuel"
  shows "\<exists>toks. scan_tokens num fuel s = Some toks \<and> full_run toks (drop (sc_pos s) (sc_text s))"
  using assms
proof (induction fuel arbitrary: s)
  case (Suc fuel)
  obtain s' where s': "scan num s = Some s'" "token_read s s'" "sc_full_start_pos s' = sc_pos s" "ok s'" "sc_text s' = sc_text s"
    using scan_ok [OF Suc.prems(1,2)] by blast
  note ft = token_full_text_read [OF Suc.prems(1) s'(2,3)]
  have len: "sc_end s = length (sc_text s)" "sc_end s' = sc_end s" using Suc.prems(1) s'(2) by (auto simp: ok_def token_read_def setting_def)
  show ?case
  proof (cases "sc_token s' = EndOfFile")
    case True
    then have "sc_pos s' = length (sc_text s)" using s'(2) len by (simp add: token_read_def)
    then show ?thesis using True s'(1) full_run_single [OF True ft] by simp
  next
    case False
    then have lt: "sc_pos s \<le> sc_token_start s'" "sc_token_start s' < sc_pos s'" "is_char_boundary (sc_text s) (sc_token_start s')"
        "is_char_boundary (sc_text s) (sc_pos s')"
      using s'(2) by (auto simp: token_read_def)
    have "sc_end s' - sc_pos s' < fuel" using Suc.prems(3) lt len ok_pos_le [OF s'(4)] by linarith
    from Suc.IH [OF s'(4) _ this] obtain toks where toks: "scan_tokens num fuel s' = Some toks"
        "full_run toks (drop (sc_pos s') (sc_text s'))"
      using Suc.prems(2) s'(5) by auto
    have "token_text s' \<noteq> Some []"
      using slice_boundaries [OF lt(3,4)] lt(2) s'(5) boundary_le [OF lt(4)] by (auto simp: token_text_def)
    from full_run_Cons [OF toks(2) False this ft]
    have "full_run (s' # toks) (drop (sc_pos s) (sc_text s))"
      using append_take_drop_id [of "sc_pos s' - sc_pos s" "drop (sc_pos s) (sc_text s)"] lt(1,2) s'(5) by (simp del: append_take_drop_id)
    then show ?thesis using False s'(1) toks(1) by simp
  qed
qed simp

text \<open>C1: from the start of any UTF-8 text in which no backslash stands before a character outside ASCII, repeated
  calls of \<open>scan\<close> reach the end of file after at most one call per byte and one more. Every call returns without a
  panic, every token but the last is not empty, and the tokens with the trivia in front of them are the text.\<close>

theorem scan_covers_text:
  assumes "valid_text text" "escapes_ascii text"
  shows "\<exists>toks. scan_tokens num (length text + 1) (set_text text s) = Some toks \<and> full_run toks text"
proof -
  have "ok (set_text text s)" using assms(1) using boundary_0 by (simp add: ok_def set_text_def)
  from scan_tokens_ok [OF this, of "length text + 1" num] show ?thesis using assms(2) by (simp add: set_text_def)
qed

theorem scan_covers_text_witness:
  "\<exists>toks. scan_tokens (\<lambda>v. v) 9 (set_text ''a/*b*/=1'' (new_scanner_on [])) = Some toks \<and> full_run toks ''a/*b*/=1''"
proof -
  have "valid_text ''a/*b*/=1''" unfolding valid_text_def
    by (rule exI [of _ "[97, 47, 42, 98, 42, 47, 61, 49]"]) code_simp
  moreover have "escapes_ascii ''a/*b*/=1''" by code_simp
  ultimately show ?thesis using scan_covers_text [of "''a/*b*/=1''" "\<lambda>v. v" "new_scanner_on []"]
    by (simp del: scan_tokens.simps add: numeral_eq_Suc)
qed

section \<open>Speculation\<close>

fun scan_times :: "(string \<Rightarrow> string) \<Rightarrow> nat \<Rightarrow> scanner \<Rightarrow> scanner option" where
  "scan_times num 0 s = Some s"
| "scan_times num (Suc n) s = Option.bind (scan num s) (scan_times num n)"

lemma scan_times_ok:
  assumes "ok s" "escapes_ascii (sc_text s)"
  shows "\<exists>s'. scan_times num n s = Some s' \<and> setting s' = setting s \<and> prefix (sc_comment_directives s) (sc_comment_directives s')"
  using assms
proof (induction n arbitrary: s)
  case (Suc n)
  obtain s1 where s1: "scan num s = Some s1" "token_read s s1" "ok s1" "sc_text s1 = sc_text s"
    using scan_ok [OF Suc.prems] by blast
  obtain s' where "scan_times num n s1 = Some s'" "setting s' = setting s1" "prefix (sc_comment_directives s1) (sc_comment_directives s')"
    using Suc.IH [OF s1(3)] Suc.prems(2) s1(4) by auto
  then show ?case using s1 by (auto simp: token_read_def intro: prefix_order.trans)
qed simp

text \<open>C9: what \<open>mark\<close> saves is enough: after any number of calls of \<open>scan\<close>, \<open>rewind\<close> gives the marked state back,
  comment directives included; only the diagnostics and the flag for characters outside ASCII stay.\<close>

theorem rewind_restores:
  assumes "ok s" "escapes_ascii (sc_text s)"
  shows "\<exists>s'. scan_times num n s = Some s' \<and>
    (rewind (mark s) s')\<lparr>sc_contains_non_ascii := sc_contains_non_ascii s, sc_diagnostics := sc_diagnostics s\<rparr> = s"
proof -
  obtain s' where s': "scan_times num n s = Some s'" "setting s' = setting s" "prefix (sc_comment_directives s) (sc_comment_directives s')"
    using scan_times_ok [OF assms] by blast
  then show ?thesis by (auto simp: rewind_def mark_def setting_def prefix_def intro!: exI [of _ s'])
qed

theorem rewind_restores_witness:
  "\<exists>s'. scan_times (\<lambda>v. v) 1 (new_scanner_on ''//@ts-ignore'') = Some s' \<and>
    (rewind (mark (new_scanner_on ''//@ts-ignore'')) s')\<lparr>sc_contains_non_ascii := False, sc_diagnostics := []\<rparr>
      = new_scanner_on ''//@ts-ignore''"
proof -
  define s where "s = new_scanner_on ''//@ts-ignore''"
  have "valid_text ''//@ts-ignore''" unfolding valid_text_def
    by (rule exI [of _ "[47, 47, 64, 116, 115, 45, 105, 103, 110, 111, 114, 101]"]) code_simp
  then have "ok s" using boundary_0 by (simp add: ok_def s_def new_scanner_on_def)
  moreover have "escapes_ascii (sc_text s)" unfolding s_def by code_simp
  ultimately show ?thesis using rewind_restores [of s "\<lambda>v. v" 1] by (simp add: s_def new_scanner_on_def)
qed

text \<open>The directive of the comment is there before the state is taken back.\<close>

lemma rewind_truncates:
  "map_option (\<lambda>s. (sc_token s, length (sc_comment_directives s), length (sc_comment_directives (rewind (mark (new_scanner_on [])) s))))
     (scan_times (\<lambda>v. v) 1 (new_scanner_on ''//@ts-ignore'')) = Some (EndOfFile, 1, 0)"
  by code_simp

section \<open>Escapes before characters outside ASCII, and surrogates\<close>


end
