(* ===== verification/ScannerTrivia.thy ===== *)
theory ScannerTrivia
  imports ScannerRuns
begin

text \<open>
  The two ways to find the start of a token agree: the loop of \<open>scan\<close>, which skips trivia one turn at a time on
  the state of the scanner, and \<open>skip_trivia\<close>, which works on the text.
\<close>

section \<open>Where comments end\<close>

lemma char_bytes:
  assumes "valid_text t" "is_char_boundary t p" "next_char (drop p t) = Some c" "p < i" "i < p + len_utf8 c"
  shows "0x80 \<le> byte (t ! i)" "0x80 \<le> c"
proof -
  obtain cs where r: "runes cs" and t: "t = enc cs" using assms(1) by (auto simp: valid_text_def)
  obtain us vs where cs: "cs = us @ vs" and p: "p = length (enc us)"
    using boundary_is_prefix [OF r] assms(2) t by blast
  obtain d ws where vs: "vs = d # ws" using assms(3) by (cases vs) (auto simp: t cs p)
  have d: "is_scalar d" "d = c" using r assms(3) by (simp_all add: t cs p vs)
  have "i - p < len_utf8 c" "\<not> i < p" using assms(4,5) by auto
  then have "t ! i = utf8_encode c ! (i - p)" using d(2) by (simp add: t cs p vs nth_append)
  then show "0x80 \<le> byte (t ! i)" using continuation_bytes [OF d(1), of "i - p"] assms(4,5) d(2) by simp
  show "0x80 \<le> c" using assms(4,5) by (auto simp: len_utf8_def split: if_splits)
qed

definition no_line_separators :: "string \<Rightarrow> bool" where
  "no_line_separators t \<longleftrightarrow> list_all (\<lambda>c. c \<noteq> 0x2028 \<and> c \<noteq> 0x2029) (chars_of t)"

lemma no_line_separatorsD:
  assumes "no_line_separators t" "valid_text t" "is_char_boundary t p" "next_char (drop p t) = Some c" "is_line_break c"
  shows "c = 13 \<or> c = 10"
proof -
  obtain cs where r: "runes cs" and t: "t = enc cs" using assms(2) by (auto simp: valid_text_def)
  obtain us vs where cs: "cs = us @ vs" and p: "p = length (enc us)"
    using boundary_is_prefix [OF r] assms(3) t by blast
  obtain d ws where vs: "vs = d # ws" using assms(4) by (cases vs) (auto simp: t cs p)
  have "d = c" using r assms(4) by (simp add: t cs p vs)
  then have "c \<noteq> 0x2028 \<and> c \<noteq> 0x2029"
    using assms(1) chars_of_enc [OF r] by (simp add: no_line_separators_def t cs vs)
  then show ?thesis using assms(5) by (auto simp: is_line_break_def)
qed

text \<open>The end of a line: the first carriage return or line feed, or the end of the text.\<close>

abbreviation "line_feed c \<equiv> byte c = 13 \<or> byte c = 10"

definition ends_line :: "string \<Rightarrow> nat \<Rightarrow> nat \<Rightarrow> bool" where
  "ends_line t p e \<longleftrightarrow> p \<le> e \<and> e \<le> length t \<and> (\<forall>i. p \<le> i \<and> i < e \<longrightarrow> \<not> line_feed (t ! i)) \<and> (e < length t \<longrightarrow> line_feed (t ! e))"

lemma ends_line_unique: "ends_line t p e \<Longrightarrow> ends_line t p f \<Longrightarrow> e = f"
  unfolding ends_line_def by (metis linorder_neqE_nat order_less_le_trans)

lemma ends_line_scan: "valid_text t \<Longrightarrow> is_char_boundary t p \<Longrightarrow> ends_line t p e \<Longrightarrow> scan_line_comment t p = Some e"
proof -
  assume a: "valid_text t" "is_char_boundary t p" "ends_line t p e"
  obtain f where f: "scan_line_comment t p = Some f" "p \<le> f" "is_char_boundary t f"
      "\<And>i. p \<le> i \<Longrightarrow> i < f \<Longrightarrow> byte (t ! i) \<noteq> 13 \<and> byte (t ! i) \<noteq> 10" "f < length t \<Longrightarrow> byte (t ! f) = 13 \<or> byte (t ! f) = 10"
    using scan_line_comment_ok [OF a(1,2)] by metis
  then have "ends_line t p f" using boundary_le [OF f(3)] by (auto simp: ends_line_def)
  then show ?thesis using ends_line_unique [OF a(3)] f(1) by simp
qed

lemma ends_line_extend: "ends_line t q e \<Longrightarrow> p \<le> q \<Longrightarrow> (\<And>i. p \<le> i \<Longrightarrow> i < q \<Longrightarrow> \<not> line_feed (t ! i)) \<Longrightarrow> ends_line t p e"
  unfolding ends_line_def by (meson leI order_trans)

lemma skip_chars_line:
  assumes "ok s" "no_line_separators (sc_text s)"
  shows "ends_line (sc_text s) (sc_pos s) (sc_pos (skip_chars (\<lambda>ch. \<not> is_line_break ch) s))"
  using assms
proof (induction "\<lambda>ch. \<not> is_line_break ch" s rule: skip_chars.induct)
  case (1 s)
  let ?p = "\<lambda>ch. \<not> is_line_break ch"
  obtain ch sz s' where c: "char_and_size s = (ch, sz, s')" by (metis prod_cases3)
  note cs = char_and_size_after [OF 1(2) c] and co = char_and_size_ok [OF 1(2) c]
  have t: "valid_text (sc_text s)" "is_char_boundary (sc_text s) (sc_pos s)" "sc_end s = length (sc_text s)" "sc_text s' = sc_text s"
    using 1(2) after_text [OF cs(1)] by (auto simp: ok_def)
  show ?case
  proof (cases "sz = 0 \<or> is_line_break ch")
    case True
    then have "skip_chars ?p s = s'" using c by (simp add: skip_chars.simps [of ?p s])
    moreover have "line_feed (sc_text s ! sc_pos s)" if "sc_pos s < sc_end s"
    proof -
      have n: "next_char (drop (sc_pos s) (sc_text s)) = Some ch" "sz \<noteq> 0" using co(3,6) that by auto
      then have "ch = 13 \<or> ch = 10" using no_line_separatorsD [OF 1(3) t(1,2)] True by blast
      then show ?thesis using co(8) [OF that] that by (auto simp: char_here_def)
    qed
    ultimately show ?thesis using co(2) ok_pos_le [OF 1(2)] t(3) by (auto simp: ends_line_def)
  next
    case False
    then have sz: "sz \<noteq> 0" "sc_pos s < sc_end s" using co(3) by auto
    have eq: "skip_chars ?p s = skip_chars ?p (advance sz s')" using c False by (simp add: skip_chars.simps [of ?p s])
    have n: "next_char (drop (sc_pos s) (sc_text s)) = Some ch" "sz = len_utf8 ch" using co(6) [OF sz(2)] by auto
    have "ends_line (sc_text s) (sc_pos s + sz) (sc_pos (skip_chars ?p (advance sz s')))"
      using 1(1) [OF c [symmetric] refl refl _ cs(4)] False 1(3) t(4) co(2) by simp
    moreover have "\<not> line_feed (sc_text s ! i)" if "sc_pos s \<le> i" "i < sc_pos s + sz" for i
    proof (cases "i = sc_pos s")
      case True
      have "ch \<noteq> 13" "ch \<noteq> 10" using False by (auto simp: is_line_break_def)
      then show ?thesis using True co(7,8) [OF sz(2)] sz(2) by (auto simp: char_here_def)
    next
      case False
      then show ?thesis using char_bytes(1) [OF t(1,2) n(1), of i] that n(2) by auto
    qed
    ultimately show ?thesis using ends_line_extend eq by simp
  qed
qed

text \<open>The end of a block comment: after the first closing mark, or the end of the text.\<close>

definition closes :: "string \<Rightarrow> nat \<Rightarrow> bool" where
  "closes t i \<longleftrightarrow> i + 1 < length t \<and> t ! i = CHR ''*'' \<and> t ! (i + 1) = CHR ''/''"

definition ends_block :: "string \<Rightarrow> nat \<Rightarrow> nat \<Rightarrow> bool" where
  "ends_block t q e \<longleftrightarrow>
     (\<exists>i. q \<le> i \<and> closes t i \<and> e = i + 2 \<and> (\<forall>j. q \<le> j \<and> j < i \<longrightarrow> \<not> closes t j))
     \<or> e = length t \<and> (\<forall>j. q \<le> j \<longrightarrow> \<not> closes t j)"

lemma ends_block_unique:
  assumes "ends_block t q e" "ends_block t q f"
  shows "e = f"
  using assms unfolding ends_block_def by (metis linorder_neqE_nat)

lemma ends_block_extend:
  "ends_block t q e \<Longrightarrow> p \<le> q \<Longrightarrow> (\<And>i. p \<le> i \<Longrightarrow> i < q \<Longrightarrow> \<not> closes t i) \<Longrightarrow> ends_block t p e"
  unfolding ends_block_def
proof (elim disjE exE conjE)
  fix i
  assume a: "p \<le> q" "\<And>i. p \<le> i \<Longrightarrow> i < q \<Longrightarrow> \<not> closes t i" "q \<le> i" "closes t i" "e = i + 2" "\<forall>j. q \<le> j \<and> j < i \<longrightarrow> \<not> closes t j"
  have "\<not> closes t j" if "p \<le> j" "j < i" for j using a(2,6) that by (cases "j < q") auto
  then show "(\<exists>i. p \<le> i \<and> closes t i \<and> e = i + 2 \<and> (\<forall>j. p \<le> j \<and> j < i \<longrightarrow> \<not> closes t j))
      \<or> e = length t \<and> (\<forall>j. p \<le> j \<longrightarrow> \<not> closes t j)"
    using a by (intro disjI1 exI [of _ i]) auto
next
  assume a: "\<And>i. p \<le> i \<Longrightarrow> i < q \<Longrightarrow> \<not> closes t i" "e = length t" "\<forall>j. q \<le> j \<longrightarrow> \<not> closes t j"
  have "\<not> closes t j" if "p \<le> j" for j using a(1,3) that by (cases "j < q") auto
  then show "(\<exists>i. p \<le> i \<and> closes t i \<and> e = i + 2 \<and> (\<forall>j. p \<le> j \<and> j < i \<longrightarrow> \<not> closes t j))
      \<or> e = length t \<and> (\<forall>j. p \<le> j \<longrightarrow> \<not> closes t j)"
    using a(2) by blast
qed

lemma prefix_two: "prefix [a, b] (drop p t) \<longleftrightarrow> p + 1 < length t \<and> t ! p = a \<and> t ! (p + 1) = b"
proof
  assume "prefix [a, b] (drop p t)"
  then show "p + 1 < length t \<and> t ! p = a \<and> t ! (p + 1) = b" using prefix_nth [of "[a, b]" p t 0] prefix_nth [of "[a, b]" p t 1] by simp
next
  assume r: "p + 1 < length t \<and> t ! p = a \<and> t ! (p + 1) = b"
  then have "drop p t = a # b # drop (p + 2) t"
    by (metis Cons_nth_drop_Suc Suc_eq_plus1 add_2_eq_Suc' add_lessD1)
  then show "prefix [a, b] (drop p t)" by simp
qed

lemma str_find_first: "str_find w s = Some i \<Longrightarrow> j < i \<Longrightarrow> \<not> prefix w (drop j s)"
proof (induction s arbitrary: i j)
  case (Cons c cs)
  then show ?case by (cases j) (auto split: if_splits)
qed (auto split: if_splits)

lemma str_find_None: "str_find w s = None \<Longrightarrow> \<not> prefix w (drop j s)"
proof (induction s arbitrary: j)
  case (Cons c cs)
  then show ?case by (cases j) (auto split: if_splits)
qed (auto split: if_splits)

lemma ends_block_scan:
  assumes "valid_text t" "is_char_boundary t (p + 2)" "ends_block t (p + 2) e"
  shows "scan_block_comment t p = Some e"
proof -
  have pre: "prefix ''*/'' (drop j (drop (p + 2) t)) \<longleftrightarrow> closes t (p + 2 + j)" for j
    using prefix_two [of "CHR ''*''" "CHR ''/''" "p + 2 + j" t] by (simp add: closes_def add.commute add.left_commute)
  have "ends_block t (p + 2) (case str_find ''*/'' (drop (p + 2) t) of Some i \<Rightarrow> p + 2 + i + 2 | None \<Rightarrow> length t)"
  proof (cases "str_find ''*/'' (drop (p + 2) t)")
    case None
    have "\<not> closes t j" if "p + 2 \<le> j" for j
      using that str_find_None [OF None] pre by (metis le_Suc_ex)
    then show ?thesis using None by (simp add: ends_block_def)
  next
    case (Some i)
    have "closes t (p + 2 + i)" using str_find_SomeD [OF Some] pre by blast
    moreover have "\<not> closes t j" if "p + 2 \<le> j" "j < p + 2 + i" for j
      using that str_find_first [OF Some] pre by (metis le_Suc_ex nat_add_left_cancel_less)
    ultimately show ?thesis using Some unfolding ends_block_def by (auto intro!: disjI1 exI [of _ "p + 2 + i"])
  qed
  from ends_block_unique [OF this assms(3)] show ?thesis using slice_rest [OF assms(2)]
    by (simp add: scan_block_comment_def split: option.splits)
qed

lemma block_comment_body_end:
  "ok s \<Longrightarrow> block_comment_body l s = (closed, l', s') \<Longrightarrow> ends_block (sc_text s) (sc_pos s) (sc_pos s')"
proof (induction l s rule: block_comment_body.induct)
  case (1 l s)
  obtain ch sz s1 where c: "char_and_size s = (ch, sz, s1)" by (metis prod_cases3)
  note cs = char_and_size_after [OF 1(3) c] and co = char_and_size_ok [OF 1(3) c]
  have t: "valid_text (sc_text s)" "is_char_boundary (sc_text s) (sc_pos s)" "sc_end s = length (sc_text s)" "sc_text s1 = sc_text s"
    "sc_end s1 = sc_end s"
    using 1(3) after_text [OF cs(1)] after_end [OF cs(1)] by (auto simp: ok_def)
  have here: "closes (sc_text s) (sc_pos s) \<longleftrightarrow> ch = byte CHR ''*'' \<and> char_at s1 1 = CHR ''/''" if "sz \<noteq> 0"
  proof -
    have lt: "sc_pos s < sc_end s" using that co(3) by blast
    have "sc_text s ! sc_pos s = CHR ''*'' \<longleftrightarrow> ch = byte CHR ''*''"
      using co(7,8) [OF lt] lt unfolding char_here_def byte_def by (auto simp flip: of_char_eq_iff [where 'a = nat])
    then show ?thesis using co(2) t by (auto simp: closes_def char_at_def)
  qed
  consider "sz = 0" | (close) "sz \<noteq> 0" "ch = byte CHR ''*'' \<and> char_at s1 1 = CHR ''/''"
    | (go) "sz \<noteq> 0" "\<not> (ch = byte CHR ''*'' \<and> char_at s1 1 = CHR ''/'')" by blast
  then show ?case
  proof cases
    case 1
    then have "sc_pos s = length (sc_text s)" using co(3) ok_pos_le [OF \<open>ok s\<close>] t(3) by auto
    then show ?thesis using 1 co(2) c \<open>block_comment_body l s = _\<close>
      by (simp add: block_comment_body.simps [of l s] ends_block_def closes_def)
  next
    case close
    then show ?thesis using here co(2) c 1(4)
      by (auto simp: block_comment_body.simps [of l s] ends_block_def intro!: disjI1 exI [of _ "sc_pos s"])
  next
    case go
    have n: "next_char (drop (sc_pos s) (sc_text s)) = Some ch" "sz = len_utf8 ch" using co(3,6) go(1) by auto
    have "ends_block (sc_text s) (sc_pos s + sz) (sc_pos s')"
    proof (cases "is_line_break ch")
      case True
      then show ?thesis using 1(1) [OF c [symmetric] refl refl go refl True] 1(4) cs(4) c go co(2) t(4)
        by (auto simp: block_comment_body.simps [of l s] Let_def split: if_splits)
    next
      case False
      then show ?thesis using 1(2) [OF c [symmetric] refl refl go refl False] 1(4) cs(4) c go co(2) t(4)
        by (auto simp: block_comment_body.simps [of l s] Let_def split: if_splits)
    qed
    moreover have "\<not> closes (sc_text s) i" if "sc_pos s \<le> i" "i < sc_pos s + sz" for i
    proof (cases "i = sc_pos s")
      case True
      then show ?thesis using here go by blast
    next
      case False
      then have "0x80 \<le> byte (sc_text s ! i)" using char_bytes(1) [OF t(1,2) n(1), of i] that n(2) by simp
      then show ?thesis by (auto simp: closes_def byte_def)
    qed
    ultimately show ?thesis using ends_block_extend by simp
  qed
qed

section \<open>One turn on the text\<close>

lemma skip_to_line_end:
  assumes "p < length t" "is_shebang_trivia t p \<or> prefix ''//'' (drop p t)" "is_char_boundary t p" "scan_line_comment t p = Some e"
  shows "skip_trivia t p = skip_trivia t e"
  using assms(2)
proof
  assume "is_shebang_trivia t p"
  then show ?thesis using assms by (simp add: skip_trivia_def skip_trivia_ex.simps [of t p] scan_shebang_trivia_def)
next
  assume c: "prefix ''//'' (drop p t)"
  have slash: "t ! p = CHR ''/''" using c by (simp add: prefix_two)
  have "\<not> is_shebang_trivia t p" using slash by (auto simp: is_shebang_trivia_def prefix_def)
  moreover have "\<not> is_conflict_marker_trivia t p" using conflict_marker_here(2) [of t p] slash by auto
  ultimately show ?thesis using assms c
    by (simp add: skip_trivia_def skip_trivia_ex.simps [of t p] slice_rest is_some_and_def)
qed

lemma skip_block:
  assumes "prefix ''/*'' (drop p t)" "is_char_boundary t p" "scan_block_comment t p = Some e"
  shows "skip_trivia t p = skip_trivia t e"
proof -
  have here: "p < length t" "t ! p = CHR ''/''" "\<not> prefix ''//'' (drop p t)" using assms(1) by (auto simp: prefix_two)
  have "\<not> is_shebang_trivia t p" using here(2) by (auto simp: is_shebang_trivia_def prefix_def)
  moreover have "\<not> is_conflict_marker_trivia t p" using conflict_marker_here(2) [of t p] here(2) by auto
  ultimately show ?thesis using assms here
    by (simp add: skip_trivia_def skip_trivia_ex.simps [of t p] slice_rest is_some_and_def)
qed

lemma skip_conflict:
  assumes "is_conflict_marker_trivia t p" "scan_conflict_marker_trivia t p = Some e"
  shows "skip_trivia t p = skip_trivia t e"
proof -
  have here: "p < length t" "t ! p \<in> set ''<|=>''" using conflict_marker_here [OF assms(1)] .
  have "\<not> is_shebang_trivia t p" using here(2) by (auto simp: is_shebang_trivia_def prefix_def)
  then show ?thesis using assms here by (simp add: skip_trivia_def skip_trivia_ex.simps [of t p])
qed

definition trivia_char :: "string \<Rightarrow> nat \<Rightarrow> bool" where
  "trivia_char t p \<longleftrightarrow> is_shebang_trivia t p \<or> is_conflict_marker_trivia t p \<or> prefix ''//'' (drop p t) \<or> prefix ''/*'' (drop p t)"

lemma skip_stop:
  assumes "p < length t" "\<not> trivia_char t p" "is_char_boundary t p" "next_char (drop p t) = Some c" "\<not> is_white_space_like c"
  shows "skip_trivia t p = Some p"
proof -
  have "c \<noteq> 13" "c \<noteq> 10" using assms(5) by (auto simp: is_white_space_like_def is_line_break_def)
  then show ?thesis using assms
    by (simp add: trivia_char_def skip_trivia_def skip_trivia_ex.simps [of t p] slice_rest)
qed

lemma white_not_trivia:
  assumes "valid_text t" "is_char_boundary t p" "p < length t" "next_char (drop p t) = Some c" "is_white_space_like c"
  shows "\<not> trivia_char t p"
proof
  assume a: "trivia_char t p"
  have "t ! p = CHR ''#''" if "is_shebang_trivia t p" using that by (auto simp: is_shebang_trivia_def prefix_def)
  then have "t ! p \<in> set ''#<|=>/''"
    using a conflict_marker_here(2) [of t p] by (auto simp: trivia_char_def prefix_two)
  moreover obtain d where "next_char (drop p t) = Some d" "byte (t ! p) < 0x80 \<longleftrightarrow> d < 0x80" "d < 0x80 \<Longrightarrow> byte (t ! p) = d"
    using char_at_boundary [OF assms(1-3)] by metis
  ultimately have "c \<in> {35, 60, 124, 61, 62, 47}" using assms(4) by (auto simp: byte_def)
  then show False using assms(5) by (auto simp: is_white_space_like_def is_white_space_single_line_def is_line_break_def)
qed

lemma skip_white:
  assumes "valid_text t" "is_char_boundary t p" "p < length t" "next_char (drop p t) = Some c" "is_white_space_like c"
  shows "skip_trivia t p = skip_trivia t (p + len_utf8 c)"
proof -
  note nt = white_not_trivia [OF assms, unfolded trivia_char_def, simplified]
  obtain d where d: "next_char (drop p t) = Some d" "is_char_boundary t (p + len_utf8 d)"
    using char_at_boundary [OF assms(1-3)] by metis
  then have b: "is_char_boundary t (p + len_utf8 c)" using assms(4) by simp
  show ?thesis
  proof (cases "c = 13 \<and> prefix [CHR 10] (drop (p + 1) t)")
    case True
    then have c: "c = 13" "p + 1 < length t" "t ! (p + 1) = CHR 10" using prefix_nth [of "[CHR 10]" "p + 1" t 0] by auto
    have b1: "is_char_boundary t (p + 1)" using b c(1) by (simp add: len_utf8_def)
    obtain d where d: "next_char (drop (p + 1) t) = Some d" "byte (t ! (p + 1)) < 0x80 \<longleftrightarrow> d < 0x80" "d < 0x80 \<Longrightarrow> byte (t ! (p + 1)) = d"
      using char_at_boundary [OF assms(1) b1 c(2)] by metis
    have "d = 10" using d c(3) by (simp add: byte_def)
    then have lf: "next_char (drop (p + 1) t) = Some 10" using d(1) by simp
    then have nt1: "\<not> trivia_char t (p + 1)"
      using white_not_trivia [OF assms(1) b1 c(2)] by (simp add: is_white_space_like_def is_line_break_def)
    have "skip_trivia t p = skip_trivia t (p + 2)"
      using nt assms True slice_rest [OF b1]
      by (simp add: skip_trivia_def skip_trivia_ex.simps [of t p] slice_rest is_some_and_def len_utf8_def)
    moreover have "skip_trivia t (p + 1) = skip_trivia t (p + 2)"
      using nt1 c(2) lf slice_rest [OF b1]
      by (simp add: trivia_char_def skip_trivia_def skip_trivia_ex.simps [of t "Suc p"] is_some_and_def len_utf8_def)
    ultimately show ?thesis using c(1) by (simp add: len_utf8_def)
  next
    case False
    have "skip_trivia_ex t p None = skip_trivia_ex t (p + len_utf8 c) None"
      using nt assms False slice_rest [OF b]
      by (cases "c = 13") (simp_all add: skip_trivia_ex.simps [of t p] slice_rest is_some_and_def len_utf8_def)
    then show ?thesis by (simp add: skip_trivia_def)
  qed
qed

section \<open>One turn on the state\<close>

text \<open>The state in which a turn of the loop looks at the text.\<close>

definition begun :: "scanner \<Rightarrow> scanner" where
  "begun s = clear_token_value (s\<lparr>sc_token_start := sc_pos s\<rparr>)"

lemma begun_simps [simp]:
  "sc_pos (begun s) = sc_pos s" "sc_text (begun s) = sc_text s" "sc_end (begun s) = sc_end s" "ok (begun s) = ok s"
  "sc_skip_trivia (begun s) = sc_skip_trivia s" "char_here (begun s) = char_here s" "char_at (begun s) n = char_at s n"
  by (simp_all add: begun_def ok_def char_here_def char_at_def clear_token_value_def)

lemma char_at_slash: "ok s \<Longrightarrow> a \<noteq> CHR 0x00 \<Longrightarrow> b \<noteq> CHR 0x00 \<Longrightarrow>
    char_here s = a \<and> char_at s 1 = b \<longleftrightarrow> prefix [a, b] (drop (sc_pos s) (sc_text s))"
  by (auto simp: prefix_two char_here_def char_at_def ok_def)

text \<open>No identifier starts with white space: no range of the table meets the white space above ASCII.\<close>

fun avoids :: "(nat \<times> nat) list \<Rightarrow> nat list \<Rightarrow> bool" where
  "avoids ws (lo # hi # rs) \<longleftrightarrow> list_all (\<lambda>(a, b). b < lo \<or> hi < a) ws \<and> avoids ws rs"
| "avoids ws _ \<longleftrightarrow> True"

lemma avoids_nth:
  assumes "avoids ws r" "(a, b) \<in> set ws" "a \<le> c" "c \<le> b" "2 * i + 1 < length r"
  shows "\<not> (r ! (2 * i) \<le> c \<and> c \<le> r ! (2 * i + 1))"
  using assms
proof (induction ws r arbitrary: i rule: avoids.induct)
  case (1 ws lo hi rs)
  show ?case
  proof (cases i)
    case 0
    then show ?thesis using 1 by (auto simp: list_all_iff)
  next
    case (Suc k)
    then show ?thesis using 1(1) [of k] 1(2-) by simp
  qed
qed auto

definition white_ranges :: "(nat \<times> nat) list" where
  "white_ranges = [(0x85, 0x85), (0xA0, 0xA0), (0x1680, 0x1680), (0x2000, 0x200B), (0x2028, 0x202F), (0x205F, 0x205F), (0x3000, 0x3000),
     (0xFEFF, 0xFEFF)]"

lemma white_space_avoided: "avoids white_ranges unicode_identifier_start_ranges"
  unfolding unicode_identifier_start_ranges_def white_ranges_def
  by (simp only: avoids.simps list.pred_inject prod.case simp_thms numeral_less_iff less_num_simps le_num_simps)

lemma white_not_start: "(a, b) \<in> set white_ranges \<Longrightarrow> a \<le> c \<Longrightarrow> c \<le> b \<Longrightarrow> \<not> is_unicode_identifier_start c"
proof -
  assume r: "(a, b) \<in> set white_ranges" "a \<le> c" "c \<le> b"
  have ne: "unicode_identifier_start_ranges \<noteq> []"
    by (simp only: unicode_identifier_start_ranges_def list.distinct not_False_eq_True)
  show "\<not> is_unicode_identifier_start c"
    using avoids_nth [OF white_space_avoided r] is_in_unicode_ranges_iff [OF unicode_tables_wellformed(1) ne]
    unfolding is_unicode_identifier_start_def by blast
qed

lemma white_not_identifier: "is_white_space_like c \<Longrightarrow> \<not> is_identifier_start c"
proof -
  assume w: "is_white_space_like c"
  consider (ascii) "c \<in> {13, 10, 0x20, 0x09, 0x0B, 0x0C}" | (u1) "c = 0x85" | (u2) "c = 0xA0" | (u3) "c = 0x1680" | (u4) "0x2000 \<le> c" "c \<le> 0x200B"
    | (u5) "0x2028 \<le> c" "c \<le> 0x202F" | (u6) "c = 0x205F" | (u7) "c = 0x3000" | (u8) "c = 0xFEFF"
    using w by (auto simp: is_white_space_like_def is_white_space_single_line_def is_line_break_def)
  then show "\<not> is_identifier_start c"
  proof cases
    case ascii
    then show ?thesis by (auto simp: is_identifier_start_def ascii_rune_def is_ascii_alphabetic_def is_ascii_uppercase_def is_ascii_lowercase_def byte_def)
  next
    case u4
    then show ?thesis using white_not_start [of "0x2000" "0x200B" c] by (simp add: white_ranges_def is_identifier_start_def ascii_rune_def byte_def)
  next
    case u5
    then show ?thesis using white_not_start [of "0x2028" "0x202F" c] by (simp add: white_ranges_def is_identifier_start_def ascii_rune_def byte_def)
  qed (use white_not_start [of c c c] in \<open>simp_all add: white_ranges_def is_identifier_start_def ascii_rune_def byte_def\<close>)
qed

lemma char_and_size_non_ascii:
  "char_and_size (s\<lparr>sc_contains_non_ascii := True\<rparr>) =
     (let (ch, sz, s') = char_and_size s in (ch, sz, s'\<lparr>sc_contains_non_ascii := True\<rparr>))"
  by (simp add: char_and_size_def Let_def split: option.split)

lemma char_and_size_again: "char_and_size s = (ch, sz, s') \<Longrightarrow> char_and_size s' = (ch, sz, s')"
  using char_and_size_state [of s ch sz s'] char_and_size_non_ascii [of s] by (auto simp: Let_def)

lemma word_is_identifier_start:
  "char_and_size s = (ch, sz, s') \<Longrightarrow> is_ascii_alphabetic (char_here s) \<or> char_here s = CHR ''_'' \<or> char_here s = CHR ''$''
   \<Longrightarrow> is_identifier_start ch"
  by (auto simp: char_and_size_def Let_def char_here_def is_identifier_start_def ascii_rune_def byte_def is_ascii_alphabetic_def
      is_ascii_uppercase_def is_ascii_lowercase_def split: if_splits option.splits)

lemma scan_identifier_start:
  assumes "char_and_size s = (ch, sz, s')" "is_identifier_start ch" "scan_identifier 0 s = Some (b, s1)"
  shows b
proof -
  have adv: "advance 0 s = s" by (simp add: advance_def)
  show ?thesis using assms(3) unfolding scan_identifier_def Let_def adv assms(1) prod.case if_P [OF assms(2)]
    by (simp only: split: if_split_asm prod.splits) (auto simp: Option.bind_eq_Some_conv)
qed

lemma scan_identifier_other:
  assumes "char_and_size s = (ch, sz, s')" "\<not> is_identifier_start ch"
  shows "scan_identifier 0 s = Some (False, s')"
proof -
  have adv: "advance 0 s = s" by (simp add: advance_def)
  have "\<not> (is_ascii_alphabetic (char_here s) \<or> char_here s = CHR ''_'' \<or> char_here s = CHR ''$'')"
    using word_is_identifier_start [OF assms(1)] assms(2) by blast
  then show ?thesis using assms unfolding scan_identifier_def Let_def adv by simp
qed

lemma scan_other_white:
  assumes "char_and_size s = (ch, sz, s')" "is_white_space_like ch" "sc_skip_trivia s"
  shows "\<exists>s1. scan_other s = Some (True, s1) \<and> sc_pos s1 = sc_pos s + sz"
proof -
  have id: "scan_identifier 0 s = Some (False, s')" by (rule scan_identifier_other [OF assms(1) white_not_identifier [OF assms(2)]])
  have "ch \<noteq> 0xFFFD" using assms(2) by (auto simp: is_white_space_like_def is_white_space_single_line_def is_line_break_def)
  moreover have "sc_skip_trivia s'" "sc_pos s' = sc_pos s" using char_and_size_state [OF assms(1)] assms(3) by auto
  ultimately show ?thesis using id assms(2) char_and_size_again [OF assms(1)]
    unfolding scan_other_def by (auto simp: Let_def is_white_space_like_def advance_def add_flags_def)
qed

lemma scan_other_True:
  assumes "scan_other s = Some (True, s1)" "char_and_size s = (ch, sz, s')"
  shows "is_white_space_like ch"
proof (cases "is_identifier_start ch")
  case True
  obtain b s2 where i: "scan_identifier 0 s = Some (b, s2)" using assms(1) by (auto simp: scan_other_def split: bind_splits)
  then have b using scan_identifier_start [OF assms(2) True] by blast
  then show ?thesis using assms(1) i by (auto simp: scan_other_def)
next
  case False
  show ?thesis using assms(1) scan_identifier_other [OF assms(2) False] char_and_size_again [OF assms(2)]
    by (auto simp: scan_other_def Let_def is_white_space_like_def split: if_splits)
qed

lemma scan_hash_True: "scan_hash s = Some (True, s1) \<Longrightarrow> char_at s 1 = CHR ''!'' \<and> sc_pos s = 0"
  by (auto simp: scan_hash_def Let_def split: if_splits bind_splits option.splits)

lemma char_and_size_begun:
  "char_and_size s = (ch, sz, s') \<Longrightarrow> char_and_size (begun s) = (ch, sz, begun s')"
  by (auto simp: char_and_size_def Let_def begun_def clear_token_value_def split: if_splits option.splits)

lemma scan_step_true:
  assumes "scan_step num s = Some (True, s1)" "ok s" "char_and_size s = (c, sz, s')"
  shows "trivia_char (sc_text s) (sc_pos s) \<or> is_white_space_like c"
proof -
  have c: "byte (char_here s) < 0x80 \<Longrightarrow> c = byte (char_here s)"
    using assms(3) by (auto simp: char_and_size_def Let_def char_here_def byte_def split: if_splits option.splits)
  have slash: "prefix [a, b] (drop (sc_pos s) (sc_text s))" if "char_here s = a" "char_at s 1 = b" "a \<noteq> CHR 0x00" "b \<noteq> CHR 0x00" for a b
    using char_at_slash [OF assms(2)] that by blast
  show ?thesis
  proof (rule ccontr)
    assume no: "\<not> ?thesis"
    then have nw: "char_here s \<notin> {CHR 0x09, CHR 0x0B, CHR 0x0C, CHR 0x20}" "\<not> (char_here s = CHR 0x0A \<or> char_here s = CHR 0x0D)"
      using c by (auto simp: is_white_space_like_def is_white_space_single_line_def is_line_break_def byte_def)
    have nt: "\<not> (char_here s = CHR ''/'' \<and> char_at s 1 = CHR ''/'')" "\<not> (char_here s = CHR ''/'' \<and> char_at s 1 = CHR ''*'')"
      "\<not> is_conflict_marker_trivia (sc_text s) (sc_pos s)"
      "\<not> (char_here s = CHR ''#'' \<and> char_at s 1 = CHR ''!'' \<and> sc_pos s = 0)"
      using no slash [of "CHR ''/''" "CHR ''/''"] slash [of "CHR ''/''" "CHR ''*''"] slash [of "CHR ''#''" "CHR ''!''"]
      by (cases "sc_pos s = 0"; auto simp: trivia_char_def is_shebang_trivia_def)+
    show False
      using assms(1) nw nt scan_hash_True [of "begun s" s1] scan_other_True [OF _ char_and_size_begun [OF assms(3)]] no
      unfolding scan_step_def Let_def begun_def [symmetric]
      by (auto split: if_splits option.splits prod.splits)
  qed
qed

section \<open>The two agree\<close>

text \<open>One turn of the loop on trivia: it continues where a turn of \<open>skip_trivia\<close> would.\<close>

definition turn_skips :: "(string \<Rightarrow> string) \<Rightarrow> scanner \<Rightarrow> bool" where
  "turn_skips num s \<longleftrightarrow> (\<exists>s1. scan_step num s = Some (True, s1) \<and> skip_trivia (sc_text s) (sc_pos s) = skip_trivia (sc_text s) (sc_pos s1))"

lemma line_from_two:
  assumes "ok s" "no_line_separators (sc_text s)" "prefix [a, b] (drop (sc_pos s) (sc_text s))" "byte a < 0x80" "byte b < 0x80"
    "\<not> line_feed a" "\<not> line_feed b" "b \<noteq> CHR 0x00" "char_at s 1 = b"
  shows "scan_line_comment (sc_text s) (sc_pos s) = Some (sc_pos (skip_chars (\<lambda>ch. \<not> is_line_break ch) (advance 2 (begun s))))"
proof -
  let ?s = "advance 2 (begun s)"
  have ok2: "ok ?s" using two_ascii(2) [of "begun s"] assms by simp
  have "ends_line (sc_text s) (sc_pos s + 2) (sc_pos (skip_chars (\<lambda>ch. \<not> is_line_break ch) ?s))"
    using skip_chars_line [OF ok2] assms(2) by simp
  moreover have "\<not> line_feed (sc_text s ! i)" if "sc_pos s \<le> i" "i < sc_pos s + 2" for i
  proof -
    have "i = sc_pos s \<or> i = sc_pos s + 1" using that by auto
    then show ?thesis using assms(3,6,7) by (auto simp: prefix_two)
  qed
  ultimately have "ends_line (sc_text s) (sc_pos s) (sc_pos (skip_chars (\<lambda>ch. \<not> is_line_break ch) ?s))"
    using ends_line_extend by simp
  then show ?thesis using ends_line_scan assms(1) by (simp add: ok_def)
qed

lemma turn_skips_shebang:
  assumes "ok s" "no_line_separators (sc_text s)" "is_shebang_trivia (sc_text s) (sc_pos s)"
  shows "turn_skips num s"
proof -
  have p: "prefix ''#!'' (drop (sc_pos s) (sc_text s))" "sc_pos s = 0" using assms(3) by (auto simp: is_shebang_trivia_def)
  then have c: "char_here s = CHR ''#''" "char_at s 1 = CHR ''!''" using char_at_slash [OF assms(1)] by auto
  have "scan_step num s = Some (True, skip_chars (\<lambda>ch. \<not> is_line_break ch) (advance 2 (begun s)))"
    using c p(2) unfolding scan_step_def Let_def begun_def [symmetric] by (simp add: scan_hash_def)
  moreover have "sc_pos s < length (sc_text s)" using p(1) by (simp add: prefix_two)
  then have "skip_trivia (sc_text s) (sc_pos s) = skip_trivia (sc_text s) (sc_pos (skip_chars (\<lambda>ch. \<not> is_line_break ch) (advance 2 (begun s))))"
    using line_from_two [OF assms(1,2) p(1)] c(2) assms(1,3) by (intro skip_to_line_end) (simp_all add: ok_def byte_def)
  ultimately show ?thesis unfolding turn_skips_def by blast
qed

lemma turn_skips_line_comment:
  assumes "ok s" "no_line_separators (sc_text s)" "sc_skip_trivia s" "prefix ''//'' (drop (sc_pos s) (sc_text s))"
  shows "turn_skips num s"
proof -
  let ?e = "skip_chars (\<lambda>ch. \<not> is_line_break ch) (advance 2 (begun s))"
  have c: "char_here s = CHR ''/''" "char_at s 1 = CHR ''/''" using char_at_slash [OF assms(1)] assms(4) by auto
  have "ok (advance 2 (begun s))" using two_ascii(2) [of "begun s"] assms c by (simp add: byte_def)
  then have "core_of ?e = core_of (begun s)" using after_core [OF skip_chars_after] by fastforce
  then have sk: "sc_skip_trivia ?e" using assms(3) by (simp add: core_of_def)
  have "scan_step num s = Some (scan_line_comment_token (begun s))"
    using c unfolding scan_step_def Let_def begun_def [symmetric] by simp
  then have "\<exists>s1. scan_step num s = Some (True, s1) \<and> sc_pos s1 = sc_pos ?e"
    using sk by (auto simp: scan_line_comment_token_def Let_def)
  moreover have "sc_pos s < length (sc_text s)" using assms(4) by (simp add: prefix_two)
  then have "skip_trivia (sc_text s) (sc_pos s) = skip_trivia (sc_text s) (sc_pos ?e)"
    using line_from_two [OF assms(1,2,4)] c(2) assms(1,4) by (intro skip_to_line_end) (simp_all add: ok_def byte_def)
  ultimately show ?thesis unfolding turn_skips_def by auto
qed

lemma turn_skips_block_comment:
  assumes "ok s" "sc_skip_trivia s" "prefix ''/*'' (drop (sc_pos s) (sc_text s))"
  shows "turn_skips num s"
proof -
  obtain cl l s1 where bc: "block_comment_body (sc_token_start (begun s)) (advance 2 (begun s)) = (cl, l, s1)" by (metis prod_cases3)
  have c: "char_here s = CHR ''/''" "char_at s 1 = CHR ''*''" using char_at_slash [OF assms(1)] assms(3) by auto
  have ok2: "ok (advance 2 (begun s))" using two_ascii(2) [of "begun s"] assms(1) c by (simp add: byte_def)
  have sk: "sc_skip_trivia s1" using after_core [OF block_comment_body_after [OF ok2 bc]] assms(2) by (simp add: core_of_def advance_def)
  have "scan_step num s = Some (scan_block_comment_token (begun s))"
    using c unfolding scan_step_def Let_def begun_def [symmetric] by simp
  then have "\<exists>s2. scan_step num s = Some (True, s2) \<and> sc_pos s2 = sc_pos s1"
    using sk bc by (auto simp: scan_block_comment_token_def Let_def error_at_def)
  moreover have b2: "is_char_boundary (sc_text s) (sc_pos s + 2)" using ok2 by (simp add: ok_def)
  have "scan_block_comment (sc_text s) (sc_pos s) = Some (sc_pos s1)"
    using ends_block_scan [OF _ b2] block_comment_body_end [OF ok2 bc] assms(1) by (simp add: ok_def)
  then have "skip_trivia (sc_text s) (sc_pos s) = skip_trivia (sc_text s) (sc_pos s1)"
    using skip_block [OF assms(3)] assms(1) by (simp add: ok_def)
  ultimately show ?thesis unfolding turn_skips_def by auto
qed

lemma turn_skips_conflict:
  assumes "ok s" "sc_skip_trivia s" "is_conflict_marker_trivia (sc_text s) (sc_pos s)"
  shows "turn_skips num s"
proof -
  obtain e where e: "scan_conflict_marker_trivia (sc_text s) (sc_pos s) = Some e"
    using scan_conflict_marker_trivia_ok [OF _ assms(3)] assms(1) unfolding ok_def by blast
  have h: "sc_pos s < length (sc_text s)" "sc_text s ! sc_pos s \<in> set ''<|=>''" using conflict_marker_here [OF assms(3)] .
  then have c: "char_here s \<in> set ''<|=>''" using assms(1) by (simp add: char_here_def ok_def)
  have "scan_step num s = map_option (\<lambda>(_, s). (sc_skip_trivia s, s)) (scan_conflict_marker_as_token (begun s))"
    using c [simplified] assms(3) unfolding scan_step_def Let_def begun_def [symmetric] by (elim disjE) simp_all
  then have "\<exists>s1. scan_step num s = Some (True, s1) \<and> sc_pos s1 = e"
    using assms(2,3) e by (auto simp: scan_conflict_marker_as_token_def Let_def error_at_def)
  then show ?thesis using skip_conflict [OF assms(3) e] unfolding turn_skips_def by auto
qed

lemma punctuation_first: "punctuation s = Some (n, k) \<Longrightarrow> byte (char_here s) < 0x80"
  by (auto simp: punctuation_def Let_def byte_def split: if_splits)

lemma char_of_byte: "byte a = n \<Longrightarrow> a = char_of n"
  by (auto simp: byte_def)

lemma white_chars:
  "char_of (9 :: nat) = CHR 0x09" "char_of (11 :: nat) = CHR 0x0B" "char_of (12 :: nat) = CHR 0x0C" "char_of (32 :: nat) = CHR 0x20"
  "char_of (10 :: nat) = CHR 0x0A" "char_of (13 :: nat) = CHR 0x0D"
  by code_simp+

lemma turn_skips_white:
  assumes "ok s" "sc_skip_trivia s" "sc_pos s < sc_end s" "char_and_size s = (c, sz, s')" "is_white_space_like c"
  shows "turn_skips num s"
proof -
  note co = char_and_size_ok [OF assms(1,4)]
  have n: "next_char (drop (sc_pos s) (sc_text s)) = Some c" "sz = len_utf8 c" using co(6) [OF assms(3)] by auto
  have sk: "skip_trivia (sc_text s) (sc_pos s) = skip_trivia (sc_text s) (sc_pos s + sz)"
    using skip_white [OF _ _ _ n(1) assms(5)] assms(1,3) n(2) by (simp add: ok_def)
  have cc: "c < 0x80 \<Longrightarrow> byte (char_here s) = c \<and> sz = 1" "byte (char_here s) < 0x80 \<longleftrightarrow> c < 0x80" using co(7,8) [OF assms(3)] by auto
  have "\<exists>s1. scan_step num s = Some (True, s1) \<and> sc_pos s1 = sc_pos s + sz"
  proof (cases "c < 0x80")
    case True
    then have "c \<in> {9, 11, 12, 32, 10, 13}"
      using assms(5) by (auto simp: is_white_space_like_def is_white_space_single_line_def is_line_break_def)
    then have "char_here s \<in> {CHR 0x09, CHR 0x0B, CHR 0x0C, CHR 0x20} \<or> char_here s = CHR 0x0A \<or> char_here s = CHR 0x0D"
      using char_of_byte [of "char_here s" c] cc(1) [OF True] by (auto simp: white_chars)
    then show ?thesis
    proof
      assume "char_here s \<in> {CHR 0x09, CHR 0x0B, CHR 0x0C, CHR 0x20}"
      then have "scan_step num s = Some (True, advance 1 (begun s))"
        using assms(2) begun_simps(5) [of s] unfolding scan_step_def Let_def begun_def [symmetric] by (simp add: advance_def)
      then show ?thesis using cc(1) [OF True] by simp
    next
      assume "char_here s = CHR 0x0A \<or> char_here s = CHR 0x0D"
      then have "scan_step num s = Some (True, advance 1 (add_flags PRECEDING_LINE_BREAK (begun s)))"
        using assms(2) begun_simps(5) [of s] unfolding scan_step_def Let_def begun_def [symmetric]
        by (elim disjE) (simp_all add: add_flags_def)
      then show ?thesis using cc(1) [OF True] by simp
    qed
  next
    case False
    then have b: "\<not> byte (char_here s) < 0x80" using cc(2) by simp
    then have neq: "byte a < 0x80 \<Longrightarrow> (char_here s = a) = False" for a by auto
    have pn: "punctuation (begun s) = None"
    proof (rule ccontr)
      assume "punctuation (begun s) \<noteq> None"
      then obtain n k where "punctuation (begun s) = Some (n, k)" by auto
      from punctuation_first [OF this] show False using b by simp
    qed
    have "scan_step num s = scan_other (begun s)"
      unfolding scan_step_def Let_def begun_def [symmetric] by (simp add: neq pn byte_def)
    then show ?thesis using scan_other_white [OF char_and_size_begun [OF assms(4)] assms(5)] assms(2) by simp
  qed
  then show ?thesis using sk unfolding turn_skips_def by auto
qed

lemma scan_step_skips:
  assumes "ok s" "sc_skip_trivia s" "no_line_separators (sc_text s)" "scan_step num s = Some (b, s1)"
  shows "skip_trivia (sc_text s) (sc_pos s) = (if b then skip_trivia (sc_text s) (sc_pos s1) else Some (sc_pos s))"
proof (cases "sc_pos s < sc_end s")
  case True
  obtain c sz s' where c: "char_and_size s = (c, sz, s')" by (metis prod_cases3)
  have n: "next_char (drop (sc_pos s) (sc_text s)) = Some c" using char_and_size_ok(6) [OF assms(1) c True] by blast
  show ?thesis
  proof (cases "trivia_char (sc_text s) (sc_pos s) \<or> is_white_space_like c")
    case tr: True
    then have "turn_skips num s"
      using turn_skips_shebang [OF assms(1,3)] turn_skips_conflict [OF assms(1,2)] turn_skips_line_comment [OF assms(1,3,2)]
        turn_skips_block_comment [OF assms(1,2)] turn_skips_white [OF assms(1,2) True c]
      unfolding trivia_char_def by blast
    then show ?thesis using assms(4) by (auto simp: turn_skips_def)
  next
    case False
    then have "\<not> b" using scan_step_true [of num s s1, OF _ assms(1) c] assms(4) by auto
    then show ?thesis using skip_stop [OF _ _ _ n] False assms(1) True by (simp add: ok_def)
  qed
next
  case False
  have len: "sc_end s = length (sc_text s)" "sc_pos s = sc_end s" using assms(1) ok_pos_le [OF assms(1)] False by (auto simp: ok_def)
  have "char_here (begun s) = CHR 0x00" using False by (simp add: char_here_def)
  then have "scan_step num s = Some (False, (begun s)\<lparr>sc_token := EndOfFile\<rparr>)"
    using False unfolding scan_step_def Let_def begun_def [symmetric] by (simp add: punctuation_def Let_def)
  then show ?thesis using assms(4) len by (simp add: skip_trivia_def skip_trivia_end)
qed

lemma scan_loop_start:
  assumes "ok s" "sc_skip_trivia s" "no_line_separators (sc_text s)" "escapes_ascii (sc_text s)"
  shows "\<exists>s'. scan_loop num s = Some s' \<and> skip_trivia (sc_text s) (sc_pos s) = Some (sc_token_start s')"
  using assms
proof (induction "sc_end s - sc_pos s" arbitrary: s rule: less_induct)
  case less
  obtain b s1 where st: "scan_step num s = Some (b, s1)" "after (s\<lparr>sc_token_start := sc_pos s\<rparr>) s1"
      "sc_pos s < sc_pos s1 \<or> \<not> b \<and> sc_token s1 = EndOfFile \<and> sc_pos s = sc_end s \<and> sc_pos s1 = sc_pos s"
    using scan_step_ok [OF less.prems(1,4)] by blast
  note a = after_started [OF less.prems(1) st(2)] and eq = scan_step_skips [OF less.prems(1-3) st(1)]
  have se: "sc_text s1 = sc_text s" "sc_end s1 = sc_end s" "sc_skip_trivia s1 = sc_skip_trivia s" using a(2) by (simp_all add: setting_def)
  show ?case
  proof (cases b)
    case True
    then have "sc_end s1 - sc_pos s1 < sc_end s - sc_pos s" using st(3) ok_pos_le [OF a(1)] se(2) by linarith
    from less.hyps [OF this a(1)] show ?thesis using less.prems(2-4) se eq True st(1) by (simp add: scan_loop.simps [of num s])
  next
    case False
    then show ?thesis using eq a(4) st(1) by (simp add: scan_loop.simps [of num s])
  qed
qed



end
