(* ===== verification/VfsMatch.thy ===== *)
theory VfsMatch
  imports TsPath Utf8
begin

text \<open>
  Matching of files against include and exclude specifications (\<open>crates/ts-vfs/src/vfsmatch/mod.rs\<close>): the
  patterns that the specifications are compiled to, their matching against the parts of a path, and the
  traversal of the directories of a file system.

  A path is a list of bytes. Slices that the code takes at positions that need not be character boundaries are
  taken with \<open>str_slice\<close>, so that a panic is \<open>None\<close>. The file system is the record \<open>vfs_host\<close>.
\<close>

section \<open>Paths\<close>

definition trim_end_slashes :: "string \<Rightarrow> string" where
  "trim_end_slashes s = rev (dropWhile (\<lambda>c. c = CHR ''/'') (rev s))"

definition rsplit_once_slash :: "string \<Rightarrow> (string \<times> string) option" where
  "rsplit_once_slash s = map_option (\<lambda>i. (take i s, drop (i + 1) s)) (str_rfind (CHR ''/'') s)"

definition vm_is_rooted_disk_path :: "string \<Rightarrow> bool" where
  "vm_is_rooted_disk_path path \<longleftrightarrow>
     prefix ''/'' path \<or> length path \<ge> 3 \<and> path ! 1 = CHR '':'' \<and> path ! 2 = CHR ''/''"

definition normalize_part :: "string list \<Rightarrow> string \<Rightarrow> string list" where
  "normalize_part result part =
     (if part = [] \<or> part = ''.'' then result
      else if part = ''..'' then butlast result
      else result @ [part])"

definition vm_normalize_path :: "string \<Rightarrow> string" where
  "vm_normalize_path path =
     (let path = map (\<lambda>c. if c = CHR 0x5C then CHR ''/'' else c) path;
          rooted = prefix ''/'' path;
          network_root = (prefix ''//'' path \<and> \<not> prefix ''///'' path);
          joined = join ''/'' (foldl normalize_part [] (split_on (CHR ''/'') path)) in
      if network_root then ''//'' @ joined
      else if rooted then ''/'' @ joined
      else if joined = [] then ''.''
      else joined)"

definition vm_combine_paths :: "string \<Rightarrow> string \<Rightarrow> string" where
  "vm_combine_paths left right =
     (if right = [] then vm_normalize_path left
      else if vm_is_rooted_disk_path right then vm_normalize_path right
      else vm_normalize_path (trim_end_slashes left @ ''/'' @ right))"

definition vm_get_normalized_path_components :: "string \<Rightarrow> string \<Rightarrow> string list" where
  "vm_get_normalized_path_components spec base_path =
     (let path = vm_combine_paths base_path spec in
      if path = ''/'' then [[]]
      else (if prefix ''/'' path then [[]] else []) @ filter (\<lambda>part. part \<noteq> []) (split_on (CHR ''/'') path))"

definition vm_has_extension :: "string \<Rightarrow> bool" where
  "vm_has_extension path \<longleftrightarrow> CHR ''.'' \<in> set (last (split_on (CHR ''/'') path))"

definition vm_get_directory_path :: "string \<Rightarrow> string" where
  "vm_get_directory_path path =
     (case rsplit_once_slash path of Some (dir, _) \<Rightarrow> if dir = [] then ''/'' else dir | None \<Rightarrow> [])"

definition vm_remove_trailing_directory_separator :: "string \<Rightarrow> string" where
  "vm_remove_trailing_directory_separator path = (if length path > 1 then trim_end_slashes path else path)"

definition canonical_file_name :: "string \<Rightarrow> bool \<Rightarrow> string" where
  "canonical_file_name path case_sensitive = (if case_sensitive then path else to_ascii_lowercase path)"

definition ensure_trailing_slash :: "string \<Rightarrow> string" where
  "ensure_trailing_slash s = (if s \<noteq> [] \<and> last s \<noteq> CHR ''/'' then s @ ''/'' else s)"

definition vm_contains_path :: "string \<Rightarrow> string \<Rightarrow> bool \<Rightarrow> bool" where
  "vm_contains_path base child case_sensitive =
     (let base = ensure_trailing_slash (canonical_file_name base case_sensitive);
          child = canonical_file_name child case_sensitive in
      child = trim_end_slashes base \<or> prefix base child)"

definition vm_compare_paths :: "bool \<Rightarrow> string \<Rightarrow> string \<Rightarrow> ordering" where
  "vm_compare_paths case_sensitive a b =
     str_cmp (canonical_file_name a case_sensitive) (canonical_file_name b case_sensitive)"

text \<open>The stable sort of the standard library.\<close>

fun insert_by :: "('a \<Rightarrow> 'a \<Rightarrow> ordering) \<Rightarrow> 'a \<Rightarrow> 'a list \<Rightarrow> 'a list" where
  "insert_by c x [] = [x]"
| "insert_by c x (y # ys) = (if c x y = Greater then y # insert_by c x ys else x # y # ys)"

definition sort_by :: "('a \<Rightarrow> 'a \<Rightarrow> ordering) \<Rightarrow> 'a list \<Rightarrow> 'a list" where
  "sort_by c xs = foldr (insert_by c) xs []"

section \<open>Base paths\<close>

definition is_wildcard :: "char \<Rightarrow> bool" where
  "is_wildcard c \<longleftrightarrow> c = CHR ''*'' \<or> c = CHR ''?''"

definition is_implicit_glob :: "string \<Rightarrow> bool" where
  "is_implicit_glob last_path_component \<longleftrightarrow> \<not> list_ex (\<lambda>c. c = CHR ''.'' \<or> is_wildcard c) last_path_component"

definition get_include_base_path :: "string \<Rightarrow> string" where
  "get_include_base_path absolute =
     (case position is_wildcard absolute of
        Some offset \<Rightarrow>
          (case rsplit_once_slash (take offset absolute) of
             Some (base, _) \<Rightarrow> if base = [] then ''/'' else base
           | None \<Rightarrow> [])
      | None \<Rightarrow>
          if vm_has_extension absolute then vm_get_directory_path absolute
          else vm_remove_trailing_directory_separator absolute)"

fun add_base_paths :: "bool \<Rightarrow> string list \<Rightarrow> string list \<Rightarrow> string list" where
  "add_base_paths case_sensitive [] base_paths = base_paths"
| "add_base_paths case_sensitive (p # ps) base_paths =
     add_base_paths case_sensitive ps
       (if list_all (\<lambda>base. \<not> vm_contains_path base p case_sensitive) base_paths then base_paths @ [p] else base_paths)"

definition get_base_paths :: "string \<Rightarrow> string list \<Rightarrow> bool \<Rightarrow> string list" where
  "get_base_paths path includes case_sensitive =
     (if includes \<noteq> [] then
        add_base_paths case_sensitive
          (sort_by (vm_compare_paths case_sensitive)
            (map (\<lambda>inc. get_include_base_path
               (if vm_is_rooted_disk_path inc then inc else vm_normalize_path (vm_combine_paths path inc))) includes))
          [path]
      else [path])"

section \<open>Patterns\<close>

datatype vm_usage = Files | Directories | Exclude
datatype component_kind = LiteralComponent | WildcardComponent | DoubleAsterisk
datatype segment_kind = LiteralSegment | StarSegment | QuestionSegment

record segment =
  sg_kind :: segment_kind
  sg_literal :: string

record component =
  co_kind :: component_kind
  co_literal :: string
  co_segments :: "segment list"
  co_skip_package_folders :: bool

record glob_pattern =
  gp_components :: "component list"
  gp_is_exclude :: bool
  gp_case_sensitive :: bool
  gp_exclude_min_js :: bool

text \<open>The loop over the characters of a component. The wildcards are ASCII, so that it may go byte by byte and its
  slices are at boundaries.\<close>

fun segments_loop :: "string \<Rightarrow> nat \<Rightarrow> nat \<Rightarrow> string \<Rightarrow> segment list" where
  "segments_loop s start index [] =
     (if start < length s then [\<lparr>sg_kind = LiteralSegment, sg_literal = drop start s\<rparr>] else [])"
| "segments_loop s start index (ch # rest) =
     (if is_wildcard ch then
        (if index > start then [\<lparr>sg_kind = LiteralSegment, sg_literal = take (index - start) (drop start s)\<rparr>] else [])
        @ [\<lparr>sg_kind = (if ch = CHR ''*'' then StarSegment else QuestionSegment), sg_literal = []\<rparr>]
        @ segments_loop s (index + 1) (index + 1) rest
      else segments_loop s start (index + 1) rest)"

definition parse_segments :: "string \<Rightarrow> segment list" where
  "parse_segments s = segments_loop s 0 0 s"

definition parse_component :: "string \<Rightarrow> bool \<Rightarrow> component" where
  "parse_component s is_include =
     (if s = ''**''
      then \<lparr>co_kind = DoubleAsterisk, co_literal = [], co_segments = [], co_skip_package_folders = False\<rparr>
      else if \<not> list_ex is_wildcard s
      then \<lparr>co_kind = LiteralComponent, co_literal = s, co_segments = [], co_skip_package_folders = False\<rparr>
      else \<lparr>co_kind = WildcardComponent, co_literal = [], co_segments = parse_segments s,
             co_skip_package_folders = is_include\<rparr>)"

definition compile_glob_pattern :: "string \<Rightarrow> string \<Rightarrow> vm_usage \<Rightarrow> bool \<Rightarrow> glob_pattern option" where
  "compile_glob_pattern spec base_path usage case_sensitive =
     (let parts = vm_get_normalized_path_components spec base_path in
      if usage \<noteq> Exclude \<and> parts \<noteq> [] \<and> last parts = ''**'' then None
      else
        let parts = (case parts of [] \<Rightarrow> [] | root # rest \<Rightarrow> vm_remove_trailing_directory_separator root # rest);
            parts = (if parts \<noteq> [] \<and> is_implicit_glob (last parts) then parts @ [''**'', ''*''] else parts) in
        Some \<lparr>gp_components = map (\<lambda>part. parse_component part (usage \<noteq> Exclude)) parts,
              gp_is_exclude = (usage = Exclude), gp_case_sensitive = case_sensitive,
              gp_exclude_min_js = (usage = Files)\<rparr>)"

definition strings_equal :: "glob_pattern \<Rightarrow> string \<Rightarrow> string \<Rightarrow> bool" where
  "strings_equal p a b \<longleftrightarrow> (if gp_case_sensitive p then a = b else eq_ignore_ascii_case a b)"

definition is_hidden_path :: "string \<Rightarrow> bool" where
  "is_hidden_path name \<longleftrightarrow> name \<noteq> [] \<and> prefix ''.'' name"

definition is_package_folder :: "string \<Rightarrow> bool" where
  "is_package_folder name \<longleftrightarrow>
     eq_ignore_ascii_case name ''node_modules'' \<or> eq_ignore_ascii_case name ''bower_components''
     \<or> eq_ignore_ascii_case name ''jspm_packages''"

text \<open>The loop of \<open>match_segments\<close>: the next segment, the position in the value, the last star and the position
  from which it is tried. The first branch of a turn moves past a segment.\<close>

record match_state =
  ms_segment :: nat
  ms_value :: nat
  ms_star :: "nat option"
  ms_star_value :: nat

definition char_len_at :: "string \<Rightarrow> nat \<Rightarrow> nat option" where
  "char_len_at v i = Option.bind (str_slice v i (length v)) (\<lambda>rest. map_option len_utf8 (next_char rest))"

definition match_segment :: "glob_pattern \<Rightarrow> segment list \<Rightarrow> string \<Rightarrow> match_state \<Rightarrow> match_state option option" where
  "match_segment p segments v st =
     (if ms_segment st < length segments then
        let seg = segments ! ms_segment st in
        case sg_kind seg of
          LiteralSegment \<Rightarrow>
            let end = ms_value st + length (sg_literal seg) in
            if end \<le> length v then
              map_option (\<lambda>part. if strings_equal p (sg_literal seg) part
                then Some (st\<lparr>ms_value := end, ms_segment := ms_segment st + 1\<rparr>) else None)
                (str_slice v (ms_value st) end)
            else Some None
        | QuestionSegment \<Rightarrow>
            if v ! ms_value st \<noteq> CHR ''/'' then
              map_option (\<lambda>n. Some (st\<lparr>ms_value := ms_value st + n, ms_segment := ms_segment st + 1\<rparr>))
                (char_len_at v (ms_value st))
            else Some None
        | StarSegment \<Rightarrow>
            Some (Some (st\<lparr>ms_star := Some (ms_segment st), ms_star_value := ms_value st, ms_segment := ms_segment st + 1\<rparr>))
      else Some None)"

definition retry_star :: "string \<Rightarrow> match_state \<Rightarrow> match_state option option" where
  "retry_star v st =
     (case ms_star st of
        Some star \<Rightarrow>
          if ms_star_value st < length v \<and> v ! ms_star_value st \<noteq> CHR ''/'' then
            map_option (\<lambda>n. let next = ms_star_value st + n in
                Some (st\<lparr>ms_star_value := next, ms_value := next, ms_segment := star + 1\<rparr>))
              (char_len_at v (ms_star_value st))
          else Some None
      | None \<Rightarrow> Some None)"

partial_function (option) match_loop :: "glob_pattern \<Rightarrow> segment list \<Rightarrow> string \<Rightarrow> match_state \<Rightarrow> bool option" where
  "match_loop p segments v st =
     (if ms_value st < length v then
        case match_segment p segments v st of
          None \<Rightarrow> None
        | Some (Some st') \<Rightarrow> match_loop p segments v st'
        | Some None \<Rightarrow>
            (case retry_star v st of
               None \<Rightarrow> None
             | Some (Some st') \<Rightarrow> match_loop p segments v st'
             | Some None \<Rightarrow> Some False)
      else Some (dropWhile (\<lambda>seg. sg_kind seg = StarSegment) (drop (ms_segment st) segments) = []))"

declare match_loop.simps [code]

definition match_segments :: "glob_pattern \<Rightarrow> segment list \<Rightarrow> string \<Rightarrow> bool option" where
  "match_segments p segments v =
     match_loop p segments v \<lparr>ms_segment = 0, ms_value = 0, ms_star = None, ms_star_value = 0\<rparr>"

definition has_min_js_suffix :: "glob_pattern \<Rightarrow> string \<Rightarrow> bool" where
  "has_min_js_suffix p filename =
     (if gp_case_sensitive p then suffix ''.min.js'' filename
      else
        let start = length filename - length ''.min.js'' in
        is_char_boundary filename start \<and> eq_ignore_ascii_case (drop start filename) ''.min.js'')"

definition pattern_mentions_min_suffix :: "glob_pattern \<Rightarrow> segment list \<Rightarrow> bool" where
  "pattern_mentions_min_suffix p segments =
     list_ex (\<lambda>seg. sg_kind seg = LiteralSegment \<and>
       (let literal = (if gp_case_sensitive p then sg_literal seg else to_ascii_lowercase (sg_literal seg)) in
        str_find ''.min.js'' literal \<noteq> None \<or> str_find ''.min.'' literal \<noteq> None)) segments"

definition should_include_min_js :: "glob_pattern \<Rightarrow> string \<Rightarrow> segment list \<Rightarrow> bool" where
  "should_include_min_js p filename segments =
     (if \<not> gp_exclude_min_js p \<or> \<not> has_min_js_suffix p filename then True else pattern_mentions_min_suffix p segments)"

definition match_wildcard :: "glob_pattern \<Rightarrow> segment list \<Rightarrow> string \<Rightarrow> bool option" where
  "match_wildcard p segments v =
     (if \<not> gp_is_exclude p \<and> segments \<noteq> [] \<and> is_hidden_path v
         \<and> (sg_kind (segments ! 0) = StarSegment \<or> sg_kind (segments ! 0) = QuestionSegment) then Some False
      else if length segments = 2 \<and> sg_kind (segments ! 0) = StarSegment \<and> sg_kind (segments ! 1) = LiteralSegment then
        let suf = sg_literal (segments ! 1) in
        if length v \<ge> length suf then
          map_option (\<lambda>tail. strings_equal p suf tail \<and> should_include_min_js p v segments)
            (str_slice v (length v - length suf) (length v))
        else Some False
      else map_option (\<lambda>b. b \<and> should_include_min_js p v segments) (match_segments p segments v))"

definition pattern_satisfied :: "glob_pattern \<Rightarrow> nat \<Rightarrow> bool" where
  "pattern_satisfied p component_index = list_all (\<lambda>c. co_kind c = DoubleAsterisk) (drop component_index (gp_components p))"

section \<open>Matching of paths\<close>

text \<open>The next part of a path and the offset after it. Offsets are 0, the end, or those of slashes.\<close>

definition next_path_part_single :: "string \<Rightarrow> nat \<Rightarrow> (string \<times> nat) option" where
  "next_path_part_single s offset =
     (if offset \<ge> length s then None
      else if offset = 0 \<and> s ! 0 = CHR ''/'' then Some ([], 1)
      else
        let offset = offset + length (takeWhile (\<lambda>c. c = CHR ''/'') (drop offset s)) in
        if offset \<ge> length s then None
        else
          let rest = drop offset s in
          case position (\<lambda>c. c = CHR ''/'') rest of
            Some index \<Rightarrow> Some (take index rest, offset + index)
          | None \<Rightarrow> Some (rest, length s))"

definition next_path_part_parts :: "string \<Rightarrow> string \<Rightarrow> nat \<Rightarrow> (string \<times> nat) option" where
  "next_path_part_parts pre suf offset = next_path_part_single (if suf = [] then pre else pre @ suf) offset"

lemma next_path_part_single_offset: "next_path_part_single s offset = Some (part, n) \<Longrightarrow> offset < n \<and> n \<le> length s"
proof -
  assume a: "next_path_part_single s offset = Some (part, n)"
  define o2 where "o2 = offset + length (takeWhile (\<lambda>c. c = CHR ''/'') (drop offset s))"
  show ?thesis
  proof (cases "offset < length s \<and> \<not> (offset = 0 \<and> s ! 0 = CHR ''/'')")
    case True
    then have lt: "o2 < length s" using a by (auto simp: next_path_part_single_def Let_def o2_def split: if_splits)
    have "s ! o2 \<noteq> CHR ''/''" using lt nth_length_takeWhile [of "\<lambda>c. c = CHR ''/''" "drop offset s"] by (simp add: o2_def)
    then have "position (\<lambda>c. c = CHR ''/'') (drop o2 s) \<noteq> Some 0" using lt
      by (auto simp: Cons_nth_drop_Suc [symmetric])
    then show ?thesis using a True lt position_SomeD [of "\<lambda>c. c = CHR ''/''" "drop o2 s"]
      by (auto simp: next_path_part_single_def Let_def o2_def [symmetric] split: option.splits) (auto simp: o2_def intro: gr0I)
  next
    case False
    then show ?thesis using a by (cases s) (auto simp: next_path_part_single_def split: if_splits)
  qed
qed

lemma next_path_part_parts_offset:
  "next_path_part_parts pre suf offset = Some (part, n) \<Longrightarrow> offset < n \<and> n \<le> length pre + length suf"
  using next_path_part_single_offset by (fastforce simp: next_path_part_parts_def split: if_splits)

function match_path_parts :: "glob_pattern \<Rightarrow> string \<Rightarrow> string \<Rightarrow> nat \<Rightarrow> nat \<Rightarrow> bool \<Rightarrow> bool option" where
  "match_path_parts p pre suf path_offset component_index prefix_only =
     (case next_path_part_parts pre suf path_offset of
        None \<Rightarrow> Some (if prefix_only then True else pattern_satisfied p component_index)
      | Some (path_part, next_offset) \<Rightarrow>
          if component_index \<ge> length (gp_components p) then Some (gp_is_exclude p \<and> \<not> prefix_only)
          else
            let component = gp_components p ! component_index in
            case co_kind component of
              DoubleAsterisk \<Rightarrow>
                (case match_path_parts p pre suf path_offset (component_index + 1) prefix_only of
                   None \<Rightarrow> None
                 | Some True \<Rightarrow> Some True
                 | Some False \<Rightarrow>
                     if \<not> gp_is_exclude p \<and> (is_hidden_path path_part \<or> is_package_folder path_part) then Some False
                     else match_path_parts p pre suf next_offset component_index prefix_only)
            | LiteralComponent \<Rightarrow>
                if \<not> strings_equal p (co_literal component) path_part then Some False
                else match_path_parts p pre suf next_offset (component_index + 1) prefix_only
            | WildcardComponent \<Rightarrow>
                if co_skip_package_folders component \<and> is_package_folder path_part then Some False
                else
                  (case match_wildcard p (co_segments component) path_part of
                     None \<Rightarrow> None
                   | Some False \<Rightarrow> Some False
                   | Some True \<Rightarrow> match_path_parts p pre suf next_offset (component_index + 1) prefix_only))"
  by pat_completeness auto
termination
  by (relation "measure (\<lambda>(p, pre, suf, off, ci, _). (length pre + length suf - off) + (length (gp_components p) - ci))")
    (auto dest: next_path_part_parts_offset)

declare match_path_parts.simps [simp del]

definition gp_matches :: "glob_pattern \<Rightarrow> string \<Rightarrow> bool option" where
  "gp_matches p path = match_path_parts p path [] 0 0 False"

definition matches_parts :: "glob_pattern \<Rightarrow> string \<Rightarrow> string \<Rightarrow> bool option" where
  "matches_parts p pre suf = match_path_parts p pre suf 0 0 False"

definition matches_prefix_parts :: "glob_pattern \<Rightarrow> string \<Rightarrow> string \<Rightarrow> bool option" where
  "matches_prefix_parts p pre suf = match_path_parts p pre suf 0 0 True"

text \<open>\<open>Iterator::any\<close> and \<open>Iterator::position\<close> with a predicate that may panic.\<close>

fun any_opt :: "('a \<Rightarrow> bool option) \<Rightarrow> 'a list \<Rightarrow> bool option" where
  "any_opt f [] = Some False"
| "any_opt f (x # xs) = (case f x of None \<Rightarrow> None | Some True \<Rightarrow> Some True | Some False \<Rightarrow> any_opt f xs)"

fun position_opt :: "('a \<Rightarrow> bool option) \<Rightarrow> 'a list \<Rightarrow> nat option option" where
  "position_opt f [] = Some None"
| "position_opt f (x # xs) =
     (case f x of None \<Rightarrow> None | Some True \<Rightarrow> Some (Some 0) | Some False \<Rightarrow> map_option (map_option Suc) (position_opt f xs))"

record glob_matcher =
  gm_includes :: "glob_pattern list"
  gm_excludes :: "glob_pattern list"
  gm_had_includes :: bool

definition new_glob_matcher :: "string list \<Rightarrow> string list \<Rightarrow> string \<Rightarrow> bool \<Rightarrow> vm_usage \<Rightarrow> glob_matcher" where
  "new_glob_matcher include_specs exclude_specs base_path case_sensitive usage =
     \<lparr>gm_includes = List.map_filter (\<lambda>spec. compile_glob_pattern spec base_path usage case_sensitive) include_specs,
      gm_excludes = List.map_filter (\<lambda>spec. compile_glob_pattern spec base_path Exclude case_sensitive) exclude_specs,
      gm_had_includes = (include_specs \<noteq> [])\<rparr>"

definition matches_file_parts :: "glob_matcher \<Rightarrow> string \<Rightarrow> string \<Rightarrow> nat option option" where
  "matches_file_parts gm pre suf =
     (case any_opt (\<lambda>p. matches_parts p pre suf) (gm_excludes gm) of
        None \<Rightarrow> None
      | Some True \<Rightarrow> Some None
      | Some False \<Rightarrow>
          if gm_includes gm = [] then Some (if \<not> gm_had_includes gm then Some 0 else None)
          else position_opt (\<lambda>p. matches_parts p pre suf) (gm_includes gm))"

definition matches_directory_parts :: "glob_matcher \<Rightarrow> string \<Rightarrow> string \<Rightarrow> bool option" where
  "matches_directory_parts gm pre suf =
     (case any_opt (\<lambda>p. matches_parts p pre suf) (gm_excludes gm) of
        None \<Rightarrow> None
      | Some True \<Rightarrow> Some False
      | Some False \<Rightarrow>
          if gm_includes gm = [] then Some (\<not> gm_had_includes gm)
          else any_opt (\<lambda>p. matches_prefix_parts p pre suf) (gm_includes gm))"

section \<open>Specification matchers\<close>

type_synonym spec_matcher = "glob_pattern list"

definition match_string :: "spec_matcher \<Rightarrow> string \<Rightarrow> bool option" where
  "match_string sm path = any_opt (\<lambda>p. gp_matches p path) sm"

definition match_index :: "spec_matcher \<Rightarrow> string \<Rightarrow> nat option option" where
  "match_index sm path = position_opt (\<lambda>p. gp_matches p path) sm"

definition new_spec_matcher :: "string list \<Rightarrow> string \<Rightarrow> vm_usage \<Rightarrow> bool \<Rightarrow> spec_matcher option" where
  "new_spec_matcher specs base_path usage case_sensitive =
     (if specs = [] then None
      else
        let patterns = List.map_filter (\<lambda>spec. compile_glob_pattern spec base_path usage case_sensitive) specs in
        if patterns \<noteq> [] then Some patterns else None)"

section \<open>The traversal\<close>

text \<open>The operations of the file system that are used, and the entries of a directory.\<close>

record dir_entries =
  de_files :: "string list"
  de_directories :: "string list"
  de_symlinks :: "string set option"

record vfs_host =
  ho_use_case_sensitive_file_names :: bool
  ho_realpath :: "string \<Rightarrow> string"
  ho_get_accessible_entries :: "string \<Rightarrow> dir_entries"

record glob_visitor =
  gv_host :: vfs_host
  gv_file_matcher :: glob_matcher
  gv_directory_matcher :: glob_matcher
  gv_extensions :: "string list"
  gv_case_sensitive :: bool
  gv_visited :: "string set"
  gv_results :: "string list list"

definition UNLIMITED_DEPTH :: int where
  "UNLIMITED_DEPTH = 2 ^ 31 - 1"

fun visit_files :: "string \<Rightarrow> string \<Rightarrow> string list \<Rightarrow> glob_visitor \<Rightarrow> glob_visitor option" where
  "visit_files path_prefix absolute_prefix [] gv = Some gv"
| "visit_files path_prefix absolute_prefix (file # fs) gv =
     (if gv_extensions gv \<noteq> [] \<and> \<not> list_ex (\<lambda>extension. suffix extension file) (gv_extensions gv)
      then visit_files path_prefix absolute_prefix fs gv
      else
        (case matches_file_parts (gv_file_matcher gv) absolute_prefix file of
           None \<Rightarrow> None
         | Some None \<Rightarrow> visit_files path_prefix absolute_prefix fs gv
         | Some (Some index) \<Rightarrow>
             if index < length (gv_results gv) then
               visit_files path_prefix absolute_prefix fs
                 (gv\<lparr>gv_results := (gv_results gv)[index := gv_results gv ! index @ [path_prefix @ file]]\<rparr>)
             else None))"

text \<open>The recursion over directories. Its depth is not bounded by the arguments; \<open>fuel\<close> is, and running out of it is \<open>None\<close>.\<close>

fun visit :: "nat \<Rightarrow> string \<Rightarrow> string \<Rightarrow> int \<Rightarrow> string \<Rightarrow> glob_visitor \<Rightarrow> glob_visitor option"
and visit_directories ::
    "nat \<Rightarrow> string \<Rightarrow> string \<Rightarrow> string \<Rightarrow> string set option \<Rightarrow> int \<Rightarrow> string list \<Rightarrow> glob_visitor \<Rightarrow> glob_visitor option" where
  "visit 0 path absolute_path depth resolved_realpath gv = None"
| "visit (Suc fuel) path absolute_path depth resolved_realpath gv =
     (let realpath = (if resolved_realpath = [] then ho_realpath (gv_host gv) absolute_path else resolved_realpath);
          canonical = canonical_file_name realpath (gv_case_sensitive gv) in
      if canonical \<in> gv_visited gv then Some gv
      else
        let gv = gv\<lparr>gv_visited := insert canonical (gv_visited gv)\<rparr>;
            entries = ho_get_accessible_entries (gv_host gv) absolute_path;
            path_prefix = ensure_trailing_slash path;
            absolute_prefix = ensure_trailing_slash absolute_path in
        case visit_files path_prefix absolute_prefix (de_files entries) gv of
          None \<Rightarrow> None
        | Some gv \<Rightarrow>
            let next_depth = (if depth = UNLIMITED_DEPTH then depth else wrap32 (depth - 1)) in
            if depth \<noteq> UNLIMITED_DEPTH \<and> next_depth = 0 then Some gv
            else visit_directories fuel path_prefix absolute_prefix realpath (de_symlinks entries) next_depth
                   (de_directories entries) gv)"
| "visit_directories fuel path_prefix absolute_prefix realpath symlinks next_depth [] gv = Some gv"
| "visit_directories fuel path_prefix absolute_prefix realpath symlinks next_depth (dir # ds) gv =
     (case matches_directory_parts (gv_directory_matcher gv) absolute_prefix dir of
        None \<Rightarrow> None
      | Some False \<Rightarrow> visit_directories fuel path_prefix absolute_prefix realpath symlinks next_depth ds gv
      | Some True \<Rightarrow>
          let child_realpath =
            (case symlinks of Some sl \<Rightarrow> if dir \<notin> sl then vm_combine_paths realpath dir else [] | None \<Rightarrow> []) in
          (case visit fuel (path_prefix @ dir) (absolute_prefix @ dir) next_depth child_realpath gv of
             None \<Rightarrow> None
           | Some gv \<Rightarrow> visit_directories fuel path_prefix absolute_prefix realpath symlinks next_depth ds gv))"

record match_files_options =
  mf_path :: string
  mf_extensions :: "string list"
  mf_excludes :: "string list"
  mf_includes :: "string list"
  mf_case_sensitive :: bool
  mf_current_directory :: string
  mf_depth :: int
  mf_host :: vfs_host

fun visit_base_paths :: "nat \<Rightarrow> string \<Rightarrow> int \<Rightarrow> string list \<Rightarrow> glob_visitor \<Rightarrow> glob_visitor option" where
  "visit_base_paths fuel cwd depth [] gv = Some gv"
| "visit_base_paths fuel cwd depth (base_path # bs) gv =
     (case visit fuel base_path (vm_combine_paths cwd base_path) depth [] gv of
        None \<Rightarrow> None
      | Some gv \<Rightarrow> visit_base_paths fuel cwd depth bs gv)"

definition match_files :: "nat \<Rightarrow> match_files_options \<Rightarrow> string list option" where
  "match_files fuel options =
     (let path = vm_normalize_path (mf_path options);
          cwd = vm_normalize_path (mf_current_directory options);
          absolute_path = vm_combine_paths cwd path;
          cs = mf_case_sensitive options;
          file_matcher = new_glob_matcher (mf_includes options) (mf_excludes options) absolute_path cs Files;
          directory_matcher = new_glob_matcher (mf_includes options) (mf_excludes options) absolute_path cs Directories;
          result_count = max (length (gm_includes file_matcher)) 1;
          visitor = \<lparr>gv_host = mf_host options, gv_file_matcher = file_matcher, gv_directory_matcher = directory_matcher,
            gv_extensions = mf_extensions options, gv_case_sensitive = cs, gv_visited = {},
            gv_results = replicate result_count []\<rparr> in
      map_option (\<lambda>gv. concat (gv_results gv))
        (visit_base_paths fuel cwd (mf_depth options) (get_base_paths path (mf_includes options) cs) visitor))"

definition read_directory ::
    "nat \<Rightarrow> vfs_host \<Rightarrow> string \<Rightarrow> string \<Rightarrow> string list \<Rightarrow> string list \<Rightarrow> string list \<Rightarrow> int \<Rightarrow> string list option" where
  "read_directory fuel host current_dir path extensions excludes includes depth =
     match_files fuel \<lparr>mf_path = path, mf_extensions = extensions, mf_excludes = excludes, mf_includes = includes,
       mf_case_sensitive = ho_use_case_sensitive_file_names host, mf_current_directory = current_dir, mf_depth = depth,
       mf_host = host\<rparr>"

end
