(* ===== verification/VfsMatching.thy ===== *)
theory VfsMatching
  imports VfsMatch
begin

text \<open>
  Properties of the matching of files: matching by offsets is matching of the list of the parts of a path, the
  pruning of directories loses no file, and wildcards match what they say.
\<close>

section \<open>Parts of a path\<close>

function path_parts_from :: "string \<Rightarrow> nat \<Rightarrow> string list" where
  "path_parts_from s offset =
     (case next_path_part_single s offset of None \<Rightarrow> [] | Some (part, n) \<Rightarrow> part # path_parts_from s n)"
  by pat_completeness auto
termination
  by (relation "measure (\<lambda>(s, offset). length s - offset)") (auto dest: next_path_part_single_offset)

declare path_parts_from.simps [simp del]

abbreviation "slash \<equiv> CHR ''/''"

lemma filter_split_slashes: "list_all (\<lambda>c. c = slash) a \<Longrightarrow> filter (\<lambda>w. w \<noteq> []) (split_on slash (a @ u)) = filter (\<lambda>w. w \<noteq> []) (split_on slash u)"
  by (induction a) auto

lemma filter_split_word:
  assumes "u \<noteq> []" "hd u \<noteq> slash"
  shows "filter (\<lambda>w. w \<noteq> []) (split_on slash u) =
    takeWhile (\<lambda>c. c \<noteq> slash) u # filter (\<lambda>w. w \<noteq> []) (split_on slash (dropWhile (\<lambda>c. c \<noteq> slash) u))"
proof -
  define w z where "w = takeWhile (\<lambda>c. c \<noteq> slash) u" and "z = dropWhile (\<lambda>c. c \<noteq> slash) u"
  have u1: "u = w @ z" by (simp add: w_def z_def)
  have u2: "slash \<notin> set w" using set_takeWhileD [of slash "\<lambda>c. c \<noteq> slash" u] by (auto simp: w_def)
  have u3: "w \<noteq> []" using assms by (cases u) (simp_all add: w_def)
  have "filter (\<lambda>w. w \<noteq> []) (split_on slash (w @ z)) = w # filter (\<lambda>w. w \<noteq> []) (split_on slash z)"
  proof (cases z)
    case Nil
    then show ?thesis using u3 split_on_no_delim [OF u2] by simp
  next
    case (Cons c z')
    have "c = slash" using Cons hd_dropWhile [of "\<lambda>c. c \<noteq> slash" u] by (simp add: z_def)
    then show ?thesis using u3 split_on_append [OF u2] Cons by simp
  qed
  then show ?thesis unfolding w_def z_def takeWhile_dropWhile_id .
qed

lemma position_takeWhile:
  "position P xs = (if length (takeWhile (\<lambda>x. \<not> P x) xs) < length xs then Some (length (takeWhile (\<lambda>x. \<not> P x) xs)) else None)"
  by (induction xs) auto

lemma next_part_exact:
  assumes "\<not> (offset = 0 \<and> prefix ''/'' s)"
  shows "next_path_part_single s offset =
    (let u = dropWhile (\<lambda>c. c = slash) (drop offset s) in
     if u = [] then None else Some (takeWhile (\<lambda>c. c \<noteq> slash) u, length s - length (dropWhile (\<lambda>c. c \<noteq> slash) u)))"
proof (cases "offset < length s")
  case True
  define k where "k = length (takeWhile (\<lambda>c. c = slash) (drop offset s))"
  define u where "u = dropWhile (\<lambda>c. c = slash) (drop offset s)"
  have u: "drop (offset + k) s = u" using dropWhile_eq_drop [of "\<lambda>c. c = slash" "drop offset s"] by (simp add: k_def u_def add.commute)
  have lu: "length u = length s - (offset + k)" using u by (metis length_drop)
  have "\<not> (offset = 0 \<and> s ! 0 = slash)" using assms True by (cases s) auto
  then have eq: "next_path_part_single s offset = (if offset + k \<ge> length s then None else
      case position (\<lambda>c. c = slash) u of Some index \<Rightarrow> Some (take index u, offset + k + index) | None \<Rightarrow> Some (u, length s))"
    using True unfolding next_path_part_single_def Let_def k_def [symmetric] u by (auto split: option.splits)
  let ?w = "takeWhile (\<lambda>c. c \<noteq> slash) u"
  have lw: "length (dropWhile (\<lambda>c. c \<noteq> slash) u) = length u - length ?w" by (simp add: dropWhile_eq_drop)
  show ?thesis
  proof (cases "u = []")
    case True
    then have "offset + k \<ge> length s" using u by simp
    then show ?thesis using eq True by (simp add: u_def [symmetric])
  next
    case False
    then have lt: "\<not> offset + k \<ge> length s" using lu by auto
    have le: "length ?w \<le> length u" by (rule length_takeWhile_le)
    show ?thesis
    proof (cases "length ?w < length u")
      case True
      then show ?thesis using eq lt False lw lu by (simp add: position_takeWhile takeWhile_eq_take [symmetric] u_def [symmetric])
    next
      case full: False
      then have "?w = u" using le by (metis takeWhile_eq_take take_all le_antisym linorder_not_le order.refl)
      then have "dropWhile (\<lambda>c. c \<noteq> slash) u = []" using lw by simp
      then show ?thesis using eq lt False full \<open>?w = u\<close> unfolding position_takeWhile u_def [symmetric] by (simp only: Let_def) simp
    qed
  qed
next
  case False
  then show ?thesis by (simp add: next_path_part_single_def)
qed

lemma path_parts_from_exact:
  "\<not> (offset = 0 \<and> prefix ''/'' s) \<Longrightarrow> path_parts_from s offset = filter (\<lambda>w. w \<noteq> []) (split_on slash (drop offset s))"
proof (induction s offset rule: path_parts_from.induct)
  case (1 s offset)
  define u where "u = dropWhile (\<lambda>c. c = slash) (drop offset s)"
  have fs: "filter (\<lambda>w. w \<noteq> []) (split_on slash (drop offset s)) = filter (\<lambda>w. w \<noteq> []) (split_on slash u)"
    using filter_split_slashes [of "takeWhile (\<lambda>c. c = slash) (drop offset s)" u] set_takeWhileD
    by (fastforce simp: u_def list_all_iff)
  note nx = next_part_exact [OF 1(2), folded u_def]
  show ?case
  proof (cases "u = []")
    case True
    then show ?thesis using nx fs by (simp add: path_parts_from.simps [of s offset])
  next
    case False
    let ?z = "dropWhile (\<lambda>c. c \<noteq> slash) u"
    have n: "next_path_part_single s offset = Some (takeWhile (\<lambda>c. c \<noteq> slash) u, length s - length ?z)" using nx False by simp
    have "suffix ?z s" using suffix_dropWhile [of "\<lambda>c. c \<noteq> slash" u] suffix_dropWhile [of "\<lambda>c. c = slash" "drop offset s"]
        suffix_drop [of offset s] unfolding u_def by (meson suffix_order.trans)
    then have z: "drop (length s - length ?z) s = ?z" by (auto simp: suffix_def)
    have "hd u \<noteq> slash" using False hd_dropWhile [of "\<lambda>c. c = slash" "drop offset s"] by (simp add: u_def)
    then have "filter (\<lambda>w. w \<noteq> []) (split_on slash u) = takeWhile (\<lambda>c. c \<noteq> slash) u # filter (\<lambda>w. w \<noteq> []) (split_on slash ?z)"
      using filter_split_word False by blast
    moreover have "path_parts_from s (length s - length ?z) = filter (\<lambda>w. w \<noteq> []) (split_on slash ?z)"
      using 1(1) [OF n refl] z next_path_part_single_offset [OF n] by (metis not_less_zero)
    ultimately show ?thesis using fs n by (simp add: path_parts_from.simps [of s offset])
  qed
qed

definition path_parts :: "string \<Rightarrow> string list" where
  "path_parts s = (if prefix ''/'' s then [[]] else []) @ filter (\<lambda>w. w \<noteq> []) (split_on slash s)"

lemma path_parts_from_start: "path_parts_from s 0 = path_parts s"
proof (cases "prefix ''/'' s")
  case True
  then obtain t where s: "s = slash # t" by (auto simp: prefix_def)
  have "path_parts_from s 0 = [] # path_parts_from s 1" unfolding s by (subst path_parts_from.simps) (simp add: next_path_part_single_def)
  then show ?thesis using path_parts_from_exact [of 1 s] True by (simp add: path_parts_def s)
next
  case False
  then show ?thesis using path_parts_from_exact [of 0 s] by (simp add: path_parts_def)
qed

text \<open>The parts of a directory are the first parts of what lies in it.\<close>

lemma path_parts_below: "\<exists>more. path_parts (x @ ''/'' @ y) = path_parts x @ more"
proof (cases x)
  case Nil
  then show ?thesis by (simp add: path_parts_def)
next
  case (Cons c x')
  then have "prefix ''/'' (x @ ''/'' @ y) = prefix ''/'' x" by simp
  then show ?thesis using split_on_append_delim [of slash x y] by (simp add: path_parts_def)
qed

section \<open>Wildcards\<close>

text \<open>What a component with wildcards means: a star stands for any text, a question mark for one character.\<close>

definition chars_equal :: "bool \<Rightarrow> char \<Rightarrow> char \<Rightarrow> bool" where
  "chars_equal case_sensitive a b \<longleftrightarrow> (if case_sensitive then a = b else to_ascii_lowercase [a] = to_ascii_lowercase [b])"

fun wildcard_denotes :: "bool \<Rightarrow> string \<Rightarrow> string \<Rightarrow> bool" where
  "wildcard_denotes case_sensitive [] v \<longleftrightarrow> v = []"
| "wildcard_denotes case_sensitive (c # pattern) [] \<longleftrightarrow> c = CHR ''*'' \<and> wildcard_denotes case_sensitive pattern []"
| "wildcard_denotes case_sensitive (c # pattern) (x # v) \<longleftrightarrow>
     (if c = CHR ''*'' then wildcard_denotes case_sensitive pattern (x # v) \<or> wildcard_denotes case_sensitive (c # pattern) v
      else (c = CHR ''?'' \<or> chars_equal case_sensitive c x) \<and> wildcard_denotes case_sensitive pattern v)"

lemma denotes_star:
  "wildcard_denotes cs (CHR ''*'' # pat) v \<longleftrightarrow>
     wildcard_denotes cs pat v \<or> v \<noteq> [] \<and> wildcard_denotes cs (CHR ''*'' # pat) (tl v)"
  by (cases v) auto

lemma denotes_star_drop:
  "wildcard_denotes cs (CHR ''*'' # pat) (drop n v) \<Longrightarrow> wildcard_denotes cs (CHR ''*'' # pat) v"
proof (induction n arbitrary: v)
  case (Suc n)
  then show ?case using denotes_star [of cs pat v] by (cases v) auto
qed simp

lemma denotes_star_ex:
  "wildcard_denotes cs (CHR ''*'' # pat) v \<longleftrightarrow> (\<exists>n\<le>length v. wildcard_denotes cs pat (drop n v))"
proof
  show "wildcard_denotes cs (CHR ''*'' # pat) v \<Longrightarrow> \<exists>n\<le>length v. wildcard_denotes cs pat (drop n v)"
  proof (induction v)
    case (Cons x v)
    show ?case
    proof (cases "wildcard_denotes cs pat (x # v)")
      case True
      then show ?thesis by (intro exI [of _ 0]) simp
    next
      case False
      then obtain n where "n \<le> length v" "wildcard_denotes cs pat (drop n v)" using Cons denotes_star [of cs pat "x # v"] by auto
      then show ?thesis by (intro exI [of _ "Suc n"]) simp
    qed
  qed auto
next
  assume "\<exists>n\<le>length v. wildcard_denotes cs pat (drop n v)"
  then obtain n where "wildcard_denotes cs pat (drop n v)" by blast
  then have "wildcard_denotes cs (CHR ''*'' # pat) (drop n v)" using denotes_star [of cs pat "drop n v"] by blast
  then show "wildcard_denotes cs (CHR ''*'' # pat) v" by (rule denotes_star_drop)
qed

text \<open>A pattern without stars stands for texts of its own length.\<close>

lemma denotes_no_star_append:
  "CHR ''*'' \<notin> set mid \<Longrightarrow> wildcard_denotes cs (mid @ pat) v \<longleftrightarrow>
     length mid \<le> length v \<and> wildcard_denotes cs mid (take (length mid) v) \<and> wildcard_denotes cs pat (drop (length mid) v)"
proof (induction mid arbitrary: v)
  case (Cons c mid)
  then have "c \<noteq> CHR ''*''" and ih: "\<And>v. wildcard_denotes cs (mid @ pat) v \<longleftrightarrow>
     length mid \<le> length v \<and> wildcard_denotes cs mid (take (length mid) v) \<and> wildcard_denotes cs pat (drop (length mid) v)"
    by auto
  then show ?case by (cases v) (simp_all only: append_Cons wildcard_denotes.simps list.size take_Suc_Cons drop_Suc_Cons if_False simp_thms, simp_all add: conj_ac)
qed simp

lemma strings_equal_Cons: "strings_equal p (a # s) (b # t) \<longleftrightarrow> chars_equal (gp_case_sensitive p) a b \<and> strings_equal p s t"
  by (simp add: strings_equal_def chars_equal_def eq_ignore_ascii_case_def to_ascii_lowercase_def)

lemma strings_equal_length: "strings_equal p s t \<Longrightarrow> length s = length t"
  by (auto simp: strings_equal_def eq_ignore_ascii_case_def to_ascii_lowercase_def split: if_split_asm dest: map_eq_imp_length_eq)

lemma denotes_literal:
  "\<not> list_ex is_wildcard l \<Longrightarrow> wildcard_denotes (gp_case_sensitive p) l v \<longleftrightarrow> strings_equal p l v"
proof (induction l arbitrary: v)
  case (Cons c l)
  then show ?case using strings_equal_length [of p "c # l" "[]"]
    by (cases v) (auto simp: strings_equal_Cons is_wildcard_def)
qed (auto simp: strings_equal_def eq_ignore_ascii_case_def to_ascii_lowercase_def)

text \<open>The pattern that a list of segments stands for.\<close>

definition seg_text :: "segment \<Rightarrow> string" where
  "seg_text seg = (case sg_kind seg of LiteralSegment \<Rightarrow> sg_literal seg | StarSegment \<Rightarrow> ''*'' | QuestionSegment \<Rightarrow> ''?'')"

definition segs_text :: "segment list \<Rightarrow> string" where
  "segs_text segments = concat (map seg_text segments)"

lemma segs_text_simps [simp]:
  "segs_text [] = []" "segs_text (s # ss) = seg_text s @ segs_text ss" "segs_text (ss @ ts) = segs_text ss @ segs_text ts"
  by (simp_all add: segs_text_def)

definition wf_segment :: "segment \<Rightarrow> bool" where
  "wf_segment seg \<longleftrightarrow> (sg_kind seg = LiteralSegment \<longrightarrow> sg_literal seg \<noteq> [] \<and> \<not> list_ex is_wildcard (sg_literal seg))"

lemma segments_loop_ok:
  assumes "start \<le> index" "drop index s = rest" "index \<le> length s"
    "\<not> list_ex is_wildcard (take (index - start) (drop start s))"
  shows "segs_text (segments_loop s start index rest) = drop start s \<and> list_all wf_segment (segments_loop s start index rest)"
  using assms
proof (induction s start index rest rule: segments_loop.induct)
  case (1 s start index)
  then show ?case by (auto simp: wf_segment_def seg_text_def)
next
  case (2 s start index ch rest)
  let ?l = "take (index - start) (drop start s)"
  have lt: "index < length s" using 2(4,5) by (cases "index = length s") auto
  have d: "drop (index + 1) s = rest" using 2(4) by (metis Suc_eq_plus1 drop_Suc list.sel(3) tl_drop)
  have sp: "drop start s = ?l @ ch # rest" using append_take_drop_id [of "index - start" "drop start s"] 2(3,4) by simp
  have ch: "ch = s ! index" using 2(4) Cons_nth_drop_Suc [OF lt] by simp
  show ?case
  proof (cases "is_wildcard ch")
    case True
    have ih: "segs_text (segments_loop s (index + 1) (index + 1) rest) = rest \<and> list_all wf_segment (segments_loop s (index + 1) (index + 1) rest)"
      using 2(1) [OF True] d lt by simp
    have k: "seg_text \<lparr>sg_kind = (if ch = CHR ''*'' then StarSegment else QuestionSegment), sg_literal = []\<rparr> = [ch]"
      using True by (auto simp: seg_text_def is_wildcard_def)
    have wf: "wf_segment \<lparr>sg_kind = (if ch = CHR ''*'' then StarSegment else QuestionSegment), sg_literal = []\<rparr>"
      by (simp add: wf_segment_def)
    show ?thesis
    proof (cases "index > start")
      case True
      then have "?l \<noteq> []" using lt by auto
      then have "wf_segment \<lparr>sg_kind = LiteralSegment, sg_literal = ?l\<rparr>" using 2(6) by (simp add: wf_segment_def)
      moreover have "seg_text \<lparr>sg_kind = LiteralSegment, sg_literal = ?l\<rparr> = ?l" by (simp add: seg_text_def)
      ultimately show ?thesis using \<open>is_wildcard ch\<close> ih k sp True wf by simp
    next
      case False
      then have "?l = []" by simp
      then show ?thesis using \<open>is_wildcard ch\<close> ih k sp False wf by simp
    qed
  next
    case False
    have "take (index + 1 - start) (drop start s) = ?l @ [ch]"
      using 2(3) lt ch by (simp add: Suc_diff_le take_Suc_conv_app_nth)
    then show ?thesis using 2(2) [OF False] 2(3,6) d lt False by simp
  qed
qed

lemma parse_segments_text: "segs_text (parse_segments s) = s" "list_all wf_segment (parse_segments s)"
  using segments_loop_ok [of 0 0 s s] by (simp_all add: parse_segments_def)

section \<open>Texts of ASCII characters\<close>

lemma ascii_boundary: "is_ascii v \<Longrightarrow> i \<le> length v \<Longrightarrow> is_char_boundary v i"
proof (cases "i = length v")
  case False
  assume "is_ascii v" "i \<le> length v"
  then have "i < length v" "byte (v ! i) < 128" using False by (simp_all add: is_ascii_def list_all_length byte_def)
  then show ?thesis by (simp add: is_char_boundary_def)
qed (simp add: is_char_boundary_def)

lemma ascii_slice: "is_ascii v \<Longrightarrow> a \<le> b \<Longrightarrow> b \<le> length v \<Longrightarrow> str_slice v a b = Some (take (b - a) (drop a v))"
  by (simp add: str_slice_def ascii_boundary)

lemma ascii_char_len: "is_ascii v \<Longrightarrow> i < length v \<Longrightarrow> char_len_at v i = Some 1"
proof -
  assume a: "is_ascii v" "i < length v"
  then have "byte (v ! i) < 0x80" by (auto simp: is_ascii_def list_all_length byte_def)
  moreover have "drop i v = v ! i # drop (Suc i) v" using a(2) by (simp add: Cons_nth_drop_Suc)
  ultimately show "char_len_at v i = Some 1" using ascii_slice [OF a(1), of i "length v"] a(2)
    by (simp add: char_len_at_def next_char_def len_utf8_def)
qed

section \<open>The loop over segments\<close>

text \<open>What the current attempt and the later attempts from the last star can still match.\<close>

definition attempt :: "bool \<Rightarrow> segment list \<Rightarrow> string \<Rightarrow> nat \<Rightarrow> nat \<Rightarrow> bool" where
  "attempt cs segments v i k \<longleftrightarrow> wildcard_denotes cs (segs_text (drop i segments)) (drop k v)"

definition attempts_left :: "bool \<Rightarrow> segment list \<Rightarrow> string \<Rightarrow> match_state \<Rightarrow> bool" where
  "attempts_left cs segments v st \<longleftrightarrow>
     (case ms_star st of None \<Rightarrow> False
      | Some s \<Rightarrow> ms_star_value st < length v \<and>
          wildcard_denotes cs (CHR ''*'' # segs_text (drop (s + 1) segments)) (drop (ms_star_value st + 1) v))"

text \<open>Since the last star the loop has gone through segments without stars, one byte of the value for each of theirs.\<close>

definition loop_inv :: "segment list \<Rightarrow> string \<Rightarrow> match_state \<Rightarrow> bool" where
  "loop_inv segments v st \<longleftrightarrow>
     ms_segment st \<le> length segments \<and> ms_value st \<le> length v \<and> ms_star_value st \<le> ms_value st \<and>
     (case ms_star st of None \<Rightarrow> True
      | Some s \<Rightarrow> s < ms_segment st \<and>
          (let mid = segs_text (drop (s + 1) (take (ms_segment st) segments)) in
           CHR ''*'' \<notin> set mid \<and> ms_value st = ms_star_value st + length mid))"

lemma drop_take_between: "a \<le> b \<Longrightarrow> b \<le> length xs \<Longrightarrow> drop a xs = drop a (take b xs) @ drop b xs"
  by (metis append_take_drop_id drop_append drop_drop drop_take le_add_diff_inverse2 length_take min.absorb2 drop_all diff_is_0_eq drop0)

text \<open>The later attempts match only if the rest after the segments since the star matches further on.\<close>

lemma attempts_left_later:
  assumes "loop_inv segments v st" "attempts_left cs segments v st"
  shows "\<exists>k > ms_value st. k \<le> length v \<and> attempt cs segments v (ms_segment st) k"
proof -
  obtain s where s: "ms_star st = Some s" using assms(2) by (auto simp: attempts_left_def split: option.splits)
  define mid where "mid = segs_text (drop (s + 1) (take (ms_segment st) segments))"
  have inv: "s < ms_segment st" "ms_segment st \<le> length segments" "CHR ''*'' \<notin> set mid" "ms_value st = ms_star_value st + length mid"
    using assms(1) s by (auto simp: loop_inv_def mid_def Let_def)
  have "drop (s + 1) segments = drop (s + 1) (take (ms_segment st) segments) @ drop (ms_segment st) segments"
    using inv(1,2) by (intro drop_take_between) auto
  then have tx: "segs_text (drop (s + 1) segments) = mid @ segs_text (drop (ms_segment st) segments)"
    by (metis mid_def segs_text_simps(3))
  obtain n where n: "n \<le> length (drop (ms_star_value st + 1) v)"
      "wildcard_denotes cs (mid @ segs_text (drop (ms_segment st) segments)) (drop n (drop (ms_star_value st + 1) v))"
    using assms(2) s tx unfolding attempts_left_def denotes_star_ex by auto
  let ?k = "length mid + (n + (ms_star_value st + 1))"
  have d: "length mid \<le> length (drop n (drop (ms_star_value st + 1) v))"
      "wildcard_denotes cs (segs_text (drop (ms_segment st) segments)) (drop (length mid) (drop n (drop (ms_star_value st + 1) v)))"
    using n(2) denotes_no_star_append [OF inv(3)] by auto
  have "ms_star_value st < length v" using assms(2) s by (simp add: attempts_left_def)
  then have "?k \<le> length v" using d(1) n(1) by simp
  moreover have "attempt cs segments v (ms_segment st) ?k" using d(2) by (simp add: attempt_def add.assoc)
  ultimately show ?thesis using inv(4) by (intro exI [of _ ?k]) simp
qed

definition loop_goal :: "bool \<Rightarrow> segment list \<Rightarrow> string \<Rightarrow> match_state \<Rightarrow> bool" where
  "loop_goal cs segments v st \<longleftrightarrow> attempt cs segments v (ms_segment st) (ms_value st) \<or> attempts_left cs segments v st"

definition loop_measure :: "segment list \<Rightarrow> string \<Rightarrow> match_state \<Rightarrow> nat" where
  "loop_measure segments v st = (length v - ms_star_value st) * (length segments + 1) + (length segments - ms_segment st)"

lemma attempt_segment:
  "i < length segments \<Longrightarrow> attempt cs segments v i k \<longleftrightarrow> wildcard_denotes cs (seg_text (segments ! i) @ segs_text (drop (i + 1) segments)) (drop k v)"
  unfolding attempt_def by (metis Cons_nth_drop_Suc Suc_eq_plus1 segs_text_simps(2))

text \<open>A segment without stars that has been matched.\<close>

lemma loop_inv_advance:
  assumes "loop_inv segments v st" "ms_segment st < length segments" "CHR ''*'' \<notin> set (seg_text (segments ! ms_segment st))"
    "n = length (seg_text (segments ! ms_segment st))" "ms_value st + n \<le> length v"
  shows "loop_inv segments v (st\<lparr>ms_value := ms_value st + n, ms_segment := ms_segment st + 1\<rparr>)"
proof (cases "ms_star st")
  case (Some s)
  let ?i = "ms_segment st"
  have si: "s < ?i" using assms(1) Some by (simp add: loop_inv_def)
  have "drop (s + 1) (take (?i + 1) segments) = drop (s + 1) (take ?i segments) @ [segments ! ?i]"
    using si assms(2) by (simp add: take_Suc_conv_app_nth)
  then show ?thesis using assms Some si by (simp add: loop_inv_def Let_def)
qed (use assms in \<open>simp add: loop_inv_def\<close>)

lemma loop_measure_advance:
  "ms_segment st < length segments \<Longrightarrow> loop_measure segments v (st\<lparr>ms_value := k, ms_segment := ms_segment st + 1\<rparr>) < loop_measure segments v st"
  by (simp add: loop_measure_def)

lemma attempts_left_advance [simp]:
  "attempts_left cs segments v (st\<lparr>ms_value := k, ms_segment := i\<rparr>) \<longleftrightarrow> attempts_left cs segments v st"
  by (cases "ms_star st") (simp_all add: attempts_left_def)

text \<open>The outcome of a turn: a state from which the same can be matched, closer to the end, or the current attempt fails.\<close>

definition turn_ok :: "bool \<Rightarrow> segment list \<Rightarrow> string \<Rightarrow> match_state \<Rightarrow> bool \<Rightarrow> match_state option option \<Rightarrow> bool" where
  "turn_ok cs segments v st goal outcome \<longleftrightarrow>
     (case outcome of None \<Rightarrow> False
      | Some None \<Rightarrow> \<not> goal
      | Some (Some st') \<Rightarrow> loop_inv segments v st' \<and> loop_measure segments v st' < loop_measure segments v st
          \<and> (loop_goal cs segments v st' \<longleftrightarrow> goal \<or> attempts_left cs segments v st))"

lemma literal_segment_turn:
  assumes "is_ascii v" "loop_inv segments v st" "ms_segment st < length segments"
    "sg_kind (segments ! ms_segment st) = LiteralSegment" "wf_segment (segments ! ms_segment st)"
  shows "turn_ok (gp_case_sensitive p) segments v st (attempt (gp_case_sensitive p) segments v (ms_segment st) (ms_value st))
    (match_segment p segments v st)"
proof -
  let ?cs = "gp_case_sensitive p" and ?i = "ms_segment st" and ?k = "ms_value st"
  let ?l = "sg_literal (segments ! ?i)"
  have tx: "seg_text (segments ! ?i) = ?l" using assms(4) by (simp add: seg_text_def)
  have nw: "\<not> list_ex is_wildcard ?l" using assms(4,5) by (simp add: wf_segment_def)
  then have ns: "CHR ''*'' \<notin> set ?l" by (auto simp: list_ex_iff is_wildcard_def)
  have at: "attempt ?cs segments v ?i ?k \<longleftrightarrow> length ?l \<le> length (drop ?k v) \<and> strings_equal p ?l (take (length ?l) (drop ?k v))
      \<and> attempt ?cs segments v (?i + 1) (?k + length ?l)"
    using denotes_no_star_append [OF ns] denotes_literal [OF nw]
    unfolding attempt_segment [OF assms(3)] tx attempt_def [of _ _ _ "?i + 1"] by (simp add: add.commute)
  have k: "?k \<le> length v" using assms(2) by (simp add: loop_inv_def)
  show ?thesis
  proof (cases "?k + length ?l \<le> length v \<and> strings_equal p ?l (take (length ?l) (drop ?k v))")
    case True
    then have "match_segment p segments v st = Some (Some (st\<lparr>ms_value := ?k + length ?l, ms_segment := ?i + 1\<rparr>))"
      using assms(1,3,4) by (simp add: match_segment_def Let_def ascii_slice)
    then show ?thesis using True at loop_inv_advance [OF assms(2,3), of "length ?l"] loop_measure_advance [OF assms(3)] tx ns
      by (auto simp: turn_ok_def loop_goal_def)
  next
    case False
    then have "match_segment p segments v st = Some None"
      using assms(1,3,4) by (auto simp: match_segment_def Let_def ascii_slice)
    then show ?thesis using False at k by (auto simp: turn_ok_def)
  qed
qed

lemma question_turn:
  assumes "is_ascii v" "CHR ''/'' \<notin> set v" "loop_inv segments v st" "ms_segment st < length segments" "ms_value st < length v"
    "sg_kind (segments ! ms_segment st) = QuestionSegment"
  shows "turn_ok cs segments v st (attempt cs segments v (ms_segment st) (ms_value st)) (match_segment p segments v st)"
proof -
  let ?i = "ms_segment st" and ?k = "ms_value st"
  have tx: "seg_text (segments ! ?i) = ''?''" using assms(6) by (simp add: seg_text_def)
  have d: "drop ?k v = v ! ?k # drop (?k + 1) v" using assms(5) by (simp add: Cons_nth_drop_Suc)
  have at: "attempt cs segments v ?i ?k \<longleftrightarrow> attempt cs segments v (?i + 1) (?k + 1)"
    unfolding attempt_segment [OF assms(4)] tx attempt_def [of _ _ _ "?i + 1"] d by simp
  have "v ! ?k \<noteq> CHR ''/''" using assms(2,5) by (metis nth_mem)
  then have "match_segment p segments v st = Some (Some (st\<lparr>ms_value := ?k + 1, ms_segment := ?i + 1\<rparr>))"
    using assms(4,6) ascii_char_len [OF assms(1,5)] by (simp add: match_segment_def)
  then show ?thesis using at loop_inv_advance [OF assms(3,4), of 1] loop_measure_advance [OF assms(4)] tx assms(5)
    by (simp add: turn_ok_def loop_goal_def)
qed

lemma star_turn:
  assumes "loop_inv segments v st" "ms_segment st < length segments" "ms_value st < length v"
    "sg_kind (segments ! ms_segment st) = StarSegment"
  shows "turn_ok cs segments v st (attempt cs segments v (ms_segment st) (ms_value st)) (match_segment p segments v st)"
proof -
  let ?i = "ms_segment st" and ?k = "ms_value st"
  let ?st = "st\<lparr>ms_star := Some ?i, ms_star_value := ?k, ms_segment := ?i + 1\<rparr>"
  let ?star = "CHR ''*'' # segs_text (drop (?i + 1) segments)"
  have tx: "seg_text (segments ! ?i) = ''*''" using assms(4) by (simp add: seg_text_def)
  have at: "\<And>k. attempt cs segments v ?i k \<longleftrightarrow> wildcard_denotes cs ?star (drop k v)"
    unfolding attempt_segment [OF assms(2)] tx by simp
  have "attempts_left cs segments v st \<Longrightarrow> attempt cs segments v ?i ?k"
  proof -
    assume "attempts_left cs segments v st"
    then obtain k where "k > ?k" "attempt cs segments v ?i k" using attempts_left_later [OF assms(1)] by blast
    then have "wildcard_denotes cs ?star (drop (k - ?k) (drop ?k v))" using at by simp
    then show ?thesis unfolding at by (rule denotes_star_drop)
  qed
  moreover have "loop_goal cs segments v ?st \<longleftrightarrow> attempt cs segments v ?i ?k"
    using denotes_star [of cs "segs_text (drop (?i + 1) segments)" "drop ?k v"] assms(3)
    by (simp add: loop_goal_def attempts_left_def at attempt_def [of _ _ _ "Suc ?i"] tl_drop drop_Suc [symmetric])
  moreover have "loop_inv segments v ?st" using assms(1,2) by (simp add: loop_inv_def)
  moreover have "loop_measure segments v ?st < loop_measure segments v st"
  proof -
    have "ms_star_value st \<le> ?k" using assms(1) by (simp add: loop_inv_def)
    then have "(length v - ?k) * (length segments + 1) \<le> (length v - ms_star_value st) * (length segments + 1)"
      by (intro mult_le_mono1) simp
    moreover have "length segments - (?i + 1) < length segments - ?i" using assms(2) by simp
    ultimately have "(length v - ?k) * (length segments + 1) + (length segments - (?i + 1))
        < (length v - ms_star_value st) * (length segments + 1) + (length segments - ?i)" by (rule add_le_less_mono)
    then show ?thesis by (simp add: loop_measure_def)
  qed
  moreover have "match_segment p segments v st = Some (Some ?st)" using assms(2,4) by (simp add: match_segment_def)
  ultimately show ?thesis by (auto simp: turn_ok_def)
qed

lemma match_segment_turn:
  assumes "is_ascii v" "CHR ''/'' \<notin> set v" "list_all wf_segment segments" "loop_inv segments v st" "ms_value st < length v"
  shows "turn_ok (gp_case_sensitive p) segments v st (attempt (gp_case_sensitive p) segments v (ms_segment st) (ms_value st))
    (match_segment p segments v st)"
proof (cases "ms_segment st < length segments")
  case True
  then have "wf_segment (segments ! ms_segment st)" using assms(3) by (simp add: list_all_length)
  then show ?thesis using True assms literal_segment_turn question_turn star_turn
    by (cases "sg_kind (segments ! ms_segment st)") blast+
next
  case False
  then show ?thesis using assms(5) by (simp add: turn_ok_def match_segment_def attempt_def)
qed

lemma retry_star_turn:
  assumes "is_ascii v" "CHR ''/'' \<notin> set v" "loop_inv segments v st" "ms_value st < length v"
  shows "turn_ok cs segments v st (attempts_left cs segments v st) (retry_star v st)"
proof (cases "ms_star st")
  case None
  then show ?thesis by (simp add: turn_ok_def retry_star_def attempts_left_def)
next
  case (Some s)
  let ?sv = "ms_star_value st"
  let ?st = "st\<lparr>ms_star_value := ?sv + 1, ms_value := ?sv + 1, ms_segment := s + 1\<rparr>"
  let ?star = "CHR ''*'' # segs_text (drop (s + 1) segments)"
  have inv: "?sv < length v" "s < length segments" using assms(3,4) Some by (auto simp: loop_inv_def Let_def)
  have "v ! ?sv \<noteq> CHR ''/''" using assms(2) inv(1) by (metis nth_mem)
  then have r: "retry_star v st = Some (Some ?st)" using Some inv(1) ascii_char_len [OF assms(1) inv(1)]
    by (simp add: retry_star_def Let_def)
  have "loop_goal cs segments v ?st \<longleftrightarrow> attempts_left cs segments v st"
    using denotes_star [of cs "segs_text (drop (s + 1) segments)" "drop (?sv + 1) v"] inv(1) Some
    by (auto simp: loop_goal_def attempts_left_def attempt_def tl_drop drop_Suc [symmetric])
  moreover have "loop_inv segments v ?st" using assms(3) inv Some by (simp add: loop_inv_def)
  moreover have "loop_measure segments v ?st < loop_measure segments v st"
  proof -
    have "length v - ?sv = Suc (length v - (?sv + 1))" using inv(1) by simp
    then show ?thesis using inv(2) by (simp add: loop_measure_def)
  qed
  ultimately show ?thesis using r by (simp add: turn_ok_def)
qed

lemma denotes_empty: "wildcard_denotes cs pat [] \<longleftrightarrow> list_all (\<lambda>c. c = CHR ''*'') pat"
  by (induction pat) auto

lemma segs_text_stars:
  "list_all wf_segment segments \<Longrightarrow>
     list_all (\<lambda>c. c = CHR ''*'') (segs_text segments) \<longleftrightarrow> dropWhile (\<lambda>seg. sg_kind seg = StarSegment) segments = []"
proof (induction segments)
  case (Cons seg segments)
  show ?case
  proof (cases "sg_kind seg")
    case LiteralSegment
    then obtain c l where "sg_literal seg = c # l" "\<not> is_wildcard c" using Cons.prems by (cases "sg_literal seg") (auto simp: wf_segment_def)
    then show ?thesis using LiteralSegment by (auto simp: seg_text_def is_wildcard_def)
  qed (use Cons in \<open>auto simp: seg_text_def\<close>)
qed simp

text \<open>The loop ends, and finds a match exactly if there is one.\<close>

lemma match_loop_exact:
  assumes "is_ascii v" "CHR ''/'' \<notin> set v" "list_all wf_segment segments"
  shows "loop_inv segments v st \<Longrightarrow> match_loop p segments v st = Some (loop_goal (gp_case_sensitive p) segments v st)"
proof (induction "loop_measure segments v st" arbitrary: st rule: less_induct)
  case less
  let ?cs = "gp_case_sensitive p"
  show ?case
  proof (cases "ms_value st < length v")
    case True
    note ms = match_segment_turn [OF assms less.prems True, of p] and rs = retry_star_turn [OF assms(1,2) less.prems True, of ?cs]
    show ?thesis
    proof (cases "match_segment p segments v st")
      case None
      then show ?thesis using ms by (simp add: turn_ok_def)
    next
      case (Some o1)
      show ?thesis
      proof (cases o1)
        case (Some st')
        then have "loop_inv segments v st'" "loop_measure segments v st' < loop_measure segments v st"
            "loop_goal ?cs segments v st' = loop_goal ?cs segments v st"
          using ms \<open>match_segment p segments v st = Some o1\<close> by (auto simp: turn_ok_def loop_goal_def [of _ _ _ st])
        then show ?thesis using less.hyps True \<open>match_segment p segments v st = Some o1\<close> Some by (simp add: match_loop.simps [of _ _ _ st])
      next
        case None
        then have no: "loop_goal ?cs segments v st = attempts_left ?cs segments v st"
          using ms \<open>match_segment p segments v st = Some o1\<close> by (simp add: turn_ok_def loop_goal_def)
        then show ?thesis using less.hyps rs True \<open>match_segment p segments v st = Some o1\<close> None
          by (auto simp: match_loop.simps [of _ _ _ st] turn_ok_def split: option.splits)
      qed
    qed
  next
    case False
    then have k: "ms_value st = length v" using less.prems by (simp add: loop_inv_def)
    then have "\<not> attempts_left ?cs segments v st" using attempts_left_later [OF less.prems] by fastforce
    moreover have "list_all wf_segment (drop (ms_segment st) segments)" using assms(3) by (metis append_take_drop_id list_all_append)
    ultimately show ?thesis using k
      by (simp add: match_loop.simps [of _ _ _ st] loop_goal_def attempt_def denotes_empty segs_text_stars)
  qed
qed

lemma match_segments_exact:
  assumes "is_ascii v" "CHR ''/'' \<notin> set v" "list_all wf_segment segments"
  shows "match_segments p segments v = Some (wildcard_denotes (gp_case_sensitive p) (segs_text segments) v)"
  unfolding match_segments_def
  by (subst match_loop_exact [OF assms]) (simp_all add: loop_inv_def loop_goal_def attempt_def attempts_left_def)

lemma denotes_suffix:
  assumes "\<not> list_ex is_wildcard l"
  shows "wildcard_denotes (gp_case_sensitive p) (CHR ''*'' # l) v \<longleftrightarrow>
    length l \<le> length v \<and> strings_equal p l (drop (length v - length l) v)"
proof
  assume "wildcard_denotes (gp_case_sensitive p) (CHR ''*'' # l) v"
  then obtain n where n: "n \<le> length v" "strings_equal p l (drop n v)" unfolding denotes_star_ex denotes_literal [OF assms] by blast
  then have "length l = length v - n" using strings_equal_length by fastforce
  then show "length l \<le> length v \<and> strings_equal p l (drop (length v - length l) v)" using n by simp
next
  assume "length l \<le> length v \<and> strings_equal p l (drop (length v - length l) v)"
  then show "wildcard_denotes (gp_case_sensitive p) (CHR ''*'' # l) v"
    unfolding denotes_star_ex denotes_literal [OF assms] by (intro exI [of _ "length v - length l"]) simp
qed

lemma starts_with_wildcard:
  assumes "list_all wf_segment segments"
  shows "(segments \<noteq> [] \<and> (sg_kind (segments ! 0) = StarSegment \<or> sg_kind (segments ! 0) = QuestionSegment)) \<longleftrightarrow>
    segs_text segments \<noteq> [] \<and> is_wildcard (hd (segs_text segments))"
proof (cases segments)
  case (Cons seg rest)
  show ?thesis
  proof (cases "sg_kind seg")
    case LiteralSegment
    then obtain c l where "sg_literal seg = c # l" "\<not> is_wildcard c" using Cons assms by (cases "sg_literal seg") (auto simp: wf_segment_def)
    then show ?thesis using LiteralSegment Cons by (simp add: seg_text_def)
  qed (simp_all add: Cons seg_text_def is_wildcard_def)
qed simp

definition hides :: "glob_pattern \<Rightarrow> string \<Rightarrow> string \<Rightarrow> bool" where
  "hides p s v \<longleftrightarrow> \<not> gp_is_exclude p \<and> is_hidden_path v \<and> s \<noteq> [] \<and> is_wildcard (hd s)"

lemma match_wildcard_exact:
  assumes "is_ascii v" "CHR ''/'' \<notin> set v" "list_all wf_segment segments"
  shows "match_wildcard p segments v = Some (wildcard_denotes (gp_case_sensitive p) (segs_text segments) v
    \<and> \<not> hides p (segs_text segments) v \<and> should_include_min_js p v segments)"
proof (cases "hides p (segs_text segments) v")
  case True
  then show ?thesis using starts_with_wildcard [OF assms(3)] by (simp add: match_wildcard_def hides_def)
next
  case False
  then have h: "\<not> (\<not> gp_is_exclude p \<and> segments \<noteq> [] \<and> is_hidden_path v
      \<and> (sg_kind (segments ! 0) = StarSegment \<or> sg_kind (segments ! 0) = QuestionSegment))"
    using starts_with_wildcard [OF assms(3)] unfolding hides_def by blast
  show ?thesis
  proof (cases "length segments = 2 \<and> sg_kind (segments ! 0) = StarSegment \<and> sg_kind (segments ! 1) = LiteralSegment")
    case True
    then obtain a b where ab: "segments = [a, b]" "sg_kind a = StarSegment" "sg_kind b = LiteralSegment"
      by (auto simp: length_Suc_conv numeral_2_eq_2)
    then have l: "\<not> list_ex is_wildcard (sg_literal b)" "segs_text segments = CHR ''*'' # sg_literal b"
      using assms(3) by (simp_all add: wf_segment_def seg_text_def)
    then show ?thesis using h False ab assms(1) unfolding l(2) denotes_suffix [OF l(1)] match_wildcard_def
      by (auto simp: Let_def ascii_slice)
  next
    case other: False
    show ?thesis unfolding match_wildcard_def if_not_P [OF h] if_not_P [OF other] match_segments_exact [OF assms]
      using False by simp
  qed
qed

text \<open>C10: On ASCII names a component with wildcards is matched exactly as its pattern says (a star is any text, a question
  mark one character, other characters themselves, up to case where names are case insensitive), apart from the rules on
  hidden files and on \<open>.min.js\<close> files: \<open>match_wildcard\<close> with its fast path for suffixes, its greedy loop and its single
  point of return to the last star neither loses a match nor invents one, ends, and does not panic.\<close>

theorem wildcard_matching_exact:
  assumes "is_ascii v" "CHR ''/'' \<notin> set v"
  shows "match_wildcard p (parse_segments s) v = Some (wildcard_denotes (gp_case_sensitive p) s v
    \<and> \<not> hides p s v \<and> should_include_min_js p v (parse_segments s))"
  using match_wildcard_exact [OF assms parse_segments_text(2)] by (simp add: parse_segments_text(1))

definition sample_pattern :: glob_pattern where
  "sample_pattern = \<lparr>gp_components = [], gp_is_exclude = False, gp_case_sensitive = True, gp_exclude_min_js = True\<rparr>"

theorem wildcard_matching_exact_witness:
  "is_ascii ''abcbd.ts'' \<and> CHR ''/'' \<notin> set ''abcbd.ts'' \<and>
   match_wildcard sample_pattern (parse_segments ''a*b?.t*'') ''abcbd.ts'' = Some True"
proof -
  have h: "is_ascii ''abcbd.ts''" "CHR ''/'' \<notin> set ''abcbd.ts''" by (simp_all add: is_ascii_def)
  show ?thesis using h wildcard_matching_exact [OF h, of sample_pattern "''a*b?.t*''"]
    by (simp add: sample_pattern_def chars_equal_def hides_def is_hidden_path_def should_include_min_js_def has_min_js_suffix_def suffix_def)
qed

section \<open>Matching of lists of parts\<close>

fun match_list :: "glob_pattern \<Rightarrow> string list \<Rightarrow> component list \<Rightarrow> bool \<Rightarrow> bool option" where
  "match_list p [] cs prefix_only = Some (prefix_only \<or> list_all (\<lambda>c. co_kind c = DoubleAsterisk) cs)"
| "match_list p (part # parts) [] prefix_only = Some (gp_is_exclude p \<and> \<not> prefix_only)"
| "match_list p (part # parts) (c # cs) prefix_only =
     (case co_kind c of
        DoubleAsterisk \<Rightarrow>
          (case match_list p (part # parts) cs prefix_only of
             None \<Rightarrow> None
           | Some True \<Rightarrow> Some True
           | Some False \<Rightarrow>
               if \<not> gp_is_exclude p \<and> (is_hidden_path part \<or> is_package_folder part) then Some False
               else match_list p parts (c # cs) prefix_only)
      | LiteralComponent \<Rightarrow>
          if \<not> strings_equal p (co_literal c) part then Some False else match_list p parts cs prefix_only
      | WildcardComponent \<Rightarrow>
          if co_skip_package_folders c \<and> is_package_folder part then Some False
          else (case match_wildcard p (co_segments c) part of
                  None \<Rightarrow> None | Some False \<Rightarrow> Some False | Some True \<Rightarrow> match_list p parts cs prefix_only))"

lemma match_path_parts_list:
  "match_path_parts p pre suf offset ci prefix_only =
     match_list p (path_parts_from (pre @ suf) offset) (drop ci (gp_components p)) prefix_only"
proof (induction p pre suf offset ci prefix_only rule: match_path_parts.induct)
  case (1 p pre suf offset ci prefix_only)
  have np: "next_path_part_parts pre suf offset = next_path_part_single (pre @ suf) offset" by (simp add: next_path_part_parts_def)
  show ?case
  proof (cases "next_path_part_single (pre @ suf) offset")
    case None
    then show ?thesis
      by (simp add: match_path_parts.simps [of p] np path_parts_from.simps [of _ offset] pattern_satisfied_def)
  next
    case (Some pn)
    obtain part n where pn: "pn = (part, n)" by force
    have parts: "path_parts_from (pre @ suf) offset = part # path_parts_from (pre @ suf) n"
      using Some pn by (simp add: path_parts_from.simps [of _ offset])
    show ?thesis
    proof (cases "ci < length (gp_components p)")
      case False
      then show ?thesis using Some pn parts by (simp add: match_path_parts.simps [of p] np)
    next
      case True
      then have d: "drop ci (gp_components p) = gp_components p ! ci # drop (ci + 1) (gp_components p)"
        by (simp add: Cons_nth_drop_Suc)
      note ih = 1 [OF Some [folded np] pn [symmetric], unfolded not_le, OF True refl]
      let ?c = "gp_components p ! ci"
      have step: "match_path_parts p pre suf offset ci prefix_only =
          (case co_kind ?c of
             DoubleAsterisk \<Rightarrow>
               (case match_path_parts p pre suf offset (ci + 1) prefix_only of
                  None \<Rightarrow> None | Some True \<Rightarrow> Some True
                | Some False \<Rightarrow>
                    if \<not> gp_is_exclude p \<and> (is_hidden_path part \<or> is_package_folder part) then Some False
                    else match_path_parts p pre suf n ci prefix_only)
           | LiteralComponent \<Rightarrow>
               if \<not> strings_equal p (co_literal ?c) part then Some False
               else match_path_parts p pre suf n (ci + 1) prefix_only
           | WildcardComponent \<Rightarrow>
               if co_skip_package_folders ?c \<and> is_package_folder part then Some False
               else (case match_wildcard p (co_segments ?c) part of
                       None \<Rightarrow> None | Some False \<Rightarrow> Some False
                     | Some True \<Rightarrow> match_path_parts p pre suf n (ci + 1) prefix_only))"
        using True by (subst match_path_parts.simps) (simp only: np Some pn option.case prod.case if_not_P not_le Let_def)
      have IH1: "co_kind ?c = LiteralComponent \<Longrightarrow> strings_equal p (co_literal ?c) part \<Longrightarrow>
          match_path_parts p pre suf n (ci + 1) prefix_only = match_list p (path_parts_from (pre @ suf) n) (drop (ci + 1) (gp_components p)) prefix_only"
        using ih(1) by blast
      have IH2: "co_kind ?c = WildcardComponent \<Longrightarrow> \<not> (co_skip_package_folders ?c \<and> is_package_folder part) \<Longrightarrow>
          match_wildcard p (co_segments ?c) part = Some True \<Longrightarrow>
          match_path_parts p pre suf n (ci + 1) prefix_only = match_list p (path_parts_from (pre @ suf) n) (drop (ci + 1) (gp_components p)) prefix_only"
        using ih(2) by blast
      have IH3: "co_kind ?c = DoubleAsterisk \<Longrightarrow> match_path_parts p pre suf offset (ci + 1) prefix_only =
          match_list p (part # path_parts_from (pre @ suf) n) (drop (ci + 1) (gp_components p)) prefix_only"
        using ih(3) unfolding parts by blast
      have IH4: "co_kind ?c = DoubleAsterisk \<Longrightarrow> match_path_parts p pre suf offset (ci + 1) prefix_only = Some False \<Longrightarrow>
          \<not> (\<not> gp_is_exclude p \<and> (is_hidden_path part \<or> is_package_folder part)) \<Longrightarrow>
          match_path_parts p pre suf n ci prefix_only = match_list p (path_parts_from (pre @ suf) n) (?c # drop (ci + 1) (gp_components p)) prefix_only"
        using ih(4) unfolding d by blast
      note IH1' = IH1 [unfolded Suc_eq_plus1 [symmetric]] and IH2' = IH2 [unfolded Suc_eq_plus1 [symmetric]]
        and IH3' = IH3 [unfolded Suc_eq_plus1 [symmetric]] and IH4' = IH4 [unfolded Suc_eq_plus1 [symmetric]]
      show ?thesis unfolding step parts d match_list.simps
        by (cases "co_kind ?c") (auto simp del: match_list.simps simp: IH1' IH2' IH3' IH4' split: option.split bool.split)
    qed
  qed
qed

section \<open>Pruning of directories\<close>

definition plain_part :: "string \<Rightarrow> bool" where
  "plain_part part \<longleftrightarrow> is_ascii part \<and> slash \<notin> set part"

definition wf_component :: "component \<Rightarrow> bool" where
  "wf_component c \<longleftrightarrow> list_all wf_segment (co_segments c)"

definition relaxed :: "glob_pattern \<Rightarrow> glob_pattern" where
  "relaxed p = p\<lparr>gp_exclude_min_js := False\<rparr>"

lemma relaxed_simps [simp]:
  "gp_components (relaxed p) = gp_components p" "gp_is_exclude (relaxed p) = gp_is_exclude p"
  "gp_case_sensitive (relaxed p) = gp_case_sensitive p" "strings_equal (relaxed p) = strings_equal p"
  "should_include_min_js (relaxed p) v segments"
  by (simp_all add: relaxed_def strings_equal_def fun_eq_iff should_include_min_js_def)

lemma match_wildcard_plain:
  "plain_part v \<Longrightarrow> wf_component c \<Longrightarrow> \<exists>b. match_wildcard p (co_segments c) v = Some b"
  using match_wildcard_exact by (fastforce simp: plain_part_def wf_component_def)

lemma match_wildcard_relaxed:
  "plain_part v \<Longrightarrow> wf_component c \<Longrightarrow> match_wildcard p (co_segments c) v = Some True \<Longrightarrow>
     match_wildcard (relaxed p) (co_segments c) v = Some True"
  using match_wildcard_exact [of v "co_segments c" p] match_wildcard_exact [of v "co_segments c" "relaxed p"]
  by (auto simp: plain_part_def wf_component_def hides_def)

lemma match_list_plain:
  "list_all plain_part parts \<Longrightarrow> list_all wf_component cs \<Longrightarrow> \<exists>b. match_list p parts cs prefix_only = Some b"
proof (induction p parts cs prefix_only rule: match_list.induct)
  case (3 p part parts c cs prefix_only)
  obtain b where b: "match_wildcard p (co_segments c) part = Some b" using match_wildcard_plain 3(5,6) by fastforce
  show ?case using 3 b by (cases "co_kind c") (auto split: option.splits bool.splits)
qed auto

text \<open>A file pattern that matches a file matches the directories above it as a prefix.\<close>

lemma match_list_prefix:
  "\<not> gp_is_exclude p \<Longrightarrow> list_all plain_part parts \<Longrightarrow> list_all wf_component cs \<Longrightarrow>
     match_list p (parts @ below) cs False = Some True \<Longrightarrow> match_list (relaxed p) parts cs True = Some True"
proof (induction "relaxed p" parts cs True rule: match_list.induct)
  case (3 part parts c cs)
  show ?case
  proof (cases "co_kind c")
    case LiteralComponent
    then show ?thesis using 3 by (auto split: if_splits)
  next
    case WildcardComponent
    then have "match_wildcard p (co_segments c) part = Some True" "match_list p (parts @ below) cs False = Some True"
        "\<not> (co_skip_package_folders c \<and> is_package_folder part)"
      using 3(8) by (auto split: if_splits option.splits bool.splits)
    then show ?thesis using 3 WildcardComponent match_wildcard_relaxed by auto
  next
    case DoubleAsterisk
    obtain b where b: "match_list (relaxed p) (part # parts) cs True = Some b" using match_list_plain 3(6,7) by fastforce
    show ?thesis
    proof (cases b)
      case True
      then show ?thesis using DoubleAsterisk b by simp
    next
      case False
      then have "match_list p (part # parts @ below) cs False \<noteq> Some True" using 3 DoubleAsterisk b by auto
      then have l: "match_list p (part # parts @ below) cs False = Some False"
        "\<not> (\<not> gp_is_exclude p \<and> (is_hidden_path part \<or> is_package_folder part))"
        "match_list p (parts @ below) (c # cs) False = Some True"
        using 3(8) DoubleAsterisk by (auto split: option.splits bool.splits if_splits)
      have "match_list (relaxed p) parts (c # cs) True = Some True" using 3 l DoubleAsterisk b False by auto
      then show ?thesis using DoubleAsterisk b False l(2) by simp
    qed
  qed
qed auto

text \<open>What an exclude pattern matches it matches with everything below.\<close>

lemma match_list_below:
  "gp_is_exclude p \<Longrightarrow> list_all plain_part (parts @ below) \<Longrightarrow> list_all wf_component cs \<Longrightarrow>
     match_list p parts cs False = Some True \<Longrightarrow> match_list p (parts @ below) cs False = Some True"
proof (induction p parts cs False rule: match_list.induct)
  case (1 p cs)
  then have "list_all (\<lambda>c. co_kind c = DoubleAsterisk) cs" by simp
  then show ?case using 1(1) by (cases below; induction cs) auto
next
  case (3 p part parts c cs)
  show ?case
  proof (cases "co_kind c")
    case DoubleAsterisk
    obtain b where b: "match_list p (part # parts @ below) cs False = Some b" using match_list_plain 3(6,7) by fastforce
    then show ?thesis using 3 DoubleAsterisk by (cases b) (auto split: option.splits bool.splits if_splits)
  qed (use 3 in \<open>auto split: if_splits option.splits bool.splits\<close>)
qed auto

lemma path_parts_plain: "is_ascii s \<Longrightarrow> list_all plain_part (path_parts s)"
proof -
  assume a: "is_ascii s"
  have "set w \<subseteq> set s" if "w \<in> set (split_on d s)" for d w
    using that by (induction s arbitrary: w) (fastforce split: if_splits list.splits)+
  then have "w \<in> set (split_on slash s) \<Longrightarrow> plain_part w" for w
    using a split_on_pieces [of w slash s] by (fastforce simp: plain_part_def is_ascii_def list_all_iff)
  then show ?thesis by (auto simp: path_parts_def list_all_iff plain_part_def is_ascii_def)
qed

lemma parse_component_wf: "wf_component (parse_component s is_include)"
  by (simp add: parse_component_def wf_component_def parse_segments_text)

lemma compile_wf: "compile_glob_pattern spec base usage cs = Some p \<Longrightarrow> list_all wf_component (gp_components p)"
  by (auto simp: compile_glob_pattern_def Let_def list_all_iff parse_component_wf split: if_splits)

lemma compile_exclude: "compile_glob_pattern spec base usage cs = Some p \<Longrightarrow> gp_is_exclude p \<longleftrightarrow> usage = Exclude"
  by (auto simp: compile_glob_pattern_def Let_def split: if_splits)

lemma compile_relaxed:
  "compile_glob_pattern spec base Directories cs = map_option relaxed (compile_glob_pattern spec base Files cs)"
  by (simp add: compile_glob_pattern_def Let_def relaxed_def)

lemma in_map_filter: "y \<in> set (List.map_filter f xs) \<longleftrightarrow> (\<exists>x\<in>set xs. f x = Some y)"
  by (auto simp: List.map_filter_def image_iff)

lemma map_filter_map_option: "List.map_filter (\<lambda>x. map_option g (f x)) xs = map g (List.map_filter f xs)"
  by (induction xs) (auto simp: List.map_filter_simps split: option.split)

lemma any_opt_True: "x \<in> set xs \<Longrightarrow> f x = Some True \<Longrightarrow> (\<And>y. y \<in> set xs \<Longrightarrow> f y \<noteq> None) \<Longrightarrow> any_opt f xs = Some True"
  by (induction xs) (auto split: option.splits bool.splits)

lemma any_opt_False: "any_opt f xs = Some False \<longleftrightarrow> (\<forall>x\<in>set xs. f x = Some False)"
  by (induction xs) (auto split: option.splits bool.splits)

lemma position_opt_Some: "position_opt f xs = Some (Some i) \<Longrightarrow> i < length xs \<and> f (xs ! i) = Some True"
  by (induction xs arbitrary: i) (auto split: option.splits bool.splits)

lemma matches_parts_list:
  "matches_parts p pre suf = match_list p (path_parts (pre @ suf)) (gp_components p) False"
  "matches_prefix_parts p pre suf = match_list p (path_parts (pre @ suf)) (gp_components p) True"
  by (simp_all add: matches_parts_def matches_prefix_parts_def match_path_parts_list path_parts_from_start)

lemma matches_below:
  assumes "is_ascii (pre @ dir @ ''/'' @ below @ name)" "list_all wf_component (gp_components p)"
  shows "\<not> gp_is_exclude p \<Longrightarrow> matches_parts p (pre @ dir @ ''/'' @ below) name = Some True \<Longrightarrow>
      matches_prefix_parts (relaxed p) pre dir = Some True"
    and "gp_is_exclude p \<Longrightarrow> matches_parts p (pre @ dir @ ''/'' @ below) name = Some False \<Longrightarrow>
      matches_parts p pre dir = Some False"
proof -
  have "path_parts ((pre @ dir @ ''/'' @ below) @ name) = path_parts ((pre @ dir) @ ''/'' @ (below @ name))" by simp
  then obtain more_parts where parts: "path_parts ((pre @ dir @ ''/'' @ below) @ name) = path_parts (pre @ dir) @ more_parts"
    using path_parts_below [of "pre @ dir" "below @ name"] by metis
  have plain: "list_all plain_part (path_parts (pre @ dir) @ more_parts)" using path_parts_plain [OF assms(1)] parts by simp
  then show "\<not> gp_is_exclude p \<Longrightarrow> matches_parts p (pre @ dir @ ''/'' @ below) name = Some True \<Longrightarrow>
      matches_prefix_parts (relaxed p) pre dir = Some True"
    using match_list_prefix [of p "path_parts (pre @ dir)"] assms(2) unfolding matches_parts_list parts relaxed_simps by simp
  obtain b where "match_list p (path_parts (pre @ dir)) (gp_components p) False = Some b"
    using match_list_plain plain assms(2) by fastforce
  then show "gp_is_exclude p \<Longrightarrow> matches_parts p (pre @ dir @ ''/'' @ below) name = Some False \<Longrightarrow>
      matches_parts p pre dir = Some False"
    using match_list_below [OF _ plain assms(2)] unfolding matches_parts_list parts by (cases b) auto
qed



text \<open>The name of three characters of three bytes each, with its extension.\<close>

definition japanese_name :: string where
  "japanese_name = map char_of [0xE6, 0x97, 0xA5, 0xE6, 0x9C, 0xAC, 0xE8, 0xAA, 0x9E, 0x2E, 0x74, 0x73 :: nat]"

text \<open>A file with characters of several bytes in its name stops the matching: to compare the end of the name with a
  literal of the pattern the code slices it in the middle of a character, which panics. The same name is matched
  without a panic by a pattern whose literal is no longer than its ASCII end.\<close>

theorem multibyte_names_panic:
  "match_wildcard sample_pattern (parse_segments ''*-test.ts'') japanese_name = None
   \<and> match_wildcard sample_pattern (parse_segments ''*.ts'') japanese_name = Some True
   \<and> match_wildcard sample_pattern (parse_segments ''*ab*.ts'') japanese_name = None
   \<and> valid_text japanese_name"
proof -
  have "japanese_name = enc [0x65E5, 0x672C, 0x8A9E, 0x2E, 0x74, 0x73]" by (simp add: japanese_name_def enc_def utf8_encode_def)
  moreover have "runes [0x65E5, 0x672C, 0x8A9E, 0x2E, 0x74, 0x73]" by (simp add: runes_def is_scalar_def)
  ultimately have v: "valid_text japanese_name" by (metis valid_text_enc)
  have a: "match_wildcard sample_pattern (parse_segments ''*-test.ts'') japanese_name = None" by code_simp
  have b: "match_wildcard sample_pattern (parse_segments ''*.ts'') japanese_name = Some True" by code_simp
  have c: "match_wildcard sample_pattern (parse_segments ''*ab*.ts'') japanese_name = None" by code_simp
  show ?thesis using a b c v by simp
qed

end
