(* ===== verification/VfsTraversal.thy ===== *)
theory VfsTraversal
  imports VfsMatching
begin

text \<open>
  The traversal of the file system: it returns only files that exist and match, and it ends, also when symbolic links
  lead back to directories above.
\<close>

section \<open>Invariants of the traversal\<close>

text \<open>The directories that the traversal may enter, by their paths relative to the request and absolute.\<close>

inductive walk :: "vfs_host \<Rightarrow> glob_matcher \<Rightarrow> string \<Rightarrow> string \<Rightarrow> string \<Rightarrow> string \<Rightarrow> bool"
  for host dm root aroot where
  walk_root: "walk host dm root aroot root aroot"
| walk_child: "walk host dm root aroot path apath \<Longrightarrow> dir \<in> set (de_directories (ho_get_accessible_entries host apath)) \<Longrightarrow>
    matches_directory_parts dm (ensure_trailing_slash apath) dir = Some True \<Longrightarrow>
    walk host dm root aroot (ensure_trailing_slash path @ dir) (ensure_trailing_slash apath @ dir)"

definition visitor_realpath :: "glob_visitor \<Rightarrow> string \<Rightarrow> string \<Rightarrow> string" where
  "visitor_realpath gv apath rp = (if rp = [] then ho_realpath (gv_host gv) apath else rp)"

definition enter :: "string \<Rightarrow> glob_visitor \<Rightarrow> glob_visitor" where
  "enter canonical gv = gv\<lparr>gv_visited := insert canonical (gv_visited gv)\<rparr>"

definition entries_of :: "glob_visitor \<Rightarrow> string \<Rightarrow> dir_entries" where
  "entries_of gv apath = ho_get_accessible_entries (gv_host gv) apath"

lemma visit_Suc:
  "visit (Suc fuel) path apath depth rp gv =
     (let realpath = visitor_realpath gv apath rp; canonical = canonical_file_name realpath (gv_case_sensitive gv) in
      if canonical \<in> gv_visited gv then Some gv
      else case visit_files (ensure_trailing_slash path) (ensure_trailing_slash apath) (de_files (entries_of gv apath)) (enter canonical gv) of
        None \<Rightarrow> None
      | Some gv' \<Rightarrow>
          let next_depth = (if depth = UNLIMITED_DEPTH then depth else wrap32 (depth - 1)) in
          if depth \<noteq> UNLIMITED_DEPTH \<and> next_depth = 0 then Some gv'
          else visit_directories fuel (ensure_trailing_slash path) (ensure_trailing_slash apath) realpath
                 (de_symlinks (entries_of gv apath)) next_depth (de_directories (entries_of gv apath)) gv')"
  by (simp add: Let_def visitor_realpath_def enter_def entries_of_def split: option.split)

declare visit.simps(2) [simp del]

text \<open>An invariant of the visitor that holds after the files of each directory of the walk holds after the traversal.\<close>

lemma visit_keeps:
  assumes job: "\<And>gv. I gv \<Longrightarrow> gv_host gv = host \<and> gv_directory_matcher gv = dm"
    and dirs: "\<And>path apath c gv gv'. walk host dm root aroot path apath \<Longrightarrow> I gv \<Longrightarrow>
      visit_files (ensure_trailing_slash path) (ensure_trailing_slash apath) (de_files (entries_of gv apath)) (enter c gv) = Some gv' \<Longrightarrow> I gv'"
  shows "(\<forall>path apath depth rp gv gv'. walk host dm root aroot path apath \<longrightarrow> I gv \<longrightarrow>
        visit fuel path apath depth rp gv = Some gv' \<longrightarrow> I gv') \<and>
    (\<forall>path apath realpath symlinks nd ds gv gv'. walk host dm root aroot path apath \<longrightarrow> I gv \<longrightarrow>
        set ds \<subseteq> set (de_directories (ho_get_accessible_entries host apath)) \<longrightarrow>
        visit_directories fuel (ensure_trailing_slash path) (ensure_trailing_slash apath) realpath symlinks nd ds gv = Some gv' \<longrightarrow> I gv')"
    (is "?V fuel \<and> ?D fuel")
proof -
  have vd: "?D fuel" if "?V fuel" for fuel
  proof (intro allI impI)
    fix path apath realpath symlinks nd ds gv gv'
    assume w: "walk host dm root aroot path apath"
    assume "I gv" "set ds \<subseteq> set (de_directories (ho_get_accessible_entries host apath))"
      "visit_directories fuel (ensure_trailing_slash path) (ensure_trailing_slash apath) realpath symlinks nd ds gv = Some gv'"
    then show "I gv'"
    proof (induction ds arbitrary: gv)
      case (Cons d ds)
      obtain b where b: "matches_directory_parts dm (ensure_trailing_slash apath) d = Some b"
        using Cons.prems job [OF Cons.prems(1)] by (auto split: option.splits)
      show ?case
      proof (cases b)
        case False
        then show ?thesis using Cons b job [OF Cons.prems(1)] by simp
      next
        case True
        obtain rp gv2 where v: "visit fuel (ensure_trailing_slash path @ d) (ensure_trailing_slash apath @ d) nd rp gv = Some gv2"
          and r: "visit_directories fuel (ensure_trailing_slash path) (ensure_trailing_slash apath) realpath symlinks nd ds gv2 = Some gv'"
          using Cons.prems(3) b True job [OF Cons.prems(1)] by (auto simp: Let_def split: option.splits)
        have "walk host dm root aroot (ensure_trailing_slash path @ d) (ensure_trailing_slash apath @ d)"
          using walk_child [OF w] b True Cons.prems(2) by simp
        then have "I gv2" using that Cons.prems(1) v by blast
        then show ?thesis using Cons.IH Cons.prems(2) r by simp
      qed
    qed simp
  qed
  have vs: "?V (Suc fuel)" if d: "?D fuel" for fuel
  proof (intro allI impI)
    fix path apath depth rp gv gv'
    assume w: "walk host dm root aroot path apath" and i: "I gv" and v: "visit (Suc fuel) path apath depth rp gv = Some gv'"
    define c where "c = canonical_file_name (visitor_realpath gv apath rp) (gv_case_sensitive gv)"
    show "I gv'"
    proof (cases "c \<in> gv_visited gv")
      case True
      then show ?thesis using v i by (simp add: visit_Suc c_def)
    next
      case False
      then obtain gv2 where f: "visit_files (ensure_trailing_slash path) (ensure_trailing_slash apath) (de_files (entries_of gv apath)) (enter c gv) = Some gv2"
        using v by (auto simp: visit_Suc c_def [symmetric] Let_def split: option.splits)
      have i2: "I gv2" by (rule dirs [OF w i f])
      have "gv' = gv2 \<or> (\<exists>realpath symlinks nd. visit_directories fuel (ensure_trailing_slash path) (ensure_trailing_slash apath) realpath
           symlinks nd (de_directories (entries_of gv apath)) gv2 = Some gv')"
        using v False f by (auto simp: visit_Suc c_def [symmetric] Let_def split: if_splits)
      moreover have "entries_of gv apath = ho_get_accessible_entries host apath" using job [OF i] by (simp add: entries_of_def)
      ultimately show ?thesis using i2 d w by (metis subset_refl)
    qed
  qed
  have "?V fuel"
  proof (induction fuel)
    case (Suc fuel)
    show ?case by (rule vs [OF vd [OF Suc]])
  qed simp
  then show ?thesis by (intro conjI vd)
qed

section \<open>Soundness\<close>

text \<open>A path among the results for an include pattern: a file of a directory of the walk, with an extension that was
  asked for, that the matcher accepts for the pattern of that index.\<close>

definition found_file :: "vfs_host \<Rightarrow> glob_matcher \<Rightarrow> glob_matcher \<Rightarrow> string list \<Rightarrow> string \<Rightarrow> string \<Rightarrow> nat \<Rightarrow> string \<Rightarrow> bool" where
  "found_file host fm dm extensions root aroot i r \<longleftrightarrow>
     (\<exists>path apath name. walk host dm root aroot path apath
        \<and> name \<in> set (de_files (ho_get_accessible_entries host apath))
        \<and> r = ensure_trailing_slash path @ name
        \<and> (extensions = [] \<or> (\<exists>extension\<in>set extensions. suffix extension name))
        \<and> matches_file_parts fm (ensure_trailing_slash apath) name = Some (Some i))"

definition results_found :: "(nat \<Rightarrow> string \<Rightarrow> bool) \<Rightarrow> glob_visitor \<Rightarrow> bool" where
  "results_found P gv \<longleftrightarrow> (\<forall>i<length (gv_results gv). \<forall>r\<in>set (gv_results gv ! i). P i r)"

lemma visit_files_found:
  assumes "results_found P gv" "visit_files pp ap fs gv = Some gv'"
    "\<And>name i. name \<in> set fs \<Longrightarrow> gv_extensions gv = [] \<or> (\<exists>extension\<in>set (gv_extensions gv). suffix extension name) \<Longrightarrow>
      matches_file_parts (gv_file_matcher gv) ap name = Some (Some i) \<Longrightarrow> P i (pp @ name)"
  shows "results_found P gv'"
  using assms
proof (induction pp ap fs gv rule: visit_files.induct)
  case (2 pp ap f fs gv)
  show ?case
  proof (cases "gv_extensions gv \<noteq> [] \<and> \<not> list_ex (\<lambda>extension. suffix extension f) (gv_extensions gv)")
    case True
    then show ?thesis using 2 by simp
  next
    case False
    then have e: "gv_extensions gv = [] \<or> (\<exists>extension\<in>set (gv_extensions gv). suffix extension f)" by (auto simp: list_ex_iff)
    obtain o1 where m: "matches_file_parts (gv_file_matcher gv) ap f = Some o1" using 2(5) False by (auto split: option.splits)
    show ?thesis
    proof (cases o1)
      case None
      then show ?thesis using 2(2) [OF False m] 2(4-6) False m by simp
    next
      case (Some i)
      let ?gv = "gv\<lparr>gv_results := (gv_results gv)[i := gv_results gv ! i @ [pp @ f]]\<rparr>"
      have i: "i < length (gv_results gv)" "visit_files pp ap fs ?gv = Some gv'"
        using 2(5) False m Some by (auto split: if_splits)
      have "P i (pp @ f)" using 2(6) [of f i] e m Some by simp
      then have "results_found P ?gv" using 2(4) i(1) by (auto simp: results_found_def nth_list_update)
      then show ?thesis using 2(3) [OF False m Some i(1)] i(2) 2(6) by simp
    qed
  qed
qed simp

lemma visit_files_job:
  "visit_files pp ap fs gv = Some gv' \<Longrightarrow> gv_host gv' = gv_host gv \<and> gv_file_matcher gv' = gv_file_matcher gv
     \<and> gv_directory_matcher gv' = gv_directory_matcher gv \<and> gv_extensions gv' = gv_extensions gv
     \<and> gv_case_sensitive gv' = gv_case_sensitive gv \<and> gv_visited gv' = gv_visited gv
     \<and> length (gv_results gv') = length (gv_results gv)"
  by (induction pp ap fs gv rule: visit_files.induct) (auto split: if_splits option.splits)

definition options_cwd :: "match_files_options \<Rightarrow> string" where
  "options_cwd options = vm_normalize_path (mf_current_directory options)"

definition options_matcher :: "match_files_options \<Rightarrow> vm_usage \<Rightarrow> glob_matcher" where
  "options_matcher options usage = new_glob_matcher (mf_includes options) (mf_excludes options)
     (vm_combine_paths (options_cwd options) (vm_normalize_path (mf_path options))) (mf_case_sensitive options) usage"

definition options_base_paths :: "match_files_options \<Rightarrow> string list" where
  "options_base_paths options = get_base_paths (vm_normalize_path (mf_path options)) (mf_includes options) (mf_case_sensitive options)"

definition found_by :: "match_files_options \<Rightarrow> string \<Rightarrow> bool" where
  "found_by options r \<longleftrightarrow> (\<exists>base\<in>set (options_base_paths options). \<exists>i.
     found_file (mf_host options) (options_matcher options Files) (options_matcher options Directories)
       (mf_extensions options) base (vm_combine_paths (options_cwd options) base) i r)"

definition visitor_inv :: "match_files_options \<Rightarrow> glob_visitor \<Rightarrow> bool" where
  "visitor_inv options gv \<longleftrightarrow> gv_host gv = mf_host options \<and> gv_file_matcher gv = options_matcher options Files
     \<and> gv_directory_matcher gv = options_matcher options Directories \<and> gv_extensions gv = mf_extensions options
     \<and> results_found (\<lambda>i. found_by options) gv"

lemma visit_visitor_inv:
  assumes "visit fuel base (vm_combine_paths (options_cwd options) base) depth [] gv = Some gv'"
    "visitor_inv options gv" "base \<in> set (options_base_paths options)"
  shows "visitor_inv options gv'"
proof -
  let ?abase = "vm_combine_paths (options_cwd options) base"
  let ?host = "mf_host options" and ?dm = "options_matcher options Directories"
  have step: "visitor_inv options gv2"
    if w: "walk ?host ?dm base ?abase path apath" and i: "visitor_inv options gv1"
      and f: "visit_files (ensure_trailing_slash path) (ensure_trailing_slash apath) (de_files (entries_of gv1 apath)) (enter c gv1) = Some gv2"
    for path apath c gv1 gv2
  proof -
    have "results_found (\<lambda>i. found_by options) gv2"
    proof (rule visit_files_found [OF _ f])
      show "results_found (\<lambda>i. found_by options) (enter c gv1)" using i by (simp add: visitor_inv_def enter_def results_found_def)
    next
      fix name i'
      assume "name \<in> set (de_files (entries_of gv1 apath))"
        "gv_extensions (enter c gv1) = [] \<or> (\<exists>extension\<in>set (gv_extensions (enter c gv1)). suffix extension name)"
        "matches_file_parts (gv_file_matcher (enter c gv1)) (ensure_trailing_slash apath) name = Some (Some i')"
      then show "found_by options (ensure_trailing_slash path @ name)"
        using w assms(3) i unfolding found_by_def found_file_def visitor_inv_def entries_of_def enter_def by fastforce
    qed
    then show ?thesis using visit_files_job [OF f] i by (simp add: visitor_inv_def enter_def)
  qed
  have job: "\<And>gv. visitor_inv options gv \<Longrightarrow> gv_host gv = ?host \<and> gv_directory_matcher gv = ?dm" by (simp add: visitor_inv_def)
  have "visit fuel path apath depth rp gv1 = Some gv2 \<Longrightarrow> walk ?host ?dm base ?abase path apath \<Longrightarrow> visitor_inv options gv1 \<Longrightarrow>
      visitor_inv options gv2" for path apath rp gv1 gv2
    using visit_keeps [where I = "visitor_inv options" and host = ?host and dm = ?dm and root = base and aroot = ?abase and fuel = fuel] job step
    by blast
  then show ?thesis using assms(1,2) walk_root by blast
qed

lemma visit_base_paths_inv:
  "visit_base_paths fuel (options_cwd options) depth bases gv = Some gv' \<Longrightarrow> visitor_inv options gv \<Longrightarrow>
     set bases \<subseteq> set (options_base_paths options) \<Longrightarrow> visitor_inv options gv'"
  by (induction bases arbitrary: gv) (auto split: option.splits dest: visit_visitor_inv)

lemma match_files_visitor:
  "match_files fuel options = map_option (\<lambda>gv. concat (gv_results gv))
     (visit_base_paths fuel (options_cwd options) (mf_depth options) (options_base_paths options)
       \<lparr>gv_host = mf_host options, gv_file_matcher = options_matcher options Files,
        gv_directory_matcher = options_matcher options Directories, gv_extensions = mf_extensions options,
        gv_case_sensitive = mf_case_sensitive options, gv_visited = {},
        gv_results = replicate (max (length (gm_includes (options_matcher options Files))) 1) []\<rparr>)"
  by (simp add: match_files_def Let_def options_matcher_def options_base_paths_def options_cwd_def)


definition sample_host :: vfs_host where
  "sample_host = \<lparr>ho_use_case_sensitive_file_names = True, ho_realpath = (\<lambda>p. if p = ''/p/src/up'' then ''/p'' else p),
     ho_get_accessible_entries = (\<lambda>p.
       if p = ''/p'' then \<lparr>de_files = [''x.ts'', ''y.js''], de_directories = [''node_modules'', ''src''], de_symlinks = Some {}\<rparr>
       else if p = ''/p/src'' then \<lparr>de_files = [''a.ts'', ''b.css''], de_directories = [''up''], de_symlinks = Some {''up''}\<rparr>
       else \<lparr>de_files = [], de_directories = [], de_symlinks = None\<rparr>)\<rparr>"

definition sample_options :: match_files_options where
  "sample_options = \<lparr>mf_path = ''/p'', mf_extensions = [''.ts''], mf_excludes = [], mf_includes = [''**/*''],
     mf_case_sensitive = True, mf_current_directory = ''/'', mf_depth = UNLIMITED_DEPTH, mf_host = sample_host\<rparr>"

lemma sample_run: "match_files 9 sample_options = Some [''/p/x.ts'', ''/p/src/a.ts'']"
  by code_simp


section \<open>Termination\<close>

text \<open>The matchers do not panic on ASCII names, and an index that they return is one of the result lists.\<close>

lemma any_opt_total: "(\<And>x. x \<in> set xs \<Longrightarrow> f x \<noteq> None) \<Longrightarrow> \<exists>b. any_opt f xs = Some b"
  by (induction xs) (auto split: option.splits bool.splits)

lemma position_opt_total: "(\<And>x. x \<in> set xs \<Longrightarrow> f x \<noteq> None) \<Longrightarrow> \<exists>i. position_opt f xs = Some i"
  by (induction xs) (auto split: option.splits bool.splits)

lemma new_glob_matcher_wf:
  "p \<in> set (gm_includes (new_glob_matcher incs excs base cs usage)) \<union> set (gm_excludes (new_glob_matcher incs excs base cs usage)) \<Longrightarrow>
     list_all wf_component (gp_components p)"
  by (auto simp: new_glob_matcher_def in_map_filter dest: compile_wf)

lemma matches_parts_total:
  assumes "is_ascii (pre @ suf)" "list_all wf_component (gp_components p)"
  shows "matches_parts p pre suf \<noteq> None" "matches_prefix_parts p pre suf \<noteq> None"
  using match_list_plain [OF path_parts_plain [OF assms(1)] assms(2)] unfolding matches_parts_list by auto

lemma matches_file_parts_total:
  assumes "is_ascii (pre @ suf)"
  shows "\<exists>o1. matches_file_parts (new_glob_matcher incs excs base cs usage) pre suf = Some o1
    \<and> (\<forall>i. o1 = Some i \<longrightarrow> i < max (length (gm_includes (new_glob_matcher incs excs base cs usage))) 1)"
proof -
  define gm where "gm = new_glob_matcher incs excs base cs usage"
  have t: "\<And>p. p \<in> set (gm_includes gm) \<union> set (gm_excludes gm) \<Longrightarrow> matches_parts p pre suf \<noteq> None"
    unfolding gm_def using matches_parts_total(1) [OF assms new_glob_matcher_wf] by blast
  obtain b where b: "any_opt (\<lambda>p. matches_parts p pre suf) (gm_excludes gm) = Some b"
    using any_opt_total [of "gm_excludes gm" "\<lambda>p. matches_parts p pre suf"] t by blast
  obtain o1 where o1: "position_opt (\<lambda>p. matches_parts p pre suf) (gm_includes gm) = Some o1"
    using position_opt_total [of "gm_includes gm" "\<lambda>p. matches_parts p pre suf"] t by blast
  have "i < length (gm_includes gm)" if "o1 = Some i" for i using position_opt_Some o1 that by blast
  then show ?thesis unfolding gm_def [symmetric] using b o1 by (cases b) (auto simp: matches_file_parts_def less_max_iff_disj)
qed

lemma matches_directory_parts_total:
  assumes "is_ascii (pre @ suf)"
  shows "\<exists>b. matches_directory_parts (new_glob_matcher incs excs base cs usage) pre suf = Some b"
proof -
  define gm where "gm = new_glob_matcher incs excs base cs usage"
  have t: "\<And>p. p \<in> set (gm_includes gm) \<union> set (gm_excludes gm) \<Longrightarrow> matches_parts p pre suf \<noteq> None \<and> matches_prefix_parts p pre suf \<noteq> None"
    unfolding gm_def using matches_parts_total [OF assms new_glob_matcher_wf] by blast
  obtain b where b: "any_opt (\<lambda>p. matches_parts p pre suf) (gm_excludes gm) = Some b"
    using any_opt_total [of "gm_excludes gm" "\<lambda>p. matches_parts p pre suf"] t by blast
  obtain o1 where "any_opt (\<lambda>p. matches_prefix_parts p pre suf) (gm_includes gm) = Some o1"
    using any_opt_total [of "gm_includes gm" "\<lambda>p. matches_prefix_parts p pre suf"] t by blast
  then show ?thesis unfolding gm_def [symmetric] using b by (cases b) (auto simp: matches_directory_parts_def)
qed

text \<open>A file system with finitely many real paths and ASCII names, whose entries tell the symbolic links among the
  directories, so that the real path of another directory lies directly below that of its parent.\<close>

definition orderly_host :: "bool \<Rightarrow> string set \<Rightarrow> vfs_host \<Rightarrow> bool" where
  "orderly_host cs C host \<longleftrightarrow> finite C
     \<and> (\<forall>a. canonical_file_name (ho_realpath host a) cs \<in> C)
     \<and> (\<forall>a. list_all is_ascii (de_files (ho_get_accessible_entries host a)) \<and> list_all is_ascii (de_directories (ho_get_accessible_entries host a)))
     \<and> (\<forall>a sl. de_symlinks (ho_get_accessible_entries host a) = Some sl \<longrightarrow>
          (\<forall>d\<in>set (de_directories (ho_get_accessible_entries host a)). d \<notin> sl \<longrightarrow>
            vm_combine_paths (ho_realpath host a) d = ho_realpath host (ensure_trailing_slash a @ d)))"

definition visitor_job :: "match_files_options \<Rightarrow> string set \<Rightarrow> glob_visitor \<Rightarrow> bool" where
  "visitor_job options V gv \<longleftrightarrow> gv_host gv = mf_host options \<and> gv_file_matcher gv = options_matcher options Files
     \<and> gv_directory_matcher gv = options_matcher options Directories \<and> gv_case_sensitive gv = mf_case_sensitive options
     \<and> length (gv_results gv) = max (length (gm_includes (options_matcher options Files))) 1 \<and> V \<subseteq> gv_visited gv"

lemma visitor_job_files:
  "visitor_job options V gv \<Longrightarrow> visit_files pp ap fs (enter c gv) = Some gv' \<Longrightarrow> visitor_job options (insert c V) gv'"
  by (drule visit_files_job) (auto simp: visitor_job_def enter_def)

lemma visitor_job_mono: "visitor_job options V gv \<Longrightarrow> V' \<subseteq> V \<Longrightarrow> visitor_job options V' gv"
  by (auto simp: visitor_job_def)

lemma visitor_job_visit:
  assumes "visit fuel path apath depth rp gv = Some gv'" "visitor_job options V gv"
  shows "visitor_job options V gv'"
proof -
  have step: "\<And>path apath c gv1 gv2. walk (mf_host options) (options_matcher options Directories) root aroot path apath \<Longrightarrow>
      visitor_job options V gv1 \<Longrightarrow> visit_files (ensure_trailing_slash path) (ensure_trailing_slash apath)
        (de_files (entries_of gv1 apath)) (enter c gv1) = Some gv2 \<Longrightarrow> visitor_job options V gv2" for root aroot
    by (rule visitor_job_mono [OF visitor_job_files]) auto
  have job: "\<And>gv1. visitor_job options V gv1 \<Longrightarrow>
      gv_host gv1 = mf_host options \<and> gv_directory_matcher gv1 = options_matcher options Directories"
    by (simp add: visitor_job_def)
  have "visit fuel path' apath' depth rp gv1 = Some gv2 \<Longrightarrow> walk (mf_host options) (options_matcher options Directories) path apath path' apath' \<Longrightarrow>
      visitor_job options V gv1 \<Longrightarrow> visitor_job options V gv2" for path' apath' rp gv1 gv2
    using visit_keeps [where I = "visitor_job options V" and host = "mf_host options" and dm = "options_matcher options Directories"
      and root = path and aroot = apath and fuel = fuel] job step by blast
  then show ?thesis using assms walk_root by blast
qed

lemma visit_files_total:
  "visitor_job options V gv \<Longrightarrow> is_ascii ap \<Longrightarrow> list_all is_ascii fs \<Longrightarrow> \<exists>gv'. visit_files pp ap fs gv = Some gv'"
proof (induction pp ap fs gv rule: visit_files.induct)
  case (2 pp ap f fs gv)
  have "is_ascii (ap @ f)" using 2(5,6) by (simp add: is_ascii_def)
  then obtain o1 where m: "matches_file_parts (gv_file_matcher gv) ap f = Some o1" "\<And>i. o1 = Some i \<Longrightarrow> i < length (gv_results gv)"
    using matches_file_parts_total 2(4) unfolding visitor_job_def options_matcher_def by metis
  have job: "visitor_job options V (gv\<lparr>gv_results := (gv_results gv)[i := x]\<rparr>)" for i x using 2(4) by (simp add: visitor_job_def)
  show ?case
  proof (cases "gv_extensions gv \<noteq> [] \<and> \<not> list_ex (\<lambda>extension. suffix extension f) (gv_extensions gv)")
    case True
    then show ?thesis using 2(1) [OF True 2(4)] 2(5,6) by simp
  next
    case False
    show ?thesis
    proof (cases o1)
      case None
      then show ?thesis using 2(2) [OF False _ _ 2(4)] 2(5,6) m(1) unfolding visit_files.simps if_not_P [OF False] by simp
    next
      case (Some i)
      then show ?thesis using 2(3) [OF False _ _ _ job] 2(5,6) m unfolding visit_files.simps if_not_P [OF False] by simp
    qed
  qed
qed simp

lemma orderly_entries:
  "orderly_host cs C host \<Longrightarrow> list_all is_ascii (de_files (ho_get_accessible_entries host a))
     \<and> list_all is_ascii (de_directories (ho_get_accessible_entries host a))"
  by (simp add: orderly_host_def)

lemma is_ascii_append [simp]: "is_ascii (a @ b) \<longleftrightarrow> is_ascii a \<and> is_ascii b"
  by (simp add: is_ascii_def)

lemma is_ascii_ensure [simp]: "is_ascii a \<Longrightarrow> is_ascii (ensure_trailing_slash a)"
  by (simp add: ensure_trailing_slash_def is_ascii_def)

lemma visit_total:
  assumes oh: "orderly_host (mf_case_sensitive options) C (mf_host options)"
  shows "visitor_job options V gv \<Longrightarrow> is_ascii apath \<Longrightarrow> rp = [] \<or> rp = ho_realpath (mf_host options) apath \<Longrightarrow>
    card (C - V) < fuel \<Longrightarrow> \<exists>gv'. visit fuel path apath depth rp gv = Some gv'"
proof (induction fuel arbitrary: V gv path apath depth rp)
  case (Suc fuel)
  let ?host = "mf_host options" and ?cs = "mf_case_sensitive options"
  define rpath where "rpath = ho_realpath ?host apath"
  define c where "c = canonical_file_name rpath ?cs"
  let ?es = "ho_get_accessible_entries ?host apath"
  have job: "gv_host gv = ?host" "gv_case_sensitive gv = ?cs" using Suc.prems(1) by (simp_all add: visitor_job_def)
  have rp: "visitor_realpath gv apath rp = rpath" using Suc.prems(3) job by (auto simp: visitor_realpath_def rpath_def)
  have es: "entries_of gv apath = ?es" using job by (simp add: entries_of_def)
  show ?case
  proof (cases "c \<in> gv_visited gv")
    case True
    then show ?thesis using rp job by (simp add: visit_Suc c_def)
  next
    case False
    then have "c \<notin> V" using Suc.prems(1) by (auto simp: visitor_job_def)
    moreover have "c \<in> C" "finite C" using oh by (simp_all add: orderly_host_def c_def rpath_def)
    ultimately have "card (C - insert c V) < card (C - V)" by (intro psubset_card_mono) auto
    then have lt: "card (C - insert c V) < fuel" using Suc.prems(4) by simp
    have "visitor_job options V (enter c gv)" using Suc.prems(1) by (auto simp: visitor_job_def enter_def)
    then obtain gv2 where f: "visit_files (ensure_trailing_slash path) (ensure_trailing_slash apath) (de_files ?es) (enter c gv) = Some gv2"
      using visit_files_total Suc.prems(2) orderly_entries [OF oh] by (metis is_ascii_ensure)
    have j2: "visitor_job options (insert c V) gv2" by (rule visitor_job_files [OF Suc.prems(1) f])
    have dirs: "\<exists>gv'. visit_directories fuel (ensure_trailing_slash path) (ensure_trailing_slash apath) rpath (de_symlinks ?es) nd ds gv3 = Some gv'"
      if "visitor_job options (insert c V) gv3" "set ds \<subseteq> set (de_directories ?es)" for nd ds gv3
      using that
    proof (induction ds arbitrary: gv3)
      case (Cons d ds)
      have d: "is_ascii (ensure_trailing_slash apath @ d)"
        using orderly_entries [OF oh, of apath] Cons.prems(2) Suc.prems(2) by (simp add: list_all_iff)
      then obtain b where b: "matches_directory_parts (gv_directory_matcher gv3) (ensure_trailing_slash apath) d = Some b"
        using matches_directory_parts_total Cons.prems(1) unfolding visitor_job_def options_matcher_def by metis
      show ?case
      proof (cases b)
        case False
        then show ?thesis using Cons b by simp
      next
        case True
        define crp where "crp = (case de_symlinks ?es of Some sl \<Rightarrow> if d \<notin> sl then vm_combine_paths rpath d else [] | None \<Rightarrow> [])"
        have "crp = [] \<or> crp = ho_realpath ?host (ensure_trailing_slash apath @ d)"
          using oh Cons.prems(2) by (auto simp: crp_def rpath_def orderly_host_def split: option.splits)
        then obtain gv4 where v: "visit fuel (ensure_trailing_slash path @ d) (ensure_trailing_slash apath @ d) nd crp gv3 = Some gv4"
          using Suc.IH [OF Cons.prems(1) d _ lt] by blast
        then show ?thesis using Cons.IH [OF visitor_job_visit [OF v Cons.prems(1)]] Cons.prems(2) b True
          by (simp add: crp_def [symmetric])
      qed
    qed simp
    obtain gv' where "visit_directories fuel (ensure_trailing_slash path) (ensure_trailing_slash apath) rpath (de_symlinks ?es)
        (if depth = UNLIMITED_DEPTH then depth else wrap32 (depth - 1)) (de_directories ?es) gv2 = Some gv'" using dirs [OF j2] by blast
    then show ?thesis using False f job rp es by (simp add: visit_Suc c_def Let_def)
  qed
qed simp

lemma visit_base_paths_total:
  assumes "orderly_host (mf_case_sensitive options) C (mf_host options)" "card C < fuel"
  shows "visitor_job options {} gv \<Longrightarrow> \<forall>base\<in>set bases. is_ascii (vm_combine_paths cwd base) \<Longrightarrow>
    \<exists>gv'. visit_base_paths fuel cwd depth bases gv = Some gv'"
proof (induction bases arbitrary: gv)
  case (Cons base bases)
  obtain gv2 where v: "visit fuel base (vm_combine_paths cwd base) depth [] gv = Some gv2"
    using visit_total [OF assms(1) Cons.prems(1)] assms(2) Cons.prems(2) by force
  show ?case using Cons.IH [OF visitor_job_visit [OF v Cons.prems(1)]] v Cons.prems(2) by simp
qed simp


text \<open>A file system with a link from \<open>/p/src/up\<close> back to \<open>/p\<close>.\<close>

definition loop_host :: vfs_host where
  "loop_host = \<lparr>ho_use_case_sensitive_file_names = True,
     ho_realpath = (\<lambda>p. if suffix ''src'' p then ''/p/src'' else ''/p''),
     ho_get_accessible_entries = (\<lambda>p.
       if suffix ''src'' p then \<lparr>de_files = [''a.ts''], de_directories = [''up''], de_symlinks = Some {''up''}\<rparr>
       else \<lparr>de_files = [''x.ts''], de_directories = [''src''], de_symlinks = Some {}\<rparr>)\<rparr>"

lemma loop_host_orderly: "orderly_host True {''/p'', ''/p/src''} loop_host"
proof -
  have "vm_combine_paths ''/p'' ''src'' = ''/p/src''" by code_simp
  moreover have "suffix ''src'' (x @ ''src'')" for x by (simp add: suffix_def)
  ultimately show ?thesis by (auto simp: orderly_host_def loop_host_def canonical_file_name_def is_ascii_def)
qed


end
