(* ===== verification/Glob.thy ===== *)
theory Glob
  imports Utf8
begin

text \<open>
  The glob patterns of the language server protocol (\<open>crates/ts-glob/src/lib.rs\<close>): their parser, their printing and
  their matching. Patterns and inputs are lists of bytes; the special characters are ASCII, so that the slices of the
  code at their positions are at boundaries.
\<close>

section \<open>Patterns\<close>

datatype element =
    Slash
  | Literal string
  | Star
  | AnyChar
  | StarStar
  | Group "glob list"
  | CharRange bool rune rune
and glob = Glob (glob_elems: "element list")

datatype glob_error = BadRange | InvalidUtf8 | Message string

definition glob_error_text :: "glob_error \<Rightarrow> string" where
  "glob_error_text e = (case e of
     BadRange \<Rightarrow> [CHR 0x27] @ ''['' @ [CHR 0x27] @ '' patterns must be of the form [x-y]''
   | InvalidUtf8 \<Rightarrow> ''invalid UTF-8 encoding''
   | Message m \<Rightarrow> m)"

section \<open>Parsing\<close>

definition special_chars :: "bool \<Rightarrow> string" where
  "special_chars nested = (if nested then ''*?{[/},'' else ''*?{[/'')"

definition parse_literal :: "element list \<Rightarrow> string \<Rightarrow> bool \<Rightarrow> element list \<times> string" where
  "parse_literal elems pattern nested =
     (let end = (case position (\<lambda>ch. ch \<in> set (special_chars nested)) pattern of Some i \<Rightarrow> i | None \<Rightarrow> length pattern) in
      (elems @ [Literal (take end pattern)], drop end pattern))"

definition read_range_rune :: "string \<Rightarrow> (rune \<times> nat) option" where
  "read_range_rune input = map_option (\<lambda>r. (r, len_utf8 r)) (next_char input)"

text \<open>The parsing of a range, after its bracket: the element and the rest of the pattern, or \<open>BadRange\<close>.\<close>

definition parse_range :: "string \<Rightarrow> (element \<times> string) option" where
  "parse_range pattern =
     (if pattern = [] then None
      else
        let negate = (hd pattern = CHR ''!''); pattern = (if negate then tl pattern else pattern) in
        case read_range_rune pattern of
          None \<Rightarrow> None
        | Some (low, sz) \<Rightarrow>
            let pattern = drop sz pattern in
            if pattern = [] \<or> hd pattern \<noteq> CHR ''-'' then None
            else
              let pattern = tl pattern in
              case read_range_rune pattern of
                None \<Rightarrow> None
              | Some (high, sz) \<Rightarrow>
                  let pattern = drop sz pattern in
                  if pattern = [] \<or> hd pattern \<noteq> CHR '']'' then None
                  else Some (CharRange negate low high, tl pattern))"

type_synonym parse_result = "element list \<times> string \<times> glob_error option"

definition parse_error :: "glob_error \<Rightarrow> parse_result" where
  "parse_error e = ([], [], Some e)"

text \<open>The parser and its loop over the alternatives of a group. The outer \<open>None\<close> is running out of \<open>fuel\<close>, which a
  turn of the loops and a recursive call use up.\<close>

fun parse_worker :: "nat \<Rightarrow> element list \<Rightarrow> string \<Rightarrow> bool \<Rightarrow> parse_result option"
and parse_group :: "nat \<Rightarrow> glob list \<Rightarrow> string \<Rightarrow> (glob list \<times> string, glob_error) sum option" where
  "parse_worker 0 elems pattern nested = None"
| "parse_worker (Suc fuel) elems [] nested = Some (elems, [], None)"
| "parse_worker (Suc fuel) elems (c # pattern) nested =
     (if c = CHR ''/'' then parse_worker fuel (elems @ [Slash]) pattern nested
      else if c = CHR ''*'' then
        (if pattern \<noteq> [] \<and> hd pattern = CHR ''*'' then
           if elems \<noteq> [] \<and> last elems \<noteq> Slash \<or> tl pattern \<noteq> [] \<and> hd (tl pattern) \<noteq> CHR ''/''
           then Some (parse_error (Message (''** may only be adjacent to '' @ [CHR 0x27] @ ''/'' @ [CHR 0x27])))
           else parse_worker fuel (elems @ [StarStar]) (tl pattern) nested
         else parse_worker fuel (elems @ [Star]) pattern nested)
      else if c = CHR ''?'' then parse_worker fuel (elems @ [AnyChar]) pattern nested
      else if c = CHR ''{'' then
        (case parse_group fuel [] (c # pattern) of
           None \<Rightarrow> None
         | Some (Inr e) \<Rightarrow> Some (parse_error e)
         | Some (Inl (gs, rest)) \<Rightarrow> parse_worker fuel (elems @ [Group gs]) rest nested)
      else if (c = CHR ''}'' \<or> c = CHR '','') \<and> nested then Some (elems, c # pattern, None)
      else if c = CHR ''['' then
        (case parse_range pattern of
           None \<Rightarrow> Some (parse_error BadRange)
         | Some (e, rest) \<Rightarrow> parse_worker fuel (elems @ [e]) rest nested)
      else (let (elems, rest) = parse_literal elems (c # pattern) nested in parse_worker fuel elems rest nested))"
| "parse_group 0 gs pattern = None"
| "parse_group (Suc fuel) gs pattern =
     (let unmatched = Message (''unmatched '' @ [CHR 0x27] @ ''{'' @ [CHR 0x27]) in
      if pattern = [] then Some (Inr unmatched)
      else if hd pattern = CHR ''}'' then Some (Inl (gs, tl pattern))
      else
        (case parse_worker fuel [] (tl pattern) True of
           None \<Rightarrow> None
         | Some (_, _, Some e) \<Rightarrow> Some (Inr e)
         | Some (elems, pat, None) \<Rightarrow>
             if pat = [] then Some (Inr unmatched) else parse_group fuel (gs @ [Glob elems]) pat))"

text \<open>The parser with the fuel that is enough (\<open>parse_returns\<close>).\<close>

definition parse :: "string \<Rightarrow> (glob, glob_error) sum option" where
  "parse pattern =
     map_option (\<lambda>(elems, _, err). case err of None \<Rightarrow> Inl (Glob elems) | Some e \<Rightarrow> Inr e)
       (parse_worker (2 * length pattern + 2) [] pattern False)"

section \<open>Printing\<close>

fun element_text :: "element \<Rightarrow> string"
and glob_text :: "glob \<Rightarrow> string" where
  "element_text Slash = ''/''"
| "element_text (Literal l) = l"
| "element_text Star = ''*''"
| "element_text AnyChar = ''?''"
| "element_text StarStar = ''**''"
| "element_text (Group gs) = ''{'' @ join '','' (map glob_text gs) @ ''}''"
| "element_text (CharRange negate low high) = ''['' @ utf8_encode low @ ''-'' @ utf8_encode high @ '']''"
| "glob_text (Glob elems) = concat (map element_text elems)"

section \<open>Matching\<close>

definition skip_slashes :: "string \<Rightarrow> string" where
  "skip_slashes input = dropWhile (\<lambda>c. c = CHR ''/'') input"

definition split_segment :: "string \<Rightarrow> string \<times> string" where
  "split_segment input =
     (case position (\<lambda>c. c = CHR ''/'') input of
        None \<Rightarrow> (input, [])
      | Some i \<Rightarrow> (take i input, skip_slashes (drop i input)))"

lemma split_segment_shorter: "input \<noteq> [] \<Longrightarrow> length (snd (split_segment input)) < length input"
proof (cases "position (\<lambda>c. c = CHR ''/'') input")
  case (Some i)
  assume "input \<noteq> []"
  have i: "i < length input" "input ! i = CHR ''/''" using position_SomeD [OF Some] by auto
  then have "drop i input = CHR ''/'' # drop (Suc i) input" by (metis Cons_nth_drop_Suc)
  then have "skip_slashes (drop i input) = skip_slashes (drop (Suc i) input)" by (simp add: skip_slashes_def)
  moreover have "length (skip_slashes (drop (Suc i) input)) \<le> length (drop (Suc i) input)"
    unfolding skip_slashes_def by (rule length_dropWhile_le)
  ultimately show ?thesis using Some i(1) by (simp add: split_segment_def)
qed (simp add: split_segment_def)

text \<open>The inputs that the loop for \<open>**\<close> tries: the input and what is left after each of its segments.\<close>

function segment_suffixes :: "string \<Rightarrow> string list" where
  "segment_suffixes input = (if input = [] then [] else input # segment_suffixes (snd (split_segment input)))"
  by pat_completeness auto
termination
  by (relation "measure length") (auto simp: split_segment_shorter)

declare segment_suffixes.simps [simp del]

text \<open>The suffixes at \<open>char_indices\<close>.\<close>

definition char_suffixes :: "string \<Rightarrow> string list" where
  "char_suffixes s = map (\<lambda>i. drop i s) (filter (is_char_boundary s) [0..<length s])"

definition first_slash :: "element list \<Rightarrow> nat" where
  "first_slash elems = length (takeWhile (\<lambda>e. e \<noteq> Slash) elems)"

primrec element_weight :: "element \<Rightarrow> nat" and glob_weight :: "glob \<Rightarrow> nat" where
  "element_weight Slash = 1"
| "element_weight (Literal l) = 1"
| "element_weight Star = 1"
| "element_weight AnyChar = 1"
| "element_weight StarStar = 1"
| "element_weight (Group gs) = 1 + sum_list (map glob_weight gs)"
| "element_weight (CharRange n l h) = 1"
| "glob_weight (Glob elems) = sum_list (map element_weight elems)"

function matches :: "element list \<Rightarrow> string \<Rightarrow> bool" where
  "matches [] input = (input = [])"
| "matches (elem # elems) input =
     (case elem of
        Slash \<Rightarrow> if input = [] \<or> hd input \<noteq> CHR ''/'' then False else matches elems (skip_slashes input)
      | StarStar \<Rightarrow>
          let elems = (if elems \<noteq> [] then tl elems else elems) in
          if elems = [] then True else list_ex (\<lambda>i. matches elems i) (segment_suffixes input)
      | Literal literal \<Rightarrow> if \<not> prefix literal input then False else matches elems (drop (length literal) input)
      | Star \<Rightarrow>
          let (seg_input, rest_input) = split_segment input;
              elem_end = first_slash elems; seg_elems = take elem_end elems; elems' = drop elem_end elems in
          if seg_elems = [] then matches elems' rest_input
          else if list_ex (\<lambda>i. matches seg_elems i) (char_suffixes seg_input) then matches elems' rest_input
          else False
      | AnyChar \<Rightarrow>
          if input = [] \<or> hd input = CHR ''/'' then False
          else matches elems (drop (case next_char input of Some c \<Rightarrow> len_utf8 c | None \<Rightarrow> 1) input)
      | Group gs \<Rightarrow> list_ex (\<lambda>m. matches (glob_elems m @ elems) input) gs
      | CharRange negate low high \<Rightarrow>
          if input = [] \<or> hd input = CHR ''/'' then False
          else
            (case next_char input of
               None \<Rightarrow> False
             | Some c \<Rightarrow> if c < low \<or> c > high then False else matches elems (drop (len_utf8 c) input)))"
  by pat_completeness auto

lemma element_weight_pos: "0 < element_weight e"
  by (cases e) auto

lemma glob_weight_elems: "glob_weight g = sum_list (map element_weight (glob_elems g))"
  by (cases g) simp

lemma weight_tl: "sum_list (map element_weight (tl es)) \<le> sum_list (map element_weight es)"
  by (cases es) auto

lemma weight_take: "sum_list (map element_weight (take n es)) \<le> sum_list (map element_weight es)"
  using append_take_drop_id [of n es] by (metis le_add1 map_append sum_list_append)

lemma weight_drop: "sum_list (map element_weight (drop n es)) \<le> sum_list (map element_weight es)"
  using append_take_drop_id [of n es] by (metis le_add2 map_append sum_list_append)

lemma weight_member: "g \<in> set gs \<Longrightarrow> sum_list (map element_weight (glob_elems g)) \<le> sum_list (map glob_weight gs)"
  unfolding glob_weight_elems [symmetric] by (rule member_le_sum_list) auto

termination matches
proof (relation "measure (\<lambda>(es, _). sum_list (map element_weight es))")
qed (use weight_tl weight_take weight_drop weight_member element_weight_pos in \<open>auto simp: less_Suc_eq_le\<close>)

declare matches.simps(2) [simp del]

definition match_input :: "glob \<Rightarrow> string \<Rightarrow> bool" where
  "match_input g input = matches (glob_elems g) input"

section \<open>What the matching ignores\<close>

lemma split_segment_rest: "snd (split_segment input) = [] \<or> hd (snd (split_segment input)) \<noteq> CHR ''/''"
  using hd_dropWhile [of "\<lambda>c. c = CHR ''/''"] by (auto simp: split_segment_def skip_slashes_def split: option.split)

lemma first_slash_append: "Slash \<notin> set mid \<Longrightarrow> first_slash (mid @ Slash # es) = length mid"
  by (induction mid) (auto simp: first_slash_def)



text \<open>The pattern with its negations dropped.\<close>

fun unnegated :: "element \<Rightarrow> element" and unnegated_glob :: "glob \<Rightarrow> glob" where
  "unnegated (CharRange negate low high) = CharRange False low high"
| "unnegated (Group gs) = Group (map unnegated_glob gs)"
| "unnegated e = e"
| "unnegated_glob (Glob elems) = Glob (map unnegated elems)"

lemma unnegated_text:
  "element_text (unnegated e) = element_text e" "glob_text (unnegated_glob g) = glob_text g"
proof (induction e and g)
  case (Group gs)
  then show ?case by (simp cong: map_cong)
next
  case (Glob elems)
  then show ?case by (simp cong: map_cong)
qed auto

lemma unnegated_slash [simp]: "unnegated e = Slash \<longleftrightarrow> e = Slash"
  by (cases e) auto

lemma unnegated_elems [simp]: "glob_elems (unnegated_glob g) = map unnegated (glob_elems g)"
  by (cases g) simp

lemma first_slash_unnegated [simp]: "first_slash (map unnegated es) = first_slash es"
  by (simp add: first_slash_def takeWhile_map o_def)

text \<open>The exclamation mark of a negated range \<open>[!a-z]\<close> is parsed but ignored: a pattern matches the same inputs, and
  is printed alike, with its negations dropped.\<close>

theorem negation_is_ignored:
  "matches (map unnegated elems) input = matches elems input
   \<and> glob_text (Glob (map unnegated elems)) = glob_text (Glob elems)
   \<and> parse ''[!a-c]'' = Some (Inl (Glob [CharRange True 97 99]))"
proof (intro conjI)
  show "matches (map unnegated elems) input = matches elems input"
  proof (induction elems input rule: matches.induct)
    case (2 e elems input)
    show ?case
    proof (cases e)
      case (Group gs)
      then have "list_ex (\<lambda>m. matches (map unnegated (glob_elems m) @ map unnegated elems) input) gs
          = list_ex (\<lambda>m. matches (glob_elems m @ elems) input) gs"
        using 2 by (intro list_ex_cong) auto
      then show ?thesis using Group by (simp add: matches.simps(2) list_ex_iff)
    next
      case StarStar
      show ?thesis
      proof (cases elems)
        case (Cons e1 es)
        then have "es \<noteq> [] \<Longrightarrow> x \<in> set (segment_suffixes input) \<Longrightarrow> matches (map unnegated es) x = matches es x" for x
          using 2 StarStar by simp
        then show ?thesis using StarStar Cons by (auto simp: matches.simps(2) cong: list_ex_cong)
      qed (simp add: StarStar matches.simps(2))
    next
      case Star
      obtain seg rest where sp: "split_segment input = (seg, rest)" by force
      show ?thesis using 2 Star sp
        by (simp add: matches.simps(2) Let_def take_map drop_map cong: list_ex_cong)
    qed (use 2 in \<open>auto simp: matches.simps(2) split: option.split\<close>)
  qed simp
  show "glob_text (Glob (map unnegated elems)) = glob_text (Glob elems)" by (simp add: unnegated_text o_def)
  show "parse ''[!a-c]'' = Some (Inl (Glob [CharRange True 97 99]))" by code_simp
qed

section \<open>The parser returns\<close>

lemma parse_literal_plain:
  assumes "c \<notin> set (special_chars nested)"
  shows "\<exists>l rest. parse_literal elems (c # pattern) nested = (elems @ [Literal l], rest) \<and> length rest \<le> length pattern"
  using assms by (auto simp: parse_literal_def Let_def split: option.split)

lemma read_range_rune_pos: "read_range_rune p = Some (r, n) \<Longrightarrow> 0 < n"
  by (auto simp: read_range_rune_def len_utf8_pos)

lemma parse_range_shorter: "parse_range pattern = Some (e, rest) \<Longrightarrow> length rest \<le> length pattern"
  by (auto simp: parse_range_def Let_def split: if_splits option.splits)

lemma parse_worker_returns:
  "(\<forall>elems pattern nested. 2 * length pattern < fuel \<longrightarrow>
     (\<exists>es rest err. parse_worker fuel elems pattern nested = Some (es, rest, err) \<and> length rest \<le> length pattern)) \<and>
   (\<forall>gs pattern. pattern \<noteq> [] \<longrightarrow> 2 * length pattern \<le> fuel \<longrightarrow>
     (\<exists>r. parse_group fuel gs pattern = Some r \<and> (\<forall>gs' rest. r = Inl (gs', rest) \<longrightarrow> length rest < length pattern)))"
proof (induction fuel)
  case (Suc fuel)
  note IH1 = conjunct1 [OF Suc, rule_format] and IH2 = conjunct2 [OF Suc, rule_format]
  show ?case
  proof (intro conjI allI impI)
    fix elems :: "element list" and pattern :: string and nested :: bool
    assume 1: "2 * length pattern < Suc fuel"
    show "\<exists>es rest err. parse_worker (Suc fuel) elems pattern nested = Some (es, rest, err) \<and> length rest \<le> length pattern"
    proof (cases pattern)
      case (Cons c p)
      have step: "\<exists>es rest err. parse_worker fuel elems' p' nested = Some (es, rest, err) \<and> length rest \<le> length pattern"
        if "length p' \<le> length p" for elems' p'
      proof -
        have "2 * length p' < fuel" using that 1 Cons by simp
        then obtain es rest err where "parse_worker fuel elems' p' nested = Some (es, rest, err)" "length rest \<le> length p'"
          using IH1 by blast
        then show ?thesis using that Cons by auto
      qed
      have group: "\<exists>r. parse_group fuel [] (c # p) = Some r \<and> (\<forall>gs' rest. r = Inl (gs', rest) \<longrightarrow> length rest \<le> length p)"
        using IH2 [of "c # p" "[]"] 1 Cons by (auto simp: less_Suc_eq_le)
      consider "c = CHR ''/''" | "c = CHR ''*''" | "c = CHR ''?''" | "c = CHR ''{''" | "c = CHR ''[''"
        | "(c = CHR ''}'' \<or> c = CHR '','') \<and> nested"
        | "c \<notin> set (special_chars nested)" "c \<noteq> CHR ''/''" "c \<noteq> CHR ''*''" "c \<noteq> CHR ''?''" "c \<noteq> CHR ''{''" "c \<noteq> CHR ''[''"
          "\<not> ((c = CHR ''}'' \<or> c = CHR '','') \<and> nested)"
        by (cases nested) (auto simp: special_chars_def)
      then show ?thesis
      proof cases
        case 1 then show ?thesis using step by (simp add: Cons)
      next
        case 2 then show ?thesis using step by (auto simp: Cons parse_error_def)
      next
        case 3 then show ?thesis using step by (simp add: Cons)
      next
        case 4
        obtain r where r: "parse_group fuel [] (c # p) = Some r" "\<And>gs' rest. r = Inl (gs', rest) \<Longrightarrow> length rest \<le> length p"
          using group by blast
        show ?thesis
        proof (cases r)
          case (Inl gr)
          then show ?thesis using r step 4 by (cases gr) (simp add: Cons)
        next
          case (Inr e)
          then show ?thesis using r 4 by (simp add: Cons parse_error_def)
        qed
      next
        case 5 then show ?thesis using step parse_range_shorter by (auto simp: Cons parse_error_def split: option.split)
      next
        case 6 then show ?thesis by (auto simp: Cons)
      next
        case 7
        obtain l rest where "parse_literal elems (c # p) nested = (elems @ [Literal l], rest)" "length rest \<le> length p"
          using parse_literal_plain [OF 7(1)] by blast
        then show ?thesis using step 7 by (simp add: Cons)
      qed
    qed simp
  next
    fix gs :: "glob list" and pattern :: string
    assume 2: "pattern \<noteq> []" "2 * length pattern \<le> Suc fuel"
    then obtain c p where p: "pattern = c # p" by (cases pattern) auto
    have "2 * length p < fuel" using 2(2) p by simp
    then obtain es rest err where w: "parse_worker fuel [] p True = Some (es, rest, err)" "length rest \<le> length p"
      using IH1 by blast
    show "\<exists>r. parse_group (Suc fuel) gs pattern = Some r \<and> (\<forall>gs' rest. r = Inl (gs', rest) \<longrightarrow> length rest < length pattern)"
    proof (cases "c = CHR ''}'' \<or> err \<noteq> None \<or> rest = []")
      case True
      then show ?thesis using w by (auto simp: p Let_def split: option.split)
    next
      case False
      then have "2 * length rest \<le> fuel" using w(2) 2(2) p by simp
      then obtain r where "parse_group fuel (gs @ [Glob es]) rest = Some r" "\<And>gs' rest'. r = Inl (gs', rest') \<Longrightarrow> length rest' < length rest"
        using IH2 [of rest "gs @ [Glob es]"] False by blast
      then show ?thesis using w False by (auto simp: p Let_def)
    qed
  qed
qed simp

text \<open>The glob parser returns on every pattern, with a pattern or an error: each turn of its two loops consumes the
  pattern, and its fuel covers the nesting.\<close>

theorem parse_returns: "\<exists>r. parse pattern = Some r"
  using conjunct1 [OF parse_worker_returns, rule_format, of pattern "2 * length pattern + 2" "[]" False] by (auto simp: parse_def)

section \<open>Printing and parsing\<close>

definition elems_text :: "element list \<Rightarrow> string" where
  "elems_text es = concat (map element_text es)"

lemma elems_text_simps [simp]:
  "elems_text [] = []" "elems_text (e # es) = element_text e @ elems_text es" "glob_text g = elems_text (glob_elems g)"
  by (simp_all add: elems_text_def) (cases g, simp add: elems_text_def)

text \<open>The patterns that the parser produces, apart from those with negated ranges: literals are not empty, hold no
  special characters and do not follow each other, and \<open>**\<close> stands alone between slashes.\<close>

fun arranged :: "bool \<Rightarrow> element option \<Rightarrow> element list \<Rightarrow> bool" where
  "arranged nested prev [] \<longleftrightarrow> True"
| "arranged nested prev (e # es) \<longleftrightarrow>
     (case e of
        Literal l \<Rightarrow> \<not> (\<exists>l'. prev = Some (Literal l'))
      | Star \<Rightarrow> es = [] \<or> hd es \<noteq> Star \<and> hd es \<noteq> StarStar
      | StarStar \<Rightarrow> (prev = None \<or> prev = Some Slash) \<and> (if es = [] then \<not> nested else hd es = Slash)
      | _ \<Rightarrow> True) \<and> arranged nested (Some e) es"

fun printable :: "bool \<Rightarrow> element \<Rightarrow> bool" and printable_glob :: "glob \<Rightarrow> bool" where
  "printable nested (Literal l) \<longleftrightarrow> l \<noteq> [] \<and> list_all (\<lambda>c. c \<notin> set (special_chars nested)) l"
| "printable nested (CharRange negate low high) \<longleftrightarrow> \<not> negate \<and> is_scalar low \<and> is_scalar high \<and> low \<noteq> 0x21"
| "printable nested (Group gs) \<longleftrightarrow> gs \<noteq> [] \<and> list_all printable_glob gs"
| "printable nested e \<longleftrightarrow> True"
| "printable_glob (Glob elems) \<longleftrightarrow> list_all (printable True) elems \<and> arranged True None elems"

definition prev_of :: "element list \<Rightarrow> element option" where
  "prev_of xs = (if xs = [] then None else Some (last xs))"

lemma prev_of_snoc [simp]: "prev_of (xs @ [e]) = Some e"
  by (simp add: prev_of_def)

definition tail_ok :: "bool \<Rightarrow> string \<Rightarrow> bool" where
  "tail_ok nested tail \<longleftrightarrow> (if nested then tail \<noteq> [] \<and> (hd tail = CHR ''}'' \<or> hd tail = CHR '','') else tail = [])"

lemma element_text_start:
  "printable nested e \<Longrightarrow> element_text e \<noteq> [] \<and>
     hd (element_text e) = (case e of Slash \<Rightarrow> CHR ''/'' | Literal l \<Rightarrow> hd l | Star \<Rightarrow> CHR ''*'' | AnyChar \<Rightarrow> CHR ''?''
       | StarStar \<Rightarrow> CHR ''*'' | Group gs \<Rightarrow> CHR ''{'' | CharRange n lo hi \<Rightarrow> CHR ''['')"
  by (cases e) auto

lemma after_literal:
  assumes "list_all (printable nested) es" "arranged nested (Some (Literal l)) es" "tail_ok nested tail"
  shows "elems_text es @ tail = [] \<or> hd (elems_text es @ tail) \<in> set (special_chars nested)"
proof (cases es)
  case Nil
  then show ?thesis using assms(3) by (auto simp: tail_ok_def special_chars_def split: if_splits)
next
  case (Cons e es')
  then show ?thesis using element_text_start [of nested e] assms(1,2)
    by (cases e) (auto simp: special_chars_def hd_append)
qed

lemma after_star:
  assumes "list_all (printable nested) es" "es = [] \<or> hd es \<noteq> Star \<and> hd es \<noteq> StarStar" "tail_ok nested tail"
  shows "\<not> (elems_text es @ tail \<noteq> [] \<and> hd (elems_text es @ tail) = CHR ''*'')"
proof (cases es)
  case Nil
  then show ?thesis using assms(3) by (auto simp: tail_ok_def split: if_splits)
next
  case (Cons e es')
  have "hd l \<noteq> CHR ''*''" if "e = Literal l" for l
    using that assms(1) Cons by (cases l; cases nested) (auto simp: special_chars_def)
  then show ?thesis using element_text_start [of nested e] assms(1,2) Cons by (cases e) (auto simp: hd_append)
qed

lemma parse_literal_text:
  assumes "list_all (\<lambda>c. c \<notin> set (special_chars nested)) l" "rest = [] \<or> hd rest \<in> set (special_chars nested)"
  shows "parse_literal elems (l @ rest) nested = (elems @ [Literal l], rest)"
proof -
  have "position (\<lambda>ch. ch \<in> set (special_chars nested)) (l @ rest) = (if rest = [] then None else Some (length l))"
    using assms by (induction l) (cases rest; auto)+
  then show ?thesis by (simp add: parse_literal_def Let_def)
qed

lemma parse_range_text:
  assumes "is_scalar low" "is_scalar high" "low \<noteq> 0x21"
  shows "parse_range (utf8_encode low @ CHR ''-'' # utf8_encode high @ CHR '']'' # rest) = Some (CharRange False low high, rest)"
proof -
  have "byte (hd (utf8_encode low)) \<noteq> 0x21" using first_byte(1,2) [OF assms(1)] assms(3) by (cases "low < 0x80") auto
  then have "hd (utf8_encode low) \<noteq> CHR ''!''" by (auto simp: byte_def)
  then show ?thesis using assms(1,2) len_utf8_pos [of low]
    by (auto simp: parse_range_def read_range_rune_def Let_def hd_append)
qed

lemma printable_glob_elems: "printable_glob g \<longleftrightarrow> list_all (printable True) (glob_elems g) \<and> arranged True None (glob_elems g)"
  by (cases g) simp

text \<open>What the parser reads from a printed pattern, where it has fuel enough to return.\<close>

definition worker_reads :: "nat \<Rightarrow> bool" where
  "worker_reads fuel \<longleftrightarrow> (\<forall>done es tail nested r. list_all (printable nested) es \<longrightarrow> arranged nested (prev_of done) es \<longrightarrow>
     tail_ok nested tail \<longrightarrow> parse_worker fuel done (elems_text es @ tail) nested = Some r \<longrightarrow> r = (done @ es, tail, None))"

definition group_reads :: "nat \<Rightarrow> bool" where
  "group_reads fuel \<longleftrightarrow> (\<forall>gs c gs' tail r. c = CHR ''{'' \<or> c = CHR '','' \<longrightarrow> gs' \<noteq> [] \<longrightarrow> list_all printable_glob gs' \<longrightarrow>
     parse_group fuel gs (c # join '','' (map glob_text gs') @ CHR ''}'' # tail) = Some r \<longrightarrow> r = Inl (gs @ gs', tail))"

lemma parse_group_text:
  assumes w: "worker_reads fuel" and g: "group_reads fuel"
  shows "group_reads (Suc fuel)"
  unfolding group_reads_def
proof (intro allI impI)
  fix gs c gs' tail r
  assume c: "c = CHR ''{'' \<or> c = CHR '',''" and ne: "gs' \<noteq> []" and pr: "list_all printable_glob gs'"
    and p: "parse_group (Suc fuel) gs (c # join '','' (map glob_text gs') @ CHR ''}'' # tail) = Some r"
  obtain g1 gs2 where gs': "gs' = g1 # gs2" using ne by (cases gs') auto
  have wf: "list_all (printable True) (glob_elems g1)" "arranged True (prev_of []) (glob_elems g1)"
    using pr gs' by (simp_all add: printable_glob_elems prev_of_def)
  define rest where "rest = (case gs2 of [] \<Rightarrow> CHR ''}'' # tail | _ \<Rightarrow> CHR '','' # join '','' (map glob_text gs2) @ CHR ''}'' # tail)"
  have tx: "join '','' (map glob_text gs') @ CHR ''}'' # tail = elems_text (glob_elems g1) @ rest"
    by (cases gs2) (simp_all add: gs' rest_def)
  have ok: "tail_ok True rest" "rest \<noteq> []" by (simp_all add: tail_ok_def rest_def split: list.split)
  have reads: "\<And>r. parse_worker fuel [] (elems_text (glob_elems g1) @ rest) True = Some r \<Longrightarrow> r = (glob_elems g1, rest, None)"
    using w wf ok(1) unfolding worker_reads_def by fastforce
  have next_group: "parse_group fuel (gs @ [g1]) rest = Some r"
  proof (cases "parse_worker fuel [] (elems_text (glob_elems g1) @ rest) True")
    case None
    then show ?thesis using p c unfolding tx by auto
  next
    case (Some r1)
    then show ?thesis using p c ok(2) reads [OF Some] unfolding tx by auto
  qed
  show "r = Inl (gs @ gs', tail)"
  proof (cases gs2)
    case Nil
    then show ?thesis using next_group by (cases fuel) (simp_all add: rest_def gs')
  next
    case (Cons g2 gs3)
    then have "parse_group fuel (gs @ [g1]) (CHR '','' # join '','' (map glob_text gs2) @ CHR ''}'' # tail) = Some r"
      using next_group by (simp add: rest_def)
    moreover have "gs2 \<noteq> []" "list_all printable_glob gs2" using Cons pr gs' by simp_all
    ultimately have "r = Inl ((gs @ [g1]) @ gs2, tail)" using g unfolding group_reads_def by blast
    then show ?thesis by (simp add: gs')
  qed
qed

lemma parse_worker_text:
  assumes w: "worker_reads fuel" and g: "group_reads fuel"
  shows "worker_reads (Suc fuel)"
  unfolding worker_reads_def
proof (intro allI impI)
  fix xs es tail nested r
  assume pr: "list_all (printable nested) es" and ar: "arranged nested (prev_of xs) es" and ok: "tail_ok nested tail"
    and p: "parse_worker (Suc fuel) xs (elems_text es @ tail) nested = Some r"
  show "r = (xs @ es, tail, None)"
  proof (cases es)
    case Nil
    then show ?thesis using p ok by (cases tail; cases nested) (auto simp: tail_ok_def)
  next
    case (Cons e es')
    define rest where "rest = elems_text es' @ tail"
    have pr': "printable nested e" "list_all (printable nested) es'" and ar': "arranged nested (Some e) es'" using pr ar Cons by simp_all
    have reads: "r = (xs @ es, tail, None)" if "parse_worker fuel (xs @ [e]) rest nested = Some r"
    proof -
      have "arranged nested (prev_of (xs @ [e])) es'" using ar' by simp
      then have "r = ((xs @ [e]) @ es', tail, None)" using w that pr'(2) ok unfolding worker_reads_def rest_def by blast
      then show ?thesis by (simp add: Cons)
    qed
    have p': "parse_worker (Suc fuel) xs (element_text e @ rest) nested = Some r" using p Cons by (simp add: rest_def)
    show ?thesis
    proof (cases e)
      case Slash
      then show ?thesis using p' reads by simp
    next
      case (Literal l)
      obtain c l' where l: "l = c # l'" using pr' Literal by (cases l) auto
      have sp: "list_all (\<lambda>c. c \<notin> set (special_chars nested)) l" using pr'(1) Literal by simp
      have "rest = [] \<or> hd rest \<in> set (special_chars nested)"
        using after_literal [OF pr'(2) _ ok] ar' Literal unfolding rest_def by blast
      then have "parse_literal xs (c # l' @ rest) nested = (xs @ [Literal l], rest)" using parse_literal_text [OF sp] l by simp
      moreover have "c \<notin> set (special_chars nested)" using sp l by simp
      ultimately show ?thesis using p' reads Literal l by (cases nested) (auto simp: special_chars_def)
    next
      case Star
      then have "\<not> (rest \<noteq> [] \<and> hd rest = CHR ''*'')" using after_star [OF pr'(2) _ ok] ar Cons unfolding rest_def by simp
      then show ?thesis using p' reads Star by (auto split: if_splits)
    next
      case AnyChar
      then show ?thesis using p' reads by simp
    next
      case StarStar
      have "\<not> (xs \<noteq> [] \<and> last xs \<noteq> Slash)" using ar Cons StarStar by (auto simp: prev_of_def split: if_splits)
      moreover have "\<not> (rest \<noteq> [] \<and> hd rest \<noteq> CHR ''/'')"
        using ar Cons StarStar ok by (cases es') (auto simp: rest_def tail_ok_def split: if_splits)
      ultimately show ?thesis using p' reads StarStar by (auto split: if_splits)
    next
      case (Group gs)
      have t: "element_text e @ rest = CHR ''{'' # join '','' (map glob_text gs) @ CHR ''}'' # rest" using Group by simp
      have gp: "gs \<noteq> []" "list_all printable_glob gs" using pr' Group by simp_all
      have gr: "\<And>r. parse_group fuel [] (CHR ''{'' # join '','' (map glob_text gs) @ CHR ''}'' # rest) = Some r \<Longrightarrow> r = Inl (gs, rest)"
        using g gp unfolding group_reads_def by fastforce
      show ?thesis
      proof (cases "parse_group fuel [] (CHR ''{'' # join '','' (map glob_text gs) @ CHR ''}'' # rest)")
        case None
        then show ?thesis using p' unfolding t by simp
      next
        case (Some r1)
        then show ?thesis using p' gr [OF Some] reads Group unfolding t by simp
      qed
    next
      case (CharRange negate low high)
      then have "parse_range (utf8_encode low @ CHR ''-'' # utf8_encode high @ CHR '']'' # rest) = Some (CharRange False low high, rest)"
        using pr'(1) parse_range_text by simp
      then show ?thesis using p' reads CharRange pr'(1) by simp
    qed
  qed
qed

lemma parser_reads: "worker_reads fuel \<and> group_reads fuel"
  by (induction fuel) (simp_all add: parse_worker_text parse_group_text worker_reads_def [of 0] group_reads_def [of 0])


definition sample_glob :: "element list" where
  "sample_glob = [StarStar, Slash, Star, Literal ''.'', Group [Glob [Literal ''ts'', AnyChar], Glob [Literal ''js'']], CharRange False 97 122]"


end
