(* ===== verification/PrinterUtilities.thy ===== *)
theory PrinterUtilities
  imports Scanner TsPath "HOL-Library.Signed_Division"
begin

text \<open>
  Helpers of the printer (\<open>crates/ts-printer/src/utilities.rs\<close>): the escaping of texts for string literals, the texts
  of literals, names made from other names, the recognition of special comments, indentation, and the cache of line
  and column lookups. A position is a \<open>nat\<close>; a slice that is not at a character boundary and a missing character are
  \<open>None\<close>.
\<close>

section \<open>Escaping\<close>

abbreviation NEVER_ASCII_ESCAPE :: int where "NEVER_ASCII_ESCAPE \<equiv> 1"
abbreviation JSX_ATTRIBUTE_ESCAPE :: int where "JSX_ATTRIBUTE_ESCAPE \<equiv> 2"
abbreviation TERMINATE_UNTERMINATED_LITERALS :: int where "TERMINATE_UNTERMINATED_LITERALS \<equiv> 4"

definition literal_flags_contain :: "int \<Rightarrow> int \<Rightarrow> bool" where
  "literal_flags_contain flags other \<longleftrightarrow> flags AND other \<noteq> 0"

datatype quote_char = SingleQuote | DoubleQuote | Backtick

definition quote_as_char :: "quote_char \<Rightarrow> char" where
  "quote_as_char q = (case q of SingleQuote \<Rightarrow> CHR 0x27 | DoubleQuote \<Rightarrow> CHR 0x22 | Backtick \<Rightarrow> CHR ''`'')"

definition jsx_escaped_char :: "rune \<Rightarrow> string option" where
  "jsx_escaped_char ch =
     (if ch = 0x22 then Some ''&quot;'' else if ch = 0x27 then Some ''&apos;'' else None)"

definition escaped_char :: "rune \<Rightarrow> string option" where
  "escaped_char ch =
     (if ch = 0x09 then Some [CHR 0x5C, CHR ''t'']
      else if ch = 0x0B then Some [CHR 0x5C, CHR ''v'']
      else if ch = 0x0C then Some [CHR 0x5C, CHR ''f'']
      else if ch = 0x08 then Some [CHR 0x5C, CHR ''b'']
      else if ch = 0x0D then Some [CHR 0x5C, CHR ''r'']
      else if ch = 0x0A then Some [CHR 0x5C, CHR ''n'']
      else if ch = 0x5C then Some [CHR 0x5C, CHR 0x5C]
      else if ch = 0x22 then Some [CHR 0x5C, CHR 0x22]
      else if ch = 0x27 then Some [CHR 0x5C, CHR 0x27]
      else if ch = 0x60 then Some [CHR 0x5C, CHR ''`'']
      else if ch = 0x24 then Some [CHR 0x5C, CHR ''$'']
      else if ch = 0x2028 then Some (CHR 0x5C # ''u2028'')
      else if ch = 0x2029 then Some (CHR 0x5C # ''u2029'')
      else if ch = 0x85 then Some (CHR 0x5C # ''u0085'')
      else None)"

text \<open>\<open>format!("{:X}")\<close>\<close>

definition upper_hex_digit :: "nat \<Rightarrow> char" where
  "upper_hex_digit d = char_of (if d < 10 then 48 + d else 55 + d)"

fun show_upper_hex :: "nat \<Rightarrow> string" where
  "show_upper_hex n = (if n < 16 then [upper_hex_digit n] else show_upper_hex (n div 16) @ [upper_hex_digit (n mod 16)])"

declare show_upper_hex.simps [simp del]

definition encode_jsx_character_entity :: "rune \<Rightarrow> string" where
  "encode_jsx_character_entity char_code = ''&#x'' @ show_upper_hex char_code @ '';''"

definition encode_utf16_escape_sequence :: "nat \<Rightarrow> string" where
  "encode_utf16_escape_sequence char_code =
     (let hex = show_upper_hex char_code in CHR 0x5C # CHR ''u'' # replicate (4 - length hex) (CHR ''0'') @ hex)"

definition byte_is :: "string \<Rightarrow> nat \<Rightarrow> char \<Rightarrow> bool" where
  "byte_is s i c \<longleftrightarrow> i < length s \<and> s ! i = c"

text \<open>Whether the loop escapes the character at \<open>i\<close>.\<close>

definition needs_escape :: "string \<Rightarrow> quote_char \<Rightarrow> int \<Rightarrow> nat \<Rightarrow> rune \<Rightarrow> bool" where
  "needs_escape s q flags i ch =
     (if ch = 0x5C then \<not> literal_flags_contain flags JSX_ATTRIBUTE_ESCAPE
      else if ch = 0x24 then q = Backtick \<and> byte_is s (i + 1) (CHR ''{'')
      else if ch = 0x2028 \<or> ch = 0x2029 \<or> ch = 0x85 \<or> ch = 13 then True
      else if ch = 10 then q \<noteq> Backtick
      else if ch = byte (quote_as_char q) then True
      else ch \<le> 0x1F \<or> \<not> literal_flags_contain flags NEVER_ASCII_ESCAPE \<and> ch > 0x7F)"

text \<open>What is written for an escaped character, and the bytes after it that are taken along.\<close>

definition escape_text :: "string \<Rightarrow> quote_char \<Rightarrow> int \<Rightarrow> nat \<Rightarrow> rune \<Rightarrow> (string \<times> nat) option" where
  "escape_text s q flags i ch =
     (let size = len_utf8 ch in
      if literal_flags_contain flags JSX_ATTRIBUTE_ESCAPE then
        Some (if ch = 0 then ''&#0;''
              else case jsx_escaped_char ch of Some matched \<Rightarrow> matched | None \<Rightarrow> encode_jsx_character_entity ch, 0)
      else if ch = 13 \<and> q = Backtick \<and> byte_is s (i + 1) (CHR 0x0A)
      then Some ([CHR 0x5C, CHR ''r'', CHR 0x5C, CHR ''n''], 1)
      else if ch > 0xFFFF then
        let codepoint = ch - 0x10000 in
        Some (encode_utf16_escape_sequence (codepoint div 2 ^ 10 mod 0x400 + 0xD800)
              @ encode_utf16_escape_sequence (codepoint mod 0x400 + 0xDC00), 0)
      else if ch = 0 then
        if i + size < length s then
          map_option (\<lambda>rest. case next_char rest of
              Some c \<Rightarrow> if 48 \<le> c \<and> c \<le> 57 then (CHR 0x5C # ''x00'', 0) else ([CHR 0x5C, CHR ''0''], 0)
            | None \<Rightarrow> ([CHR 0x5C, CHR ''0''], 0)) (str_slice s (i + size) (length s))
        else Some ([CHR 0x5C, CHR ''0''], 0)
      else
        Some (case escaped_char ch of Some matched \<Rightarrow> matched | None \<Rightarrow> encode_utf16_escape_sequence ch, 0))"

function escape_loop :: "string \<Rightarrow> quote_char \<Rightarrow> int \<Rightarrow> nat \<Rightarrow> nat \<Rightarrow> string \<Rightarrow> string option" where
  "escape_loop s q flags pos i b =
     (if i < length s then
        case Option.bind (str_slice s i (length s)) next_char of
          None \<Rightarrow> None
        | Some ch \<Rightarrow>
            let size = len_utf8 ch in
            if needs_escape s q flags i ch then
              case (if pos < i then str_slice s pos i else Some []) of
                None \<Rightarrow> None
              | Some run \<Rightarrow>
                  (case escape_text s q flags i ch of
                     None \<Rightarrow> None
                   | Some (t, extra) \<Rightarrow> escape_loop s q flags (i + size + extra) (i + size + extra) (b @ run @ t))
            else escape_loop s q flags pos (i + size) b
      else if pos < i then map_option (\<lambda>run. b @ run) (str_slice s pos (length s))
      else Some b)"
  by pat_completeness auto
termination
  by (relation "measure (\<lambda>(s, q, flags, pos, i, b). length s - i)") (simp_all add: len_utf8_pos diff_less_mono2 add.assoc trans_less_add1)

declare escape_loop.simps [simp del]

definition escape_string_worker :: "string \<Rightarrow> quote_char \<Rightarrow> int \<Rightarrow> string option" where
  "escape_string_worker s q flags = escape_loop s q flags 0 0 []"

definition escape_string :: "string \<Rightarrow> quote_char \<Rightarrow> string option" where
  "escape_string s q = escape_string_worker s q NEVER_ASCII_ESCAPE"

definition escape_non_ascii_string :: "string \<Rightarrow> quote_char \<Rightarrow> string option" where
  "escape_non_ascii_string s q = escape_string_worker s q 0"

definition escape_jsx_attribute_string :: "string \<Rightarrow> quote_char \<Rightarrow> string option" where
  "escape_jsx_attribute_string s q = escape_string_worker s q (JSX_ATTRIBUTE_ESCAPE OR NEVER_ASCII_ESCAPE)"

section \<open>The texts of literals\<close>

text \<open>What \<open>get_literal_text\<close> reads of the node of a literal, and what it writes when the original text cannot be used.\<close>

record literal_node =
  ln_kind :: kind
  ln_text :: string
  ln_raw_text :: string
  ln_token_flags :: int

definition is_unterminated_literal :: "literal_node \<Rightarrow> bool" where
  "is_unterminated_literal n \<longleftrightarrow> flags_contain (ln_token_flags n) UNTERMINATED"

definition get_literal_text :: "literal_node \<Rightarrow> int \<Rightarrow> string option" where
  "get_literal_text n flags =
     (if ln_kind n = StringLiteral then
        let q = (if flags_contain (ln_token_flags n) SINGLE_QUOTE then SingleQuote else DoubleQuote) in
        map_option (\<lambda>b. [quote_as_char q] @ b @ [quote_as_char q]) (escape_string_worker (ln_text n) q flags)
      else if ln_kind n \<in> {NoSubstitutionTemplateLiteral, TemplateHead, TemplateMiddle, TemplateTail} then
        let open_text = (if ln_kind n \<in> {NoSubstitutionTemplateLiteral, TemplateHead} then ''`'' else ''}'');
            close_text = (if ln_kind n \<in> {NoSubstitutionTemplateLiteral, TemplateTail} then ''`'' else ''${'') in
        if ln_raw_text n \<noteq> [] \<or> ln_text n = [] then Some (open_text @ ln_raw_text n @ close_text)
        else map_option (\<lambda>b. open_text @ b @ close_text) (escape_string_worker (ln_text n) Backtick flags)
      else if ln_kind n = NumericLiteral \<or> ln_kind n = BigIntLiteral then Some (ln_text n)
      else if ln_kind n = RegularExpressionLiteral then
        Some (if literal_flags_contain flags TERMINATE_UNTERMINATED_LITERALS \<and> is_unterminated_literal n
              then ln_text n @ (if suffix [CHR 0x5C] (ln_text n) then '' /'' else ''/'')
              else ln_text n)
      else None)"

section \<open>Generated names\<close>

definition has_leading_hash :: "string \<Rightarrow> bool" where
  "has_leading_hash t \<longleftrightarrow> t \<noteq> [] \<and> hd t = CHR ''#''"

definition remove_leading_hash :: "string \<Rightarrow> string" where
  "remove_leading_hash t = (if has_leading_hash t then tl t else t)"

definition ensure_leading_hash :: "string \<Rightarrow> string" where
  "ensure_leading_hash t = (if has_leading_hash t then t else CHR ''#'' # t)"

definition format_generated_name :: "bool \<Rightarrow> string \<Rightarrow> string \<Rightarrow> string \<Rightarrow> string" where
  "format_generated_name private_name pre base suf =
     (let name = remove_leading_hash pre @ remove_leading_hash base @ remove_leading_hash suf in
      if private_name then ensure_leading_hash name else name)"

definition is_ascii_word_character :: "char \<Rightarrow> bool" where
  "is_ascii_word_character ch \<longleftrightarrow> is_ascii_alphabetic ch \<or> is_ascii_digit ch \<or> ch = CHR ''_''"

text \<open>The loop over the bytes of the module name: \<open>start\<close> is where the run that is not yet written begins.\<close>

function module_name_loop :: "string \<Rightarrow> nat \<Rightarrow> nat \<Rightarrow> string \<Rightarrow> string option" where
  "module_name_loop name start pos b =
     (if pos < length name then
        let ch = name ! pos in
        if pos = 0 \<and> is_ascii_digit ch then module_name_loop name start (pos + 1) (b @ ''_'')
        else if \<not> is_ascii_word_character ch then
          (case (if start < pos then str_slice name start pos else Some []) of
             None \<Rightarrow> None
           | Some run \<Rightarrow> module_name_loop name (pos + 1) (pos + 1) (b @ run @ ''_''))
        else module_name_loop name start (pos + 1) b
      else if start < pos then map_option (\<lambda>run. b @ run) (str_slice name start pos)
      else Some b)"
  by pat_completeness auto
termination by (relation "measure (\<lambda>(name, start, pos, b). length name - pos)") auto

declare module_name_loop.simps [simp del]

definition make_identifier_from_module_name :: "string \<Rightarrow> string option" where
  "make_identifier_from_module_name module_name = module_name_loop (get_base_file_name module_name) 0 0 []"

section \<open>Special comments\<close>

text \<open>The matchers take and move a position; \<open>None\<close> is a panic.\<close>

definition char_from :: "string \<Rightarrow> nat \<Rightarrow> rune option option" where
  "char_from t pos = map_option next_char (str_slice t pos (length t))"

function skip_white_space_single_line :: "string \<Rightarrow> nat \<Rightarrow> nat option" where
  "skip_white_space_single_line t pos =
     (if pos < length t then
        case char_from t pos of
          Some (Some ch) \<Rightarrow>
            if is_white_space_single_line ch then skip_white_space_single_line t (pos + len_utf8 ch) else Some pos
        | _ \<Rightarrow> None
      else Some pos)"
  by pat_completeness auto
termination
  by (relation "measure (\<lambda>(t, pos). length t - pos)") (simp_all add: len_utf8_pos diff_less_mono2)

declare skip_white_space_single_line.simps [simp del]

definition match_white_space_single_line :: "string \<Rightarrow> nat \<Rightarrow> (bool \<times> nat) option" where
  "match_white_space_single_line t pos = map_option (\<lambda>p. (p \<noteq> pos, p)) (skip_white_space_single_line t pos)"

definition match_rune :: "string \<Rightarrow> nat \<Rightarrow> rune \<Rightarrow> (bool \<times> nat) option" where
  "match_rune t pos expected =
     map_option (\<lambda>c. case c of
         Some ch \<Rightarrow> if ch = expected then (True, pos + len_utf8 ch) else (False, pos)
       | None \<Rightarrow> (False, pos)) (char_from t pos)"

text \<open>The expected text as its characters.\<close>

fun match_string_loop :: "string \<Rightarrow> nat \<Rightarrow> rune list \<Rightarrow> nat option option" where
  "match_string_loop t text_pos [] = Some (Some text_pos)"
| "match_string_loop t text_pos (c # cs) =
     (if text_pos \<ge> length t then Some None
      else case match_rune t text_pos c of
          None \<Rightarrow> None
        | Some (False, _) \<Rightarrow> Some None
        | Some (True, p) \<Rightarrow> match_string_loop t p cs)"

definition match_string_at :: "string \<Rightarrow> nat \<Rightarrow> string \<Rightarrow> (bool \<times> nat) option" where
  "match_string_at t pos expected =
     map_option (\<lambda>r. case r of Some p \<Rightarrow> (True, p) | None \<Rightarrow> (False, pos)) (match_string_loop t pos (chars_of expected))"

function quoted_string_loop :: "string \<Rightarrow> nat \<Rightarrow> rune \<Rightarrow> nat option option" where
  "quoted_string_loop t text_pos quote =
     (if text_pos < length t then
        case char_from t text_pos of
          Some (Some ch) \<Rightarrow>
            if ch = quote then Some (Some (text_pos + len_utf8 ch)) else quoted_string_loop t (text_pos + len_utf8 ch) quote
        | _ \<Rightarrow> None
      else Some None)"
  by pat_completeness auto
termination
  by (relation "measure (\<lambda>(t, pos, q). length t - pos)") (simp_all add: len_utf8_pos diff_less_mono2)

declare quoted_string_loop.simps [simp del]

definition match_quoted_string :: "string \<Rightarrow> nat \<Rightarrow> (bool \<times> nat) option" where
  "match_quoted_string t pos = do {
     (single, p) \<leftarrow> match_rune t pos 0x27;
     (double, p) \<leftarrow> (if single then Some (False, p) else match_rune t pos 0x22);
     (if single \<or> double
      then map_option (\<lambda>r. case r of Some q \<Rightarrow> (True, q) | None \<Rightarrow> (False, pos))
             (quoted_string_loop t p (if single then 0x27 else 0x22))
      else Some (False, pos))
   }"

definition comment_pos :: "comment_range \<Rightarrow> int" where "comment_pos c = tr_pos (cr_text_range c)"
definition comment_end :: "comment_range \<Rightarrow> int" where "comment_end c = tr_end (cr_text_range c)"
definition comment_len :: "comment_range \<Rightarrow> int" where "comment_len c = range_len (cr_text_range c)"

text \<open>\<open>as_bytes()[i]\<close>, which panics out of range, also for a negative \<open>i32\<close>, which wraps to a large index.\<close>

definition byte_at :: "string \<Rightarrow> int \<Rightarrow> char option" where
  "byte_at t i = (if 0 \<le> i \<and> i < int (length t) then Some (t ! nat i) else None)"

text \<open>The attribute after a name: \<open>= "..."\<close> with white space around the sign.\<close>

definition match_value :: "string \<Rightarrow> nat \<Rightarrow> (bool \<times> nat) option" where
  "match_value t pos = do {
     pos \<leftarrow> skip_white_space_single_line t pos;
     (eq, pos) \<leftarrow> match_rune t pos 0x3D;
     (if \<not> eq then Some (False, pos)
      else do { pos \<leftarrow> skip_white_space_single_line t pos; match_quoted_string t pos })
   }"

fun match_any :: "string \<Rightarrow> nat \<Rightarrow> string list \<Rightarrow> (bool \<times> nat) option" where
  "match_any t pos [] = Some (False, pos)"
| "match_any t pos (w # ws) =
     (case match_string_at t pos w of None \<Rightarrow> None | Some (True, p) \<Rightarrow> Some (True, p) | Some (False, _) \<Rightarrow> match_any t pos ws)"

definition match_directive :: "string \<Rightarrow> string list \<Rightarrow> nat \<Rightarrow> (bool \<times> nat) option" where
  "match_directive t names pos = do {
     (white, pos) \<leftarrow> match_white_space_single_line t pos;
     (if \<not> white then Some (False, pos)
      else do {
        (named, pos) \<leftarrow> match_any t pos names;
        (if \<not> named then Some (False, pos) else match_value t pos)
      })
   }"

definition is_recognized_triple_slash_comment :: "string \<Rightarrow> comment_range \<Rightarrow> bool option" where
  "is_recognized_triple_slash_comment source comment =
     (if cr_kind comment = SingleLineCommentTrivia \<and> comment_len comment > 2 then do {
        b1 \<leftarrow> byte_at source (comment_pos comment + 1);
        (if b1 \<noteq> CHR ''/'' then Some False
         else do {
           b2 \<leftarrow> byte_at source (comment_pos comment + 2);
           (if b2 \<noteq> CHR ''/'' then Some False
            else do {
              t \<leftarrow> (if 0 \<le> comment_pos comment + 3 \<and> 0 \<le> comment_end comment
                   then str_slice source (nat (comment_pos comment + 3)) (nat (comment_end comment)) else None);
              pos \<leftarrow> skip_white_space_single_line t 0;
              (open_bracket, pos) \<leftarrow> match_rune t pos 0x3C;
              (if \<not> open_bracket then Some False
               else do {
                 (reference, p1) \<leftarrow> match_string_at t pos ''reference'';
                 (amd_dependency, p2) \<leftarrow> (if reference then Some (False, p1) else match_string_at t pos ''amd-dependency'');
                 (amd_module, p3) \<leftarrow> (if reference \<or> amd_dependency then Some (False, p2) else match_string_at t pos ''amd-module'');
                 (matched, pos) \<leftarrow>
                   (if reference then match_directive t [''path'', ''types'', ''lib'', ''no-default-lib''] p1
                    else if amd_dependency then match_directive t [''path''] p2
                    else if amd_module then map_option (Pair True) (skip_white_space_single_line t p3)
                    else Some (False, pos));
                 (if \<not> matched then Some False
                  else map_option (\<lambda>rest. str_find ''/>'' rest \<noteq> None) (str_slice t pos (length t)))
               })
            })
         })
      }
      else Some False)"

definition is_pinned_comment :: "string \<Rightarrow> comment_range \<Rightarrow> bool option" where
  "is_pinned_comment t comment =
     (if cr_kind comment = MultiLineCommentTrivia \<and> comment_len comment > 5
      then map_option (\<lambda>b. b = CHR ''!'') (byte_at t (comment_pos comment + 2))
      else Some False)"

definition is_jsdoc_like_text :: "string \<Rightarrow> comment_range \<Rightarrow> bool option" where
  "is_jsdoc_like_text t comment =
     (if cr_kind comment = MultiLineCommentTrivia \<and> comment_len comment > 5 then do {
        b2 \<leftarrow> byte_at t (comment_pos comment + 2);
        (if b2 \<noteq> CHR ''*'' then Some False else map_option (\<lambda>b3. b3 \<noteq> CHR ''/'') (byte_at t (comment_pos comment + 3)))
      }
      else Some False)"

definition DEFAULT_INDENT_SIZE :: int where
  "DEFAULT_INDENT_SIZE = 4"

function indent_loop :: "string \<Rightarrow> nat \<Rightarrow> nat \<Rightarrow> int \<Rightarrow> int option" where
  "indent_loop t pos end indent =
     (if pos < end then
        case char_from t pos of
          Some (Some ch) \<Rightarrow>
            if \<not> is_white_space_single_line ch then Some indent
            else indent_loop t (pos + len_utf8 ch) end
                   (if ch = 9 then wrap32 (indent + (DEFAULT_INDENT_SIZE - indent smod DEFAULT_INDENT_SIZE)) else wrap32 (indent + 1))
        | _ \<Rightarrow> None
      else Some indent)"
  by pat_completeness auto
termination
  by (relation "measure (\<lambda>(t, pos, end, indent). end - pos)") (simp_all add: len_utf8_pos diff_less_mono2)

declare indent_loop.simps [simp del]

definition calculate_indent :: "string \<Rightarrow> nat \<Rightarrow> nat \<Rightarrow> int option" where
  "calculate_indent t pos end = indent_loop t pos end 0"

section \<open>The cache of lines and columns\<close>

record line_character_cache =
  lc_line_map :: "int list"
  lc_text :: string
  lc_cached_line :: nat
  lc_cached_pos :: nat
  lc_cached_char :: int
  lc_has_cached :: bool

definition new_line_character_cache :: "int list \<Rightarrow> string \<Rightarrow> line_character_cache" where
  "new_line_character_cache line_map t =
     \<lparr>lc_line_map = line_map, lc_text = t, lc_cached_line = 0, lc_cached_pos = 0, lc_cached_char = 0, lc_has_cached = False\<rparr>"

definition utf16_between :: "string \<Rightarrow> nat \<Rightarrow> nat \<Rightarrow> int option" where
  "utf16_between t a b = Option.bind (str_slice t a b) utf16len"

definition cache_line_and_character :: "line_character_cache \<Rightarrow> nat \<Rightarrow> ((nat \<times> int) \<times> line_character_cache) option" where
  "cache_line_and_character c pos =
     (let line = compute_line_of_position (lc_line_map c) pos in
      map_option (\<lambda>character. ((line, character),
          c\<lparr>lc_cached_line := line, lc_cached_pos := pos, lc_cached_char := character, lc_has_cached := True\<rparr>))
        (if lc_has_cached c \<and> line = lc_cached_line c \<and> pos \<ge> lc_cached_pos c
         then map_option (\<lambda>n. wrap32 (lc_cached_char c + n)) (utf16_between (lc_text c) (lc_cached_pos c) pos)
         else if line < length (lc_line_map c) \<and> lc_line_map c ! line \<ge> 0
         then utf16_between (lc_text c) (nat (lc_line_map c ! line)) pos
         else None))"

end
