(* ===== verification/PrinterProofs.thy ===== *)
theory PrinterProofs
  imports PrinterUtilities
begin

text \<open>
  Properties of the helpers of the printer: the cached lookup of lines and columns agrees with the lookup of the
  scanner, and the names made from module names are identifiers.
\<close>

section \<open>The cache of lines and columns\<close>

lemma utf16_between_enc:
  assumes "short_text (ws @ xs @ vs)"
  shows "utf16_between (enc (ws @ xs @ vs)) (length (enc ws)) (length (enc (ws @ xs))) = Some (sum_utf16 xs)"
proof -
  have "runes (ws @ xs @ vs)" "short_text xs" using assms by (simp_all add: short_text_def)
  then show ?thesis using str_slice_enc [of ws xs vs] utf16len_enc [of xs] by (simp add: utf16_between_def)
qed

text \<open>What the cache remembers is the lookup of its last position.\<close>

definition cache_ok :: "rune list \<Rightarrow> int list \<Rightarrow> line_character_cache \<Rightarrow> bool" where
  "cache_ok cs ls c \<longleftrightarrow> lc_text c = enc cs \<and> lc_line_map c = ls \<and>
     (lc_has_cached c \<longrightarrow> is_char_boundary (enc cs) (lc_cached_pos c) \<and>
        get_ecma_line_and_utf16_character_of_position (enc cs) ls (lc_cached_pos c) = Some (lc_cached_line c, lc_cached_char c))"

lemma cache_lookup:
  assumes sh: "short_text cs" and ls: "compute_ecmaline_starts (enc cs) = Some ls"
    and c: "cache_ok cs ls c" and pos: "is_char_boundary (enc cs) pos"
  obtains r c' where "cache_line_and_character c pos = Some (r, c')" "cache_ok cs ls c'"
    "get_ecma_line_and_utf16_character_of_position (enc cs) ls pos = Some r"
proof -
  obtain k ws xs vs where d: "cs = ws @ xs @ vs" "pos = length (enc (ws @ xs))" "compute_line_of_position ls pos = k"
      "k < length ls" "ls ! k = int (length (enc ws))" "sum_utf16 xs < 2 ^ 31"
      "get_ecma_line_and_utf16_character_of_position (enc cs) ls pos = Some (k, sum_utf16 xs)"
    using line_and_utf16_at [OF sh pos ls] by metis
  have map: "lc_line_map c = ls" "lc_text c = enc cs" using c by (simp_all add: cache_ok_def)
  let ?hit = "lc_has_cached c \<and> k = lc_cached_line c \<and> pos \<ge> lc_cached_pos c"
  have "(if ?hit then map_option (\<lambda>n. wrap32 (lc_cached_char c + n)) (utf16_between (enc cs) (lc_cached_pos c) pos)
      else utf16_between (enc cs) (length (enc ws)) pos) = Some (sum_utf16 xs)"
  proof (cases ?hit)
    case True
    then have q: "is_char_boundary (enc cs) (lc_cached_pos c)"
        "get_ecma_line_and_utf16_character_of_position (enc cs) ls (lc_cached_pos c) = Some (k, lc_cached_char c)"
      using c by (simp_all add: cache_ok_def)
    obtain k' ws' xs' vs' where e: "cs = ws' @ xs' @ vs'" "lc_cached_pos c = length (enc (ws' @ xs'))"
        "ls ! k' = int (length (enc ws'))"
        "get_ecma_line_and_utf16_character_of_position (enc cs) ls (lc_cached_pos c) = Some (k', sum_utf16 xs')"
      using line_and_utf16_at [OF sh q(1) ls] by metis
    have k': "k' = k" "lc_cached_char c = sum_utf16 xs'" using e(4) q(2) by simp_all
    then have "length (enc ws') = length (enc ws)" using d(5) e(3) by simp
    then have "\<exists>zs. ws' = ws @ zs" "\<exists>zs. ws = ws' @ zs"
      using prefixes_by_length [of ws "xs @ vs" ws' "xs' @ vs'"] prefixes_by_length [of ws' "xs' @ vs'" ws "xs @ vs"] d(1) e(1) by simp_all
    then have ws': "ws' = ws" by auto
    have "length (enc (ws @ xs')) \<le> length (enc (ws @ xs))" using True d(2) e(2) ws' by simp
    then obtain zs where "ws @ xs = (ws @ xs') @ zs"
      using prefixes_by_length [of "ws @ xs'" vs' "ws @ xs" vs] d(1) e(1) ws' by auto
    then have xs: "xs = xs' @ zs" by simp
    have "utf16_between (enc cs) (lc_cached_pos c) pos = Some (sum_utf16 zs)"
      using utf16_between_enc [of "ws @ xs'" zs vs] sh d(1,2) e(2) xs ws' by simp
    moreover have "wrap32 (sum_utf16 xs' + sum_utf16 zs) = sum_utf16 xs"
      using d(6) sum_utf16_bounds(1) [of xs] by (subst wrap32_id) (simp_all add: xs sum_utf16_append is_i32_def)
    ultimately show ?thesis using True k' by simp
  next
    case False
    then show ?thesis using utf16_between_enc [of ws xs vs] sh d(1,2) by (simp only: if_False)
  qed
  then have "cache_line_and_character c pos = Some ((k, sum_utf16 xs),
      c\<lparr>lc_cached_line := k, lc_cached_pos := pos, lc_cached_char := sum_utf16 xs, lc_has_cached := True\<rparr>)"
    using d(3-5) map by (auto simp: cache_line_and_character_def Let_def split: if_splits)
  then show ?thesis using that d(7) pos map by (simp add: cache_ok_def)
qed

text \<open>A sequence of lookups, as the printer makes them while it writes a source map.\<close>

fun cached_lookups :: "line_character_cache \<Rightarrow> nat list \<Rightarrow> (nat \<times> int) list option" where
  "cached_lookups c [] = Some []"
| "cached_lookups c (pos # ps) =
     (case cache_line_and_character c pos of
        None \<Rightarrow> None
      | Some (r, c') \<Rightarrow> map_option (\<lambda>rs. r # rs) (cached_lookups c' ps))"

lemma cached_lookups_ok:
  assumes "short_text cs" "compute_ecmaline_starts (enc cs) = Some ls"
  shows "cache_ok cs ls c \<Longrightarrow> \<forall>pos\<in>set ps. is_char_boundary (enc cs) pos \<Longrightarrow>
    \<exists>rs. cached_lookups c ps = Some rs \<and> map Some rs = map (get_ecma_line_and_utf16_character_of_position (enc cs) ls) ps"
proof (induction ps arbitrary: c)
  case (Cons pos ps)
  obtain r c' where r: "cache_line_and_character c pos = Some (r, c')" "cache_ok cs ls c'"
      "get_ecma_line_and_utf16_character_of_position (enc cs) ls pos = Some r"
    using cache_lookup [OF assms Cons.prems(1), of pos] Cons.prems(2) by (metis list.set_intros(1))
  then show ?case using Cons.IH [OF r(2)] Cons.prems(2) by auto
qed simp

text \<open>C24: The cache is transparent: a sequence of lookups at character boundaries, in any order, gives the same lines and
  columns as the uncached lookup of the scanner, without a panic.\<close>

theorem line_cache_transparent:
  assumes "short_text cs" "compute_ecmaline_starts (enc cs) = Some ls" "\<forall>pos\<in>set ps. is_char_boundary (enc cs) pos"
  shows "\<exists>rs. cached_lookups (new_line_character_cache ls (enc cs)) ps = Some rs
    \<and> map Some rs = map (get_ecma_line_and_utf16_character_of_position (enc cs) ls) ps"
  using cached_lookups_ok [OF assms(1,2) _ assms(3)] by (simp add: cache_ok_def new_line_character_cache_def)

theorem line_cache_transparent_witness:
  "\<exists>rs. cached_lookups (new_line_character_cache [0, 2] (enc [97, 10, 0x1F600, 98])) [2, 6, 0] = Some rs
    \<and> map Some rs = map (get_ecma_line_and_utf16_character_of_position (enc [97, 10, 0x1F600, 98]) [0, 2]) [2, 6, 0]"
proof -
  let ?cs = "[97, 10, 0x1F600, 98] :: rune list"
  have short: "short_text ?cs" by (simp add: short_text_def is_scalar_def len_utf8_def)
  then have r: "runes ?cs" by (simp add: short_text_def)
  have "compute_ecmaline_starts (enc ?cs) = Some [0, 2]"
    unfolding compute_ecmaline_starts_enc [OF short] by (simp add: is_line_break_def len_utf8_def)
  moreover have "is_char_boundary (enc ?cs) 2" "is_char_boundary (enc ?cs) 6" "is_char_boundary (enc ?cs) 0"
    using enc_boundary [OF r, of "Suc (Suc 0)"] enc_boundary [OF r, of "Suc (Suc (Suc 0))"] enc_boundary [OF r, of 0]
    by (simp_all add: len_utf8_def numeral_2_eq_2)
  ultimately show ?thesis using line_cache_transparent [OF short, of "[0, 2]" "[2, 6, 0]"] by simp
qed

section \<open>Names made from module names\<close>

text \<open>What has been read up to \<open>pos\<close> and not yet written is a run of word characters from \<open>start\<close>.\<close>

lemma word_character_ascii: "is_ascii_word_character c \<Longrightarrow> byte c < 0x80"
  by (auto simp: is_ascii_word_character_def is_ascii_alphabetic_def is_ascii_uppercase_def is_ascii_lowercase_def
      is_ascii_digit_def byte_def)

definition run_of :: "string \<Rightarrow> nat \<Rightarrow> nat \<Rightarrow> string" where
  "run_of name start pos = take (pos - start) (drop start name)"

lemma run_of_snoc: "start \<le> pos \<Longrightarrow> pos < length name \<Longrightarrow> run_of name start (pos + 1) = run_of name start pos @ [name ! pos]"
  by (simp add: run_of_def Suc_diff_le take_Suc_conv_app_nth)

lemma run_of_empty [simp]: "run_of name pos pos = []"
  by (simp add: run_of_def)

lemma word_run_slice:
  assumes "valid_text name" "start < pos" "pos \<le> length name" "list_all is_ascii_word_character (run_of name start pos)"
  shows "str_slice name start pos = Some (run_of name start pos)"
proof -
  have w: "is_ascii_word_character (name ! i)" if "start \<le> i" "i < pos" for i
    using assms(3,4) that by (fastforce simp: run_of_def list_all_length dest: spec [of _ "i - start"])
  have "is_char_boundary name start" using w [of start] assms(2,3) word_character_ascii by (intro ascii_is_boundary) auto
  moreover have "is_char_boundary name pos"
    using ascii_step [OF assms(1), of "pos - 1"] w [of "pos - 1"] assms(2,3) word_character_ascii by auto
  ultimately show ?thesis using assms(2) by (simp add: str_slice_def run_of_def)
qed

lemma module_name_loop_ok:
  assumes "valid_text name"
  shows "start \<le> pos \<Longrightarrow> pos \<le> length name \<Longrightarrow> list_all is_ascii_word_character (b @ run_of name start pos) \<Longrightarrow>
    (if pos = 0 then b = [] else b @ run_of name start pos \<noteq> [] \<and> \<not> is_ascii_digit (hd (b @ run_of name start pos))) \<Longrightarrow>
    \<exists>r. module_name_loop name start pos b = Some r \<and> list_all is_ascii_word_character r
      \<and> (r = [] \<longleftrightarrow> name = []) \<and> (r \<noteq> [] \<longrightarrow> \<not> is_ascii_digit (hd r))"
proof (induction "length name - pos" arbitrary: start pos b rule: less_induct)
  case less
  have slice: "(if start < pos then str_slice name start pos else Some []) = Some (run_of name start pos)"
    using word_run_slice [OF assms, of start pos] less.prems(1-3) by auto
  have under: "is_ascii_word_character (CHR ''_'')" "\<not> is_ascii_digit (CHR ''_'')"
    by (simp_all add: is_ascii_word_character_def is_ascii_digit_def)
  show ?case
  proof (cases "pos < length name")
    case True
    let ?ch = "name ! pos"
    note snoc = run_of_snoc [OF less.prems(1) True] and unf = module_name_loop.simps [of name start pos b]
    have go: "length name - (pos + 1) < length name - pos" "pos + 1 \<le> length name" using True by simp_all
    consider (digit) "pos = 0" "is_ascii_digit ?ch" | (other) "\<not> (pos = 0 \<and> is_ascii_digit ?ch)" "\<not> is_ascii_word_character ?ch"
      | (word) "\<not> (pos = 0 \<and> is_ascii_digit ?ch)" "is_ascii_word_character ?ch" by blast
    then show ?thesis
    proof cases
      case digit
      then have "is_ascii_word_character ?ch" by (simp add: is_ascii_word_character_def)
      moreover have "b = []" "start = 0" using less.prems(1,4) digit by simp_all
      moreover have "module_name_loop name start pos b = module_name_loop name start (pos + 1) (b @ ''_'')"
        using True digit unf by simp
      ultimately show ?thesis using less.hyps [OF go(1) _ go(2), of start "b @ ''_''"] snoc under digit by simp
    next
      case other
      then have "module_name_loop name start pos b = module_name_loop name (pos + 1) (pos + 1) (b @ run_of name start pos @ ''_'')"
        unfolding unf Let_def slice using True by auto
      moreover have "\<not> is_ascii_digit (hd (b @ run_of name start pos @ ''_''))"
        using less.prems(1,4) under(2) by (cases "pos = 0"; cases "b = []"; cases "run_of name start pos = []") (auto simp: hd_append run_of_def)
      ultimately show ?thesis using less.hyps [OF go(1) _ go(2), of "pos + 1" "b @ run_of name start pos @ ''_''"] less.prems(3) under
        by simp
    next
      case word
      then have "module_name_loop name start pos b = module_name_loop name start (pos + 1) b" unfolding unf Let_def using True by auto
      moreover have "\<not> is_ascii_digit (hd (b @ run_of name start (pos + 1)))"
        using less.prems(1,4) snoc word by (cases "pos = 0"; cases "b = []"; cases "run_of name start pos = []") (auto simp: hd_append)
      ultimately show ?thesis using less.hyps [OF go(1) _ go(2), of start b] less.prems(1,3) snoc word by simp
    qed
  next
    case False
    then have "module_name_loop name start pos b = Some (b @ run_of name start pos)"
      using slice less.prems(1) by (simp add: module_name_loop.simps [of name start pos b] split: if_splits)
    then show ?thesis using less.prems(2-4) False by (auto simp: run_of_def split: if_splits)
  qed
qed

text \<open>\<open>make_identifier_from_module_name\<close> never panics, and what it returns is an identifier of ASCII letters, digits and
  underscores that does not start with a digit; it is empty only for an empty base name.\<close>

theorem module_name_is_identifier:
  assumes "valid_text (get_base_file_name module_name)"
  shows "\<exists>r. make_identifier_from_module_name module_name = Some r \<and> list_all is_ascii_word_character r
    \<and> (r = [] \<longleftrightarrow> get_base_file_name module_name = []) \<and> (r \<noteq> [] \<longrightarrow> \<not> is_ascii_digit (hd r))"
  using module_name_loop_ok [OF assms, of 0 0 "[]"] by (simp add: make_identifier_from_module_name_def)

theorem module_name_is_identifier_witness:
  "make_identifier_from_module_name ''./lib/3d-view.js'' = Some ''_3d_view_js''
   \<and> (\<exists>r. make_identifier_from_module_name ''./lib/3d-view.js'' = Some r \<and> list_all is_ascii_word_character r
        \<and> (r = [] \<longleftrightarrow> get_base_file_name ''./lib/3d-view.js'' = []) \<and> (r \<noteq> [] \<longrightarrow> \<not> is_ascii_digit (hd r)))"
proof
  show "make_identifier_from_module_name ''./lib/3d-view.js'' = Some ''_3d_view_js''" by code_simp
  have "get_base_file_name ''./lib/3d-view.js'' = ''3d-view.js''" by code_simp
  moreover have "enc [51, 100, 45, 118, 105, 101, 119, 46, 106, 115] = ''3d-view.js''" by code_simp
  ultimately have "valid_text (get_base_file_name ''./lib/3d-view.js'')"
    using valid_text_enc [of "[51, 100, 45, 118, 105, 101, 119, 46, 106, 115]"] by (simp add: is_scalar_def del: enc_simps)
  then show "\<exists>r. make_identifier_from_module_name ''./lib/3d-view.js'' = Some r \<and> list_all is_ascii_word_character r
        \<and> (r = [] \<longleftrightarrow> get_base_file_name ''./lib/3d-view.js'' = []) \<and> (r \<noteq> [] \<longrightarrow> \<not> is_ascii_digit (hd r))"
    by (rule module_name_is_identifier)
qed

end
