(* ===== verification/Escapes.thy ===== *)
theory Escapes
  imports PrinterUtilities ScannerTokens
begin

text \<open>
  The escaping of the printer and the scanner's reading of string literals are inverse: what \<open>escape_string_worker\<close>
  writes between quotes is scanned as one string literal whose value is the original text.
\<close>

section \<open>The escaped text, character by character\<close>

definition plain_quote :: "quote_char \<Rightarrow> bool" where
  "plain_quote q \<longleftrightarrow> q = SingleQuote \<or> q = DoubleQuote"

text \<open>The flags of \<open>escape_string\<close> and \<open>escape_non_ascii_string\<close>.\<close>

definition plain_flags :: "int \<Rightarrow> bool" where
  "plain_flags flags \<longleftrightarrow> flags = 0 \<or> flags = NEVER_ASCII_ESCAPE"

definition rune_escaped :: "quote_char \<Rightarrow> int \<Rightarrow> rune \<Rightarrow> bool" where
  "rune_escaped q flags c \<longleftrightarrow>
     c = 0x5C \<or> c = 0x2028 \<or> c = 0x2029 \<or> c = 0x85 \<or> c = byte (quote_as_char q) \<or> c \<le> 0x1F \<or> flags = 0 \<and> c > 0x7F"

definition rune_escape :: "rune \<Rightarrow> rune list \<Rightarrow> string" where
  "rune_escape c cs =
     (if c > 0xFFFF then
        encode_utf16_escape_sequence ((c - 0x10000) div 2 ^ 10 mod 0x400 + 0xD800)
        @ encode_utf16_escape_sequence ((c - 0x10000) mod 0x400 + 0xDC00)
      else if c = 0 then if cs \<noteq> [] \<and> 48 \<le> hd cs \<and> hd cs \<le> 57 then CHR 0x5C # ''x00'' else [CHR 0x5C, CHR ''0'']
      else case escaped_char c of Some e \<Rightarrow> e | None \<Rightarrow> encode_utf16_escape_sequence c)"

fun escaped :: "quote_char \<Rightarrow> int \<Rightarrow> rune list \<Rightarrow> string" where
  "escaped q flags [] = []"
| "escaped q flags (c # cs) = (if rune_escaped q flags c then rune_escape c cs else utf8_encode c) @ escaped q flags cs"

lemma needs_escape_plain:
  "plain_quote q \<Longrightarrow> plain_flags flags \<Longrightarrow> needs_escape s q flags i c \<longleftrightarrow> rune_escaped q flags c"
  by (auto simp: plain_quote_def plain_flags_def needs_escape_def rune_escaped_def literal_flags_contain_def quote_as_char_def byte_def)

lemma escape_text_plain:
  assumes "plain_quote q" "plain_flags flags" "runes (us @ c # cs)"
  shows "escape_text (enc (us @ c # cs)) q flags (length (enc us)) c = Some (rune_escape c cs, 0)"
proof -
  have nj: "\<not> literal_flags_contain flags JSX_ATTRIBUTE_ESCAPE" using assms(2) by (auto simp: plain_flags_def literal_flags_contain_def)
  have sl: "str_slice (enc (us @ c # cs)) (length (enc us) + len_utf8 c) (length (enc (us @ c # cs))) = Some (enc cs)"
    using str_slice_enc [of "us @ [c]" cs "[]"] assms(3) by simp
  have len: "length (enc us) + len_utf8 c < length (enc (us @ c # cs)) \<longleftrightarrow> cs \<noteq> []" by (cases cs) (simp_all add: len_utf8_pos)
  have nc: "next_char (enc cs) = (if cs = [] then None else Some (hd cs))" using assms(3) by (cases cs) auto
  have nb: "q \<noteq> Backtick" using assms(1) by (auto simp: plain_quote_def)
  show ?thesis
  proof (cases "c = 0")
    case True
    have "escape_text (enc (us @ c # cs)) q flags (length (enc us)) c =
        (if cs \<noteq> [] then map_option (\<lambda>rest. case next_char rest of
              Some c \<Rightarrow> if 48 \<le> c \<and> c \<le> 57 then (CHR 0x5C # ''x00'', 0) else ([CHR 0x5C, CHR ''0''], 0)
            | None \<Rightarrow> ([CHR 0x5C, CHR ''0''], 0)) (Some (enc cs))
         else Some ([CHR 0x5C, CHR ''0''], 0))"
      unfolding escape_text_def Let_def sl len using nj nb True by simp
    then show ?thesis using True nc by (simp add: rune_escape_def)
  next
    case False
    then show ?thesis using nj nb by (auto simp: escape_text_def rune_escape_def Let_def split: option.split)
  qed
qed

lemma escape_loop_plain:
  assumes "plain_quote q" "plain_flags flags"
  shows "runes (ps @ rs @ vs) \<Longrightarrow>
    escape_loop (enc (ps @ rs @ vs)) q flags (length (enc ps)) (length (enc (ps @ rs))) b = Some (b @ enc rs @ escaped q flags vs)"
proof (induction vs arbitrary: ps rs b)
  case Nil
  have "str_slice (enc (ps @ rs)) (length (enc ps)) (length (enc (ps @ rs))) = Some (enc rs)"
    using str_slice_enc [of ps rs "[]"] Nil by simp
  then show ?case by (subst escape_loop.simps) auto
next
  case (Cons c vs)
  let ?t = "enc (ps @ rs @ c # vs)" and ?i = "length (enc (ps @ rs))"
  have rest: "str_slice ?t ?i (length ?t) = Some (enc (c # vs))" using str_slice_enc [of "ps @ rs" "c # vs" "[]"] Cons.prems by simp
  have nc: "next_char (enc (c # vs)) = Some c" using Cons.prems by simp
  have run: "(if length (enc ps) < ?i then str_slice ?t (length (enc ps)) ?i else Some []) = Some (enc rs)"
    using str_slice_enc [of ps rs "c # vs"] Cons.prems by auto
  have lt: "?i < length ?t" by (simp add: len_utf8_pos)
  show ?case
  proof (cases "rune_escaped q flags c")
    case True
    have et: "escape_text ?t q flags ?i c = Some (rune_escape c vs, 0)"
      using escape_text_plain [OF assms, of "ps @ rs" c vs] Cons.prems by simp
    have "escape_loop ?t q flags (length (enc ps)) ?i b
        = escape_loop ?t q flags (?i + len_utf8 c) (?i + len_utf8 c) (b @ enc rs @ rune_escape c vs)"
      using lt rest nc True needs_escape_plain [OF assms] run et
      by (subst escape_loop.simps) (simp only: if_True option.case bind.bind_lunit Let_def prod.case add_0_right)
    then show ?thesis using Cons.IH [of "ps @ rs @ [c]" "[]" "b @ enc rs @ rune_escape c vs"] Cons.prems True by (simp add: add.assoc)
  next
    case False
    have "escape_loop ?t q flags (length (enc ps)) ?i b = escape_loop ?t q flags (length (enc ps)) (?i + len_utf8 c) b"
      using lt rest nc False needs_escape_plain [OF assms]
      by (subst escape_loop.simps) (simp only: if_True if_False option.case bind.bind_lunit Let_def)
    then show ?thesis using Cons.IH [of ps "rs @ [c]" b] Cons.prems False by (simp add: add.assoc)
  qed
qed

lemma escape_string_worker_plain:
  "plain_quote q \<Longrightarrow> plain_flags flags \<Longrightarrow> runes cs \<Longrightarrow> escape_string_worker (enc cs) q flags = Some (escaped q flags cs)"
  using escape_loop_plain [of q flags "[]" "[]" cs "[]"] by (simp add: escape_string_worker_def)

section \<open>Reading an escape\<close>

text \<open>The scanner at a place of its text, and after some bytes more, with no new diagnostics.\<close>

definition at :: "string \<Rightarrow> string \<Rightarrow> scanner \<Rightarrow> bool" where
  "at a z s \<longleftrightarrow> sc_text s = a @ z \<and> sc_pos s = length a \<and> sc_end s = length (a @ z) \<and> valid_text (a @ z)
     \<and> is_char_boundary (a @ z) (length a)"

definition moved :: "nat \<Rightarrow> scanner \<Rightarrow> scanner \<Rightarrow> bool" where
  "moved n s s' \<longleftrightarrow> sc_text s' = sc_text s \<and> sc_end s' = sc_end s \<and> sc_pos s' = sc_pos s + n
     \<and> sc_diagnostics s' = sc_diagnostics s"

lemma moved_updates [simp]:
  "moved n s (add_flags f s') \<longleftrightarrow> moved n s s'" "n \<le> m \<Longrightarrow> moved m s (advance n s') \<longleftrightarrow> moved (m - n) s s'"
  by (auto simp: moved_def add_flags_def advance_def)

lemma moved_0 [simp]: "moved 0 s s"
  by (simp add: moved_def)

lemma at_nth: "at a z s \<Longrightarrow> i < length z \<Longrightarrow> char_at s i = z ! i"
  by (simp add: at_def char_at_def nth_append)

lemma at_here: "at a (c # z) s \<Longrightarrow> char_here s = c"
  by (simp add: at_def char_here_def)

lemma at_moved: "at a (x @ z) s \<Longrightarrow> moved (length x) s s' \<Longrightarrow> is_char_boundary (a @ x @ z) (length a + length x) \<Longrightarrow> at (a @ x) z s'"
  by (simp add: at_def moved_def)

lemma ascii_boundary_after:
  "valid_text (a @ x @ z) \<Longrightarrow> is_char_boundary (a @ x @ z) (length a) \<Longrightarrow> list_all (\<lambda>c. byte c < 0x80) x \<Longrightarrow>
     is_char_boundary (a @ x @ z) (length a + length x)"
proof (induction x arbitrary: a)
  case (Cons c x)
  have "is_char_boundary (a @ (c # x) @ z) (length a + 1)" using ascii_step [OF Cons.prems(1), of "length a"] Cons.prems(3) by simp
  then show ?case using Cons.IH [of "a @ [c]"] Cons.prems by simp
qed simp

lemma at_ascii: "at a (x @ z) s \<Longrightarrow> moved (length x) s s' \<Longrightarrow> list_all (\<lambda>c. byte c < 0x80) x \<Longrightarrow> at (a @ x) z s'"
proof -
  assume a: "at a (x @ z) s" "moved (length x) s s'" "list_all (\<lambda>c. byte c < 0x80) x"
  have "valid_text (a @ x @ z)" "is_char_boundary (a @ x @ z) (length a)" using a(1) by (simp_all add: at_def)
  then show "at (a @ x) z s'" using a by (intro at_moved ascii_boundary_after)
qed

lemma at_advance: "at a (c # z) s \<Longrightarrow> byte c < 0x80 \<Longrightarrow> at (a @ [c]) z (advance 1 s)"
  using at_ascii [of a "[c]" z s "advance 1 s"] by simp

lemma at_flags [simp]: "at a z (add_flags f s) \<longleftrightarrow> at a z s"
  by (simp add: at_def add_flags_def)

lemma at_slice: "at (a @ x) z s \<Longrightarrow> is_char_boundary (a @ x @ z) (length a) \<Longrightarrow> str_slice (sc_text s) (length a) (sc_pos s) = Some x"
  unfolding at_def str_slice_def append_assoc by simp

definition reads_escape :: "string \<Rightarrow> rune \<Rightarrow> string \<Rightarrow> bool" where
  "reads_escape e c z \<longleftrightarrow> list_all (\<lambda>c. byte c < 0x80) e \<and> (\<forall>a s flags. at a (e @ z) s \<longrightarrow> flags = esc_String OR esc_ReportErrors \<longrightarrow>
     (\<exists>s'. scan_escape_sequence flags s = Some (utf8_encode c, s') \<and> moved (length e) s s'))"

text \<open>The escapes of a backslash and a character.\<close>

definition simple_escapes :: "(char \<times> rune) list" where
  "simple_escapes = [(CHR ''b'', 8), (CHR ''t'', 9), (CHR ''n'', 10), (CHR ''v'', 11), (CHR ''f'', 12), (CHR ''r'', 13),
     (CHR 0x27, 0x27), (CHR 0x22, 0x22), (CHR 0x5C, 0x5C)]"

lemma scan_simple_escape:
  assumes "(x, c) \<in> set simple_escapes" "char_here (advance 1 s) = x"
  shows "scan_escape_sequence 3 s = Some (utf8_encode c, advance 1 (advance 1 s))"
proof -
  have u: "utf8_encode 8 = [CHR 0x08]" "utf8_encode 9 = [CHR 0x09]" "utf8_encode 10 = [CHR 0x0A]" "utf8_encode 11 = [CHR 0x0B]"
    "utf8_encode 12 = [CHR 0x0C]" "utf8_encode 13 = [CHR 0x0D]" "utf8_encode 0x27 = [CHR 0x27]" "utf8_encode 0x22 = [CHR 0x22]"
    by code_simp+
  have b: "byte (CHR 0x5C) = 0x5C" by (simp add: byte_def)
  have "list_all (\<lambda>(x, c). \<forall>s. char_here (advance 1 s) = x \<longrightarrow>
      scan_escape_sequence 3 s = Some (utf8_encode c, advance 1 (advance 1 s))) simple_escapes"
    unfolding simple_escapes_def list.pred_inject prod.case
    by (intro conjI allI impI TrueI) (simp_all add: scan_escape_sequence_def Let_def u b)
  then show ?thesis using assms by (auto simp: list_all_iff)
qed

lemma scan_nul_escape:
  assumes "char_here (advance 1 s) = CHR ''0''" "\<not> is_ascii_digit (char_here (advance 1 (advance 1 s)))"
  shows "scan_escape_sequence flags s = Some (utf8_encode 0, advance 1 (advance 1 s))"
proof -
  have "utf8_encode 0 = [CHR 0x00]" by code_simp
  then show ?thesis using assms by (simp add: scan_escape_sequence_def Let_def)
qed

lemma reads_two:
  assumes "byte x < 0x80" and "\<And>a s. at (a @ [CHR 0x5C, x]) z (advance 1 (advance 1 s)) \<Longrightarrow> char_here (advance 1 s) = x \<Longrightarrow>
    scan_escape_sequence 3 s = Some (utf8_encode c, advance 1 (advance 1 s))"
  shows "reads_escape [CHR 0x5C, x] c z"
  unfolding reads_escape_def
proof (intro conjI allI impI)
  show "list_all (\<lambda>c. byte c < 0x80) [CHR 0x5C, x]" using assms(1) by (simp add: byte_def)
next
  fix a s and flags :: int
  assume at: "at a ([CHR 0x5C, x] @ z) s" and fl: "flags = esc_String OR esc_ReportErrors"
  have at1: "at (a @ [CHR 0x5C]) (x # z) (advance 1 s)" using at_advance [of a "CHR 0x5C" "x # z" s] at by (simp add: byte_def)
  then have "at (a @ [CHR 0x5C, x]) z (advance 1 (advance 1 s))" using at_advance [OF at1 assms(1)] by simp
  then show "\<exists>s'. scan_escape_sequence flags s = Some (utf8_encode c, s') \<and> moved (length [CHR 0x5C, x]) s s'"
    using assms(2) at_here [OF at1] by (auto simp: fl)
qed

lemma reads_simple: "(x, c) \<in> set simple_escapes \<Longrightarrow> reads_escape [CHR 0x5C, x] c z"
proof (rule reads_two)
  assume m: "(x, c) \<in> set simple_escapes"
  have "list_all (\<lambda>(x, c). byte x < 0x80) simple_escapes" by (simp add: simple_escapes_def byte_def)
  then show "byte x < 0x80" using m by (auto simp: list_all_iff)
  show "\<And>s. char_here (advance 1 s) = x \<Longrightarrow> scan_escape_sequence 3 s = Some (utf8_encode c, advance 1 (advance 1 s))"
    using scan_simple_escape [OF m] by blast
qed

lemma reads_nul: "z = [] \<or> \<not> is_ascii_digit (hd z) \<Longrightarrow> reads_escape [CHR 0x5C, CHR ''0''] 0 z"
proof (rule reads_two)
  fix a s
  assume z: "z = [] \<or> \<not> is_ascii_digit (hd z)" and at: "at (a @ [CHR 0x5C, CHR ''0'']) z (advance 1 (advance 1 s))"
    and here: "char_here (advance 1 s) = CHR ''0''"
  have "\<not> is_ascii_digit (char_here (advance 1 (advance 1 s)))"
  proof (cases z)
    case Nil
    then have "char_here (advance 1 (advance 1 s)) = CHR 0x00" using at by (simp add: at_def char_here_def)
    then show ?thesis by (simp add: is_ascii_digit_def)
  next
    case (Cons d z')
    then show ?thesis using z at_here [OF at [unfolded Cons]] by simp
  qed
  then show "scan_escape_sequence 3 s = Some (utf8_encode 0, advance 1 (advance 1 s))" using scan_nul_escape here by blast
qed (simp add: byte_def)

text \<open>The digits of \<open>format!("{:X}")\<close> padded to four, and their reading.\<close>

definition hex4 :: "nat \<Rightarrow> string" where
  "hex4 c = map upper_hex_digit [c div 4096, c div 256 mod 16, c div 16 mod 16, c mod 16]"

lemma show_upper_hex_digits:
  "c < 16 \<Longrightarrow> show_upper_hex c = [upper_hex_digit c]"
  "16 \<le> c \<Longrightarrow> show_upper_hex c = show_upper_hex (c div 16) @ [upper_hex_digit (c mod 16)]"
  by (subst show_upper_hex.simps, simp)+

lemma encode_utf16_hex4: "c < 0x10000 \<Longrightarrow> encode_utf16_escape_sequence c = CHR 0x5C # CHR ''u'' # hex4 c"
proof -
  assume c: "c < 0x10000"
  have z: "CHR ''0'' = upper_hex_digit 0" by code_simp
  have r: "replicate (4 - 1) x = [x, x, x]" "replicate (4 - 2) x = [x, x]" "replicate (4 - 3) x = [x]" for x :: char
    by (simp_all add: eval_nat_numeral)
  have len: "length [a] = 1" "length [a, b] = 2" "length [a, b, d] = 3" "length [a, b, d, e] = 4" for a b d e :: char by simp_all
  consider "c < 16" | "16 \<le> c" "c < 256" | "256 \<le> c" "c < 4096" | "4096 \<le> c" by linarith
  then show ?thesis
  proof cases
    case 1
    then have "show_upper_hex c = [upper_hex_digit c]" by (rule show_upper_hex_digits)
    then show ?thesis using 1 unfolding encode_utf16_escape_sequence_def hex4_def Let_def by (simp only: len r z) simp
  next
    case 2
    then have "c div 16 < 16" by simp
    then have "show_upper_hex c = [upper_hex_digit (c div 16), upper_hex_digit (c mod 16)]"
      using show_upper_hex_digits(2) [OF 2(1)] show_upper_hex_digits(1) by simp
    then show ?thesis using 2 unfolding encode_utf16_escape_sequence_def hex4_def Let_def by (simp only: len r z) simp
  next
    case 3
    then have "c div 16 div 16 < 16" "16 \<le> c div 16" "16 \<le> c" by simp_all
    then have "show_upper_hex c = [upper_hex_digit (c div 256), upper_hex_digit (c div 16 mod 16), upper_hex_digit (c mod 16)]"
      using show_upper_hex_digits(2) [of c] show_upper_hex_digits(2) [of "c div 16"] show_upper_hex_digits(1) [of "c div 16 div 16"]
      by (simp add: div_mult2_eq [symmetric])
    then show ?thesis using 3 unfolding encode_utf16_escape_sequence_def hex4_def Let_def by (simp only: len r z) simp
  next
    case 4
    then have "c div 16 div 16 div 16 < 16" "16 \<le> c div 16 div 16" "16 \<le> c div 16" "16 \<le> c" using c by simp_all
    then have "show_upper_hex c = [upper_hex_digit (c div 4096), upper_hex_digit (c div 256 mod 16), upper_hex_digit (c div 16 mod 16), upper_hex_digit (c mod 16)]"
      using show_upper_hex_digits(2) [of c] show_upper_hex_digits(2) [of "c div 16"] show_upper_hex_digits(2) [of "c div 16 div 16"]
        show_upper_hex_digits(1) [of "c div 16 div 16 div 16"]
      by (simp add: div_mult2_eq [symmetric])
    then show ?thesis unfolding encode_utf16_escape_sequence_def hex4_def Let_def by (simp only: len) simp
  qed
qed

lemma hex_digit_facts:
  assumes "d < 16"
  shows "is_ascii_hexdigit (upper_hex_digit d)" "byte (upper_hex_digit d) < 0x80"
    "to_digit 16 (byte (hd (to_ascii_lowercase [upper_hex_digit d]))) = Some d" "upper_hex_digit d \<noteq> CHR ''_''"
    "to_ascii_lowercase [upper_hex_digit d] \<noteq> [CHR ''+'']" "to_ascii_lowercase [upper_hex_digit d] \<noteq> [CHR ''_'']"
proof -
  have "list_all (\<lambda>d. is_ascii_hexdigit (upper_hex_digit d) \<and> byte (upper_hex_digit d) < 0x80
      \<and> to_digit 16 (byte (hd (to_ascii_lowercase [upper_hex_digit d]))) = Some d \<and> upper_hex_digit d \<noteq> CHR ''_''
      \<and> to_ascii_lowercase [upper_hex_digit d] \<noteq> [CHR ''+''] \<and> to_ascii_lowercase [upper_hex_digit d] \<noteq> [CHR ''_'']) [0..<16]"
    by code_simp
  then show "is_ascii_hexdigit (upper_hex_digit d)" "byte (upper_hex_digit d) < 0x80"
    "to_digit 16 (byte (hd (to_ascii_lowercase [upper_hex_digit d]))) = Some d" "upper_hex_digit d \<noteq> CHR ''_''"
    "to_ascii_lowercase [upper_hex_digit d] \<noteq> [CHR ''+'']" "to_ascii_lowercase [upper_hex_digit d] \<noteq> [CHR ''_'']"
    using assms by (simp_all add: list_all_iff)
qed

lemma advance_0 [simp]: "advance 0 s = s" and advance_advance [simp]: "advance m (advance n s) = advance (n + m) s"
  by (simp_all add: advance_def add.assoc)

lemma hex_digits_loop_digits:
  "at a (ds @ z) s \<Longrightarrow> list_all (\<lambda>d. is_ascii_hexdigit d \<and> byte d < 0x80) ds \<Longrightarrow> n + length ds = m \<Longrightarrow>
     hex_digits_loop m False False n False False s = (m, False, advance (length ds) s)"
proof (induction ds arbitrary: a s n)
  case Nil
  then show ?case by (simp add: hex_digits_loop.simps [of m])
next
  case (Cons d ds)
  have here: "char_here s = d" using at_here Cons.prems(1) by simp
  have "at (a @ [d]) (ds @ z) (advance 1 s)" using at_advance [of a d "ds @ z" s] Cons.prems(1,2) by simp
  then have "hex_digits_loop m False False (n + 1) False False (advance 1 s) = (m, False, advance (length ds) (advance 1 s))"
    using Cons.IH [of "a @ [d]" "advance 1 s" "n + 1"] Cons.prems(2,3) by simp
  then show ?case using here Cons.prems(2,3) by (subst hex_digits_loop.simps) (simp add: Let_def)
qed

lemma lower_map: "to_ascii_lowercase s = map (\<lambda>c. hd (to_ascii_lowercase [c])) s"
  by (simp add: to_ascii_lowercase_def)

lemma hex4_digits: "c < 0x10000 \<Longrightarrow> \<exists>ns. hex4 c = map upper_hex_digit ns \<and> (\<forall>n\<in>set ns. n < 16) \<and> length ns = 4
    \<and> foldl (\<lambda>v n. v * 16 + n) 0 ns = c"
proof (intro exI conjI)
  assume c: "c < 0x10000"
  show "hex4 c = map upper_hex_digit [c div 4096, c div 256 mod 16, c div 16 mod 16, c mod 16]" by (simp add: hex4_def)
  show "\<forall>n\<in>set [c div 4096, c div 256 mod 16, c div 16 mod 16, c mod 16]. n < 16" using c by auto
  have "c div 16 = c div 256 * 16 + c div 16 mod 16" "c div 256 = c div 4096 * 16 + c div 256 mod 16" "c = c div 16 * 16 + c mod 16"
    using div_mult_mod_eq [of "c div 16" 16] div_mult_mod_eq [of "c div 256" 16] div_mult_mod_eq [of c 16]
    by (simp_all add: div_mult2_eq [symmetric])
  then show "foldl (\<lambda>v n. v * 16 + n) 0 [c div 4096, c div 256 mod 16, c div 16 mod 16, c mod 16] = c" by simp
qed simp

lemma from_str_radix_hex:
  assumes "\<forall>n\<in>set ns. n < 16" "ns \<noteq> []" "foldl (\<lambda>v n. v * 16 + n) 0 ns \<le> maximum"
  shows "from_str_radix maximum 16 (to_ascii_lowercase (map upper_hex_digit ns)) = Some (foldl (\<lambda>v n. v * 16 + n) 0 ns)"
proof -
  let ?low = "\<lambda>n. hd (to_ascii_lowercase [upper_hex_digit n])"
  have one: "to_ascii_lowercase [x] = [hd (to_ascii_lowercase [x])]" for x by (simp add: to_ascii_lowercase_def)
  have t: "to_ascii_lowercase (map upper_hex_digit ns) = map ?low ns" by (subst lower_map) simp
  have f: "to_digit 16 (byte (?low n)) = Some n" "?low n \<noteq> CHR ''+''" "?low n \<noteq> CHR ''_''" if "n \<in> set ns" for n
    using hex_digit_facts(3,5,6) [of n] assms(1) that one [of "upper_hex_digit n"] by auto
  have "foldl (\<lambda>v c. if c = CHR ''_'' then v else v * 16 + the (to_digit 16 (byte c))) x (map ?low ns) = foldl (\<lambda>v n. v * 16 + n) x ns" for x
    using f by (induction ns arbitrary: x) simp_all
  then have v: "radix_value 16 (map ?low ns) = foldl (\<lambda>v n. v * 16 + n) 0 ns" by (simp add: radix_value_def)
  have np: "hd (map ?low ns) \<noteq> CHR ''+''" using f(2) assms(2) by (cases ns) auto
  have "list_all (\<lambda>c. to_digit 16 (byte c) \<noteq> None) (map ?low ns)" using f(1) by (simp add: list_all_iff)
  then show ?thesis unfolding t from_str_radix_def Let_def using np v assms(2,3) by simp
qed

lemma scan_hex4:
  assumes "at a (hex4 c @ z) s" "c < 0x10000"
  shows "scan_hex_digits 4 False False s = Some (to_ascii_lowercase (hex4 c), advance 4 s)"
    "from_str_radix (2 ^ 32 - 1) 16 (to_ascii_lowercase (hex4 c)) = Some c" "at (a @ hex4 c) z (advance 4 s)"
    "to_ascii_lowercase (hex4 c) \<noteq> []" "char_here s \<noteq> CHR ''{''"
proof -
  obtain ns where ns: "hex4 c = map upper_hex_digit ns" "\<forall>n\<in>set ns. n < 16" "length ns = 4" "foldl (\<lambda>v n. v * 16 + n) 0 ns = c"
    using hex4_digits [OF assms(2)] by blast
  have len: "length (hex4 c) = 4" using ns(1,3) by simp
  have dig: "list_all (\<lambda>d. is_ascii_hexdigit d \<and> byte d < 0x80) (hex4 c)" using ns(1,2) hex_digit_facts(1,2) by (simp add: list_all_iff)
  have loop: "hex_digits_loop 4 False False 0 False False s = (4, False, advance 4 s)"
    using hex_digits_loop_digits [OF assms(1) dig, of 0 4] len by simp
  show at2: "at (a @ hex4 c) z (advance 4 s)" using at_ascii [OF assms(1), of "advance 4 s"] len dig by (simp add: list_all_iff)
  have sl: "str_slice (sc_text (advance 4 s)) (sc_pos s) (sc_pos (advance 4 s)) = Some (hex4 c)"
    using at_slice [OF at2] assms(1) by (simp add: at_def)
  have fl: "filter (\<lambda>ch. ch \<noteq> CHR ''_'') (to_ascii_lowercase (hex4 c)) = to_ascii_lowercase (hex4 c)"
  proof -
    have "hd (to_ascii_lowercase [x]) \<noteq> CHR ''_''" if mem: "x \<in> set (hex4 c)" for x
    proof -
      obtain n where "x = upper_hex_digit n" "n < 16" using mem [unfolded ns(1)] ns(2) by auto
      then show ?thesis using hex_digit_facts(6) [of n] by (simp add: to_ascii_lowercase_def)
    qed
    then show ?thesis by (subst (1 2) lower_map) (simp add: filter_id_conv)
  qed
  show "scan_hex_digits 4 False False s = Some (to_ascii_lowercase (hex4 c), advance 4 s)"
    unfolding scan_hex_digits_def Let_def loop prod.case using sl fl by simp
  show "from_str_radix (2 ^ 32 - 1) 16 (to_ascii_lowercase (hex4 c)) = Some c"
    using from_str_radix_hex [of ns "2 ^ 32 - 1"] ns assms(2) by (cases ns) auto
  show "to_ascii_lowercase (hex4 c) \<noteq> []" using len by (auto simp: to_ascii_lowercase_def)
  obtain n ns' where "ns = n # ns'" using ns(3) by (cases ns) auto
  then have "char_here s = upper_hex_digit n" "n < 16" using at_here assms(1) ns(1,2) by auto
  then show "char_here s \<noteq> CHR ''{''" using hex_digit_facts(1) [of n] by (auto simp: is_ascii_hexdigit_def to_digit_def byte_def)
qed

lemma advance_twice: "advance 1 (advance 1 s) = advance 2 s"
  by (simp only: advance_advance one_add_one)

lemma at_two: "at a (CHR 0x5C # x # z) s \<Longrightarrow> byte x < 0x80 \<Longrightarrow> at (a @ [CHR 0x5C, x]) z (advance 2 s)"
  using at_ascii [of a "[CHR 0x5C, x]" z s "advance 2 s"] by (simp add: byte_def)

lemma scan_escape_letter:
  assumes "at a (CHR 0x5C # x # z) s"
  shows "char_here (advance 1 s) = x"
  using at_here [OF at_advance [OF assms]] by (simp add: byte_def)

lemma scan_four_digits:
  assumes "at a (CHR 0x5C # CHR ''u'' # hex4 c @ z) s" "c < 0x10000"
  shows "scan_unicode_escape report s = Some (Some c, advance 4 (add_flags UNICODE_ESCAPE (advance 2 s)))"
    "char_here (advance 2 s) \<noteq> CHR ''{''"
proof -
  have at: "at (a @ [CHR 0x5C, CHR ''u'']) (hex4 c @ z) (advance 2 s)" using at_two [OF assms(1)] by (simp add: byte_def)
  then have at': "at (a @ [CHR 0x5C, CHR ''u'']) (hex4 c @ z) (add_flags UNICODE_ESCAPE (advance 2 s))" by simp
  note hex = scan_hex4 [OF at' assms(2)]
  show brace: "char_here (advance 2 s) \<noteq> CHR ''{''" using scan_hex4(5) [OF at assms(2)] .
  show "scan_unicode_escape report s = Some (Some c, advance 4 (add_flags UNICODE_ESCAPE (advance 2 s)))"
    unfolding scan_unicode_escape_def Let_def
    using brace hex(1,2,4) by (simp del: power_numeral One_nat_def)
qed

lemma scan_u_escape_scalar:
  assumes "at a (CHR 0x5C # CHR ''u'' # hex4 c @ z) s" "c < 0x10000" "is_scalar c"
  shows "scan_u_escape start flags (advance 1 (advance 1 s)) = Some (utf8_encode c, advance 4 (add_flags UNICODE_ESCAPE (advance 2 s)))"
proof -
  have rewound: "(advance 1 (advance 1 s))\<lparr>sc_pos := sc_pos (advance 1 (advance 1 s)) - 2\<rparr> = s" by (simp add: advance_def)
  note two = advance_twice [of s]
  have nsur: "\<not> code_point_is_high_surrogate c" "\<not> code_point_is_low_surrogate c"
    using assms(3) by (auto simp: is_scalar_def code_point_is_high_surrogate_def code_point_is_low_surrogate_def)
  have val: "rune_or_replacement c = utf8_encode c" using assms(3) by (simp add: rune_or_replacement_def char_from_u32_def)
  show ?thesis
    unfolding scan_u_escape_def Let_def rewound scan_four_digits(1) [OF assms(1,2)]
    unfolding two using scan_four_digits(2) [OF assms(1,2)] nsur val by (simp add: two del: One_nat_def advance_advance)
qed

lemma reads_unicode:
  assumes "c < 0x10000" "is_scalar c"
  shows "reads_escape (CHR 0x5C # CHR ''u'' # hex4 c) c z"
  unfolding reads_escape_def
proof (intro conjI allI impI)
  show "list_all (\<lambda>c. byte c < 0x80) (CHR 0x5C # CHR ''u'' # hex4 c)" 
    using hex_digit_facts(2) assms(1) by (simp add: hex4_def byte_def)
next
  fix a s and flags :: int
  assume "at a ((CHR 0x5C # CHR ''u'' # hex4 c) @ z) s" and fl: "flags = esc_String OR esc_ReportErrors"
  then have at: "at a (CHR 0x5C # CHR ''u'' # hex4 c @ z) s" by simp
  have "scan_escape_sequence flags s = scan_u_escape (sc_pos s) flags (advance 1 (advance 1 s))"
    using scan_escape_letter [OF at] by (simp add: scan_escape_sequence_def Let_def del: advance_advance)
  then show "\<exists>s'. scan_escape_sequence flags s = Some (utf8_encode c, s') \<and> moved (length (CHR 0x5C # CHR ''u'' # hex4 c)) s s'"
    using scan_u_escape_scalar [OF at assms] by (simp add: hex4_def)
qed

lemma reads_x00: "reads_escape (CHR 0x5C # ''x00'') 0 z"
  unfolding reads_escape_def
proof (intro conjI allI impI)
  show "list_all (\<lambda>c. byte c < 0x80) (CHR 0x5C # ''x00'')" by (simp add: byte_def)
next
  fix a s and flags :: int
  assume "at a ((CHR 0x5C # ''x00'') @ z) s" and fl: "flags = esc_String OR esc_ReportErrors"
  then have at: "at a (CHR 0x5C # CHR ''x'' # CHR ''0'' # CHR ''0'' # z) s" by simp
  note two = advance_twice [of s]
  have zero: "is_ascii_hexdigit CHR ''0''" "byte CHR ''0'' < 0x80" by code_simp+
  have at2: "at (a @ [CHR 0x5C, CHR ''x'']) (CHR ''0'' # CHR ''0'' # z) (advance 2 s)" using at_two [OF at] by (simp add: byte_def)
  then have at3: "at (a @ [CHR 0x5C, CHR ''x'', CHR ''0'']) (CHR ''0'' # z) (advance 3 s)"
    using at_advance [OF at2] zero(2) by simp
  then have at4: "at (a @ [CHR 0x5C, CHR ''x'', CHR ''0'', CHR ''0'']) z (advance 4 s)"
    using at_advance [OF at3] zero(2) by simp
  have p: "sc_pos (advance n s) = sc_pos s + n" for n by (simp add: advance_def)
  have loop: "hex_escape_digits (sc_pos s) (advance 2 s) = (True, advance 4 s)"
    using at_here [OF at2] at_here [OF at3] zero(1) 
    by (subst hex_escape_digits.simps, subst (1) hex_escape_digits.simps, subst (1) hex_escape_digits.simps) (simp add: p)
  have len: "length a = sc_pos s" using at by (simp add: at_def)
  have "str_slice (sc_text (advance 4 s)) (length (a @ [CHR 0x5C, CHR ''x''])) (sc_pos (advance 4 s)) = Some [CHR ''0'', CHR ''0'']"
    using at_slice [of "a @ [CHR 0x5C, CHR ''x'']" "[CHR ''0'', CHR ''0'']" z "advance 4 s"] at4 at2 by (simp add: at_def)
  then have sl: "str_slice (sc_text s) (sc_pos s + 2) (sc_pos s + 4) = Some ''00''" using len p by (simp add: advance_def)
  have z: "from_str_radix (2 ^ 32 - 1) 16 ''00'' = Some 0" "char_from_u32 0 = Some 0" by code_simp+
  have "scan_hex_escape (sc_pos s) flags (advance 2 s) = Some (utf8_encode 0, add_flags HEX_ESCAPE (advance 4 s))"
    unfolding scan_hex_escape_def loop Let_def using sl z by (simp add: p)
  moreover have "scan_escape_sequence flags s = scan_hex_escape (sc_pos s) flags (advance 2 s)"
    using scan_escape_letter [OF at] by (simp add: scan_escape_sequence_def Let_def two del: advance_advance One_nat_def)
  ultimately show "\<exists>s'. scan_escape_sequence flags s = Some (utf8_encode 0, s') \<and> moved (length (CHR 0x5C # ''x00'')) s s'"
    by simp
qed

section \<open>Every escape that the printer writes is read back\<close>

lemma hex4_named: "hex4 0x2028 = ''2028''" "hex4 0x2029 = ''2029''" "hex4 0x85 = ''0085''"
  by code_simp+

lemma rune_escape_hd: "\<exists>e. rune_escape c cs = CHR 0x5C # e"
  by (simp add: rune_escape_def escaped_char_def encode_utf16_escape_sequence_def Let_def)

lemma rune_escape_cases:
  assumes "plain_quote q" "rune_escaped q flags c" "c < 0x10000" "c \<noteq> 0"
  shows "(\<exists>x. (x, c) \<in> set simple_escapes \<and> rune_escape c cs = [CHR 0x5C, x]) \<or> rune_escape c cs = CHR 0x5C # CHR ''u'' # hex4 c"
proof (cases "escaped_char c")
  case None
  then show ?thesis using encode_utf16_hex4 [OF assms(3)] assms(3,4) by (simp add: rune_escape_def)
next
  case (Some e)
  have n: "c \<noteq> 0x60" "c \<noteq> 0x24"
    using assms(1,2) by (auto simp: plain_quote_def rune_escaped_def quote_as_char_def byte_def)
  have e: "rune_escape c cs = e" using Some assms(3,4) by (simp add: rune_escape_def)
  show ?thesis unfolding e using Some n unfolding escaped_char_def
    by (simp add: simple_escapes_def hex4_named split: if_splits)
qed

lemma escaped_hd:
  assumes "plain_quote q" "runes cs"
  shows "\<not> is_ascii_digit (hd (escaped q flags cs @ quote_as_char q # z)) \<or> (\<exists>c cs'. cs = c # cs' \<and> 48 \<le> c \<and> c \<le> 57)"
proof (cases cs)
  case Nil
  then show ?thesis using assms(1) by (auto simp: plain_quote_def quote_as_char_def is_ascii_digit_def)
next
  case (Cons c cs')
  have sl: "hd (encode_utf16_escape_sequence n @ y) = CHR 0x5C" for n y by (simp add: encode_utf16_escape_sequence_def Let_def)
  have "hd (rune_escape c cs' @ y) = CHR 0x5C" for y
    using rune_escape_hd [of c cs'] by auto
  moreover have "\<not> is_ascii_digit (CHR 0x5C)" by (simp add: is_ascii_digit_def)
  moreover have "is_ascii_digit (hd (utf8_encode c @ y)) \<Longrightarrow> 48 \<le> c \<and> c \<le> 57" for y
  proof -
    assume "is_ascii_digit (hd (utf8_encode c @ y))"
    then have d: "48 \<le> byte (hd (utf8_encode c)) \<and> byte (hd (utf8_encode c)) \<le> 57"
      by (auto simp: is_ascii_digit_def byte_def)
    then show ?thesis using first_byte(1,2) [of c] assms(2) Cons by auto
  qed
  ultimately show ?thesis using Cons by (auto simp del: hd_append2)
qed

lemma reads_rune_escape:
  assumes "plain_quote q" "rune_escaped q flags c" "is_scalar c" "c < 0x10000" "runes cs"
  shows "reads_escape (rune_escape c cs) c (escaped q flags cs @ quote_as_char q # z)"
proof (cases "c = 0")
  case True
  show ?thesis
  proof (cases "cs \<noteq> [] \<and> 48 \<le> hd cs \<and> hd cs \<le> 57")
    case d: True
    then show ?thesis using True reads_x00 by (simp add: rune_escape_def)
  next
    case False
    then have "\<not> is_ascii_digit (hd (escaped q flags cs @ quote_as_char q # z))" using escaped_hd [OF assms(1,5)] by fastforce
    then show ?thesis using True False reads_nul by (auto simp: rune_escape_def)
  qed
next
  case False
  then show ?thesis using rune_escape_cases [OF assms(1,2,4)] reads_simple reads_unicode [OF assms(4,3)] by metis
qed

section \<open>Reading the literal\<close>

lemma at_boundary_char:
  assumes "at a (utf8_encode c @ z) s" "is_scalar c"
  obtains s' where "char_and_size s = (c, len_utf8 c, s')" "moved 0 s s'" "at (a @ utf8_encode c) z (advance (len_utf8 c) s')"
proof -
  let ?t = "a @ utf8_encode c @ z"
  have bd: "valid_text ?t" "is_char_boundary ?t (length a)" "length a < length ?t" using assms(1) by (simp_all add: at_def len_utf8_pos)
  obtain c' where c': "next_char (drop (length a) ?t) = Some c'" "is_char_boundary ?t (length a + len_utf8 c')"
      "byte (?t ! length a) < 0x80 \<longleftrightarrow> c' < 0x80" "c' < 0x80 \<Longrightarrow> byte (?t ! length a) = c'"
    using char_at_boundary [OF bd] by metis
  have cc: "c' = c" using c'(1) assms(2) by simp
  obtain s' where s': "char_and_size s = (c, len_utf8 c, s')" "moved 0 s s'"
  proof (cases "c < 0x80")
    case True
    then have "char_and_size s = (c, len_utf8 c, s)"
      using assms(1) c'(3,4) bd(3) cc by (simp add: char_and_size_def at_def Let_def len_utf8_def)
    then show ?thesis using that by simp
  next
    case False
    then have "char_and_size s = (c, len_utf8 c, if len_utf8 c > 1 then s\<lparr>sc_contains_non_ascii := True\<rparr> else s)"
      using assms(1) c'(1,3) bd cc by (simp add: char_and_size_def at_def Let_def)
    then show ?thesis using that by (simp add: moved_def)
  qed
  moreover have "at (a @ utf8_encode c) z (advance (len_utf8 c) s')"
    using at_moved [OF assms(1), of "advance (len_utf8 c) s'"] s'(2) c'(2) cc by simp
  ultimately show thesis using that by blast
qed

lemma moved_trans: "moved m s s' \<Longrightarrow> moved n s' s'' \<Longrightarrow> moved (m + n) s s''"
  by (simp add: moved_def)

lemma moved_value [simp]: "moved n s (s'\<lparr>sc_token_value := v\<rparr>) \<longleftrightarrow> moved n s s'"
  by (simp add: moved_def)

lemma plain_quote_byte: "plain_quote q \<Longrightarrow> byte (quote_as_char q) < 0x80 \<and> byte (quote_as_char q) \<noteq> 0x5C
    \<and> utf8_encode (byte (quote_as_char q)) = [quote_as_char q] \<and> is_scalar (byte (quote_as_char q)) \<and> len_utf8 (byte (quote_as_char q)) = 1"
  by (auto simp: plain_quote_def quote_as_char_def byte_def utf8_encode_def is_scalar_def len_utf8_def)

lemma at_again: "at a z s \<Longrightarrow> moved 0 s s' \<Longrightarrow> at a z s'"
  by (simp add: at_def moved_def)

lemma literal_value_text:
  assumes "at (a @ x) z s" "is_char_boundary (a @ x @ z) (length a)" "result = None \<Longrightarrow> start = length a"
  obtains v where "literal_value result (length a) start s = Some v"
    "\<And>s'. sc_text s' = sc_text s \<Longrightarrow> token_value_text (s'\<lparr>sc_token_value := v\<rparr>) = Some (pushed result @ x)"
proof (cases result)
  case None
  then show ?thesis using that at_slice [OF assms(1,2)] assms(3) by (simp add: literal_value_def token_value_text_def pushed_def)
next
  case (Some r)
  then show ?thesis using that at_slice [OF assms(1,2)] by (simp add: literal_value_def token_value_text_def pushed_def)
qed

text \<open>The characters that \<open>escaped\<close> can write so that the scanner reads them back: the escape of one above
  \<open>0xFFFF\<close> is a pair of surrogates, which the scanner does not always put together rightly.\<close>

definition readable :: "int \<Rightarrow> rune list \<Rightarrow> bool" where
  "readable flags cs \<longleftrightarrow> runes cs \<and> (flags = 0 \<longrightarrow> list_all (\<lambda>c. c < 0x10000) cs)"

lemma readable_Cons: "readable flags (c # cs) \<longleftrightarrow> is_scalar c \<and> (flags = 0 \<longrightarrow> c < 0x10000) \<and> readable flags cs"
  by (auto simp: readable_def)

lemma rune_escaped_small:
  "plain_quote q \<Longrightarrow> plain_flags flags \<Longrightarrow> rune_escaped q flags c \<Longrightarrow> flags = 0 \<longrightarrow> c < 0x10000 \<Longrightarrow> c < 0x10000"
  using plain_quote_byte [of q] by (auto simp: rune_escaped_def plain_flags_def)

lemma string_loop_reads:
  assumes "plain_quote q" "plain_flags flags"
  shows "readable flags cs \<Longrightarrow> at (a @ enc rs) (escaped q flags cs @ quote_as_char q # z) s \<Longrightarrow>
    is_char_boundary (sc_text s) (length a) \<Longrightarrow> (result = None \<Longrightarrow> vs = length a) \<Longrightarrow>
    \<exists>s'. string_loop (quote_as_char q) False vs result (length a) s = Some s'
      \<and> moved (length (escaped q flags cs) + 1) s s' \<and> token_value_text s' = Some (pushed result @ enc rs @ enc cs)"
proof (induction cs arbitrary: a rs result s)
  case Nil
  note q = plain_quote_byte [OF assms(1)]
  have at: "at (a @ enc rs) (utf8_encode (byte (quote_as_char q)) @ z) s" using Nil.prems(2) q by simp
  have one: "len_utf8 (byte (quote_as_char q)) = 1" "is_scalar (byte (quote_as_char q))" using q by simp_all
  obtain s' where s': "char_and_size s = (byte (quote_as_char q), 1, s')" "moved 0 s s'"
    using at_boundary_char [OF at one(2)] one(1) by metis
  have at': "at (a @ enc rs) (quote_as_char q # z) s'" using at_again [OF _ s'(2)] Nil.prems(2) by simp
  have bd: "is_char_boundary (a @ enc rs @ quote_as_char q # z) (length a)" using Nil.prems(2,3) by (simp add: at_def)
  obtain v where v: "literal_value result (length a) vs s' = Some v"
    "\<And>s''. sc_text s'' = sc_text s' \<Longrightarrow> token_value_text (s''\<lparr>sc_token_value := v\<rparr>) = Some (pushed result @ enc rs)"
    using literal_value_text [OF at' bd Nil.prems(4)] by blast
  then show ?case using s' by (subst string_loop.simps) (simp add: Let_def)
next
  case (Cons c cs)
  note q = plain_quote_byte [OF assms(1)]
  have c: "is_scalar c" "flags = 0 \<longrightarrow> c < 0x10000" "readable flags cs" "runes cs"
    using Cons.prems(1) by (simp_all add: readable_Cons) (simp add: readable_def)
  show ?case
  proof (cases "rune_escaped q flags c")
    case True
    obtain e where e: "rune_escape c cs = CHR 0x5C # e" using rune_escape_hd by blast
    let ?z = "escaped q flags cs @ quote_as_char q # z"
    have b: "byte (CHR 0x5C) = 0x5C" "utf8_encode 0x5C = [CHR 0x5C]" "is_scalar 0x5C" "len_utf8 0x5C = 1" by code_simp+
    have at: "at (a @ enc rs) (rune_escape c cs @ ?z) s" using Cons.prems(2) True by simp
    then have at1: "at (a @ enc rs) (utf8_encode 0x5C @ e @ ?z) s" using e b(2) by simp
    obtain s1 where s1: "char_and_size s = (0x5C, 1, s1)" "moved 0 s s1" using at_boundary_char [OF at1 b(3)] b(4) by metis
    have at2: "at (a @ enc rs) (rune_escape c cs @ ?z) s1" using at_again [OF at s1(2)] .
    have reads: "reads_escape (rune_escape c cs) c ?z"
      using reads_rune_escape [OF assms(1) True c(1) rune_escaped_small [OF assms True c(2)] c(4)] .
    then obtain s2 where s2: "scan_escape_sequence (esc_String OR esc_ReportErrors) s1 = Some (utf8_encode c, s2)"
        "moved (length (rune_escape c cs)) s1 s2" and asc: "list_all (\<lambda>c. byte c < 0x80) (rune_escape c cs)"
      using at2 unfolding reads_escape_def by blast
    have at3: "at ((a @ enc rs) @ rune_escape c cs) ?z s2" using at_ascii [OF at2 s2(2) asc] .
    have bd: "is_char_boundary (a @ enc rs @ rune_escape c cs @ ?z) (length a)" using Cons.prems(2,3) True by (simp add: at_def)
    have run: "str_slice (sc_text s1) (length a) (sc_pos s1) = Some (enc rs)" using at_slice [OF at2] bd by simp
    have len: "sc_pos s2 = length (a @ enc rs @ rune_escape c cs)" using at3 by (simp add: at_def)
    have "string_loop (quote_as_char q) False vs result (length a) s
        = string_loop (quote_as_char q) False vs (Some (pushed result @ enc rs @ utf8_encode c)) (sc_pos s2) s2"
      using s1(1) run s2(1) q by (subst string_loop.simps) (simp add: Let_def)
    moreover have "\<exists>s'. string_loop (quote_as_char q) False vs (Some (pushed result @ enc rs @ utf8_encode c)) (sc_pos s2) s2 = Some s'
        \<and> moved (length (escaped q flags cs) + 1) s2 s'
        \<and> token_value_text s' = Some (pushed (Some (pushed result @ enc rs @ utf8_encode c)) @ enc [] @ enc cs)"
      unfolding len using Cons.IH [OF c(3), of "a @ enc rs @ rune_escape c cs" "[]" s2 "Some (pushed result @ enc rs @ utf8_encode c)"] at3 by (simp add: at_def)
    ultimately show ?thesis using moved_trans [OF moved_trans [OF s1(2) s2(2)]] True by (fastforce simp: pushed_def)
  next
    case False
    have ne: "c \<noteq> byte (quote_as_char q)" "c \<noteq> 0x5C" "c \<noteq> 10" "c \<noteq> 13" using False by (auto simp: rune_escaped_def)
    have nz: "len_utf8 c \<noteq> 0" by (simp add: len_utf8_def)
    have at: "at (a @ enc rs) (utf8_encode c @ escaped q flags cs @ quote_as_char q # z) s" using Cons.prems(2) False by simp
    obtain s1 where s1: "char_and_size s = (c, len_utf8 c, s1)" "moved 0 s s1"
        "at ((a @ enc rs) @ utf8_encode c) (escaped q flags cs @ quote_as_char q # z) (advance (len_utf8 c) s1)"
      using at_boundary_char [OF at c(1)] .
    have "string_loop (quote_as_char q) False vs result (length a) s
        = string_loop (quote_as_char q) False vs result (length a) (advance (len_utf8 c) s1)"
      using s1(1) ne nz by (subst string_loop.simps) (simp add: Let_def del: neq0_conv)
    moreover have "\<exists>s'. string_loop (quote_as_char q) False vs result (length a) (advance (len_utf8 c) s1) = Some s'
        \<and> moved (length (escaped q flags cs) + 1) (advance (len_utf8 c) s1) s'
        \<and> token_value_text s' = Some (pushed result @ enc (rs @ [c]) @ enc cs)"
      using Cons.IH [OF c(3), of a "rs @ [c]" "advance (len_utf8 c) s1" result] s1 Cons.prems(3,4) by (simp add: moved_def advance_def)
    ultimately show ?thesis using moved_trans [of "len_utf8 c" s "advance (len_utf8 c) s1"] s1(2) False by (fastforce simp: add.assoc)
  qed
qed

lemma quote_not_in_rune:
  assumes "is_scalar c" "byte x < 0x80" "c \<noteq> byte x"
  shows "x \<notin> set (utf8_encode c)"
proof
  assume "x \<in> set (utf8_encode c)"
  then obtain i where i: "i < len_utf8 c" "utf8_encode c ! i = x" by (metis in_set_conv_nth length_utf8_encode)
  then have "i = 0" using continuation_bytes [OF assms(1), of i] assms(2) by fastforce
  then have "byte (hd (utf8_encode c)) = byte x" using i(2) by (simp add: hd_conv_nth)
  then show False using first_byte(1,2) [OF assms(1)] assms(2,3) by simp
qed

lemma escaped_split:
  assumes "plain_quote q" "runes cs"
  shows "escaped q flags cs = enc cs \<and> quote_as_char q \<notin> set (enc cs)
    \<or> (\<exists>us e. escaped q flags cs = us @ CHR 0x5C # e \<and> quote_as_char q \<notin> set us)"
  using assms(2)
proof (induction cs)
  case (Cons c cs)
  note q = plain_quote_byte [OF assms(1)]
  show ?case
  proof (cases "rune_escaped q flags c")
    case True
    obtain e where "rune_escape c cs = CHR 0x5C # e" using rune_escape_hd by blast
    then show ?thesis using True by (intro disjI2 exI [of _ "[]"] exI [of _ "e @ escaped q flags cs"]) simp
  next
    case False
    then have "c \<noteq> byte (quote_as_char q)" by (auto simp: rune_escaped_def)
    then have nq: "quote_as_char q \<notin> set (utf8_encode c)" using quote_not_in_rune Cons.prems q by simp
    consider "escaped q flags cs = enc cs \<and> quote_as_char q \<notin> set (enc cs)"
      | us e where "escaped q flags cs = us @ CHR 0x5C # e" "quote_as_char q \<notin> set us" using Cons by auto
    then show ?thesis
    proof cases
      case 2
      then show ?thesis using False nq
        by (intro disjI2 exI [of _ "utf8_encode c @ us"] exI [of _ e]) simp
    qed (use False nq in simp)
  qed
qed simp

lemma str_find_skip: "x \<notin> set u \<Longrightarrow> str_find [x] (u @ w) = map_option ((+) (length u)) (str_find [x] w)"
  by (cases "str_find [x] w") (induction u; auto)+

lemma str_find_present: "x \<in> set w \<Longrightarrow> \<exists>i. str_find [x] w = Some i"
  by (induction w) auto

lemma scan_string_reads:
  assumes "plain_quote q" "plain_flags flags" "readable flags cs"
    and at: "at a (quote_as_char q # escaped q flags cs @ quote_as_char q # z) s"
  shows "\<exists>s'. scan_string_and_set_token_value False s = Some s' \<and> moved (length (escaped q flags cs) + 2) s s'
    \<and> token_value_text s' = Some (enc cs)"
proof -
  note q = plain_quote_byte [OF assms(1)]
  let ?q = "quote_as_char q" and ?e = "escaped q flags cs"
  let ?rest = "?e @ ?q # z" and ?t = "(a @ [?q]) @ ?e @ ?q # z"
  define s0 where "s0 = (if ?q = CHR 0x27 then add_flags SINGLE_QUOTE s else s)"
  define s1 where "s1 = advance 1 s0"
  have runes: "runes cs" using assms(3) by (simp add: readable_def)
  have m: "moved 1 s s1" by (simp add: s1_def s0_def)
  have at1: "at (a @ [?q]) ?rest s1" using at_ascii [of a "[?q]" ?rest s s1] at m q by simp
  have here: "char_here s = ?q" using at_here [OF at] .
  have t1: "sc_text s1 = ?t" "sc_pos s1 = length (a @ [?q])" "sc_end s1 = length ?t" "is_char_boundary ?t (length (a @ [?q]))" "valid_text ?t"
    using at1 by (simp_all add: at_def)
  have rest: "str_slice (sc_text s1) (sc_pos s1) (sc_end s1) = Some ?rest" using slice_rest [OF t1(4)] t1 by simp
  obtain s2 where s2: "string_loop ?q False (sc_pos s1) None (sc_pos s1) s1 = Some s2" "moved (length ?e + 1) s1 s2"
      "token_value_text s2 = Some (enc cs)"
    using string_loop_reads [OF assms(1,2,3), of "a @ [?q]" "[]" z s1 None "sc_pos s1"] at1 t1 by (auto simp: pushed_def)
  have loop: ?thesis if "scan_string_and_set_token_value False s = string_loop ?q False (sc_pos s1) None (sc_pos s1) s1"
    using that s2 moved_trans [OF m s2(2)] by (auto simp: add.commute)
  have enc1: "utf8_encode (byte ?q) = [?q]" "len_utf8 (byte ?q) = 1" using q by simp_all
  have start: "scan_string_and_set_token_value False s =
      (case str_find [?q] ?rest of None \<Rightarrow> string_loop ?q False (sc_pos s1) None (sc_pos s1) s1
       | Some i \<Rightarrow>
          if i = 0 then Some (set_token_value_from_range (sc_pos s1) (sc_pos s1 + i) (advance 1 s1))
          else Option.bind (str_slice (sc_text s1) (sc_pos s1) (sc_pos s1 + i)) (\<lambda>literal.
            if CHR 0x0D \<notin> set literal \<and> CHR 0x0A \<notin> set literal \<and> CHR 0x5C \<notin> set literal
            then Some (set_token_value_from_range (sc_pos s1) (sc_pos s1 + i) (advance (i + 1) s1))
            else string_loop ?q False (sc_pos s1) None (sc_pos s1) s1))"
    unfolding scan_string_and_set_token_value_def Let_def here s0_def [symmetric] enc1 s1_def [symmetric] using rest
    by (cases "str_find [?q] ?rest") simp_all
  obtain i where i: "str_find [?q] ?rest = Some i" using str_find_present [of ?q ?rest] by auto
  have pre: "prefix [?q] (drop i ?rest)" using str_find_SomeD [OF i] .
  then have "?rest ! i = ?q" "i < length ?rest" using prefix_nth [OF pre, of 0] by (auto simp: prefix_def)
  then have lt: "length (a @ [?q]) + i < length ?t" "?t ! (length (a @ [?q]) + i) = ?q" by (simp_all add: nth_append)
  have lit: "str_slice (sc_text s1) (sc_pos s1) (sc_pos s1 + i) = Some (take i ?rest)"
    using slice_boundaries [OF t1(4) ascii_is_boundary [OF lt(1)]] lt(2) q t1(1,2) by simp
  consider "?e = enc cs" "?q \<notin> set (enc cs)" | us e where "?e = us @ CHR 0x5C # e" "?q \<notin> set us"
    using escaped_split [OF assms(1) runes, of flags] by auto
  then show ?thesis
  proof cases
    case 1
    then have len: "i = length (enc cs)" using str_find_skip [of ?q "enc cs" "?q # z"] i by simp
    let ?s' = "set_token_value_from_range (sc_pos s1) (sc_pos s1 + i) (advance (i + 1) s1)"
    have good: ?thesis if "scan_string_and_set_token_value False s = Some ?s'"
    proof -
      have "moved (length ?e + 2) s ?s'" using m len 1(1) by (simp add: moved_def set_token_value_from_range_def advance_def)
      moreover have "token_value_text ?s' = Some (enc cs)"
        using lit len 1(1) by (simp add: token_value_text_def set_token_value_from_range_def advance_def)
      ultimately show ?thesis using that by blast
    qed
    show ?thesis
    proof (cases "i = 0")
      case True
      then show ?thesis using good start i by simp
    next
      case False
      then show ?thesis using good loop start i lit by (auto split: if_splits)
    qed
  next
    case 2
    have "str_find [?q] ?rest = map_option ((+) (length us)) (str_find [?q] (CHR 0x5C # e @ ?q # z))"
      using str_find_skip [OF 2(2), of "CHR 0x5C # e @ ?q # z"] 2(1) by simp
    moreover have "?q \<noteq> CHR 0x5C" using q by (auto simp: byte_def)
    ultimately obtain j where j: "i = length us + Suc j" using i
      by (cases "str_find [?q] (e @ ?q # z)") (auto split: if_splits)
    have "CHR 0x5C \<in> set (take i ?rest)" unfolding j 2(1) by simp
    then show ?thesis using loop start i lit j by (simp del: append_assoc)
  qed
qed



text \<open>The bound is needed: the escape of U+20000 is a pair of surrogates, of which the scanner makes another
  character.\<close>

lemma high_character_misread:
  "escape_string_worker (enc [0x20000]) DoubleQuote 0 = Some (CHR 0x5C # ''uD840'' @ CHR 0x5C # ''uDC00'')"
  "Option.bind (scan (\<lambda>v. v) (new_scanner_on ([CHR 0x22] @ CHR 0x5C # ''uD840'' @ CHR 0x5C # ''uDC00'' @ [CHR 0x22]))) token_value_text
     = Some (enc [0x10000])"
  by code_simp+

end
