(* ===== verification/TextWriter.thy ===== *)
theory TextWriter
  imports PrinterUtilities
begin

text \<open>
  The writers of the printer: \<open>TextWriter\<close>, which indents and counts lines
  (\<open>crates/ts-printer/src/textwriter.rs\<close>), and \<open>SingleLineStringWriter\<close>
  (\<open>crates/ts-printer/src/singlelinestringwriter.rs\<close>). An operation that panics (an indentation below zero, a slice
  that is not at a character boundary) is \<open>None\<close>; \<open>i32\<close> arithmetic wraps.
\<close>

section \<open>The starts of the lines of a written text\<close>

function line_starts_loop :: "string \<Rightarrow> nat \<Rightarrow> nat \<Rightarrow> nat list option" where
  "line_starts_loop t pos line_start =
     (if pos < length t then
        let b = byte (t ! pos) in
        if b < 0x80 then
          let pos = pos + 1 in
          if b = 13 then
            let pos = (if pos < length t \<and> t ! pos = CHR 0x0A then pos + 1 else pos) in
            map_option ((#) line_start) (line_starts_loop t pos pos)
          else if b = 10 then map_option ((#) line_start) (line_starts_loop t pos pos)
          else line_starts_loop t pos line_start
        else
          (case str_slice t pos (length t) of
             None \<Rightarrow> None
           | Some rest \<Rightarrow>
               (case next_char rest of
                  None \<Rightarrow> Some [line_start]
                | Some ch \<Rightarrow>
                    let pos = pos + len_utf8 ch in
                    if is_line_break ch then map_option ((#) line_start) (line_starts_loop t pos pos)
                    else line_starts_loop t pos line_start))
      else Some [line_start])"
  by pat_completeness auto
termination
  by (relation "measure (\<lambda>(t, pos, line_start). length t - pos)") (auto intro: diff_less_mono2)

declare line_starts_loop.simps [simp del]

definition compute_ecma_line_starts_seq :: "string \<Rightarrow> nat list option" where
  "compute_ecma_line_starts_seq t = line_starts_loop t 0 0"

section \<open>The text writer\<close>

definition get_indent_string :: "int \<Rightarrow> int \<Rightarrow> string option" where
  "get_indent_string indent indent_size =
     (if indent = 0 then Some []
      else let n = wrap32 (indent * indent_size) in
        if n < 0 then None else Some (replicate (nat n) (CHR '' '')))"

record text_writer =
  tw_new_line :: string
  tw_indent_size :: int
  tw_builder :: string
  tw_last_written :: string
  tw_indent :: int
  tw_line_start :: bool
  tw_line_count :: int
  tw_line_pos :: nat
  tw_trailing_comment :: bool

definition tw_clear :: "text_writer \<Rightarrow> text_writer" where
  "tw_clear w =
     \<lparr>tw_new_line = tw_new_line w, tw_indent_size = tw_indent_size w, tw_builder = [], tw_last_written = [], tw_indent = 0,
      tw_line_start = True, tw_line_count = 0, tw_line_pos = 0, tw_trailing_comment = False\<rparr>"

definition new_with_indent_size :: "string \<Rightarrow> int \<Rightarrow> text_writer" where
  "new_with_indent_size nl indent_size = tw_clear
     \<lparr>tw_new_line = nl, tw_indent_size = indent_size, tw_builder = [], tw_last_written = [], tw_indent = 0,
      tw_line_start = True, tw_line_count = 0, tw_line_pos = 0, tw_trailing_comment = False\<rparr>"

definition new_text_writer :: "string \<Rightarrow> int \<Rightarrow> text_writer" where
  "new_text_writer nl indent_size = tw_clear
     \<lparr>tw_new_line = nl, tw_indent_size = (if indent_size \<le> 0 then DEFAULT_INDENT_SIZE else indent_size), tw_builder = [],
      tw_last_written = [], tw_indent = 0, tw_line_start = False, tw_line_count = 0, tw_line_pos = 0,
      tw_trailing_comment = False\<rparr>"

definition update_line_count_and_pos_for :: "string \<Rightarrow> text_writer \<Rightarrow> text_writer option" where
  "update_line_count_and_pos_for s w =
     (case compute_ecma_line_starts_seq s of
        None \<Rightarrow> None
      | Some starts \<Rightarrow>
          let count = wrap32 (int (length starts));
              last_line_start = (if starts = [] then 0 else last starts) in
          if count > 1 then
            let cur_len = length (tw_builder w); line_pos = cur_len - length s + last_line_start in
            Some (w\<lparr>tw_line_count := wrap32 (tw_line_count w + (count - 1)), tw_line_pos := line_pos,
                    tw_line_start := (line_pos = cur_len)\<rparr>)
          else Some (w\<lparr>tw_line_start := False\<rparr>))"

definition tw_write_text :: "string \<Rightarrow> text_writer \<Rightarrow> text_writer option" where
  "tw_write_text s w =
     (if s = [] then Some w
      else
        Option.bind
          (if tw_line_start w then
             map_option (\<lambda>i. w\<lparr>tw_builder := tw_builder w @ i, tw_line_start := False\<rparr>) (get_indent_string (tw_indent w) (tw_indent_size w))
           else Some w)
          (\<lambda>w. update_line_count_and_pos_for s (w\<lparr>tw_builder := tw_builder w @ s, tw_last_written := s\<rparr>)))"

definition tw_write_line_raw :: "text_writer \<Rightarrow> text_writer" where
  "tw_write_line_raw w =
     (let b = tw_builder w @ tw_new_line w in
      w\<lparr>tw_builder := b, tw_last_written := tw_new_line w, tw_line_count := wrap32 (tw_line_count w + 1),
        tw_line_pos := length b, tw_line_start := True, tw_trailing_comment := False\<rparr>)"

definition tw_write :: "string \<Rightarrow> text_writer \<Rightarrow> text_writer option" where
  "tw_write s w = tw_write_text s (if s \<noteq> [] then w\<lparr>tw_trailing_comment := False\<rparr> else w)"

definition tw_write_comment :: "string \<Rightarrow> text_writer \<Rightarrow> text_writer option" where
  "tw_write_comment s w = tw_write_text s (if s \<noteq> [] then w\<lparr>tw_trailing_comment := True\<rparr> else w)"

text \<open>The kinds of text that are written as they are.\<close>

datatype text_class =
  TrailingSemicolon | Keyword | Operator | Punctuation | Space | StringLit | Parameter | Property | Symbol | Literal

definition tw_write_class :: "text_class \<Rightarrow> string \<Rightarrow> text_writer \<Rightarrow> text_writer option" where
  "tw_write_class k s w = tw_write s w"

definition tw_write_line :: "text_writer \<Rightarrow> text_writer" where
  "tw_write_line w = (if \<not> tw_line_start w then tw_write_line_raw w else w)"

definition tw_write_line_force :: "bool \<Rightarrow> text_writer \<Rightarrow> text_writer" where
  "tw_write_line_force force w = (if \<not> tw_line_start w \<or> force then tw_write_line_raw w else w)"

definition tw_increase_indent :: "text_writer \<Rightarrow> text_writer" where
  "tw_increase_indent w = w\<lparr>tw_indent := wrap32 (tw_indent w + 1)\<rparr>"

definition tw_decrease_indent :: "text_writer \<Rightarrow> text_writer" where
  "tw_decrease_indent w = w\<lparr>tw_indent := wrap32 (tw_indent w - 1)\<rparr>"

definition tw_raw_write :: "string \<Rightarrow> text_writer \<Rightarrow> text_writer option" where
  "tw_raw_write s w =
     update_line_count_and_pos_for s
       (if s \<noteq> [] then w\<lparr>tw_builder := tw_builder w @ s, tw_last_written := s, tw_trailing_comment := False\<rparr> else w)"

definition tw_get_text_pos :: "text_writer \<Rightarrow> int" where
  "tw_get_text_pos w = wrap32 (int (length (tw_builder w)))"

text \<open>The local copy of \<open>utf16_len\<close>.\<close>

definition tw_utf16_len :: "string \<Rightarrow> int option" where
  "tw_utf16_len s =
     (case position (\<lambda>b. byte b \<ge> 0x80) s of
        Some i \<Rightarrow> map_option (\<lambda>t. wrap32 (int i + sum_utf16 (chars_of t))) (str_slice s i (length s))
      | None \<Rightarrow> Some (wrap32 (int (length s))))"

definition tw_get_column :: "text_writer \<Rightarrow> int option" where
  "tw_get_column w =
     (if tw_line_start w then Some (wrap32 (tw_indent w * tw_indent_size w))
      else Option.bind (str_slice (tw_builder w) (tw_line_pos w) (length (tw_builder w))) tw_utf16_len)"

definition ends_in_white_space :: "string \<Rightarrow> bool" where
  "ends_in_white_space s \<longleftrightarrow> chars_of s \<noteq> [] \<and> is_white_space_like (last (chars_of s))"

definition tw_has_trailing_whitespace :: "text_writer \<Rightarrow> bool" where
  "tw_has_trailing_whitespace w \<longleftrightarrow> tw_builder w \<noteq> [] \<and> ends_in_white_space (tw_last_written w)"

section \<open>The single line writer\<close>

record single_line_writer =
  sl_builder :: string
  sl_last_written :: string

definition sl_clear :: "single_line_writer \<Rightarrow> single_line_writer" where
  "sl_clear w = w\<lparr>sl_last_written := [], sl_builder := []\<rparr>"

definition sl_write_raw_text :: "string \<Rightarrow> single_line_writer \<Rightarrow> single_line_writer" where
  "sl_write_raw_text s w = w\<lparr>sl_last_written := s, sl_builder := sl_builder w @ s\<rparr>"

definition sl_write_class :: "text_class \<Rightarrow> string \<Rightarrow> single_line_writer \<Rightarrow> single_line_writer" where
  "sl_write_class k s w = sl_write_raw_text s w"

definition sl_write_line :: "single_line_writer \<Rightarrow> single_line_writer" where
  "sl_write_line w = sl_write_raw_text '' '' w"

definition sl_write_line_force :: "bool \<Rightarrow> single_line_writer \<Rightarrow> single_line_writer" where
  "sl_write_line_force force w = sl_write_raw_text '' '' w"

definition sl_get_text_pos :: "single_line_writer \<Rightarrow> int" where
  "sl_get_text_pos w = wrap32 (int (length (sl_builder w)))"

definition sl_has_trailing_whitespace :: "single_line_writer \<Rightarrow> bool" where
  "sl_has_trailing_whitespace w \<longleftrightarrow> sl_builder w \<noteq> [] \<and> ends_in_white_space (sl_last_written w)"

text \<open>The pool: a writer is taken from it, or a new one made, and cleared; when it is dropped it is cleared and put
  back.\<close>

definition get_single_line_string_writer :: "single_line_writer list \<Rightarrow> single_line_writer \<times> single_line_writer list" where
  "get_single_line_string_writer pool =
     (if pool = [] then (sl_clear \<lparr>sl_builder = [], sl_last_written = []\<rparr>, [])
      else (sl_clear (last pool), butlast pool))"

definition drop_single_line_string_writer :: "single_line_writer \<Rightarrow> single_line_writer list \<Rightarrow> single_line_writer list" where
  "drop_single_line_string_writer w pool = pool @ [sl_clear w]"

section \<open>The writer's line and column\<close>

lemma tw_utf16_len [simp]: "tw_utf16_len = utf16len"
  by (rule ext) (simp add: tw_utf16_len_def utf16len_def)

lemma line_starts_loop_enc:
  "runes (us @ vs) \<Longrightarrow> line_starts_loop (enc (us @ vs)) (length (enc us)) s = Some (s # later_starts (length (enc us)) vs)"
proof (induction "length vs" arbitrary: us vs s rule: less_induct)
  case less
  let ?t = "enc (us @ vs)" and ?p = "length (enc us)"
  note unf = line_starts_loop.simps [of ?t ?p s]
  show ?case
  proof (cases vs)
    case Nil
    then show ?thesis by (subst unf) simp
  next
    case (Cons c cs)
    have c: "is_scalar c" and r: "runes (us @ [c] @ cs)" using less.prems Cons by simp_all
    have lt: "?p < length ?t" using Cons by (simp add: len_utf8_pos)
    have b: "byte (?t ! ?p) = byte (hd (utf8_encode c))" using nth_first_byte [of us c "enc cs"] Cons by simp
    have IH: "line_starts_loop ?t (?p + len_utf8 c) s' = Some (s' # later_starts (?p + len_utf8 c) cs)" for s'
      using less.hyps [of cs "us @ [c]" s'] r Cons by simp
    show ?thesis
    proof (cases "c < 0x80")
      case True
      have one: "len_utf8 c = 1" "byte (?t ! ?p) = c" using True b first_byte(2) [OF c] by (simp_all add: len_utf8_def)
      have nl: "?p + 1 < length ?t \<and> ?t ! (?p + 1) = CHR 0x0A \<longleftrightarrow> cs \<noteq> [] \<and> hd cs = 10"
        using lf_after [of "us @ [c]" cs] r Cons one(1) by simp
      show ?thesis
      proof (cases "c = 13 \<and> cs \<noteq> [] \<and> hd cs = 10")
        case crlf: True
        then obtain ds where ds: "cs = 10 # ds" by (cases cs) auto
        have "line_starts_loop ?t (?p + 2) (?p + 2) = Some ((?p + 2) # later_starts (?p + 2) ds)"
          using less.hyps [of ds "us @ [13, 10]" "?p + 2"] less.prems Cons ds crlf by (simp add: len_utf8_def)
        then show ?thesis unfolding unf Let_def using lt one nl crlf ds Cons
          by (simp add: is_line_break_def len_utf8_def)
      next
        case False
        then show ?thesis unfolding unf Let_def using lt True one nl IH Cons
          by (auto simp: is_line_break_def)
      qed
    next
      case False
      then have "\<not> byte (?t ! ?p) < 0x80" using b first_byte(1) [OF c] by simp
      moreover have "str_slice ?t ?p (length ?t) = Some (enc vs)" using str_slice_enc [of us vs "[]"] less.prems by simp
      moreover have "next_char (enc vs) = Some c" using c Cons by simp
      ultimately show ?thesis unfolding unf Let_def using lt False IH Cons
        by (auto simp del: One_nat_def)
    qed
  qed
qed

lemma compute_ecma_line_starts_seq_enc: "runes cs \<Longrightarrow> compute_ecma_line_starts_seq (enc cs) = Some (starts_of cs)"
  using line_starts_loop_enc [of "[]" cs 0] by (simp add: compute_ecma_line_starts_seq_def starts_of_def)

lemma later_starts_append:
  "us = [] \<or> last us \<noteq> 13 \<or> vs = [] \<or> hd vs \<noteq> 10 \<Longrightarrow> later_starts p (us @ vs) = later_starts p us @ later_starts (p + length (enc us)) vs"
proof (induction us arbitrary: p)
  case (Cons a us)
  have "us = [] \<or> last us \<noteq> 13 \<or> vs = [] \<or> hd vs \<noteq> 10" using Cons.prems by (cases us) auto
  note IH = Cons.IH [OF this]
  show ?case
  proof (cases us)
    case Nil
    then show ?thesis using Cons.prems by auto
  next
    case (Cons b bs)
    then show ?thesis using IH by (simp add: add.assoc)
  qed
qed simp

lemma later_starts_shift: "later_starts (p + q) vs = map ((+) p) (later_starts q vs)"
  by (induction q vs rule: later_starts.induct) (auto simp: add.assoc)

text \<open>The state of a writer that has written the characters \<open>cs\<close>.\<close>

definition ends_whole :: "rune list \<Rightarrow> bool" where
  "ends_whole cs \<longleftrightarrow> cs = [] \<or> last cs \<noteq> 13"

definition written :: "rune list \<Rightarrow> text_writer \<Rightarrow> bool" where
  "written cs w \<longleftrightarrow> runes cs \<and> ends_whole cs \<and> tw_builder w = enc cs
     \<and> tw_line_count w = wrap32 (int (length (later_starts 0 cs))) \<and> tw_line_pos w = last (starts_of cs)
     \<and> (tw_line_start w \<longrightarrow> tw_line_pos w = length (enc cs)) \<and> tw_new_line w \<in> {[CHR 0x0A], [CHR 0x0D, CHR 0x0A]}"

lemma ends_whole_append: "ends_whole us \<Longrightarrow> later_starts p (us @ vs) = later_starts p us @ later_starts (p + length (enc us)) vs"
  by (auto simp: ends_whole_def intro!: later_starts_append)

lemma starts_of_append:
  "ends_whole us \<Longrightarrow> starts_of (us @ vs) = starts_of us @ map ((+) (length (enc us))) (later_starts 0 vs)"
  using later_starts_shift [of "length (enc us)" 0 vs] by (simp add: starts_of_def ends_whole_append)

lemma wrap32_add: "wrap32 (wrap32 a + b) = wrap32 (a + b)"
  unfolding wrap32_def by (simp add: mod_simps algebra_simps)

lemma line_starts_count: "length (later_starts 0 ds) \<le> length (enc ds)"
proof -
  have d: "distinct (later_starts 0 ds)" using later_starts_sorted [of 0 ds] by (simp add: strict_sorted_iff)
  have "set (later_starts 0 ds) \<subseteq> {1..length (enc ds)}" using later_starts_above [of _ 0 ds] later_starts_le [of _ 0 ds] by fastforce
  then show ?thesis using card_mono [of "{1..length (enc ds)}" "set (later_starts 0 ds)"] distinct_card [OF d] by simp
qed

text \<open>The texts that a writer is given: their lines can be counted in an \<open>i32\<close>, and they do not end between a
  carriage return and a line feed that could follow.\<close>

definition writable :: "rune list \<Rightarrow> bool" where
  "writable ds \<longleftrightarrow> runes ds \<and> ends_whole ds \<and> int (length (enc ds)) < 2 ^ 31 - 1"

lemma update_line_count:
  assumes "ends_whole cs" "runes ds" "int (length (enc ds)) < 2 ^ 31 - 1" "tw_builder w = enc (cs @ ds)"
    and "tw_line_count w = wrap32 (int (length (later_starts 0 cs)))" "tw_line_pos w = last (starts_of cs)"
  obtains w' where "update_line_count_and_pos_for (enc ds) w = Some w'"
    "tw_line_count w' = wrap32 (int (length (later_starts 0 (cs @ ds))))" "tw_line_pos w' = last (starts_of (cs @ ds))"
    "tw_line_start w' \<longrightarrow> tw_line_pos w' = length (enc (cs @ ds))" "tw_builder w' = tw_builder w" "tw_new_line w' = tw_new_line w"
    "tw_indent w' = tw_indent w" "tw_indent_size w' = tw_indent_size w"
proof -
  let ?l = "later_starts 0 ds" and ?n = "length (enc cs)"
  have sum: "later_starts 0 (cs @ ds) = later_starts 0 cs @ map ((+) ?n) ?l" "starts_of (cs @ ds) = starts_of cs @ map ((+) ?n) ?l"
    using ends_whole_append [OF assms(1), of 0 ds] starts_of_append [OF assms(1), of ds] later_starts_shift [of ?n 0 ds] by simp_all
  have st: "compute_ecma_line_starts_seq (enc ds) = Some (0 # ?l)" 
    using compute_ecma_line_starts_seq_enc [OF assms(2)] by (simp add: starts_of_def)
  have cnt: "wrap32 (int (length (0 # ?l))) = int (length ?l) + 1"
    using line_starts_count [of ds] assms(3) by (subst wrap32_id) (simp_all add: is_i32_def)
  show ?thesis
  proof (cases "?l = []")
    case True
    then have "update_line_count_and_pos_for (enc ds) w = Some (w\<lparr>tw_line_start := False\<rparr>)"
      using st cnt by (simp add: update_line_count_and_pos_for_def)
    then show ?thesis using that assms(5,6) True sum by simp
  next
    case False
    let ?p = "?n + last ?l"
    have "int (length ?l) + 1 > 1" "length (tw_builder w) - length (enc ds) = ?n" using False assms(4) by simp_all
    then have "update_line_count_and_pos_for (enc ds) w = Some (w\<lparr>tw_line_count := wrap32 (tw_line_count w + int (length ?l)),
        tw_line_pos := ?p, tw_line_start := (?p = length (tw_builder w))\<rparr>)"
      unfolding update_line_count_and_pos_for_def st Let_def option.case cnt using False by simp
    then show ?thesis using that assms(4-6) False sum by (simp add: wrap32_add last_map)
  qed
qed

text \<open>The operations of a writer, as its user makes them.\<close>

datatype writer_op =
  Write text_class string | WriteComment string | RawWrite string | WriteLine | WriteLineForce bool | IncreaseIndent
| DecreaseIndent | Clear

fun apply_op :: "writer_op \<Rightarrow> text_writer \<Rightarrow> text_writer option" where
  "apply_op (Write k s) w = tw_write_class k s w"
| "apply_op (WriteComment s) w = tw_write_comment s w"
| "apply_op (RawWrite s) w = tw_raw_write s w"
| "apply_op WriteLine w = Some (tw_write_line w)"
| "apply_op (WriteLineForce b) w = Some (tw_write_line_force b w)"
| "apply_op IncreaseIndent w = Some (tw_increase_indent w)"
| "apply_op DecreaseIndent w = Some (tw_decrease_indent w)"
| "apply_op Clear w = Some (tw_clear w)"

fun apply_ops :: "writer_op list \<Rightarrow> text_writer \<Rightarrow> text_writer option" where
  "apply_ops [] w = Some w"
| "apply_ops (op # ops) w = Option.bind (apply_op op w) (apply_ops ops)"

fun op_text :: "writer_op \<Rightarrow> string" where
  "op_text (Write k s) = s" | "op_text (WriteComment s) = s" | "op_text (RawWrite s) = s" | "op_text _ = []"

lemma spaces: "runes (replicate n 32)" "enc (replicate n 32) = replicate n (CHR '' '')" "later_starts p (replicate n 32) = []"
  "ends_whole (replicate n 32)" "sum_utf16 (replicate n 32) = int n"
proof -
  have s: "utf8_encode 32 = [CHR '' '']" by code_simp
  show "runes (replicate n 32)" by (simp add: runes_def list_all_iff is_scalar_def)
  show "enc (replicate n 32) = replicate n (CHR '' '')" by (induction n) (simp_all add: s)
  show "later_starts p (replicate n 32) = []" by (induction n arbitrary: p) (simp_all add: is_line_break_def)
  show "ends_whole (replicate n 32)" by (cases n) (simp_all add: ends_whole_def last_replicate del: replicate.simps)
  show "sum_utf16 (replicate n 32) = int n" by (induction n) (simp_all add: len_utf16_def)
qed

text \<open>The text that starts a write: the indentation at the start of a line, nothing elsewhere.\<close>

lemma written_text:
  assumes "written cs w" "tw_write_text (enc ds) w = Some w'" "runes ds" "ds \<noteq> []" "int (length (enc ds)) < 2 ^ 31 - 1"
  obtains n w1 where "update_line_count_and_pos_for (enc ds) w1 = Some w'" "tw_builder w1 = enc ((cs @ replicate n 32) @ ds)"
    "tw_builder w' = enc ((cs @ replicate n 32) @ ds)" "tw_line_count w' = wrap32 (int (length (later_starts 0 ((cs @ replicate n 32) @ ds))))"
    "tw_line_pos w' = last (starts_of ((cs @ replicate n 32) @ ds))"
    "tw_line_start w' \<longrightarrow> tw_line_pos w' = length (enc ((cs @ replicate n 32) @ ds))" "tw_new_line w' = tw_new_line w"
    "tw_line_start w \<Longrightarrow> int n = wrap32 (tw_indent w * tw_indent_size w)" "\<not> tw_line_start w \<Longrightarrow> n = 0"
proof -
  have ne: "enc ds \<noteq> []" using assms(4) by simp
  have w: "runes cs" "ends_whole cs" "tw_builder w = enc cs" using assms(1) by (simp_all add: written_def)
  obtain n w0 where n: "tw_write_text (enc ds) w = update_line_count_and_pos_for (enc ds) (w0\<lparr>tw_builder := tw_builder w0 @ enc ds, tw_last_written := enc ds\<rparr>)"
      "tw_builder w0 = enc (cs @ replicate n 32)" "tw_line_count w0 = tw_line_count w" "tw_line_pos w0 = tw_line_pos w"
      "tw_new_line w0 = tw_new_line w" "tw_line_start w \<Longrightarrow> int n = wrap32 (tw_indent w * tw_indent_size w)" "\<not> tw_line_start w \<Longrightarrow> n = 0"
  proof (cases "tw_line_start w")
    case True
    let ?i = "wrap32 (tw_indent w * tw_indent_size w)"
    obtain i where i: "get_indent_string (tw_indent w) (tw_indent_size w) = Some i"
      using assms(2) ne True by (auto simp: tw_write_text_def split: bind_splits)
    have "0 \<le> ?i \<and> i = replicate (nat ?i) (CHR '' '')"
      using i by (auto simp: get_indent_string_def Let_def wrap32_def split: if_splits)
    then show ?thesis using that [of "w\<lparr>tw_builder := tw_builder w @ i, tw_line_start := False\<rparr>" "nat ?i"] True i ne w(3)
      by (simp add: tw_write_text_def spaces)
  next
    case False
    then show ?thesis using that [of w 0] ne w(3) by (simp add: tw_write_text_def)
  qed
  let ?w1 = "w0\<lparr>tw_builder := tw_builder w0 @ enc ds, tw_last_written := enc ds\<rparr>" and ?sp = "replicate n 32"
  have whole: "ends_whole (cs @ ?sp)" using w(2) spaces(4) [of n] by (cases n) (auto simp: ends_whole_def last_append)
  have ls: "later_starts 0 (cs @ ?sp) = later_starts 0 cs" "starts_of (cs @ ?sp) = starts_of cs"
    using ends_whole_append [OF w(2)] by (simp_all add: spaces starts_of_def)
  have pre: "tw_builder ?w1 = enc ((cs @ ?sp) @ ds)" "tw_line_count ?w1 = wrap32 (int (length (later_starts 0 (cs @ ?sp))))"
      "tw_line_pos ?w1 = last (starts_of (cs @ ?sp))"
    using n assms(1) ls by (simp_all add: written_def)
  obtain w2 where w2: "update_line_count_and_pos_for (enc ds) ?w1 = Some w2"
      "tw_line_count w2 = wrap32 (int (length (later_starts 0 ((cs @ ?sp) @ ds))))" "tw_line_pos w2 = last (starts_of ((cs @ ?sp) @ ds))"
      "tw_line_start w2 \<longrightarrow> tw_line_pos w2 = length (enc ((cs @ ?sp) @ ds))" "tw_builder w2 = tw_builder ?w1" "tw_new_line w2 = tw_new_line ?w1"
    using update_line_count [OF whole assms(3,5) pre] by metis
  have "w2 = w'" using w2(1) n(1) assms(2) by simp
  then show thesis using that [of ?w1 n] w2 pre(1) n(5-7) by simp
qed

lemma written_write:
  assumes "written cs w" "tw_write_text s w = Some w'" "s = enc ds" "writable ds"
  shows "\<exists>cs'. written cs' w'"
proof (cases "ds = []")
  case True
  then show ?thesis using assms by (auto simp: tw_write_text_def)
next
  case False
  have ds: "runes ds" "ends_whole ds" "int (length (enc ds)) < 2 ^ 31 - 1" using assms(4) by (simp_all add: writable_def)
  obtain n where n: "tw_builder w' = enc ((cs @ replicate n 32) @ ds)" "tw_line_count w' = wrap32 (int (length (later_starts 0 ((cs @ replicate n 32) @ ds))))"
    "tw_line_pos w' = last (starts_of ((cs @ replicate n 32) @ ds))"
    "tw_line_start w' \<longrightarrow> tw_line_pos w' = length (enc ((cs @ replicate n 32) @ ds))" "tw_new_line w' = tw_new_line w"
    using written_text [OF assms(1) _ ds(1) False ds(3)] assms(2,3) by metis
  have "ends_whole ((cs @ replicate n 32) @ ds)" using ds(2) False by (simp add: ends_whole_def)
  then have "written ((cs @ replicate n 32) @ ds) w'"
    using n assms(1) ds(1) spaces(1) by (simp add: written_def del: append_assoc)
  then show ?thesis by blast
qed

lemma written_cong: "written cs (w\<lparr>tw_trailing_comment := b\<rparr>) \<longleftrightarrow> written cs w" "written cs (w\<lparr>tw_indent := i\<rparr>) \<longleftrightarrow> written cs w"
  by (simp_all add: written_def)

lemma written_new_line: "written cs w \<Longrightarrow> \<exists>cs'. written cs' (tw_write_line_raw w)"
proof -
  assume a: "written cs w"
  have lf: "utf8_encode 10 = [CHR 0x0A]" "utf8_encode 13 = [CHR 0x0D]" by code_simp+
  obtain nl where nl: "tw_new_line w = enc nl" "nl = [10] \<or> nl = [13, 10]"
    using a by (auto simp: written_def lf intro: that [of "[10]"] that [of "[13, 10]"])
  have l: "later_starts 0 nl = [length (enc nl)]" "runes nl" using nl(2) by (auto simp: is_line_break_def len_utf8_def is_scalar_def)
  have w: "runes cs" "ends_whole cs" "tw_builder w = enc cs" "tw_line_count w = wrap32 (int (length (later_starts 0 cs)))"
    using a by (simp_all add: written_def)
  have e: "ends_whole (cs @ nl)" "runes (cs @ nl)" using nl(2) l(2) w(1) by (auto simp: ends_whole_def)
  have "starts_of (cs @ nl) = starts_of cs @ [length (enc (cs @ nl))]"
    "later_starts 0 (cs @ nl) = later_starts 0 cs @ [length (enc (cs @ nl))]"
    using starts_of_append [OF w(2), of nl] ends_whole_append [OF w(2), of 0 nl] later_starts_shift [of "length (enc cs)" 0 nl] l(1) by simp_all
  moreover have "wrap32 (tw_line_count w + 1) = wrap32 (int (length (later_starts 0 cs)) + 1)" using w(4) wrap32_add by simp
  ultimately have "written (cs @ nl) (tw_write_line_raw w)"
    using a e w(3) nl(1) by (simp add: written_def tw_write_line_raw_def Let_def add.commute)
  then show ?thesis by blast
qed

lemma written_clear: "written cs w \<Longrightarrow> written [] (tw_clear w)"
  by (simp add: written_def tw_clear_def ends_whole_def starts_of_def is_i32_def)

lemma ends_whole_both: "ends_whole us \<Longrightarrow> ends_whole vs \<Longrightarrow> ends_whole (us @ vs)"
  by (cases "vs = []") (auto simp: ends_whole_def)

lemma written_apply_op:
  assumes "written cs w" "apply_op op w = Some w'" "op_text op = enc ds" "writable ds"
  shows "\<exists>cs'. written cs' w'"
proof (cases op)
  case (Write k s)
  then have "tw_write_text s (if s \<noteq> [] then w\<lparr>tw_trailing_comment := False\<rparr> else w) = Some w'"
    using assms(2) by (simp add: tw_write_class_def tw_write_def)
  then show ?thesis using written_write [of cs "if s \<noteq> [] then w\<lparr>tw_trailing_comment := False\<rparr> else w" s w' ds] assms(1,3,4) Write
    by (simp add: written_cong)
next
  case (WriteComment s)
  then have "tw_write_text s (if s \<noteq> [] then w\<lparr>tw_trailing_comment := True\<rparr> else w) = Some w'"
    using assms(2) by (simp add: tw_write_comment_def)
  then show ?thesis using written_write [of cs "if s \<noteq> [] then w\<lparr>tw_trailing_comment := True\<rparr> else w" s w' ds] assms(1,3,4) WriteComment
    by (simp add: written_cong)
next
  case (RawWrite s)
  let ?w = "if s \<noteq> [] then w\<lparr>tw_builder := tw_builder w @ s, tw_last_written := s, tw_trailing_comment := False\<rparr> else w"
  have w: "ends_whole cs" "tw_builder ?w = enc (cs @ ds)" "tw_line_count ?w = wrap32 (int (length (later_starts 0 cs)))"
    "tw_line_pos ?w = last (starts_of cs)" "tw_new_line ?w = tw_new_line w" "runes cs"
    using assms(1,3) RawWrite by (simp_all add: written_def)
  have ds: "runes ds" "ends_whole ds" "int (length (enc ds)) < 2 ^ 31 - 1" using assms(4) by (simp_all add: writable_def)
  obtain w2 where w2: "update_line_count_and_pos_for (enc ds) ?w = Some w2"
    "tw_line_count w2 = wrap32 (int (length (later_starts 0 (cs @ ds))))" "tw_line_pos w2 = last (starts_of (cs @ ds))"
    "tw_line_start w2 \<longrightarrow> tw_line_pos w2 = length (enc (cs @ ds))" "tw_builder w2 = tw_builder ?w" "tw_new_line w2 = tw_new_line ?w"
    using update_line_count [OF w(1) ds(1,3) w(2-4)] by metis
  have "w2 = w'" using w2(1) assms(2,3) RawWrite by (simp add: tw_raw_write_def)
  moreover have "ends_whole (cs @ ds)" using w(1) ds(2) by (rule ends_whole_both)
  ultimately have "written (cs @ ds) w'" using w2 w ds assms(1) by (simp add: written_def)
  then show ?thesis by blast
next
  case WriteLine
  then show ?thesis using assms(1,2) written_new_line by (auto simp: tw_write_line_def split: if_splits)
next
  case (WriteLineForce b)
  then show ?thesis using assms(1,2) written_new_line by (auto simp: tw_write_line_force_def split: if_splits)
next
  case IncreaseIndent
  then have "w' = w\<lparr>tw_indent := wrap32 (tw_indent w + 1)\<rparr>" using assms(2) by (simp add: tw_increase_indent_def)
  then show ?thesis using assms(1) written_cong(2) by blast
next
  case DecreaseIndent
  then have "w' = w\<lparr>tw_indent := wrap32 (tw_indent w - 1)\<rparr>" using assms(2) by (simp add: tw_decrease_indent_def)
  then show ?thesis using assms(1) written_cong(2) by blast
next
  case Clear
  then show ?thesis using assms(1,2) written_clear by auto
qed

lemma written_apply_ops:
  "written cs w \<Longrightarrow> apply_ops ops w = Some w' \<Longrightarrow> \<forall>op\<in>set ops. \<exists>ds. op_text op = enc ds \<and> writable ds \<Longrightarrow> \<exists>cs'. written cs' w'"
proof (induction ops arbitrary: cs w)
  case (Cons op ops)
  obtain w1 where w1: "apply_op op w = Some w1" "apply_ops ops w1 = Some w'" using Cons.prems(2) by (auto split: bind_splits)
  obtain cs1 where "written cs1 w1" using written_apply_op [OF Cons.prems(1) w1(1)] Cons.prems(3) by auto
  then show ?case using Cons.IH w1(2) Cons.prems(3) by simp
qed auto

lemma written_new: "nl \<in> {[CHR 0x0A], [CHR 0x0D, CHR 0x0A]} \<Longrightarrow> written [] (new_text_writer nl indent_size)"
  by (simp add: written_def new_text_writer_def tw_clear_def ends_whole_def starts_of_def is_i32_def)

text \<open>The line of a position right after which the next line starts only later.\<close>

lemma last_line_index:
  assumes "sorted_wrt (<) (xs @ zs)" "xs \<noteq> []" "last xs \<le> p" "\<forall>z\<in>set zs. p < z" "k < length (xs @ zs)" "(xs @ zs) ! k \<le> p"
    "k + 1 < length (xs @ zs) \<Longrightarrow> p < (xs @ zs) ! (k + 1)"
  shows "k = length xs - 1 \<and> (xs @ zs) ! k = last (xs :: nat list)"
proof -
  have "k < length xs"
  proof (rule ccontr)
    assume "\<not> k < length xs"
    then have "(xs @ zs) ! k \<in> set zs" using assms(5) by (auto simp: nth_append)
    then show False using assms(4,6) by fastforce
  qed
  moreover have "\<not> k + 1 < length xs"
  proof
    assume k: "k + 1 < length xs"
    have "(xs @ zs) ! (k + 1) \<le> last xs"
    proof (cases "k + 1 = length xs - 1")
      case True
      then show ?thesis using assms(2) k by (simp add: nth_append last_conv_nth)
    next
      case False
      then have "(xs @ zs) ! (k + 1) < (xs @ zs) ! (length xs - 1)"
        using sorted_wrt_nth_less [OF assms(1), of "k + 1" "length xs - 1"] k by simp
      then show ?thesis using assms(2) by (simp add: nth_append last_conv_nth)
    qed
    then show False using assms(3,7) k by simp
  qed
  ultimately have "k = length xs - 1" by linarith
  then show ?thesis using assms(2) \<open>k < length xs\<close> by (simp add: nth_append last_conv_nth)
qed

lemma prefixes_equal: "us @ vs = us' @ vs' \<Longrightarrow> length (enc us) = length (enc us') \<Longrightarrow> us = us'"
  using prefixes_by_length [of us vs us' vs'] by auto

lemma update_builder: "update_line_count_and_pos_for s w = Some w' \<Longrightarrow> tw_builder w' = tw_builder w"
  by (auto simp: update_line_count_and_pos_for_def Let_def split: option.splits if_splits)

lemma tw_write_text_builder:
  "tw_write_text s w = Some w' \<Longrightarrow> \<exists>n. tw_builder w' = tw_builder w @ replicate n (CHR '' '') @ s"
  by (auto simp: tw_write_text_def get_indent_string_def Let_def dest!: update_builder split: if_splits bind_splits
      intro: exI [of _ 0])



text \<open>Without the condition a carriage return and a line feed that are written apart count as two lines.\<close>

lemma divided_line_break:
  "map_option tw_line_count (apply_ops [RawWrite [CHR ''a'', CHR 0x0D], RawWrite [CHR 0x0A, CHR ''b'']] (new_text_writer [CHR 0x0A] 4)) = Some 2"
  by code_simp

section \<open>What every writer keeps\<close>

text \<open>The part of the interface of the writers by which their users put a text together.\<close>

fun write_all :: "(text_class \<Rightarrow> string \<Rightarrow> 'w \<Rightarrow> 'w option) \<Rightarrow> (text_class \<times> string) list \<Rightarrow> 'w \<Rightarrow> 'w option" where
  "write_all write_class [] w = Some w"
| "write_all write_class ((k, s) # rest) w = Option.bind (write_class k s w) (write_all write_class rest)"

definition ink :: "string \<Rightarrow> string" where
  "ink s = filter (\<lambda>c. c \<noteq> CHR '' '') s"

lemma ink_simps [simp]: "ink [] = []" "ink (s @ t) = ink s @ ink t" "ink (replicate n (CHR '' '')) = []"
  by (simp_all add: ink_def)

locale emit_text_writer =
  fixes content :: "'w \<Rightarrow> string" and write_class :: "text_class \<Rightarrow> string \<Rightarrow> 'w \<Rightarrow> 'w option"
  assumes write_appends: "write_class k s w = Some w' \<Longrightarrow> \<exists>n. content w' = content w @ replicate n (CHR '' '') @ s"
begin

lemma all_written: "write_all write_class ts w = Some w' \<Longrightarrow> ink (content w') = ink (content w) @ ink (concat (map snd ts))"
proof (induction ts arbitrary: w)
  case (Cons t ts)
  obtain k s where t: "t = (k, s)" by fastforce
  obtain w1 where w1: "write_class k s w = Some w1" "write_all write_class ts w1 = Some w'"
    using Cons.prems t by (auto split: bind_splits)
  then show ?case using Cons.IH write_appends [OF w1(1)] t by auto
qed simp

end

interpretation text_writer: emit_text_writer tw_builder tw_write_class
proof
  fix k s w w'
  assume "tw_write_class k s w = Some w'"
  then show "\<exists>n. tw_builder w' = tw_builder w @ replicate n (CHR '' '') @ s"
    using tw_write_text_builder [of s "if s \<noteq> [] then w\<lparr>tw_trailing_comment := False\<rparr> else w" w']
    by (simp add: tw_write_class_def tw_write_def split: if_splits)
qed

interpretation single_line: emit_text_writer sl_builder "\<lambda>k s w. Some (sl_write_class k s w)"
  by unfold_locales (auto simp: sl_write_class_def sl_write_raw_text_def intro: exI [of _ 0])

text \<open>The two writers agree on what they are given up to spaces.\<close>

lemma writers_agree:
  "write_all tw_write_class ts w = Some w' \<Longrightarrow> tw_builder w = [] \<Longrightarrow> sl_builder v = [] \<Longrightarrow>
     write_all (\<lambda>k s w. Some (sl_write_class k s w)) ts v = Some v' \<Longrightarrow> ink (tw_builder w') = ink (sl_builder v')"
  using text_writer.all_written single_line.all_written by simp

text \<open>A writer from the pool is empty whatever was written with the writers that went back to it.\<close>

lemma pooled_writer_empty:
  "fst (get_single_line_string_writer pool) = \<lparr>sl_builder = [], sl_last_written = []\<rparr>"
  by (simp add: get_single_line_string_writer_def sl_clear_def)

end
