(* ===== verification/ChangeTracker.thy ===== *)
theory ChangeTracker
  imports TextWriter
begin

text \<open>
  The writer of the change tracker (\<open>crates/ts-printer/src/changetrackerwriter.rs\<close>): a text writer that remembers
  where the last text that is not trivia ended, and records this position before and after the printing of nodes,
  node lists and tokens, which are the keys \<open>'k\<close>. The traversal that gives these positions to the nodes of a new
  syntax tree is not modelled.
\<close>

record 'k change_tracker =
  ct_writer :: text_writer
  ct_last :: int
  ct_pos :: "'k \<Rightarrow> int option"
  ct_end :: "'k \<Rightarrow> int option"

definition new_change_tracker_writer :: "string \<Rightarrow> int \<Rightarrow> 'k change_tracker" where
  "new_change_tracker_writer nl indent_size =
     \<lparr>ct_writer = tw_clear (new_with_indent_size nl (if indent_size < 0 then DEFAULT_INDENT_SIZE else indent_size)),
      ct_last = 0, ct_pos = \<lambda>_. None, ct_end = \<lambda>_. None\<rparr>"

definition set_pos :: "'k \<Rightarrow> 'k change_tracker \<Rightarrow> 'k change_tracker" where
  "set_pos k t = t\<lparr>ct_pos := (ct_pos t)(k := Some (ct_last t))\<rparr>"

definition set_end :: "'k \<Rightarrow> 'k change_tracker \<Rightarrow> 'k change_tracker" where
  "set_end k t = t\<lparr>ct_end := (ct_end t)(k := Some (ct_last t))\<rparr>"

text \<open>The loop that leaves trailing white space out.\<close>

function trim_end_loop :: "string \<Rightarrow> nat \<Rightarrow> nat option" where
  "trim_end_loop s pos =
     (if pos > 0 then
        case str_slice s 0 pos of
          None \<Rightarrow> None
        | Some t \<Rightarrow>
            (if chars_of t = [] then Some pos
             else if is_white_space_like (last (chars_of t)) then trim_end_loop s (pos - len_utf8 (last (chars_of t)))
             else Some pos)
      else Some pos)"
  by pat_completeness auto
termination by (relation "measure (\<lambda>(s, pos). pos)") auto

declare trim_end_loop.simps [simp del]

definition set_last_non_trivia_position :: "string \<Rightarrow> bool \<Rightarrow> 'k change_tracker \<Rightarrow> 'k change_tracker option" where
  "set_last_non_trivia_position s force t =
     Option.bind (if force then Some True else map_option (\<lambda>p. p \<noteq> length s) (skip_trivia s 0))
       (\<lambda>moves. if moves then
            map_option (\<lambda>pos. t\<lparr>ct_last := wrap32 (tw_get_text_pos (ct_writer t) - wrap32 (int (length s - pos)))\<rparr>)
              (trim_end_loop s (length s))
          else Some t)"

definition on_writer :: "(text_writer \<Rightarrow> text_writer) \<Rightarrow> 'k change_tracker \<Rightarrow> 'k change_tracker" where
  "on_writer f t = t\<lparr>ct_writer := f (ct_writer t)\<rparr>"

definition ct_write_class :: "text_class \<Rightarrow> string \<Rightarrow> 'k change_tracker \<Rightarrow> 'k change_tracker option" where
  "ct_write_class k s t =
     Option.bind (tw_write_class k s (ct_writer t))
       (\<lambda>w. set_last_non_trivia_position s (k = Literal) (t\<lparr>ct_writer := w\<rparr>))"

definition ct_write_comment :: "string \<Rightarrow> 'k change_tracker \<Rightarrow> 'k change_tracker option" where
  "ct_write_comment s t = map_option (\<lambda>w. t\<lparr>ct_writer := w\<rparr>) (tw_write_comment s (ct_writer t))"

definition ct_raw_write :: "string \<Rightarrow> 'k change_tracker \<Rightarrow> 'k change_tracker option" where
  "ct_raw_write s t =
     Option.bind (tw_raw_write s (ct_writer t)) (\<lambda>w. set_last_non_trivia_position s False (t\<lparr>ct_writer := w\<rparr>))"

definition ct_clear :: "'k change_tracker \<Rightarrow> 'k change_tracker" where
  "ct_clear t = t\<lparr>ct_writer := tw_clear (ct_writer t), ct_last := 0\<rparr>"

datatype 'k tracker_op = Output writer_op | SetPos 'k | SetEnd 'k

fun track_op :: "'k tracker_op \<Rightarrow> 'k change_tracker \<Rightarrow> 'k change_tracker option" where
  "track_op (Output (Write k s)) t = ct_write_class k s t"
| "track_op (Output (WriteComment s)) t = ct_write_comment s t"
| "track_op (Output (RawWrite s)) t = ct_raw_write s t"
| "track_op (Output WriteLine) t = Some (on_writer tw_write_line t)"
| "track_op (Output (WriteLineForce b)) t = Some (on_writer (tw_write_line_force b) t)"
| "track_op (Output IncreaseIndent) t = Some (on_writer tw_increase_indent t)"
| "track_op (Output DecreaseIndent) t = Some (on_writer tw_decrease_indent t)"
| "track_op (Output Clear) t = Some (ct_clear t)"
| "track_op (SetPos k) t = Some (set_pos k t)"
| "track_op (SetEnd k) t = Some (set_end k t)"

fun track_ops :: "'k tracker_op list \<Rightarrow> 'k change_tracker \<Rightarrow> 'k change_tracker option" where
  "track_ops [] t = Some t"
| "track_ops (op # ops) t = Option.bind (track_op op t) (track_ops ops)"

section \<open>The positions\<close>

definition strip_end :: "rune list \<Rightarrow> rune list" where
  "strip_end cs = rev (dropWhile is_white_space_like (rev cs))"

lemma trim_end_loop_enc: "runes (us @ vs) \<Longrightarrow> trim_end_loop (enc (us @ vs)) (length (enc us)) = Some (length (enc (strip_end us)))"
proof (induction us arbitrary: vs rule: rev_induct)
  case Nil
  then show ?case by (subst trim_end_loop.simps) (simp add: strip_end_def)
next
  case (snoc c us)
  have sl: "str_slice (enc ((us @ [c]) @ vs)) 0 (length (enc (us @ [c]))) = Some (enc (us @ [c]))"
    using str_slice_enc [of "[]" "us @ [c]" vs] snoc.prems by simp
  have ch: "chars_of (enc (us @ [c])) = us @ [c]" using snoc.prems by (intro chars_of_enc) simp
  have pos: "0 < length (enc (us @ [c]))" by (simp add: len_utf8_pos)
  have less: "length (enc (us @ [c])) - len_utf8 c = length (enc us)" by simp
  show ?case
  proof (cases "is_white_space_like c")
    case True
    then have "trim_end_loop (enc ((us @ [c]) @ vs)) (length (enc (us @ [c]))) = trim_end_loop (enc ((us @ [c]) @ vs)) (length (enc us))"
      using pos sl ch less by (subst trim_end_loop.simps) (simp del: enc_simps)
    then show ?thesis using snoc.IH [of "c # vs"] snoc.prems True by (simp add: strip_end_def)
  next
    case False
    then show ?thesis using pos sl ch by (subst trim_end_loop.simps) (simp del: enc_simps add: strip_end_def)
  qed
qed

lemma strip_end_prefix: "\<exists>ws. cs = strip_end cs @ ws"
proof
  show "cs = strip_end cs @ rev (takeWhile is_white_space_like (rev cs))"
    unfolding strip_end_def rev_append [symmetric] by simp
qed

text \<open>A position between two characters of the text.\<close>

definition is_place :: "rune list \<Rightarrow> int \<Rightarrow> bool" where
  "is_place cs p \<longleftrightarrow> (\<exists>us vs. cs = us @ vs \<and> p = int (length (enc us)))"

lemma is_place_append: "is_place cs p \<Longrightarrow> is_place (cs @ ds) p"
  unfolding is_place_def by (metis append.assoc)

lemma is_place_bounds: "is_place cs p \<Longrightarrow> 0 \<le> p \<and> p \<le> int (length (enc cs))"
  by (auto simp: is_place_def)

lemma is_place_boundary: "runes cs \<Longrightarrow> is_place cs p \<Longrightarrow> is_char_boundary (enc cs) (nat p)"
  using enc_boundary by (auto simp: is_place_def) (metis append_eq_conv_conj enc_simps(3) runes_simps(3))

definition tracked :: "rune list \<Rightarrow> 'k change_tracker \<Rightarrow> bool" where
  "tracked cs t \<longleftrightarrow> runes cs \<and> tw_builder (ct_writer t) = enc cs \<and> valid_text (tw_new_line (ct_writer t)) \<and> is_place cs (ct_last t)
     \<and> (\<forall>p\<in>ran (ct_pos t) \<union> ran (ct_end t). is_place cs p \<and> p \<le> ct_last t)"

lemma set_last_place:
  assumes "set_last_non_trivia_position (enc ds) force t = Some t'" "tw_builder (ct_writer t) = enc (as @ ds)" "runes (as @ ds)"
    and "length (enc (as @ ds)) < 2 ^ 31" "is_place as (ct_last t)"
  shows "ct_writer t' = ct_writer t" "ct_pos t' = ct_pos t" "ct_end t' = ct_end t" "is_place (as @ ds) (ct_last t')" "ct_last t \<le> ct_last t'"
proof -
  have r: "trim_end_loop (enc ds) (length (enc ds)) = Some (length (enc (strip_end ds)))"
    using trim_end_loop_enc [of ds "[]"] assms(3) by simp
  obtain ws where ws: "ds = strip_end ds @ ws" using strip_end_prefix by blast
  let ?n = "length (enc (strip_end ds))" and ?p = "int (length (enc (as @ strip_end ds)))"
  have le: "?n \<le> length (enc ds)" by (subst (2) ws) simp
  have "wrap32 (tw_get_text_pos (ct_writer t) - wrap32 (int (length (enc ds) - ?n))) = ?p"
    using assms(2,4) le by (simp add: tw_get_text_pos_def is_i32_def)
  then have "t' = t \<or> t' = t\<lparr>ct_last := ?p\<rparr>"
    using assms(1) r by (auto simp: set_last_non_trivia_position_def split: bind_splits if_splits)
  moreover have "is_place (as @ ds) ?p" unfolding is_place_def using ws by (metis append.assoc)
  moreover have "ct_last t \<le> ?p" using is_place_bounds [OF assms(5)] by simp
  ultimately show "ct_writer t' = ct_writer t" "ct_pos t' = ct_pos t" "ct_end t' = ct_end t" "is_place (as @ ds) (ct_last t')"
    "ct_last t \<le> ct_last t'"
    using is_place_append [OF assms(5)] by auto
qed

lemma tracked_output:
  assumes "tracked cs t" "ct_writer t' = w" "ct_pos t' = ct_pos t" "ct_end t' = ct_end t" "tw_builder w = enc (cs @ ds)" "runes ds"
    "tw_new_line w = tw_new_line (ct_writer t)" "is_place (cs @ ds) (ct_last t')" "ct_last t \<le> ct_last t'"
  shows "tracked (cs @ ds) t' \<and> ct_last t \<le> ct_last t'"
  unfolding tracked_def
proof (intro conjI ballI)
  fix p
  assume "p \<in> ran (ct_pos t') \<union> ran (ct_end t')"
  then have "is_place cs p" "p \<le> ct_last t" using assms(1,3,4) by (auto simp: tracked_def)
  then show "is_place (cs @ ds) p" "p \<le> ct_last t'" using is_place_append assms(9) by auto
qed (use assms in \<open>simp_all add: tracked_def\<close>)

lemma tracked_record:
  assumes "tracked cs t"
  shows "tracked cs (set_pos k t)" "tracked cs (set_end k t)"
proof -
  have r: "p = v \<or> p \<in> ran m" if "p \<in> ran (m(k := Some v))" for p v and m :: "'a \<Rightarrow> int option"
    using that by (auto simp: ran_def split: if_splits)
  show "tracked cs (set_pos k t)" "tracked cs (set_end k t)"
    using assms r [of _ "ct_pos t" "ct_last t"] r [of _ "ct_end t" "ct_last t"] unfolding tracked_def set_pos_def set_end_def by auto
qed

lemma update_new_line: "update_line_count_and_pos_for s w = Some w' \<Longrightarrow> tw_new_line w' = tw_new_line w"
  by (auto simp: update_line_count_and_pos_for_def Let_def split: option.splits if_splits)

lemma tw_write_text_new_line: "tw_write_text s w = Some w' \<Longrightarrow> tw_new_line w' = tw_new_line w"
  by (auto simp: tw_write_text_def dest!: update_new_line split: if_splits bind_splits)

lemma tw_write_builder:
  assumes "tw_write s w = Some w'"
  shows "\<exists>n. tw_builder w' = tw_builder w @ replicate n (CHR '' '') @ s" "tw_new_line w' = tw_new_line w"
  using tw_write_text_builder [OF assms [unfolded tw_write_def]] tw_write_text_new_line [OF assms [unfolded tw_write_def]]
  by (simp_all split: if_splits)

lemma tw_write_comment_builder:
  assumes "tw_write_comment s w = Some w'"
  shows "\<exists>n. tw_builder w' = tw_builder w @ replicate n (CHR '' '') @ s" "tw_new_line w' = tw_new_line w"
  using tw_write_text_builder [OF assms [unfolded tw_write_comment_def]] tw_write_text_new_line [OF assms [unfolded tw_write_comment_def]]
  by (simp_all split: if_splits)

lemma tw_raw_write_builder:
  assumes "tw_raw_write s w = Some w'"
  shows "tw_builder w' = tw_builder w @ s" "tw_new_line w' = tw_new_line w"
  using update_builder [OF assms [unfolded tw_raw_write_def]] update_new_line [OF assms [unfolded tw_raw_write_def]]
  by (simp_all split: if_splits)

lemma line_builder:
  "tw_new_line (tw_write_line w) = tw_new_line w" "tw_new_line (tw_write_line_force b w) = tw_new_line w"
  "tw_builder (tw_write_line w) \<in> {tw_builder w, tw_builder w @ tw_new_line w}"
  "tw_builder (tw_write_line_force b w) \<in> {tw_builder w, tw_builder w @ tw_new_line w}"
  by (simp_all add: tw_write_line_def tw_write_line_force_def tw_write_line_raw_def Let_def)

lemma tracked_op:
  fixes t t' :: "'k change_tracker"
  assumes "tracked cs t" "track_op op t = Some t'" "op \<noteq> Output Clear" "\<And>wop. op = Output wop \<Longrightarrow> valid_text (op_text wop)"
    "length (tw_builder (ct_writer t')) < 2 ^ 31"
  shows "\<exists>ds. tracked (cs @ ds) t' \<and> ct_last t \<le> ct_last t'"
proof -
  have t: "runes cs" "tw_builder (ct_writer t) = enc cs" "is_place cs (ct_last t)" using assms(1) by (simp_all add: tracked_def)
  have still: ?thesis if "ct_writer t' = w" "ct_last t' = ct_last t" "ct_pos t' = ct_pos t" "ct_end t' = ct_end t"
    "tw_builder w = tw_builder (ct_writer t) @ enc ds" "runes ds" "tw_new_line w = tw_new_line (ct_writer t)" for w ds
    using tracked_output [OF assms(1) that(1,3,4) _ that(6,7)] that(2,5) t(2,3) is_place_append by auto
  have written: ?thesis if "set_last_non_trivia_position (enc ds) force (t\<lparr>ct_writer := w\<rparr>) = Some t'"
      "tw_builder w = tw_builder (ct_writer t) @ replicate n (CHR '' '') @ enc ds" "runes ds" "tw_new_line w = tw_new_line (ct_writer t)"
    for ds force w n
  proof -
    have b: "tw_builder (ct_writer (t\<lparr>ct_writer := w\<rparr>)) = enc ((cs @ replicate n 32) @ ds)" using that(2) t(2) by (simp add: spaces)
    have r: "runes ((cs @ replicate n 32) @ ds)" using t(1) that(3) spaces(1) by simp
    have w': "ct_writer t' = w"
      using that(1) by (auto simp: set_last_non_trivia_position_def split: bind_splits if_splits)
    then have len: "length (enc ((cs @ replicate n 32) @ ds)) < 2 ^ 31" using assms(5) b by simp
    have pl: "is_place (cs @ replicate n 32) (ct_last (t\<lparr>ct_writer := w\<rparr>))" using is_place_append t(3) by simp
    note s = set_last_place [OF that(1) b r len pl]
    show ?thesis using tracked_output [OF assms(1) w', of "replicate n 32 @ ds"] s b that(3,4) spaces(1) by auto
  qed
  show ?thesis
  proof (cases op)
    case (Output wop)
    obtain ds where ds: "op_text wop = enc ds" "runes ds" using assms(4) [OF Output] by (auto simp: valid_text_def)
    show ?thesis
    proof (cases wop)
      case (Write k s)
      then obtain w where w: "tw_write s (ct_writer t) = Some w" "set_last_non_trivia_position s (k = Literal) (t\<lparr>ct_writer := w\<rparr>) = Some t'"
        using assms(2) Output by (auto simp: ct_write_class_def tw_write_class_def split: bind_splits)
      then show ?thesis using written [of ds _ w] tw_write_builder [OF w(1)] ds Write by auto
    next
      case (WriteComment s)
      then obtain w where w: "tw_write_comment s (ct_writer t) = Some w" "t' = t\<lparr>ct_writer := w\<rparr>"
        using assms(2) Output by (auto simp: ct_write_comment_def)
      obtain n where "tw_builder w = tw_builder (ct_writer t) @ enc (replicate n 32 @ ds)"
        using tw_write_comment_builder(1) [OF w(1)] ds WriteComment by (auto simp: spaces)
      then show ?thesis using still [of w "replicate n 32 @ ds"] tw_write_comment_builder(2) [OF w(1)] w(2) ds spaces(1) by simp
    next
      case (RawWrite s)
      then obtain w where w: "tw_raw_write s (ct_writer t) = Some w" "set_last_non_trivia_position s False (t\<lparr>ct_writer := w\<rparr>) = Some t'"
        using assms(2) Output by (auto simp: ct_raw_write_def split: bind_splits)
      then show ?thesis using written [of ds False w 0] tw_raw_write_builder [OF w(1)] ds RawWrite by auto
    next
      case WriteLine
      obtain nl where "tw_new_line (ct_writer t) = enc nl" "runes nl" using assms(1) by (auto simp: tracked_def valid_text_def)
      then show ?thesis using still [of "tw_write_line (ct_writer t)" "[]"] still [of "tw_write_line (ct_writer t)" nl] 
          line_builder(1,3) [of "ct_writer t"] assms(2) Output WriteLine by (auto simp: on_writer_def)
    next
      case (WriteLineForce b)
      obtain nl where "tw_new_line (ct_writer t) = enc nl" "runes nl" using assms(1) by (auto simp: tracked_def valid_text_def)
      then show ?thesis using still [of "tw_write_line_force b (ct_writer t)" "[]"] still [of "tw_write_line_force b (ct_writer t)" nl] 
          line_builder(2,4) [of b "ct_writer t"] assms(2) Output WriteLineForce by (auto simp: on_writer_def)
    next
      case IncreaseIndent
      then show ?thesis using still [of "tw_increase_indent (ct_writer t)" "[]"] assms(2) Output by (auto simp: on_writer_def tw_increase_indent_def)
    next
      case DecreaseIndent
      then show ?thesis using still [of "tw_decrease_indent (ct_writer t)" "[]"] assms(2) Output by (auto simp: on_writer_def tw_decrease_indent_def)
    next
      case Clear
      then show ?thesis using assms(3) Output by simp
    qed
  next
    case (SetPos k)
    then show ?thesis using assms(1,2) tracked_record(1) [of cs t k] by (intro exI [of _ "[]"]) (auto simp: set_pos_def)
  next
    case (SetEnd k)
    then show ?thesis using assms(1,2) tracked_record(2) [of cs t k] by (intro exI [of _ "[]"]) (auto simp: set_end_def)
  qed
qed

definition printing :: "'k tracker_op list \<Rightarrow> bool" where
  "printing ops \<longleftrightarrow> Output Clear \<notin> set ops \<and> (\<forall>wop. Output wop \<in> set ops \<longrightarrow> valid_text (op_text wop))"

lemma builder_grows: "track_op op t = Some t' \<Longrightarrow> op \<noteq> Output Clear \<Longrightarrow> length (tw_builder (ct_writer t)) \<le> length (tw_builder (ct_writer t'))"
proof -
  have last: "ct_writer t1 = ct_writer t0" if "set_last_non_trivia_position s f t0 = Some t1" for s f and t0 t1 :: "'a change_tracker"
    using that by (auto simp: set_last_non_trivia_position_def split: bind_splits if_splits)
  assume a: "track_op op t = Some t'" "op \<noteq> Output Clear"
  show ?thesis
  proof (cases op)
    case (Output wop)
    show ?thesis
    proof (cases wop)
      case (Write k s)
      then show ?thesis using a Output last tw_write_builder(1)
        by (fastforce simp: ct_write_class_def tw_write_class_def split: bind_splits)
    next
      case (WriteComment s)
      then show ?thesis using a Output tw_write_comment_builder(1) by (fastforce simp: ct_write_comment_def)
    next
      case (RawWrite s)
      then show ?thesis using a Output last tw_raw_write_builder(1) by (fastforce simp: ct_raw_write_def split: bind_splits)
    next
      case WriteLine
      then show ?thesis using a Output line_builder(3) [of "ct_writer t"] by (auto simp: on_writer_def)
    next
      case (WriteLineForce b)
      then show ?thesis using a Output line_builder(4) [of b "ct_writer t"] by (auto simp: on_writer_def)
    qed (use a Output in \<open>auto simp: on_writer_def tw_increase_indent_def tw_decrease_indent_def\<close>)
  qed (use a in \<open>auto simp: set_pos_def set_end_def\<close>)
qed

lemma track_ops_append: "track_ops (xs @ ys) t = Option.bind (track_ops xs t) (track_ops ys)"
  by (induction xs arbitrary: t) (auto split: bind_splits)

lemma ops_grow:
  "track_ops ops t = Some t' \<Longrightarrow> Output Clear \<notin> set ops \<Longrightarrow> length (tw_builder (ct_writer t)) \<le> length (tw_builder (ct_writer t'))"
proof (induction ops arbitrary: t)
  case (Cons op ops)
  obtain t1 where t1: "track_op op t = Some t1" "track_ops ops t1 = Some t'" using Cons.prems(1) by (auto split: bind_splits)
  then show ?case using Cons.IH builder_grows [OF t1(1)] Cons.prems(2) by fastforce
qed simp

lemma tracked_ops:
  "tracked cs t \<Longrightarrow> track_ops ops t = Some t' \<Longrightarrow> printing ops \<Longrightarrow> length (tw_builder (ct_writer t')) < 2 ^ 31 \<Longrightarrow>
     (\<exists>ds. tracked (cs @ ds) t') \<and> ct_last t \<le> ct_last t'"
proof (induction ops arbitrary: cs t)
  case Nil
  then show ?case by (auto intro: exI [of _ "[]"])
next
  case (Cons op ops)
  obtain t1 where t1: "track_op op t = Some t1" "track_ops ops t1 = Some t'" using Cons.prems(2) by (auto split: bind_splits)
  have p: "op \<noteq> Output Clear" "\<And>wop. op = Output wop \<Longrightarrow> valid_text (op_text wop)" "printing ops"
    using Cons.prems(3) by (auto simp: printing_def)
  have "length (tw_builder (ct_writer t1)) < 2 ^ 31" using ops_grow [OF t1(2)] p(3) Cons.prems(4) by (simp add: printing_def)
  then obtain ds where ds: "tracked (cs @ ds) t1" "ct_last t \<le> ct_last t1" using tracked_op [OF Cons.prems(1) t1(1) p(1,2)] by blast
  then show ?case using Cons.IH [OF ds(1) t1(2) p(3) Cons.prems(4)] by fastforce
qed

lemma tracked_new: "valid_text nl \<Longrightarrow> tracked [] (new_change_tracker_writer nl indent_size)"
  by (simp add: tracked_def new_change_tracker_writer_def new_with_indent_size_def tw_clear_def is_place_def)

lemma kept_pos: "track_ops ops t = Some t' \<Longrightarrow> SetPos k \<notin> set ops \<Longrightarrow> ct_pos t' k = ct_pos t k"
proof (induction ops arbitrary: t)
  case (Cons op ops)
  obtain t1 where t1: "track_op op t = Some t1" "track_ops ops t1 = Some t'" using Cons.prems(1) by (auto split: bind_splits)
  have last: "ct_pos t1 = ct_pos t0" if "set_last_non_trivia_position s f t0 = Some t1" for s f and t0 t1 :: "'a change_tracker"
    using that by (auto simp: set_last_non_trivia_position_def split: bind_splits if_splits)
  have "ct_pos t1 k = ct_pos t k"
    using t1(1) Cons.prems(2)
    by (cases "(op, t)" rule: track_op.cases)
      (auto simp: ct_write_class_def ct_write_comment_def ct_raw_write_def on_writer_def ct_clear_def set_pos_def set_end_def
        dest!: last split: bind_splits)
  then show ?case using Cons.IH [OF t1(2)] Cons.prems(2) by simp
qed simp

text \<open>The positions of a printed node. When the printer, after any output, reports the start of a node, writes and
  reports anything but the start of the same node, and reports its end, the recorded start and end are positions between
  characters of the text written so far, in order.\<close>

theorem node_positions_in_order:
  assumes "valid_text nl" "printing (before @ [SetPos k] @ inner @ [SetEnd k])" "SetPos k \<notin> set inner"
    and "track_ops (before @ [SetPos k] @ inner @ [SetEnd k]) (new_change_tracker_writer nl indent_size) = Some t"
    and "length (tw_builder (ct_writer t)) < 2 ^ 31"
  shows "\<exists>p e. ct_pos t k = Some p \<and> ct_end t k = Some e \<and> 0 \<le> p \<and> p \<le> e
    \<and> is_char_boundary (tw_builder (ct_writer t)) (nat p) \<and> is_char_boundary (tw_builder (ct_writer t)) (nat e)"
proof -
  obtain t1 t2 where t1: "track_ops before (new_change_tracker_writer nl indent_size) = Some t1"
    "track_ops inner (set_pos k t1) = Some t2" "t = set_end k t2"
    using assms(4) by (auto simp: track_ops_append split: bind_splits)
  have p: "printing before" "printing inner" using assms(2) by (auto simp: printing_def)
  have len: "length (tw_builder (ct_writer t2)) < 2 ^ 31" using assms(5) t1(3) by (simp add: set_end_def)
  then have len1: "length (tw_builder (ct_writer t1)) < 2 ^ 31" using ops_grow [OF t1(2)] p(2) by (simp add: printing_def set_pos_def)
  obtain cs where cs: "tracked cs t1" using tracked_ops [OF tracked_new [OF assms(1)] t1(1) p(1) len1] by auto
  obtain ds where ds: "tracked (cs @ ds) t2" "ct_last (set_pos k t1) \<le> ct_last t2"
    using tracked_ops [OF tracked_record(1) [OF cs] t1(2) p(2) len] by blast
  have pos: "ct_pos t k = Some (ct_last t1)" "ct_end t k = Some (ct_last t2)" "ct_last t1 \<le> ct_last t2"
    using kept_pos [OF t1(2) assms(3)] ds(2) t1(3) by (simp_all add: set_pos_def set_end_def)
  have t: "tracked (cs @ ds) t" using tracked_record(2) [OF ds(1)] t1(3) by simp
  then have "is_place (cs @ ds) (ct_last t1)" "is_place (cs @ ds) (ct_last t2)" using pos(1,2) by (auto simp: tracked_def ran_def)
  then show ?thesis using pos t is_place_bounds is_place_boundary unfolding tracked_def by metis
qed

theorem node_positions_in_order_witness:
  "\<exists>t p e. track_ops ([Output (Write Space '' '')] @ [SetPos ()] @ [Output (Write Keyword ''x ''), Output WriteLine] @ [SetEnd ()])
       (new_change_tracker_writer [CHR 0x0A] 2) = Some t
     \<and> ct_pos t () = Some p \<and> ct_end t () = Some e \<and> 0 \<le> p \<and> p \<le> e"
proof -
  let ?ops = "[Output (Write Space '' '')] @ [SetPos ()] @ [Output (Write Keyword ''x ''), Output WriteLine] @ [SetEnd ()]"
  define t where "t = the (track_ops ?ops (new_change_tracker_writer [CHR 0x0A] 2))"
  have 1: "track_ops ?ops (new_change_tracker_writer [CHR 0x0A] 2) = Some t" unfolding t_def by code_simp
  have 2: "length (tw_builder (ct_writer t)) < 2 ^ 31" unfolding t_def by code_simp
  have e: "enc [10] = [CHR 0x0A]" "enc [32] = '' ''" "enc [120, 32] = ''x ''" by code_simp+
  have "runes [10]" "runes [32]" "runes [120, 32]" by (simp_all add: is_scalar_def)
  then have v: "valid_text [CHR 0x0A]" "valid_text '' ''" "valid_text ''x ''" "valid_text []"
    using valid_text_enc [of "[10]"] valid_text_enc [of "[32]"] valid_text_enc [of "[120, 32]"] valid_text_enc [of "[]"] e
    by (simp_all del: enc_simps(2)) 
  then have "printing ?ops" by (auto simp: printing_def)
  then show ?thesis using node_positions_in_order [OF v(1) _ _ 1 2] 1 by auto
qed

end
