(* ===== verification/PositionMap.thy ===== *)
theory PositionMap
  imports Lines
begin

text \<open>
  The map between UTF-8 byte offsets and UTF-16 offsets of a text (\<open>crates/ts-ast/src/positionmap.rs\<close>). Offsets are
  \<open>i32\<close> and their arithmetic wraps.
\<close>

record position_map_entry =
  pe_utf8_pos :: int
  pe_delta :: int

record position_map =
  pm_ascii_only :: bool
  pm_entries :: "position_map_entry list"

text \<open>The loop over \<open>char_indices\<close>: \<open>i\<close> is the byte index of the first character.\<close>

fun position_map_loop :: "nat \<Rightarrow> int \<Rightarrow> rune list \<Rightarrow> position_map_entry list" where
  "position_map_loop i delta [] = []"
| "position_map_loop i delta (ch # cs) =
     (let size = int (len_utf8 ch) in
      if size = 1 then position_map_loop (i + len_utf8 ch) delta cs
      else
        let delta = wrap32 (delta + (size - int (len_utf16 ch))) in
        \<lparr>pe_utf8_pos = wrap32 (wrap32 (int i) + size), pe_delta = delta\<rparr> # position_map_loop (i + len_utf8 ch) delta cs)"

definition compute_position_map :: "string \<Rightarrow> position_map" where
  "compute_position_map t =
     (let entries = position_map_loop 0 0 (chars_of t) in \<lparr>pm_ascii_only = (entries = []), pm_entries = entries\<rparr>)"

text \<open>The binary search of both conversions, for the number of entries at or before the offset.\<close>

function entry_search :: "(position_map_entry \<Rightarrow> int) \<Rightarrow> position_map_entry list \<Rightarrow> int \<Rightarrow> nat \<Rightarrow> nat \<Rightarrow> nat" where
  "entry_search key entries offset lo hi =
     (if lo < hi then
        let mid = lo + (hi - lo) div 2 in
        if key (entries ! mid) \<le> offset then entry_search key entries offset (mid + 1) hi
        else entry_search key entries offset lo mid
      else lo)"
  by pat_completeness auto
termination by (relation "measure (\<lambda>(key, entries, offset, lo, hi). hi - lo)") auto

declare entry_search.simps [simp del]

definition utf8_to_utf16 :: "position_map \<Rightarrow> int \<Rightarrow> int" where
  "utf8_to_utf16 pm utf8_offset =
     (if pm_ascii_only pm then utf8_offset
      else
        let lo = entry_search pe_utf8_pos (pm_entries pm) utf8_offset 0 (length (pm_entries pm)) in
        if lo = 0 then utf8_offset else wrap32 (utf8_offset - pe_delta (pm_entries pm ! (lo - 1))))"

definition utf16_to_utf8 :: "position_map \<Rightarrow> int \<Rightarrow> int" where
  "utf16_to_utf8 pm utf16_offset =
     (if pm_ascii_only pm then utf16_offset
      else
        let lo = entry_search (\<lambda>e. wrap32 (pe_utf8_pos e - pe_delta e)) (pm_entries pm) utf16_offset 0 (length (pm_entries pm)) in
        if lo = 0 then utf16_offset else wrap32 (utf16_offset + pe_delta (pm_entries pm ! (lo - 1))))"

section \<open>The conversions are exact\<close>

lemma entry_search_count:
  assumes "\<And>i. i < length es \<Longrightarrow> key (es ! i) \<le> offset \<longleftrightarrow> i < k"
  shows "lo \<le> k \<Longrightarrow> k \<le> hi \<Longrightarrow> hi \<le> length es \<Longrightarrow> entry_search key es offset lo hi = k"
proof (induction "hi - lo" arbitrary: lo hi rule: less_induct)
  case less
  let ?m = "lo + (hi - lo) div 2"
  show ?case
  proof (cases "lo < hi")
    case True
    then have m: "lo \<le> ?m" "?m < hi" by auto
    have at: "key (es ! ?m) \<le> offset \<longleftrightarrow> ?m < k" using assms m less.prems(3) by simp
    show ?thesis
    proof (cases "?m < k")
      case below: True
      then show ?thesis using True at m less.hyps [of hi "?m + 1"] less.prems by (subst entry_search.simps) (simp add: Let_def)
    next
      case False
      then show ?thesis using True at m less.hyps [of ?m lo] less.prems by (subst entry_search.simps) (simp add: Let_def)
    qed
  next
    case False
    then show ?thesis using less.prems by (subst entry_search.simps) simp
  qed
qed

text \<open>The entries of the characters \<open>vs\<close> that follow \<open>us\<close>.\<close>

fun entries_after :: "rune list \<Rightarrow> rune list \<Rightarrow> position_map_entry list" where
  "entries_after us [] = []"
| "entries_after us (c # vs) =
     (if len_utf8 c = 1 then [] else
        [\<lparr>pe_utf8_pos = int (length (enc (us @ [c]))), pe_delta = int (length (enc (us @ [c]))) - sum_utf16 (us @ [c])\<rparr>])
     @ entries_after (us @ [c]) vs"

lemma entries_after_append: "entries_after us (vs @ ws) = entries_after us vs @ entries_after (us @ vs) ws"
  by (induction vs arbitrary: us) simp_all

lemma entries_after_bounds:
  "e \<in> set (entries_after us vs) \<Longrightarrow>
     \<exists>xs ys. vs = xs @ ys \<and> xs \<noteq> [] \<and> pe_utf8_pos e = int (length (enc (us @ xs))) \<and> pe_delta e = int (length (enc (us @ xs))) - sum_utf16 (us @ xs)"
proof (induction vs arbitrary: us)
  case (Cons c vs)
  consider (here) "e = \<lparr>pe_utf8_pos = int (length (enc (us @ [c]))), pe_delta = int (length (enc (us @ [c]))) - sum_utf16 (us @ [c])\<rparr>"
    | (later) "e \<in> set (entries_after (us @ [c]) vs)" using Cons.prems by (auto split: if_splits)
  then show ?case
  proof cases
    case here
    then show ?thesis by (intro exI [of _ "[c]"] exI [of _ vs]) simp
  next
    case later
    then obtain xs ys where "vs = xs @ ys" "pe_utf8_pos e = int (length (enc ((us @ [c]) @ xs)))"
      "pe_delta e = int (length (enc ((us @ [c]) @ xs))) - sum_utf16 ((us @ [c]) @ xs)" using Cons.IH by blast
    then show ?thesis by (intro exI [of _ "c # xs"] exI [of _ ys]) simp
  qed
qed simp

lemma position_map_loop_entries:
  "short_text (us @ vs) \<Longrightarrow> position_map_loop (length (enc us)) (int (length (enc us)) - sum_utf16 us) vs = entries_after us vs"
proof (induction vs arbitrary: us)
  case (Cons c vs)
  have len: "int (length (enc (us @ [c]))) < 2 ^ 31" using Cons.prems by (auto simp: short_text_def)
  have w: "wrap32 (int (length (enc us))) = int (length (enc us))" "wrap32 (int (length (enc us)) + int (len_utf8 c)) = int (length (enc (us @ [c])))"
    using len by (simp_all add: is_i32_def)
  have d: "wrap32 (int (length (enc us)) - sum_utf16 us + (int (len_utf8 c) - int (len_utf16 c)))
      = int (length (enc (us @ [c]))) - sum_utf16 (us @ [c])"
    using len sum_utf16_bounds [of "us @ [c]"] by (subst wrap32_id) (simp_all add: is_i32_def)
  have one: "len_utf16 c = 1" if "len_utf8 c = 1" using that by (auto simp: len_utf8_def len_utf16_def split: if_splits)
  have IH: "position_map_loop (length (enc us) + len_utf8 c) (int (length (enc (us @ [c]))) - sum_utf16 (us @ [c])) vs = entries_after (us @ [c]) vs"
    using Cons.IH [of "us @ [c]"] Cons.prems by (simp del: sum_utf16_append)
  show ?case
  proof (cases "len_utf8 c = 1")
    case True
    then have "int (length (enc us)) - sum_utf16 us = int (length (enc (us @ [c]))) - sum_utf16 (us @ [c])" using one by simp
    then show ?thesis using True IH by (simp only: position_map_loop.simps Let_def) simp
  next
    case False
    then have "int (len_utf8 c) \<noteq> 1" by simp
    then show ?thesis using False IH w d unfolding position_map_loop.simps Let_def by (simp del: sum_utf16_append enc_simps)
  qed
qed simp

lemma compute_position_map_enc: "short_text cs \<Longrightarrow> pm_entries (compute_position_map (enc cs)) = entries_after [] cs
    \<and> (pm_ascii_only (compute_position_map (enc cs)) \<longleftrightarrow> entries_after [] cs = [])"
  using position_map_loop_entries [of "[]" cs] chars_of_enc [of cs] by (simp add: compute_position_map_def short_text_def Let_def)

text \<open>The last entry before a position accounts for the difference of the offsets there.\<close>

lemma last_entry_delta:
  "int (length (enc (us @ vs))) - sum_utf16 (us @ vs)
     = (if entries_after us vs = [] then int (length (enc us)) - sum_utf16 us else pe_delta (last (entries_after us vs)))"
proof (induction vs arbitrary: us)
  case (Cons c vs)
  have one: "len_utf16 c = 1" if "len_utf8 c = 1" using that by (auto simp: len_utf8_def len_utf16_def split: if_splits)
  show ?case using Cons.IH [of "us @ [c]"] one by (auto split: if_splits)
qed simp

lemma entry_count:
  assumes "\<And>e. e \<in> set xs \<Longrightarrow> key e \<le> p" "\<And>e. e \<in> set ys \<Longrightarrow> p < key e"
  shows "entry_search key (xs @ ys) p 0 (length (xs @ ys)) = length xs"
proof (rule entry_search_count)
  show "key ((xs @ ys) ! i) \<le> p \<longleftrightarrow> i < length xs" if "i < length (xs @ ys)" for i
    using assms(1) [OF nth_mem, of i] assms(2) [OF nth_mem, of "i - length xs"] that by (auto simp: nth_append not_le)
qed simp_all

text \<open>C28: The conversions between byte offsets and UTF-16 offsets are exact, and inverse to each other, at every
  character boundary of a text below 2 GB.\<close>

theorem position_map_exact:
  assumes "short_text (us @ vs)"
  shows "utf8_to_utf16 (compute_position_map (enc (us @ vs))) (int (length (enc us))) = sum_utf16 us
    \<and> utf16_to_utf8 (compute_position_map (enc (us @ vs))) (sum_utf16 us) = int (length (enc us))"
proof -
  let ?pm = "compute_position_map (enc (us @ vs))" and ?p = "int (length (enc us))"
  let ?xs = "entries_after [] us" and ?ys = "entries_after us vs"
  have pm: "pm_entries ?pm = ?xs @ ?ys" "pm_ascii_only ?pm \<longleftrightarrow> ?xs @ ?ys = []"
    using compute_position_map_enc [OF assms] by (simp_all add: entries_after_append)
  have len: "?p < 2 ^ 31" using assms by (simp add: short_text_def)
  have low: "pe_utf8_pos e \<le> ?p \<and> wrap32 (pe_utf8_pos e - pe_delta e) \<le> sum_utf16 us" if mem: "e \<in> set ?xs" for e
  proof -
    obtain xs ys where e: "us = xs @ ys" "pe_utf8_pos e = int (length (enc xs))" "pe_utf8_pos e - pe_delta e = sum_utf16 xs"
      using entries_after_bounds [OF mem] by auto
    have "wrap32 (sum_utf16 xs) = sum_utf16 xs" using sum_utf16_bounds [of xs] len e(1) by (intro wrap32_id) (simp add: is_i32_def)
    then show ?thesis using e sum_utf16_bounds(1) [of ys] by simp
  qed
  have high: "?p < pe_utf8_pos e \<and> sum_utf16 us < wrap32 (pe_utf8_pos e - pe_delta e)" if mem: "e \<in> set ?ys" for e
  proof -
    obtain xs ys where e: "vs = xs @ ys" "xs \<noteq> []" "pe_utf8_pos e = int (length (enc (us @ xs)))" "pe_utf8_pos e - pe_delta e = sum_utf16 (us @ xs)"
      using entries_after_bounds [OF mem] by auto
    have "int (length (enc (us @ xs))) < 2 ^ 31" using assms e(1) by (simp add: short_text_def)
    then have "wrap32 (sum_utf16 (us @ xs)) = sum_utf16 (us @ xs)" using sum_utf16_bounds [of "us @ xs"] by (intro wrap32_id) (simp add: is_i32_def)
    moreover have "0 < length (enc xs)" "0 < sum_utf16 xs" using e(2) sum_utf16_pos by auto
    ultimately show ?thesis using e(3,4) by simp
  qed
  have s8: "entry_search pe_utf8_pos (?xs @ ?ys) ?p 0 (length (?xs @ ?ys)) = length ?xs" using low high by (intro entry_count) auto
  have s16: "entry_search (\<lambda>e. wrap32 (pe_utf8_pos e - pe_delta e)) (?xs @ ?ys) (sum_utf16 us) 0 (length (?xs @ ?ys)) = length ?xs"
    using low high by (intro entry_count) auto
  have delta: "?p - sum_utf16 us = (if ?xs = [] then 0 else pe_delta ((?xs @ ?ys) ! (length ?xs - 1)))"
    using last_entry_delta [of "[]" us] by (simp add: last_conv_nth nth_append)
  have "wrap32 (sum_utf16 us) = sum_utf16 us" "wrap32 ?p = ?p"
    using sum_utf16_bounds [of us] len by (simp_all add: is_i32_def)
  note wrap = this
  let ?d = "pe_delta ((?xs @ ?ys) ! (length ?xs - 1))"
  show ?thesis
  proof (cases "?xs = []")
    case True
    then show ?thesis unfolding utf8_to_utf16_def utf16_to_utf8_def pm Let_def s8 s16 using delta by simp
  next
    case False
    then have "?p - ?d = sum_utf16 us" "sum_utf16 us + ?d = ?p" using delta by simp_all
    then have "wrap32 (?p - ?d) = sum_utf16 us" "wrap32 (sum_utf16 us + ?d) = ?p" using wrap by metis+
    then show ?thesis unfolding utf8_to_utf16_def utf16_to_utf8_def pm Let_def s8 s16 using False by simp
  qed
qed

theorem position_map_exact_witness:
  "utf8_to_utf16 (compute_position_map (enc ([97, 0x1F600] @ [98]))) 5 = 3 \<and> utf16_to_utf8 (compute_position_map (enc ([97, 0x1F600] @ [98]))) 3 = 5"
proof -
  have "short_text ([97, 0x1F600] @ [98])" by (simp add: short_text_def is_scalar_def len_utf8_def)
  then show ?thesis using position_map_exact [of "[97, 0x1F600]" "[98]"] by (simp add: len_utf8_def len_utf16_def)
qed

end
