(* ===== verification/LspConverters.thy ===== *)
theory LspConverters
  imports Lines CoreUtils
begin

text \<open>
  The positions of the language server protocol: the line map of a text (\<open>crates/ts-ls/src/lsconv/linemap.rs\<close>) and
  the conversions of positions (\<open>crates/ts-ls/src/lsconv/converters.rs\<close>). Here only CR, LF and CR LF end a line.
\<close>

section \<open>The line map\<close>

record lsp_line_map =
  lm_line_starts :: "int list"
  lm_ascii_only :: bool

text \<open>The loop gives the starts of the lines from the current one on, and whether it saw only ASCII.\<close>

function lsp_line_starts_loop :: "string \<Rightarrow> nat \<Rightarrow> nat \<Rightarrow> bool \<Rightarrow> (int list \<times> bool) option" where
  "lsp_line_starts_loop t pos line_start ascii =
     (if pos < length t then
        let b = byte (t ! pos) in
        if b < 0x80 then
          let pos = pos + 1 in
          if b = 13 then
            let pos = (if pos < length t \<and> t ! pos = CHR 0x0A then pos + 1 else pos) in
            map_option (map_prod ((#) (wrap32 (int line_start))) id) (lsp_line_starts_loop t pos pos ascii)
          else if b = 10 then map_option (map_prod ((#) (wrap32 (int line_start))) id) (lsp_line_starts_loop t pos pos ascii)
          else lsp_line_starts_loop t pos line_start ascii
        else
          (case str_slice t pos (length t) of
             None \<Rightarrow> None
           | Some rest \<Rightarrow>
               let size = (case next_char rest of Some ch \<Rightarrow> len_utf8 ch | None \<Rightarrow> 1) in
               lsp_line_starts_loop t (pos + size) line_start False)
      else Some ([wrap32 (int line_start)], ascii))"
  by pat_completeness auto
termination
  by (relation "measure (\<lambda>(t, pos, line_start, ascii). length t - pos)") (auto intro: diff_less_mono2 split: option.splits)

declare lsp_line_starts_loop.simps [simp del]

definition compute_lsp_line_starts :: "string \<Rightarrow> lsp_line_map option" where
  "compute_lsp_line_starts t =
     map_option (\<lambda>(starts, ascii). \<lparr>lm_line_starts = starts, lm_ascii_only = ascii\<rparr>) (lsp_line_starts_loop t 0 0 True)"

definition compute_index_of_line_start :: "lsp_line_map \<Rightarrow> int \<Rightarrow> nat" where
  "compute_index_of_line_start m target_pos =
     (case slice_binary_search (lm_line_starts m) target_pos of
        Inr line_number \<Rightarrow> line_number
      | Inl line_number \<Rightarrow> if line_number > 0 then line_number - 1 else line_number)"

section \<open>The conversions\<close>

datatype position_encoding = Utf8 | Utf16 | Utf32

record lsp_position =
  lsp_line :: "32 word"
  lsp_character :: "32 word"

text \<open>The loop over the UTF-16 units of a line.\<close>

function lsp_scan_loop :: "string \<Rightarrow> nat \<Rightarrow> int \<Rightarrow> int \<Rightarrow> nat \<Rightarrow> nat option" where
  "lsp_scan_loop t line_end ch utf16_char pos =
     (if pos < line_end then
        (case str_slice t pos (length t) of
           None \<Rightarrow> None
         | Some rest \<Rightarrow>
             let r = (case next_char rest of Some r \<Rightarrow> r | None \<Rightarrow> 0); u16_len = int (len_utf16 r) in
             if wrap32 (utf16_char + u16_len) > ch then Some pos
             else lsp_scan_loop t line_end ch (wrap32 (utf16_char + u16_len)) (pos + len_utf8 r))
      else Some pos)"
  by pat_completeness auto
termination
  by (relation "measure (\<lambda>(t, line_end, ch, utf16_char, pos). line_end - pos)") (auto intro: diff_less_mono2)

declare lsp_scan_loop.simps [simp del]

text \<open>\<open>as usize\<close> of an \<open>i32\<close>: a negative number becomes one that is larger than every length.\<close>

definition as_usize :: "int \<Rightarrow> nat" where
  "as_usize n = nat (n mod 2 ^ 64)"

definition line_and_character_to_position ::
    "position_encoding \<Rightarrow> string \<Rightarrow> lsp_line_map \<Rightarrow> lsp_position \<Rightarrow> int option" where
  "line_and_character_to_position encoding t m p =
     (let line = as_usize (sint (lsp_line p));
          ch = sint (lsp_character p);
          text_len = wrap32 (int (length t)) in
      if line \<ge> length (lm_line_starts m) then Some text_len
      else
        let start = lm_line_starts m ! line;
            line_end = (if line + 1 < length (lm_line_starts m) then lm_line_starts m ! (line + 1) else text_len) in
        if lm_ascii_only m \<or> encoding = Utf8 then Some (max start (min (wrap32 (start + ch)) line_end))
        else map_option (\<lambda>pos. wrap32 (int pos)) (lsp_scan_loop t (as_usize line_end) ch 0 (as_usize start)))"

definition position_to_line_and_character :: "position_encoding \<Rightarrow> string \<Rightarrow> lsp_line_map \<Rightarrow> int \<Rightarrow> lsp_position option" where
  "position_to_line_and_character encoding t m target =
     (let target = max 0 (min target (wrap32 (int (length t))));
          line = compute_index_of_line_start m target in
      if line < length (lm_line_starts m) then
        let start = lm_line_starts m ! line in
        map_option (\<lambda>character. \<lparr>lsp_line = word_of_nat line, lsp_character = word_of_int character\<rparr>)
          (if lm_ascii_only m \<or> encoding = Utf8 then Some (wrap32 (target - start))
           else map_option (\<lambda>s. wrap32 (sum_utf16 (chars_of s))) (str_slice t (as_usize start) (as_usize target)))
      else None)"

definition to_lsp_range :: "position_encoding \<Rightarrow> string \<Rightarrow> lsp_line_map \<Rightarrow> text_range \<Rightarrow> (lsp_position \<times> lsp_position) option" where
  "to_lsp_range encoding t m r =
     Option.bind (position_to_line_and_character encoding t m (tr_pos r)) (\<lambda>a.
     Option.bind (position_to_line_and_character encoding t m (tr_end r)) (\<lambda>b. Some (a, b)))"

definition from_lsp_range :: "position_encoding \<Rightarrow> string \<Rightarrow> lsp_line_map \<Rightarrow> lsp_position \<times> lsp_position \<Rightarrow> text_range option" where
  "from_lsp_range encoding t m r =
     Option.bind (line_and_character_to_position encoding t m (fst r)) (\<lambda>a.
     Option.bind (line_and_character_to_position encoding t m (snd r)) (\<lambda>b. Some (new_text_range a b)))"

section \<open>The line map of an encoded text\<close>

definition ends_lsp_line :: "rune \<Rightarrow> rune list \<Rightarrow> bool" where
  "ends_lsp_line c vs \<longleftrightarrow> c = 10 \<or> c = 13 \<and> \<not> (vs \<noteq> [] \<and> hd vs = 10)"

fun lsp_later_starts :: "nat \<Rightarrow> rune list \<Rightarrow> nat list" where
  "lsp_later_starts p [] = []"
| "lsp_later_starts p (c # vs) =
     (if ends_lsp_line c vs then (p + len_utf8 c) # lsp_later_starts (p + len_utf8 c) vs else lsp_later_starts (p + len_utf8 c) vs)"

definition lsp_starts :: "rune list \<Rightarrow> nat list" where
  "lsp_starts cs = 0 # lsp_later_starts 0 cs"

lemma lsp_later_starts_prefix:
  "q \<in> set (lsp_later_starts p vs) \<Longrightarrow> \<exists>us ws. vs = us @ ws \<and> us \<noteq> [] \<and> q = p + length (enc us)"
proof (induction p vs rule: lsp_later_starts.induct)
  case (2 p c vs)
  consider "q = p + len_utf8 c" | "q \<in> set (lsp_later_starts (p + len_utf8 c) vs)" using "2.prems" by (auto split: if_splits)
  then show ?case
  proof cases
    case 1
    then show ?thesis by (intro exI [of _ "[c]"] exI [of _ vs]) simp
  next
    case later: 2
    then obtain us ws where "vs = us @ ws" "q = p + len_utf8 c + length (enc us)" using 2 by (cases "ends_lsp_line c vs") blast+
    then show ?thesis by (intro exI [of _ "c # us"] exI [of _ ws]) simp
  qed
qed simp

lemma lsp_later_starts_above: "q \<in> set (lsp_later_starts p vs) \<Longrightarrow> p < q"
  using lsp_later_starts_prefix [of q p vs] by fastforce

lemma lsp_later_starts_sorted: "sorted_wrt (<) (lsp_later_starts p vs)"
  by (induction p vs rule: lsp_later_starts.induct) (auto dest: lsp_later_starts_above)

lemma line_table_lsp_starts: "short_text cs \<Longrightarrow> line_table (lsp_starts cs)"
  using lsp_later_starts_sorted [of 0 cs] lsp_later_starts_above [of _ 0 cs] lsp_later_starts_prefix [of _ 0 cs]
  by (fastforce simp: line_table_def lsp_starts_def short_text_def)

lemma lsp_starts_prefix: "q \<in> set (lsp_starts cs) \<Longrightarrow> \<exists>us ws. cs = us @ ws \<and> q = length (enc us)"
  using lsp_later_starts_prefix [of q 0 cs] by (auto simp: lsp_starts_def)

definition all_ascii :: "rune list \<Rightarrow> bool" where
  "all_ascii cs \<longleftrightarrow> list_all (\<lambda>c. c < 0x80) cs"

lemma lsp_line_starts_loop_enc:
  "short_text (us @ vs) \<Longrightarrow> s \<le> length (enc us) \<Longrightarrow>
     lsp_line_starts_loop (enc (us @ vs)) (length (enc us)) s ascii
       = Some (map int (s # lsp_later_starts (length (enc us)) vs), ascii \<and> all_ascii vs)"
proof (induction "length vs" arbitrary: us vs s ascii rule: less_induct)
  case less
  let ?t = "enc (us @ vs)" and ?p = "length (enc us)"
  note unf = lsp_line_starts_loop.simps [of ?t ?p s ascii]
  have ws: "wrap32 (int s) = int s" using less.prems by (intro wrap32_id) (simp add: short_text_def is_i32_def)
  have r0: "runes (us @ vs)" using less.prems(1) by (simp add: short_text_def)
  show ?case
  proof (cases vs)
    case Nil
    then show ?thesis using ws by (subst unf) (simp add: all_ascii_def)
  next
    case (Cons c cs)
    have c: "is_scalar c" and r: "runes (us @ [c] @ cs)" using r0 Cons by simp_all
    have lt: "?p < length ?t" using Cons by (simp add: len_utf8_pos)
    have b: "byte (?t ! ?p) = byte (hd (utf8_encode c))" using nth_first_byte [of us c "enc cs"] Cons by simp
    have IH: "lsp_line_starts_loop ?t (?p + len_utf8 c) s' a = Some (map int (s' # lsp_later_starts (?p + len_utf8 c) cs), a \<and> all_ascii cs)"
      if "s' \<le> ?p + len_utf8 c" for s' a
      using less.hyps [of cs "us @ [c]" s' a] less.prems Cons that by simp
    show ?thesis
    proof (cases "c < 0x80")
      case True
      have one: "len_utf8 c = 1" "byte (?t ! ?p) = c" using True b first_byte(2) [OF c] by (simp_all add: len_utf8_def)
      have nl: "?p + 1 < length ?t \<and> ?t ! (?p + 1) = CHR 0x0A \<longleftrightarrow> cs \<noteq> [] \<and> hd cs = 10"
        using lf_after [of "us @ [c]" cs] r Cons one(1) by simp
      show ?thesis
      proof (cases "c = 13 \<and> cs \<noteq> [] \<and> hd cs = 10")
        case crlf: True
        then obtain ds where ds: "cs = 10 # ds" by (cases cs) auto
        have "lsp_line_starts_loop ?t (?p + 2) (?p + 2) ascii = Some (map int ((?p + 2) # lsp_later_starts (?p + 2) ds), ascii \<and> all_ascii ds)"
          using less.hyps [of ds "us @ [13, 10]" "?p + 2" ascii] less.prems Cons ds crlf by (simp add: len_utf8_def)
        then show ?thesis unfolding unf Let_def using lt one nl crlf ds Cons ws
          by (simp add: ends_lsp_line_def len_utf8_def all_ascii_def)
      next
        case False
        then show ?thesis unfolding unf Let_def using lt True one nl IH [of s] IH [of "?p + 1"] Cons ws less.prems(2)
          by (auto simp: ends_lsp_line_def all_ascii_def)
      qed
    next
      case False
      then have "\<not> byte (?t ! ?p) < 0x80" using b first_byte(1) [OF c] by simp
      moreover have "str_slice ?t ?p (length ?t) = Some (enc vs)" using str_slice_enc [of us vs "[]"] r0 by simp
      moreover have "next_char (enc vs) = Some c" using c Cons by simp
      ultimately show ?thesis unfolding unf Let_def using lt False IH [of s False] Cons less.prems(2)
        by (auto simp del: One_nat_def simp: ends_lsp_line_def all_ascii_def)
    qed
  qed
qed

lemma compute_lsp_line_starts_enc:
  "short_text cs \<Longrightarrow> compute_lsp_line_starts (enc cs) = Some \<lparr>lm_line_starts = map int (lsp_starts cs), lm_ascii_only = all_ascii cs\<rparr>"
  using lsp_line_starts_loop_enc [of "[]" cs 0 True] by (simp add: compute_lsp_line_starts_def lsp_starts_def)

lemma compute_index_eq: "line_table L \<Longrightarrow> int pos < 2 ^ 31 \<Longrightarrow>
    compute_index_of_line_start \<lparr>lm_line_starts = map int L, lm_ascii_only = a\<rparr> (int pos) = line_index L pos"
  using compute_line_of_position_eq [of L pos]
  by (auto simp: compute_index_of_line_start_def compute_line_of_position_def is_i32_def split: sum.splits)

lemma lsp_scan_loop_enc:
  "short_text (ws @ xs @ vs) \<Longrightarrow> length (enc (ws @ xs)) \<le> line_end \<Longrightarrow> 0 \<le> u \<Longrightarrow> u + sum_utf16 (xs @ vs) < 2 ^ 31 \<Longrightarrow> line_end \<le> length (enc (ws @ xs @ vs)) \<Longrightarrow>
   lsp_scan_loop (enc (ws @ xs @ vs)) line_end (u + sum_utf16 xs) u (length (enc ws)) = Some (length (enc (ws @ xs)))"
proof (induction xs arbitrary: ws u)
  case Nil
  let ?t = "enc (ws @ vs)" and ?p = "length (enc ws)"
  note unf = lsp_scan_loop.simps [of ?t line_end u u ?p]
  show ?case
  proof (cases "?p < line_end")
    case True
    then obtain c cs where v: "vs = c # cs" using Nil.prems(5) by (cases vs) auto
    have r: "runes (ws @ vs)" using Nil.prems(1) by (simp add: short_text_def)
    have "str_slice ?t ?p (length ?t) = Some (enc vs)" using str_slice_enc [of ws vs "[]"] r by simp
    moreover have "next_char (enc vs) = Some c" using r v by simp
    moreover have "wrap32 (u + int (len_utf16 c)) = u + int (len_utf16 c)"
      using Nil.prems(3,4) v sum_utf16_bounds(1) [of cs] by (intro wrap32_id) (simp add: is_i32_def)
    ultimately have "lsp_scan_loop ?t line_end u u ?p = Some ?p"
      using True len_utf16_pos [of c] by (subst unf) (simp add: Let_def del: enc_simps)
    then show ?thesis by simp
  next
    case False
    then have "lsp_scan_loop ?t line_end u u ?p = Some ?p" by (subst unf) simp
    then show ?thesis by simp
  qed
next
  case (Cons c xs)
  let ?t = "enc (ws @ (c # xs) @ vs)" and ?p = "length (enc ws)"
  have r: "runes (ws @ (c # xs) @ vs)" using Cons.prems(1) by (simp add: short_text_def)
  have "?p + len_utf8 c \<le> line_end" using Cons.prems(2) by simp
  then have lt: "?p < line_end" using len_utf8_pos [of c] by linarith
  have sl: "str_slice ?t ?p (length ?t) = Some (enc ((c # xs) @ vs))" using str_slice_enc [of ws "(c # xs) @ vs" "[]"] r by simp
  have nc: "next_char (enc ((c # xs) @ vs)) = Some c" using r by simp
  have pos: "0 \<le> sum_utf16 (xs @ vs)" "0 \<le> sum_utf16 xs" using sum_utf16_bounds(1) by blast+
  have w: "wrap32 (u + int (len_utf16 c)) = u + int (len_utf16 c)"
    using Cons.prems(3,4) pos by (intro wrap32_id) (simp add: is_i32_def)
  have IH: "lsp_scan_loop ?t line_end (u + int (len_utf16 c) + sum_utf16 xs) (u + int (len_utf16 c)) (?p + len_utf8 c) = Some (length (enc (ws @ c # xs)))"
    using Cons.IH [of "ws @ [c]" "u + int (len_utf16 c)"] Cons.prems by simp
  show ?case
    using lt sl nc w pos(2) IH unfolding lsp_scan_loop.simps [of ?t line_end "u + sum_utf16 (c # xs)" u ?p] Let_def
    by (simp only: if_True option.case sum_utf16.simps) (simp add: add.assoc)
qed

lemma sint_word32: "is_i32 n \<Longrightarrow> sint (word_of_int n :: 32 word) = n"
  using wrap32_id [of n] by (simp add: wrap32_is_signed_take_bit signed_of_int)

lemma sorted_index_le: "sorted_wrt (<) L \<Longrightarrow> i < length L \<Longrightarrow> i \<le> L ! i" for L :: "nat list"
proof (induction i)
  case (Suc i)
  then have "L ! i < L ! Suc i" using sorted_wrt_nth_less [of "(<)" L i "Suc i"] by simp
  then show ?case using Suc by simp
qed simp

lemma as_usize_nat: "int n < 2 ^ 64 \<Longrightarrow> as_usize (int n) = n"
  by (simp add: as_usize_def)

lemma position_converted_back:
  assumes "short_text (us @ vs)" "compute_lsp_line_starts (enc (us @ vs)) = Some m"
  shows "\<exists>p. position_to_line_and_character encoding (enc (us @ vs)) m (int (length (enc us))) = Some p
    \<and> line_and_character_to_position encoding (enc (us @ vs)) m p = Some (int (length (enc us)))"
proof -
  let ?cs = "us @ vs" and ?pos = "length (enc us)" and ?L = "lsp_starts (us @ vs)"
  let ?k = "line_index ?L ?pos" and ?len = "length (enc (us @ vs))"
  have m: "m = \<lparr>lm_line_starts = map int ?L, lm_ascii_only = all_ascii ?cs\<rparr>" using compute_lsp_line_starts_enc [OF assms(1)] assms(2) by simp
  have tab: "line_table ?L" using line_table_lsp_starts [OF assms(1)] .
  have len: "int ?len < 2 ^ 31" "?pos \<le> ?len" and r: "runes (us @ vs)" using assms(1) by (simp_all add: short_text_def)
  then have pos: "int ?pos < 2 ^ 31" by linarith
  note l = line_index_props [OF tab, of ?pos]
  have srt: "sorted_wrt (<) ?L" using tab by (simp add: line_table_def)
  obtain ws zs where ws: "us @ vs = ws @ zs" "?L ! ?k = length (enc ws)" using lsp_starts_prefix [of "?L ! ?k" ?cs] l(1) by auto
  then obtain xs where xs: "us = ws @ xs" using prefixes_by_length [of ws zs us vs] l(2) by auto
  have k: "?k \<le> ?L ! ?k" using sorted_index_le [OF srt l(1)] .
  have wl: "wrap32 (int ?len) = int ?len" using len(1) by (intro wrap32_id) (simp add: is_i32_def)
  define ch where "ch = (if all_ascii ?cs \<or> encoding = Utf8 then int (length (enc xs)) else sum_utf16 xs)"
  let ?p = "\<lparr>lsp_line = word_of_nat ?k, lsp_character = word_of_int ch\<rparr>"
  have xs_len: "?pos = length (enc ws) + length (enc xs)" by (simp add: xs)
  have ch: "is_i32 ch" using pos sum_utf16_bounds [of xs] xs_len by (simp add: ch_def is_i32_def)
  have "str_slice (enc (ws @ xs @ vs)) (length (enc ws)) (length (enc (ws @ xs))) = Some (enc xs)"
    using str_slice_enc [of ws xs vs] r xs by simp
  then have sl: "str_slice (enc ?cs) (length (enc ws)) ?pos = Some (enc xs)" by (simp add: xs)
  have ch_xs: "chars_of (enc xs) = xs" using r xs by (intro chars_of_enc) simp
  have us64: "as_usize (int n) = n" if "int n < 2 ^ 31" for n using that by (intro as_usize_nat) simp
  have clamp: "max 0 (min (int ?pos) (wrap32 (int ?len))) = int ?pos" using len wl by simp
  have idx: "compute_index_of_line_start m (int ?pos) = ?k" using compute_index_eq [OF tab pos] by (simp add: m)
  have start: "lm_line_starts m ! ?k = int (length (enc ws))" "?k < length (lm_line_starts m)" using l(1) ws(2) by (simp_all add: m)
  have "int ?pos - int (length (enc ws)) = int (length (enc xs))" using xs_len by simp
  then have char: "(if lm_ascii_only m \<or> encoding = Utf8 then Some (wrap32 (int ?pos - int (length (enc ws))))
      else map_option (\<lambda>s. wrap32 (sum_utf16 (chars_of s))) (str_slice (enc ?cs) (as_usize (int (length (enc ws)))) (as_usize (int ?pos)))) = Some ch"
    using wrap32_id [OF ch] sl ch_xs us64 [OF pos] us64 [of "length (enc ws)"] pos xs_len
    by (cases "all_ascii ?cs \<or> encoding = Utf8") (simp_all add: ch_def m)
  have 1: "position_to_line_and_character encoding (enc ?cs) m (int ?pos) = Some ?p"
    unfolding position_to_line_and_character_def clamp Let_def idx start(1) char using start(2) by simp
  have line: "as_usize (sint (lsp_line ?p)) = ?k"
    using sint_word32 [of "int ?k"] k l(2) pos us64 [of ?k] by (simp add: is_i32_def)
  have chs: "sint (lsp_character ?p) = ch" using sint_word32 [OF ch] by simp
  define e where "e = (if ?k + 1 < length ?L then ?L ! (?k + 1) else ?len)"
  have mem: "?L ! (?k + 1) \<le> ?len" if "?k + 1 < length ?L"
    using lsp_starts_prefix [of "?L ! (?k + 1)" ?cs] that by (metis enc_simps(3) le_add1 length_append nth_mem)
  have e: "?pos \<le> e" "e \<le> ?len" using l(3) len(2) mem by (auto simp: e_def)
  have line_end: "(if ?k + 1 < length (lm_line_starts m) then lm_line_starts m ! (?k + 1) else wrap32 (int ?len)) = int e"
    using wl by (simp add: e_def m)
  have scan: "lsp_scan_loop (enc ?cs) e (sum_utf16 xs) 0 (length (enc ws)) = Some ?pos"
  proof -
    have "0 + sum_utf16 (xs @ vs) < 2 ^ 31" using sum_utf16_bounds(2) [of "xs @ vs"] len(1) by (simp add: xs)
    then show ?thesis using lsp_scan_loop_enc [of ws xs vs e 0] assms(1) e by (simp add: xs)
  qed
  have 2: "line_and_character_to_position encoding (enc ?cs) m ?p = Some (int ?pos)"
  proof (cases "all_ascii ?cs \<or> encoding = Utf8")
    case True
    then have c: "ch = int (length (enc xs))" by (simp add: ch_def)
    have "max (int (length (enc ws))) (min (wrap32 (int (length (enc ws)) + ch)) (int e)) = int ?pos"
      using xs_len pos e(1) c by (simp add: is_i32_def)
    then show ?thesis using True start unfolding line_and_character_to_position_def Let_def line chs line_end by (simp add: m)
  next
    case False
    then have c: "ch = sum_utf16 xs" by (simp add: ch_def)
    have "as_usize (int e) = e" "as_usize (int (length (enc ws))) = length (enc ws)" "wrap32 (int ?pos) = int ?pos"
      using us64 [of e] us64 [of "length (enc ws)"] e len pos xs_len by (simp_all add: is_i32_def)
    then show ?thesis using False start scan [folded c] unfolding line_and_character_to_position_def Let_def line chs line_end by (simp add: m)
  qed
  show ?thesis using 1 2 by blast
qed

text \<open>C23: A position at a character boundary of a text below 2 GB is converted to a line and a character, in every
  encoding of positions, and these are converted back to the same position.\<close>

theorem lsp_position_roundtrip:
  assumes "short_text (us @ vs)" "compute_lsp_line_starts (enc (us @ vs)) = Some m"
  shows "\<exists>p. position_to_line_and_character encoding (enc (us @ vs)) m (int (length (enc us))) = Some p
    \<and> line_and_character_to_position encoding (enc (us @ vs)) m p = Some (int (length (enc us)))"
  using position_converted_back [OF assms] .

theorem lsp_position_roundtrip_witness:
  "\<exists>m p. compute_lsp_line_starts (enc ([97, 10, 0x1F600] @ [98])) = Some m
     \<and> position_to_line_and_character Utf16 (enc ([97, 10, 0x1F600] @ [98])) m 6 = Some p
     \<and> line_and_character_to_position Utf16 (enc ([97, 10, 0x1F600] @ [98])) m p = Some 6"
proof -
  let ?cs = "[97, 10, 0x1F600] @ [98] :: rune list"
  have sh: "short_text ?cs" by (simp add: short_text_def is_scalar_def len_utf8_def)
  have "length (enc [97, 10, 0x1F600]) = 6" by (simp add: len_utf8_def)
  then show ?thesis using lsp_position_roundtrip [OF sh compute_lsp_line_starts_enc [OF sh], of Utf16] compute_lsp_line_starts_enc [OF sh]
    by (metis of_nat_numeral)
qed

text \<open>C32: A character beyond its line is moved to the end of the line, but only while the sum of the start of the line
  and the character fits in an \<open>i32\<close>: from there on, and so for the largest character of the protocol in every line but
  the first, the result is the start of the line. (For texts of ASCII characters and for positions in UTF-8.)\<close>

theorem character_clamped_until_overflow:
  assumes "short_text cs" "compute_lsp_line_starts (enc cs) = Some m" "encoding = Utf8 \<or> all_ascii cs"
    and "k < length (lsp_starts cs)" "0 \<le> ch" "ch < 2 ^ 31"
  shows "line_and_character_to_position encoding (enc cs) m \<lparr>lsp_line = word_of_nat k, lsp_character = word_of_int ch\<rparr>
    = Some (let start = int (lsp_starts cs ! k);
                line_end = int (if k + 1 < length (lsp_starts cs) then lsp_starts cs ! (k + 1) else length (enc cs)) in
            if start + ch < 2 ^ 31 then min (start + ch) line_end else start)"
proof -
  let ?L = "lsp_starts cs" and ?len = "length (enc cs)"
  let ?p = "\<lparr>lsp_line = word_of_nat k, lsp_character = word_of_int ch\<rparr> :: lsp_position"
  have m: "m = \<lparr>lm_line_starts = map int ?L, lm_ascii_only = all_ascii cs\<rparr>" using compute_lsp_line_starts_enc [OF assms(1)] assms(2) by simp
  have tab: "line_table ?L" using line_table_lsp_starts [OF assms(1)] .
  have srt: "sorted_wrt (<) ?L" and small: "\<And>i. i < length ?L \<Longrightarrow> int (?L ! i) < 2 ^ 31" using tab by (auto simp: line_table_def)
  have k: "int k < 2 ^ 31" using sorted_index_le [OF srt assms(4)] small [OF assms(4)] by linarith
  have line: "as_usize (sint (lsp_line ?p)) = k"
    using sint_word32 [of "int k"] k as_usize_nat [of k] by (simp add: is_i32_def)
  have chs: "sint (lsp_character ?p) = ch" using sint_word32 [of ch] assms(5,6) by (simp add: is_i32_def)
  have wl: "wrap32 (int ?len) = int ?len" using assms(1) by (intro wrap32_id) (simp add: short_text_def is_i32_def)
  define e where "e = (if k + 1 < length ?L then ?L ! (k + 1) else ?len)"
  have line_end: "(if k + 1 < length (lm_line_starts m) then lm_line_starts m ! (k + 1) else wrap32 (int ?len)) = int e"
    using wl by (simp add: e_def m)
  have start: "lm_line_starts m ! k = int (?L ! k)" "\<not> k \<ge> length (lm_line_starts m)" using assms(4) by (simp_all add: m)
  have le: "?L ! k \<le> e"
  proof (cases "k + 1 < length ?L")
    case True
    then show ?thesis using sorted_wrt_nth_less [OF srt, of k "k + 1"] by (simp add: e_def)
  next
    case False
    then show ?thesis using lsp_starts_prefix [of "?L ! k" cs] assms(4) by (auto simp: e_def)
  qed
  have s: "0 \<le> int (?L ! k)" "int (?L ! k) < 2 ^ 31" using small [OF assms(4)] by simp_all
  have w: "wrap32 (int (?L ! k) + ch) = (if int (?L ! k) + ch < 2 ^ 31 then int (?L ! k) + ch else int (?L ! k) + ch - 2 ^ 32)"
  proof (cases "int (?L ! k) + ch < 2 ^ 31")
    case True
    then show ?thesis using s assms(5) by (simp add: is_i32_def)
  next
    case False
    let ?x = "int (?L ! k) + ch - 2 ^ 31"
    have "(?x + 2 ^ 32) mod 2 ^ 32 = ?x mod 2 ^ 32" by (rule mod_add_self2)
    moreover have "?x mod 2 ^ 32 = ?x" using False s assms(6) by (intro mod_pos_pos_trivial) simp_all
    moreover have "int (?L ! k) + ch + 2 ^ 31 = ?x + 2 ^ 32" by simp
    ultimately have "(int (?L ! k) + ch + 2 ^ 31) mod 2 ^ 32 = ?x" by (simp only:)
    then show ?thesis using False by (simp add: wrap32_def)
  qed
  have enc: "lm_ascii_only m \<or> encoding = Utf8" using assms(3) by (auto simp: m)
  have clamp: "max (int (?L ! k)) (min (wrap32 (int (?L ! k) + ch)) (int e))
      = (if int (?L ! k) + ch < 2 ^ 31 then min (int (?L ! k) + ch) (int e) else int (?L ! k))"
    using w le s assms(5,6) by auto
  show ?thesis unfolding line_and_character_to_position_def Let_def line chs line_end start(1) clamp using start(2) enc by (simp add: e_def)
qed

theorem character_clamped_until_overflow_witness:
  "line_and_character_to_position Utf16 (enc [97, 10, 98, 99]) \<lparr>lm_line_starts = [0, 2], lm_ascii_only = True\<rparr>
     \<lparr>lsp_line = word_of_nat 1, lsp_character = word_of_int 0x7FFFFFFF\<rparr> = Some 2"
proof -
  let ?cs = "[97, 10, 98, 99] :: rune list"
  have sh: "short_text ?cs" by (simp add: short_text_def is_scalar_def len_utf8_def)
  have st: "lsp_starts ?cs = [0, 2]" by (simp add: lsp_starts_def ends_lsp_line_def len_utf8_def)
  have a: "all_ascii ?cs" by (simp add: all_ascii_def)
  have m: "compute_lsp_line_starts (enc ?cs) = Some \<lparr>lm_line_starts = [0, 2], lm_ascii_only = True\<rparr>"
    using compute_lsp_line_starts_enc [OF sh] st a by simp
  show ?thesis using character_clamped_until_overflow [OF sh m, of Utf16 1 "0x7FFFFFFF"] st a by simp
qed

end
