(* ===== verification/TextChange.thy ===== *)
theory TextChange
  imports LspConverters
begin

text \<open>
  Changes of a text (\<open>crates/ts-core/src/textchange.rs\<close>). A range outside the text or inside a character panics,
  which is \<open>None\<close>.
\<close>

record text_change =
  tc_text_range :: text_range
  tc_new_text :: string

definition apply_to :: "text_change \<Rightarrow> string \<Rightarrow> string option" where
  "apply_to c t =
     Option.bind (str_slice t 0 (as_usize (tr_pos (tc_text_range c)))) (\<lambda>before.
     Option.bind (str_slice t (as_usize (tr_end (tc_text_range c))) (length t)) (\<lambda>behind.
       Some (before @ tc_new_text c @ behind)))"

text \<open>The loop over the edits: \<open>b\<close> is the text built so far, \<open>last_end\<close> the end of the last edit.\<close>

fun bulk_edits_loop :: "string \<Rightarrow> string \<Rightarrow> nat \<Rightarrow> text_change list \<Rightarrow> string option" where
  "bulk_edits_loop t b last_end [] = map_option (\<lambda>s. b @ s) (str_slice t last_end (length t))"
| "bulk_edits_loop t b last_end (e # edits) =
     (let start = as_usize (tr_pos (tc_text_range e)) in
      case (if start \<noteq> last_end then str_slice t last_end start else Some []) of
        None \<Rightarrow> None
      | Some s \<Rightarrow> bulk_edits_loop t (b @ s @ tc_new_text e) (as_usize (tr_end (tc_text_range e))) edits)"

definition apply_bulk_edits :: "string \<Rightarrow> text_change list \<Rightarrow> string option" where
  "apply_bulk_edits t edits = bulk_edits_loop t [] 0 edits"

section \<open>Edits at character boundaries\<close>

lemma apply_to_enc:
  assumes "runes (us @ ds @ vs)" "int (length (enc (us @ ds @ vs))) < 2 ^ 31"
  shows "apply_to \<lparr>tc_text_range = \<lparr>tr_pos = int (length (enc us)), tr_end = int (length (enc (us @ ds)))\<rparr>, tc_new_text = n\<rparr> (enc (us @ ds @ vs))
    = Some (enc us @ n @ enc vs)"
proof -
  have "as_usize (int (length (enc us))) = length (enc us)" "as_usize (int (length (enc (us @ ds)))) = length (enc (us @ ds))"
    using assms(2) as_usize_nat [of "length (enc us)"] as_usize_nat [of "length (enc (us @ ds))"] by simp_all
  moreover have "str_slice (enc (us @ ds @ vs)) 0 (length (enc us)) = Some (enc us)"
    using str_slice_enc [of "[]" us "ds @ vs"] assms(1) by simp
  moreover have "str_slice (enc (us @ ds @ vs)) (length (enc (us @ ds))) (length (enc (us @ ds @ vs))) = Some (enc vs)"
    using str_slice_enc [of "us @ ds" vs "[]"] assms(1) by simp
  ultimately show ?thesis by (simp add: apply_to_def del: enc_simps length_append)
qed

text \<open>A text cut into segments: characters that are kept, characters that are replaced, and what replaces them.\<close>

type_synonym segment = "rune list \<times> rune list \<times> string"

fun old_text :: "segment list \<Rightarrow> rune list \<Rightarrow> rune list" where
  "old_text [] rest = rest"
| "old_text ((us, ds, n) # segs) rest = us @ ds @ old_text segs rest"

fun new_text :: "segment list \<Rightarrow> rune list \<Rightarrow> string" where
  "new_text [] rest = enc rest"
| "new_text ((us, ds, n) # segs) rest = enc us @ n @ new_text segs rest"

fun edits_of :: "nat \<Rightarrow> segment list \<Rightarrow> text_change list" where
  "edits_of p [] = []"
| "edits_of p ((us, ds, n) # segs) =
     \<lparr>tc_text_range = \<lparr>tr_pos = int (p + length (enc us)), tr_end = int (p + length (enc (us @ ds)))\<rparr>, tc_new_text = n\<rparr>
     # edits_of (p + length (enc (us @ ds))) segs"

lemma bulk_edits_step:
  assumes "int p < 2 ^ 64" "int q < 2 ^ 64" "(if p \<noteq> last_end then str_slice t last_end p else Some []) = Some w"
  shows "bulk_edits_loop t b last_end (\<lparr>tc_text_range = \<lparr>tr_pos = int p, tr_end = int q\<rparr>, tc_new_text = n\<rparr> # edits)
    = bulk_edits_loop t (b @ w @ n) q edits"
  using assms as_usize_nat [OF assms(1)] as_usize_nat [OF assms(2)] by (simp add: Let_def)

lemma bulk_edits_loop_segments:
  assumes "runes (pre @ old_text segs rest)" "int (length (enc (pre @ old_text segs rest))) < 2 ^ 31"
  shows "bulk_edits_loop (enc (pre @ old_text segs rest)) b (length (enc pre)) (edits_of (length (enc pre)) segs)
    = Some (b @ new_text segs rest)"
  using assms
proof (induction segs arbitrary: pre b)
  case Nil
  then show ?case using str_slice_enc [of pre rest "[]"] by simp
next
  case (Cons seg segs)
  obtain us ds n where seg: "seg = (us, ds, n)" by (cases seg) auto
  let ?t = "enc (pre @ us @ ds @ old_text segs rest)"
  have len: "int (length ?t) < 2 ^ 31" and r: "runes (pre @ us @ ds @ old_text segs rest)" using Cons.prems seg by simp_all
  have l: "length (enc pre) + length (enc us) = length (enc (pre @ us))" "length (enc pre) + length (enc (us @ ds)) = length (enc (pre @ us @ ds))"
    by simp_all
  have "str_slice ?t (length (enc pre)) (length (enc (pre @ us))) = Some (enc us)"
    using str_slice_enc [OF r] by simp
  then have "(if length (enc (pre @ us)) \<noteq> length (enc pre) then str_slice ?t (length (enc pre)) (length (enc (pre @ us))) else Some []) = Some (enc us)"
    by auto
  then have "bulk_edits_loop ?t b (length (enc pre)) (edits_of (length (enc pre)) ((us, ds, n) # segs))
      = bulk_edits_loop ?t (b @ enc us @ n) (length (enc (pre @ us @ ds))) (edits_of (length (enc (pre @ us @ ds))) segs)"
    unfolding edits_of.simps l using len by (intro bulk_edits_step) auto
  then show ?case using Cons.IH [of "pre @ us @ ds" "b @ enc us @ n"] Cons.prems seg by simp
qed

text \<open>C37: Edits at character boundaries that follow each other replace their ranges and keep everything between them.\<close>

theorem bulk_edits_exact:
  assumes "runes (old_text segs rest)" "int (length (enc (old_text segs rest))) < 2 ^ 31"
  shows "apply_bulk_edits (enc (old_text segs rest)) (edits_of 0 segs) = Some (new_text segs rest)"
  using bulk_edits_loop_segments [of "[]" segs rest "[]"] assms by (simp add: apply_bulk_edits_def)

theorem bulk_edits_exact_witness:
  "apply_bulk_edits ''abcde'' [\<lparr>tc_text_range = \<lparr>tr_pos = 1, tr_end = 2\<rparr>, tc_new_text = ''XY''\<rparr>, \<lparr>tc_text_range = \<lparr>tr_pos = 4, tr_end = 4\<rparr>, tc_new_text = ''Z''\<rparr>]
   = Some ''aXYcdZe''"
proof -
  have "enc [97, 98, 99, 100, 101] = ''abcde''" by code_simp
  then show ?thesis
    using bulk_edits_exact [of "[([97], [98], ''XY''), ([99, 100], [], ''Z'')]" "[101]"]
    by (simp add: is_scalar_def len_utf8_def) (simp add: utf8_encode_def)
qed

end
