(* ===== verification/Utf8Lossy.thy ===== *)
theory Utf8Lossy
  imports Utf8
begin

text \<open>
  Bytes that need not be UTF-8: \<open>String::from_utf8_lossy\<close> of the standard library. \<open>utf8_chunk\<close> gives
  the length of the character at the start, or of the bytes that stand for one replacement character.
\<close>

definition byte_or_0 :: "string \<Rightarrow> nat \<Rightarrow> nat" where
  "byte_or_0 s i = (if i < length s then byte (s ! i) else 0)"

definition continues :: "string \<Rightarrow> nat \<Rightarrow> bool" where
  "continues s i \<longleftrightarrow> 0x80 \<le> byte_or_0 s i \<and> byte_or_0 s i < 0xC0"

definition second_byte_ok :: "nat \<Rightarrow> nat \<Rightarrow> bool" where
  "second_byte_ok b c \<longleftrightarrow>
     (if b = 0xE0 then 0xA0 \<le> c \<and> c < 0xC0
      else if b = 0xED then 0x80 \<le> c \<and> c < 0xA0
      else if b = 0xF0 then 0x90 \<le> c \<and> c < 0xC0
      else if b = 0xF4 then 0x80 \<le> c \<and> c < 0x90
      else 0x80 \<le> c \<and> c < 0xC0)"

definition utf8_chunk :: "string \<Rightarrow> bool \<times> nat" where
  "utf8_chunk s =
     (let b = byte_or_0 s 0 in
      if b < 0x80 then (True, 1)
      else if 0xC2 \<le> b \<and> b < 0xE0 then (if continues s 1 then (True, 2) else (False, 1))
      else if 0xE0 \<le> b \<and> b < 0xF0 then
        (if \<not> second_byte_ok b (byte_or_0 s 1) then (False, 1)
         else if continues s 2 then (True, 3) else (False, 2))
      else if 0xF0 \<le> b \<and> b < 0xF5 then
        (if \<not> second_byte_ok b (byte_or_0 s 1) then (False, 1)
         else if \<not> continues s 2 then (False, 2)
         else if continues s 3 then (True, 4) else (False, 3))
      else (False, 1))"

function from_utf8_lossy :: "string \<Rightarrow> string" where
  "from_utf8_lossy s =
     (if s = [] then []
      else let (valid, n) = utf8_chunk s in
        (if valid then take n s else utf8_encode 0xFFFD) @ from_utf8_lossy (drop n s))"
  by pat_completeness auto
termination
  by (relation "measure length") (auto simp: utf8_chunk_def Let_def split: if_splits)

declare from_utf8_lossy.simps [simp del]

lemma utf8_chunk_scalar:
  assumes "is_scalar c"
  shows "utf8_chunk (utf8_encode c @ s) = (True, len_utf8 c)"
proof -
  have c: "c < 0x110000" and sur: "\<not> (0xD800 \<le> c \<and> c < 0xE000)" using assms by (simp_all add: is_scalar_def)
  consider "c < 0x80" | "0x80 \<le> c" "c < 0x800" | "0x800 \<le> c" "c < 0x10000" | "0x10000 \<le> c" by linarith
  then show ?thesis
  proof cases
    case 1
    then show ?thesis by (simp add: utf8_chunk_def byte_or_0_def utf8_encode_def len_utf8_def)
  next
    case 2
    then have "2 \<le> c div 64" "c div 64 < 32" by simp_all
    then show ?thesis using 2
      by (simp add: utf8_chunk_def byte_or_0_def utf8_encode_def len_utf8_def continues_def Let_def)
  next
    case 3
    define d where "d = c div 4096"
    define e where "e = c div 64 mod 64"
    have ranges: "d < 16" "e < 64" using 3 by (simp_all add: d_def e_def)
    have "c div 64 = d * 64 + e" using base64_digits_of_rune(2) [of c] by (simp add: d_def e_def)
    moreover have "c div 64 * 64 \<le> c" "c < c div 64 * 64 + 64" by simp_all
    ultimately have c_de: "d * 4096 + e * 64 \<le> c" "c < d * 4096 + e * 64 + 64" by linarith+
    then have low: "d = 0 \<Longrightarrow> 32 \<le> e" using 3 by linarith
    have high: "e < 32" if d: "d = 13"
      using c_de sur ranges(2) unfolding d by (cases "c < 0xD800") auto
    show ?thesis using 3 ranges low high
      by (simp add: utf8_chunk_def byte_or_0_def utf8_encode_def len_utf8_def continues_def second_byte_ok_def
          Let_def
          d_def [symmetric] e_def [symmetric])
  next
    case 4
    define d where "d = c div 262144"
    define e where "e = c div 4096 mod 64"
    have ranges: "d < 5" "e < 64" using c by (simp_all add: d_def e_def)
    have "c div 4096 = d * 64 + e" using base64_digits_of_rune(3) [of c] by (simp add: d_def e_def)
    moreover have "c div 4096 * 4096 \<le> c" "c < c div 4096 * 4096 + 4096" by simp_all
    ultimately have low: "d = 0 \<Longrightarrow> 16 \<le> e" and high: "d = 4 \<Longrightarrow> e < 16" using 4 c by linarith+
    show ?thesis using 4 ranges low high
      by (simp add: utf8_chunk_def byte_or_0_def utf8_encode_def len_utf8_def continues_def second_byte_ok_def
          Let_def
          d_def [symmetric] e_def [symmetric])
  qed
qed

text \<open>Text that is UTF-8 is kept.\<close>

lemma from_utf8_lossy_enc: "runes cs \<Longrightarrow> from_utf8_lossy (enc cs) = enc cs"
proof (induction cs)
  case Nil
  then show ?case by (simp add: from_utf8_lossy.simps [of "[]"])
next
  case (Cons c cs)
  then show ?case by (simp add: from_utf8_lossy.simps [of "utf8_encode c @ enc cs"] utf8_chunk_scalar)
qed

end
