(* ===== verification/DocumentUri.thy ===== *)
theory DocumentUri
  imports TsPath Utf8Lossy
begin

text \<open>
  Document URIs and file names: \<open>file_name_to_document_uri\<close> (\<open>crates/ts-ls/src/lsconv/converters.rs\<close>) and the
  \<open>file_name\<close> of a \<open>DocumentUri\<close> (\<open>crates/ts-lsproto/src/lsp.rs\<close>). The path that the \<open>url\<close> crate finds in a
  file URI is a parameter; a panic is \<open>None\<close>.
\<close>

section \<open>Percent encoding\<close>

definition hex_value :: "char \<Rightarrow> nat option" where
  "hex_value c =
     (let b = byte c in
      if 48 \<le> b \<and> b \<le> 57 then Some (b - 48)
      else if 97 \<le> b \<and> b \<le> 102 then Some (b - 97 + 10)
      else if 65 \<le> b \<and> b \<le> 70 then Some (b - 65 + 10)
      else None)"

function percent_decode_loop :: "string \<Rightarrow> nat \<Rightarrow> string" where
  "percent_decode_loop s i =
     (if i < length s then
        case (if s ! i = CHR ''%'' \<and> i + 2 < length s then
                (case (hex_value (s ! (i + 1)), hex_value (s ! (i + 2))) of
                   (Some hi, Some lo) \<Rightarrow> Some (char_of (hi * 16 + lo))
                 | _ \<Rightarrow> None)
              else None) of
          Some c \<Rightarrow> c # percent_decode_loop s (i + 3)
        | None \<Rightarrow> (s ! i) # percent_decode_loop s (i + 1)
      else [])"
  by pat_completeness auto
termination by (relation "measure (\<lambda>(s, i). length s - i)") auto

declare percent_decode_loop.simps [simp del]

definition percent_decode_path :: "string \<Rightarrow> string" where
  "percent_decode_path path = from_utf8_lossy (percent_decode_loop path 0)"

text \<open>\<open>format!("%{:02X}")\<close> of a byte\<close>

definition hex_digit_upper :: "nat \<Rightarrow> char" where
  "hex_digit_upper d = char_of (if d < 10 then 48 + d else 55 + d)"

definition percent_byte :: "char \<Rightarrow> string" where
  "percent_byte c = [CHR ''%'', hex_digit_upper (byte c div 16), hex_digit_upper (byte c mod 16)]"

definition uri_unreserved :: "rune \<Rightarrow> bool" where
  "uri_unreserved ch \<longleftrightarrow> ch < 0x80 \<and> (is_ascii_alphanumeric (char_of ch) \<or> char_of ch \<in> set ''-_.~'')"

definition path_escape :: "string \<Rightarrow> string" where
  "path_escape value =
     concat (map (\<lambda>ch. if uri_unreserved ch then utf8_encode ch else concat (map percent_byte (utf8_encode ch))) (chars_of value))"

definition replace_char :: "char \<Rightarrow> string \<Rightarrow> string \<Rightarrow> string" where
  "replace_char c r s = concat (map (\<lambda>x. if x = c then r else [x]) s)"

definition extra_escape_table :: "(char \<times> string) list" where
  "extra_escape_table =
     [(CHR '':'', ''%3A''), (CHR ''/'', ''%2F''), (CHR ''?'', ''%3F''), (CHR ''#'', ''%23''), (CHR ''['', ''%5B''),
      (CHR '']'', ''%5D''), (CHR ''@'', ''%40''), (CHR ''!'', ''%21''), (CHR ''$'', ''%24''), (CHR ''&'', ''%26''),
      (CHR 0x27, ''%27''), (CHR ''('', ''%28''), (CHR '')'', ''%29''), (CHR ''*'', ''%2A''), (CHR ''+'', ''%2B''),
      (CHR '','', ''%2C''), (CHR '';'', ''%3B''), (CHR ''='', ''%3D''), (CHR '' '', ''%20'')]"

definition extra_escape_replace :: "string \<Rightarrow> string" where
  "extra_escape_replace value = foldl (\<lambda>s (c, r). replace_char c r s) value extra_escape_table"

section \<open>From file names to URIs and back\<close>

text \<open>\<open>bundled::is_bundled\<close> when the library files are embedded.\<close>

definition is_bundled :: "string \<Rightarrow> bool" where
  "is_bundled path \<longleftrightarrow> prefix ''bundled:///'' path"

fun trim_start_slashes :: "string \<Rightarrow> string" where
  "trim_start_slashes (a # b # s) = (if a = CHR ''/'' \<and> b = CHR ''/'' then trim_start_slashes s else a # b # s)"
| "trim_start_slashes s = s"

definition file_name_to_document_uri :: "string \<Rightarrow> string option" where
  "file_name_to_document_uri file_name =
     (if is_bundled file_name then Some file_name
      else if is_dynamic_file_name file_name then
        (case split_once_on (CHR ''/'') (drop 2 file_name) of
           None \<Rightarrow> None
         | Some (scheme, rest) \<Rightarrow>
             (case split_once_on (CHR ''/'') rest of
                None \<Rightarrow> None
              | Some (authority, path) \<Rightarrow>
                  if authority = ''ts-nul-authority'' then Some (scheme @ '':'' @ path)
                  else Some (scheme @ ''://'' @ authority @ ''/'' @ path)))
      else
        let (volume, file_name) = (case split_volume_path file_name of Some vf \<Rightarrow> vf | None \<Rightarrow> ([], file_name));
            volume = (if volume \<noteq> [] then ''/'' @ extra_escape_replace volume else volume);
            file_name = trim_start_slashes file_name;
            parts = map (\<lambda>part. extra_escape_replace (path_escape part)) (split_on (CHR ''/'') file_name) in
        Some (''file://'' @ volume @ join ''/'' parts))"

definition fix_windows_uri_path :: "string \<Rightarrow> string" where
  "fix_windows_uri_path path =
     (case path of
        CHR ''/'' # rest \<Rightarrow> (case split_volume_path rest of Some (volume, rest) \<Rightarrow> volume @ rest | None \<Rightarrow> path)
      | _ \<Rightarrow> path)"

definition file_uri_authority :: "string \<Rightarrow> string option" where
  "file_uri_authority uri =
     (if \<not> prefix ''file://'' uri then None
      else let rest = drop 7 uri in
        if prefix ''/'' rest then None else Some (takeWhile (\<lambda>c. c \<notin> set ''/?#'') rest))"

definition document_uri_file_name :: "(string \<Rightarrow> string option) \<Rightarrow> string \<Rightarrow> string option" where
  "document_uri_file_name url_path uri =
     (if is_bundled uri then Some uri
      else if prefix ''file://'' uri then
        (case url_path uri of
           None \<Rightarrow> None
         | Some parsed \<Rightarrow>
             let path = percent_decode_path parsed in
             (case file_uri_authority uri of
                Some authority \<Rightarrow> if authority \<noteq> [] then Some (''//'' @ authority @ path) else Some (fix_windows_uri_path path)
              | None \<Rightarrow> Some (fix_windows_uri_path path)))
      else
        (case split_once_on (CHR '':'') uri of
           None \<Rightarrow> None
         | Some (scheme, path) \<Rightarrow>
             (if prefix ''//'' path then
                (case split_once_on (CHR ''/'') (drop 2 path) of
                   None \<Rightarrow> None
                 | Some (authority, path) \<Rightarrow> Some (''^/'' @ scheme @ ''/'' @ authority @ ''/'' @ path))
              else Some (''^/'' @ scheme @ ''/'' @ ''ts-nul-authority'' @ ''/'' @ path))))"

section \<open>Decoding what was encoded\<close>

lemma percent_decode_loop_drop: "percent_decode_loop s i = percent_decode_loop (drop i s) 0"
proof -
  have "percent_decode_loop (p @ s) (length p + i) = percent_decode_loop s i" for p s i
  proof (induction s i rule: percent_decode_loop.induct)
    case (1 s i)
    show ?case
      using 1(1) 1(2)
      by (subst (1 2) percent_decode_loop.simps)
        (simp add: nth_append add.assoc [symmetric] split: option.splits)
  qed
  from this [of "take i s" "drop i s" 0] show ?thesis
    by (cases "i \<le> length s") (auto simp: min_def percent_decode_loop.simps [of s i] percent_decode_loop.simps [of "[]"] split: if_splits)
qed

definition percent_decoded :: "string \<Rightarrow> string" where
  "percent_decoded s = percent_decode_loop s 0"

lemma percent_decoded_plain: "c \<noteq> CHR ''%'' \<Longrightarrow> percent_decoded (c # s) = c # percent_decoded s"
  by (simp add: percent_decoded_def percent_decode_loop.simps [of "c # s"] percent_decode_loop_drop [of _ "Suc 0"])

lemma percent_decoded_Nil [simp]: "percent_decoded [] = []"
  by (simp add: percent_decoded_def percent_decode_loop.simps)

lemma hex_value_digit: "d < 16 \<Longrightarrow> hex_value (hex_digit_upper d) = Some d"
  by (simp add: hex_value_def hex_digit_upper_def Let_def)

lemma percent_decoded_byte: "percent_decoded (percent_byte c @ s) = c # percent_decoded s"
proof -
  have b: "byte c < 256" by (simp add: byte_def)
  then have "byte c div 16 < 16" by simp
  moreover have "char_of (byte c div 16 * 16 + byte c mod 16) = c" by (simp add: byte_def)
  ultimately show ?thesis
    by (simp add: percent_decoded_def percent_byte_def percent_decode_loop.simps [of "CHR ''%'' # _"] hex_value_digit
        percent_decode_loop_drop [of _ 3])
qed

definition escaped_rune :: "rune \<Rightarrow> string" where
  "escaped_rune ch = (if uri_unreserved ch then utf8_encode ch else concat (map percent_byte (utf8_encode ch)))"

lemma percent_decoded_bytes: "percent_decoded (concat (map percent_byte w) @ s) = w @ percent_decoded s"
  by (induction w) (simp_all add: percent_decoded_byte)

lemma percent_decoded_escaped_rune: "percent_decoded (escaped_rune ch @ s) = utf8_encode ch @ percent_decoded s"
proof (cases "uri_unreserved ch")
  case True
  then have "ch < 0x80" by (simp add: uri_unreserved_def)
  moreover have "\<not> (is_ascii_alphanumeric CHR ''%'' \<or> CHR ''%'' \<in> set ''-_.~'')" by (simp add: char_class_defs)
  then have "char_of ch \<noteq> CHR ''%''" using True by (metis uri_unreserved_def)
  ultimately show ?thesis using True by (simp add: escaped_rune_def utf8_encode_ascii percent_decoded_plain)
next
  case False
  then show ?thesis by (simp add: escaped_rune_def percent_decoded_bytes)
qed

lemma path_escape_enc: "runes cs \<Longrightarrow> path_escape (enc cs) = concat (map escaped_rune cs)"
  by (simp add: path_escape_def chars_of_enc escaped_rune_def [abs_def])

lemma percent_decoded_escaped: "percent_decoded (concat (map escaped_rune cs) @ s) = enc cs @ percent_decoded s"
  by (induction cs) (simp_all add: percent_decoded_escaped_rune)

lemma percent_decoded_escape: "runes cs \<Longrightarrow> percent_decoded (path_escape (enc cs) @ s) = enc cs @ percent_decoded s"
  by (simp add: path_escape_enc percent_decoded_escaped)

section \<open>File names\<close>

lemma high_rune_bytes: "is_scalar c \<Longrightarrow> 0x80 \<le> c \<Longrightarrow> x \<in> set (utf8_encode c) \<Longrightarrow> 0x80 \<le> byte x"
  by (auto simp: utf8_encode_def is_scalar_def split: if_splits)

lemma split_on_word: "d \<notin> set w \<Longrightarrow> split_on d (w @ s) = (w @ hd (split_on d s)) # tl (split_on d s)"
  by (induction w) auto

lemma char_of_slash: "char_of (47 :: nat) = CHR ''/''"
  by code_simp

lemma segments_are_texts: "runes cs \<Longrightarrow> \<exists>css. split_on (CHR ''/'') (enc cs) = map enc css \<and> list_all runes css"
proof (induction cs)
  case Nil
  show ?case by (intro exI [of _ "[[]]"]) simp
next
  case (Cons c cs)
  then obtain css where css: "split_on (CHR ''/'') (enc cs) = map enc css" "list_all runes css" by auto
  then obtain w ws where ws: "css = w # ws" using split_on_neq_Nil by (cases css) auto
  show ?case
  proof (cases "c = 47")
    case True
    then show ?thesis using css by (intro exI [of _ "[] # css"]) (simp add: utf8_encode_ascii char_of_slash)
  next
    case False
    have "CHR ''/'' \<notin> set (utf8_encode c)"
    proof (cases "c < 0x80")
      case True
      have "byte (char_of c) \<noteq> byte (CHR ''/'')" using True False by (simp add: byte_def)
      then show ?thesis using True by (auto simp: utf8_encode_ascii)
    next
      case high: False
      then show ?thesis using high_rune_bytes [of c "CHR ''/''"] Cons.prems by (auto simp: byte_def)
    qed
    then show ?thesis using css ws Cons.prems by (intro exI [of _ "(c # w) # ws"]) (simp add: split_on_word)
  qed
qed

definition url_path_char :: "char \<Rightarrow> bool" where
  "url_path_char x \<longleftrightarrow> is_ascii_alphanumeric x \<or> x \<in> set ''-_.~%''"

lemma url_path_char_not_escaped: "url_path_char x \<Longrightarrow> x \<notin> fst ` set extra_escape_table"
  by (auto simp: url_path_char_def extra_escape_table_def char_class_defs)

lemma replace_char_absent: "c \<notin> set s \<Longrightarrow> replace_char c r s = s"
  by (induction s) (auto simp: replace_char_def)

lemma extra_escape_plain:
  assumes "list_all url_path_char s"
  shows "extra_escape_replace s = s"
proof -
  have "fst ` set t \<inter> set s = {} \<Longrightarrow> foldl (\<lambda>s (c, r). replace_char c r s) s t = s" for t
    by (induction t) (auto simp: replace_char_absent)
  moreover have "fst ` set extra_escape_table \<inter> set s = {}"
    using assms url_path_char_not_escaped by (auto simp: list_all_iff)
  ultimately show ?thesis by (simp add: extra_escape_replace_def)
qed

lemma hex_digit_upper_plain: "d < 16 \<Longrightarrow> url_path_char (hex_digit_upper d)"
  by (simp add: url_path_char_def hex_digit_upper_def char_class_defs)

lemma escaped_rune_plain: "list_all url_path_char (escaped_rune ch)"
proof (cases "uri_unreserved ch")
  case True
  then show ?thesis by (auto simp: escaped_rune_def uri_unreserved_def utf8_encode_ascii url_path_char_def)
next
  case False
  have "list_all url_path_char (percent_byte x)" for x
  proof -
    have "byte x < 256" by (simp add: byte_def)
    then have "byte x div 16 < 16" by simp
    then show ?thesis by (simp add: percent_byte_def hex_digit_upper_plain) (simp add: url_path_char_def)
  qed
  then show ?thesis using False by (simp add: escaped_rune_def list_all_iff)
qed

lemma escaped_part:
  assumes "runes cs"
  shows "extra_escape_replace (path_escape (enc cs)) = concat (map escaped_rune cs)"
    and "list_all url_path_char (concat (map escaped_rune cs))"
proof -
  show "list_all url_path_char (concat (map escaped_rune cs))"
    using escaped_rune_plain by (auto simp: list_all_iff)
  then show "extra_escape_replace (path_escape (enc cs)) = concat (map escaped_rune cs)"
    using assms by (simp add: path_escape_enc extra_escape_plain)
qed

lemma percent_decoded_join:
  "percent_decoded (join ''/'' (map (\<lambda>cs. concat (map escaped_rune cs)) css)) = join ''/'' (map enc css)"
proof (induction "''/''" "map (\<lambda>cs. concat (map escaped_rune cs)) css" arbitrary: css rule: join.induct)
  case (2 w)
  then show ?case using percent_decoded_escaped [of _ "[]"] by auto
next
  case (3 w v ws)
  then obtain a b cs where css: "css = a # b # cs" by (auto simp: map_eq_Cons_conv Cons_eq_map_conv)
  then show ?case using 3(1) [of "b # cs"] 3(2)
    by (simp add: percent_decoded_escaped percent_decoded_plain)
qed simp

text \<open>Paths of file URIs that have only plain characters and no dot segments; the \<open>url\<close> crate returns them as they are.\<close>

definition plain_url_path :: "string \<Rightarrow> bool" where
  "plain_url_path p \<longleftrightarrow>
     prefix ''/'' p \<and> \<not> prefix ''//'' p \<and> list_all (\<lambda>x. url_path_char x \<or> x = CHR ''/'') p
     \<and> (\<forall>s\<in>set (split_on (CHR ''/'') p). s \<noteq> ''.'' \<and> s \<noteq> ''..'')"

definition rooted_rest :: "string \<Rightarrow> bool" where
  "rooted_rest r \<longleftrightarrow> prefix ''/'' r \<and> \<not> prefix ''//'' r"

text \<open>Absolute file names in normal form: after the root, or after a volume in lower case, with single separators at
  the front and without dot segments.\<close>

definition rooted_file_name :: "string \<Rightarrow> bool" where
  "rooted_file_name f \<longleftrightarrow>
     (\<forall>s\<in>set (split_on (CHR ''/'') f). s \<noteq> ''.'' \<and> s \<noteq> ''..'')
     \<and> (case split_volume_path f of
           Some (volume, rest) \<Rightarrow> volume @ rest = f \<and> rooted_rest rest
         | None \<Rightarrow> rooted_rest f \<and> split_volume_path (tl f) = None)"

definition escaped_segments :: "rune list list \<Rightarrow> string" where
  "escaped_segments css = join ''/'' (map (\<lambda>cs. concat (map escaped_rune cs)) css)"

lemma escaped_segment_neq_Nil: "concat (map escaped_rune cs) = [] \<longleftrightarrow> cs = []"
  by (cases cs) (auto simp: escaped_rune_def percent_byte_def split: list.splits)

lemma slash_not_plain: "\<not> url_path_char (CHR ''/'')"
  by (simp add: url_path_char_def char_class_defs)

lemma split_escaped_segments:
  "css \<noteq> [] \<Longrightarrow> split_on (CHR ''/'') (escaped_segments css) = map (\<lambda>cs. concat (map escaped_rune cs)) css"
  unfolding escaped_segments_def using escaped_rune_plain slash_not_plain
  by (intro split_on_join) (auto simp: list_all_iff)

lemma plain_escaped_segments:
  assumes "b \<noteq> [] \<or> rest = []" and dots: "\<forall>cs\<in>set (b # rest). enc cs \<noteq> ''.'' \<and> enc cs \<noteq> ''..''"
  shows "plain_url_path (escaped_segments ([] # b # rest))"
proof -
  let ?P = "escaped_segments ([] # b # rest)"
  have P: "?P = CHR ''/'' # escaped_segments (b # rest)" by (simp add: escaped_segments_def)
  have "\<not> prefix ''//'' ?P"
  proof (cases b)
    case Nil
    then show ?thesis using assms(1) by (simp add: P escaped_segments_def)
  next
    case (Cons c cs)
    obtain x xs where x: "escaped_rune c = x # xs" using escaped_segment_neq_Nil [of "[c]"] by (cases "escaped_rune c") auto
    then have "x \<noteq> CHR ''/''" using escaped_rune_plain [of c] slash_not_plain by auto
    moreover have "\<exists>ys. escaped_segments (b # rest) = x # ys"
      using x Cons by (cases rest) (simp_all add: escaped_segments_def)
    ultimately show ?thesis by (auto simp: P)
  qed
  moreover
  have "set ?P \<subseteq> {CHR ''/''} \<union> (\<Union>w\<in>set (map (\<lambda>cs. concat (map escaped_rune cs)) ([] # b # rest)). set w)"
    using set_join [of "''/''"] unfolding escaped_segments_def by fastforce
  then have "list_all (\<lambda>x. url_path_char x \<or> x = CHR ''/'') ?P"
    using escaped_rune_plain by (fastforce simp: list_all_iff)
  moreover have "concat (map escaped_rune cs) \<noteq> s" if "s \<in> {''.'', ''..''}" "cs \<in> set (b # rest)" for s cs
  proof
    assume "concat (map escaped_rune cs) = s"
    then have "enc cs = percent_decoded s" using percent_decoded_escaped [of cs "[]"] by simp
    also have "\<dots> = s" using that(1) by (auto simp: percent_decoded_plain)
    finally show False using dots that by blast
  qed
  ultimately show ?thesis
    by (auto simp: plain_url_path_def split_escaped_segments) (auto simp: P)
qed

lemma file_name_of_escaped_segments:
  assumes url: "\<forall>p. plain_url_path p \<longrightarrow> url_path (''file://'' @ p) = Some p"
    and "b \<noteq> [] \<or> rest = []" "\<forall>cs\<in>set (b # rest). enc cs \<noteq> ''.'' \<and> enc cs \<noteq> ''..''"
    and tx: "runes cs" "enc cs = join ''/'' (map enc ([] # b # rest))"
  shows "document_uri_file_name url_path (''file://'' @ escaped_segments ([] # b # rest)) = Some (fix_windows_uri_path (enc cs))"
proof -
  let ?P = "escaped_segments ([] # b # rest)"
  have plain: "plain_url_path ?P" using plain_escaped_segments assms(2,3) by blast
  then have "file_uri_authority (''file://'' @ ?P) = None"
    by (simp add: file_uri_authority_def plain_url_path_def)
  moreover have "percent_decoded ?P = enc cs"
    using percent_decoded_join [of "[] # b # rest"] tx(2) by (simp add: escaped_segments_def)
  then have "percent_decode_path ?P = enc cs"
    using tx(1) by (simp add: percent_decode_path_def percent_decoded_def from_utf8_lossy_enc)
  ultimately show ?thesis using url plain by (simp add: document_uri_file_name_def is_bundled_def)
qed

lemma escaped_segments_of_rest:
  assumes r: "rooted_rest r" and css: "split_on (CHR ''/'') r = map enc css" "list_all runes css"
  obtains b rest where "css = [] # b # rest" "b \<noteq> [] \<or> rest = []"
    and "join ''/'' (map (\<lambda>part. extra_escape_replace (path_escape part)) (split_on (CHR ''/'') (trim_start_slashes r)))
         = escaped_segments css"
proof -
  from r obtain r' where r': "r = CHR ''/'' # r'" "\<not> prefix ''/'' r'"
    by (auto simp: rooted_rest_def prefix_def)
  then have split: "split_on (CHR ''/'') r = [] # split_on (CHR ''/'') r'" by simp
  then obtain b rest where b: "css = [] # b # rest" "split_on (CHR ''/'') r' = enc b # map enc rest"
    using css(1) by (cases css; cases "tl css") (auto dest: sym [of "[]"])
  have "b \<noteq> [] \<or> rest = []"
  proof (rule ccontr)
    assume "\<not> ?thesis"
    then have "r' = CHR ''/'' # join ''/'' (map enc rest)"
      using b(2) join_split_on [of "CHR ''/''" r'] by (cases rest) auto
    then show False using r'(2) by simp
  qed
  moreover have "trim_start_slashes r = r" using r' by (cases r') auto
  moreover have "map (\<lambda>part. extra_escape_replace (path_escape part)) (map enc css) = map (\<lambda>cs. concat (map escaped_rune cs)) css"
    using css(2) by (auto simp: list_all_iff escaped_part)
  ultimately show ?thesis using that [OF b(1)] css(1) unfolding escaped_segments_def by metis
qed

lemma escaped_volume:
  assumes "is_volume_character (char_of a)" "a < 0x80"
  shows "extra_escape_replace [char_of a, CHR '':''] = char_of a # ''%3A''"
    and "concat (map escaped_rune [a, 58]) = char_of a # ''%3A''"
proof -
  have a: "url_path_char (char_of a)" "uri_unreserved a"
    using assms by (auto simp: is_volume_character_def url_path_char_def uri_unreserved_def is_ascii_alphanumeric_def)
  have "concat (map escaped_rune [58]) = ''%3A''" by code_simp
  then show "concat (map escaped_rune [a, 58]) = char_of a # ''%3A''"
    using a assms(2) by (simp add: escaped_rune_def [of a] utf8_encode_ascii)
  have "replace_char (CHR '':'') ''%3A'' [char_of a, CHR '':''] = char_of a # ''%3A''"
    using url_path_char_not_escaped [OF a(1)] by (simp add: replace_char_def extra_escape_table_def)
  moreover have "extra_escape_replace (char_of a # ''%3A'') = char_of a # ''%3A''"
    using a(1) by (intro extra_escape_plain) (simp add: url_path_char_def char_class_defs)
  moreover have "CHR '':'' \<notin> set (char_of a # ''%3A'')"
    using url_path_char_not_escaped [OF a(1)] by (auto simp: extra_escape_table_def)
  then have "replace_char (CHR '':'') ''%3A'' (char_of a # ''%3A'') = char_of a # ''%3A''"
    by (rule replace_char_absent)
  ultimately show "extra_escape_replace [char_of a, CHR '':''] = char_of a # ''%3A''"
    by (simp add: extra_escape_replace_def extra_escape_table_def)
qed

lemma char_of_colon: "char_of (58 :: nat) = CHR '':''"
  by code_simp

lemma ascii_rune:
  assumes "runes cs" "enc cs = x # s" "byte x < 0x80"
  obtains cs' where "cs = byte x # cs'" "enc cs' = s"
proof (cases cs)
  case Nil
  then show ?thesis using assms(2) by simp
next
  case (Cons c cs')
  have "c < 0x80"
  proof (rule ccontr)
    assume "\<not> ?thesis"
    then have "0x80 \<le> byte (hd (utf8_encode c))" using assms(1) Cons by (intro high_rune_bytes) auto
    moreover have "hd (utf8_encode c) = x" using assms(2) Cons by (cases "utf8_encode c") auto
    ultimately show False using assms(3) by simp
  qed
  then show ?thesis using that [of cs'] Cons assms(2) by (auto simp: utf8_encode_ascii)
qed

lemma rooted_uri:
  assumes url: "\<forall>p. plain_url_path p \<longrightarrow> url_path (''file://'' @ p) = Some p"
    and "runes cs" and f: "rooted_file_name (enc cs)" and None: "split_volume_path (enc cs) = None"
  shows "Option.bind (file_name_to_document_uri (enc cs)) (document_uri_file_name url_path) = Some (enc cs)"
proof -
  obtain css where css: "split_on (CHR ''/'') (enc cs) = map enc css" "list_all runes css"
    using segments_are_texts [OF assms(2)] by blast
  have dots: "\<forall>cs\<in>set css. enc cs \<noteq> ''.'' \<and> enc cs \<noteq> ''..''"
    using f css(1) by (auto simp: rooted_file_name_def)
  have r: "rooted_rest (enc cs)" and novol: "split_volume_path (tl (enc cs)) = None" using None f by (auto simp: rooted_file_name_def)
  obtain b rest where b: "css = [] # b # rest" "b \<noteq> [] \<or> rest = []"
    "join ''/'' (map (\<lambda>part. extra_escape_replace (path_escape part)) (split_on (CHR ''/'') (trim_start_slashes (enc cs))))
       = escaped_segments css"
    using escaped_segments_of_rest [OF r css] by blast
  have "\<not> is_bundled (enc cs)" "\<not> is_dynamic_file_name (enc cs)"
    using r by (auto simp: rooted_rest_def is_bundled_def is_dynamic_file_name_def prefix_def)
  then have "file_name_to_document_uri (enc cs) = Some (''file://'' @ escaped_segments css)"
    using None b(3) by (simp add: file_name_to_document_uri_def)
  moreover have "enc cs = join ''/'' (map enc css)" using join_split_on [of "CHR ''/''" "enc cs"] css(1) by simp
  then have "document_uri_file_name url_path (''file://'' @ escaped_segments css) = Some (fix_windows_uri_path (enc cs))"
    using file_name_of_escaped_segments [OF url b(2) _ assms(2)] dots unfolding b(1) by simp
  moreover have "fix_windows_uri_path (enc cs) = enc cs"
    using novol r by (auto simp: fix_windows_uri_path_def rooted_rest_def prefix_def)
  ultimately show ?thesis by simp
qed

lemma volume_uri:
  assumes url: "\<forall>p. plain_url_path p \<longrightarrow> url_path (''file://'' @ p) = Some p"
    and "runes cs" and f: "rooted_file_name (enc cs)" and Some: "split_volume_path (enc cs) = Some vr"
  shows "Option.bind (file_name_to_document_uri (enc cs)) (document_uri_file_name url_path) = Some (enc cs)"
proof -
  from Some obtain x r where e: "enc cs = x # CHR '':'' # r" and x: "is_volume_character x"
    and vr: "vr = (to_ascii_lowercase [x, CHR '':''], r)"
    by (cases "enc cs"; cases "tl (enc cs)") (auto simp: split_volume_path_def split: if_splits)
  then have low: "to_ascii_lowercase [x, CHR '':''] = [x, CHR '':'']" and r: "rooted_rest r"
    using f Some by (auto simp: rooted_file_name_def)
  have x_plain: "byte x < 0x80" "x \<noteq> CHR ''/''" using x by (auto simp: is_volume_character_def char_class_defs byte_def)
  obtain cs1 where cs1: "cs = byte x # cs1" "enc cs1 = CHR '':'' # r"
    using ascii_rune [OF assms(2) e x_plain(1)] by blast
  obtain cs' where cs': "cs1 = byte CHR '':'' # cs'" "enc cs' = r"
  proof (rule ascii_rune [OF _ cs1(2)])
    show "runes cs1" using assms(2) cs1(1) by simp
    show "byte CHR '':'' < 0x80" by (simp add: byte_def)
  qed
  have cs: "cs = byte x # 58 # cs'" "enc cs' = r"
    using cs1(1) cs' by (simp_all add: byte_def)
  obtain dss where dss: "split_on (CHR ''/'') r = map enc dss" "list_all runes dss"
    using segments_are_texts [of cs'] assms(2) cs by auto
  obtain b rest where b: "dss = [] # b # rest" "b \<noteq> [] \<or> rest = []"
    "join ''/'' (map (\<lambda>part. extra_escape_replace (path_escape part)) (split_on (CHR ''/'') (trim_start_slashes r)))
       = escaped_segments dss"
    using escaped_segments_of_rest [OF r dss] by blast
  let ?v = "[byte x, 58]"
  have v: "enc ?v = [x, CHR '':'']" using x_plain(1) by (simp add: utf8_encode_ascii byte_def char_of_colon)
  have "extra_escape_replace [x, CHR '':''] = concat (map escaped_rune ?v)"
    using escaped_volume [of "byte x"] x x_plain(1) by (simp add: byte_def)
  then have path: "CHR ''/'' # extra_escape_replace [x, CHR '':''] @ escaped_segments dss = escaped_segments ([] # ?v # b # rest)"
    unfolding b(1) by (simp add: escaped_segments_def)
  have "\<not> is_bundled (enc cs)" "\<not> is_dynamic_file_name (enc cs)"
    unfolding e by (simp_all add: is_bundled_def is_dynamic_file_name_def)
  then have "file_name_to_document_uri (enc cs) = Some (''file://'' @ escaped_segments ([] # ?v # b # rest))"
    using Some vr low b(3) path by (simp add: file_name_to_document_uri_def)
  moreover have "r = join ''/'' (map enc dss)" using join_split_on [of "CHR ''/''" r] dss(1) by simp
  then have tx: "enc (47 # cs) = join ''/'' (map enc ([] # ?v # b # rest))"
    using v e unfolding b(1) by (simp add: utf8_encode_ascii char_of_slash)
  have "split_on (CHR ''/'') (enc cs) = map enc (?v # b # rest)"
    using e x_plain(2) dss(1) v unfolding b(1) by simp
  then have "\<forall>cs\<in>set (?v # b # rest). enc cs \<noteq> ''.'' \<and> enc cs \<noteq> ''..''"
    using f by (auto simp: rooted_file_name_def)
  then have "document_uri_file_name url_path (''file://'' @ escaped_segments ([] # ?v # b # rest))
      = Some (fix_windows_uri_path (enc (47 # cs)))"
    using file_name_of_escaped_segments [OF url _ _ _ tx] assms(2) by (simp add: is_scalar_def)
  moreover have "fix_windows_uri_path (enc (47 # cs)) = enc cs"
    using Some vr low e by (simp add: fix_windows_uri_path_def utf8_encode_ascii char_of_slash)
  ultimately show ?thesis by simp
qed



text \<open>A URI of another scheme is kept through its dynamic file name, unless it names the authority that stands
  for the missing one.\<close>

theorem foreign_uri_roundtrip:
  assumes "\<not> prefix ''file://'' uri" "\<not> is_bundled uri"
    and "split_once_on (CHR '':'') uri = Some (scheme, path)" "CHR ''/'' \<notin> set scheme"
    and "\<not> prefix ''//ts-nul-authority/'' path"
    and f: "document_uri_file_name url_path uri = Some file_name"
  shows "file_name_to_document_uri file_name = Some uri"
proof -
  have uri: "uri = scheme @ CHR '':'' # path" using split_once_on_SomeD assms(3) by blast
  show ?thesis
  proof (cases "prefix ''//'' path")
    case True
    then obtain a p where a: "split_once_on (CHR ''/'') (drop 2 path) = Some (a, p)"
      and name: "file_name = ''^/'' @ scheme @ ''/'' @ a @ ''/'' @ p"
      using assms by (auto simp: document_uri_file_name_def split: option.splits)
    have path: "path = ''//'' @ a @ ''/'' @ p" "CHR ''/'' \<notin> set a"
      using True split_once_on_SomeD [OF a] by (auto simp: prefix_def)
    then have "a \<noteq> ''ts-nul-authority''" using assms(5) by (auto simp: prefix_def)
    then show ?thesis using path assms(4) by (simp add: name uri file_name_to_document_uri_def is_bundled_def is_dynamic_file_name_def)
  next
    case False
    then have "file_name = ''^/'' @ scheme @ ''/'' @ ''ts-nul-authority'' @ ''/'' @ path"
      using assms by (auto simp: document_uri_file_name_def)
    then have name: "file_name = ''^/'' @ scheme @ CHR ''/'' # ''ts-nul-authority'' @ CHR ''/'' # path" by simp
    have "split_once_on (CHR ''/'') (''ts-nul-authority'' @ CHR ''/'' # path) = Some (''ts-nul-authority'', path)"
      by (rule split_once_on_append) simp
    then show ?thesis using split_once_on_append [OF assms(4)]
      by (simp only: name) (simp add: uri file_name_to_document_uri_def is_bundled_def is_dynamic_file_name_def)
  qed
qed

theorem foreign_uri_roundtrip_witness:
  "file_name_to_document_uri ''^/untitled/ts-nul-authority/Untitled-1'' = Some ''untitled:Untitled-1''"
  by (rule foreign_uri_roundtrip [where url_path = "\<lambda>_. None" and scheme = "''untitled''" and path = "''Untitled-1''"])
    (simp_all add: is_bundled_def document_uri_file_name_def)

end
