(* ===== verification/OverlayFs.thy ===== *)
theory OverlayFs
  imports TextChange DocumentUri
begin

text \<open>
  The files that are open in the editor (\<open>crates/ts-project/src/overlayfs.rs\<close>,
  \<open>crates/ts-project/src/filechange.rs\<close>): a batch of notifications is reduced to the net events of every file,
  and these change the overlays, the texts of the open files. What a panic leaves behind is \<open>None\<close>; the tables of
  lines, which are computed on demand from the text, are no part of the state.
\<close>

section \<open>Files\<close>

datatype script_kind = Script_Unknown | Script_JS | Script_JSX | Script_TS | Script_TSX | Script_External | Script_JSON | Script_Deferred

definition language_kind_to_script_kind :: "string \<Rightarrow> script_kind" where
  "language_kind_to_script_kind language_id =
     (if language_id = ''typescript'' then Script_TS
      else if language_id = ''typescriptreact'' then Script_TSX
      else if language_id = ''javascript'' then Script_JS
      else if language_id = ''javascriptreact'' then Script_JSX
      else if language_id = ''json'' then Script_JSON
      else Script_Unknown)"

text \<open>\<open>to_lowercase\<close> of the standard library is a parameter.\<close>

definition get_script_kind_from_file_name :: "lower_case \<Rightarrow> string \<Rightarrow> script_kind" where
  "get_script_kind_from_file_name lower file_name =
     (case str_rfind (CHR ''.'') file_name of
        None \<Rightarrow> Script_Unknown
      | Some dot_pos \<Rightarrow>
          let extension = lower (drop dot_pos file_name) in
          if extension \<in> {''.js'', ''.cjs'', ''.mjs''} then Script_JS
          else if extension = ''.jsx'' then Script_JSX
          else if extension \<in> {''.ts'', ''.cts'', ''.mts''} then Script_TS
          else if extension = ''.tsx'' then Script_TSX
          else if extension = ''.json'' then Script_JSON
          else Script_Unknown)"

record 'h overlay =
  ov_file_name :: string
  ov_content :: string
  ov_hash :: 'h
  ov_version :: int
  ov_kind :: script_kind
  ov_matches_disk_text :: bool

record 'h disk_file =
  df_file_name :: string
  df_content :: string
  df_hash :: 'h
  df_needs_reload :: bool

datatype 'h file_handle = Disk "'h disk_file" | Open "'h overlay"

text \<open>What the overlays are computed from: the hash of texts, the file system, and the conversions of names.\<close>

record 'h overlay_env =
  env_hash :: "string \<Rightarrow> 'h"
  env_read_file :: "string \<Rightarrow> string option"
  env_case_sensitive :: bool
  env_lower :: lower_case
  env_url_path :: "string \<Rightarrow> string option"
  env_position_encoding :: position_encoding

type_synonym 'h overlays = "string \<rightharpoonup> 'h overlay"

definition new_disk_file :: "'h overlay_env \<Rightarrow> string \<Rightarrow> string \<Rightarrow> 'h disk_file" where
  "new_disk_file env file_name content =
     \<lparr>df_file_name = file_name, df_content = content, df_hash = env_hash env content, df_needs_reload = False\<rparr>"

definition new_overlay :: "'h overlay_env \<Rightarrow> string \<Rightarrow> string \<Rightarrow> int \<Rightarrow> script_kind \<Rightarrow> 'h overlay" where
  "new_overlay env file_name content version kind =
     \<lparr>ov_file_name = file_name, ov_content = content, ov_hash = env_hash env content, ov_version = version,
      ov_kind = kind, ov_matches_disk_text = False\<rparr>"

definition handle_content :: "'h file_handle \<Rightarrow> string" where
  "handle_content f = (case f of Disk d \<Rightarrow> df_content d | Open v \<Rightarrow> ov_content v)"

definition handle_version :: "'h file_handle \<Rightarrow> int" where
  "handle_version f = (case f of Disk d \<Rightarrow> 0 | Open v \<Rightarrow> ov_version v)"

definition handle_matches_disk_text :: "'h file_handle \<Rightarrow> bool" where
  "handle_matches_disk_text f = (case f of Disk d \<Rightarrow> \<not> df_needs_reload d | Open v \<Rightarrow> ov_matches_disk_text v)"

definition handle_kind :: "lower_case \<Rightarrow> 'h file_handle \<Rightarrow> script_kind" where
  "handle_kind lower f = (case f of Disk d \<Rightarrow> get_script_kind_from_file_name lower (df_file_name d) | Open v \<Rightarrow> ov_kind v)"

definition compute_matches_disk_text :: "'h overlay_env \<Rightarrow> 'h overlay \<Rightarrow> bool \<times> bool" where
  "compute_matches_disk_text env v =
     (if is_dynamic_file_name (ov_file_name v) then (False, False)
      else
        (case env_read_file env (ov_file_name v) of
           None \<Rightarrow> (False, False)
         | Some disk_content \<Rightarrow> (env_hash env disk_content = ov_hash v, True)))"

text \<open>\<open>path_of\<close> is the function \<open>to_path\<close> that the overlay file system was made with.\<close>

definition get_file :: "'h overlay_env \<Rightarrow> (string \<Rightarrow> string) \<Rightarrow> 'h overlays \<Rightarrow> string \<Rightarrow> 'h file_handle option" where
  "get_file env path_of overlays file_name =
     (case overlays (path_of file_name) of
        Some v \<Rightarrow> Some (Open v)
      | None \<Rightarrow> map_option (\<lambda>content. Disk (new_disk_file env file_name content)) (env_read_file env file_name))"

definition uri_path :: "'h overlay_env \<Rightarrow> string \<Rightarrow> string option" where
  "uri_path env uri =
     map_option (\<lambda>f. to_path (env_lower env) f [] (env_case_sensitive env)) (document_uri_file_name (env_url_path env) uri)"

section \<open>Notifications\<close>

datatype file_change_kind = OpenChange | CloseChange | TextChange | SaveChange | WatchCreate | WatchChange | WatchDelete

definition is_watch_kind :: "file_change_kind \<Rightarrow> bool" where
  "is_watch_kind k \<longleftrightarrow> k = WatchCreate \<or> k = WatchChange \<or> k = WatchDelete"

text \<open>A change of the text is a range with its new text, or the whole text; the range comes first.\<close>

record content_change =
  cc_partial :: "((lsp_position \<times> lsp_position) \<times> string) option"
  cc_whole_document :: "string option"

record file_change =
  fc_kind :: file_change_kind
  fc_uri :: string
  fc_version :: int
  fc_content :: string
  fc_language_kind :: string
  fc_changes :: "content_change list"

record file_change_summary =
  fs_opened :: string
  fs_reopened :: string
  fs_closed :: "string set"
  fs_changed :: "string set"
  fs_created :: "string set"
  fs_deleted :: "string set"
  fs_includes_watch_change_outside_node_modules :: bool
  fs_invalidate_all :: bool

definition empty_summary :: file_change_summary where
  "empty_summary = \<lparr>fs_opened = [], fs_reopened = [], fs_closed = {}, fs_changed = {}, fs_created = {}, fs_deleted = {},
     fs_includes_watch_change_outside_node_modules = False, fs_invalidate_all = False\<rparr>"

definition summary_is_empty :: "file_change_summary \<Rightarrow> bool" where
  "summary_is_empty s \<longleftrightarrow>
     \<not> fs_invalidate_all s \<and> fs_opened s = [] \<and> fs_reopened s = [] \<and> fs_closed s = {} \<and> fs_changed s = {}
     \<and> fs_created s = {} \<and> fs_deleted s = {}"

definition excessive_change_threshold :: nat where
  "excessive_change_threshold = 1000"

definition has_excessive_watch_events :: "file_change_summary \<Rightarrow> bool" where
  "has_excessive_watch_events s \<longleftrightarrow>
     fs_invalidate_all s \<or> card (fs_created s) + card (fs_deleted s) + card (fs_changed s) > excessive_change_threshold"

definition has_excessive_non_create_watch_events :: "file_change_summary \<Rightarrow> bool" where
  "has_excessive_non_create_watch_events s \<longleftrightarrow>
     fs_invalidate_all s \<or> card (fs_deleted s) + card (fs_changed s) > excessive_change_threshold"

definition merge_file_change_summary :: "file_change_summary \<Rightarrow> file_change_summary \<Rightarrow> file_change_summary" where
  "merge_file_change_summary dst src =
     (if summary_is_empty src then dst
      else dst\<lparr>fs_invalidate_all := fs_invalidate_all dst \<or> fs_invalidate_all src,
               fs_changed := fs_changed dst \<union> fs_changed src,
               fs_created := fs_created dst \<union> fs_created src,
               fs_deleted := fs_deleted dst \<union> fs_deleted src,
               fs_includes_watch_change_outside_node_modules :=
                 fs_includes_watch_change_outside_node_modules dst \<or> fs_includes_watch_change_outside_node_modules src\<rparr>)"

section \<open>The net events of a file\<close>

record file_events =
  fe_open_change :: "file_change option"
  fe_close_change :: "file_change option"
  fe_watch_changed :: bool
  fe_changes :: "file_change list"
  fe_saved :: bool
  fe_created :: bool
  fe_deleted :: bool

definition no_events :: file_events where
  "no_events = \<lparr>fe_open_change = None, fe_close_change = None, fe_watch_changed = False, fe_changes = [],
     fe_saved = False, fe_created = False, fe_deleted = False\<rparr>"

definition add_event :: "file_change \<Rightarrow> file_events \<Rightarrow> file_events option" where
  "add_event change events =
     (if fe_open_change events \<noteq> None then None
      else
        (case fc_kind change of
           OpenChange \<Rightarrow>
             Some (events\<lparr>fe_close_change := None, fe_open_change := Some change, fe_watch_changed := False, fe_changes := [],
               fe_saved := False, fe_created := False, fe_deleted := False\<rparr>)
         | CloseChange \<Rightarrow>
             Some (events\<lparr>fe_close_change := Some change, fe_changes := [], fe_saved := False, fe_watch_changed := False\<rparr>)
         | TextChange \<Rightarrow>
             if fe_close_change events \<noteq> None then None
             else Some (events\<lparr>fe_changes := fe_changes events @ [change], fe_saved := False, fe_watch_changed := False\<rparr>)
         | SaveChange \<Rightarrow> Some (events\<lparr>fe_saved := True\<rparr>)
         | WatchCreate \<Rightarrow>
             Some (if fe_deleted events then events\<lparr>fe_deleted := False, fe_watch_changed := True\<rparr> else events\<lparr>fe_created := True\<rparr>)
         | WatchChange \<Rightarrow>
             Some (if \<not> fe_created events then events\<lparr>fe_watch_changed := True, fe_saved := False\<rparr> else events)
         | WatchDelete \<Rightarrow>
             let events = events\<lparr>fe_watch_changed := False, fe_saved := False\<rparr> in
             Some (if fe_created events then events\<lparr>fe_created := False\<rparr> else events\<lparr>fe_deleted := True\<rparr>)))"

text \<open>The events by URI, in the order in which the URIs first occur.\<close>

fun update_events :: "string \<Rightarrow> file_events \<Rightarrow> (string \<times> file_events) list \<Rightarrow> (string \<times> file_events) list" where
  "update_events uri e [] = [(uri, e)]"
| "update_events uri e ((u, d) # m) = (if u = uri then (u, e) # m else (u, d) # update_events uri e m)"

fun collect_events :: "file_change list \<Rightarrow> (string \<times> file_events) list \<times> bool \<Rightarrow> ((string \<times> file_events) list \<times> bool) option" where
  "collect_events [] c = Some c"
| "collect_events (change # changes) (m, outside) =
     (let uri = fc_uri change; events = (case map_of m uri of Some e \<Rightarrow> e | None \<Rightarrow> no_events) in
      case add_event change events of
        None \<Rightarrow> None
      | Some events \<Rightarrow>
          collect_events changes
            (update_events uri events m,
             outside \<or> is_watch_kind (fc_kind change) \<and> str_find ''/node_modules/'' uri = None))"

section \<open>Applying the events\<close>

definition partial_change_content :: "position_encoding \<Rightarrow> string \<Rightarrow> (lsp_position \<times> lsp_position) \<times> string \<Rightarrow> string option" where
  "partial_change_content encoding content change =
     Option.bind (compute_lsp_line_starts content) (\<lambda>m.
     Option.bind (from_lsp_range encoding content m (fst change)) (\<lambda>r.
       apply_to \<lparr>tc_text_range = r, tc_new_text = snd change\<rparr> content))"

fun apply_text_changes :: "'h overlay_env \<Rightarrow> int \<Rightarrow> content_change list \<Rightarrow> 'h overlay \<Rightarrow> 'h overlay option" where
  "apply_text_changes env version [] current = Some current"
| "apply_text_changes env version (c # changes) current =
     (case cc_partial c of
        Some partial_change \<Rightarrow>
          Option.bind (partial_change_content (env_position_encoding env) (ov_content current) partial_change)
            (\<lambda>new_content. apply_text_changes env version changes (new_overlay env (ov_file_name current) new_content version (ov_kind current)))
      | None \<Rightarrow>
          (case cc_whole_document c of
             Some whole_change \<Rightarrow>
               apply_text_changes env version changes (new_overlay env (ov_file_name current) whole_change version (ov_kind current))
           | None \<Rightarrow> apply_text_changes env version changes current))"

fun apply_changes :: "'h overlay_env \<Rightarrow> string \<Rightarrow> file_change list \<Rightarrow> 'h overlay \<times> 'h overlays \<Rightarrow> ('h overlay \<times> 'h overlays) option" where
  "apply_changes env path [] c = Some c"
| "apply_changes env path (change # changes) (current, overlays) =
     Option.bind (apply_text_changes env (fc_version change) (fc_changes change) current) (\<lambda>current.
       if fc_changes change \<noteq> [] then
         let v = (new_overlay env (ov_file_name current) (ov_content current) (fc_version change) (ov_kind current))
               \<lparr>ov_version := fc_version change, ov_hash := env_hash env (ov_content current), ov_matches_disk_text := False\<rparr> in
         apply_changes env path changes (v, overlays(path \<mapsto> v))
       else apply_changes env path changes (current, overlays))"

text \<open>The steps for one file, each on the overlay of the file, the overlays and the summary.\<close>

type_synonym 'h file_state = "'h overlay option \<times> 'h overlays \<times> file_change_summary"

definition apply_open :: "'h overlay_env \<Rightarrow> string \<Rightarrow> string \<Rightarrow> file_change \<Rightarrow> 'h file_state \<Rightarrow> 'h file_state option" where
  "apply_open env uri path open_change st =
     (case st of (v, overlays, result) \<Rightarrow>
        if fs_opened result \<noteq> [] \<or> fs_reopened result \<noteq> [] then None
        else
          let result =
            (case v of
               Some existing \<Rightarrow>
                 if ov_content existing \<noteq> fc_content open_change then result\<lparr>fs_changed := insert uri (fs_changed result)\<rparr>
                 else result\<lparr>fs_reopened := uri\<rparr>
             | None \<Rightarrow> result\<lparr>fs_opened := uri\<rparr>) in
          map_option (\<lambda>file_name.
            let new = new_overlay env file_name (fc_content open_change) (fc_version open_change)
                        (language_kind_to_script_kind (fc_language_kind open_change)) in
            (Some new, overlays(path \<mapsto> new), result)) (document_uri_file_name (env_url_path env) uri))"

definition apply_close :: "string \<Rightarrow> string \<Rightarrow> file_events \<Rightarrow> 'h file_state \<Rightarrow> 'h file_state option" where
  "apply_close uri path events st =
     (case st of (v, overlays, result) \<Rightarrow>
        if fe_close_change events = None then Some st
        else if v = None then None
        else Some (None, overlays(path := None), result\<lparr>fs_closed := insert uri (fs_closed result)\<rparr>))"

definition apply_watch_changed :: "'h overlay_env \<Rightarrow> string \<Rightarrow> string \<Rightarrow> file_events \<Rightarrow> 'h file_state \<Rightarrow> 'h file_state" where
  "apply_watch_changed env uri path events st =
     (case st of (v, overlays, result) \<Rightarrow>
        if \<not> fe_watch_changed events then st
        else
          (case v of
             None \<Rightarrow> (v, overlays, result\<lparr>fs_changed := insert uri (fs_changed result)\<rparr>)
           | Some current \<Rightarrow>
               let matches_disk_text = fst (compute_matches_disk_text env current) in
               if \<not> fe_saved events \<and> matches_disk_text \<noteq> ov_matches_disk_text current then
                 let new = (new_overlay env (ov_file_name current) (ov_content current) (ov_version current) (ov_kind current))
                             \<lparr>ov_matches_disk_text := matches_disk_text\<rparr> in
                 (Some new, overlays(path \<mapsto> new), result)
               else st))"

definition apply_edits :: "'h overlay_env \<Rightarrow> string \<Rightarrow> string \<Rightarrow> file_events \<Rightarrow> 'h file_state \<Rightarrow> 'h file_state option" where
  "apply_edits env uri path events st =
     (case st of (v, overlays, result) \<Rightarrow>
        if fe_changes events = [] then Some st
        else
          (case v of
             None \<Rightarrow> None
           | Some current \<Rightarrow>
               map_option (\<lambda>(v, overlays). (Some v, overlays, result\<lparr>fs_changed := insert uri (fs_changed result)\<rparr>))
                 (apply_changes env path (fe_changes events) (current, overlays))))"

definition apply_saved :: "'h overlay_env \<Rightarrow> string \<Rightarrow> file_events \<Rightarrow> 'h file_state \<Rightarrow> 'h file_state option" where
  "apply_saved env path events st =
     (case st of (v, overlays, result) \<Rightarrow>
        if \<not> fe_saved events then Some st
        else
          (case v of
             None \<Rightarrow> None
           | Some current \<Rightarrow>
               let new = (new_overlay env (ov_file_name current) (ov_content current) (ov_version current) (ov_kind current))
                           \<lparr>ov_matches_disk_text := True\<rparr> in
               Some (v, overlays(path \<mapsto> new), result)))"

definition apply_watch_existence :: "string \<Rightarrow> file_events \<Rightarrow> 'h file_state \<Rightarrow> 'h file_state" where
  "apply_watch_existence uri events st =
     (case st of (v, overlays, result) \<Rightarrow>
        let result = (if fe_created events \<and> v = None then result\<lparr>fs_created := insert uri (fs_created result)\<rparr> else result);
            result = (if fe_deleted events \<and> v = None then result\<lparr>fs_deleted := insert uri (fs_deleted result)\<rparr> else result) in
        (v, overlays, result))"

definition process_file_events ::
    "'h overlay_env \<Rightarrow> string \<Rightarrow> file_events \<Rightarrow> 'h overlays \<times> file_change_summary \<Rightarrow> ('h overlays \<times> file_change_summary) option" where
  "process_file_events env uri events os =
     (case uri_path env uri of
        None \<Rightarrow> None
      | Some path \<Rightarrow>
          let st = (fst os path, os) in
          map_option snd
            (case fe_open_change events of
               Some open_change \<Rightarrow> apply_open env uri path open_change st
             | None \<Rightarrow>
                 Option.bind (apply_close uri path events st) (\<lambda>st.
                 Option.bind (apply_edits env uri path events (apply_watch_changed env uri path events st)) (\<lambda>st.
                 map_option (apply_watch_existence uri events) (apply_saved env path events st)))))"

fun process_files ::
    "'h overlay_env \<Rightarrow> (string \<times> file_events) list \<Rightarrow> 'h overlays \<times> file_change_summary \<Rightarrow> ('h overlays \<times> file_change_summary) option" where
  "process_files env [] os = Some os"
| "process_files env ((uri, events) # m) os = Option.bind (process_file_events env uri events os) (process_files env m)"

text \<open>The hash map of the events is visited in the order \<open>order\<close>.\<close>

definition process_changes ::
    "'h overlay_env \<Rightarrow> ((string \<times> file_events) list \<Rightarrow> (string \<times> file_events) list) \<Rightarrow> file_change list \<Rightarrow> 'h overlays
     \<Rightarrow> (file_change_summary \<times> 'h overlays) option" where
  "process_changes env order changes overlays =
     (case collect_events changes ([], False) of
        None \<Rightarrow> None
      | Some (m, outside) \<Rightarrow>
          map_option (\<lambda>(overlays, result). (result, overlays))
            (process_files env (order m)
              (overlays, empty_summary\<lparr>fs_includes_watch_change_outside_node_modules := outside\<rparr>)))"

section \<open>The reduction of the events\<close>

text \<open>Watch events of a file that exists or not, as a file system produces them.\<close>

fun watch_run :: "bool \<Rightarrow> file_change_kind list \<Rightarrow> bool option" where
  "watch_run exists [] = Some exists"
| "watch_run exists (k # ks) =
     (if k = WatchCreate then if exists then None else watch_run True ks
      else if k = WatchDelete then if exists then watch_run False ks else None
      else if k = WatchChange then if exists then watch_run True ks else None
      else None)"

fun add_events :: "file_change list \<Rightarrow> file_events \<Rightarrow> file_events option" where
  "add_events [] e = Some e"
| "add_events (c # cs) e = Option.bind (add_event c e) (add_events cs)"

lemma watch_events_net:
  assumes "watch_run exists (map fc_kind cs) = Some exists'"
    and "fe_open_change e = None" "fe_created e \<longleftrightarrow> \<not> before \<and> exists" "fe_deleted e \<longleftrightarrow> before \<and> \<not> exists"
    and "fe_watch_changed e \<longrightarrow> before \<and> exists"
  shows "\<exists>e'. add_events cs e = Some e' \<and> (fe_created e' \<longleftrightarrow> \<not> before \<and> exists') \<and> (fe_deleted e' \<longleftrightarrow> before \<and> \<not> exists')
    \<and> (fe_watch_changed e' \<longrightarrow> before \<and> exists') \<and> (before \<and> exists' \<and> (cs \<noteq> [] \<or> fe_watch_changed e) \<longrightarrow> fe_watch_changed e')
    \<and> fe_changes e' = fe_changes e \<and> fe_close_change e' = fe_close_change e \<and> fe_open_change e' = None
    \<and> (fe_saved e' \<longrightarrow> fe_saved e)"
  using assms
proof (induction cs arbitrary: "exists" e)
  case (Cons c cs)
  show ?case
  proof (cases "fc_kind c")
    case WatchCreate
    then show ?thesis
      using Cons.prems Cons.IH [of True "if fe_deleted e then e\<lparr>fe_deleted := False, fe_watch_changed := True\<rparr> else e\<lparr>fe_created := True\<rparr>"]
      by (cases before; cases "exists") (auto simp: add_event_def)
  next
    case WatchChange
    then show ?thesis
      using Cons.prems Cons.IH [of True "if \<not> fe_created e then e\<lparr>fe_watch_changed := True, fe_saved := False\<rparr> else e"]
      by (cases before; cases "exists") (auto simp: add_event_def)
  next
    case WatchDelete
    then show ?thesis
      using Cons.prems Cons.IH [of False "let e = e\<lparr>fe_watch_changed := False, fe_saved := False\<rparr> in if fe_created e then e\<lparr>fe_created := False\<rparr> else e\<lparr>fe_deleted := True\<rparr>"]
      by (cases before; cases "exists") (auto simp: add_event_def Let_def)
  qed (use Cons.prems in auto)
qed auto

lemma collect_one_file:
  assumes "\<forall>c\<in>set cs. fc_uri c = uri"
  shows "collect_events cs ([(uri, e)], outside) = map_option (\<lambda>e. ([(uri, e)], outside \<or>
      (\<exists>c\<in>set cs. is_watch_kind (fc_kind c)) \<and> str_find ''/node_modules/'' uri = None)) (add_events cs e)"
  using assms
proof (induction cs arbitrary: e outside)
  case (Cons c cs)
  then show ?case by (cases "add_event c e") (auto simp: map_option_case split: option.split)
qed simp

lemma collect_new_file:
  assumes "\<forall>c\<in>set cs. fc_uri c = uri" "cs \<noteq> []"
  shows "collect_events cs ([], False) = map_option (\<lambda>e. ([(uri, e)],
      (\<exists>c\<in>set cs. is_watch_kind (fc_kind c)) \<and> str_find ''/node_modules/'' uri = None)) (add_events cs no_events)"
proof -
  obtain c cs' where cs: "cs = c # cs'" using assms(2) by (cases cs) auto
  show ?thesis using assms(1) collect_one_file [of cs' uri]
    by (cases "add_event c no_events") (auto simp: cs map_option_case split: option.split)
qed

lemma process_one_file:
  assumes "\<forall>c\<in>set cs. fc_uri c = uri" "cs \<noteq> []" "\<forall>m. mset (order m) = mset m" "add_events cs no_events = Some e"
  shows "process_changes env order cs overlays =
    map_option (\<lambda>(overlays, result). (result, overlays))
      (process_file_events env uri e (overlays, empty_summary\<lparr>fs_includes_watch_change_outside_node_modules :=
         (\<exists>c\<in>set cs. is_watch_kind (fc_kind c)) \<and> str_find ''/node_modules/'' uri = None\<rparr>))"
proof -
  have "mset (order [(uri, e)]) = {#(uri, e)#}" using assms(3) by simp
  then have "order [(uri, e)] = [(uri, e)]" by (simp only: mset_single_iff)
  then show ?thesis using collect_new_file [OF assms(1,2)] assms(4)
    by (simp add: process_changes_def) (metis (no_types, lifting) Option.bind_cong bind.bind_lunit bind_runit process_files.simps(1))
qed

text \<open>C26: For a file that is not open, the watch events of a batch are reduced to their net effect: the file is reported
  as created, deleted or changed as it comes into being, vanishes, or exists before and after the batch.\<close>

theorem watch_events_net_effect:
  assumes "\<forall>c\<in>set cs. fc_uri c = uri" "cs \<noteq> []" "watch_run before (map fc_kind cs) = Some afterwards"
    and order: "\<forall>m. mset (order m) = mset m"
    and path: "uri_path env uri = Some path" "overlays path = None"
  shows "process_changes env order cs overlays =
    Some (empty_summary\<lparr>fs_created := if \<not> before \<and> afterwards then {uri} else {},
            fs_deleted := if before \<and> \<not> afterwards then {uri} else {},
            fs_changed := if before \<and> afterwards then {uri} else {},
            fs_includes_watch_change_outside_node_modules := str_find ''/node_modules/'' uri = None\<rparr>, overlays)"
proof -
  obtain e where e: "add_events cs no_events = Some e" "fe_created e \<longleftrightarrow> \<not> before \<and> afterwards" "fe_deleted e \<longleftrightarrow> before \<and> \<not> afterwards"
    "fe_watch_changed e \<longleftrightarrow> before \<and> afterwards" "fe_changes e = []" "\<not> fe_saved e" "fe_close_change e = None" "fe_open_change e = None"
    using watch_events_net [OF assms(3), of no_events before] assms(2) by (auto simp: no_events_def)
  have "\<exists>c\<in>set cs. is_watch_kind (fc_kind c)"
    using assms(2,3) by (cases cs) (auto simp: is_watch_kind_def split: if_splits)
  then show ?thesis
    using process_one_file [OF assms(1,2) order e(1), of env overlays] path e(2-)
    by (simp add: process_file_events_def apply_close_def apply_edits_def apply_saved_def apply_watch_changed_def apply_watch_existence_def empty_summary_def Let_def)
qed

theorem watch_events_net_effect_witness:
  "\<exists>result. process_changes \<lparr>env_hash = id, env_read_file = (\<lambda>_. None), env_case_sensitive = True, env_lower = id, env_url_path = (\<lambda>u. Some (drop 7 u)), env_position_encoding = Utf16\<rparr> id
     [\<lparr>fc_kind = WatchDelete, fc_uri = ''file:///a.ts'', fc_version = 0, fc_content = [], fc_language_kind = [], fc_changes = []\<rparr>,
      \<lparr>fc_kind = WatchCreate, fc_uri = ''file:///a.ts'', fc_version = 0, fc_content = [], fc_language_kind = [], fc_changes = []\<rparr>] Map.empty
   = Some (result, Map.empty) \<and> fs_changed result = {''file:///a.ts''} \<and> fs_created result = {} \<and> fs_deleted result = {}"
proof -
  let ?env = "\<lparr>env_hash = id, env_read_file = (\<lambda>_. None), env_case_sensitive = True, env_lower = id, env_url_path = (\<lambda>u. Some (drop 7 u)), env_position_encoding = Utf16\<rparr> :: string overlay_env"
  let ?c = "\<lambda>k. \<lparr>fc_kind = k, fc_uri = ''file:///a.ts'', fc_version = 0, fc_content = [], fc_language_kind = [], fc_changes = []\<rparr>"
  have "uri_path ?env ''file:///a.ts'' \<noteq> None" by (simp add: uri_path_def document_uri_file_name_def file_uri_authority_def is_bundled_def)
  then obtain path where "uri_path ?env ''file:///a.ts'' = Some path" by blast
  then show ?thesis
    using watch_events_net_effect [of "[?c WatchDelete, ?c WatchCreate]" "''file:///a.ts''" True True id ?env path Map.empty] by simp
qed

text \<open>C31: The events of a file are consistent: it is not both created and deleted, an opened file has no other events,
  and a closed file has no changes of its text.\<close>

theorem net_events_consistent:
  assumes "add_events cs no_events = Some e"
  shows "\<not> (fe_created e \<and> fe_deleted e)
    \<and> (fe_open_change e \<noteq> None \<longrightarrow> fe_close_change e = None \<and> \<not> fe_watch_changed e \<and> fe_changes e = [] \<and> \<not> fe_saved e \<and> \<not> fe_created e \<and> \<not> fe_deleted e)
    \<and> (fe_close_change e \<noteq> None \<longrightarrow> fe_changes e = [])"
proof -
  define ok where "ok e \<longleftrightarrow> \<not> (fe_created e \<and> fe_deleted e)
    \<and> (fe_open_change e \<noteq> None \<longrightarrow> fe_close_change e = None \<and> \<not> fe_watch_changed e \<and> fe_changes e = [] \<and> \<not> fe_saved e \<and> \<not> fe_created e \<and> \<not> fe_deleted e)
    \<and> (fe_close_change e \<noteq> None \<longrightarrow> fe_changes e = [])" for e :: file_events
  have step: "ok e'" if "ok e" "add_event c e = Some e'" for c and e e' :: file_events
    using that by (auto simp: ok_def add_event_def Let_def split: file_change_kind.splits if_splits)
  have "add_events cs e = Some e' \<Longrightarrow> ok e \<Longrightarrow> ok e'" for e e' :: file_events
  proof (induction cs arbitrary: e)
    case (Cons c cs)
    then show ?case using step by (cases "add_event c e") auto
  qed simp
  moreover have "ok no_events" by (simp add: ok_def no_events_def)
  ultimately show ?thesis using assms by (fold ok_def) blast
qed

theorem net_events_consistent_witness:
  "\<exists>e. add_events [\<lparr>fc_kind = CloseChange, fc_uri = [], fc_version = 0, fc_content = [], fc_language_kind = [], fc_changes = []\<rparr>] no_events = Some e
    \<and> fe_changes e = []"
proof -
  let ?c = "\<lparr>fc_kind = CloseChange, fc_uri = [], fc_version = 0, fc_content = [], fc_language_kind = [], fc_changes = []\<rparr>"
  obtain e where "add_events [?c] no_events = Some e" "fe_close_change e \<noteq> None" by (simp add: add_event_def no_events_def)
  then show ?thesis using net_events_consistent [of "[?c]" e] by blast
qed

section \<open>The overlay and the document of the client\<close>

text \<open>Changes of one notification: the client replaces characters of its document, or the whole document, and sends the
  positions before and behind the replaced characters.\<close>

inductive client_edits :: "position_encoding \<Rightarrow> rune list \<Rightarrow> content_change list \<Rightarrow> rune list \<Rightarrow> bool" for encoding where
  no_edit: "client_edits encoding doc [] doc"
| edit: "short_text (us @ ds @ vs) \<Longrightarrow> compute_lsp_line_starts (enc (us @ ds @ vs)) = Some m \<Longrightarrow>
    position_to_line_and_character encoding (enc (us @ ds @ vs)) m (int (length (enc us))) = Some p \<Longrightarrow>
    position_to_line_and_character encoding (enc (us @ ds @ vs)) m (int (length (enc (us @ ds)))) = Some q \<Longrightarrow>
    client_edits encoding (us @ n @ vs) ccs doc' \<Longrightarrow>
    client_edits encoding (us @ ds @ vs) (\<lparr>cc_partial = Some ((p, q), enc n), cc_whole_document = None\<rparr> # ccs) doc'"
| whole: "client_edits encoding doc1 ccs doc' \<Longrightarrow>
    client_edits encoding doc (\<lparr>cc_partial = None, cc_whole_document = Some (enc doc1)\<rparr> # ccs) doc'"

lemma partial_change_content_exact:
  assumes "short_text (us @ ds @ vs)" "compute_lsp_line_starts (enc (us @ ds @ vs)) = Some m"
    and "position_to_line_and_character encoding (enc (us @ ds @ vs)) m (int (length (enc us))) = Some p"
    and "position_to_line_and_character encoding (enc (us @ ds @ vs)) m (int (length (enc (us @ ds)))) = Some q"
  shows "partial_change_content encoding (enc (us @ ds @ vs)) ((p, q), enc n) = Some (enc (us @ n @ vs))"
proof -
  have "line_and_character_to_position encoding (enc (us @ ds @ vs)) m p = Some (int (length (enc us)))"
    using position_converted_back [of us "ds @ vs" m encoding] assms by fastforce
  moreover have "line_and_character_to_position encoding (enc (us @ ds @ vs)) m q = Some (int (length (enc (us @ ds))))"
    using position_converted_back [of "us @ ds" vs m encoding] assms by fastforce
  ultimately show ?thesis
    using apply_to_enc [of us ds vs "enc n"] assms(1,2) unfolding short_text_def partial_change_content_def from_lsp_range_def new_text_range_def
    by simp
qed

lemma client_edits_applied:
  "client_edits (env_position_encoding env) doc ccs doc' \<Longrightarrow> ov_content v = enc doc \<Longrightarrow>
    \<exists>v'. apply_text_changes env version ccs v = Some v' \<and> ov_content v' = enc doc' \<and> ov_file_name v' = ov_file_name v \<and> ov_kind v' = ov_kind v"
proof (induction arbitrary: v rule: client_edits.induct)
  case (edit us ds vs m p q n ccs doc')
  let ?v = "new_overlay env (ov_file_name v) (enc (us @ n @ vs)) version (ov_kind v)"
  obtain v' where v': "apply_text_changes env version ccs ?v = Some v'" "ov_content v' = enc doc'" "ov_file_name v' = ov_file_name v" "ov_kind v' = ov_kind v"
    using edit.IH [of ?v] by (auto simp: new_overlay_def)
  show ?case using partial_change_content_exact [OF edit.hyps(1-4), of n] edit.prems v' by (simp del: enc_simps)
next
  case (whole doc1 ccs doc' doc)
  let ?v = "new_overlay env (ov_file_name v) (enc doc1) version (ov_kind v)"
  show ?case using whole.IH [of ?v] by (simp add: new_overlay_def)
qed simp

text \<open>Notifications of a batch.\<close>

inductive client_batch :: "position_encoding \<Rightarrow> string \<Rightarrow> rune list \<Rightarrow> file_change list \<Rightarrow> rune list \<Rightarrow> bool" for encoding uri where
  no_change: "client_batch encoding uri doc [] doc"
| change: "fc_kind c = TextChange \<Longrightarrow> fc_uri c = uri \<Longrightarrow> fc_changes c \<noteq> [] \<Longrightarrow> client_edits encoding doc (fc_changes c) doc1 \<Longrightarrow>
    client_batch encoding uri doc1 cs doc' \<Longrightarrow> client_batch encoding uri doc (c # cs) doc'"

lemma client_batch_applied:
  "client_batch (env_position_encoding env) uri doc cs doc' \<Longrightarrow> cs \<noteq> [] \<Longrightarrow> ov_content v = enc doc \<Longrightarrow>
    apply_changes env path cs (v, overlays) =
      Some (new_overlay env (ov_file_name v) (enc doc') (fc_version (last cs)) (ov_kind v),
            overlays(path \<mapsto> new_overlay env (ov_file_name v) (enc doc') (fc_version (last cs)) (ov_kind v)))"
proof (induction arbitrary: v overlays rule: client_batch.induct)
  case (change c doc doc1 cs doc')
  obtain v1 where v1: "apply_text_changes env (fc_version c) (fc_changes c) v = Some v1" "ov_content v1 = enc doc1"
    "ov_file_name v1 = ov_file_name v" "ov_kind v1 = ov_kind v"
    using client_edits_applied [OF change.hyps(4) change.prems(2)] by blast
  show ?case
  proof (cases "cs = []")
    case True
    then have "doc1 = doc'" using change.hyps(5) by (auto elim: client_batch.cases)
    then show ?thesis using v1 change.hyps(3) True by (simp add: new_overlay_def Let_def) (rule ext, simp)
  next
    case False
    then show ?thesis using v1 change.hyps(3) change.IH [OF False, of "new_overlay env (ov_file_name v) (enc doc1) (fc_version c) (ov_kind v)"]
      by (simp add: new_overlay_def Let_def) (rule ext, simp)
  qed
qed simp

lemma text_changes_collected:
  "list_all (\<lambda>c. fc_kind c = TextChange) cs \<Longrightarrow> fe_open_change e = None \<Longrightarrow> fe_close_change e = None \<Longrightarrow> cs \<noteq> [] \<Longrightarrow>
    add_events cs e = Some (e\<lparr>fe_changes := fe_changes e @ cs, fe_saved := False, fe_watch_changed := False\<rparr>)"
proof (induction cs arbitrary: e)
  case (Cons c cs)
  then show ?case by (cases "cs = []") (simp_all add: add_event_def)
qed simp

text \<open>C2: The text of an open file is the document of its editor: after a batch of notifications with incremental or
  whole changes the overlay has the text and the version of the client, the file is reported as changed, and all other overlays
  are kept.\<close>

theorem overlay_follows_client:
  assumes batch: "client_batch (env_position_encoding env) uri doc cs doc'" "cs \<noteq> []"
    and order: "\<forall>m. mset (order m) = mset m"
    and path: "uri_path env uri = Some path" "overlays path = Some v" "ov_content v = enc doc"
  shows "process_changes env order cs overlays =
    Some (empty_summary\<lparr>fs_changed := {uri}\<rparr>,
          overlays(path \<mapsto> new_overlay env (ov_file_name v) (enc doc') (fc_version (last cs)) (ov_kind v)))"
proof -
  have cs: "\<forall>c\<in>set cs. fc_uri c = uri \<and> fc_kind c = TextChange"
    using batch(1) by (induction rule: client_batch.induct) auto
  then have e: "add_events cs no_events = Some (no_events\<lparr>fe_changes := cs\<rparr>)"
    using text_changes_collected [of cs no_events] batch(2) by (simp add: list_all_iff no_events_def)
  have uri: "\<forall>c\<in>set cs. fc_uri c = uri" and none: "\<not> (\<exists>c\<in>set cs. is_watch_kind (fc_kind c))"
    using cs by (simp_all add: is_watch_kind_def)
  show ?thesis
    using process_one_file [OF uri batch(2) order e, of env overlays] none path client_batch_applied [OF batch path(3), of path overlays] batch(2)
    by (simp add: process_file_events_def apply_close_def apply_edits_def apply_saved_def apply_watch_changed_def apply_watch_existence_def
        empty_summary_def no_events_def Let_def)
qed

theorem overlay_follows_client_witness:
  "\<exists>p q path v. process_changes \<lparr>env_hash = length, env_read_file = (\<lambda>_. None), env_case_sensitive = True, env_lower = id, env_url_path = (\<lambda>u. Some (drop 7 u)), env_position_encoding = Utf16\<rparr> id
     [\<lparr>fc_kind = TextChange, fc_uri = ''file:///a.ts'', fc_version = 2, fc_content = [], fc_language_kind = [],
        fc_changes = [\<lparr>cc_partial = Some ((p, q), enc [0xE9]), cc_whole_document = None\<rparr>]\<rparr>] [path \<mapsto> v]
     = Some (empty_summary\<lparr>fs_changed := {''file:///a.ts''}\<rparr>,
             [path \<mapsto> \<lparr>ov_file_name = ''/a.ts'', ov_content = enc [97, 0xE9, 99], ov_hash = 4, ov_version = 2, ov_kind = Script_TS, ov_matches_disk_text = False\<rparr>])"
proof -
  let ?env = "\<lparr>env_hash = length, env_read_file = (\<lambda>_. None), env_case_sensitive = True, env_lower = id, env_url_path = (\<lambda>u. Some (drop 7 u)), env_position_encoding = Utf16\<rparr>"
  let ?doc = "[97] @ [98] @ [99] :: rune list"
  have sh: "short_text ?doc" by (simp add: short_text_def is_scalar_def len_utf8_def)
  obtain m where m: "compute_lsp_line_starts (enc ?doc) = Some m" using compute_lsp_line_starts_enc [OF sh] by blast
  obtain p where p: "position_to_line_and_character Utf16 (enc ?doc) m (int (length (enc [97]))) = Some p"
    using position_converted_back [of "[97]" "[98] @ [99]" m Utf16] sh m by auto
  obtain q where q: "position_to_line_and_character Utf16 (enc ?doc) m (int (length (enc ([97] @ [98])))) = Some q"
    using position_converted_back [of "[97] @ [98]" "[99]" m Utf16] sh m by auto
  let ?c = "\<lparr>fc_kind = TextChange, fc_uri = ''file:///a.ts'', fc_version = 2, fc_content = [], fc_language_kind = [],
        fc_changes = [\<lparr>cc_partial = Some ((p, q), enc [0xE9]), cc_whole_document = None\<rparr>]\<rparr>"
  have "client_edits Utf16 ?doc (fc_changes ?c) ([97] @ [0xE9] @ [99])"
    using edit [OF sh m p q no_edit, of "[0xE9]"] by simp
  then have b: "client_batch (env_position_encoding ?env) ''file:///a.ts'' ?doc [?c] ([97] @ [0xE9] @ [99])"
    using change [OF _ _ _ _ no_change, of ?c] by simp
  obtain path where path: "uri_path ?env ''file:///a.ts'' = Some path"
    by (simp add: uri_path_def document_uri_file_name_def file_uri_authority_def is_bundled_def)
  let ?v = "\<lparr>ov_file_name = ''/a.ts'', ov_content = enc ?doc, ov_hash = 3, ov_version = 1, ov_kind = Script_TS, ov_matches_disk_text = True\<rparr>"
  show ?thesis
    using overlay_follows_client [OF b _ _ path, of id "[path \<mapsto> ?v]" ?v] by (intro exI [of _ p] exI [of _ q] exI [of _ path] exI [of _ ?v]) (simp add: new_overlay_def len_utf8_def)
qed

lemma uri_path_file_name: "uri_path env uri = Some path \<Longrightarrow> \<exists>f. document_uri_file_name (env_url_path env) uri = Some f"
  by (auto simp: uri_path_def)

text \<open>Opening a file makes its text the overlay of its path, and closing it brings back the overlays from before.\<close>

theorem open_and_close:
  assumes path: "uri_path env uri = Some path" "overlays path = None" and order: "\<forall>m. mset (order m) = mset m"
    and c: "fc_kind c = OpenChange" "fc_uri c = uri" and d: "fc_kind d = CloseChange" "fc_uri d = uri"
  shows "\<exists>file_name v. document_uri_file_name (env_url_path env) uri = Some file_name
    \<and> v = new_overlay env file_name (fc_content c) (fc_version c) (language_kind_to_script_kind (fc_language_kind c))
    \<and> process_changes env order [c] overlays = Some (empty_summary\<lparr>fs_opened := uri\<rparr>, overlays(path \<mapsto> v))
    \<and> process_changes env order [d] (overlays(path \<mapsto> v)) = Some (empty_summary\<lparr>fs_closed := {uri}\<rparr>, overlays)"
proof -
  obtain f where f: "document_uri_file_name (env_url_path env) uri = Some f" using uri_path_file_name [OF path(1)] by blast
  let ?v = "new_overlay env f (fc_content c) (fc_version c) (language_kind_to_script_kind (fc_language_kind c))"
  have "add_events [c] no_events = Some (no_events\<lparr>fe_open_change := Some c\<rparr>)"
    using c by (simp add: add_event_def no_events_def)
  then have opened: "process_changes env order [c] overlays = Some (empty_summary\<lparr>fs_opened := uri\<rparr>, overlays(path \<mapsto> ?v))"
    using process_one_file [of "[c]" uri order _ env overlays] order c path f
    by (simp add: process_file_events_def apply_open_def empty_summary_def is_watch_kind_def Let_def)
  have "add_events [d] no_events = Some (no_events\<lparr>fe_close_change := Some d\<rparr>)"
    using d by (simp add: add_event_def no_events_def)
  moreover have "(overlays(path \<mapsto> ?v))(path := None) = overlays" using path(2) by (simp add: fun_upd_idem)
  ultimately have "process_changes env order [d] (overlays(path \<mapsto> ?v)) = Some (empty_summary\<lparr>fs_closed := {uri}\<rparr>, overlays)"
    using process_one_file [of "[d]" uri order _ env "overlays(path \<mapsto> ?v)"] order d path
    by (simp add: process_file_events_def apply_close_def apply_edits_def apply_saved_def apply_watch_changed_def apply_watch_existence_def
        empty_summary_def is_watch_kind_def no_events_def Let_def)
  then show ?thesis using f opened by blast
qed

theorem open_and_close_witness:
  "\<exists>v. process_changes \<lparr>env_hash = length, env_read_file = (\<lambda>_. None), env_case_sensitive = True, env_lower = id, env_url_path = (\<lambda>u. Some (drop 7 u)), env_position_encoding = Utf16\<rparr> id
     [\<lparr>fc_kind = CloseChange, fc_uri = ''untitled:a'', fc_version = 0, fc_content = [], fc_language_kind = [], fc_changes = []\<rparr>] v
   = Some (empty_summary\<lparr>fs_closed := {''untitled:a''}\<rparr>, Map.empty)"
proof -
  let ?env = "\<lparr>env_hash = length, env_read_file = (\<lambda>_. None), env_case_sensitive = True, env_lower = id, env_url_path = (\<lambda>u. Some (drop 7 u)), env_position_encoding = Utf16\<rparr>"
  let ?c = "\<lambda>k. \<lparr>fc_kind = k, fc_uri = ''untitled:a'', fc_version = 0, fc_content = [], fc_language_kind = [], fc_changes = []\<rparr>"
  obtain path where "uri_path ?env ''untitled:a'' = Some path"
    by (simp add: uri_path_def document_uri_file_name_def is_bundled_def)
  then show ?thesis using open_and_close [of ?env "''untitled:a''" path Map.empty id "?c OpenChange" "?c CloseChange"] by auto
qed

text \<open>The deletion of an open file leaves its overlay as it is: an overlay whose text was saved still counts as equal
  to the text on disk when there is none any more.\<close>

theorem deleted_file_still_matches:
  assumes "uri_path env uri = Some path" "overlays path = Some v" "\<forall>m. mset (order m) = mset m"
    and "fc_kind c = WatchDelete" "fc_uri c = uri" "env_read_file env (ov_file_name v) = None"
  shows "(\<exists>result. process_changes env order [c] overlays = Some (result, overlays)) \<and> compute_matches_disk_text env v = (False, False)"
proof -
  have "add_events [c] no_events = Some (no_events\<lparr>fe_deleted := True\<rparr>)"
    using assms(4) by (simp add: add_event_def no_events_def)
  then have "\<exists>result. process_changes env order [c] overlays = Some (result, overlays)"
    using process_one_file [of "[c]" uri order _ env overlays] assms
    by (simp add: process_file_events_def apply_close_def apply_edits_def apply_saved_def apply_watch_changed_def apply_watch_existence_def
        no_events_def Let_def)
  then show ?thesis using assms(6) by (simp add: compute_matches_disk_text_def)
qed

theorem deleted_file_still_matches_witness:
  "\<exists>result overlays. process_changes \<lparr>env_hash = length, env_read_file = (\<lambda>_. None), env_case_sensitive = True, env_lower = id, env_url_path = (\<lambda>u. Some (drop 7 u)), env_position_encoding = Utf16\<rparr> id
     [\<lparr>fc_kind = WatchDelete, fc_uri = ''file:///a.ts'', fc_version = 0, fc_content = [], fc_language_kind = [], fc_changes = []\<rparr>] overlays
   = Some (result, overlays) \<and> (\<exists>path v. overlays = [path \<mapsto> v] \<and> ov_matches_disk_text v)"
proof -
  let ?env = "\<lparr>env_hash = length, env_read_file = (\<lambda>_. None), env_case_sensitive = True, env_lower = id, env_url_path = (\<lambda>u. Some (drop 7 u)), env_position_encoding = Utf16\<rparr>"
  let ?v = "\<lparr>ov_file_name = ''/a.ts'', ov_content = [], ov_hash = 0, ov_version = 1, ov_kind = Script_TS, ov_matches_disk_text = True\<rparr>"
  obtain path where path: "uri_path ?env ''file:///a.ts'' = Some path"
    by (simp add: uri_path_def document_uri_file_name_def file_uri_authority_def is_bundled_def)
  then obtain result where "process_changes ?env id [\<lparr>fc_kind = WatchDelete, fc_uri = ''file:///a.ts'', fc_version = 0, fc_content = [], fc_language_kind = [], fc_changes = []\<rparr>] [path \<mapsto> ?v]
      = Some (result, [path \<mapsto> ?v])"
    using deleted_file_still_matches [OF path, of "[path \<mapsto> ?v]" ?v id "\<lparr>fc_kind = WatchDelete, fc_uri = ''file:///a.ts'', fc_version = 0, fc_content = [], fc_language_kind = [], fc_changes = []\<rparr>"] by auto
  moreover have "ov_matches_disk_text ?v" by simp
  ultimately show ?thesis by blast
qed

end
