(* ===== verification/JsonRpc.thy ===== *)
theory JsonRpc
  imports Utf8Lossy
begin

text \<open>
  The framing of messages of the language server and the message types (\<open>crates/ts-jsonrpc/src/lib.rs\<close>). A stream
  is the list of the bytes that are still to come, with the sizes of the pieces in which the operating system hands
  them out; the values of JSON that are only passed on are a type parameter.
\<close>

section \<open>Parsing numbers\<close>

datatype int_error_kind = Empty | InvalidDigit | PosOverflow | NegOverflow

definition int_error_text :: "int_error_kind \<Rightarrow> string" where
  "int_error_text e =
     (case e of
        Empty \<Rightarrow> ''cannot parse integer from empty string''
      | InvalidDigit \<Rightarrow> ''invalid digit found in string''
      | PosOverflow \<Rightarrow> ''number too large to fit in target type''
      | NegOverflow \<Rightarrow> ''number too small to fit in target type'')"

text \<open>\<open>str::parse::<i64>\<close>; the digits are read from the left and the first problem is reported.\<close>

fun parse_i64_digits :: "bool \<Rightarrow> int \<Rightarrow> string \<Rightarrow> int_error_kind + int" where
  "parse_i64_digits negative n [] = Inr n"
| "parse_i64_digits negative n (c # cs) =
     (if \<not> is_ascii_digit c then Inl InvalidDigit
      else
        let d = int (byte c) - 48; n = (if negative then 10 * n - d else 10 * n + d) in
        if n \<ge> 2 ^ 63 then Inl PosOverflow
        else if n < - (2 ^ 63) then Inl NegOverflow
        else parse_i64_digits negative n cs)"

definition parse_i64 :: "string \<Rightarrow> int_error_kind + int" where
  "parse_i64 s =
     (if s = [] then Inl Empty
      else if s = ''+'' \<or> s = ''-'' then Inl InvalidDigit
      else if hd s = CHR ''+'' then parse_i64_digits False 0 (tl s)
      else if hd s = CHR ''-'' then parse_i64_digits True 0 (tl s)
      else parse_i64_digits False 0 s)"

definition show_int :: "int \<Rightarrow> string" where
  "show_int n = (if n < 0 then CHR ''-'' # show_nat (nat (- n)) else show_nat (nat n))"

section \<open>Frames\<close>

datatype base_protocol_error = InvalidHeader string | InvalidContentLength string | NoContentLength

datatype read_error = UnexpectedEof string | Protocol base_protocol_error

record byte_reader =
  rd_bytes :: string
  rd_sizes :: "nat list"

definition lf :: char where
  "lf = CHR 0x0A"

definition crlf :: string where
  "crlf = [CHR 0x0D, CHR 0x0A]"

definition read_until :: "char \<Rightarrow> string \<Rightarrow> string \<times> string" where
  "read_until d s =
     (let line = takeWhile (\<lambda>c. c \<noteq> d) s @ take 1 (dropWhile (\<lambda>c. c \<noteq> d) s) in (line, drop (length line) s))"

definition is_ascii_whitespace :: "char \<Rightarrow> bool" where
  "is_ascii_whitespace c \<longleftrightarrow> byte c \<in> {32, 9, 10, 12, 13}"

definition trim_ascii_space :: "string \<Rightarrow> string" where
  "trim_ascii_space value =
     (let start = length (takeWhile is_ascii_whitespace value);
          end = max start (length value - length (takeWhile is_ascii_whitespace (rev value))) in
      take (end - start) (drop start value))"

lemma read_until_shorter: "read_until d s = (line, rest) \<Longrightarrow> line \<noteq> [] \<Longrightarrow> length rest < length s"
  by (cases s) (auto simp: read_until_def Let_def split: if_splits)

text \<open>The loop over the header lines.\<close>

function read_headers :: "int \<Rightarrow> string \<Rightarrow> (read_error + int) \<times> string" where
  "read_headers content_length s =
     (let (line, rest) = read_until lf s in
      if line = [] \<or> last line \<noteq> lf then (Inl (UnexpectedEof ''EOF''), rest)
      else if line = crlf then (Inr content_length, rest)
      else
        (case position (\<lambda>c. c = CHR '':'') line of
           None \<Rightarrow> (Inl (Protocol (InvalidHeader line)), rest)
         | Some colon \<Rightarrow>
             if take colon line = ''Content-Length'' then
               (case parse_i64 (from_utf8_lossy (trim_ascii_space (drop (colon + 1) line))) of
                  Inl e \<Rightarrow> (Inl (Protocol (InvalidContentLength (''parse error: '' @ int_error_text e))), rest)
                | Inr n \<Rightarrow>
                    if n < 0 then (Inl (Protocol (InvalidContentLength (''negative value '' @ show_int n))), rest)
                    else read_headers n rest)
             else read_headers content_length rest))"
  by pat_completeness auto
termination
  by (relation "measure (\<lambda>(n, s). length s)") (auto dest: read_until_shorter [OF sym])

declare read_headers.simps [simp del]

text \<open>The loop that fills \<open>data\<close>; one \<open>read\<close> returns at least one byte unless the stream has ended.\<close>

function read_content :: "nat \<Rightarrow> string \<Rightarrow> byte_reader \<Rightarrow> (read_error + string) \<times> byte_reader" where
  "read_content len data r =
     (if length data < len then
        if rd_bytes r = [] then
          (Inl (UnexpectedEof (if data = [] then ''jsonrpc: read content: EOF'' else ''jsonrpc: read content: unexpected EOF'')), r)
        else
          let wanted = len - length data;
              n = (case rd_sizes r of [] \<Rightarrow> wanted | k # _ \<Rightarrow> min wanted (max 1 k)) in
          read_content len (data @ take n (rd_bytes r)) (r\<lparr>rd_bytes := drop n (rd_bytes r), rd_sizes := tl (rd_sizes r)\<rparr>)
      else (Inr data, r))"
  by pat_completeness auto
termination
  by (relation "measure (\<lambda>(len, data, r). length (rd_bytes r))") (auto simp: Let_def neq_Nil_conv split: list.splits)

declare read_content.simps [simp del]

definition read_message :: "byte_reader \<Rightarrow> (read_error + string) \<times> byte_reader" where
  "read_message r =
     (case read_headers 0 (rd_bytes r) of
        (Inl e, rest) \<Rightarrow> (Inl e, r\<lparr>rd_bytes := rest\<rparr>)
      | (Inr content_length, rest) \<Rightarrow>
          if content_length \<le> 0 then (Inl (Protocol NoContentLength), r\<lparr>rd_bytes := rest\<rparr>)
          else read_content (nat content_length) [] (r\<lparr>rd_bytes := rest\<rparr>))"

definition write_message :: "string \<Rightarrow> string" where
  "write_message data = ''Content-Length: '' @ show_nat (length data) @ crlf @ crlf @ data"

section \<open>Messages\<close>

record rpc_id =
  id_str :: string
  id_int :: int

record integer_or_string =
  ios_integer :: "int option"
  ios_string :: "string option"

definition id_new_string :: "string \<Rightarrow> rpc_id" where
  "id_new_string s = \<lparr>id_str = s, id_int = 0\<rparr>"

definition id_new_int :: "int \<Rightarrow> rpc_id" where
  "id_new_int i = \<lparr>id_str = [], id_int = i\<rparr>"

definition id_new :: "integer_or_string \<Rightarrow> rpc_id option" where
  "id_new raw_value =
     (case ios_string raw_value of
        Some s \<Rightarrow> Some \<lparr>id_str = s, id_int = 0\<rparr>
      | None \<Rightarrow> map_option (\<lambda>i. \<lparr>id_str = [], id_int = i\<rparr>) (ios_integer raw_value))"

definition id_try_int :: "rpc_id \<Rightarrow> int option" where
  "id_try_int i = (if id_str i \<noteq> [] then None else Some (id_int i))"

definition id_display :: "rpc_id \<Rightarrow> string" where
  "id_display i = (if id_str i \<noteq> [] then id_str i else show_int (id_int i))"

text \<open>The JSON values an id can be read from.\<close>

datatype json_scalar = JNull | JInt int | JString string

definition id_serialize :: "rpc_id \<Rightarrow> json_scalar" where
  "id_serialize i = (if id_str i \<noteq> [] then JString (id_str i) else JInt (id_int i))"

definition id_deserialize :: "json_scalar \<Rightarrow> string + rpc_id" where
  "id_deserialize v =
     (case v of
        JInt n \<Rightarrow> if is_i32 n then Inr (id_new_int n) else Inl ''integer id out of int32 range''
      | JString s \<Rightarrow> Inr (id_new_string s)
      | JNull \<Rightarrow> Inr (id_new_int 0))"

datatype message_kind = Notification | Request | Response

record 'v response_error =
  re_code :: int
  re_message :: string
  re_data :: "'v option"

record 'v rpc_message =
  msg_id :: "rpc_id option"
  msg_method :: string
  msg_params :: 'v
  msg_result :: 'v
  msg_error :: "'v response_error option"

definition message_kind_of :: "'v rpc_message \<Rightarrow> message_kind" where
  "message_kind_of m =
     (if msg_id m \<noteq> None \<and> msg_method m = [] then Response
      else if msg_id m = None then Notification
      else Request)"

definition is_request :: "'v rpc_message \<Rightarrow> bool" where
  "is_request m \<longleftrightarrow> msg_id m \<noteq> None \<and> msg_method m \<noteq> []"

definition is_notification :: "'v rpc_message \<Rightarrow> bool" where
  "is_notification m \<longleftrightarrow> msg_id m = None \<and> msg_method m \<noteq> []"

definition is_response :: "'v rpc_message \<Rightarrow> bool" where
  "is_response m \<longleftrightarrow> msg_id m \<noteq> None \<and> msg_method m = []"

section \<open>Reading what was written\<close>

lemma dec_value_prefix_le: "dec_value s \<le> dec_value (s @ t)"
proof (induction t rule: rev_induct)
  case (snoc c t)
  then show ?case using dec_value_snoc [of "s @ t" c] by simp
qed simp

lemma parse_i64_digits_value:
  "list_all is_ascii_digit s \<Longrightarrow> int (dec_value (pre @ s)) < 2 ^ 63 \<Longrightarrow> parse_i64_digits False (int (dec_value pre)) s = Inr (int (dec_value (pre @ s)))"
proof (induction s arbitrary: pre)
  case (Cons c s)
  then have c: "48 \<le> byte c" by (simp add: is_ascii_digit_def byte_def)
  have step: "int (dec_value (pre @ [c])) = 10 * int (dec_value pre) + (int (byte c) - 48)"
    using c by (simp add: byte_def of_nat_diff)
  have "dec_value (pre @ [c]) \<le> dec_value (pre @ c # s)"
    using dec_value_prefix_le [of "pre @ [c]" s] by simp
  then have "int (dec_value (pre @ [c])) < 2 ^ 63" using Cons.prems(2) by simp
  then show ?case using Cons.IH [of "pre @ [c]"] Cons.prems step by (simp add: Let_def)
qed simp

lemma parse_i64_show_nat: "int n < 2 ^ 63 \<Longrightarrow> parse_i64 (show_nat n) = Inr (int n)"
proof -
  assume n: "int n < 2 ^ 63"
  obtain c cs where s: "show_nat n = c # cs" using show_nat_neq_Nil by (cases "show_nat n") auto
  then have "is_ascii_digit c" using show_nat_digits [of n] by simp
  then have c: "c \<noteq> CHR ''+''" "c \<noteq> CHR ''-''" by (auto simp: is_ascii_digit_def)
  have "parse_i64_digits False 0 (show_nat n) = Inr (int n)"
    using parse_i64_digits_value [of "show_nat n" "[]"] n by simp
  then show ?thesis using c by (simp add: parse_i64_def s)
qed

lemma from_utf8_lossy_ascii: "list_all (\<lambda>c. byte c < 0x80) s \<Longrightarrow> from_utf8_lossy s = s"
proof (induction s)
  case (Cons c s)
  then show ?case by (simp add: from_utf8_lossy.simps [of "c # s"] utf8_chunk_def byte_or_0_def)
qed (simp add: from_utf8_lossy.simps)

lemma trim_ascii_space_core:
  assumes "list_all is_ascii_whitespace v" "list_all is_ascii_whitespace w"
    and "core \<noteq> []" "list_all (\<lambda>c. \<not> is_ascii_whitespace c) core"
  shows "trim_ascii_space (v @ core @ w) = core"
proof -
  have front: "takeWhile is_ascii_whitespace (v @ core @ w) = v"
    using assms(1,3,4) by (cases core) (auto simp: list_all_iff takeWhile_tail)
  have "list_all is_ascii_whitespace (rev w)" using assms(2) by (simp add: list_all_iff)
  moreover obtain c cs where "rev core = c # cs" using assms(3) by (cases "rev core") auto
  moreover from this have "\<not> is_ascii_whitespace c" using assms(4) by (metis list.set_intros(1) list_all_iff set_rev)
  ultimately have rear: "takeWhile is_ascii_whitespace (rev (v @ core @ w)) = rev w"
    by (auto simp: list_all_iff takeWhile_tail)
  show ?thesis using assms(3) by (simp only: trim_ascii_space_def front rear Let_def) simp
qed

lemma read_until_line:
  assumes "d \<notin> set w"
  shows "read_until d (w @ d # s) = (w @ [d], s)"
proof -
  have "takeWhile (\<lambda>c. c \<noteq> d) (w @ d # s) = w" "dropWhile (\<lambda>c. c \<noteq> d) (w @ d # s) = d # s"
    using assms by (induction w) auto
  then show ?thesis by (simp add: read_until_def)
qed

lemma position_first: "list_all (\<lambda>x. \<not> P x) w \<Longrightarrow> P x \<Longrightarrow> position P (w @ x # s) = Some (length w)"
  by (induction w) auto

lemma read_headers_end: "read_headers n (crlf @ s) = (Inr n, s)"
  using read_until_line [of lf "[CHR 0x0D]" s] by (subst read_headers.simps) (simp add: crlf_def lf_def)

text \<open>A header line: a key, a colon and a value.\<close>

lemma read_headers_line:
  assumes "CHR '':'' \<notin> set key" "lf \<notin> set key" "lf \<notin> set v"
  shows "read_headers n (key @ CHR '':'' # v @ crlf @ s) =
    (if key = ''Content-Length'' then
       (case parse_i64 (from_utf8_lossy (trim_ascii_space (v @ crlf))) of
          Inl e \<Rightarrow> (Inl (Protocol (InvalidContentLength (''parse error: '' @ int_error_text e))), s)
        | Inr n \<Rightarrow> if n < 0 then (Inl (Protocol (InvalidContentLength (''negative value '' @ show_int n))), s) else read_headers n s)
     else read_headers n s)"
proof -
  let ?line = "key @ CHR '':'' # v @ crlf"
  have line: "read_until lf (?line @ s) = (?line, s)"
    using read_until_line [of lf "key @ CHR '':'' # v @ [CHR 0x0D]" s] assms(2,3) by (simp add: crlf_def lf_def)
  have pos: "position (\<lambda>c. c = CHR '':'') ?line = Some (length key)"
    using assms(1) by (intro position_first) (auto simp: list_all_iff)
  have "last ?line = lf" "?line \<noteq> crlf" by (auto simp: crlf_def lf_def Cons_eq_append_conv append_eq_Cons_conv)
  then show ?thesis
    using line pos by (subst read_headers.simps) (simp split: sum.splits)
qed

lemma read_headers_length:
  assumes "int len < 2 ^ 63"
  shows "read_headers n (''Content-Length: '' @ show_nat len @ crlf @ s) = read_headers (int len) s"
proof -
  have digit: "c \<noteq> lf \<and> \<not> is_ascii_whitespace c \<and> byte c < 0x80" if "c \<in> set (show_nat len)" for c
  proof -
    have "is_ascii_digit c" using show_nat_digits [of len] that by (auto simp: list_all_iff)
    then show ?thesis by (auto simp: is_ascii_digit_def is_ascii_whitespace_def byte_def lf_def)
  qed
  have "trim_ascii_space ('' '' @ show_nat len @ crlf) = show_nat len"
    using digit by (intro trim_ascii_space_core) (auto simp: list_all_iff is_ascii_whitespace_def crlf_def byte_def)
  moreover have "from_utf8_lossy (show_nat len) = show_nat len" using digit by (intro from_utf8_lossy_ascii) (simp add: list_all_iff)
  ultimately have "parse_i64 (from_utf8_lossy (trim_ascii_space ((CHR '' '' # show_nat len) @ crlf))) = Inr (int len)"
    using parse_i64_show_nat [OF assms] by simp
  moreover have "lf \<notin> set (CHR '' '' # show_nat len)" using digit by (auto simp: lf_def)
  ultimately show ?thesis
    using read_headers_line [of "''Content-Length''" "CHR '' '' # show_nat len" n s] by (simp add: lf_def)
qed

lemma read_content_all:
  "length data + length m = len \<Longrightarrow> rd_bytes r = m @ s \<Longrightarrow>
    fst (read_content len data r) = Inr (data @ m) \<and> rd_bytes (snd (read_content len data r)) = s"
proof (induction len data r arbitrary: m rule: read_content.induct)
  case (1 len data r)
  show ?case
  proof (cases "m = []")
    case True
    then show ?thesis using "1.prems" by (simp add: read_content.simps [of len])
  next
    case False
    let ?wanted = "len - length data"
    define n where "n = (case rd_sizes r of [] \<Rightarrow> ?wanted | k # _ \<Rightarrow> min ?wanted (max 1 k))"
    let ?r = "r\<lparr>rd_bytes := drop n (rd_bytes r), rd_sizes := tl (rd_sizes r)\<rparr>"
    have len: "length data < len" "?wanted = length m" "rd_bytes r \<noteq> []" using False "1.prems" by auto
    have n: "n \<le> length m" using len(2) by (auto simp: n_def split: list.splits)
    have "fst (read_content len (data @ take n (rd_bytes r)) ?r) = Inr ((data @ take n (rd_bytes r)) @ drop n m)
      \<and> rd_bytes (snd (read_content len (data @ take n (rd_bytes r)) ?r)) = s"
      by (rule "1.IH" [OF len(1,3) refl n_def]) (use n "1.prems" in auto)
    moreover have "read_content len data r = read_content len (data @ take n (rd_bytes r)) ?r"
      using len(1,3) by (subst read_content.simps) (simp add: n_def Let_def)
    ultimately show ?thesis using n "1.prems" by simp
  qed
qed

fun read_messages :: "nat \<Rightarrow> byte_reader \<Rightarrow> (read_error + string) list \<times> byte_reader" where
  "read_messages 0 r = ([], r)"
| "read_messages (Suc n) r =
     (let (m, r) = read_message r; (ms, r) = read_messages n r in (m # ms, r))"

lemma read_written_message:
  assumes "m \<noteq> []" "int (length m) < 2 ^ 63" "rd_bytes r = write_message m @ s"
  shows "fst (read_message r) = Inr m \<and> rd_bytes (snd (read_message r)) = s"
proof -
  have "read_headers 0 (rd_bytes r) = (Inr (int (length m)), m @ s)"
    using read_headers_length [OF assms(2), of 0 "crlf @ m @ s"] assms(3) by (simp add: write_message_def read_headers_end)
  then show ?thesis
    using assms(1) read_content_all [of "[]" m "length m" "r\<lparr>rd_bytes := m @ s\<rparr>" s] by (simp add: read_message_def)
qed



text \<open>The writer frames an empty message that the reader refuses: it takes a length of 0 for a missing one. An id
  with the empty string is sent as the number 0.\<close>

theorem empty_messages_and_ids:
  "fst (read_message \<lparr>rd_bytes = write_message [] @ s, rd_sizes = ns\<rparr>) = Inl (Protocol NoContentLength)
   \<and> (is_i32 (id_int i) \<and> (id_str i = [] \<or> id_int i = 0) \<longrightarrow> id_deserialize (id_serialize i) = Inr i)
   \<and> id_serialize (id_new_string []) = JInt 0"
proof -
  have "read_headers 0 (write_message [] @ s) = (Inr 0, s)"
    using read_headers_length [of 0 0 "crlf @ s"] by (simp add: write_message_def read_headers_end)
  then show ?thesis
    by (auto simp: read_message_def id_serialize_def id_deserialize_def id_new_string_def id_new_int_def)
qed

theorem empty_messages_and_ids_witness:
  "id_deserialize (id_serialize (id_new_int 7)) = Inr (id_new_int 7)"
  using empty_messages_and_ids [of "[]" "[]" "id_new_int 7"] by (simp add: id_new_int_def is_i32_def)

end
