(* ===== verification/RefCountCache.thy ===== *)
theory RefCountCache
  imports Prelude MachineInt "HOL-Library.Transitive_Closure_Table"
begin

text \<open>
  The reference-counted cache of the project service (\<open>crates/ts-project/src/refcountcache.rs\<close>). The entries are
  cells with an address, as in \<open>Arc<Mutex<...>>\<close>; the map from identities to cells and every cell have a lock of
  their own, and what happens under one lock is one step. The operations are given as these steps, so that the
  operations of several threads can interleave.
\<close>

section \<open>State\<close>

record 'v cache_entry =
  ce_value :: 'v
  ce_ref_count :: int

record ('k, 'v) ref_count_cache =
  rc_disable_deletion :: bool
  rc_entries :: "'k \<rightharpoonup> nat"
  rc_cells :: "'v cache_entry list"

definition new_ref_count_cache :: "bool \<Rightarrow> ('k, 'v) ref_count_cache" where
  "new_ref_count_cache disable_deletion = \<lparr>rc_disable_deletion = disable_deletion, rc_entries = Map.empty, rc_cells = []\<rparr>"

definition rc_load :: "('k, 'v) ref_count_cache \<Rightarrow> 'k \<Rightarrow> 'v cache_entry option" where
  "rc_load s key = map_option (\<lambda>a. rc_cells s ! a) (rc_entries s key)"

definition rc_has :: "('k, 'v) ref_count_cache \<Rightarrow> 'k \<Rightarrow> bool" where
  "rc_has s identity \<longleftrightarrow> rc_entries s identity \<noteq> None"

definition ref_increment :: "nat \<Rightarrow> ('k, 'v) ref_count_cache \<Rightarrow> ('k, 'v) ref_count_cache" where
  "ref_increment a s =
     s\<lparr>rc_cells := (rc_cells s)[a := (rc_cells s ! a)\<lparr>ce_ref_count := wrap32 (ce_ref_count (rc_cells s ! a) + 1)\<rparr>]\<rparr>"

definition ref_decrement :: "nat \<Rightarrow> ('k, 'v) ref_count_cache \<Rightarrow> ('k, 'v) ref_count_cache" where
  "ref_decrement a s =
     s\<lparr>rc_cells := (rc_cells s)[a := (rc_cells s ! a)\<lparr>ce_ref_count := wrap32 (ce_ref_count (rc_cells s ! a) - 1)\<rparr>]\<rparr>"

text \<open>\<open>entries.insert(identity, Arc::new(...))\<close> with reference count 1\<close>

definition insert_entry :: "'k \<Rightarrow> 'v \<Rightarrow> ('k, 'v) ref_count_cache \<Rightarrow> ('k, 'v) ref_count_cache" where
  "insert_entry identity v s =
     s\<lparr>rc_entries := (rc_entries s)(identity \<mapsto> length (rc_cells s)),
       rc_cells := rc_cells s @ [\<lparr>ce_value = v, ce_ref_count = 1\<rparr>]\<rparr>"

definition entry_usable :: "nat \<Rightarrow> ('k, 'v) ref_count_cache \<Rightarrow> bool" where
  "entry_usable a s \<longleftrightarrow> ce_ref_count (rc_cells s ! a) > 0 \<or> rc_disable_deletion s"

section \<open>The operations, step by step\<close>

datatype ('k, 'a, 'v) pc =
    AcquireLookup 'k 'a | AcquireLocked 'k 'a nat | AcquireStore 'k 'a
  | RefLookup 'k | RefLocked 'k nat | RefStore 'k 'v
  | DerefLookup 'k | DerefLocked 'k nat | DerefRemove 'k
  | Returned 'k "'v option" | Panicked

fun acquire_step ::
    "('k \<Rightarrow> 'a \<Rightarrow> 'v) \<Rightarrow> ('k, 'a, 'v) pc \<Rightarrow> ('k, 'v) ref_count_cache \<Rightarrow> ('k, 'a, 'v) pc \<times> ('k, 'v) ref_count_cache" where
  "acquire_step parse (AcquireLookup identity args) s =
     (case rc_entries s identity of
        Some existing \<Rightarrow> (AcquireLocked identity args existing, s)
      | None \<Rightarrow> (AcquireStore identity args, s))"
| "acquire_step parse (AcquireLocked identity args existing) s =
     (if entry_usable existing s
      then (Returned identity (Some (ce_value (rc_cells s ! existing))), ref_increment existing s)
      else (AcquireStore identity args, s))"
| "acquire_step parse (AcquireStore identity args) s =
     (let parsed = parse identity args in
      case rc_entries s identity of
        Some existing \<Rightarrow>
          (if entry_usable existing s
           then (Returned identity (Some (ce_value (rc_cells s ! existing))), ref_increment existing s)
           else (Returned identity (Some parsed), insert_entry identity parsed s))
      | None \<Rightarrow> (Returned identity (Some parsed), insert_entry identity parsed s))"
| "acquire_step parse pc s = (pc, s)"

fun ref_step :: "('k, 'a, 'v) pc \<Rightarrow> ('k, 'v) ref_count_cache \<Rightarrow> ('k, 'a, 'v) pc \<times> ('k, 'v) ref_count_cache" where
  "ref_step (RefLookup identity) s =
     (case rc_entries s identity of None \<Rightarrow> (Panicked, s) | Some entry \<Rightarrow> (RefLocked identity entry, s))"
| "ref_step (RefLocked identity entry) s =
     (if ce_ref_count (rc_cells s ! entry) \<le> 0 \<and> \<not> rc_disable_deletion s
      then (RefStore identity (ce_value (rc_cells s ! entry)), s)
      else (Returned identity None, ref_increment entry s))"
| "ref_step (RefStore identity v) s = (Returned identity None, insert_entry identity v s)"
| "ref_step pc s = (pc, s)"

fun deref_step :: "('k, 'a, 'v) pc \<Rightarrow> ('k, 'v) ref_count_cache \<Rightarrow> ('k, 'a, 'v) pc \<times> ('k, 'v) ref_count_cache" where
  "deref_step (DerefLookup identity) s =
     (case rc_entries s identity of None \<Rightarrow> (Returned identity None, s) | Some entry \<Rightarrow> (DerefLocked identity entry, s))"
| "deref_step (DerefLocked identity entry) s =
     (let s = ref_decrement entry s in
      if ce_ref_count (rc_cells s ! entry) \<le> 0 \<and> \<not> rc_disable_deletion s then (DerefRemove identity, s)
      else (Returned identity None, s))"
| "deref_step (DerefRemove identity) s = (Returned identity None, s\<lparr>rc_entries := (rc_entries s)(identity := None)\<rparr>)"
| "deref_step pc s = (pc, s)"

definition cache_step ::
    "('k \<Rightarrow> 'a \<Rightarrow> 'v) \<Rightarrow> ('k, 'a, 'v) pc \<times> ('k, 'v) ref_count_cache \<Rightarrow> ('k, 'a, 'v) pc \<times> ('k, 'v) ref_count_cache" where
  "cache_step parse p =
     (case fst p of
        RefLookup _ \<Rightarrow> ref_step (fst p) (snd p) | RefLocked _ _ \<Rightarrow> ref_step (fst p) (snd p) | RefStore _ _ \<Rightarrow> ref_step (fst p) (snd p)
      | DerefLookup _ \<Rightarrow> deref_step (fst p) (snd p) | DerefLocked _ _ \<Rightarrow> deref_step (fst p) (snd p) | DerefRemove _ \<Rightarrow> deref_step (fst p) (snd p)
      | _ \<Rightarrow> acquire_step parse (fst p) (snd p))"

fun finished :: "('k, 'a, 'v) pc \<Rightarrow> bool" where
  "finished (Returned _ _) = True" | "finished Panicked = True" | "finished _ = False"

text \<open>An operation that no other thread interrupts: three steps finish it.\<close>

definition run_alone ::
    "('k \<Rightarrow> 'a \<Rightarrow> 'v) \<Rightarrow> ('k, 'a, 'v) pc \<Rightarrow> ('k, 'v) ref_count_cache \<Rightarrow> ('k, 'a, 'v) pc \<times> ('k, 'v) ref_count_cache" where
  "run_alone parse pc s = (cache_step parse ^^ 3) (pc, s)"

text \<open>Threads: each step is one step of one of them.\<close>

inductive interleave ::
    "('k \<Rightarrow> 'a \<Rightarrow> 'v) \<Rightarrow> ('k, 'a, 'v) pc list \<times> ('k, 'v) ref_count_cache \<Rightarrow> ('k, 'a, 'v) pc list \<times> ('k, 'v) ref_count_cache \<Rightarrow> bool"
  for parse where
  thread_step: "i < length ts \<Longrightarrow> \<not> finished (ts ! i) \<Longrightarrow> cache_step parse (ts ! i, s) = (pc, s') \<Longrightarrow>
    interleave parse (ts, s) (ts[i := pc], s')"

inductive_cases interleaveE: "interleave parse (ts, s) c"

section \<open>One operation after the other\<close>

text \<open>What the cache promises: a value for every identity with a positive number of references.\<close>

fun spec_operation :: "('k \<Rightarrow> 'a \<Rightarrow> 'v) \<Rightarrow> ('k, 'a, 'v) pc \<Rightarrow> ('k \<rightharpoonup> 'v \<times> nat) \<Rightarrow> ('k, 'a, 'v) pc \<times> ('k \<rightharpoonup> 'v \<times> nat)" where
  "spec_operation parse (AcquireLookup k args) m =
     (case m k of
        Some (v, n) \<Rightarrow> (Returned k (Some v), m(k \<mapsto> (v, n + 1)))
      | None \<Rightarrow> (Returned k (Some (parse k args)), m(k \<mapsto> (parse k args, 1))))"
| "spec_operation parse (RefLookup k) m =
     (case m k of Some (v, n) \<Rightarrow> (Returned k None, m(k \<mapsto> (v, n + 1))) | None \<Rightarrow> (Panicked, m))"
| "spec_operation parse (DerefLookup k) m =
     (case m k of
        Some (v, n) \<Rightarrow> (Returned k None, if n = 1 then m(k := None) else m(k \<mapsto> (v, n - 1)))
      | None \<Rightarrow> (Returned k None, m))"
| "spec_operation parse pc m = (pc, m)"

fun operations :: "(('k, 'a, 'v) pc \<Rightarrow> 's \<Rightarrow> ('k, 'a, 'v) pc \<times> 's) \<Rightarrow> ('k, 'a, 'v) pc list \<Rightarrow> 's \<Rightarrow> ('k, 'a, 'v) pc list \<times> 's" where
  "operations f [] s = ([], s)"
| "operations f (pc # pcs) s = (let (r, s) = f pc s; (rs, s) = operations f pcs s in (r # rs, s))"

fun starts_operation :: "('k, 'a, 'v) pc \<Rightarrow> bool" where
  "starts_operation (AcquireLookup _ _) = True" | "starts_operation (RefLookup _) = True"
| "starts_operation (DerefLookup _) = True" | "starts_operation _ = False"

text \<open>The cache represents \<open>m\<close>; no count is above \<open>b\<close>.\<close>

definition represents :: "int \<Rightarrow> ('k, 'v) ref_count_cache \<Rightarrow> ('k \<rightharpoonup> 'v \<times> nat) \<Rightarrow> bool" where
  "represents b s m \<longleftrightarrow>
     \<not> rc_disable_deletion s \<and> inj_on (rc_entries s) (dom (rc_entries s))
     \<and> (\<forall>k a. rc_entries s k = Some a \<longrightarrow> a < length (rc_cells s) \<and> 0 < ce_ref_count (rc_cells s ! a) \<and> ce_ref_count (rc_cells s ! a) \<le> b)
     \<and> m = (\<lambda>k. map_option (\<lambda>a. (ce_value (rc_cells s ! a), nat (ce_ref_count (rc_cells s ! a)))) (rc_entries s k))"

lemma representsD:
  assumes "represents b s m" "rc_entries s k = Some a"
  shows "a < length (rc_cells s)" "0 < ce_ref_count (rc_cells s ! a)" "ce_ref_count (rc_cells s ! a) \<le> b"
    and "m k = Some (ce_value (rc_cells s ! a), nat (ce_ref_count (rc_cells s ! a)))"
    and "\<And>k'. rc_entries s k' = Some a \<Longrightarrow> k' = k"
  using assms by (auto simp: represents_def inj_on_def dom_def)

lemma representsI:
  assumes "\<not> rc_disable_deletion s"
    and "\<And>j k a. rc_entries s j = Some a \<Longrightarrow> rc_entries s k = Some a \<Longrightarrow> j = k"
    and "\<And>k a. rc_entries s k = Some a \<Longrightarrow>
      a < length (rc_cells s) \<and> 0 < ce_ref_count (rc_cells s ! a) \<and> ce_ref_count (rc_cells s ! a) \<le> b
      \<and> m k = Some (ce_value (rc_cells s ! a), nat (ce_ref_count (rc_cells s ! a)))"
    and "\<And>k. rc_entries s k = None \<Longrightarrow> m k = None"
  shows "represents b s m"
  unfolding represents_def
proof (intro conjI)
  show "inj_on (rc_entries s) (dom (rc_entries s))" using assms(2) by (auto simp: inj_on_def)
  show "m = (\<lambda>k. map_option (\<lambda>a. (ce_value (rc_cells s ! a), nat (ce_ref_count (rc_cells s ! a)))) (rc_entries s k))"
  proof
    fix k
    show "m k = map_option (\<lambda>a. (ce_value (rc_cells s ! a), nat (ce_ref_count (rc_cells s ! a)))) (rc_entries s k)"
      using assms(3,4) by (cases "rc_entries s k") auto
  qed
qed (use assms(1,3) in auto)

lemma represents_None: "represents b s m \<Longrightarrow> rc_entries s k = None \<Longrightarrow> m k = None"
  by (simp add: represents_def)

lemma represents_deletion: "represents b s m \<Longrightarrow> \<not> rc_disable_deletion s"
  by (simp add: represents_def)

lemma represents_mono:
  assumes "represents b s m" "b \<le> c"
  shows "represents c s m"
proof (rule representsI)
  fix k a assume a: "rc_entries s k = Some a"
  show "a < length (rc_cells s) \<and> 0 < ce_ref_count (rc_cells s ! a) \<and> ce_ref_count (rc_cells s ! a) \<le> c
      \<and> m k = Some (ce_value (rc_cells s ! a), nat (ce_ref_count (rc_cells s ! a)))"
    using representsD(1-4) [OF assms(1) a] assms(2) by simp
qed (use assms(1) in \<open>auto dest: represents_deletion represents_None representsD(5)\<close>)

lemma represents_update:
  assumes rep: "represents b s m" and a: "rc_entries s k = Some a" and e: "0 < ce_ref_count e" "ce_ref_count e \<le> c" "b \<le> c"
  shows "represents c (s\<lparr>rc_cells := (rc_cells s)[a := e]\<rparr>) (m(k \<mapsto> (ce_value e, nat (ce_ref_count e))))"
proof (rule representsI)
  note d = representsD [OF rep a]
  have other: "(rc_cells s)[a := e] ! x = rc_cells s ! x" if "rc_entries s j = Some x" "j \<noteq> k" for j x
    using that d(5) [of j] by (cases "x = a") auto
  fix j x assume "rc_entries (s\<lparr>rc_cells := (rc_cells s)[a := e]\<rparr>) j = Some x"
  then have x: "rc_entries s j = Some x" by simp
  show "x < length (rc_cells (s\<lparr>rc_cells := (rc_cells s)[a := e]\<rparr>))
      \<and> 0 < ce_ref_count (rc_cells (s\<lparr>rc_cells := (rc_cells s)[a := e]\<rparr>) ! x)
      \<and> ce_ref_count (rc_cells (s\<lparr>rc_cells := (rc_cells s)[a := e]\<rparr>) ! x) \<le> c
      \<and> (m(k \<mapsto> (ce_value e, nat (ce_ref_count e)))) j =
          Some (ce_value (rc_cells (s\<lparr>rc_cells := (rc_cells s)[a := e]\<rparr>) ! x), nat (ce_ref_count (rc_cells (s\<lparr>rc_cells := (rc_cells s)[a := e]\<rparr>) ! x)))"
  proof (cases "j = k")
    case True
    then show ?thesis using x a d(1) e by simp
  next
    case False
    then show ?thesis using representsD(1-4) [OF rep x] other [OF x False] e(3) by simp
  qed
next
  fix j assume "rc_entries (s\<lparr>rc_cells := (rc_cells s)[a := e]\<rparr>) j = None"
  then show "(m(k \<mapsto> (ce_value e, nat (ce_ref_count e)))) j = None" using represents_None [OF rep] a by auto
qed (use representsD(5) [OF rep] represents_deletion [OF rep] in auto)

lemma represents_increment:
  assumes "represents b s m" "rc_entries s k = Some a" "b < 2 ^ 31 - 1" "m k = Some (v, n)"
  shows "represents (b + 1) (ref_increment a s) (m(k \<mapsto> (v, n + 1)))"
proof -
  note d = representsD [OF assms(1,2)]
  have w: "wrap32 (ce_ref_count (rc_cells s ! a) + 1) = ce_ref_count (rc_cells s ! a) + 1"
    using d(2,3) assms(3) by (intro wrap32_id) (simp add: is_i32_def)
  have "v = ce_value (rc_cells s ! a)" "n + 1 = nat (ce_ref_count (rc_cells s ! a) + 1)"
    using d(2,4) assms(4) by (simp_all add: nat_add_distrib)
  then show ?thesis
    using represents_update [OF assms(1,2), of "(rc_cells s ! a)\<lparr>ce_ref_count := ce_ref_count (rc_cells s ! a) + 1\<rparr>" "b + 1"] d(2,3) w
    by (simp add: ref_increment_def)
qed

lemma represents_decrement:
  assumes "represents b s m" "rc_entries s k = Some a" "ce_ref_count (rc_cells s ! a) \<noteq> 1" "m k = Some (v, n)" "b < 2 ^ 31"
  shows "represents b (ref_decrement a s) (m(k \<mapsto> (v, n - 1)))" "ce_ref_count (rc_cells (ref_decrement a s) ! a) > 0" "n \<noteq> 1"
proof -
  note d = representsD [OF assms(1,2)]
  have w: "wrap32 (ce_ref_count (rc_cells s ! a) - 1) = ce_ref_count (rc_cells s ! a) - 1"
    using d(2,3) assms(5) by (intro wrap32_id) (simp add: is_i32_def)
  have "v = ce_value (rc_cells s ! a)" "n - 1 = nat (ce_ref_count (rc_cells s ! a) - 1)"
    using d(2,4) assms(4) by (simp_all add: nat_diff_distrib)
  then show "represents b (ref_decrement a s) (m(k \<mapsto> (v, n - 1)))"
    using represents_update [OF assms(1,2), of "(rc_cells s ! a)\<lparr>ce_ref_count := ce_ref_count (rc_cells s ! a) - 1\<rparr>" b] d(2,3) w assms(3)
    by (simp add: ref_decrement_def)
  show "ce_ref_count (rc_cells (ref_decrement a s) ! a) > 0"
    using w d(1,2) assms(3) by (simp add: ref_decrement_def)
  show "n \<noteq> 1" using d(2,4) assms(3,4) by simp
qed

lemma represents_remove:
  assumes rep: "represents b s m" and a: "rc_entries s k = Some a" and one: "ce_ref_count (rc_cells s ! a) = 1"
  shows "represents b ((ref_decrement a s)\<lparr>rc_entries := (rc_entries s)(k := None)\<rparr>) (m(k := None))"
    and "ce_ref_count (rc_cells (ref_decrement a s) ! a) = 0"
proof -
  note d = representsD [OF rep a]
  show "ce_ref_count (rc_cells (ref_decrement a s) ! a) = 0"
    using d(1) one by (simp add: ref_decrement_def is_i32_def)
  have other: "(rc_cells s)[a := e] ! x = rc_cells s ! x" if "rc_entries s j = Some x" "j \<noteq> k" for j x e
    using that d(5) [of j] by (cases "x = a") auto
  show "represents b ((ref_decrement a s)\<lparr>rc_entries := (rc_entries s)(k := None)\<rparr>) (m(k := None))"
  proof (rule representsI, goal_cases)
    case (3 j x)
    then have x: "rc_entries s j = Some x" "j \<noteq> k" by (auto split: if_splits)
    then show ?case using representsD(1-4) [OF rep x(1)] other by (simp add: ref_decrement_def)
  qed (use representsD(5) [OF rep] represents_deletion [OF rep] represents_None [OF rep] in \<open>auto simp: ref_decrement_def split: if_splits\<close>)
qed

lemma represents_insert:
  assumes rep: "represents b s m" and "rc_entries s k = None" "0 \<le> b"
  shows "represents (b + 1) (insert_entry k v s) (m(k \<mapsto> (v, 1)))"
proof (rule representsI, goal_cases)
  case (2 i j x)
  then show ?case using representsD(1,5) [OF rep] by (auto simp: insert_entry_def split: if_splits)
next
  case (3 j x)
  show ?case
  proof (cases "j = k")
    case True
    then have "x = length (rc_cells s)" using 3 by (simp add: insert_entry_def)
    then show ?thesis using True assms(3) by (simp add: insert_entry_def)
  next
    case False
    then have x: "rc_entries s j = Some x" using 3 by (simp add: insert_entry_def)
    then show ?thesis using representsD(1-4) [OF rep x] False by (simp add: insert_entry_def nth_append)
  qed
qed (use represents_deletion [OF rep] represents_None [OF rep] in \<open>auto simp: insert_entry_def split: if_splits\<close>)

lemma three_steps: "(f ^^ 3) x = f (f (f x))"
  by (simp add: numeral_3_eq_3)

lemma operation_refines:
  assumes rep: "represents b s m" and "0 \<le> b" "b < 2 ^ 31 - 1" "starts_operation pc"
  shows "fst (run_alone parse pc s) = fst (spec_operation parse pc m)
    \<and> represents (b + 1) (snd (run_alone parse pc s)) (snd (spec_operation parse pc m))"
proof -
  have del: "\<not> rc_disable_deletion s" using rep by (simp add: represents_def)
  have usable: "entry_usable a s" "\<not> ce_ref_count (rc_cells s ! a) \<le> 0" if "rc_entries s k = Some a" for k a
    using representsD(2) [OF rep that] by (simp_all add: entry_usable_def)
  have stored: "ce_value (rc_cells s ! a) = v" if "rc_entries s k = Some a" "m k = Some (v, n)" for k a v n
    using representsD(4) [OF rep that(1)] that(2) by simp
  show ?thesis
  proof (cases pc)
    case (AcquireLookup k args)
    show ?thesis
    proof (cases "rc_entries s k")
      case None
      then show ?thesis using AcquireLookup represents_None [OF rep] represents_insert [OF rep None assms(2)]
        by (simp add: run_alone_def three_steps cache_step_def Let_def)
    next
      case (Some a)
      obtain v n where v: "m k = Some (v, n)" using representsD(4) [OF rep Some] by blast
      then show ?thesis using AcquireLookup Some usable stored represents_increment [OF rep Some assms(3)]
        by (simp add: run_alone_def three_steps cache_step_def Let_def)
    qed
  next
    case (RefLookup k)
    show ?thesis
    proof (cases "rc_entries s k")
      case None
      then show ?thesis using RefLookup represents_None [OF rep] represents_mono [OF rep]
        by (simp add: run_alone_def three_steps cache_step_def Let_def)
    next
      case (Some a)
      obtain v n where v: "m k = Some (v, n)" using representsD(4) [OF rep Some] by blast
      then show ?thesis using RefLookup Some usable represents_increment [OF rep Some assms(3)]
        by (simp add: run_alone_def three_steps cache_step_def Let_def)
    qed
  next
    case (DerefLookup k)
    show ?thesis
    proof (cases "rc_entries s k")
      case None
      then show ?thesis using DerefLookup represents_None [OF rep] represents_mono [OF rep]
        by (simp add: run_alone_def three_steps cache_step_def Let_def)
    next
      case (Some a)
      obtain v n where v: "m k = Some (v, n)" and n: "n = nat (ce_ref_count (rc_cells s ! a))"
        using representsD(4) [OF rep Some] by blast
      have b: "b < 2 ^ 31" using assms(3) by simp
      have keep: "rc_disable_deletion (ref_decrement a s) = rc_disable_deletion s" "rc_entries (ref_decrement a s) = rc_entries s"
        by (simp_all add: ref_decrement_def)
      show ?thesis
      proof (cases "ce_ref_count (rc_cells s ! a) = 1")
        case True
        then show ?thesis
          using DerefLookup Some v n del keep represents_mono [OF represents_remove(1) [OF rep Some True]] represents_remove(2) [OF rep Some True]
          by (simp add: run_alone_def three_steps cache_step_def Let_def)
      next
        case False
        note r = represents_decrement [OF rep Some False v b]
        then show ?thesis
          using DerefLookup Some v keep represents_mono [OF r(1)]
          by (simp add: run_alone_def three_steps cache_step_def Let_def)
      qed
    qed
  qed (use assms(4) in simp_all)
qed



section \<open>Interleaved operations\<close>

text \<open>A schedule names the threads in the order of their steps.\<close>

fun run_schedule ::
    "('k \<Rightarrow> 'a \<Rightarrow> 'v) \<Rightarrow> nat list \<Rightarrow> ('k, 'a, 'v) pc list \<times> ('k, 'v) ref_count_cache \<Rightarrow> ('k, 'a, 'v) pc list \<times> ('k, 'v) ref_count_cache" where
  "run_schedule parse [] c = c"
| "run_schedule parse (i # is) (ts, s) =
     (if i < length ts \<and> \<not> finished (ts ! i)
      then let (pc, s) = cache_step parse (ts ! i, s) in run_schedule parse is (ts[i := pc], s)
      else run_schedule parse is (ts, s))"

lemma run_schedule_reachable: "(interleave parse)\<^sup>*\<^sup>* c (run_schedule parse is c)"
proof (induction parse "is" c rule: run_schedule.induct)
  case (2 parse i "is" ts s)
  show ?case
  proof (cases "i < length ts \<and> \<not> finished (ts ! i)")
    case True
    obtain pc s' where step: "cache_step parse (ts ! i, s) = (pc, s')" by force
    then have "interleave parse (ts, s) (ts[i := pc], s')" using True by (intro thread_step) auto
    then show ?thesis using 2(1) [OF True] True step by (simp add: converse_rtranclp_into_rtranclp)
  next
    case False
    then show ?thesis using 2(2) by auto
  qed
qed simp

text \<open>C39: Two threads can remove an entry that is in use: between the moment in which the last reference is given up and
  the removal of the entry, another thread acquires the identity, and the removal takes its new entry. Its next
  \<open>ref\<close> panics.\<close>

theorem live_entry_removed:
  "\<exists>s. (interleave parse)\<^sup>*\<^sup>* ([DerefLookup k, AcquireLookup k args], snd (run_alone parse (AcquireLookup k args0) (new_ref_count_cache False)))
        ([Returned k None, Returned k (Some (parse k args))], s)
     \<and> \<not> rc_has s k \<and> fst (run_alone parse (RefLookup k) s) = Panicked"
proof -
  let ?c = "([DerefLookup k, AcquireLookup k args], snd (run_alone parse (AcquireLookup k args0) (new_ref_count_cache False)))"
  let ?r = "run_schedule parse [0, 0, 1, 1, 1, 0] ?c"
  have "fst ?r = [Returned k None, Returned k (Some (parse k args))]" "rc_entries (snd ?r) k = None"
    by (simp_all add: run_alone_def three_steps cache_step_def new_ref_count_cache_def Let_def insert_entry_def ref_decrement_def
        entry_usable_def is_i32_def)
  moreover from this(2) have "fst (run_alone parse (RefLookup k) (snd ?r)) = Panicked"
    by (simp add: run_alone_def three_steps cache_step_def)
  moreover have "(interleave parse)\<^sup>*\<^sup>* ?c (fst ?r, snd ?r)" using run_schedule_reachable by (metis prod.collapse)
  ultimately show ?thesis by (metis rc_has_def)
qed

text \<open>The threads that hold a value of the identity.\<close>

definition holders :: "'k \<Rightarrow> ('k, 'a, 'v) pc list \<Rightarrow> nat" where
  "holders k ts = length (filter (\<lambda>pc. \<exists>v. pc = Returned k (Some v)) ts)"

fun acquiring :: "('k, 'v) ref_count_cache \<Rightarrow> ('k, 'a, 'v) pc \<Rightarrow> bool" where
  "acquiring s (AcquireLookup k args) = True"
| "acquiring s (AcquireStore k args) = True"
| "acquiring s (AcquireLocked k args a) \<longleftrightarrow> rc_entries s k = Some a"
| "acquiring s (Returned k r) \<longleftrightarrow> (\<exists>a. rc_entries s k = Some a \<and> r = Some (ce_value (rc_cells s ! a)))"
| "acquiring s pc = False"

definition shared :: "('k, 'a, 'v) pc list \<Rightarrow> ('k, 'v) ref_count_cache \<Rightarrow> bool" where
  "shared ts s \<longleftrightarrow>
     (\<forall>pc\<in>set ts. acquiring s pc)
     \<and> (\<forall>j k a. rc_entries s j = Some a \<longrightarrow> rc_entries s k = Some a \<longrightarrow> j = k)
     \<and> (\<forall>k a. rc_entries s k = Some a \<longrightarrow> a < length (rc_cells s) \<and> ce_ref_count (rc_cells s ! a) = int (holders k ts) \<and> 0 < holders k ts)"

lemma holders_update:
  assumes "i < length ts" "\<And>k v. ts ! i \<noteq> Returned k (Some v)"
  shows "holders k (ts[i := pc]) = holders k ts + (if \<exists>v. pc = Returned k (Some v) then 1 else 0)"
proof -
  obtain xs ys where ts: "ts = xs @ ts ! i # ys" "length xs = i" using id_take_nth_drop [OF assms(1)] assms(1) by (metis length_take min.absorb4)
  then have upd: "ts[i := pc] = xs @ pc # ys" by (metis list_update_length)
  have "holders k ts = holders k (xs @ ys)" using assms(2) by (subst ts(1)) (simp add: holders_def)
  then show ?thesis by (simp add: upd holders_def)
qed

lemma holders_le: "holders k ts \<le> length ts"
  by (simp add: holders_def)

lemma acquiring_mono:
  assumes "acquiring s pc" "\<And>k a. rc_entries s k = Some a \<Longrightarrow> rc_entries s' k = Some a \<and> ce_value (rc_cells s' ! a) = ce_value (rc_cells s ! a)"
  shows "acquiring s' pc"
  using assms by (cases pc) auto

lemma sharedD:
  assumes "shared ts s"
  shows "pc \<in> set ts \<Longrightarrow> acquiring s pc"
    and "rc_entries s j = Some a \<Longrightarrow> rc_entries s k = Some a \<Longrightarrow> j = k"
    and "rc_entries s k = Some a \<Longrightarrow> a < length (rc_cells s) \<and> ce_ref_count (rc_cells s ! a) = int (holders k ts) \<and> 0 < holders k ts"
  using assms by (auto simp: shared_def)

lemma sharedI:
  assumes "\<And>pc. pc \<in> set ts \<Longrightarrow> acquiring s pc"
    and "\<And>j k a. rc_entries s j = Some a \<Longrightarrow> rc_entries s k = Some a \<Longrightarrow> j = k"
    and "\<And>k a. rc_entries s k = Some a \<Longrightarrow> a < length (rc_cells s) \<and> ce_ref_count (rc_cells s ! a) = int (holders k ts) \<and> 0 < holders k ts"
  shows "shared ts s"
  using assms unfolding shared_def by blast

lemma shared_increment:
  assumes sh: "shared ts s" and a: "rc_entries s k = Some a" and i: "i < length ts" "\<not> finished (ts ! i)" and len: "int (length ts) < 2 ^ 31"
  shows "shared (ts[i := Returned k (Some (ce_value (rc_cells s ! a)))]) (ref_increment a s)"
proof (rule sharedI)
  let ?ts = "ts[i := Returned k (Some (ce_value (rc_cells s ! a)))]"
  note d = sharedD [OF sh]
  have not_returned: "ts ! i \<noteq> Returned j (Some v)" for j v using i(2) by auto
  have al: "a < length (rc_cells s)" using d(3) [OF a] by simp
  have h: "holders j ?ts = holders j ts + (if j = k then 1 else 0)" for j
    using holders_update [OF i(1) not_returned] by auto
  have kept: "ce_value (rc_cells (ref_increment a s) ! x) = ce_value (rc_cells s ! x)" for x
    using al by (cases "x = a") (simp_all add: ref_increment_def)
  show "acquiring (ref_increment a s) pc" if "pc \<in> set ?ts" for pc
  proof -
    from that consider "pc \<in> set ts" | "pc = Returned k (Some (ce_value (rc_cells s ! a)))" using set_update_subset_insert by fastforce
    then show ?thesis
    proof cases
      case 1
      then show ?thesis using kept by (intro acquiring_mono [OF d(1) [OF 1]]) (simp_all add: ref_increment_def)
    next
      case 2
      then show ?thesis using a kept by (simp add: ref_increment_def)
    qed
  qed
  show "rc_entries (ref_increment a s) j = Some x \<Longrightarrow> rc_entries (ref_increment a s) l = Some x \<Longrightarrow> j = l" for j l x
    using d(2) [of j x l] by (simp add: ref_increment_def)
  fix j x assume "rc_entries (ref_increment a s) j = Some x"
  then have x: "rc_entries s j = Some x" by (simp add: ref_increment_def)
  have "int (holders k ts) + 1 < 2 ^ 31" using holders_le [of k ?ts] h [of k] len by simp
  then have w: "wrap32 (int (holders k ts) + 1) = int (holders k ts) + 1" by (intro wrap32_id) (simp add: is_i32_def)
  show "x < length (rc_cells (ref_increment a s)) \<and> ce_ref_count (rc_cells (ref_increment a s) ! x) = int (holders j ?ts) \<and> 0 < holders j ?ts"
  proof (cases "j = k")
    case True
    then show ?thesis using x a d(3) [OF a] h w by (simp add: ref_increment_def)
  next
    case False
    then have "x \<noteq> a" using d(2) [OF x] a by auto
    then show ?thesis using d(3) [OF x] h False by (simp add: ref_increment_def)
  qed
qed

lemma shared_insert:
  assumes sh: "shared ts s" and none: "rc_entries s k = None" and i: "i < length ts" "\<not> finished (ts ! i)"
  shows "shared (ts[i := Returned k (Some v)]) (insert_entry k v s)"
proof (rule sharedI)
  let ?ts = "ts[i := Returned k (Some v)]"
  note d = sharedD [OF sh]
  have not_returned: "ts ! i \<noteq> Returned j (Some v)" for j v using i(2) by auto
  have h: "holders j ?ts = holders j ts + (if j = k then 1 else 0)" for j
    using holders_update [OF i(1) not_returned] by auto
  have "holders k ts = 0" using d(1) none by (fastforce simp: holders_def filter_empty_conv)
  note h0 = this
  show "acquiring (insert_entry k v s) pc" if "pc \<in> set ?ts" for pc
  proof -
    from that consider "pc \<in> set ts" | "pc = Returned k (Some v)" using set_update_subset_insert by fastforce
    then show ?thesis
    proof cases
      case 1
      then show ?thesis
      proof (rule acquiring_mono [OF d(1)])
        fix j x assume x: "rc_entries s j = Some x"
        then have "j \<noteq> k" "x < length (rc_cells s)" using none d(3) by auto
        then show "rc_entries (insert_entry k v s) j = Some x \<and> ce_value (rc_cells (insert_entry k v s) ! x) = ce_value (rc_cells s ! x)"
          using x by (simp add: insert_entry_def nth_append)
      qed
    next
      case 2
      then show ?thesis by (simp add: insert_entry_def)
    qed
  qed
  show "rc_entries (insert_entry k v s) j = Some x \<Longrightarrow> rc_entries (insert_entry k v s) l = Some x \<Longrightarrow> j = l" for j l x
    using d(2) [of j x l] d(3) [of j x] d(3) [of l x] by (auto simp: insert_entry_def split: if_splits)
  show "x < length (rc_cells (insert_entry k v s)) \<and> ce_ref_count (rc_cells (insert_entry k v s) ! x) = int (holders j ?ts) \<and> 0 < holders j ?ts"
    if "rc_entries (insert_entry k v s) j = Some x" for j x
  proof (cases "j = k")
    case True
    then have "x = length (rc_cells s)" using that by (simp add: insert_entry_def)
    then show ?thesis using True h h0 by (simp add: insert_entry_def)
  next
    case False
    then have "rc_entries s j = Some x" using that by (simp add: insert_entry_def)
    then show ?thesis using d(3) [of j x] False h by (simp add: insert_entry_def nth_append)
  qed
qed

lemma shared_waiting:
  assumes sh: "shared ts s" and i: "i < length ts" "\<not> finished (ts ! i)" and "\<not> finished pc" "acquiring s pc"
  shows "shared (ts[i := pc]) s"
proof -
  have "holders k (ts[i := pc]) = holders k ts" for k
    using assms by (subst holders_update) auto
  moreover have "set (ts[i := pc]) \<subseteq> insert pc (set ts)" by (rule set_update_subset_insert)
  ultimately show ?thesis using sh assms(5) by (auto simp: shared_def)
qed

lemma shared_step:
  assumes sh: "shared ts s" and step: "interleave parse (ts, s) (ts', s')" and len: "int (length ts) < 2 ^ 31"
  shows "shared ts' s' \<and> length ts' = length ts"
proof -
  from step obtain i pc where i: "i < length ts" "\<not> finished (ts ! i)" and c: "cache_step parse (ts ! i, s) = (pc, s')" and ts': "ts' = ts[i := pc]"
    by (auto elim: interleaveE)
  have usable: "entry_usable a s" if "rc_entries s k = Some a" for k a
    using sharedD(3) [OF sh that] by (simp add: entry_usable_def)
  have acq: "acquiring s (ts ! i)" using sharedD(1) [OF sh] i(1) by simp
  show ?thesis
  proof (cases "ts ! i")
    case (AcquireLookup k args)
    then have "s' = s \<and> \<not> finished pc \<and> acquiring s pc" using c by (auto simp: cache_step_def split: option.splits)
    then show ?thesis using shared_waiting [OF sh i] by (simp add: ts')
  next
    case (AcquireLocked k args a)
    then have "rc_entries s k = Some a" using acq by simp
    then show ?thesis using AcquireLocked c usable shared_increment [OF sh _ i len] by (auto simp: cache_step_def ts')
  next
    case (AcquireStore k args)
    then show ?thesis using c usable shared_increment [OF sh _ i len] shared_insert [OF sh _ i]
      by (cases "rc_entries s k") (auto simp: cache_step_def Let_def ts')
  qed (use acq i(2) in auto)
qed

text \<open>C7: Whatever the interleaving, threads that acquire the same identity share one value, the first that was stored, and
  the count of an entry is the number of threads that hold it.\<close>

theorem concurrent_acquires_share:
  assumes "(interleave parse)\<^sup>*\<^sup>* (map (\<lambda>(k, args). AcquireLookup k args) requests, new_ref_count_cache disable_deletion) (ts, s)"
    and "int (length requests) < 2 ^ 31"
  shows "(Returned k (Some v) \<in> set ts \<longrightarrow> map_option ce_value (rc_load s k) = Some v)
    \<and> (rc_has s k \<longrightarrow> 0 < holders k ts \<and> map_option ce_ref_count (rc_load s k) = Some (int (holders k ts)))"
proof -
  have "shared ts s \<and> length ts = length requests"
    using assms(1)
  proof (induction "(ts, s)" arbitrary: ts s rule: rtranclp_induct)
    case base
    show ?case by (auto simp: shared_def new_ref_count_cache_def)
  next
    case (step c)
    obtain ts1 s1 where "c = (ts1, s1)" by force
    then show ?case using step shared_step [of ts1 s1 parse ts s] assms(2) by auto
  qed
  then have sh: "shared ts s" by simp
  have "map_option ce_value (rc_load s k) = Some v" if "Returned k (Some v) \<in> set ts"
    using sharedD(1) [OF sh that] by (auto simp: rc_load_def)
  moreover have "0 < holders k ts \<and> map_option ce_ref_count (rc_load s k) = Some (int (holders k ts))" if "rc_has s k"
    using that sharedD(3) [OF sh, of k] by (auto simp: rc_load_def rc_has_def)
  ultimately show ?thesis by blast
qed

theorem concurrent_acquires_share_witness:
  "map_option ce_value (rc_load (snd (run_schedule (\<lambda>k a. a) [0, 1, 0, 1] ([AcquireLookup True 1, AcquireLookup True 2], new_ref_count_cache False))) True)
   = Some (1 :: nat)"
proof -
  let ?c = "([AcquireLookup True 1, AcquireLookup True 2], new_ref_count_cache False) :: (bool, nat, nat) pc list \<times> (bool, nat) ref_count_cache"
  let ?r = "run_schedule (\<lambda>k a. a) [0, 1, 0, 1] ?c"
  have "(interleave (\<lambda>k a. a))\<^sup>*\<^sup>* (map (\<lambda>(k, args). AcquireLookup k args) [(True, 1), (True, 2)], new_ref_count_cache False) (fst ?r, snd ?r)"
    using run_schedule_reachable [of "\<lambda>k a. a" ?c "[0, 1, 0, 1]"] by (simp del: run_schedule.simps)
  moreover have "Returned True (Some 1) \<in> set (fst ?r)"
    by (simp add: cache_step_def new_ref_count_cache_def Let_def insert_entry_def ref_increment_def entry_usable_def)
  ultimately show ?thesis using concurrent_acquires_share [of "\<lambda>k a. a" "[(True, 1), (True, 2)]" False "fst ?r" "snd ?r" True 1] by simp
qed

end
