(* ===== verification/DirtyMap.thy ===== *)
theory DirtyMap
  imports Interfaces
begin

text \<open>
  Maps that are changed on top of a base and then finalized (\<open>crates/ts-project-support/src/dirty\<close>: \<open>map.rs\<close>,
  \<open>mapbuilder.rs\<close>, \<open>box.rs\<close>). \<open>clone_value\<close> copies a value and is the identity here; a panic is
  \<open>None\<close>.
\<close>

section \<open>Entries\<close>

record ('k, 'v) map_entry =
  me_key :: 'k
  me_original :: 'v
  me_value :: 'v
  me_dirty :: bool
  me_delete :: bool

type_synonym ('k, 'v) dirty_entries = "'k \<rightharpoonup> ('k, 'v) map_entry"

text \<open>An entry that was handed out is a copy beside the dirty entries it is stored into.\<close>

definition entry_store :: "('k, 'v) map_entry \<Rightarrow> ('k, 'v) dirty_entries \<Rightarrow> ('k, 'v) dirty_entries" where
  "entry_store e dirty = dirty(me_key e \<mapsto> e)"

definition entry_value :: "'v \<Rightarrow> ('k, 'v) map_entry \<Rightarrow> 'v" where
  "entry_value dflt e = (if me_delete e then dflt else me_value e)"

definition entry_change ::
    "('v \<Rightarrow> 'v) \<Rightarrow> ('k, 'v) map_entry \<times> ('k, 'v) dirty_entries \<Rightarrow> (('k, 'v) map_entry \<times> ('k, 'v) dirty_entries) option" where
  "entry_change apply_change st =
     (case st of (e, dirty) \<Rightarrow>
        if me_delete e then None
        else
          let (e, dirty) =
            (if \<not> me_dirty e then let e = e\<lparr>me_dirty := True\<rparr> in (e, entry_store e dirty) else (e, dirty));
              e = e\<lparr>me_value := apply_change (me_value e)\<rparr> in
          Some (e, entry_store e dirty))"

definition entry_replace ::
    "'v \<Rightarrow> ('k, 'v) map_entry \<times> ('k, 'v) dirty_entries \<Rightarrow> (('k, 'v) map_entry \<times> ('k, 'v) dirty_entries) option" where
  "entry_replace new_value st =
     (case st of (e, dirty) \<Rightarrow>
        if me_delete e then None
        else
          let (e, dirty) =
            (if \<not> me_dirty e then let e = e\<lparr>me_dirty := True\<rparr> in (e, entry_store e dirty) else (e, dirty));
              e = e\<lparr>me_value := new_value\<rparr> in
          Some (e, dirty(me_key e \<mapsto> \<lparr>me_key = me_key e, me_original = me_original e, me_value = new_value,
                                       me_dirty = me_dirty e, me_delete = me_delete e\<rparr>)))"

definition entry_change_if ::
    "('v \<Rightarrow> bool) \<Rightarrow> ('v \<Rightarrow> 'v) \<Rightarrow> ('k, 'v) map_entry \<times> ('k, 'v) dirty_entries
     \<Rightarrow> (bool \<times> ('k, 'v) map_entry \<times> ('k, 'v) dirty_entries) option" where
  "entry_change_if cond apply_change st =
     (if cond (me_value (fst st)) then map_option (Pair True) (entry_change apply_change st) else Some (False, st))"

definition entry_delete ::
    "('k, 'v) map_entry \<times> ('k, 'v) dirty_entries \<Rightarrow> ('k, 'v) map_entry \<times> ('k, 'v) dirty_entries" where
  "entry_delete st = (case st of (e, dirty) \<Rightarrow> let e = e\<lparr>me_delete := True\<rparr> in (e, entry_store e dirty))"

section \<open>The map\<close>

record ('k, 'v) dirty_map =
  dm_base :: "'k \<rightharpoonup> 'v"
  dm_dirty :: "('k, 'v) dirty_entries"

definition new_dirty_map :: "('k \<rightharpoonup> 'v) \<Rightarrow> ('k, 'v) dirty_map" where
  "new_dirty_map base = \<lparr>dm_base = base, dm_dirty = Map.empty\<rparr>"

definition base_entry :: "'k \<Rightarrow> 'v \<Rightarrow> ('k, 'v) map_entry" where
  "base_entry key value = \<lparr>me_key = key, me_original = value, me_value = value, me_dirty = False, me_delete = False\<rparr>"

definition dm_get :: "('k, 'v) dirty_map \<Rightarrow> 'k \<Rightarrow> ('k, 'v) map_entry option" where
  "dm_get m key =
     (case dm_dirty m key of
        Some entry \<Rightarrow> if me_delete entry then None else Some entry
      | None \<Rightarrow> map_option (base_entry key) (dm_base m key))"

definition dm_add :: "'v \<Rightarrow> 'k \<Rightarrow> 'v \<Rightarrow> ('k, 'v) dirty_map \<Rightarrow> ('k, 'v) dirty_map" where
  "dm_add dflt key value m =
     m\<lparr>dm_dirty := (dm_dirty m)(key \<mapsto> \<lparr>me_key = key, me_original = dflt, me_value = value, me_dirty = True, me_delete = False\<rparr>)\<rparr>"

definition dm_change :: "'k \<Rightarrow> ('v \<Rightarrow> 'v) \<Rightarrow> ('k, 'v) dirty_map \<Rightarrow> ('k, 'v) dirty_map option" where
  "dm_change key apply_change m =
     (case dm_get m key of
        None \<Rightarrow> None
      | Some e \<Rightarrow> map_option (\<lambda>st. m\<lparr>dm_dirty := snd st\<rparr>) (entry_change apply_change (e, dm_dirty m)))"

definition dm_try_delete :: "'k \<Rightarrow> ('k, 'v) dirty_map \<Rightarrow> bool \<times> ('k, 'v) dirty_map" where
  "dm_try_delete key m =
     (case dm_get m key of
        None \<Rightarrow> (False, m)
      | Some e \<Rightarrow> (True, m\<lparr>dm_dirty := snd (entry_delete (e, dm_dirty m))\<rparr>))"

definition dm_delete :: "'k \<Rightarrow> ('k, 'v) dirty_map \<Rightarrow> ('k, 'v) dirty_map option" where
  "dm_delete key m = (case dm_try_delete key m of (deleted, m) \<Rightarrow> if deleted then Some m else None)"

definition dm_clear :: "('k, 'v) dirty_map \<Rightarrow> ('k, 'v) dirty_map" where
  "dm_clear m = m\<lparr>dm_dirty := Map.empty, dm_base := Map.empty\<rparr>"

text \<open>\<open>range\<close> visits the entries in the order of the keys of the two hash maps; the visitor \<open>f\<close> may use its
  entry, and keeps a state of its own.\<close>

fun range_dirty ::
    "(('k, 'v) map_entry \<Rightarrow> ('k, 'v) dirty_entries \<times> 's \<Rightarrow> bool \<times> ('k, 'v) dirty_entries \<times> 's) \<Rightarrow> 'k list
     \<Rightarrow> ('k, 'v) dirty_entries \<times> 's \<Rightarrow> (bool \<times> ('k, 'v) dirty_entries \<times> 's) option" where
  "range_dirty f [] st = Some (True, st)"
| "range_dirty f (key # keys) st =
     (case fst st key of
        None \<Rightarrow> None
      | Some entry \<Rightarrow>
          if \<not> me_delete entry then
            (case f entry st of (continue, st) \<Rightarrow> if continue then range_dirty f keys st else Some (False, st))
          else range_dirty f keys st)"

fun range_base ::
    "(('k, 'v) map_entry \<Rightarrow> ('k, 'v) dirty_entries \<times> 's \<Rightarrow> bool \<times> ('k, 'v) dirty_entries \<times> 's) \<Rightarrow> ('k \<rightharpoonup> 'v) \<Rightarrow> 'k list \<Rightarrow> 'k list
     \<Rightarrow> ('k, 'v) dirty_entries \<times> 's \<Rightarrow> ('k, 'v) dirty_entries \<times> 's" where
  "range_base f base seen [] st = st"
| "range_base f base seen (key # keys) st =
     (if key \<in> set seen then range_base f base seen keys st
      else
        (case base key of
           None \<Rightarrow> range_base f base seen keys st
         | Some value \<Rightarrow>
             (case f (base_entry key value) st of
                (continue, st) \<Rightarrow> if continue then range_base f base seen keys st else st)))"

definition dm_range ::
    "(('k, 'v) map_entry \<Rightarrow> ('k, 'v) dirty_entries \<times> 's \<Rightarrow> bool \<times> ('k, 'v) dirty_entries \<times> 's) \<Rightarrow> 'k list \<Rightarrow> 'k list
     \<Rightarrow> ('k, 'v) dirty_map \<Rightarrow> 's \<Rightarrow> (('k, 'v) dirty_map \<times> 's) option" where
  "dm_range f dirty_keys base_keys m s =
     (case range_dirty f dirty_keys (dm_dirty m, s) of
        None \<Rightarrow> None
      | Some (continue, st) \<Rightarrow>
          let (dirty, s) = (if continue then range_base f (dm_base m) dirty_keys base_keys st else st) in
          Some (m\<lparr>dm_dirty := dirty\<rparr>, s))"

definition dm_finalize :: "('k, 'v) dirty_map \<Rightarrow> ('k \<rightharpoonup> 'v) \<times> bool" where
  "dm_finalize m =
     (if dm_dirty m = Map.empty then (dm_base m, False)
      else
        (\<lambda>key. case dm_dirty m key of
                  Some entry \<Rightarrow> if me_delete entry then None else Some (me_value entry)
                | None \<Rightarrow> dm_base m key, True))"

section \<open>The builder\<close>

record ('k, 'b, 'v) map_builder =
  mb_base :: "'k \<rightharpoonup> 'b"
  mb_dirty :: "'k \<rightharpoonup> 'v"
  mb_deleted :: "'k set"
  mb_build :: "'v \<Rightarrow> 'b"

definition new_map_builder :: "('k \<rightharpoonup> 'b) \<Rightarrow> ('v \<Rightarrow> 'b) \<Rightarrow> ('k, 'b, 'v) map_builder" where
  "new_map_builder base build = \<lparr>mb_base = base, mb_dirty = Map.empty, mb_deleted = {}, mb_build = build\<rparr>"

definition mb_set :: "'k \<Rightarrow> 'v \<Rightarrow> ('k, 'b, 'v) map_builder \<Rightarrow> ('k, 'b, 'v) map_builder" where
  "mb_set key value b = b\<lparr>mb_dirty := (mb_dirty b)(key \<mapsto> value), mb_deleted := mb_deleted b - {key}\<rparr>"

definition mb_delete :: "'k \<Rightarrow> ('k, 'b, 'v) map_builder \<Rightarrow> ('k, 'b, 'v) map_builder" where
  "mb_delete key b = b\<lparr>mb_deleted := insert key (mb_deleted b), mb_dirty := (mb_dirty b)(key := None)\<rparr>"

definition mb_clear :: "('k, 'b, 'v) map_builder \<Rightarrow> ('k, 'b, 'v) map_builder" where
  "mb_clear b = b\<lparr>mb_dirty := Map.empty, mb_deleted := dom (mb_base b)\<rparr>"

definition mb_has :: "('k, 'b, 'v) map_builder \<Rightarrow> 'k \<Rightarrow> bool" where
  "mb_has b key \<longleftrightarrow> (if key \<in> mb_deleted b then False else if mb_dirty b key \<noteq> None then True else mb_base b key \<noteq> None)"

definition mb_result :: "('k, 'b, 'v) map_builder \<Rightarrow> 'k \<rightharpoonup> 'b" where
  "mb_result b =
     (if mb_dirty b = Map.empty \<and> mb_deleted b = {} then mb_base b
      else (mb_base b |` (- mb_deleted b)) ++ (\<lambda>key. map_option (mb_build b) (mb_dirty b key)))"

section \<open>Boxes\<close>

record 'v dirty_box =
  bx_original :: 'v
  bx_value :: 'v
  bx_dirty :: bool
  bx_delete :: bool

definition new_box :: "'v \<Rightarrow> 'v dirty_box" where
  "new_box original = \<lparr>bx_original = original, bx_value = original, bx_dirty = False, bx_delete = False\<rparr>"

definition box_value :: "'v \<Rightarrow> 'v dirty_box \<Rightarrow> 'v" where
  "box_value dflt b = (if bx_delete b then dflt else bx_value b)"

definition box_set :: "'v \<Rightarrow> 'v dirty_box \<Rightarrow> 'v dirty_box" where
  "box_set v b = b\<lparr>bx_value := v, bx_delete := False, bx_dirty := True\<rparr>"

text \<open>\<open>change\<close> hands a clone of the value to the function, which cannot change the value itself.\<close>

definition box_change :: "'v dirty_box \<Rightarrow> 'v dirty_box" where
  "box_change b = (if \<not> bx_dirty b then b\<lparr>bx_dirty := True\<rparr> else b)"

definition box_delete :: "'v dirty_box \<Rightarrow> 'v dirty_box" where
  "box_delete b = b\<lparr>bx_delete := True\<rparr>"

definition box_finalize :: "'v \<Rightarrow> 'v dirty_box \<Rightarrow> 'v \<times> bool" where
  "box_finalize dflt b = (box_value dflt b, bx_dirty b \<or> bx_delete b)"

section \<open>What the map promises\<close>

text \<open>Operations on the dirty map and on the map that it stands for.\<close>

datatype ('k, 'v) map_op = Add 'k 'v | Change 'k "'v \<Rightarrow> 'v" | Delete 'k | TryDelete 'k

fun dm_op :: "'v \<Rightarrow> ('k, 'v) map_op \<Rightarrow> ('k, 'v) dirty_map \<Rightarrow> ('k, 'v) dirty_map option" where
  "dm_op dflt (Add k v) m = Some (dm_add dflt k v m)"
| "dm_op dflt (Change k f) m = dm_change k f m"
| "dm_op dflt (Delete k) m = dm_delete k m"
| "dm_op dflt (TryDelete k) m = Some (snd (dm_try_delete k m))"

fun plain_op :: "('k, 'v) map_op \<Rightarrow> ('k \<rightharpoonup> 'v) \<Rightarrow> ('k \<rightharpoonup> 'v) option" where
  "plain_op (Add k v) m = Some (m(k \<mapsto> v))"
| "plain_op (Change k f) m = map_option (\<lambda>v. m(k \<mapsto> f v)) (m k)"
| "plain_op (Delete k) m = (if m k = None then None else Some (m(k := None)))"
| "plain_op (TryDelete k) m = Some (m(k := None))"

fun run_ops :: "('o \<Rightarrow> 's \<Rightarrow> 's option) \<Rightarrow> 'o list \<Rightarrow> 's \<Rightarrow> 's option" where
  "run_ops f [] s = Some s"
| "run_ops f (x # xs) s = Option.bind (f x s) (run_ops f xs)"

definition dm_view :: "('k, 'v) dirty_map \<Rightarrow> 'k \<rightharpoonup> 'v" where
  "dm_view m key =
     (case dm_dirty m key of
        Some entry \<Rightarrow> if me_delete entry then None else Some (me_value entry)
      | None \<Rightarrow> dm_base m key)"

definition keyed :: "('k, 'v) dirty_map \<Rightarrow> bool" where
  "keyed m \<longleftrightarrow> (\<forall>k e. dm_dirty m k = Some e \<longrightarrow> me_key e = k)"

lemma finalize_view: "fst (dm_finalize m) = dm_view m"
  by (auto simp: dm_finalize_def dm_view_def fun_eq_iff)

lemma dm_get_view:
  assumes "keyed m"
  shows "dm_get m k = None \<and> dm_view m k = None \<or>
    (\<exists>e. dm_get m k = Some e \<and> dm_view m k = Some (me_value e) \<and> me_key e = k \<and> \<not> me_delete e)"
proof (cases "dm_dirty m k")
  case None
  then show ?thesis by (cases "dm_base m k") (simp_all add: dm_get_def dm_view_def base_entry_def)
next
  case (Some e)
  then show ?thesis using assms by (simp add: dm_get_def dm_view_def keyed_def)
qed

lemma view_upd:
  "dm_view (m\<lparr>dm_dirty := (dm_dirty m)(k \<mapsto> e)\<rparr>) = (if me_delete e then (dm_view m)(k := None) else (dm_view m)(k \<mapsto> me_value e))"
proof
  fix x
  show "dm_view (m\<lparr>dm_dirty := (dm_dirty m)(k \<mapsto> e)\<rparr>) x =
      (if me_delete e then (dm_view m)(k := None) else (dm_view m)(k \<mapsto> me_value e)) x"
    by (cases "x = k"; cases "dm_dirty m x") (simp_all add: dm_view_def)
qed

lemma keyed_upd: "keyed m \<Longrightarrow> me_key e = k \<Longrightarrow> keyed (m\<lparr>dm_dirty := (dm_dirty m)(k \<mapsto> e)\<rparr>)"
  by (auto simp: keyed_def)

lemma entry_change_stored:
  assumes "\<not> me_delete e"
  shows "\<exists>e'. entry_change f (e, dirty) = Some (e', dirty(me_key e \<mapsto> e')) \<and> me_key e' = me_key e \<and> me_value e' = f (me_value e) \<and> \<not> me_delete e'"
  using assms by (auto simp: entry_change_def entry_store_def Let_def)

lemma dm_op_refines:
  assumes "keyed m"
  shows "(dm_op dflt x m = None \<longleftrightarrow> plain_op x (dm_view m) = None)
    \<and> (\<forall>m'. dm_op dflt x m = Some m' \<longrightarrow> plain_op x (dm_view m) = Some (dm_view m') \<and> keyed m' \<and> dm_base m' = dm_base m)"
proof (cases x)
  case (Add k v)
  then show ?thesis using assms by (auto simp: dm_add_def view_upd keyed_def)
next
  case (Change k f)
  from dm_get_view [OF assms, of k] show ?thesis
  proof (elim disjE exE conjE)
    fix e assume e: "dm_get m k = Some e" "dm_view m k = Some (me_value e)" "me_key e = k" "\<not> me_delete e"
    obtain e' where "entry_change f (e, dm_dirty m) = Some (e', (dm_dirty m)(k \<mapsto> e'))" "me_key e' = k" "me_value e' = f (me_value e)" "\<not> me_delete e'"
      using entry_change_stored [OF e(4), of f "dm_dirty m"] e(3) by auto
    then show ?thesis using Change e assms by (simp add: dm_change_def view_upd keyed_upd)
  qed (simp add: Change dm_change_def)
next
  case (Delete k)
  from dm_get_view [OF assms, of k] show ?thesis
  proof (elim disjE exE conjE)
    fix e assume e: "dm_get m k = Some e" "dm_view m k = Some (me_value e)" "me_key e = k" "\<not> me_delete e"
    then show ?thesis using Delete assms by (simp add: dm_delete_def dm_try_delete_def entry_delete_def entry_store_def view_upd keyed_upd Let_def)
  qed (simp add: Delete dm_delete_def dm_try_delete_def)
next
  case (TryDelete k)
  from dm_get_view [OF assms, of k] show ?thesis
  proof (elim disjE exE conjE)
    fix e assume e: "dm_get m k = Some e" "dm_view m k = Some (me_value e)" "me_key e = k" "\<not> me_delete e"
    then show ?thesis using TryDelete assms by (simp add: dm_try_delete_def entry_delete_def entry_store_def view_upd keyed_upd Let_def)
  next
    assume "dm_get m k = None" "dm_view m k = None"
    moreover from this have "(dm_view m)(k := None) = dm_view m" by auto
    ultimately show ?thesis using TryDelete assms by (simp add: dm_try_delete_def)
  qed
qed

lemma run_ops_refines:
  "keyed m \<Longrightarrow> run_ops plain_op xs (dm_view m) = map_option dm_view (run_ops (dm_op dflt) xs m)
    \<and> (\<forall>m'. run_ops (dm_op dflt) xs m = Some m' \<longrightarrow> dm_base m' = dm_base m)"
proof (induction xs arbitrary: m)
  case (Cons x xs)
  show ?case
  proof (cases "dm_op dflt x m")
    case None
    then show ?thesis using dm_op_refines [OF Cons.prems, of dflt x] by simp
  next
    case (Some m1)
    then have "plain_op x (dm_view m) = Some (dm_view m1)" "keyed m1" "dm_base m1 = dm_base m"
      using dm_op_refines [OF Cons.prems, of dflt x] by auto
    then show ?thesis using conjunct1 [OF Cons.IH [of m1]] conjunct2 [OF Cons.IH [of m1]] Some by (metis bind.bind_lunit run_ops.simps(2))
  qed
qed simp

lemma run_ops_keyed: "keyed m \<Longrightarrow> run_ops (dm_op dflt) xs m = Some m' \<Longrightarrow> keyed m'"
proof (induction xs arbitrary: m)
  case (Cons x xs)
  then obtain m1 where "dm_op dflt x m = Some m1" "run_ops (dm_op dflt) xs m1 = Some m'" by (auto simp: bind_eq_Some_conv)
  then show ?case using Cons.IH [of m1] dm_op_refines [OF Cons.prems(1), of dflt x] by blast
qed simp

text \<open>C17: A dirty map stands for an ordinary map: any sequence of additions, changes and deletions panics as on that map
  and is finalized to it, and the finalized map is reported as unchanged only if it is the base.\<close>

theorem dirty_map_refines_map:
  shows "run_ops plain_op ops base = map_option (\<lambda>m. fst (dm_finalize m)) (run_ops (dm_op dflt) ops (new_dirty_map base))
    \<and> (\<forall>m. run_ops (dm_op dflt) ops (new_dirty_map base) = Some m \<and> \<not> snd (dm_finalize m) \<longrightarrow> fst (dm_finalize m) = base)"
proof -
  have new: "keyed (new_dirty_map base)" "dm_view (new_dirty_map base) = base" "dm_base (new_dirty_map base) = base"
    by (auto simp: keyed_def new_dirty_map_def dm_view_def)
  show ?thesis
    unfolding finalize_view using run_ops_refines [OF new(1), of ops dflt] new(2,3)
    by (auto simp: dm_finalize_def dm_view_def split: if_splits)
qed

theorem dirty_map_refines_map_witness:
  "\<exists>m. run_ops (dm_op 0) [Add ''b'' 2, Change ''b'' Suc, Delete ''a''] (new_dirty_map [''a'' \<mapsto> (1 :: nat)]) = Some m
     \<and> fst (dm_finalize m) ''b'' = Some 3"
proof -
  have "run_ops plain_op [Add ''b'' 2, Change ''b'' Suc, Delete ''a''] [''a'' \<mapsto> (1 :: nat)] = Some ([''b'' \<mapsto> 3])"
    by (simp add: fun_eq_iff)
  then have "map_option (\<lambda>m. fst (dm_finalize m)) (run_ops (dm_op 0) [Add ''b'' 2, Change ''b'' Suc, Delete ''a''] (new_dirty_map [''a'' \<mapsto> (1 :: nat)])) = Some [''b'' \<mapsto> 3]"
    using dirty_map_refines_map [of "[Add ''b'' 2, Change ''b'' Suc, Delete ''a'']" "[''a'' \<mapsto> (1 :: nat)]" 0] by simp
  then show ?thesis by auto
qed

text \<open>A map that was cleared is finalized to the empty map, but reported as unchanged, whatever its base was.\<close>

theorem cleared_map_unchanged:
  "dm_finalize (dm_clear m) = (Map.empty, False)"
  by (simp add: dm_finalize_def dm_clear_def)

section \<open>What the builder promises\<close>

datatype ('k, 'v) builder_op = Set 'k 'v | Remove 'k | Clear

fun mb_op :: "('k, 'v) builder_op \<Rightarrow> ('k, 'b, 'v) map_builder \<Rightarrow> ('k, 'b, 'v) map_builder" where
  "mb_op (Set k v) b = mb_set k v b"
| "mb_op (Remove k) b = mb_delete k b"
| "mb_op Clear b = mb_clear b"

fun built_op :: "('v \<Rightarrow> 'b) \<Rightarrow> ('k, 'v) builder_op \<Rightarrow> ('k \<rightharpoonup> 'b) \<Rightarrow> 'k \<rightharpoonup> 'b" where
  "built_op f (Set k v) m = m(k \<mapsto> f v)"
| "built_op f (Remove k) m = m(k := None)"
| "built_op f Clear m = Map.empty"

lemma mb_op_step:
  assumes "mb_deleted b \<inter> dom (mb_dirty b) = {}"
  shows "mb_deleted (mb_op x b) \<inter> dom (mb_dirty (mb_op x b)) = {} \<and> mb_build (mb_op x b) = mb_build b
    \<and> mb_result (mb_op x b) = built_op (mb_build b) x (mb_result b)"
proof -
  have result: "mb_result c = (\<lambda>k. if k \<in> mb_deleted c then None else case mb_dirty c k of Some v \<Rightarrow> Some (mb_build c v) | None \<Rightarrow> mb_base c k)"
    if "mb_deleted c \<inter> dom (mb_dirty c) = {}" for c :: "('a, 'b, 'c) map_builder"
    using that by (auto simp: mb_result_def fun_eq_iff map_add_def restrict_map_def split: option.split)
  have d: "mb_deleted (mb_op x b) \<inter> dom (mb_dirty (mb_op x b)) = {}"
    using assms by (cases x) (auto simp: mb_set_def mb_delete_def mb_clear_def)
  have "(if k \<in> mb_deleted (mb_op x b) then None else case mb_dirty (mb_op x b) k of Some v \<Rightarrow> Some (mb_build (mb_op x b) v) | None \<Rightarrow> mb_base (mb_op x b) k)
      = built_op (mb_build b) x (\<lambda>k. if k \<in> mb_deleted b then None else case mb_dirty b k of Some v \<Rightarrow> Some (mb_build b v) | None \<Rightarrow> mb_base b k) k" for k
    by (cases x) (auto simp: mb_set_def mb_delete_def mb_clear_def split: option.split)
  then have "mb_result (mb_op x b) = built_op (mb_build b) x (mb_result b)"
    unfolding result [OF assms] result [OF d] by (rule ext)
  moreover have "mb_build (mb_op x b) = mb_build b" by (cases x) (simp_all add: mb_set_def mb_delete_def mb_clear_def)
  ultimately show ?thesis using d by blast
qed

text \<open>A map builder builds the map that the same operations give on the base, and knows which keys it has.\<close>

theorem map_builder_exact:
  "mb_result (fold mb_op ops (new_map_builder base f)) = fold (built_op f) ops base
   \<and> mb_has (fold mb_op ops (new_map_builder base f)) k = (fold (built_op f) ops base k \<noteq> None)"
proof -
  have "mb_deleted (fold mb_op ops b) \<inter> dom (mb_dirty (fold mb_op ops b)) = {} \<and> mb_build (fold mb_op ops b) = mb_build b
      \<and> mb_result (fold mb_op ops b) = fold (built_op (mb_build b)) ops (mb_result b)"
    if "mb_deleted b \<inter> dom (mb_dirty b) = {}" for b :: "('a, 'b, 'c) map_builder"
    using that
  proof (induction ops arbitrary: b)
    case (Cons x ops)
    then show ?case using mb_op_step [OF Cons.prems, of x] by simp
  qed simp
  note run = this [of "new_map_builder base f"]
  have new: "mb_deleted (new_map_builder base f) \<inter> dom (mb_dirty (new_map_builder base f)) = {}" "mb_build (new_map_builder base f) = f"
    "mb_result (new_map_builder base f) = base"
    by (simp_all add: new_map_builder_def mb_result_def)
  have has: "mb_has b k \<longleftrightarrow> mb_result b k \<noteq> None" if "mb_deleted b \<inter> dom (mb_dirty b) = {}" for b :: "('a, 'b, 'c) map_builder"
    using that by (auto simp: mb_has_def mb_result_def map_add_def restrict_map_def split: option.split)
  show ?thesis using run new has [of "fold mb_op ops (new_map_builder base f)"] by simp
qed

section \<open>Visiting the entries\<close>

text \<open>The visitor that notes every entry it sees.\<close>

definition note_entry :: "('k, 'v) map_entry \<Rightarrow> ('k, 'v) dirty_entries \<times> ('k \<times> 'v) list \<Rightarrow> bool \<times> ('k, 'v) dirty_entries \<times> ('k \<times> 'v) list" where
  "note_entry e st = (True, fst st, snd st @ [(me_key e, me_value e)])"

fun live_entries :: "('k, 'v) dirty_entries \<Rightarrow> 'k list \<Rightarrow> ('k \<times> 'v) list" where
  "live_entries d [] = []"
| "live_entries d (k # ks) = (case d k of Some e \<Rightarrow> if me_delete e then live_entries d ks else (k, me_value e) # live_entries d ks | None \<Rightarrow> live_entries d ks)"

fun other_entries :: "('k \<rightharpoonup> 'v) \<Rightarrow> 'k list \<Rightarrow> 'k list \<Rightarrow> ('k \<times> 'v) list" where
  "other_entries base seen [] = []"
| "other_entries base seen (k # ks) =
     (if k \<in> set seen then other_entries base seen ks
      else case base k of Some v \<Rightarrow> (k, v) # other_entries base seen ks | None \<Rightarrow> other_entries base seen ks)"

lemma range_dirty_notes:
  "(\<forall>k e. d k = Some e \<longrightarrow> me_key e = k) \<Longrightarrow> set ks \<subseteq> dom d \<Longrightarrow> range_dirty note_entry ks (d, s) = Some (True, d, s @ live_entries d ks)"
  by (induction ks arbitrary: s) (auto simp: note_entry_def split: option.split)

lemma range_base_notes: "range_base note_entry base seen ks (d, s) = (d, s @ other_entries base seen ks)"
  by (induction ks arbitrary: s) (auto simp: note_entry_def base_entry_def split: option.split)

lemma live_entries_keys: "set (map fst (live_entries d ks)) \<subseteq> set ks" "distinct ks \<Longrightarrow> distinct (map fst (live_entries d ks))"
  by (induction ks) (auto split: option.split)

lemma other_entries_keys:
  "set (map fst (other_entries base seen ks)) \<subseteq> set ks - set seen" "distinct ks \<Longrightarrow> distinct (map fst (other_entries base seen ks))"
  by (induction ks) (auto split: option.split)

lemma live_entries_value:
  "(k, v) \<in> set (live_entries d ks) \<longleftrightarrow> k \<in> set ks \<and> (\<exists>e. d k = Some e \<and> \<not> me_delete e \<and> v = me_value e)"
  by (induction ks) (auto split: option.split)

lemma other_entries_value: "(k, v) \<in> set (other_entries base seen ks) \<longleftrightarrow> k \<in> set ks \<and> k \<notin> set seen \<and> base k = Some v"
  by (induction ks) (auto split: option.split)

text \<open>Whatever the orders of the two hash maps, a visit of all entries sees every key of the finalized map once, with
  its value, and changes nothing.\<close>

theorem range_visits_once:
  assumes "run_ops (dm_op dflt) ops (new_dirty_map base) = Some m"
    and "distinct dks" "set dks = dom (dm_dirty m)" "distinct bks" "set bks = dom (dm_base m)"
  shows "\<exists>xs. dm_range note_entry dks bks m [] = Some (m, xs) \<and> distinct (map fst xs) \<and> map_of xs = fst (dm_finalize m)"
proof -
  have "keyed m" using run_ops_keyed [OF _ assms(1)] by (simp add: keyed_def new_dirty_map_def)
  let ?xs = "live_entries (dm_dirty m) dks @ other_entries (dm_base m) dks bks"
  have range: "dm_range note_entry dks bks m [] = Some (m, ?xs)"
    using range_dirty_notes [where d = "dm_dirty m" and ks = dks and s = "[]"] \<open>keyed m\<close> assms(3) by (simp add: dm_range_def keyed_def range_base_notes)
  have d: "distinct (map fst ?xs)"
    using live_entries_keys [where d = "dm_dirty m" and ks = dks] other_entries_keys [where base = "dm_base m" and seen = dks and ks = bks] assms(2,4) by auto
  have "(k, v) \<in> set ?xs \<longleftrightarrow> dm_view m k = Some v" for k v
    using assms(3,5) by (auto simp: live_entries_value other_entries_value dm_view_def split: option.split)
  then have "map_of ?xs k = dm_view m k" for k
    using map_of_eq_Some_iff [OF d, of k] by (metis not_None_eq)
  then show ?thesis using range d by (auto simp: finalize_view)
qed

theorem range_visits_once_witness:
  "\<exists>m xs. dm_range note_entry [True] [False] m [] = Some (m, xs) \<and> map_of xs = [False \<mapsto> 1, True \<mapsto> (2 :: nat)]"
proof -
  let ?m = "dm_add 0 True 2 (new_dirty_map [False \<mapsto> (1 :: nat)])"
  have "run_ops (dm_op 0) [Add True 2] (new_dirty_map [False \<mapsto> (1 :: nat)]) = Some ?m" by simp
  moreover have "set [True] = dom (dm_dirty ?m)" "set [False] = dom (dm_base ?m)" by (auto simp: dm_add_def new_dirty_map_def)
  ultimately obtain xs where "dm_range note_entry [True] [False] ?m [] = Some (?m, xs)" "map_of xs = fst (dm_finalize ?m)"
    using range_visits_once [of 0 "[Add True 2]" "[False \<mapsto> (1 :: nat)]" ?m "[True]" "[False]"] by auto
  moreover have "fst (dm_finalize ?m) = [False \<mapsto> 1, True \<mapsto> 2]"
    by (auto simp: finalize_view dm_view_def dm_add_def new_dirty_map_def fun_eq_iff)
  ultimately show ?thesis by auto
qed

end
