(* ===== verification/Spec2Isabelle.thy ===== *)
theory Spec2Isabelle
  imports Semver OrderedCollections CopyOnWrite Sets Arena SourceMap CoreUtils SourceMapper Bfs ScannerTrivia VfsTraversal Glob PrinterProofs Escapes ChangeTracker PositionMap OverlayFs JsonRpc RefCountCache DirtyMap
begin

text \<open>
  A verification library for the core data structures and text processing of typescript-rs, a port of the native
  TypeScript compiler and language server to Rust. The repository is a workspace of crates under
  \<open>src/crates\<close>; a file name below is relative to that directory.

  \<^bold>\<open>The program and its parts.\<close> A compilation reads files that \<open>ts-tsoptions\<close> and the
  matcher of \<open>ts-vfs\<close> select, \<open>ts-scanner\<close> splits their texts into tokens, \<open>ts-parser\<close>
  builds syntax trees, \<open>ts-binder\<close> and \<open>ts-checker\<close> give them symbols and types,
  \<open>ts-transformers\<close> rewrites them, and \<open>ts-printer\<close> writes them through its text writers while
  \<open>ts-sourcemap\<close> records where each piece of text came from. The language server (\<open>ts-lsp\<close>,
  \<open>ts-ls\<close>, \<open>ts-project\<close>) answers requests over the same data; it converts positions and file
  names between the protocol and the compiler. Underneath lie the containers of \<open>ts-collections\<close>, the helpers
  of \<open>ts-core\<close>, the paths of \<open>ts-tspath\<close> and the versions of \<open>ts-semver\<close>. The library
  models these lower layers, the whole way from text to tokens, and the parts of the upper layers that work on texts,
  positions, names and maps without a syntax tree.

  \<^bold>\<open>Foundations.\<close>
  \<^item> \<open>Prelude\<close>: orderings and comparators, Rust's functions on strings, slices and decimal numbers, and
    the facts on them that the components share.
  \<^item> \<open>MachineInt\<close>: \<open>i32\<close> as an \<open>int\<close> whose operations wrap (\<open>wrap32\<close>).
    Counters whose width matters as such (\<open>u32\<close> of versions, arena indices and protocol positions) are
    \<open>32 word\<close>.
  \<^item> \<open>Utf8\<close>: the encoding of Rust strings, which are lists of bytes; \<open>enc cs\<close> is the string of the
    characters \<open>cs\<close>, and the slices that panic inside a character are partial.
  \<^item> \<open>Interfaces\<close>: the contracts of the containers as locales (maps, maps with deletion, sets), with what
    follows for sequences of operations; the containers interpret them.

  \<^bold>\<open>Containers\<close> (\<open>ts-collections\<close>).
  \<^item> \<open>OrderedCollections\<close>: \<open>OrderedMap\<close> and \<open>OrderedSet\<close>
    (\<open>ordered_map.rs\<close>, \<open>ordered_set.rs\<close>), a hash map of values beside a list of keys. The list and
    the map have the same keys after every operation, and the operations refine those of an association list.
  \<^item> \<open>CopyOnWrite\<close>: \<open>CopyOnWriteMap\<close> (\<open>cow.rs\<close>) over an explicit store of
    reference-counted cells; the references refine independent copies.
  \<^item> \<open>Sets\<close>: \<open>Set\<close>, \<open>MultiMap\<close>, \<open>SyncMap\<close>,
    \<open>SyncSet\<close>; a method of the last two holds its lock throughout and is one step.
  \<^item> \<open>Arena\<close>: \<open>Arena\<close>, \<open>ArenaMap\<close> (\<open>arena.rs\<close>); fresh 32-bit indices, side tables.

  \<^bold>\<open>Helpers\<close> (\<open>ts-core\<close>, \<open>ts-jsnum\<close>, \<open>ts-semver\<close>, \<open>ts-tspath\<close>).
  \<^item> \<open>CoreUtils\<close>: \<open>core.rs\<close>, \<open>binarysearch.rs\<close>, \<open>pattern.rs\<close>,
    \<open>text.rs\<close>, \<open>stack.rs\<close>. \<open>Bfs\<close>: \<open>bfs.rs\<close>; the search returns on every graph
    with finitely many reachable nodes and its path is a shortest one.
  \<^item> \<open>BigInts\<close>: the \<open>PseudoBigInt\<close> of \<open>ts-jsnum/src/lib.rs\<close>.
  \<^item> \<open>Semver\<close>: \<open>ts-semver/src/lib.rs\<close>; the order is the precedence of the specification,
    printing and parsing are inverse, range tests return.
  \<^item> \<open>TsPath\<close>: \<open>ts-tspath/src/path.rs\<close>; the fast paths of normalization agree with the reduction
    of components, and relative paths lead to their target.

  \<^bold>\<open>Text and tokens\<close> (\<open>ts-scanner\<close>, \<open>ts-stringutil\<close>, parts of \<open>ts-ast\<close>).
  \<^item> \<open>Lines\<close>: the starts of lines and the conversions between byte positions, lines, byte and UTF-16
    columns. \<open>PositionMap\<close>: \<open>ts-ast/src/positionmap.rs\<close>.
  \<^item> \<open>ScannerTables\<close>: tokens, keywords, identifier ranges. \<open>Trivia\<close>: what works on a text and a
    position: \<open>skip_trivia\<close>, comment ranges, conflict markers, shebangs.
  \<^item> \<open>Scanner\<close>: the state \<open>scanner\<close> (fields as in the Rust struct; the errors and comment
    directives are lists in the state instead of callbacks) and every operation of \<open>scanner.rs\<close> but the regular
    expressions. \<open>ScannerProofs\<close> and \<open>ScannerTokens\<close> follow the operations in the order of their
    calls: each returns from a character boundary and leaves the scanner at a later one. \<open>ScannerRuns\<close> has the
    runs: a whole text is scanned in at most as many tokens as it has bytes and the tokens cover it; a rewind restores
    the state of its mark. \<open>ScannerTrivia\<close>: \<open>scan\<close> finds the same starts of tokens as
    \<open>skip_trivia\<close>.

  \<^bold>\<open>Output\<close> (\<open>ts-sourcemap\<close>, \<open>ts-printer\<close>).
  \<^item> \<open>SourceMap\<close>: generator (\<open>generator.rs\<close>), decoder (\<open>decoder.rs\<close>), line
    information and the URL comment. The decoder finds exactly the mappings that the generator was given.
    \<open>SourceMapper\<close>: \<open>source_mapper.rs\<close>, the nearest mapping in both directions.
  \<^item> \<open>PrinterUtilities\<close>: the parts of \<open>utilities.rs\<close> that work on texts; \<open>PrinterProofs\<close>:
    the line cache, names made from module names; \<open>Escapes\<close>: what the printer escapes the scanner reads back.
  \<^item> \<open>TextWriter\<close>: \<open>textwriter.rs\<close>, \<open>singlelinestringwriter.rs\<close>, and the trait
    \<open>EmitTextWriter\<close> as a locale with both as interpretations; the position a writer reports is the one at
    which the next text stands. \<open>ChangeTracker\<close>: \<open>changetrackerwriter.rs\<close>.

  \<^bold>\<open>Files and the language server\<close> (\<open>ts-vfs\<close>, \<open>ts-glob\<close>, \<open>ts-ls\<close>, \<open>ts-lsproto\<close>,
  \<open>ts-jsonrpc\<close>, \<open>ts-project\<close>, \<open>ts-project-support\<close>).
  \<^item> \<open>VfsMatch\<close>: \<open>vfsmatch/mod.rs\<close>, the include and exclude specifications; \<open>VfsMatching\<close>:
    matching of path strings by offsets is matching of the lists of their parts, and pruning directories loses no file;
    \<open>VfsTraversal\<close>: the traversal ends, also with symbolic links to directories above, and is sound.
  \<^item> \<open>Glob\<close>: \<open>ts-glob/src/lib.rs\<close>, parser, printing, matching.
  \<^item> \<open>LspConverters\<close>: \<open>lsconv/linemap.rs\<close> and the positions of \<open>lsconv/converters.rs\<close>.
    \<open>DocumentUri\<close>: file names, URIs and back, over \<open>Utf8Lossy\<close>, the decoding of bytes that need not be
    UTF-8. \<open>TextChange\<close>: \<open>ts-core/src/textchange.rs\<close>.
  \<^item> \<open>JsonRpc\<close>: \<open>ts-jsonrpc/src/lib.rs\<close>; frames are read back as they were written, in whatever
    pieces the bytes arrive.
  \<^item> \<open>OverlayFs\<close>: \<open>overlayfs.rs\<close>, \<open>filechange.rs\<close>. A batch of notifications is reduced to
    the net events of each file (\<open>collect_events\<close>, \<open>add_event\<close>), which then change the overlays
    (\<open>process_file_events\<close>). Positions, URIs and text changes come together here: the overlay of an open file
    follows the document of its editor.
  \<^item> \<open>RefCountCache\<close>: \<open>refcountcache.rs\<close>; the operations are sequences of steps, one per lock, and
    \<open>interleave\<close> mixes those of several threads. One after the other they refine a map with counts; concurrent
    acquires share one value; a \<open>deref\<close> and an \<open>acquire\<close> can interleave so that an entry in use is lost.
  \<^item> \<open>DirtyMap\<close>: \<open>dirty/map.rs\<close>, \<open>mapbuilder.rs\<close>, \<open>box.rs\<close>; a dirty map refines an
    ordinary one.

  \<^bold>\<open>Conventions.\<close> A struct is a record, an enum a datatype, a method a function from the state to the state (and
  its result). A panic is \<open>None\<close>; a \<open>Result\<close> is a sum with the error on the left. A loop of the code
  is a recursive function of its local variables, with a termination proof. Arithmetic is that of a release build:
  where it can overflow, the wrapped value is computed and the bound appears in the theorem.

  \<^bold>\<open>Bounds and fuel.\<close> Texts are shorter than 2 GB (\<open>short_text\<close>) because positions are
  \<open>i32\<close>. Source map columns, lines and indices are below \<open>2 ^ 30\<close> in the round trip: the encoder
  shifts the sign in as a bit of an \<open>i32\<close>. Fuel is used in three places, each with a proof that it is enough:
  the tokens of a text (one more than its bytes, each token but the last advances), the visits of a
  directory (more than the number of real paths; every visited real path is recorded), and the glob parser (twice the length of
  the pattern and two). The breadth-first search is a partial function, and returning is part of its theorem.

  \<^bold>\<open>Parameters.\<close> Code outside the repository is an argument: Unicode lower-casing, the formatting of floating
  point numbers, \<open>serde_json\<close>, \<open>base64\<close>, the path found by the \<open>url\<close> crate, the hash of texts, the order in which hash maps are
  visited, and the operations of the file system.

  \<^bold>\<open>Not modelled.\<close> The syntax tree of \<open>ts-ast\<close> with its generated accessors, and all that computes on it:
  parser, binder, checker, transformers, the emitter of the printer, formatter, module resolution, program construction
  the features of the language service, and the
  sessions and snapshots of the project service. A faithful model of any of them starts with the node store, some 28,000
  lines, a third of them generated, and the checker alone has 140,000 lines. Also left out: regular expression
  literals, floating point numbers, JSON, I/O, background tasks, generated tables of messages, and test support.
\<close>

end
